(* ===== verification/Prelude.thy ===== *)
theory Prelude
  imports Main "HOL-Library.Word"
begin

text \<open>
  What every component shares: the names of the machine types, byte strings, the result of a
  computation that may run into undefined behaviour of C, and the generic lemmas on lists and
  words that the component proofs use.
\<close>

unbundle bit_operations_syntax

section \<open>Machine types and byte strings\<close>

type_synonym u8 = "8 word"
type_synonym u16 = "16 word"
type_synonym u32 = "32 word"
type_synonym u64 = "64 word"
type_synonym bytes = "8 word list"

text \<open>
  A \<open>const char *\<close> with its length is a byte list. Where the code tests the pointer for NULL the
  model has a \<open>bytes option\<close>, \<open>None\<close> for the null pointer; a null pointer comes with length 0.
  Reading \<open>s[i]\<close> out of range is undefined in C, so the byte at a position is an option.
\<close>

definition byte_at :: "bytes \<Rightarrow> nat \<Rightarrow> u8 option" where
  "byte_at s i = (if i < length s then Some (s ! i) else None)"

definition sub_list :: "nat \<Rightarrow> nat \<Rightarrow> 'a list \<Rightarrow> 'a list" where
  "sub_list i n xs = take n (drop i xs)"

named_theorems byte_simps \<open>reading bytes and slices of byte strings\<close>
named_theorems step_simps \<open>one-step behaviour of the virtual machine\<close>
named_theorems inv_intros \<open>operations keep the invariant of their component\<close>

lemma byte_at_Some [byte_simps]: "i < length s \<Longrightarrow> byte_at s i = Some (s ! i)"
  by (simp add: byte_at_def)

lemma byte_at_eq_Some [byte_simps]: "byte_at s i = Some b \<longleftrightarrow> i < length s \<and> s ! i = b"
  by (auto simp: byte_at_def)

lemma byte_at_append_left: "i < length s \<Longrightarrow> byte_at (s @ t) i = byte_at s i"
  by (simp add: byte_at_def nth_append)

lemma length_sub_list [simp]: "length (sub_list i n xs) = min n (length xs - i)"
  by (auto simp: sub_list_def)

lemma sub_list_0 [simp]: "sub_list i 0 xs = []"
  by (simp add: sub_list_def)

lemma sub_list_all [simp]: "sub_list 0 (length xs) xs = xs"
  by (simp add: sub_list_def)

lemma sub_list_append: "sub_list i m xs @ sub_list (i + m) n xs = sub_list i (m + n) xs"
  by (simp add: sub_list_def take_add add.commute)

lemma sub_list_drop: "length xs \<le> i + n \<Longrightarrow> sub_list i n xs = drop i xs"
  by (simp add: sub_list_def)

lemma nth_sub_list: "k < n \<Longrightarrow> i + k < length xs \<Longrightarrow> sub_list i n xs ! k = xs ! (i + k)"
  by (simp add: sub_list_def)

lemma sub_list_Suc: "i < length xs \<Longrightarrow> sub_list i (Suc n) xs = xs ! i # sub_list (Suc i) n xs"
  by (simp add: sub_list_def Cons_nth_drop_Suc [symmetric])

section \<open>Words\<close>

lemma unat_u8_less: "unat (x :: u8) < 256"
  using unsigned_less [of x, where ?'a = nat] by simp

lemma u8_less_iff: "(x :: u8) < y \<longleftrightarrow> unat x < unat y"
  by (rule word_less_nat_alt)

text \<open>Words are equal when they agree on every bit position, written out.\<close>

lemma u8_eqI:
  fixes x y :: u8
  shows "\<lbrakk>bit x 0 = bit y 0; bit x 1 = bit y 1; bit x 2 = bit y 2; bit x 3 = bit y 3;
     bit x 4 = bit y 4; bit x 5 = bit y 5; bit x 6 = bit y 6; bit x 7 = bit y 7\<rbrakk> \<Longrightarrow> x = y"
  by (rule bit_word_eqI) (simp add: less_Suc_eq numeral_eq_Suc; elim disjE; simp)

lemma u32_eqI:
  fixes x y :: u32
  shows "\<lbrakk>bit x 0 = bit y 0; bit x 1 = bit y 1; bit x 2 = bit y 2; bit x 3 = bit y 3;
     bit x 4 = bit y 4; bit x 5 = bit y 5; bit x 6 = bit y 6; bit x 7 = bit y 7;
     bit x 8 = bit y 8; bit x 9 = bit y 9; bit x 10 = bit y 10; bit x 11 = bit y 11;
     bit x 12 = bit y 12; bit x 13 = bit y 13; bit x 14 = bit y 14; bit x 15 = bit y 15;
     bit x 16 = bit y 16; bit x 17 = bit y 17; bit x 18 = bit y 18; bit x 19 = bit y 19;
     bit x 20 = bit y 20; bit x 21 = bit y 21; bit x 22 = bit y 22; bit x 23 = bit y 23;
     bit x 24 = bit y 24; bit x 25 = bit y 25; bit x 26 = bit y 26; bit x 27 = bit y 27;
     bit x 28 = bit y 28; bit x 29 = bit y 29; bit x 30 = bit y 30; bit x 31 = bit y 31\<rbrakk> \<Longrightarrow> x = y"
  by (rule bit_word_eqI) (simp add: less_Suc_eq numeral_eq_Suc; elim disjE; simp)

lemma not_bit_above:
  fixes w :: "'a :: len word"
  assumes "w < 2 ^ k" "k < LENGTH('a)" "k \<le> n"
  shows "\<not> bit w n"
proof -
  have "take_bit k w = w"
    using assms(1,2) by (simp add: take_bit_eq_mod mod_word_less)
  then have "bit w n \<longleftrightarrow> n < k \<and> bit w n"
    by (metis bit_take_bit_iff)
  with assms(3) show ?thesis by simp
qed

end
