(* ===== verification/Choice_Arena.thy ===== *)
theory Choice_Arena
  imports Prelude
begin

text \<open>
  The page-linked arena of the choice stack, \<^verbatim>\<open>core/src/vm_choice.c\<close>. A record takes its payload
  rounded up to eight bytes plus a leading and a trailing size word with their padding; a record
  that does not fit in the current page opens a new one, and a page that a pop leaves empty is
  freed. A page holds the records that its bytes encode, the latest first, each with its footprint
  in bytes; the size words that the code reads back from memory are these footprints. Allocation
  succeeds in the model.
\<close>

record 'p arena_page =
  pg_cap :: nat
  pg_used :: nat
  pg_recs :: "(nat \<times> 'p) list"

text \<open>The current page, the pages before it (the last one is the head), and the statistics.\<close>

record 'p choice_arena =
  ar_cur :: "'p arena_page"
  ar_prevs :: "'p arena_page list"
  ar_total_used :: nat
  ar_peak_used :: nat
  ar_last_rec_size :: nat

definition CHOICE_ARENA_PAGE_SIZE :: nat where
  "CHOICE_ARENA_PAGE_SIZE = 4096"

definition arena_new_page :: "nat \<Rightarrow> 'p arena_page" where
  "arena_new_page need =
     \<lparr>pg_cap = (if CHOICE_ARENA_PAGE_SIZE < need then need else CHOICE_ARENA_PAGE_SIZE),
      pg_used = 0, pg_recs = []\<rparr>"

definition vm_arena_create :: "'p choice_arena" where
  "vm_arena_create =
     \<lparr>ar_cur = \<lparr>pg_cap = CHOICE_ARENA_PAGE_SIZE, pg_used = 0, pg_recs = []\<rparr>, ar_prevs = [],
      ar_total_used = 0, ar_peak_used = 0, ar_last_rec_size = 0\<rparr>"

definition arena_head :: "'p choice_arena \<Rightarrow> 'p arena_page" where
  "arena_head a = last (ar_cur a # ar_prevs a)"

definition vm_arena_reset :: "'p choice_arena \<Rightarrow> 'p choice_arena" where
  "vm_arena_reset a =
     \<lparr>ar_cur = (arena_head a)\<lparr>pg_used := 0, pg_recs := []\<rparr>, ar_prevs = [],
      ar_total_used = 0, ar_peak_used = 0, ar_last_rec_size = 0\<rparr>"

definition footprint :: "nat \<Rightarrow> nat" where
  "footprint payload_len = (payload_len + 7) div 8 * 8 + 2 * 4 + 8"

definition vm_arena_alloc :: "'p choice_arena \<Rightarrow> nat \<Rightarrow> 'p \<Rightarrow> 'p choice_arena" where
  "vm_arena_alloc a payload_len p =
     (let fp = footprint payload_len;
          fits = (pg_used (ar_cur a) + fp \<le> pg_cap (ar_cur a));
          page = (if fits then ar_cur a else arena_new_page fp);
          prevs = (if fits then ar_prevs a else ar_cur a # ar_prevs a);
          total = ar_total_used a + fp
      in \<lparr>ar_cur = page\<lparr>pg_used := pg_used page + fp, pg_recs := (fp, p) # pg_recs page\<rparr>,
          ar_prevs = prevs, ar_total_used = total,
          ar_peak_used = (if ar_peak_used a < total then total else ar_peak_used a),
          ar_last_rec_size = fp\<rparr>)"

text \<open>The record at the tail of the current page, by its trailing size word.\<close>

definition arena_tail :: "'p arena_page \<Rightarrow> (nat \<times> 'p) option" where
  "arena_tail page = (case pg_recs page of [] \<Rightarrow> None | r # rs \<Rightarrow> Some r)"

definition vm_arena_pop_last :: "'p choice_arena \<Rightarrow> 'p choice_arena" where
  "vm_arena_pop_last a =
     (if ar_total_used a = 0 then a
      else case arena_tail (ar_cur a) of
             None \<Rightarrow> a
           | Some (fp, _) \<Rightarrow>
               (let cur = (ar_cur a)\<lparr>pg_used := pg_used (ar_cur a) - fp,
                                     pg_recs := tl (pg_recs (ar_cur a))\<rparr>;
                    total = ar_total_used a - fp;
                    (page, prevs) = (case ar_prevs a of
                                       q # qs \<Rightarrow> if pg_used cur = 0 then (q, qs) else (cur, q # qs)
                                     | [] \<Rightarrow> (cur, []))
                in a\<lparr>ar_cur := page, ar_prevs := prevs, ar_total_used := total,
                     ar_last_rec_size :=
                       (if 0 < pg_used page
                        then (case arena_tail page of Some (f, _) \<Rightarrow> f | None \<Rightarrow> 0) else 0)\<rparr>))"

text \<open>
  The depth of the stack: on every page the walk reads the leading size words, oldest first, while
  there is room for two size words.
\<close>

fun walk_page :: "nat list \<Rightarrow> nat \<Rightarrow> nat \<Rightarrow> nat" where
  "walk_page [] pos used = 0"
| "walk_page (fp # fps) pos used =
     (if pos + 2 * 4 \<le> used then Suc (walk_page fps (pos + fp) used) else 0)"

definition arena_depth :: "'p choice_arena \<Rightarrow> nat" where
  "arena_depth a =
     sum_list (map (\<lambda>p. walk_page (rev (map fst (pg_recs p))) 0 (pg_used p))
       (rev (ar_cur a # ar_prevs a)))"

section \<open>The arena is a stack\<close>

definition arena_recs :: "'p choice_arena \<Rightarrow> (nat \<times> 'p) list" where
  "arena_recs a = concat (map pg_recs (ar_cur a # ar_prevs a))"

definition arena_stack :: "'p choice_arena \<Rightarrow> 'p list" where
  "arena_stack a = map snd (arena_recs a)"

definition page_wf :: "'p arena_page \<Rightarrow> bool" where
  "page_wf p \<longleftrightarrow> pg_used p = sum_list (map fst (pg_recs p)) \<and> pg_used p \<le> pg_cap p \<and>
     (\<forall>r \<in> set (pg_recs p). 16 \<le> fst r)"

definition arena_wf :: "'p choice_arena \<Rightarrow> bool" where
  "arena_wf a \<longleftrightarrow> (\<forall>p \<in> set (ar_cur a # ar_prevs a). page_wf p) \<and>
     (pg_recs (ar_cur a) \<noteq> [] \<or> ar_prevs a = []) \<and>
     (\<forall>p \<in> set (butlast (ar_prevs a)). pg_recs p \<noteq> []) \<and>
     ar_total_used a = sum_list (map fst (arena_recs a)) \<and>
     ar_total_used a \<le> ar_peak_used a \<and>
     ar_last_rec_size a = (case pg_recs (ar_cur a) of [] \<Rightarrow> 0 | r # rs \<Rightarrow> fst r)"

lemma footprint_ge: "16 \<le> footprint n"
  by (simp add: footprint_def)

lemma footprint_aligned: "8 dvd footprint n"
  by (simp add: footprint_def)

lemma page_wf_used_0: "page_wf p \<Longrightarrow> pg_used p = 0 \<longleftrightarrow> pg_recs p = []"
  by (cases "pg_recs p") (auto simp: page_wf_def)

lemma vm_arena_create_wf: "arena_wf vm_arena_create" "arena_stack vm_arena_create = []"
  by (simp_all add: arena_wf_def vm_arena_create_def page_wf_def arena_recs_def arena_stack_def)

lemma vm_arena_reset_wf:
  assumes "arena_wf a"
  shows "arena_wf (vm_arena_reset a)" "arena_stack (vm_arena_reset a) = []"
    "ar_total_used (vm_arena_reset a) = 0"
proof -
  have "arena_head a \<in> set (ar_cur a # ar_prevs a)" unfolding arena_head_def by (rule last_in_set) simp
  then have "page_wf (arena_head a)" using assms by (auto simp: arena_wf_def)
  then show "arena_wf (vm_arena_reset a)" "arena_stack (vm_arena_reset a) = []"
    "ar_total_used (vm_arena_reset a) = 0"
    by (simp_all add: arena_wf_def vm_arena_reset_def page_wf_def arena_recs_def arena_stack_def)
qed

lemma vm_arena_alloc_recs: "arena_recs (vm_arena_alloc a n p) = (footprint n, p) # arena_recs a"
  by (simp add: vm_arena_alloc_def arena_recs_def Let_def arena_new_page_def)

lemma vm_arena_alloc_stack [simp]: "arena_stack (vm_arena_alloc a n p) = p # arena_stack a"
  by (simp add: arena_stack_def vm_arena_alloc_recs)

lemma vm_arena_alloc_total [simp]: "ar_total_used (vm_arena_alloc a n p) = ar_total_used a + footprint n"
  by (simp add: vm_arena_alloc_def Let_def)

lemma vm_arena_alloc_wf:
  assumes "arena_wf a"
  shows "arena_wf (vm_arena_alloc a n p)"
proof -
  have recs: "arena_recs (vm_arena_alloc a n p) = (footprint n, p) # arena_recs a"
    by (rule vm_arena_alloc_recs)
  have pages: "\<forall>q \<in> set (ar_cur (vm_arena_alloc a n p) # ar_prevs (vm_arena_alloc a n p)). page_wf q"
    using assms footprint_ge [of n]
    by (auto simp: arena_wf_def vm_arena_alloc_def Let_def page_wf_def arena_new_page_def)
  have mid: "\<forall>q \<in> set (butlast (ar_prevs (vm_arena_alloc a n p))). pg_recs q \<noteq> []"
    using assms by (auto simp: arena_wf_def vm_arena_alloc_def Let_def)
  have total: "ar_total_used a = sum_list (map fst (arena_recs a))" "ar_total_used a \<le> ar_peak_used a"
    using assms by (simp_all add: arena_wf_def)
  have "pg_recs (ar_cur (vm_arena_alloc a n p)) \<noteq> []"
    "ar_total_used (vm_arena_alloc a n p) \<le> ar_peak_used (vm_arena_alloc a n p)"
    "ar_last_rec_size (vm_arena_alloc a n p) =
       (case pg_recs (ar_cur (vm_arena_alloc a n p)) of [] \<Rightarrow> 0 | r # rs \<Rightarrow> fst r)"
    by (simp_all add: vm_arena_alloc_def Let_def)
  then show ?thesis unfolding arena_wf_def recs using pages mid total by simp
qed

lemma arena_total_0:
  assumes "arena_wf a"
  shows "ar_total_used a = 0 \<longleftrightarrow> arena_stack a = []"
proof -
  have "\<forall>r \<in> set (arena_recs a). 16 \<le> fst r"
    using assms by (auto simp: arena_wf_def page_wf_def arena_recs_def)
  then show ?thesis using assms
    by (cases "arena_recs a") (auto simp: arena_wf_def arena_stack_def)
qed

lemma arena_tail_top:
  assumes "arena_wf a" "arena_stack a \<noteq> []"
  obtains fp p where "arena_tail (ar_cur a) = Some (fp, p)" "p = hd (arena_stack a)"
    "arena_recs a = (fp, p) # tl (arena_recs a)"
proof -
  have "pg_recs (ar_cur a) \<noteq> []"
    using assms by (auto simp: arena_wf_def arena_stack_def arena_recs_def)
  then obtain fp p rs where "pg_recs (ar_cur a) = (fp, p) # rs" by (cases "pg_recs (ar_cur a)") auto
  then show ?thesis by (intro that [of fp p]) (simp_all add: arena_tail_def arena_stack_def arena_recs_def)
qed

lemma vm_arena_pop_last_wf:
  assumes "arena_wf a"
  shows "arena_wf (vm_arena_pop_last a)" "arena_stack (vm_arena_pop_last a) = tl (arena_stack a)"
proof -
  have "arena_wf (vm_arena_pop_last a) \<and> arena_recs (vm_arena_pop_last a) = tl (arena_recs a)"
  proof (cases "arena_stack a = []")
    case True
    then show ?thesis using assms arena_total_0 [OF assms]
      by (simp add: vm_arena_pop_last_def arena_stack_def)
  next
    case False
    then obtain fp p where t: "arena_tail (ar_cur a) = Some (fp, p)" "arena_recs a = (fp, p) # tl (arena_recs a)"
      using arena_tail_top [OF assms] by metis
    then obtain rs where rs: "pg_recs (ar_cur a) = (fp, p) # rs"
      by (cases "pg_recs (ar_cur a)") (auto simp: arena_tail_def)
    have tot: "ar_total_used a \<noteq> 0" using arena_total_0 [OF assms] False by simp
    have cur: "page_wf (ar_cur a)" and prevs: "\<forall>q \<in> set (ar_prevs a). page_wf q"
      using assms by (simp_all add: arena_wf_def)
    let ?cur = "(ar_cur a)\<lparr>pg_used := pg_used (ar_cur a) - fp, pg_recs := rs\<rparr>"
    have wcur: "page_wf ?cur" using cur rs by (auto simp: page_wf_def)
    have total: "ar_total_used a = fp + sum_list (map fst (tl (arena_recs a)))"
      using assms t(2) by (metis arena_wf_def fst_conv list.simps(9) sum_list.Cons)
    show ?thesis
    proof (cases "ar_prevs a = [] \<or> pg_used ?cur \<noteq> 0")
      case True
      have pop: "vm_arena_pop_last a = a\<lparr>ar_cur := ?cur, ar_total_used := ar_total_used a - fp,
          ar_last_rec_size := (if 0 < pg_used ?cur
             then (case arena_tail ?cur of Some (f, _) \<Rightarrow> f | None \<Rightarrow> 0) else 0)\<rparr>"
        using True tot t(1) rs
        by (cases "ar_prevs a") (simp_all add: vm_arena_pop_last_def Let_def)
      have recs: "arena_recs (vm_arena_pop_last a) = tl (arena_recs a)"
        using pop rs by (simp add: arena_recs_def)
      have "ar_last_rec_size (vm_arena_pop_last a) = (case rs of [] \<Rightarrow> 0 | r # _ \<Rightarrow> fst r)"
        using pop page_wf_used_0 [OF wcur] by (cases rs) (auto simp: arena_tail_def)
      then show ?thesis
        using True recs pop total assms wcur page_wf_used_0 [OF wcur]
        by (auto simp: arena_wf_def)
    next
      case False
      then obtain q qs where q: "ar_prevs a = q # qs" by (cases "ar_prevs a") auto
      have rs0: "rs = []" using False page_wf_used_0 [OF wcur] by simp
      have pop: "vm_arena_pop_last a = a\<lparr>ar_cur := q, ar_prevs := qs, ar_total_used := ar_total_used a - fp,
          ar_last_rec_size := (if 0 < pg_used q
             then (case arena_tail q of Some (f, _) \<Rightarrow> f | None \<Rightarrow> 0) else 0)\<rparr>"
        using False tot t(1) rs q by (simp add: vm_arena_pop_last_def Let_def)
      have recs: "arena_recs (vm_arena_pop_last a) = tl (arena_recs a)"
        using pop rs rs0 q by (simp add: arena_recs_def)
      have wq: "page_wf q" using prevs q by simp
      have "ar_last_rec_size (vm_arena_pop_last a) = (case pg_recs q of [] \<Rightarrow> 0 | r # _ \<Rightarrow> fst r)"
        using pop page_wf_used_0 [OF wq] by (cases "pg_recs q") (auto simp: arena_tail_def)
      moreover have "pg_recs q \<noteq> [] \<or> qs = []" "\<forall>p \<in> set (butlast qs). pg_recs p \<noteq> []"
        using assms q by (auto simp: arena_wf_def split: if_splits)
      moreover have "ar_total_used a \<le> ar_peak_used a" using assms by (simp add: arena_wf_def)
      ultimately show ?thesis
        unfolding arena_wf_def recs using pop total q prevs by simp
    qed
  qed
  then show "arena_wf (vm_arena_pop_last a)" "arena_stack (vm_arena_pop_last a) = tl (arena_stack a)"
    by (simp_all add: arena_stack_def map_tl)
qed

lemma walk_page_length:
  "\<forall>fp \<in> set fps. 16 \<le> fp \<Longrightarrow> used = pos + sum_list fps \<Longrightarrow> walk_page fps pos used = length fps"
  by (induction fps pos used rule: walk_page.induct) auto

lemma arena_depth_length:
  assumes "arena_wf a"
  shows "arena_depth a = length (arena_stack a)"
proof -
  have "walk_page (rev (map fst (pg_recs p))) 0 (pg_used p) = length (pg_recs p)"
    if "p \<in> set (ar_cur a # ar_prevs a)" for p
    using that assms
    by (subst walk_page_length) (auto simp: arena_wf_def page_wf_def sum_list_rev)
  then have "arena_depth a = sum_list (map (\<lambda>p. length (pg_recs p)) (rev (ar_cur a # ar_prevs a)))"
    unfolding arena_depth_def by (intro arg_cong [where f = sum_list] map_cong) auto
  also have "\<dots> = sum_list (map (\<lambda>p. length (pg_recs p)) (ar_cur a # ar_prevs a))"
    by (metis rev_map sum_list_rev)
  finally show ?thesis by (simp add: arena_stack_def arena_recs_def length_concat o_def)
qed

text \<open>
  C22: The arena is a stack over its pages: an allocation pushes its payload, a pop removes the
  record allocated last whatever page it is on, a reset empties the stack, each keeps the arena
  well-formed (footprints add up to the bytes in use, the size of the last record is known), and
  the depth counted by walking the size words is the number of records.
\<close>

theorem choice_arena_is_a_stack:
  assumes "arena_wf a"
  shows "arena_wf (vm_arena_alloc a n p) \<and> arena_stack (vm_arena_alloc a n p) = p # arena_stack a \<and>
     arena_wf (vm_arena_pop_last a) \<and> arena_stack (vm_arena_pop_last a) = tl (arena_stack a) \<and>
     arena_wf (vm_arena_reset a) \<and> arena_stack (vm_arena_reset a) = [] \<and>
     arena_depth a = length (arena_stack a) \<and>
     (ar_total_used a = 0 \<longleftrightarrow> arena_stack a = [])"
  by (simp add: assms vm_arena_alloc_wf vm_arena_pop_last_wf vm_arena_reset_wf arena_depth_length
      arena_total_0)

theorem choice_arena_is_a_stack_witness:
  "arena_stack (vm_arena_pop_last (vm_arena_alloc (vm_arena_alloc vm_arena_create 5000 (1::nat)) 52 2)) = [1]"
  using choice_arena_is_a_stack [OF vm_arena_alloc_wf [OF vm_arena_alloc_wf [OF vm_arena_create_wf(1)]],
      of 5000 "1::nat" 52 2 0 0]
  by (simp add: vm_arena_create_wf)

end
