(* ===== verification/Probe.thy ===== *)
theory Probe
  imports Prelude "HOL-Library.Multiset"
begin

text \<open>
  Open addressing with linear probing, as \<^verbatim>\<open>core/src/table.c\<close> and \<^verbatim>\<open>core/src/array.c\<close> both write it
  out: a slot array whose length is a power of two, an index of 32 bits masked by the length minus
  one, a loop that stops at the first inactive slot, and a rehash into a larger array. The loops
  are shared here over any type of entry; each component supplies its own entry record.

  A probing loop ends only at an inactive slot or at a hit. It has as many rounds as there are
  slots: a walk that has seen every slot repeats itself, so \<open>Spin\<close> is a loop that does not end.
\<close>

datatype probe_result =
    Hit u32
  | Free u32 "u32 option"
  | Spin

fun probe :: "('e \<Rightarrow> bool) \<Rightarrow> ('e \<Rightarrow> bool) \<Rightarrow> ('e \<Rightarrow> bool) \<Rightarrow> 'e list \<Rightarrow> u32 \<Rightarrow> nat \<Rightarrow> u32 \<Rightarrow>
    u32 option \<Rightarrow> probe_result" where
  "probe act hit noval es msk 0 idx tomb = Spin"
| "probe act hit noval es msk (Suc fuel) idx tomb =
     (let e = es ! unat idx
      in if \<not> act e then Free idx tomb
         else if hit e then Hit idx
         else probe act hit noval es msk fuel ((idx + 1) AND msk)
                (if noval e \<and> tomb = None then Some idx else tomb))"

fun free_slot :: "('e \<Rightarrow> bool) \<Rightarrow> 'e list \<Rightarrow> u32 \<Rightarrow> nat \<Rightarrow> u32 \<Rightarrow> u32 option" where
  "free_slot act es msk 0 idx = None"
| "free_slot act es msk (Suc fuel) idx =
     (if \<not> act (es ! unat idx) then Some idx
      else free_slot act es msk fuel ((idx + 1) AND msk))"

fun rehash :: "('e \<Rightarrow> bool) \<Rightarrow> ('e \<Rightarrow> bool) \<Rightarrow> ('e \<Rightarrow> u32) \<Rightarrow> u32 \<Rightarrow> 'e list \<Rightarrow> 'e list \<Rightarrow>
    'e list option" where
  "rehash act live ehash msk [] new = Some new"
| "rehash act live ehash msk (e # old) new =
     (if live e
      then case free_slot act new msk (length new) (ehash e AND msk) of
             None \<Rightarrow> None
           | Some idx \<Rightarrow> rehash act live ehash msk old (new[unat idx := e])
      else rehash act live ehash msk old new)"

definition slot_mask :: "'e list \<Rightarrow> u32" where
  "slot_mask es = of_nat (length es - 1)"

section \<open>Indices\<close>

definition pow2_slots :: "'e list \<Rightarrow> bool" where
  "pow2_slots es \<longleftrightarrow> (\<exists>k \<le> 32. length es = 2 ^ k)"

lemma pow2_slots_pos: "pow2_slots es \<Longrightarrow> 0 < length es"
  by (auto simp: pow2_slots_def)

lemma pow2_slots_update [simp]: "pow2_slots (es[i := e]) = pow2_slots es"
  by (simp add: pow2_slots_def)

lemma slot_mask_update [simp]: "slot_mask (es[i := e]) = slot_mask es"
  by (simp add: slot_mask_def)

lemma mask_index:
  assumes "pow2_slots es"
  shows "unat (w AND slot_mask es) = unat w mod length es"
proof -
  obtain k where k: "k \<le> 32" "length es = 2 ^ k" using assms by (auto simp: pow2_slots_def)
  have "slot_mask es = mask k"
    unfolding slot_mask_def k(2) by (simp add: mask_eq_exp_minus_1 of_nat_diff)
  then have "w AND slot_mask es = take_bit k w" by (simp add: take_bit_eq_mask)
  then show ?thesis using k by (simp add: unsigned_take_bit_eq take_bit_nat_def)
qed

lemma next_index:
  assumes "pow2_slots es"
  shows "unat ((w + 1) AND slot_mask es) = Suc (unat w) mod length es"
proof -
  obtain k where k: "k \<le> 32" "length es = 2 ^ k" using assms by (auto simp: pow2_slots_def)
  have "unat (w + 1) = Suc (unat w) mod 2 ^ 32" by (simp add: unat_word_ariths)
  moreover have "(2::nat) ^ k dvd 2 ^ 32" using k by (intro le_imp_power_dvd)
  ultimately show ?thesis using mask_index [OF assms, of "w + 1"] k by (simp add: mod_mod_cancel)
qed

text \<open>The slot \<open>j\<close> rounds after slot \<open>h\<close>.\<close>

definition slot :: "'e list \<Rightarrow> nat \<Rightarrow> nat \<Rightarrow> nat" where
  "slot es h j = (h + j) mod length es"

lemma slot_update [simp]: "slot (es[i := e]) = slot es"
  by (simp add: slot_def fun_eq_iff)

lemma slot_0 [simp]: "h < length es \<Longrightarrow> slot es h 0 = h"
  by (simp add: slot_def)

lemma slot_less: "0 < length es \<Longrightarrow> slot es h j < length es"
  by (simp add: slot_def)

lemma slot_Suc: "slot es (Suc h mod length es) j = slot es h (Suc j)"
  by (simp add: slot_def mod_add_left_eq)

lemma slot_mod: "slot es (h mod length es) j = slot es h j"
  by (simp add: slot_def mod_add_left_eq)

lemma slot_surj:
  assumes "h < length es" "i < length es"
  obtains j where "j < length es" "i = slot es h j"
proof (cases "h \<le> i")
  case True
  with assms show ?thesis by (intro that [of "i - h"]) (auto simp: slot_def)
next
  case False
  with assms have "(h + (length es - h + i)) mod length es = i" by simp
  with assms False show ?thesis by (intro that [of "length es - h + i"]) (auto simp: slot_def)
qed

lemma slot_inj:
  assumes "slot es h a = slot es h b" "a < length es" "b < length es"
  shows "a = b"
proof -
  have "a mod length es = b mod length es"
    using assms(1) nat_mod_eq_iff [of "h + a" "length es" "h + b"]
      nat_mod_eq_iff [of a "length es" b] by (simp add: slot_def)
  then show ?thesis using assms(2,3) by simp
qed

section \<open>What the loops compute\<close>

lemma probe_run:
  assumes "pow2_slots es" "unat idx < length es" "j < fuel"
    "\<forall>i<j. act (es ! slot es (unat idx) i) \<and> \<not> hit (es ! slot es (unat idx) i)"
    "\<not> act (es ! slot es (unat idx) j) \<or> hit (es ! slot es (unat idx) j)"
  shows "\<exists>ix t. unat ix = slot es (unat idx) j \<and>
      probe act hit noval es (slot_mask es) fuel idx tomb =
        (if act (es ! slot es (unat idx) j) then Hit ix else Free ix t) \<and>
      (t = tomb \<or> (\<exists>i<j. \<exists>iy. t = Some iy \<and> unat iy = slot es (unat idx) i \<and>
                      noval (es ! slot es (unat idx) i)))"
  using assms(2-)
proof (induction j arbitrary: idx fuel tomb)
  case 0
  then obtain f where "fuel = Suc f" by (cases fuel) auto
  with 0 show ?case by (auto simp: Let_def)
next
  case (Suc j)
  then obtain f where f: "fuel = Suc f" by (cases fuel) auto
  let ?idx = "(idx + 1) AND slot_mask es"
  let ?tomb = "if noval (es ! unat idx) \<and> tomb = None then Some idx else tomb"
  have nxt: "slot es (unat ?idx) i = slot es (unat idx) (Suc i)" for i
    using next_index [OF assms(1)] by (simp add: slot_Suc)
  have here: "act (es ! unat idx)" "\<not> hit (es ! unat idx)"
    using Suc.prems(1,3) by auto
  have "unat ?idx < length es"
    using mask_index [OF assms(1)] pow2_slots_pos [OF assms(1)] by simp
  from Suc.IH [of ?idx f ?tomb] this Suc.prems f
  obtain ix t where ix: "unat ix = slot es (unat idx) (Suc j)"
    "probe act hit noval es (slot_mask es) f ?idx ?tomb =
       (if act (es ! slot es (unat idx) (Suc j)) then Hit ix else Free ix t)"
    "t = ?tomb \<or> (\<exists>i<j. \<exists>iy. t = Some iy \<and> unat iy = slot es (unat idx) (Suc i) \<and>
                      noval (es ! slot es (unat idx) (Suc i)))"
    unfolding nxt by auto
  have "probe act hit noval es (slot_mask es) fuel idx tomb =
      (if act (es ! slot es (unat idx) (Suc j)) then Hit ix else Free ix t)"
    using ix(2) here f by (simp add: Let_def)
  moreover have "t = tomb \<or> (\<exists>i<Suc j. \<exists>iy. t = Some iy \<and> unat iy = slot es (unat idx) i \<and>
                      noval (es ! slot es (unat idx) i))"
    using ix(3)
  proof
    assume "t = ?tomb"
    then show ?thesis using Suc.prems(1) by (cases "noval (es ! unat idx) \<and> tomb = None") auto
  next
    assume "\<exists>i<j. \<exists>iy. t = Some iy \<and> unat iy = slot es (unat idx) (Suc i) \<and>
                      noval (es ! slot es (unat idx) (Suc i))"
    then show ?thesis by (metis Suc_less_eq)
  qed
  ultimately show ?case using ix(1) by blast
qed

lemma free_slot_run:
  assumes "pow2_slots es" "unat idx < length es" "j < fuel"
    "\<forall>i<j. act (es ! slot es (unat idx) i)" "\<not> act (es ! slot es (unat idx) j)"
  shows "\<exists>ix. unat ix = slot es (unat idx) j \<and> free_slot act es (slot_mask es) fuel idx = Some ix"
  using assms(2-)
proof (induction j arbitrary: idx fuel)
  case 0
  then obtain f where "fuel = Suc f" by (cases fuel) auto
  with 0 show ?case by auto
next
  case (Suc j)
  then obtain f where f: "fuel = Suc f" by (cases fuel) auto
  let ?idx = "(idx + 1) AND slot_mask es"
  have nxt: "slot es (unat ?idx) i = slot es (unat idx) (Suc i)" for i
    using next_index [OF assms(1)] by (simp add: slot_Suc)
  have here: "act (es ! unat idx)" using Suc.prems(1,3) by auto
  have "unat ?idx < length es"
    using mask_index [OF assms(1)] pow2_slots_pos [OF assms(1)] by simp
  from Suc.IH [of ?idx f] this Suc.prems f
  show ?case unfolding nxt using here f by auto
qed

text \<open>The first stop on the way from a slot: it exists when some slot is inactive.\<close>

lemma first_stop:
  assumes "h < length es" "i < length es" "P (es ! i)"
  obtains j where "j < length es" "P (es ! slot es h j)" "\<forall>m<j. \<not> P (es ! slot es h m)"
proof -
  obtain j0 where j0: "j0 < length es" "i = slot es h j0" using assms by (auto elim: slot_surj)
  define j where "j = (LEAST j. P (es ! slot es h j))"
  have "P (es ! slot es h j)" unfolding j_def using j0 assms(3) by (intro LeastI) auto
  moreover have "j \<le> j0" unfolding j_def using j0 assms(3) by (intro Least_le) auto
  moreover have "\<forall>m<j. \<not> P (es ! slot es h m)" unfolding j_def using not_less_Least by blast
  ultimately show ?thesis using j0 by (intro that [of j]) auto
qed

lemma mset_filter_update:
  assumes "i < length es"
  shows "add_mset (es ! i) (mset (es[i := e])) = add_mset e (mset es)"
proof -
  have "es ! i \<in># mset es" using assms by simp
  then show ?thesis using assms by (simp add: mset_update insert_DiffM)
qed

lemma filter_update_fill:
  assumes "i < length es" "\<not> P (es ! i)" "P e"
  shows "mset (filter P (es[i := e])) = add_mset e (mset (filter P es))"
proof -
  have "filter_mset P (add_mset (es ! i) (mset (es[i := e]))) = filter_mset P (add_mset e (mset es))"
    using mset_filter_update [OF assms(1)] by simp
  then show ?thesis using assms by (simp flip: mset_filter)
qed

lemma filter_update_swap:
  assumes "i < length es" "P (es ! i)" "P e"
  shows "add_mset (es ! i) (mset (filter P (es[i := e]))) = add_mset e (mset (filter P es))"
proof -
  have "filter_mset P (add_mset (es ! i) (mset (es[i := e]))) = filter_mset P (add_mset e (mset es))"
    using mset_filter_update [OF assms(1)] by simp
  then show ?thesis using assms by (simp flip: mset_filter)
qed

lemma filter_update_drop:
  assumes "i < length es" "P (es ! i)" "\<not> P e"
  shows "add_mset (es ! i) (mset (filter P (es[i := e]))) = mset (filter P es)"
proof -
  have "filter_mset P (add_mset (es ! i) (mset (es[i := e]))) = filter_mset P (add_mset e (mset es))"
    using mset_filter_update [OF assms(1)] by simp
  then show ?thesis using assms by (simp flip: mset_filter)
qed

end
