(* ===== verification/Open_Addressing.thy ===== *)
theory Open_Addressing
  imports Probe
begin

text \<open>
  The interface a component with open addressing provides, its entry type with a key, a cached
  hash, an optional value and an activity flag, and what the shared probing loops guarantee for
  every such component: the loops end while some slot is inactive, what a fill, an overwrite or a
  removal does to later lookups, and when the chains of probes stay connected. The tables and the
  arrays are the two interpretations.
\<close>

locale open_addressing =
  fixes act :: "'e \<Rightarrow> bool"
    and ekey :: "'e \<Rightarrow> 'k"
    and ehash :: "'e \<Rightarrow> u32"
    and evalue :: "'e \<Rightarrow> 'v option"
    and hashf :: "'k \<Rightarrow> u32"
    and mk :: "'k \<Rightarrow> 'v option \<Rightarrow> 'e"
  assumes mk_act [simp]: "act (mk k v)"
    and mk_key [simp]: "ekey (mk k v) = k"
    and mk_hash [simp]: "ehash (mk k v) = hashf k"
    and mk_value [simp]: "evalue (mk k v) = v"
begin

definition hit :: "'k \<Rightarrow> 'e \<Rightarrow> bool" where
  "hit k e \<longleftrightarrow> ehash e = hashf k \<and> ekey e = k"

definition look :: "'e list \<Rightarrow> 'k \<Rightarrow> probe_result" where
  "look es k = probe act (hit k) (\<lambda>e. evalue e = None) es (slot_mask es) (length es)
     (hashf k AND slot_mask es) None"

definition cached :: "'e list \<Rightarrow> bool" where
  "cached es \<longleftrightarrow> (\<forall>i < length es. act (es ! i) \<longrightarrow> ehash (es ! i) = hashf (ekey (es ! i)))"

definition has_room :: "'e list \<Rightarrow> bool" where
  "has_room es \<longleftrightarrow> pow2_slots es \<and> length (filter act es) < length es"

definition reach :: "'e list \<Rightarrow> nat \<Rightarrow> nat \<Rightarrow> bool" where
  "reach es h i \<longleftrightarrow> (\<exists>j < length es. i = slot es h j \<and> (\<forall>m < j. act (es ! slot es h m)))"

definition chained :: "'e list \<Rightarrow> bool" where
  "chained es \<longleftrightarrow> (\<forall>i < length es. act (es ! i) \<longrightarrow> reach es (unat (ehash (es ! i))) i)"

definition good :: "'e list \<Rightarrow> bool" where
  "good es \<longleftrightarrow> has_room es \<and> cached es \<and> chained es \<and> distinct (map ekey (filter act es))"

definition lookup :: "'e list \<Rightarrow> 'k \<Rightarrow> 'v option" where
  "lookup es k = (case look es k of Hit ix \<Rightarrow> evalue (es ! unat ix) | _ \<Rightarrow> None)"

lemma has_room_inactive:
  assumes "has_room es"
  obtains i where "i < length es" "\<not> act (es ! i)"
proof -
  have "filter act es \<noteq> es" using assms by (auto simp: has_room_def)
  then have "\<exists>e \<in> set es. \<not> act e" by (metis filter_True)
  then show ?thesis using that by (auto simp: in_set_conv_nth)
qed

lemma has_room_pow2: "has_room es \<Longrightarrow> pow2_slots es"
  by (simp add: has_room_def)

text \<open>A lookup ends, at the first slot on its way that is inactive or holds the key.\<close>

lemma look_cases:
  assumes "has_room es"
  obtains (hit) ix j where "look es k = Hit ix" "j < length es" "unat ix = slot es (unat (hashf k)) j"
      "unat ix < length es" "act (es ! unat ix)" "hit k (es ! unat ix)"
      "\<forall>m<j. act (es ! slot es (unat (hashf k)) m) \<and> \<not> hit k (es ! slot es (unat (hashf k)) m)"
  | (free) ix t j where "look es k = Free ix t" "j < length es" "unat ix = slot es (unat (hashf k)) j"
      "unat ix < length es" "\<not> act (es ! unat ix)"
      "\<forall>m<j. act (es ! slot es (unat (hashf k)) m) \<and> \<not> hit k (es ! slot es (unat (hashf k)) m)"
      "t = None \<or> (\<exists>m<j. \<exists>iy. t = Some iy \<and> unat iy = slot es (unat (hashf k)) m \<and>
                     evalue (es ! slot es (unat (hashf k)) m) = None)"
proof -
  have p: "pow2_slots es" and n: "0 < length es"
    using assms has_room_pow2 pow2_slots_pos by blast+
  obtain i where i: "i < length es" "\<not> act (es ! i)" using assms has_room_inactive by blast
  let ?h = "unat (hashf k AND slot_mask es)"
  have h: "?h = unat (hashf k) mod length es" using mask_index [OF p] .
  have sl: "slot es ?h m = slot es (unat (hashf k)) m" for m unfolding h by (rule slot_mod)
  obtain j where j: "j < length es"
    "\<not> act (es ! slot es ?h j) \<or> hit k (es ! slot es ?h j)"
    "\<forall>m<j. \<not> (\<not> act (es ! slot es ?h m) \<or> hit k (es ! slot es ?h m))"
    using first_stop [of ?h es i "\<lambda>e. \<not> act e \<or> hit k e"] i n h by auto
  from probe_run [OF p, of "hashf k AND slot_mask es" j "length es" act "hit k"
      "\<lambda>e. evalue e = None" None] j n h
  obtain ix t where ix: "unat ix = slot es ?h j"
    "look es k = (if act (es ! slot es ?h j) then Hit ix else Free ix t)"
    "t = None \<or> (\<exists>i<j. \<exists>iy. t = Some iy \<and> unat iy = slot es ?h i \<and>
                     evalue (es ! slot es ?h i) = None)"
    unfolding look_def by auto
  have lt: "unat ix < length es" using ix(1) slot_less [OF n] by simp
  show ?thesis
  proof (cases "act (es ! slot es ?h j)")
    case True
    then show ?thesis using hit [of ix j] ix lt j unfolding sl by auto
  next
    case False
    then show ?thesis using free [of ix t j] ix lt j unfolding sl by auto
  qed
qed

lemma look_total: "has_room es \<Longrightarrow> look es k \<noteq> Spin"
  by (cases rule: look_cases [of es k]) auto

text \<open>The converse: what the slots on the way say, the lookup returns.\<close>

lemma look_at:
  assumes "pow2_slots es" "j < length es"
    "\<forall>m<j. act (es ! slot es (unat (hashf k)) m) \<and> \<not> hit k (es ! slot es (unat (hashf k)) m)"
    "\<not> act (es ! slot es (unat (hashf k)) j) \<or> hit k (es ! slot es (unat (hashf k)) j)"
  shows "\<exists>ix t. unat ix = slot es (unat (hashf k)) j \<and>
     look es k = (if act (es ! slot es (unat (hashf k)) j) then Hit ix else Free ix t)"
proof -
  let ?h = "unat (hashf k AND slot_mask es)"
  have h: "?h = unat (hashf k) mod length es" using mask_index [OF assms(1)] .
  have sl: "slot es ?h m = slot es (unat (hashf k)) m" for m unfolding h by (rule slot_mod)
  have "?h < length es" using h pow2_slots_pos [OF assms(1)] by simp
  from probe_run [OF assms(1) this assms(2), of act "hit k" "\<lambda>e. evalue e = None" None] assms(3,4)
  show ?thesis unfolding look_def sl by blast
qed

lemma good_lookup_iff:
  assumes "good es"
  shows "(\<exists>ix. look es k = Hit ix \<and> es ! unat ix = e) \<longleftrightarrow> e \<in> set es \<and> act e \<and> ekey e = k"
    (is "?L \<longleftrightarrow> ?R")
proof
  have room: "has_room es" using assms by (simp add: good_def)
  show "?L \<Longrightarrow> ?R"
    by (cases rule: look_cases [OF room, of k]) (auto simp: hit_def in_set_conv_nth)
  assume R: ?R
  then obtain i where i: "i < length es" "es ! i = e" by (auto simp: in_set_conv_nth)
  have hk: "ehash e = hashf k" and re: "reach es (unat (hashf k)) i"
    using assms R i unfolding good_def cached_def chained_def by auto
  obtain j where j: "j < length es" "i = slot es (unat (hashf k)) j"
    "\<forall>m<j. act (es ! slot es (unat (hashf k)) m)" using re by (auto simp: reach_def)
  have uniq: "e' = e" if "e' \<in> set es" "act e'" "ekey e' = k" for e'
  proof -
    have "inj_on ekey (set (filter act es))"
      using assms by (simp add: good_def distinct_map)
    then show ?thesis by (rule inj_onD) (use that R in auto)
  qed
  have hit: "hit k (es ! slot es (unat (hashf k)) j)" using j(2) i hk R by (simp add: hit_def)
  show ?L
    using room
  proof (cases rule: look_cases [of es k])
    case (hit ix j')
    then show ?thesis using uniq [of "es ! unat ix"] by (auto simp: hit_def)
  next
    case (free ix t j')
    then have False
      using j hit i R by (cases j j' rule: linorder_cases) auto
    then show ?thesis ..
  qed
qed

lemma good_lookup:
  assumes "good es"
  shows "lookup es k = Some v \<longleftrightarrow> (\<exists>e \<in> set es. act e \<and> ekey e = k \<and> evalue e = Some v)"
proof
  assume "lookup es k = Some v"
  then obtain ix where "look es k = Hit ix" "evalue (es ! unat ix) = Some v"
    by (auto simp: lookup_def split: probe_result.splits)
  then show "\<exists>e \<in> set es. act e \<and> ekey e = k \<and> evalue e = Some v"
    using good_lookup_iff [OF assms, of k "es ! unat ix"] by blast
next
  assume "\<exists>e \<in> set es. act e \<and> ekey e = k \<and> evalue e = Some v"
  then obtain e where "e \<in> set es \<and> act e \<and> ekey e = k" "evalue e = Some v" by blast
  then obtain ix where "look es k = Hit ix" "es ! unat ix = e"
    using good_lookup_iff [OF assms, of k e] by blast
  then show "lookup es k = Some v" using \<open>evalue e = Some v\<close> by (simp add: lookup_def)
qed

section \<open>Filling, overwriting and removing a slot\<close>

definition insert_at :: "u32 \<Rightarrow> u32 option \<Rightarrow> nat" where
  "insert_at ix t = unat (case t of None \<Rightarrow> ix | Some iy \<Rightarrow> iy)"

lemma reach_mono:
  assumes "reach es h i" "length es' = length es" "\<And>m. act (es ! m) \<Longrightarrow> act (es' ! m)"
  shows "reach es' h i"
  using assms by (auto simp: reach_def slot_def)

text \<open>After a fill the new key is found at its slot, whatever state the chains are in.\<close>

lemma insert_at_path:
  assumes "has_room es" "look es k = Free ix t"
  obtains j where "j < length es" "insert_at ix t = slot es (unat (hashf k)) j"
    "\<forall>m<j. act (es ! slot es (unat (hashf k)) m) \<and> \<not> hit k (es ! slot es (unat (hashf k)) m)"
    "act (es ! insert_at ix t) \<Longrightarrow> evalue (es ! insert_at ix t) = None"
    "act (es ! insert_at ix t) \<Longrightarrow> \<not> hit k (es ! insert_at ix t)"
    "t = None \<Longrightarrow> \<not> act (es ! insert_at ix t)"
    "t \<noteq> None \<Longrightarrow> act (es ! insert_at ix t)"
  using assms(1)
proof (cases rule: look_cases [of es k])
  case (hit ix' j)
  with assms(2) show ?thesis by simp
next
  case (free ix' t' j)
  then have eq: "ix' = ix" "t' = t" using assms(2) by auto
  show ?thesis
  proof (cases t)
    case None
    then show ?thesis using free eq by (intro that [of j]) (auto simp: insert_at_def)
  next
    case (Some iy)
    then obtain m where m: "m < j" "unat iy = slot es (unat (hashf k)) m"
      "evalue (es ! slot es (unat (hashf k)) m) = None"
      using free eq by auto
    show ?thesis using free m Some by (intro that [of m]) (auto simp: insert_at_def)
  qed
qed

lemma insert_at_less:
  assumes "has_room es" "look es k = Free ix t"
  shows "insert_at ix t < length es"
  using assms by (rule insert_at_path) (simp add: slot_less [OF pow2_slots_pos [OF has_room_pow2 [OF assms(1)]]])

lemma look_fill_same:
  assumes "has_room es" "look es k = Free ix t"
  shows "lookup (es[insert_at ix t := mk k v]) k = v"
proof -
  let ?i = "insert_at ix t"
  let ?es = "es[?i := mk k v]"
  obtain j where j: "j < length es" "?i = slot es (unat (hashf k)) j"
    "\<forall>m<j. act (es ! slot es (unat (hashf k)) m) \<and> \<not> hit k (es ! slot es (unat (hashf k)) m)"
    using insert_at_path [OF assms] by metis
  have less: "?i < length es" using insert_at_less [OF assms] .
  have other: "slot es (unat (hashf k)) m \<noteq> ?i" if "m < j" for m
    using that j(1,2) slot_inj [of es _ m j] by auto
  have "\<exists>ix' t'. unat ix' = slot ?es (unat (hashf k)) j \<and> look ?es k =
      (if act (?es ! slot ?es (unat (hashf k)) j) then Hit ix' else Free ix' t')"
  proof (rule look_at)
    show "pow2_slots ?es" using assms(1) by (simp add: has_room_def)
    show "j < length ?es" using j(1) by simp
    show "\<not> act (?es ! slot ?es (unat (hashf k)) j) \<or> hit k (?es ! slot ?es (unat (hashf k)) j)"
      using j(2) less by (simp add: hit_def)
    show "\<forall>m<j. act (?es ! slot ?es (unat (hashf k)) m) \<and> \<not> hit k (?es ! slot ?es (unat (hashf k)) m)"
      using other [symmetric] j(3) by (auto simp: slot_update)
  qed
  then show ?thesis using j(2) less by (auto simp: lookup_def)
qed

text \<open>An overwrite of a hit and the removal of one, again whatever state the chains are in.\<close>

lemma hit_path:
  assumes "has_room es" "look es k = Hit ix"
  obtains j where "j < length es" "unat ix = slot es (unat (hashf k)) j" "unat ix < length es"
    "act (es ! unat ix)" "hit k (es ! unat ix)"
    "\<And>m. m < j \<Longrightarrow> act (es ! slot es (unat (hashf k)) m)"
    "\<And>m. m < j \<Longrightarrow> \<not> hit k (es ! slot es (unat (hashf k)) m)"
    "\<And>m. m < j \<Longrightarrow> slot es (unat (hashf k)) m \<noteq> unat ix"
  using assms(1)
proof (cases rule: look_cases [of es k])
  case (hit ix' j)
  then have ix: "ix' = ix" using assms(2) by simp
  show ?thesis by (rule that [of j]) (use hit ix in \<open>fastforce+\<close>)
next
  case (free ix' t j)
  with assms(2) show ?thesis by simp
qed

lemma look_update_same:
  assumes "has_room es" "look es k = Hit ix" "act e \<Longrightarrow> hit k e"
  shows "lookup (es[unat ix := e]) k = (if act e then evalue e else None)"
proof -
  let ?es = "es[unat ix := e]"
  obtain j where j: "j < length es" "unat ix = slot es (unat (hashf k)) j" "unat ix < length es"
    "\<And>m. m < j \<Longrightarrow> act (es ! slot es (unat (hashf k)) m)"
    "\<And>m. m < j \<Longrightarrow> \<not> hit k (es ! slot es (unat (hashf k)) m)"
    "\<And>m. m < j \<Longrightarrow> slot es (unat (hashf k)) m \<noteq> unat ix"
    using hit_path [OF assms(1,2)] by metis
  have other: "unat ix \<noteq> slot es (unat (hashf k)) m" if "m < j" for m
    using j(6) [OF that] by simp
  have "\<exists>ix' t'. unat ix' = slot ?es (unat (hashf k)) j \<and> look ?es k =
      (if act (?es ! slot ?es (unat (hashf k)) j) then Hit ix' else Free ix' t')"
  proof (rule look_at)
    show "pow2_slots ?es" using assms(1) by (simp add: has_room_def)
    show "j < length ?es" using j(1) by simp
    show "\<not> act (?es ! slot ?es (unat (hashf k)) j) \<or> hit k (?es ! slot ?es (unat (hashf k)) j)"
      using j(2,3) assms(3) by (cases "act e") simp_all
    show "\<forall>m<j. act (?es ! slot ?es (unat (hashf k)) m) \<and> \<not> hit k (?es ! slot ?es (unat (hashf k)) m)"
      using other j(4,5) by (auto simp: slot_update)
  qed
  then show ?thesis using j(2,3) by (auto simp: lookup_def)
qed

section \<open>Connected chains\<close>

lemma cached_update:
  assumes "cached es" "act e \<Longrightarrow> ehash e = hashf (ekey e)"
  shows "cached (es[i := e])"
  using assms by (cases "i < length es") (auto simp: cached_def nth_list_update)

lemma filter_split:
  "i < length es \<Longrightarrow> filter act es =
     filter act (take i es) @ (if act (es ! i) then [es ! i] else []) @ filter act (drop (Suc i) es)"
  by (subst id_take_nth_drop [of i es]) simp_all

lemma filter_split_update:
  "i < length es \<Longrightarrow> filter act (es[i := e]) =
     filter act (take i es) @ (if act e then [e] else []) @ filter act (drop (Suc i) es)"
  by (simp add: upd_conv_take_nth_drop)

lemma distinct_keys_fill:
  assumes "distinct (map ekey (filter act es))" "i < length es"
    "\<And>e'. e' \<in> set es \<Longrightarrow> act e' \<Longrightarrow> ekey e' \<noteq> ekey e"
  shows "distinct (map ekey (filter act (es[i := e])))"
proof -
  have "ekey e \<notin> ekey ` set (filter act (take i es))" "ekey e \<notin> ekey ` set (filter act (drop (Suc i) es))"
    using assms(3) by (force dest!: in_set_takeD in_set_dropD)+
  then show ?thesis
    using assms(1) unfolding filter_split [OF assms(2)] filter_split_update [OF assms(2)]
    by (simp split: if_splits)
qed

lemma distinct_keys_same:
  assumes "distinct (map ekey (filter act es))" "i < length es"
    "act e \<Longrightarrow> act (es ! i) \<and> ekey e = ekey (es ! i)"
  shows "distinct (map ekey (filter act (es[i := e])))"
  using assms(1,3) unfolding filter_split [OF assms(2)] filter_split_update [OF assms(2)]
  by (cases "act e"; cases "act (es ! i)") simp_all

text \<open>A new key extends the chains and hides no other key.\<close>

lemma good_fill:
  assumes g: "good es" and f: "look es k = Free ix t" and r: "has_room (es[insert_at ix t := mk k v])"
  shows "good (es[insert_at ix t := mk k v])"
    and "lookup (es[insert_at ix t := mk k v]) = (lookup es)(k := v)"
proof -
  let ?i = "insert_at ix t"
  let ?es = "es[?i := mk k v]"
  have room: "has_room es" using g by (simp add: good_def)
  have less: "?i < length es" using insert_at_less [OF room f] .
  obtain j where j: "j < length es" "?i = slot es (unat (hashf k)) j"
    "\<forall>m<j. act (es ! slot es (unat (hashf k)) m) \<and> \<not> hit k (es ! slot es (unat (hashf k)) m)"
    "act (es ! ?i) \<Longrightarrow> evalue (es ! ?i) = None"
    using insert_at_path [OF room f] by metis
  have mono: "act (es ! m) \<Longrightarrow> act (?es ! m)" for m
    using less by (cases "m = ?i") auto
  have absent: "ekey e \<noteq> k" if "e \<in> set es" "act e" for e
    using that good_lookup_iff [OF g, of k e] f by auto
  have cached: "cached ?es" using g by (intro cached_update) (auto simp: good_def)
  have "reach ?es (unat (hashf k)) ?i"
    using j(1,2,3) mono by (auto simp: reach_def)
  moreover have "reach ?es (unat (ehash (es ! i))) i" if "i < length es" "act (es ! i)" for i
    by (rule reach_mono [of es]) (use g that mono in \<open>simp_all add: good_def chained_def\<close>)
  ultimately have chained: "chained ?es" by (auto simp: chained_def nth_list_update less)
  have sub: "set ?es \<inter> Collect act \<subseteq> insert (mk k v) (set es \<inter> Collect act)"
    using set_update_subset_insert [of es ?i "mk k v"] by auto
  have sup: "e \<in> set ?es" if e: "e \<in> set es" "act e" "evalue e \<noteq> None" for e
  proof -
    obtain i where i: "i < length es" "es ! i = e" using e by (auto simp: in_set_conv_nth)
    then have "i \<noteq> ?i" using j(4) e by auto
    then show ?thesis using i by (metis length_list_update nth_list_update_neq nth_mem)
  qed
  have "distinct (map ekey (filter act ?es))"
    using g less absent by (intro distinct_keys_fill) (auto simp: good_def)
  then show good: "good ?es" using r cached chained by (simp add: good_def)
  show "lookup ?es = (lookup es)(k := v)"
  proof
    fix k'
    show "lookup ?es k' = ((lookup es)(k := v)) k'"
    proof (cases "k' = k")
      case True
      then show ?thesis using look_fill_same [OF room f] by simp
    next
      case False
      have "lookup ?es k' = Some w \<longleftrightarrow> lookup es k' = Some w" for w
        unfolding good_lookup [OF g] good_lookup [OF good]
        using sub sup False by (auto simp: subset_iff)
      then show ?thesis using False by (metis fun_upd_other not_Some_eq)
    qed
  qed
qed

text \<open>Overwriting the value of a key that is there.\<close>

lemma good_overwrite:
  assumes g: "good es" and h: "look es k = Hit ix"
    and e: "act e" "ekey e = k" "ehash e = hashf k" and r: "has_room (es[unat ix := e])"
  shows "good (es[unat ix := e])"
    and "lookup (es[unat ix := e]) = (lookup es)(k := evalue e)"
proof -
  let ?es = "es[unat ix := e]"
  have room: "has_room es" using g by (simp add: good_def)
  have less: "unat ix < length es" and old: "act (es ! unat ix)" "hit k (es ! unat ix)"
    using hit_path [OF room h] by metis+
  have mono: "act (es ! m) \<Longrightarrow> act (?es ! m)" for m
    using less e by (cases "m = unat ix") auto
  have cached: "cached ?es" using g e by (intro cached_update) (auto simp: good_def)
  have "reach ?es (unat (ehash (es ! i))) i" if "i < length es" "act (es ! i)" for i
    by (rule reach_mono [of es]) (use g that mono in \<open>simp_all add: good_def chained_def\<close>)
  note keep = this
  have "reach ?es (unat (hashf k)) (unat ix)"
    using keep [OF less old(1)] old(2) by (simp add: hit_def)
  then have chained: "chained ?es"
    using keep e less by (simp add: chained_def nth_list_update)
  have "distinct (map ekey (filter act ?es))"
    using g less old e by (intro distinct_keys_same) (auto simp: good_def hit_def)
  then show good: "good ?es" using r cached chained by (simp add: good_def)
  have other: "(x \<in> set ?es \<and> act x \<and> ekey x = k') = (x \<in> set es \<and> act x \<and> ekey x = k')"
    if "k' \<noteq> k" for x k'
    using that old e less
    by (auto simp: in_set_conv_nth hit_def nth_list_update) (metis nth_list_update_neq)
  show "lookup ?es = (lookup es)(k := evalue e)"
  proof
    fix k'
    show "lookup ?es k' = ((lookup es)(k := evalue e)) k'"
    proof (cases "k' = k")
      case True
      then show ?thesis using look_update_same [OF room h, of e] e by (simp add: hit_def)
    next
      case False
      have "lookup ?es k' = Some w \<longleftrightarrow> lookup es k' = Some w" for w
        unfolding good_lookup [OF g] good_lookup [OF good] using other [OF False] by blast
      then show ?thesis using False by (metis fun_upd_other not_Some_eq)
    qed
  qed
qed

text \<open>
  Removing a key by making its slot inactive keeps the chains connected when the slot is the last
  of its run, that is when the next slot is inactive already.
\<close>

lemma good_remove_last:
  assumes g: "good es" and h: "look es k = Hit ix" and e: "\<not> act e"
    and last: "\<not> act (es ! (Suc (unat ix) mod length es))"
  shows "good (es[unat ix := e])"
    and "lookup (es[unat ix := e]) = (lookup es)(k := None)"
proof -
  let ?es = "es[unat ix := e]"
  have room: "has_room es" using g by (simp add: good_def)
  have less: "unat ix < length es" and old: "act (es ! unat ix)" "hit k (es ! unat ix)"
    using hit_path [OF room h] by metis+
  have cached: "cached ?es" using g e by (intro cached_update) (auto simp: good_def)
  have "mset (filter act es) = add_mset (es ! unat ix) (mset (filter act ?es))"
    using filter_update_drop [of "unat ix" es act e] less old e by simp
  then have "length (filter act es) = Suc (length (filter act ?es))"
    by (metis size_add_mset size_mset)
  then have r: "has_room ?es" using room by (simp add: has_room_def)
  have "reach ?es (unat (ehash (es ! i))) i" if i: "i < length es" "act (es ! i)" "i \<noteq> unat ix" for i
  proof -
    let ?h = "unat (ehash (es ! i))"
    obtain j where j: "j < length es" "i = slot es ?h j" "\<forall>m<j. act (es ! slot es ?h m)"
      using g i by (auto simp: good_def chained_def reach_def)
    have "slot es ?h m \<noteq> unat ix" if m: "m < j" for m
    proof
      assume "slot es ?h m = unat ix"
      then have "slot es ?h (Suc m) = Suc (unat ix) mod length es"
        by (simp add: slot_def mod_Suc_eq flip: \<open>slot es ?h m = unat ix\<close>)
      then have "\<not> act (es ! slot es ?h (Suc m))" using last by simp
      then show False using m j i(2) by (cases "Suc m = j") auto
    qed
    then have "\<forall>m<j. act (?es ! slot es ?h m)" using j(3) by (metis nth_list_update_neq)
    then show ?thesis unfolding reach_def slot_update using j(1,2) by auto
  qed
  then have chained: "chained ?es" using e less by (auto simp: chained_def nth_list_update)
  have "distinct (map ekey (filter act ?es))"
    using g less e by (intro distinct_keys_same) (auto simp: good_def)
  then show good: "good ?es" using r cached chained by (simp add: good_def)
  have other: "(x \<in> set ?es \<and> act x \<and> ekey x = k') = (x \<in> set es \<and> act x \<and> ekey x = k')"
    if "k' \<noteq> k" for x k'
    using that old e less
    by (auto simp: in_set_conv_nth hit_def nth_list_update) (metis nth_list_update_neq)
  show "lookup ?es = (lookup es)(k := None)"
  proof
    fix k'
    show "lookup ?es k' = ((lookup es)(k := None)) k'"
    proof (cases "k' = k")
      case True
      then show ?thesis using look_update_same [OF room h, of e] e by simp
    next
      case False
      have "lookup ?es k' = Some w \<longleftrightarrow> lookup es k' = Some w" for w
        unfolding good_lookup [OF g] good_lookup [OF good] using other [OF False] by blast
      then show ?thesis using False by (metis fun_upd_other not_Some_eq)
    qed
  qed
qed

section \<open>The rehash\<close>

definition live :: "'e \<Rightarrow> bool" where
  "live e \<longleftrightarrow> act e \<and> evalue e \<noteq> None"

text \<open>
  A rehash into an array with more slots than live entries ends, keeps exactly the live entries
  and leaves every one of them connected to its home slot, whatever the chains were before.
\<close>

lemma rehash_chained:
  assumes "pow2_slots new" "chained new" "cached new"
    "\<forall>e \<in> set old. act e \<longrightarrow> ehash e = hashf (ekey e)"
    "length (filter act new) + length (filter live old) < length new"
  shows "\<exists>new'. rehash act live ehash (slot_mask new) old new = Some new' \<and>
     length new' = length new \<and> chained new' \<and> cached new' \<and>
     mset (filter act new') = mset (filter act new) + mset (filter live old)"
  using assms
proof (induction old arbitrary: new)
  case Nil
  then show ?case by simp
next
  case (Cons e old)
  show ?case
  proof (cases "live e")
    case False
    then show ?thesis using Cons by auto
  next
    case True
    then have act: "act e" by (simp add: live_def)
    have n: "0 < length new" using Cons.prems(1) pow2_slots_pos by blast
    have room: "has_room new" using Cons.prems by (simp add: has_room_def)
    then obtain i where i: "i < length new" "\<not> act (new ! i)" using has_room_inactive by blast
    let ?h = "unat (ehash e AND slot_mask new)"
    have h: "?h = unat (ehash e) mod length new" using mask_index [OF Cons.prems(1)] .
    obtain j where j: "j < length new" "\<not> act (new ! slot new ?h j)"
      "\<forall>m<j. \<not> \<not> act (new ! slot new ?h m)"
      using first_stop [of ?h new i "\<lambda>e. \<not> act e"] i n h by auto
    then obtain ix where ix: "unat ix = slot new ?h j"
      "free_slot act new (slot_mask new) (length new) (ehash e AND slot_mask new) = Some ix"
      using free_slot_run [OF Cons.prems(1), of "ehash e AND slot_mask new" j "length new" act] h n
      by (metis mod_less_divisor)
    let ?new = "new[unat ix := e]"
    have less: "unat ix < length new" using ix n slot_less by metis
    have free: "\<not> act (new ! unat ix)" using ix j by simp
    have fill: "mset (filter act ?new) = add_mset e (mset (filter act new))"
      using filter_update_fill [of "unat ix" new act e] less free act by simp
    then have len: "length (filter act ?new) = Suc (length (filter act new))"
      by (metis size_add_mset size_mset)
    have mono: "act (new ! m) \<Longrightarrow> act (?new ! m)" for m
      using free by (cases "m = unat ix") auto
    have "reach ?new (unat (ehash e)) (unat ix)"
      unfolding reach_def slot_update using j ix mono slot_mod [of new "unat (ehash e)"] h
      by (metis length_list_update)
    moreover have "reach ?new (unat (ehash (new ! i))) i" if "i < length new" "act (new ! i)" for i
      by (rule reach_mono [of new]) (use Cons.prems(2) that mono in \<open>simp_all add: chained_def\<close>)
    ultimately have "chained ?new" using less by (auto simp: chained_def nth_list_update)
    moreover have "cached ?new" using Cons.prems act by (intro cached_update) auto
    moreover have "length (filter act ?new) + length (filter live old) < length ?new"
      using len Cons.prems(5) True by simp
    ultimately obtain new' where new': "rehash act live ehash (slot_mask ?new) old ?new = Some new'"
      "length new' = length ?new" "chained new'" "cached new'"
      "mset (filter act new') = mset (filter act ?new) + mset (filter live old)"
      using Cons.IH [of ?new] Cons.prems by auto
    then show ?thesis using True ix(2) fill by (intro exI [of _ new']) auto
  qed
qed

lemma good_rehash:
  assumes "pow2_slots new" "\<forall>e \<in> set new. \<not> act e" "length old < length new" "cached old"
  obtains new' where "rehash act live ehash (slot_mask new) old new = Some new'"
    "length new' = length new" "has_room new'" "chained new'" "cached new'"
    "mset (filter act new') = mset (filter live old)"
    "length (filter act new') \<le> length (filter act old)"
    "good old \<Longrightarrow> good new'" "good old \<Longrightarrow> lookup new' = lookup old"
proof -
  have none: "filter act new = []" using assms(2) by (simp add: filter_empty_conv)
  have inact: "\<not> act (new ! i)" if "i < length new" for i using assms(2) that by simp
  have "length (filter live old) < length new"
    using assms(3) length_filter_le [of live old] by linarith
  then have "\<exists>new'. rehash act live ehash (slot_mask new) old new = Some new' \<and>
     length new' = length new \<and> chained new' \<and> cached new' \<and>
     mset (filter act new') = mset (filter act new) + mset (filter live old)"
    using assms none inact
    by (intro rehash_chained) (auto simp: chained_def cached_def in_set_conv_nth)
  then obtain new' where new': "rehash act live ehash (slot_mask new) old new = Some new'"
    "length new' = length new" "chained new'" "cached new'"
    "mset (filter act new') = mset (filter live old)" using none by auto
  have len: "length (filter act new') = length (filter live old)"
    using new'(5) mset_eq_length by blast
  have sub: "length (filter live old) \<le> length (filter act old)"
    unfolding live_def by (induction old) auto
  have room: "has_room new'"
    using assms(1,3) new'(2) len le_less_trans [OF length_filter_le [of live old] assms(3)]
    by (simp add: has_room_def pow2_slots_def)
  have "mset (map ekey (filter act new')) = mset (map ekey (filter live old))"
    using new'(5) by simp
  then have keys: "distinct (map ekey (filter act new')) = distinct (map ekey (filter live old))"
    using mset_eq_imp_distinct_iff by blast
  have "distinct (map ekey (filter live old))" if "good old"
  proof -
    have "filter live old = filter live (filter act old)"
      by (induction old) (auto simp: live_def)
    moreover have "distinct (map ekey (filter act old))" using that by (simp add: good_def)
    ultimately show ?thesis by (metis distinct_map_filter)
  qed
  then have good: "good new'" if "good old" using that keys room new' by (simp add: good_def)
  have "set (filter act new') = set (filter live old)" using new'(5) by (metis set_mset_mset)
  then have ent: "e \<in> set new' \<and> act e \<longleftrightarrow> e \<in> set old \<and> live e" for e by auto
  have "lookup new' k = lookup old k" if "good old" for k
  proof -
    have "lookup new' k = Some w \<longleftrightarrow> lookup old k = Some w" for w
      unfolding good_lookup [OF that] good_lookup [OF good [OF that]] using ent
      by (auto simp: live_def)
    then show ?thesis by (metis not_Some_eq)
  qed
  then show ?thesis using that [OF new'(1,2) room new'(3,4,5)] len sub good by auto
qed

end

end
