(* ===== verification/Assoc_Store.thy ===== *)
theory Assoc_Store
  imports Prelude
begin

text \<open>
  What a client of a growing map relies on: an empty store, a store operation that may diverge or
  fail in general but succeeds within a budget of operations, and a lookup that sees every value
  stored. The runtime's tables and arrays provide it on their hash tables.
\<close>

fun store_all :: "('s \<Rightarrow> 'k \<Rightarrow> 'v \<Rightarrow> 's option) \<Rightarrow> 's \<Rightarrow> ('k \<times> 'v) list \<Rightarrow> 's option" where
  "store_all st s [] = Some s"
| "store_all st s ((k, v) # kvs) = (case st s k v of None \<Rightarrow> None | Some s' \<Rightarrow> store_all st s' kvs)"

locale assoc_store =
  fixes inv :: "nat \<Rightarrow> 's \<Rightarrow> bool"
    and get :: "'s \<Rightarrow> 'k \<Rightarrow> 'v option"
    and st :: "'s \<Rightarrow> 'k \<Rightarrow> 'v \<Rightarrow> 's option"
    and start :: 's
    and budget :: nat
  assumes start_inv: "inv 0 start"
    and start_get: "get start k = None"
    and st_step: "inv n s \<Longrightarrow> n < budget \<Longrightarrow>
      \<exists>s'. st s k v = Some s' \<and> inv (Suc n) s' \<and> get s' = (get s)(k \<mapsto> v)"
begin

lemma store_all_from:
  "inv n s \<Longrightarrow> n + length kvs \<le> budget \<Longrightarrow>
     \<exists>s'. store_all st s kvs = Some s' \<and> inv (n + length kvs) s' \<and>
          get s' = get s ++ map_of (rev kvs)"
proof (induction kvs arbitrary: n s)
  case Nil
  then show ?case by simp
next
  case (Cons kv kvs)
  obtain k v where kv: "kv = (k, v)" by (cases kv)
  obtain s1 where s1: "st s k v = Some s1" "inv (Suc n) s1" "get s1 = (get s)(k \<mapsto> v)"
    using st_step [of n s k v] Cons.prems by auto
  have "Suc n + length kvs \<le> budget" using Cons.prems by simp
  then obtain s' where "store_all st s1 kvs = Some s'" "inv (Suc n + length kvs) s'"
    "get s' = get s1 ++ map_of (rev kvs)"
    using Cons.IH [OF s1(2)] by blast
  then show ?case using s1 kv by (auto simp: map_add_assoc fun_eq_iff map_add_def split: option.splits)
qed

lemma store_all_get:
  assumes "length kvs \<le> budget"
  shows "\<exists>s'. store_all st start kvs = Some s' \<and> inv (length kvs) s' \<and> get s' = map_of (rev kvs)"
proof -
  have "get start = Map.empty" using start_get by (simp add: fun_eq_iff)
  then show ?thesis using store_all_from [OF start_inv, of kvs] assms by simp
qed

end

end
