(* ===== verification/Counted_Slots.thy ===== *)
theory Counted_Slots
  imports Open_Addressing Assoc_Store
begin

text \<open>
  The hash table the runtime's tables and arrays have in common: slots with a size and a tombstone
  counter of 64 bits that wrap, a resize to twice the slots when the two exceed three quarters of
  them, storing and removing. The operations are stated once over the entry interface and their
  properties proved once; \<^verbatim>\<open>Snobol_Table\<close> and \<^verbatim>\<open>Snobol_Array\<close> show that the operations of the code
  are these on their own entries. An operation is \<open>None\<close> when a probing loop would not end.
\<close>

record 'e slots =
  sl_entries :: "'e list"
  sl_size :: u64
  sl_tombs :: u64

lemma unat_Suc_less: "unat (w :: u64) < 2 ^ 64 - 1 \<Longrightarrow> unat (w + 1) = Suc (unat w)"
  by (subst unat_add_lem [THEN iffD1]) simp_all

lemma unat_pred: "0 < unat (w :: u64) \<Longrightarrow> unat (w - 1) = unat w - 1"
  by (metis One_nat_def unat_eq_zero unat_minus_one less_numeral_extra(3))

lemma pow2_slots_double:
  assumes "pow2_slots es" "length es \<le> 2 ^ 31" "length new = length es * 2"
  shows "pow2_slots new"
proof -
  obtain k where k: "k \<le> 32" "length es = 2 ^ k" using assms by (auto simp: pow2_slots_def)
  have "k \<le> 31"
    by (rule power_le_imp_le_exp [of "2::nat"]) (use assms(2) k(2) in simp_all)
  then show ?thesis using k assms(3) by (auto simp: pow2_slots_def intro!: exI [of _ "Suc k"])
qed

locale counted_slots = open_addressing act ekey ehash evalue hashf mk
  for act :: "'e \<Rightarrow> bool"
    and ekey :: "'e \<Rightarrow> 'k"
    and ehash :: "'e \<Rightarrow> u32"
    and evalue :: "'e \<Rightarrow> 'v option"
    and hashf :: "'k \<Rightarrow> u32"
    and mk :: "'k \<Rightarrow> 'v option \<Rightarrow> 'e" +
  fixes put_value :: "'e \<Rightarrow> 'v \<Rightarrow> 'e"
    and removed :: "'e \<Rightarrow> 'e"
    and zero :: 'e
  assumes put_value_act [simp]: "act (put_value e v) = act e"
    and put_value_key [simp]: "ekey (put_value e v) = ekey e"
    and put_value_hash [simp]: "ehash (put_value e v) = ehash e"
    and put_value_value [simp]: "evalue (put_value e v) = Some v"
    and removed_act [simp]: "\<not> act (removed e)"
    and zero_act [simp]: "\<not> act zero"
begin

definition resize :: "'e slots \<Rightarrow> nat \<Rightarrow> 'e slots option" where
  "resize t n =
     (let new = replicate n zero
      in case rehash act live ehash (slot_mask new) (sl_entries t) new of
           None \<Rightarrow> None
         | Some es \<Rightarrow> Some (t\<lparr>sl_entries := es, sl_tombs := 0\<rparr>))"

definition maybe_resize :: "'e slots \<Rightarrow> 'e slots option" where
  "maybe_resize t =
     (let capacity = length (sl_entries t); threshold = (capacity * 3) div 4
      in if threshold < unat (sl_size t + sl_tombs t) then resize t (capacity * 2) else Some t)"

definition remove_at :: "'e slots \<Rightarrow> u32 \<Rightarrow> 'e slots" where
  "remove_at t ix =
     t\<lparr>sl_entries := (sl_entries t)[unat ix := removed (sl_entries t ! unat ix)],
       sl_size := sl_size t - 1, sl_tombs := sl_tombs t + 1\<rparr>"

definition store :: "'e slots \<Rightarrow> 'k \<Rightarrow> 'v option \<Rightarrow> 'e slots option" where
  "store t0 k v =
     (case maybe_resize t0 of
        None \<Rightarrow> None
      | Some t \<Rightarrow>
          (case look (sl_entries t) k of
             Spin \<Rightarrow> None
           | Hit ix \<Rightarrow>
               (case v of
                  Some w \<Rightarrow> Some (t\<lparr>sl_entries := (sl_entries t)[unat ix := put_value (sl_entries t ! unat ix) w]\<rparr>)
                | None \<Rightarrow> Some (remove_at t ix))
           | Free ix tomb \<Rightarrow>
               Some (t\<lparr>sl_entries := (sl_entries t)[insert_at ix tomb := mk k v],
                       sl_size := sl_size t + 1,
                       sl_tombs := (if tomb \<noteq> None then sl_tombs t - 1 else sl_tombs t)\<rparr>)))"

definition remove_key :: "'e slots \<Rightarrow> 'k \<Rightarrow> (bool \<times> 'e slots) option" where
  "remove_key t k =
     (case look (sl_entries t) k of
        Spin \<Rightarrow> None
      | Hit ix \<Rightarrow> Some (True, remove_at t ix)
      | Free ix tomb \<Rightarrow> Some (False, t))"

definition value_of :: "'e slots \<Rightarrow> 'k \<Rightarrow> 'v option option" where
  "value_of t k =
     (case look (sl_entries t) k of
        Spin \<Rightarrow> None
      | Hit ix \<Rightarrow> Some (evalue (sl_entries t ! unat ix))
      | Free ix tomb \<Rightarrow> Some None)"

definition fresh :: "nat \<Rightarrow> 'e slots" where
  "fresh n = \<lparr>sl_entries = replicate n zero, sl_size = 0, sl_tombs = 0\<rparr>"

text \<open>
  The invariant every operation keeps: a power of two of slots with a free one, cached hashes,
  and counters that do not undercount the active slots.
\<close>

abbreviation in_use :: "'e slots \<Rightarrow> nat" where
  "in_use t \<equiv> length (filter act (sl_entries t))"

definition slots_wf :: "'e slots \<Rightarrow> bool" where
  "slots_wf t \<longleftrightarrow> has_room (sl_entries t) \<and> cached (sl_entries t) \<and>
     16 \<le> length (sl_entries t) \<and> in_use t \<le> unat (sl_size t) \<and>
     in_use t \<le> unat (sl_size t + sl_tombs t)"

text \<open>Connected chains and no key twice, on top.\<close>

definition connected :: "'e slots \<Rightarrow> bool" where
  "connected t \<longleftrightarrow> slots_wf t \<and> good (sl_entries t)"

text \<open>The counters have room for one more entry and the array for one more doubling.\<close>

definition can_grow :: "'e slots \<Rightarrow> bool" where
  "can_grow t \<longleftrightarrow> unat (sl_size t) < 2 ^ 64 - 1 \<and> length (sl_entries t) \<le> 2 ^ 31"

definition slots_map :: "'e slots \<Rightarrow> 'k \<Rightarrow> 'v option" where
  "slots_map t k = lookup (sl_entries t) k"

section \<open>Lookups end\<close>

lemma value_of_map:
  assumes "slots_wf t"
  shows "value_of t k = Some (slots_map t k)"
  using look_total [of "sl_entries t" k] assms
  by (auto simp: value_of_def slots_map_def lookup_def slots_wf_def
      split: probe_result.splits)

lemma empty_connected:
  assumes "pow2_slots (sl_entries t)" "16 \<le> length (sl_entries t)" "\<forall>e \<in> set (sl_entries t). \<not> act e"
  shows "connected t" and "slots_map t k = None"
proof -
  have none: "filter act (sl_entries t) = []" using assms(3) by (simp add: filter_empty_conv)
  show con: "connected t"
    using assms none
    by (cases "sl_entries t = []")
      (auto simp: connected_def slots_wf_def good_def has_room_def cached_def chained_def)
  then have "good (sl_entries t)" by (simp add: connected_def)
  from good_lookup [OF this, of k] show "slots_map t k = None"
    using assms(3) by (auto simp: slots_map_def)
qed

lemma fresh_connected:
  "n = 2 ^ j \<Longrightarrow> j \<le> 32 \<Longrightarrow> 16 \<le> n \<Longrightarrow> connected (fresh n) \<and> slots_map (fresh n) k = None"
  using empty_connected [of "fresh n"] by (auto simp: fresh_def pow2_slots_def)

section \<open>The resize\<close>

lemma resize_spec:
  assumes "slots_wf t" "length (sl_entries t) \<le> 2 ^ 31"
  obtains t' where "resize t (length (sl_entries t) * 2) = Some t'"
    "length (sl_entries t') = length (sl_entries t) * 2" "sl_size t' = sl_size t"
    "sl_tombs t' = 0" "slots_wf t'" "in_use t' \<le> in_use t"
    "connected t \<Longrightarrow> connected t'"
    "connected t \<Longrightarrow> slots_map t' = slots_map t"
proof -
  let ?old = "sl_entries t" and ?n = "length (sl_entries t) * 2"
  let ?new = "replicate ?n zero"
  have wf: "has_room ?old" "cached ?old" "16 \<le> length ?old"
    "in_use t \<le> unat (sl_size t)"
    using assms(1) by (simp_all add: slots_wf_def)
  have p: "pow2_slots ?new"
    using pow2_slots_double [OF has_room_pow2 [OF wf(1)] assms(2), of ?new] by simp
  have inactive: "\<forall>e \<in> set ?new. \<not> act e" by simp
  have less: "length ?old < length ?new" using wf(3) by (cases ?old) simp_all
  obtain es where es: "rehash act live ehash (slot_mask ?new) ?old ?new = Some es"
    "length es = length ?new" "has_room es" "cached es"
    "length (filter act es) \<le> in_use t"
    "good ?old \<Longrightarrow> good es" "good ?old \<Longrightarrow> lookup es = lookup ?old"
    using good_rehash [OF p inactive less wf(2)] by metis
  let ?t = "t\<lparr>sl_entries := es, sl_tombs := 0\<rparr>"
  have wf': "slots_wf ?t"
    using es wf by (simp add: slots_wf_def)
  show ?thesis
    by (rule that [of ?t])
      (use es wf' wf in \<open>auto simp: resize_def connected_def slots_map_def\<close>)
qed

lemma maybe_resize_spec:
  assumes "slots_wf t" "can_grow t"
  obtains t' where "maybe_resize t = Some t'" "slots_wf t'" "sl_size t' = sl_size t"
    "Suc (in_use t') < length (sl_entries t')"
    "unat (sl_size t' + sl_tombs t') < 2 ^ 64 - 1"
    "connected t \<Longrightarrow> connected t'"
    "connected t \<Longrightarrow> slots_map t' = slots_map t"
    "length (sl_entries t') = length (sl_entries t) \<or>
     length (sl_entries t') = length (sl_entries t) * 2 \<and>
       length (sl_entries t) * 3 div 4 < unat (sl_size t + sl_tombs t)"
    "sl_tombs t' = 0 \<or> sl_tombs t' = sl_tombs t"
proof (cases "length (sl_entries t) * 3 div 4 < unat (sl_size t + sl_tombs t)")
  case True
  obtain t' where t': "resize t (length (sl_entries t) * 2) = Some t'"
    "length (sl_entries t') = length (sl_entries t) * 2" "sl_size t' = sl_size t"
    "sl_tombs t' = 0" "slots_wf t'" "in_use t' \<le> in_use t"
    "connected t \<Longrightarrow> connected t'"
    "connected t \<Longrightarrow> slots_map t' = slots_map t"
    using resize_spec [OF assms(1)] assms(2) by (metis can_grow_def)
  have "in_use t < length (sl_entries t)" "16 \<le> length (sl_entries t)"
    using assms(1) by (simp_all add: slots_wf_def has_room_def)
  then have room: "Suc (in_use t') < length (sl_entries t')" using t'(2,6) by linarith
  have sum: "unat (sl_size t' + sl_tombs t') < 2 ^ 64 - 1"
    using t'(3,4) assms(2) by (simp add: can_grow_def)
  show ?thesis
    by (rule that [of t']) (use t' True room sum in \<open>simp_all add: maybe_resize_def Let_def\<close>)
next
  case False
  have len: "16 \<le> length (sl_entries t)" "length (sl_entries t) \<le> 2 ^ 31"
    "in_use t \<le> unat (sl_size t + sl_tombs t)"
    using assms by (simp_all add: slots_wf_def can_grow_def)
  then have room: "Suc (in_use t) < length (sl_entries t)" using False by linarith
  have sum: "unat (sl_size t + sl_tombs t) < 2 ^ 64 - 1" using False len(2) by simp
  show ?thesis
    by (rule that [of t]) (use assms False room sum in \<open>simp_all add: maybe_resize_def Let_def\<close>)
qed

section \<open>Storing\<close>

lemma in_use_fill:
  "i < length es \<Longrightarrow> act e \<Longrightarrow> length (filter act (es[i := e])) =
     (if act (es ! i) then length (filter act es) else Suc (length (filter act es)))"
  using filter_update_swap [of i es act e] filter_update_fill [of i es act e]
  by (cases "act (es ! i)") (metis size_add_mset size_mset nat.inject)+

lemma in_use_drop:
  "i < length es \<Longrightarrow> act (es ! i) \<Longrightarrow> \<not> act e \<Longrightarrow>
     Suc (length (filter act (es[i := e]))) = length (filter act es)"
  using filter_update_drop [of i es act e] by (metis size_add_mset size_mset)

text \<open>Storing a value: it returns, keeps the invariant, and the key then has the value.\<close>

lemma store_fill:
  assumes wf: "slots_wf t" and grow: "can_grow t"
    and r: "maybe_resize t = Some t1" and f: "look (sl_entries t1) k = Free ix tomb"
  obtains t' where "store t k v = Some t'" "slots_wf t'" "slots_map t' k = v"
    "connected t \<Longrightarrow> connected t'"
    "connected t \<Longrightarrow> slots_map t' = (slots_map t)(k := v)"
    "sl_size t' = sl_size t + 1" "length (sl_entries t') = length (sl_entries t1)"
    "unat (sl_size t' + sl_tombs t') \<le> Suc (unat (sl_size t1 + sl_tombs t1))"
proof -
  have t1: "slots_wf t1" "sl_size t1 = sl_size t" "Suc (in_use t1) < length (sl_entries t1)"
    "unat (sl_size t1 + sl_tombs t1) < 2 ^ 64 - 1"
    "connected t \<Longrightarrow> connected t1" "connected t \<Longrightarrow> slots_map t1 = slots_map t"
    using maybe_resize_spec [OF wf grow] r by (metis option.inject)+
  let ?es = "sl_entries t1" and ?i = "insert_at ix tomb" and ?e = "mk k v"
  have room: "has_room ?es" using t1(1) by (simp add: slots_wf_def)
  have f': "look ?es k = Free ix tomb" using f by (simp)
  have less: "?i < length ?es" using insert_at_less [OF room f'] .
  have fresh: "tomb = None \<Longrightarrow> \<not> act (?es ! ?i)"
    using insert_at_path [OF room f'] by metis
  define t' where "t' = t1\<lparr>sl_entries := ?es[?i := ?e], sl_size := sl_size t1 + 1,
     sl_tombs := (if tomb \<noteq> None then sl_tombs t1 - 1 else sl_tombs t1)\<rparr>"
  have store: "store t k v = Some t'"
    using r f by (simp add: store_def t'_def insert_at_def Let_def)
  have count: "in_use t' = (if act (?es ! ?i) then in_use t1 else Suc (in_use t1))"
    using in_use_fill [OF less, of ?e] by (simp add: t'_def)
  have room': "has_room (?es[?i := ?e])"
    using room t1(3) count by (simp add: has_room_def t'_def split: if_splits)
  have size: "unat (sl_size t') = Suc (unat (sl_size t1))"
    using grow t1(2) unat_Suc_less [of "sl_size t1"] by (simp add: t'_def can_grow_def)
  have sum: "sl_size t' + sl_tombs t' =
      (if tomb \<noteq> None then sl_size t1 + sl_tombs t1 else sl_size t1 + sl_tombs t1 + 1)"
    by (simp add: t'_def)
  have "in_use t' \<le> unat (sl_size t' + sl_tombs t')"
  proof (cases tomb)
    case None
    then show ?thesis unfolding sum count using fresh t1(1,4) unat_Suc_less
      by (simp add: slots_wf_def)
  next
    case (Some i)
    then have "act (?es ! ?i)"
      using insert_at_path [OF room f'] by (metis option.distinct(1))
    then show ?thesis unfolding sum count using Some t1(1) by (simp add: slots_wf_def)
  qed
  then have wf': "slots_wf t'"
    using t1(1) count size room' by (simp add: slots_wf_def t'_def cached_update)
  have map: "slots_map t' k = v"
    using look_fill_same [OF room f'] by (simp add: slots_map_def t'_def)
  have con: "connected t'" "slots_map t' = (slots_map t)(k := v)" if c: "connected t"
  proof -
    have g: "good ?es" using t1(5) [OF c] by (simp add: connected_def)
    show "connected t'"
      using good_fill(1) [OF g f' room'] wf' by (simp add: connected_def t'_def)
    show "slots_map t' = (slots_map t)(k := v)"
      using good_fill(2) [OF g f' room'] t1(6) [OF c]
      by (auto simp: slots_map_def t'_def fun_eq_iff)
  qed
  show ?thesis
    by (rule that [OF store wf' map con])
      (use sum unat_Suc_less [OF t1(4)] in \<open>simp_all add: t'_def t1(2)\<close>)
qed

lemma store_hit:
  assumes wf: "slots_wf t" and grow: "can_grow t"
    and r: "maybe_resize t = Some t1" and h: "look (sl_entries t1) k = Hit ix"
  obtains t' where "store t k (Some v) = Some t'" "slots_wf t'" "slots_map t' k = Some v"
    "connected t \<Longrightarrow> connected t'"
    "connected t \<Longrightarrow> slots_map t' = (slots_map t)(k \<mapsto> v)"
    "sl_size t' = sl_size t" "length (sl_entries t') = length (sl_entries t1)"
    "sl_tombs t' = sl_tombs t1"
proof -
  have t1: "slots_wf t1" "sl_size t1 = sl_size t"
    "connected t \<Longrightarrow> connected t1" "connected t \<Longrightarrow> slots_map t1 = slots_map t"
    using maybe_resize_spec [OF wf grow] r by (metis option.inject)+
  let ?es = "sl_entries t1"
  let ?e = "put_value (?es ! unat ix) v"
  have room: "has_room ?es" using t1(1) by (simp add: slots_wf_def)
  have h': "look ?es k = Hit ix" using h by (simp)
  have at: "unat ix < length ?es" "act (?es ! unat ix)" "hit k (?es ! unat ix)"
    using hit_path [OF room h'] by metis+
  then have e: "act ?e" "ekey ?e = k" "ehash ?e = hashf k"
    by (simp_all add: hit_def)
  define t' where "t' = t1\<lparr>sl_entries := ?es[unat ix := ?e]\<rparr>"
  have store: "store t k (Some v) = Some t'"
    using r h by (simp add: store_def t'_def Let_def)
  have count: "in_use t' = in_use t1"
    using in_use_fill [OF at(1) e(1)] at(2) by (simp add: t'_def)
  have room': "has_room (?es[unat ix := ?e])"
    using room count by (simp add: has_room_def t'_def)
  have wf': "slots_wf t'"
    using t1(1) count room' e by (simp add: slots_wf_def t'_def cached_update)
  have map: "slots_map t' k = Some v"
    using look_update_same [OF room h', of ?e] at by (simp add: slots_map_def t'_def hit_def)
  have con: "connected t'" "slots_map t' = (slots_map t)(k \<mapsto> v)" if c: "connected t"
  proof -
    have g: "good ?es" using t1(3) [OF c] by (simp add: connected_def)
    show "connected t'"
      using good_overwrite(1) [OF g h' e room'] wf' by (simp add: connected_def t'_def)
    show "slots_map t' = (slots_map t)(k \<mapsto> v)"
      using good_overwrite(2) [OF g h' e room'] t1(4) [OF c]
      by (auto simp: slots_map_def t'_def fun_eq_iff)
  qed
  show ?thesis
    by (rule that [OF store wf' map con]) (simp_all add: t'_def t1(2))
qed

lemma store_spec:
  assumes wf: "slots_wf t" and grow: "can_grow t"
  obtains t' where "store t k (Some v) = Some t'" "slots_wf t'" "slots_map t' k = Some v"
    "connected t \<Longrightarrow> connected t'"
    "connected t \<Longrightarrow> slots_map t' = (slots_map t)(k \<mapsto> v)"
    "sl_size t' = sl_size t \<or> sl_size t' = sl_size t + 1"
    "length (sl_entries t') = length (sl_entries t) \<or>
     length (sl_entries t') = length (sl_entries t) * 2 \<and>
       length (sl_entries t) * 3 div 4 < unat (sl_size t + sl_tombs t)"
    "unat (sl_size t' + sl_tombs t') \<le>
       Suc (max (unat (sl_size t)) (unat (sl_size t + sl_tombs t)))"
proof -
  obtain t1 where t1: "maybe_resize t = Some t1" "slots_wf t1"
    "length (sl_entries t1) = length (sl_entries t) \<or>
     length (sl_entries t1) = length (sl_entries t) * 2 \<and>
       length (sl_entries t) * 3 div 4 < unat (sl_size t + sl_tombs t)"
    "sl_size t1 = sl_size t" "sl_tombs t1 = 0 \<or> sl_tombs t1 = sl_tombs t"
    using maybe_resize_spec [OF wf grow] by metis
  have sum: "unat (sl_size t1 + sl_tombs t1) \<le>
      max (unat (sl_size t)) (unat (sl_size t + sl_tombs t))"
    using t1(4,5) by auto
  have "look (sl_entries t1) k \<noteq> Spin"
    using t1(2) by (simp add: slots_wf_def look_total)
  then consider ix where "look (sl_entries t1) k = Hit ix" | ix tomb where "look (sl_entries t1) k = Free ix tomb"
    by (cases "look (sl_entries t1) k") auto
  then show ?thesis
  proof cases
    case 1
    obtain t' where t': "store t k (Some v) = Some t'" "slots_wf t'" "slots_map t' k = Some v"
      "connected t \<Longrightarrow> connected t'"
      "connected t \<Longrightarrow> slots_map t' = (slots_map t)(k \<mapsto> v)"
      "sl_size t' = sl_size t" "length (sl_entries t') = length (sl_entries t1)"
      "sl_tombs t' = sl_tombs t1"
      using store_hit [OF wf grow t1(1) 1, of v] by metis
    show ?thesis
      by (rule that [OF t'(1-5)]) (use t'(6-8) t1(3,4) sum in auto)
  next
    case 2
    obtain t' where t': "store t k (Some v) = Some t'" "slots_wf t'" "slots_map t' k = Some v"
      "connected t \<Longrightarrow> connected t'"
      "connected t \<Longrightarrow> slots_map t' = (slots_map t)(k \<mapsto> v)"
      "sl_size t' = sl_size t + 1" "length (sl_entries t') = length (sl_entries t1)"
      "unat (sl_size t' + sl_tombs t') \<le> Suc (unat (sl_size t1 + sl_tombs t1))"
      using store_fill [OF wf grow t1(1) 2, of "Some v"] by metis
    show ?thesis
      by (rule that [OF t'(1-5)]) (use t'(6-8) t1(3,4) sum in auto)
  qed
qed

text \<open>Removing a key: it returns, keeps the invariant, and the key is gone.\<close>

lemma remove_key_hit:
  assumes wf: "slots_wf t" and h: "look (sl_entries t) k = Hit ix"
  obtains t' where "remove_key t k = Some (True, t')" "slots_wf t'" "slots_map t' k = None"
    "sl_entries t' = (sl_entries t)[unat ix := removed (sl_entries t ! unat ix)]"
    "unat (sl_size t') = unat (sl_size t) - 1"
proof -
  let ?es = "sl_entries t"
  let ?e = "removed (?es ! unat ix)"
  have room: "has_room ?es" using wf by (simp add: slots_wf_def)
  have h': "look ?es k = Hit ix" using h by (simp)
  have at: "unat ix < length ?es" "act (?es ! unat ix)"
    using hit_path [OF room h'] by metis+
  define t' where "t' = t\<lparr>sl_entries := ?es[unat ix := ?e], sl_size := sl_size t - 1,
     sl_tombs := sl_tombs t + 1\<rparr>"
  have rem: "remove_key t k = Some (True, t')"
    using h by (simp add: remove_key_def remove_at_def t'_def)
  have e: "\<not> act ?e" by (simp add: removed_act)
  have count: "Suc (in_use t') = in_use t"
    using in_use_drop [OF at e] by (simp add: t'_def)
  have "in_use t \<le> unat (sl_size t)" using wf by (simp add: slots_wf_def)
  then have pos: "0 < unat (sl_size t)" using count by linarith
  have dec: "sl_size t' = sl_size t - 1" by (simp add: t'_def)
  have size: "unat (sl_size t') = unat (sl_size t) - 1"
    unfolding dec by (rule unat_pred [OF pos])
  have room': "has_room (?es[unat ix := ?e])"
    using room count by (simp add: has_room_def t'_def)
  have sum: "sl_size t' + sl_tombs t' = sl_size t + sl_tombs t" by (simp add: t'_def)
  have sum_ok: "in_use t' \<le> unat (sl_size t' + sl_tombs t')"
    unfolding sum using wf count by (simp add: slots_wf_def)
  have cached: "cached (?es[unat ix := ?e])"
    using wf e by (intro cached_update) (simp_all add: slots_wf_def)
  have "in_use t' \<le> unat (sl_size t')"
    using wf count size unfolding slots_wf_def by linarith
  with sum_ok have wf': "slots_wf t'"
    using wf room' cached by (simp add: slots_wf_def t'_def)
  have map: "slots_map t' k = None"
    using look_update_same [OF room h', of ?e] e by (simp add: slots_map_def t'_def)
  show ?thesis by (rule that [OF rem wf' map _ size]) (simp add: t'_def)
qed

lemma remove_key_miss:
  assumes "slots_wf t" "look (sl_entries t) k = Free ix tomb"
  shows "remove_key t k = Some (False, t)" "slots_map t k = None"
  using assms by (simp_all add: remove_key_def slots_map_def lookup_def)

section \<open>Growing maps\<close>

text \<open>
  After \<open>n\<close> stores the counters are at most \<open>n\<close>. Up to \<open>2 ^ 29\<close> of them no array of more than
  \<open>2 ^ 30\<close> slots is doubled, so that the mask of 32 bits stays exact.
\<close>

definition within :: "nat \<Rightarrow> 'e slots \<Rightarrow> bool" where
  "within n t \<longleftrightarrow> connected t \<and> unat (sl_size t) \<le> n \<and>
     unat (sl_size t + sl_tombs t) \<le> n \<and> length (sl_entries t) \<le> 2 ^ 31"

lemma within_can_grow: "within n t \<Longrightarrow> n \<le> 2 ^ 29 \<Longrightarrow> can_grow t"
  by (auto simp: within_def can_grow_def)

lemma within_step:
  assumes "within n t" "n < 2 ^ 29"
  shows "\<exists>t'. store t k (Some v) = Some t' \<and> within (Suc n) t' \<and>
     slots_map t' = (slots_map t)(k \<mapsto> v)"
proof -
  have grow: "can_grow t" using assms by (intro within_can_grow) auto
  have con: "connected t" and wf: "slots_wf t"
    using assms(1) by (simp_all add: within_def connected_def)
  have bounds: "unat (sl_size t) \<le> n" "unat (sl_size t + sl_tombs t) \<le> n"
    "length (sl_entries t) \<le> 2 ^ 31"
    using assms(1) by (simp_all add: within_def)
  have size: "unat (sl_size t + 1) = Suc (unat (sl_size t))"
    using grow by (intro unat_Suc_less) (simp add: can_grow_def)
  from wf grow show ?thesis
  proof (rule store_spec [of t k v])
    fix t'
    assume t': "store t k (Some v) = Some t'" "connected t \<Longrightarrow> connected t'"
      "connected t \<Longrightarrow> slots_map t' = (slots_map t)(k \<mapsto> v)"
      "sl_size t' = sl_size t \<or> sl_size t' = sl_size t + 1"
      "length (sl_entries t') = length (sl_entries t) \<or>
       length (sl_entries t') = length (sl_entries t) * 2 \<and>
         length (sl_entries t) * 3 div 4 < unat (sl_size t + sl_tombs t)"
      "unat (sl_size t' + sl_tombs t') \<le>
         Suc (max (unat (sl_size t)) (unat (sl_size t + sl_tombs t)))"
    have "unat (sl_size t') \<le> Suc n" using t'(4) size bounds by auto
    moreover have "unat (sl_size t' + sl_tombs t') \<le> Suc n" using t'(6) bounds by simp
    moreover have "length (sl_entries t') \<le> 2 ^ 31"
      using t'(5)
    proof
      assume "length (sl_entries t') = length (sl_entries t)"
      then show ?thesis using bounds(3) by simp
    next
      assume grown: "length (sl_entries t') = length (sl_entries t) * 2 \<and>
         length (sl_entries t) * 3 div 4 < unat (sl_size t + sl_tombs t)"
      then have "length (sl_entries t) * 3 div 4 < 2 ^ 29" using bounds(2) assms(2) by linarith
      then have "length (sl_entries t) * 3 < 4 * 2 ^ 29" by simp
      then show ?thesis using grown by simp
    qed
    ultimately have "within (Suc n) t'" using t'(2) con by (simp add: within_def)
    then show ?thesis using t'(1,3) con by blast
  qed
qed


section \<open>The contracts of the operations\<close>

lemma store_contract:
  assumes wf: "slots_wf t" and grow: "can_grow t"
  shows "\<exists>t'. store t k v = Some t' \<and> slots_wf t' \<and> slots_map t' k = v \<and>
     (v \<noteq> None \<and> connected t \<longrightarrow> connected t' \<and> slots_map t' = (slots_map t)(k := v))"
proof (cases v)
  case (Some w)
  from store_spec [OF wf grow, of k w] show ?thesis unfolding Some by metis
next
  case None
  obtain t1 where t1: "maybe_resize t = Some t1" "slots_wf t1"
    using maybe_resize_spec [OF wf grow] by metis
  have "look (sl_entries t1) k \<noteq> Spin" using t1(2) by (simp add: slots_wf_def look_total)
  then consider ix where "look (sl_entries t1) k = Hit ix"
    | ix tomb where "look (sl_entries t1) k = Free ix tomb"
    by (cases "look (sl_entries t1) k") auto
  then show ?thesis
  proof cases
    case 1
    obtain t' where t': "remove_key t1 k = Some (True, t')" "slots_wf t'" "slots_map t' k = None"
      using remove_key_hit [OF t1(2) 1] by metis
    then have "store t k v = Some t'" using t1 1 None by (simp add: store_def remove_key_def)
    then show ?thesis using t' None by simp
  next
    case 2
    from store_fill [OF wf grow t1(1) 2, of None] show ?thesis unfolding None by metis
  qed
qed

text \<open>The slot a removal frees is the last of its run of active slots.\<close>

definition last_of_run :: "'e slots \<Rightarrow> 'k \<Rightarrow> bool" where
  "last_of_run t k \<longleftrightarrow> (case look (sl_entries t) k of
     Hit ix \<Rightarrow> \<not> act (sl_entries t ! (Suc (unat ix) mod length (sl_entries t)))
   | _ \<Rightarrow> True)"

lemma remove_contract:
  assumes "slots_wf t"
  shows "\<exists>b t'. remove_key t k = Some (b, t') \<and> slots_wf t' \<and> slots_map t' k = None \<and>
     unat (sl_size t') = unat (sl_size t) - (if b then 1 else 0) \<and> (\<not> b \<longrightarrow> t' = t) \<and>
     (slots_map t k \<noteq> None \<longrightarrow> b) \<and>
     (connected t \<and> last_of_run t k \<longrightarrow> connected t' \<and> slots_map t' = (slots_map t)(k := None))"
proof (cases "look (sl_entries t) k")
  case (Hit ix)
  obtain t' where t': "remove_key t k = Some (True, t')" "slots_wf t'" "slots_map t' k = None"
    "sl_entries t' = (sl_entries t)[unat ix := removed (sl_entries t ! unat ix)]"
    "unat (sl_size t') = unat (sl_size t) - 1"
    using remove_key_hit [OF assms Hit] by metis
  have "connected t' \<and> slots_map t' = (slots_map t)(k := None)" if c: "connected t" "last_of_run t k"
  proof -
    have g: "good (sl_entries t)" using c by (simp add: connected_def)
    have l: "\<not> act (sl_entries t ! (Suc (unat ix) mod length (sl_entries t)))"
      using c(2) Hit by (simp add: last_of_run_def)
    show ?thesis
      using good_remove_last [OF g Hit removed_act l] t'(2,4)
      by (auto simp: connected_def slots_map_def fun_eq_iff)
  qed
  then show ?thesis using t'(1-3,5) by (intro exI [of _ True] exI [of _ t']) simp
next
  case (Free ix tomb)
  then show ?thesis using remove_key_miss [OF assms Free] assms
    by (intro exI [of _ False] exI [of _ t]) (simp add: fun_upd_idem)
next
  case Spin
  then show ?thesis using assms by (simp add: slots_wf_def look_total)
qed

definition cleared :: "'e slots \<Rightarrow> 'e slots" where
  "cleared t = \<lparr>sl_entries = map (\<lambda>e. if act e then removed e else e) (sl_entries t),
     sl_size = 0, sl_tombs = 0\<rparr>"

lemma cleared_contract:
  assumes "slots_wf t"
  shows "connected (cleared t)" and "slots_map (cleared t) k = None"
proof -
  have "\<not> act e" if "e \<in> set (sl_entries (cleared t))" for e
    using that by (auto simp: cleared_def)
  moreover have "pow2_slots (sl_entries (cleared t))" "16 \<le> length (sl_entries (cleared t))"
    using assms by (simp_all add: cleared_def slots_wf_def has_room_def pow2_slots_def)
  ultimately show "connected (cleared t)" "slots_map (cleared t) k = None"
    using empty_connected by blast+
qed

end

end
