(* ===== verification/Snobol_Table.thy ===== *)
theory Snobol_Table
  imports Counted_Slots
begin

text \<open>
  The runtime's associative tables, \<^verbatim>\<open>core/src/table.c\<close>: the FNV-1a hash, the resize, and the
  operations on a table of slots. The capacity is the number of slots; sizes and tombstone counts
  are 64 bit counters that wrap, the index and its mask have 32 bits. A key or value pointer is an
  option, its length is the length of the bytes. Allocation succeeds in the model. An operation
  yields \<open>None\<close> when its probing loop would not end.
\<close>

section \<open>The operations\<close>

definition FNV_OFFSET_BASIS :: u32 where
  "FNV_OFFSET_BASIS = 2166136261"

definition FNV_PRIME :: u32 where
  "FNV_PRIME = 16777619"

fun fnv_loop :: "bytes \<Rightarrow> u32 \<Rightarrow> u32" where
  "fnv_loop [] hash = hash"
| "fnv_loop (b # bs) hash = fnv_loop bs ((hash XOR ucast b) * FNV_PRIME)"

definition table_hash_bytes :: "bytes \<Rightarrow> u32" where
  "table_hash_bytes str = fnv_loop str FNV_OFFSET_BASIS"

text \<open>A C string is what precedes the first NUL of the memory at the pointer.\<close>

definition c_string :: "bytes \<Rightarrow> bytes" where
  "c_string bs = takeWhile (\<lambda>b. b \<noteq> 0) bs"

definition table_hash_string :: "bytes option \<Rightarrow> u32" where
  "table_hash_string str = table_hash_bytes (case str of None \<Rightarrow> [] | Some s \<Rightarrow> c_string s)"

record table_entry =
  te_key :: "bytes option"
  te_value :: "bytes option"
  te_hash :: u32
  te_active :: bool

record snobol_table =
  tbl_entries :: "table_entry list"
  tbl_size :: u64
  tbl_tombstones :: u64
  tbl_refcount :: u32
  tbl_name :: "bytes option"

definition zero_entry :: table_entry where
  "zero_entry = \<lparr>te_key = None, te_value = None, te_hash = 0, te_active = False\<rparr>"

definition TABLE_INITIAL_CAPACITY :: nat where
  "TABLE_INITIAL_CAPACITY = 16"

definition table_live :: "table_entry \<Rightarrow> bool" where
  "table_live e \<longleftrightarrow> te_active e \<and> te_value e \<noteq> None"

definition table_resize :: "snobol_table \<Rightarrow> nat \<Rightarrow> snobol_table option" where
  "table_resize t new_capacity =
     (let new = replicate new_capacity zero_entry
      in case rehash te_active table_live te_hash (slot_mask new) (tbl_entries t) new of
           None \<Rightarrow> None
         | Some es \<Rightarrow> Some (t\<lparr>tbl_entries := es, tbl_tombstones := 0\<rparr>))"

definition table_maybe_resize :: "snobol_table \<Rightarrow> snobol_table option" where
  "table_maybe_resize t =
     (let capacity = length (tbl_entries t); threshold = (capacity * 3) div 4
      in if threshold < unat (tbl_size t + tbl_tombstones t) then table_resize t (capacity * 2)
         else Some t)"

definition table_create :: "bytes option \<Rightarrow> snobol_table" where
  "table_create name =
     \<lparr>tbl_entries = replicate TABLE_INITIAL_CAPACITY zero_entry, tbl_size = 0,
      tbl_tombstones = 0, tbl_refcount = 1, tbl_name = map_option c_string name\<rparr>"

definition table_retain :: "snobol_table \<Rightarrow> snobol_table" where
  "table_retain t = t\<lparr>tbl_refcount := tbl_refcount t + 1\<rparr>"

text \<open>The released table, or \<open>None\<close> when the last reference has gone and everything is freed.\<close>

definition table_release :: "snobol_table \<Rightarrow> snobol_table option" where
  "table_release t =
     (let refcount = tbl_refcount t - 1
      in if 0 < refcount then Some (t\<lparr>tbl_refcount := refcount\<rparr>) else None)"

definition table_find :: "snobol_table \<Rightarrow> bytes \<Rightarrow> probe_result" where
  "table_find t key =
     (let hash = table_hash_bytes key; es = tbl_entries t; msk = slot_mask es
      in probe te_active (\<lambda>e. te_hash e = hash \<and> te_key e = Some key) (\<lambda>e. te_value e = None)
           es msk (length es) (hash AND msk) None)"

definition entry_removed :: "table_entry \<Rightarrow> table_entry" where
  "entry_removed e = e\<lparr>te_key := None, te_value := None, te_active := False\<rparr>"

definition table_store :: "snobol_table \<Rightarrow> bytes \<Rightarrow> bytes option \<Rightarrow> snobol_table option" where
  "table_store t0 key value =
     (case table_maybe_resize t0 of
        None \<Rightarrow> None
      | Some t \<Rightarrow>
          (let hash = table_hash_bytes key; es = tbl_entries t
           in case table_find t key of
                Spin \<Rightarrow> None
              | Hit idx \<Rightarrow>
                  (case value of
                     Some v \<Rightarrow> Some (t\<lparr>tbl_entries := es[unat idx := (es ! unat idx)\<lparr>te_value := Some v\<rparr>]\<rparr>)
                   | None \<Rightarrow> Some (t\<lparr>tbl_entries := es[unat idx := entry_removed (es ! unat idx)],
                                   tbl_size := tbl_size t - 1,
                                   tbl_tombstones := tbl_tombstones t + 1\<rparr>))
              | Free idx tombstone_idx \<Rightarrow>
                  (let insert_idx = (case tombstone_idx of None \<Rightarrow> idx | Some i \<Rightarrow> i)
                   in Some (t\<lparr>tbl_entries := es[unat insert_idx :=
                                  \<lparr>te_key = Some key, te_value = value, te_hash = hash,
                                   te_active = True\<rparr>],
                             tbl_size := tbl_size t + 1,
                             tbl_tombstones := (if tombstone_idx \<noteq> None then tbl_tombstones t - 1
                                                else tbl_tombstones t)\<rparr>))))"

definition table_set_ex ::
  "snobol_table option \<Rightarrow> bytes option \<Rightarrow> bytes option \<Rightarrow> (bool \<times> snobol_table option) option" where
  "table_set_ex table key value =
     (case (table, key) of
        (Some t, Some k) \<Rightarrow> map_option (\<lambda>t'. (True, Some t')) (table_store t k value)
      | _ \<Rightarrow> Some (False, table))"

definition table_set ::
  "snobol_table option \<Rightarrow> bytes option \<Rightarrow> bytes option \<Rightarrow> (bool \<times> snobol_table option) option" where
  "table_set table key value =
     table_set_ex table (map_option c_string key) (map_option c_string value)"

definition table_lookup :: "snobol_table \<Rightarrow> bytes \<Rightarrow> bytes option option" where
  "table_lookup t key =
     (case table_find t key of
        Spin \<Rightarrow> None
      | Hit idx \<Rightarrow> Some (te_value (tbl_entries t ! unat idx))
      | Free idx tomb \<Rightarrow> Some None)"

definition table_get_ex :: "snobol_table option \<Rightarrow> bytes option \<Rightarrow> bytes option option" where
  "table_get_ex table key =
     (case (table, key) of
        (Some t, Some k) \<Rightarrow> table_lookup t k
      | _ \<Rightarrow> Some None)"

definition table_get :: "snobol_table option \<Rightarrow> bytes option \<Rightarrow> bytes option option" where
  "table_get table key = table_get_ex table (map_option c_string key)"

definition table_has_ex :: "snobol_table option \<Rightarrow> bytes option \<Rightarrow> bool option" where
  "table_has_ex table key = map_option (\<lambda>v. v \<noteq> None) (table_get_ex table key)"

definition table_has :: "snobol_table option \<Rightarrow> bytes option \<Rightarrow> bool option" where
  "table_has table key = table_has_ex table (map_option c_string key)"

definition table_remove :: "snobol_table \<Rightarrow> bytes \<Rightarrow> (bool \<times> snobol_table) option" where
  "table_remove t key =
     (case table_find t key of
        Spin \<Rightarrow> None
      | Hit idx \<Rightarrow>
          Some (True, t\<lparr>tbl_entries := (tbl_entries t)[unat idx := entry_removed (tbl_entries t ! unat idx)],
                        tbl_size := tbl_size t - 1,
                        tbl_tombstones := tbl_tombstones t + 1\<rparr>)
      | Free idx tomb \<Rightarrow> Some (False, t))"

definition table_delete_ex ::
  "snobol_table option \<Rightarrow> bytes option \<Rightarrow> (bool \<times> snobol_table option) option" where
  "table_delete_ex table key =
     (case (table, key) of
        (Some t, Some k) \<Rightarrow> map_option (\<lambda>(b, t'). (b, Some t')) (table_remove t k)
      | _ \<Rightarrow> Some (False, table))"

definition table_delete ::
  "snobol_table option \<Rightarrow> bytes option \<Rightarrow> (bool \<times> snobol_table option) option" where
  "table_delete table key = table_delete_ex table (map_option c_string key)"

definition table_clear :: "snobol_table \<Rightarrow> snobol_table" where
  "table_clear t =
     t\<lparr>tbl_entries := map (\<lambda>e. if te_active e then entry_removed e else e) (tbl_entries t),
       tbl_size := 0, tbl_tombstones := 0\<rparr>"

definition table_size :: "snobol_table option \<Rightarrow> u64" where
  "table_size table = (case table of None \<Rightarrow> 0 | Some t \<Rightarrow> tbl_size t)"

definition table_name :: "snobol_table option \<Rightarrow> bytes option" where
  "table_name table = (case table of None \<Rightarrow> None | Some t \<Rightarrow> tbl_name t)"

section \<open>Tables as counted slots\<close>

definition key_hash :: "bytes option \<Rightarrow> u32" where
  "key_hash k = table_hash_bytes (case k of None \<Rightarrow> [] | Some bs \<Rightarrow> bs)"

definition table_entry_of :: "bytes option \<Rightarrow> bytes option \<Rightarrow> table_entry" where
  "table_entry_of k v = \<lparr>te_key = k, te_value = v, te_hash = key_hash k, te_active = True\<rparr>"

interpretation tb: counted_slots te_active te_key te_hash te_value key_hash table_entry_of
  "\<lambda>e v. e\<lparr>te_value := Some v\<rparr>" entry_removed zero_entry
  by unfold_locales (simp_all add: table_entry_of_def entry_removed_def zero_entry_def)

definition slots_of :: "snobol_table \<Rightarrow> table_entry slots" where
  "slots_of t = \<lparr>sl_entries = tbl_entries t, sl_size = tbl_size t, sl_tombs = tbl_tombstones t\<rparr>"

lemma slots_of_simps [simp]:
  "sl_entries (slots_of t) = tbl_entries t" "sl_size (slots_of t) = tbl_size t"
  "sl_tombs (slots_of t) = tbl_tombstones t"
  by (simp_all add: slots_of_def)

lemma table_live_tb: "table_live = tb.live"
  by (simp add: fun_eq_iff table_live_def tb.live_def)

lemma table_find_look: "table_find t key = tb.look (tbl_entries t) (Some key)"
  by (simp add: table_find_def tb.look_def tb.hit_def [abs_def] key_hash_def Let_def)

text \<open>Each operation of the code is the shared one on the table's slots.\<close>

lemma table_maybe_resize_slots:
  "map_option slots_of (table_maybe_resize t) = tb.maybe_resize (slots_of t)"
  by (simp add: table_maybe_resize_def tb.maybe_resize_def table_resize_def tb.resize_def
      table_live_tb Let_def slots_of_def split: option.splits)

lemma table_store_slots:
  "map_option slots_of (table_store t k v) = tb.store (slots_of t) (Some k) v"
proof (cases "table_maybe_resize t")
  case None
  then show ?thesis using table_maybe_resize_slots [of t] by (simp add: table_store_def tb.store_def)
next
  case (Some t1)
  have "tb.maybe_resize (slots_of t) = Some (slots_of t1)"
    using table_maybe_resize_slots [of t] Some by simp
  then show ?thesis using Some
    by (auto simp: table_store_def tb.store_def table_find_look tb.insert_at_def Let_def
        tb.remove_at_def table_entry_of_def key_hash_def slots_of_def
        split: probe_result.splits option.splits)
qed

lemma table_remove_slots:
  "map_option (\<lambda>(b, t). (b, slots_of t)) (table_remove t k) = tb.remove_key (slots_of t) (Some k)"
  by (simp add: table_remove_def tb.remove_key_def table_find_look tb.remove_at_def slots_of_def
      split: probe_result.splits)

lemma table_lookup_slots: "table_lookup t k = tb.value_of (slots_of t) (Some k)"
  by (simp add: table_lookup_def tb.value_of_def table_find_look split: probe_result.splits)

lemma table_clear_slots: "slots_of (table_clear t) = tb.cleared (slots_of t)"
  by (simp add: table_clear_def tb.cleared_def slots_of_def)

lemmas table_slots = table_store_slots table_remove_slots table_lookup_slots table_clear_slots

text \<open>The invariants of a table are those of its slots.\<close>

definition table_wf :: "snobol_table \<Rightarrow> bool" where
  "table_wf t \<longleftrightarrow> tb.slots_wf (slots_of t)"

definition table_connected :: "snobol_table \<Rightarrow> bool" where
  "table_connected t \<longleftrightarrow> tb.connected (slots_of t)"

definition table_can_grow :: "snobol_table \<Rightarrow> bool" where
  "table_can_grow t \<longleftrightarrow> unat (tbl_size t) < 2 ^ 64 - 1 \<and> length (tbl_entries t) \<le> 2 ^ 31"

definition table_map :: "snobol_table \<Rightarrow> bytes \<Rightarrow> bytes option" where
  "table_map t k = tb.slots_map (slots_of t) (Some k)"

lemma table_connected_wf: "table_connected t \<Longrightarrow> table_wf t"
  by (simp add: table_connected_def table_wf_def tb.connected_def)

lemma table_lookup_map: "table_wf t \<Longrightarrow> table_lookup t k = Some (table_map t k)"
  by (simp add: table_lookup_slots table_wf_def table_map_def tb.value_of_map)

lemma table_create_connected:
  "table_connected (table_create name)" "table_map (table_create name) k = None"
proof -
  have "slots_of (table_create name) = tb.fresh 16"
    by (simp add: slots_of_def table_create_def tb.fresh_def TABLE_INITIAL_CAPACITY_def)
  then show "table_connected (table_create name)" "table_map (table_create name) k = None"
    using tb.fresh_connected [of 16 4 "Some k"] by (simp_all add: table_connected_def table_map_def)
qed

lemma table_store_contract:
  assumes "table_wf t" "table_can_grow t"
  shows "\<exists>t'. table_store t k v = Some t' \<and> table_wf t' \<and> table_map t' k = v \<and>
     (v \<noteq> None \<and> table_connected t \<longrightarrow> table_connected t' \<and> table_map t' = (table_map t)(k := v))"
proof -
  have "tb.can_grow (slots_of t)" using assms(2) by (simp add: table_can_grow_def tb.can_grow_def)
  from tb.store_contract [OF assms(1) [unfolded table_wf_def] this, of "Some k" v]
  obtain s where s: "tb.store (slots_of t) (Some k) v = Some s" "tb.slots_wf s"
    "tb.slots_map s (Some k) = v"
    "v \<noteq> None \<Longrightarrow> tb.connected (slots_of t) \<Longrightarrow>
       tb.connected s \<and> tb.slots_map s = (tb.slots_map (slots_of t))(Some k := v)"
    by blast
  then obtain t' where t': "table_store t k v = Some t'" "s = slots_of t'"
    using table_store_slots [of t k v] by auto
  show ?thesis
    using s t' by (auto simp: table_wf_def table_connected_def table_map_def fun_eq_iff)
qed

lemma table_within_step:
  assumes "tb.within n (slots_of t)" "n < 2 ^ 29"
  shows "\<exists>t'. table_store t k (Some v) = Some t' \<and> tb.within (Suc n) (slots_of t') \<and>
     table_map t' = (table_map t)(k \<mapsto> v)"
proof -
  from tb.within_step [OF assms, of "Some k" v]
  obtain s where s: "tb.store (slots_of t) (Some k) (Some v) = Some s" "tb.within (Suc n) s"
    "tb.slots_map s = (tb.slots_map (slots_of t))(Some k \<mapsto> v)" by blast
  then obtain t' where t': "table_store t k (Some v) = Some t'" "s = slots_of t'"
    using table_store_slots [of t k "Some v"] by auto
  then show ?thesis using s by (auto simp: table_map_def fun_eq_iff)
qed

interpretation table_store: assoc_store "\<lambda>n t. tb.within n (slots_of t)" table_map
  "\<lambda>t k v. table_store t k (Some v)" "table_create None" "2 ^ 29"
proof
  show "tb.within 0 (slots_of (table_create None))"
    using table_create_connected(1) [of None]
    by (simp add: table_connected_def tb.within_def table_create_def TABLE_INITIAL_CAPACITY_def)
qed (simp_all add: table_create_connected table_within_step)

section \<open>Properties\<close>

text \<open>
  C25: A set followed by a get: the set returns, the well-formedness that makes every later
  operation return is kept, and the key then has the value of the set (with a null pointer for the
  value, the key is absent). When the chains of the table are connected and there is a value, they
  stay connected and every other key keeps its value.
\<close>

theorem table_set_get:
  assumes "table_wf t" "table_can_grow t"
  shows "\<exists>t'. table_set_ex (Some t) (Some k) v = Some (True, Some t') \<and> table_wf t' \<and>
     table_get_ex (Some t') (Some k) = Some v \<and>
     (v \<noteq> None \<and> table_connected t \<longrightarrow> table_connected t' \<and>
        (\<forall>k'. k' \<noteq> k \<longrightarrow> table_get_ex (Some t') (Some k') = table_get_ex (Some t) (Some k')))"
  using table_store_contract [OF assms, of k v] assms(1)
  by (auto simp: table_set_ex_def table_get_ex_def table_lookup_map)

theorem table_set_get_witness:
  "\<exists>t'. table_set_ex (Some (table_create None)) (Some [97]) (Some [1, 2]) = Some (True, Some t') \<and>
     table_get_ex (Some t') (Some [97]) = Some (Some [1, 2])"
proof -
  have "table_wf (table_create None)" "table_can_grow (table_create None)"
    by (simp_all add: table_connected_wf table_create_connected)
      (simp add: table_can_grow_def table_create_def TABLE_INITIAL_CAPACITY_def)
  from table_set_get [OF this, of "[97]" "Some [1, 2]"] show ?thesis by blast
qed

text \<open>
  C26: A table built by any sequence of at most \<open>2 ^ 29\<close> sets, through all its resizes, is the
  finite map the sequence denotes: every operation returns, and a get yields the last value set
  for the key or reports that it is absent.
\<close>

theorem table_sets_refine_map:
  assumes "length kvs \<le> 2 ^ 29"
  shows "\<exists>t. store_all (\<lambda>t k v. table_store t k (Some v)) (table_create None) kvs = Some t \<and>
     (\<forall>k. table_get_ex (Some t) (Some k) = Some (map_of (rev kvs) k))"
proof -
  obtain t where t: "store_all (\<lambda>t k v. table_store t k (Some v)) (table_create None) kvs = Some t"
    "tb.within (length kvs) (slots_of t)" "table_map t = map_of (rev kvs)"
    using table_store.store_all_get [OF assms] by blast
  then have "table_wf t" by (simp add: tb.within_def table_wf_def tb.connected_def)
  then show ?thesis using t by (auto simp: table_get_ex_def table_lookup_map)
qed

theorem table_sets_refine_map_witness:
  "\<exists>t. store_all (\<lambda>t k v. table_store t k (Some v)) (table_create None)
       [([97], [1]), ([113], [2]), ([97], [3])] = Some t \<and>
     table_get_ex (Some t) (Some [97]) = Some (Some [3]) \<and>
     table_get_ex (Some t) (Some [113]) = Some (Some [2]) \<and>
     table_get_ex (Some t) (Some [98]) = Some None"
  using table_sets_refine_map [of "[([97], [1]), ([113], [2]), ([97], [3])]"] by auto

text \<open>
  A delete returns, keeps the well-formedness, and the key is gone; a delete that reports
  false has changed nothing, one that reports true lowers the size by one, and a key with a value
  is always found. In a connected table it leaves the other keys alone and the chains connected,
  provided the freed slot is the last of its run of active slots.
\<close>

theorem table_delete_get:
  assumes "table_wf t"
  shows "\<exists>b t'. table_delete_ex (Some t) (Some k) = Some (b, Some t') \<and> table_wf t' \<and>
     table_get_ex (Some t') (Some k) = Some None \<and>
     unat (table_size (Some t')) = unat (table_size (Some t)) - (if b then 1 else 0) \<and>
     (\<not> b \<longrightarrow> slots_of t' = slots_of t) \<and>
     (table_get_ex (Some t) (Some k) \<noteq> Some None \<longrightarrow> b) \<and>
     (table_connected t \<and> tb.last_of_run (slots_of t) (Some k) \<longrightarrow> table_connected t' \<and>
        (\<forall>k'. k' \<noteq> k \<longrightarrow> table_get_ex (Some t') (Some k') = table_get_ex (Some t) (Some k')))"
proof -
  obtain b s where s: "tb.remove_key (slots_of t) (Some k) = Some (b, s)" "tb.slots_wf s"
    "tb.slots_map s (Some k) = None"
    "unat (sl_size s) = unat (sl_size (slots_of t)) - (if b then 1 else 0)"
    "\<not> b \<longrightarrow> s = slots_of t" "tb.slots_map (slots_of t) (Some k) \<noteq> None \<longrightarrow> b"
    "tb.connected (slots_of t) \<and> tb.last_of_run (slots_of t) (Some k) \<longrightarrow>
       tb.connected s \<and> tb.slots_map s = (tb.slots_map (slots_of t))(Some k := None)"
    using tb.remove_contract [OF assms [unfolded table_wf_def], of "Some k"] by blast
  then obtain t' where t': "table_remove t k = Some (b, t')" "s = slots_of t'"
    using table_remove_slots [of t k] by auto
  have "table_wf t'" using s(2) t'(2) by (simp add: table_wf_def)
  with s t' assms show ?thesis
    by (intro exI [of _ b] exI [of _ t'])
      (simp add: table_delete_ex_def table_get_ex_def table_lookup_map table_map_def
        table_connected_def table_size_def)
qed

theorem table_delete_get_witness:
  "\<exists>b t'. table_delete_ex (Some (table_create None)) (Some [97]) = Some (b, Some t') \<and>
     table_get_ex (Some t') (Some [97]) = Some None"
  using table_delete_get [OF table_connected_wf [OF table_create_connected(1) [of None]], of "[97]"]
  by blast

text \<open>The tables of the next two properties.\<close>

definition result_table :: "(bool \<times> snobol_table option) option \<Rightarrow> snobol_table" where
  "result_table r = (case r of Some (True, Some t) \<Rightarrow> t | _ \<Rightarrow> table_create None)"

definition put :: "snobol_table \<Rightarrow> bytes \<Rightarrow> bytes option \<Rightarrow> snobol_table" where
  "put t k v = result_table (table_set_ex (Some t) (Some k) v)"

definition drop_key :: "snobol_table \<Rightarrow> bytes \<Rightarrow> snobol_table" where
  "drop_key t k = result_table (table_delete_ex (Some t) (Some k))"

definition two_colliding :: snobol_table where
  "two_colliding = put (put (table_create None) [97] (Some [1])) [113] (Some [2])"

definition only_phantom :: snobol_table where
  "only_phantom = put (table_create None) [97] None"


text \<open>
  A set without a value deletes the key when the table finds it and otherwise inserts an
  entry for it without a value, which counts as an entry though the key is absent for every
  lookup.
\<close>

theorem table_set_null_inserts:
  "table_size (Some only_phantom) = 1 \<and>
   table_has_ex (Some only_phantom) (Some [97]) = Some False \<and>
   table_size (Some (put only_phantom [113] (Some [1]))) = 2 \<and>
   tbl_tombstones (put only_phantom [113] (Some [1])) = - 1 \<and>
   map te_key (filter te_active (tbl_entries (put only_phantom [113] (Some [1])))) = [Some [113]]"
proof (intro conjI)
  show "table_size (Some only_phantom) = 1" by code_simp
  show "table_has_ex (Some only_phantom) (Some [97]) = Some False" by code_simp
  show "table_size (Some (put only_phantom [113] (Some [1]))) = 2" by code_simp
  show "tbl_tombstones (put only_phantom [113] (Some [1])) = - 1" by code_simp
  show "map te_key (filter te_active (tbl_entries (put only_phantom [113] (Some [1])))) = [Some [113]]"
    by code_simp
qed

end
