(* ===== verification/Dynamic_Pattern.thy ===== *)
theory Dynamic_Pattern
  imports Snobol_Table
begin

text \<open>
  Patterns compiled at run time and their cache, \<^verbatim>\<open>core/src/dynamic_pattern.c\<close>. Pattern objects are
  shared by pointer and counted, so they live in a store from addresses to objects; the cache is an
  array of buckets, each a chain of entries that own a source text and one reference. Allocation
  succeeds in the model, and a new object gets the next unused address.
\<close>

record dynamic_pattern =
  dp_bc :: "bytes option"
  dp_source :: "bytes option"
  dp_refcount :: u32
  dp_hash :: u32
  dp_is_valid :: bool

record dp_store =
  st_objs :: "nat \<Rightarrow> dynamic_pattern option"
  st_next :: nat

record cache_entry =
  ce_hash :: u32
  ce_source :: bytes
  ce_pattern :: nat

record dynamic_pattern_cache =
  dc_buckets :: "cache_entry list list"
  dc_size :: nat
  dc_max_size :: nat

definition CACHE_DEFAULT_MAX_SIZE :: nat where
  "CACHE_DEFAULT_MAX_SIZE = 64"

definition CACHE_INITIAL_BUCKETS :: nat where
  "CACHE_INITIAL_BUCKETS = 32"

definition dynamic_pattern_hash_source :: "bytes \<Rightarrow> u32" where
  "dynamic_pattern_hash_source source = fnv_loop source FNV_OFFSET_BASIS"

definition dynamic_pattern_create :: "dp_store \<Rightarrow> bytes option \<Rightarrow> bytes option \<Rightarrow> nat \<times> dp_store" where
  "dynamic_pattern_create st source bc =
     (let src = map_option c_string source;
          p = \<lparr>dp_bc = bc, dp_source = src, dp_refcount = 1,
               dp_hash = (case src of None \<Rightarrow> 0 | Some s \<Rightarrow> dynamic_pattern_hash_source s),
               dp_is_valid = (case bc of None \<Rightarrow> False | Some b \<Rightarrow> 0 < length b)\<rparr>
      in (st_next st, st\<lparr>st_objs := (st_objs st)(st_next st \<mapsto> p), st_next := st_next st + 1\<rparr>))"

definition dynamic_pattern_retain :: "dp_store \<Rightarrow> nat \<Rightarrow> dp_store" where
  "dynamic_pattern_retain st a =
     (case st_objs st a of
        None \<Rightarrow> st
      | Some p \<Rightarrow> st\<lparr>st_objs := (st_objs st)(a \<mapsto> p\<lparr>dp_refcount := dp_refcount p + 1\<rparr>)\<rparr>)"

definition dynamic_pattern_release :: "dp_store \<Rightarrow> nat \<Rightarrow> dp_store" where
  "dynamic_pattern_release st a =
     (case st_objs st a of
        None \<Rightarrow> st
      | Some p \<Rightarrow>
          (let n = dp_refcount p - 1
           in if 0 < n then st\<lparr>st_objs := (st_objs st)(a \<mapsto> p\<lparr>dp_refcount := n\<rparr>)\<rparr>
              else st\<lparr>st_objs := (st_objs st)(a := None)\<rparr>))"

definition dynamic_pattern_cache_init :: "nat \<Rightarrow> dynamic_pattern_cache" where
  "dynamic_pattern_cache_init max_size =
     \<lparr>dc_buckets = replicate CACHE_INITIAL_BUCKETS [], dc_size = 0,
      dc_max_size = (if 0 < max_size then max_size else CACHE_DEFAULT_MAX_SIZE)\<rparr>"

text \<open>Releasing the references of the entries of a chain, in order.\<close>

fun release_entries :: "dp_store \<Rightarrow> cache_entry list \<Rightarrow> dp_store" where
  "release_entries st [] = st"
| "release_entries st (e # es) = release_entries (dynamic_pattern_release st (ce_pattern e)) es"

definition dynamic_pattern_cache_destroy ::
  "dp_store \<Rightarrow> dynamic_pattern_cache \<Rightarrow> dp_store \<times> dynamic_pattern_cache" where
  "dynamic_pattern_cache_destroy st c =
     (release_entries st (concat (dc_buckets c)), c\<lparr>dc_buckets := [], dc_size := 0\<rparr>)"

definition bucket_of :: "dynamic_pattern_cache \<Rightarrow> u32 \<Rightarrow> nat" where
  "bucket_of c hash = unat hash mod length (dc_buckets c)"

fun find_entry :: "u32 \<Rightarrow> bytes \<Rightarrow> cache_entry list \<Rightarrow> cache_entry option" where
  "find_entry hash source [] = None"
| "find_entry hash source (e # es) =
     (if ce_hash e = hash \<and> ce_source e = source then Some e else find_entry hash source es)"

definition cache_find_entry :: "dynamic_pattern_cache \<Rightarrow> u32 \<Rightarrow> bytes \<Rightarrow> cache_entry option" where
  "cache_find_entry c hash source = find_entry hash source (dc_buckets c ! bucket_of c hash)"

text \<open>The text a lookup is for: \<open>source_len\<close> bytes, or up to the NUL when the length is negative.\<close>

definition lookup_text :: "bytes \<Rightarrow> int \<Rightarrow> bytes" where
  "lookup_text source source_len =
     (if source_len < 0 then c_string source else take (nat source_len) source)"

definition dynamic_pattern_cache_get ::
  "dp_store \<Rightarrow> dynamic_pattern_cache option \<Rightarrow> bytes \<Rightarrow> int \<Rightarrow> nat option \<times> dp_store" where
  "dynamic_pattern_cache_get st cache source source_len =
     (case cache of
        None \<Rightarrow> (None, st)
      | Some c \<Rightarrow>
          (let text = lookup_text source source_len; hash = dynamic_pattern_hash_source text
           in case cache_find_entry c hash text of
                None \<Rightarrow> (None, st)
              | Some e \<Rightarrow> (Some (ce_pattern e), dynamic_pattern_retain st (ce_pattern e))))"

text \<open>Eviction takes the first entry of the first chain that has one.\<close>

fun first_nonempty :: "cache_entry list list \<Rightarrow> nat option" where
  "first_nonempty [] = None"
| "first_nonempty (b # bs) = (if b \<noteq> [] then Some 0 else map_option Suc (first_nonempty bs))"

definition cache_evict_one ::
  "dp_store \<Rightarrow> dynamic_pattern_cache \<Rightarrow> (dp_store \<times> dynamic_pattern_cache) option" where
  "cache_evict_one st c =
     (case first_nonempty (dc_buckets c) of
        None \<Rightarrow> None
      | Some i \<Rightarrow>
          Some (dynamic_pattern_release st (ce_pattern (hd (dc_buckets c ! i))),
                c\<lparr>dc_buckets := (dc_buckets c)[i := tl (dc_buckets c ! i)], dc_size := dc_size c - 1\<rparr>))"

function evict_loop :: "dp_store \<Rightarrow> dynamic_pattern_cache \<Rightarrow> dp_store \<times> dynamic_pattern_cache" where
  "evict_loop st c =
     (if dc_max_size c \<le> dc_size c
      then case cache_evict_one st c of
             None \<Rightarrow> (st, c)
           | Some (st', c') \<Rightarrow> evict_loop st' c'
      else (st, c))"
  by pat_completeness auto

lemma first_nonempty_Some:
  "first_nonempty bs = Some i \<Longrightarrow> i < length bs \<and> bs ! i \<noteq> []"
  by (induction bs arbitrary: i) (auto split: if_splits)

lemma first_nonempty_None: "first_nonempty bs = None \<longleftrightarrow> (\<forall>b \<in> set bs. b = [])"
  by (induction bs) auto

lemma concat_update_tl:
  "i < length bs \<Longrightarrow> bs ! i \<noteq> [] \<Longrightarrow>
     mset (concat bs) = add_mset (hd (bs ! i)) (mset (concat (bs[i := tl (bs ! i)])))"
proof (induction bs arbitrary: i)
  case (Cons b bs)
  then show ?case by (cases i; cases b) (auto simp: ac_simps)
qed simp

lemma cache_evict_one_SomeE:
  assumes "cache_evict_one st c = Some (st', c')"
  obtains i where "i < length (dc_buckets c)" "dc_buckets c ! i \<noteq> []"
    "st' = dynamic_pattern_release st (ce_pattern (hd (dc_buckets c ! i)))"
    "c' = c\<lparr>dc_buckets := (dc_buckets c)[i := tl (dc_buckets c ! i)], dc_size := dc_size c - 1\<rparr>"
    "mset (concat (dc_buckets c)) = add_mset (hd (dc_buckets c ! i)) (mset (concat (dc_buckets c')))"
  using assms first_nonempty_Some [of "dc_buckets c"] concat_update_tl [of _ "dc_buckets c"]
  by (auto simp: cache_evict_one_def split: option.splits)

lemma evict_shrinks:
  assumes "cache_evict_one st c = Some (st', c')"
  shows "length (concat (dc_buckets c')) < length (concat (dc_buckets c))"
  using assms
proof (rule cache_evict_one_SomeE)
  fix i
  assume "mset (concat (dc_buckets c)) = add_mset (hd (dc_buckets c ! i)) (mset (concat (dc_buckets c')))"
  then have "size (mset (concat (dc_buckets c))) = Suc (size (mset (concat (dc_buckets c'))))" by simp
  then show ?thesis unfolding size_mset by simp
qed

termination evict_loop
  by (relation "measure (\<lambda>(st, c). length (concat (dc_buckets c)))") (auto dest: evict_shrinks)

declare evict_loop.simps [simp del]

definition dynamic_pattern_cache_put ::
  "dp_store \<Rightarrow> dynamic_pattern_cache option \<Rightarrow> bytes option \<Rightarrow> nat \<Rightarrow>
     bool \<times> dp_store \<times> dynamic_pattern_cache option" where
  "dynamic_pattern_cache_put st cache source a =
     (case (cache, source) of
        (Some c, Some s) \<Rightarrow>
          (let text = c_string s; hash = dynamic_pattern_hash_source text
           in case cache_find_entry c hash text of
                Some e \<Rightarrow> (True, st, Some c)
              | None \<Rightarrow>
                  (let (st1, c1) = evict_loop st c;
                       b = bucket_of c1 hash;
                       e = \<lparr>ce_hash = hash, ce_source = text, ce_pattern = a\<rparr>
                   in (True, dynamic_pattern_retain st1 a,
                       Some (c1\<lparr>dc_buckets := (dc_buckets c1)[b := e # dc_buckets c1 ! b],
                                dc_size := dc_size c1 + 1\<rparr>))))
      | _ \<Rightarrow> (False, st, cache))"

fun remove_entry :: "u32 \<Rightarrow> bytes \<Rightarrow> cache_entry list \<Rightarrow> (nat \<times> cache_entry list) option" where
  "remove_entry hash source [] = None"
| "remove_entry hash source (e # es) =
     (if ce_hash e = hash \<and> ce_source e = source then Some (ce_pattern e, es)
      else map_option (\<lambda>(a, es'). (a, e # es')) (remove_entry hash source es))"

definition dynamic_pattern_cache_remove ::
  "dp_store \<Rightarrow> dynamic_pattern_cache option \<Rightarrow> bytes \<Rightarrow> int \<Rightarrow>
     bool \<times> dp_store \<times> dynamic_pattern_cache option" where
  "dynamic_pattern_cache_remove st cache source source_len =
     (case cache of
        None \<Rightarrow> (False, st, None)
      | Some c \<Rightarrow>
          (let text = lookup_text source source_len; hash = dynamic_pattern_hash_source text;
               b = bucket_of c hash
           in case remove_entry hash text (dc_buckets c ! b) of
                None \<Rightarrow> (False, st, Some c)
              | Some (a, es) \<Rightarrow>
                  (True, dynamic_pattern_release st a,
                   Some (c\<lparr>dc_buckets := (dc_buckets c)[b := es], dc_size := dc_size c - 1\<rparr>))))"

definition dynamic_pattern_cache_clear ::
  "dp_store \<Rightarrow> dynamic_pattern_cache \<Rightarrow> dp_store \<times> dynamic_pattern_cache" where
  "dynamic_pattern_cache_clear st c =
     (release_entries st (concat (dc_buckets c)),
      c\<lparr>dc_buckets := map (\<lambda>_. []) (dc_buckets c), dc_size := 0\<rparr>)"

definition dynamic_pattern_cache_stats :: "dynamic_pattern_cache option \<Rightarrow> nat \<times> nat" where
  "dynamic_pattern_cache_stats cache =
     (case cache of None \<Rightarrow> (0, 0) | Some c \<Rightarrow> (dc_size c, dc_max_size c))"

section \<open>The cache as a map, and the references it holds\<close>

definition cache_wf :: "dynamic_pattern_cache \<Rightarrow> bool" where
  "cache_wf c \<longleftrightarrow> 0 < length (dc_buckets c) \<and> 0 < dc_max_size c \<and>
     dc_size c = length (concat (dc_buckets c)) \<and>
     (\<forall>b < length (dc_buckets c). \<forall>e \<in> set (dc_buckets c ! b).
        ce_hash e = dynamic_pattern_hash_source (ce_source e) \<and>
        bucket_of c (dynamic_pattern_hash_source (ce_source e)) = b) \<and>
     distinct (map ce_source (concat (dc_buckets c)))"

definition cache_entries :: "dynamic_pattern_cache \<Rightarrow> cache_entry set" where
  "cache_entries c = set (concat (dc_buckets c))"

definition cache_map :: "dynamic_pattern_cache \<Rightarrow> bytes \<Rightarrow> nat option" where
  "cache_map c source =
     map_option ce_pattern (cache_find_entry c (dynamic_pattern_hash_source source) source)"

lemma find_entry_Some:
  "find_entry h s es = Some e \<Longrightarrow> e \<in> set es \<and> ce_hash e = h \<and> ce_source e = s"
  by (induction es) (auto split: if_splits)

lemma find_entry_None:
  "find_entry h s es = None \<longleftrightarrow> (\<forall>e \<in> set es. \<not> (ce_hash e = h \<and> ce_source e = s))"
  by (induction es) auto

lemma cache_find_entry_iff:
  assumes "cache_wf c"
  shows "cache_find_entry c (dynamic_pattern_hash_source s) s = Some e \<longleftrightarrow>
     e \<in> cache_entries c \<and> ce_source e = s" (is "?L \<longleftrightarrow> ?R")
proof
  let ?b = "bucket_of c (dynamic_pattern_hash_source s)"
  have b: "?b < length (dc_buckets c)" using assms by (simp add: cache_wf_def bucket_of_def)
  show ?R if ?L
    using find_entry_Some [OF that [unfolded cache_find_entry_def]] b
    by (auto simp: cache_entries_def intro: nth_mem)
  assume R: ?R
  then obtain i where i: "i < length (dc_buckets c)" "e \<in> set (dc_buckets c ! i)"
    by (auto simp: cache_entries_def in_set_conv_nth [where xs = "dc_buckets c"])
  have hash: "ce_hash e = dynamic_pattern_hash_source s"
    using assms R i by (auto simp: cache_wf_def)
  have "bucket_of c (dynamic_pattern_hash_source (ce_source e)) = i"
    using assms i unfolding cache_wf_def by blast
  then have "?b = i" using R by simp
  then have "find_entry (dynamic_pattern_hash_source s) s (dc_buckets c ! ?b) \<noteq> None"
    unfolding find_entry_None using i(2) R hash by auto
  then obtain e' where e': "cache_find_entry c (dynamic_pattern_hash_source s) s = Some e'"
    by (auto simp: cache_find_entry_def)
  then have "e' \<in> cache_entries c" "ce_source e' = s"
    using find_entry_Some [OF e' [unfolded cache_find_entry_def]] b
    by (auto simp: cache_entries_def intro: nth_mem)
  moreover have "inj_on ce_source (cache_entries c)"
    using assms by (simp add: cache_wf_def cache_entries_def distinct_map)
  ultimately have "e' = e" using R by (metis inj_onD)
  then show ?L using e' by simp
qed

definition cache_refs :: "dynamic_pattern_cache \<Rightarrow> nat \<Rightarrow> nat" where
  "cache_refs c a = count (image_mset ce_pattern (mset (concat (dc_buckets c)))) a"

text \<open>
  The reference counts in the store are the numbers of references that exist: an object is in the
  store as long as there is one.
\<close>

definition accounted :: "dp_store \<Rightarrow> (nat \<Rightarrow> nat) \<Rightarrow> bool" where
  "accounted st refs \<longleftrightarrow> (\<forall>a. refs a < 2 ^ 32) \<and> (\<forall>a. st_objs st a = None \<longleftrightarrow> refs a = 0) \<and>
     (\<forall>a p. st_objs st a = Some p \<longrightarrow> unat (dp_refcount p) = refs a) \<and>
     (\<forall>a \<ge> st_next st. st_objs st a = None)"

lemma accountedD:
  assumes "accounted st refs"
  shows "refs a < 2 ^ 32" "st_objs st a = None \<longleftrightarrow> refs a = 0"
    "st_objs st a = Some p \<Longrightarrow> unat (dp_refcount p) = refs a" "st_next st \<le> a \<Longrightarrow> st_objs st a = None"
  using assms by (simp_all add: accounted_def)

lemma accounted_live: "accounted st refs \<Longrightarrow> 0 < refs a \<Longrightarrow> \<exists>p. st_objs st a = Some p \<and> unat (dp_refcount p) = refs a"
  using accountedD(2,3) [of st refs a] by (cases "st_objs st a") auto

lemma accounted_create:
  assumes "accounted st refs"
  shows "accounted (snd (dynamic_pattern_create st src bc)) (refs(st_next st := 1))"
  using assms by (auto simp: accounted_def dynamic_pattern_create_def Let_def)

lemma unat_u32_Suc: "Suc (unat (w :: u32)) < 2 ^ 32 \<Longrightarrow> unat (w + 1) = Suc (unat w)"
  by (subst unat_add_lem [THEN iffD1]) simp_all

lemma unat_u32_pred: "0 < unat (w :: u32) \<Longrightarrow> unat (w - 1) = unat w - 1"
  by (metis One_nat_def unat_eq_zero unat_minus_one less_numeral_extra(3))

lemma accounted_retain:
  assumes "accounted st refs" "0 < refs a" "Suc (refs a) < 2 ^ 32"
  shows "accounted (dynamic_pattern_retain st a) (refs(a := Suc (refs a)))"
proof -
  obtain p where p: "st_objs st a = Some p" "unat (dp_refcount p) = refs a"
    using accounted_live [OF assms(1,2)] by blast
  have "unat (dp_refcount p + 1) = Suc (refs a)" using unat_u32_Suc [of "dp_refcount p"] p assms by simp
  moreover have "\<not> st_next st \<le> a" using accountedD(4) [OF assms(1), of a] p by auto
  ultimately show ?thesis using assms p by (simp add: accounted_def dynamic_pattern_retain_def)
qed

lemma accounted_release:
  assumes "accounted st refs" "0 < refs a"
  shows "accounted (dynamic_pattern_release st a) (refs(a := refs a - 1))"
proof -
  obtain p where p: "st_objs st a = Some p" "unat (dp_refcount p) = refs a"
    using accounted_live [OF assms] by blast
  have n: "unat (dp_refcount p - 1) = refs a - 1" using unat_u32_pred [of "dp_refcount p"] p assms by simp
  have pos: "0 < dp_refcount p - 1 \<longleftrightarrow> 1 < refs a"
    unfolding word_less_nat_alt n by auto
  have fresh: "\<not> st_next st \<le> a" using accountedD(4) [OF assms(1), of a] p by auto
  have bound: "refs a - 1 < 2 ^ 32" using accountedD(1) [OF assms(1), of a] by linarith
  show ?thesis
  proof (cases "1 < refs a")
    case True
    then show ?thesis using assms p n pos fresh bound
      by (simp add: accounted_def dynamic_pattern_release_def)
  next
    case False
    then show ?thesis using assms p pos fresh
      by (simp add: accounted_def dynamic_pattern_release_def)
  qed
qed

lemma accounted_release_entries:
  "accounted st (\<lambda>a. count (image_mset ce_pattern (mset es)) a + ext a) \<Longrightarrow>
     accounted (release_entries st es) ext"
proof (induction es arbitrary: st)
  case Nil
  then show ?case by simp
next
  case (Cons e es)
  have "accounted (dynamic_pattern_release st (ce_pattern e))
      (\<lambda>a. count (image_mset ce_pattern (mset es)) a + ext a)"
    using accounted_release [OF Cons.prems, of "ce_pattern e"]
    by (rule back_subst [where P = "accounted _"]) (auto simp: fun_eq_iff)
  then show ?case using Cons.IH by simp
qed

text \<open>The contents of one chain replaced: what stays of the well-formedness.\<close>

lemma mset_concat_update:
  "b < length bs \<Longrightarrow> mset (concat (bs[b := es])) + mset (bs ! b) = mset (concat bs) + mset es"
proof (induction bs arbitrary: b)
  case (Cons x bs)
  then show ?case by (cases b) (auto simp: ac_simps)
qed simp

lemma cache_wf_shrink:
  assumes "cache_wf c" "b < length (dc_buckets c)" "add_mset e (mset es) = mset (dc_buckets c ! b)"
  shows "cache_wf (c\<lparr>dc_buckets := (dc_buckets c)[b := es], dc_size := dc_size c - 1\<rparr>)"
    and "mset (concat (dc_buckets c)) = add_mset e (mset (concat ((dc_buckets c)[b := es])))"
proof -
  let ?bs = "(dc_buckets c)[b := es]"
  have "add_mset e (mset (concat ?bs) + mset es) = mset (concat (dc_buckets c)) + mset es"
    using mset_concat_update [OF assms(2), of es] assms(3) by (metis union_mset_add_mset_right)
  then show all: "mset (concat (dc_buckets c)) = add_mset e (mset (concat ?bs))"
    by (metis add_right_cancel union_mset_add_mset_left)
  have "size (mset (concat (dc_buckets c))) = Suc (size (mset (concat ?bs)))" unfolding all by simp
  then have size: "length (concat (dc_buckets c)) = Suc (length (concat ?bs))" by simp
  have "mset (map ce_source (concat (dc_buckets c))) =
      mset (ce_source e # map ce_source (concat ?bs))" using all by simp
  then have "distinct (map ce_source (concat ?bs))"
    using assms(1) by (metis cache_wf_def distinct.simps(2) mset_eq_imp_distinct_iff)
  moreover have "set es \<subseteq> set (dc_buckets c ! b)"
    using assms(3) by (metis set_mset_add_mset_insert set_mset_mset subset_insertI)
  ultimately show "cache_wf (c\<lparr>dc_buckets := ?bs, dc_size := dc_size c - 1\<rparr>)"
    using assms(1,2) size
    by (auto simp: cache_wf_def nth_list_update bucket_of_def subset_iff)
qed

lemma cache_wf_grow:
  assumes "cache_wf c" "e = \<lparr>ce_hash = dynamic_pattern_hash_source s, ce_source = s, ce_pattern = a\<rparr>"
    "cache_find_entry c (dynamic_pattern_hash_source s) s = None" "b = bucket_of c (ce_hash e)"
  shows "cache_wf (c\<lparr>dc_buckets := (dc_buckets c)[b := e # dc_buckets c ! b], dc_size := dc_size c + 1\<rparr>)"
    and "mset (concat ((dc_buckets c)[b := e # dc_buckets c ! b])) = add_mset e (mset (concat (dc_buckets c)))"
proof -
  let ?bs = "(dc_buckets c)[b := e # dc_buckets c ! b]"
  have b: "b < length (dc_buckets c)" using assms(1,4) by (simp add: cache_wf_def bucket_of_def)
  have "mset (concat ?bs) + mset (dc_buckets c ! b) =
      add_mset e (mset (concat (dc_buckets c))) + mset (dc_buckets c ! b)"
    using mset_concat_update [OF b, of "e # dc_buckets c ! b"] by simp
  then show all: "mset (concat ?bs) = add_mset e (mset (concat (dc_buckets c)))"
    by (metis add_right_cancel)
  have "size (mset (concat ?bs)) = Suc (size (mset (concat (dc_buckets c))))" unfolding all by simp
  then have size: "length (concat ?bs) = Suc (length (concat (dc_buckets c)))" by simp
  have new: "s \<notin> ce_source ` set (concat (dc_buckets c))"
    using cache_find_entry_iff [OF assms(1), of s] assms(3) by (auto simp: cache_entries_def)
  have "mset (map ce_source (concat ?bs)) = mset (s # map ce_source (concat (dc_buckets c)))"
    using all assms(2) by simp
  moreover have "distinct (s # map ce_source (concat (dc_buckets c)))"
    using new assms(1) by (simp add: cache_wf_def)
  ultimately have "distinct (map ce_source (concat ?bs))"
    by (metis mset_eq_imp_distinct_iff)
  moreover have "ce_hash x = dynamic_pattern_hash_source (ce_source x) \<and>
      bucket_of c (dynamic_pattern_hash_source (ce_source x)) = i"
    if "i < length (dc_buckets c)" "x \<in> set (?bs ! i)" for i x
  proof (cases "x = e \<and> i = b")
    case True
    then show ?thesis using assms(2,4) by simp
  next
    case False
    then have "x \<in> set (dc_buckets c ! i)" using that b by (cases "i = b") auto
    then show ?thesis using assms(1) that(1) unfolding cache_wf_def by blast
  qed
  ultimately show "cache_wf (c\<lparr>dc_buckets := ?bs, dc_size := dc_size c + 1\<rparr>)"
    using assms(1) size unfolding cache_wf_def by (simp add: bucket_of_def)
qed

lemma cache_refs_add:
  "mset (concat (dc_buckets c)) = add_mset e (mset (concat (dc_buckets c'))) \<Longrightarrow>
     cache_refs c = (cache_refs c')(ce_pattern e := Suc (cache_refs c' (ce_pattern e)))"
  by (auto simp: cache_refs_def fun_eq_iff)

lemma accounted_drop_entry:
  assumes "accounted st (\<lambda>a. cache_refs c a + ext a)"
    "mset (concat (dc_buckets c)) = add_mset e (mset (concat (dc_buckets c')))"
  shows "accounted (dynamic_pattern_release st (ce_pattern e)) (\<lambda>a. cache_refs c' a + ext a)"
proof -
  note refs = cache_refs_add [OF assms(2)]
  have "0 < cache_refs c (ce_pattern e) + ext (ce_pattern e)" unfolding refs by simp
  from accounted_release [OF assms(1) this]
  show ?thesis
    by (rule back_subst [where P = "accounted _"]) (auto simp: refs fun_eq_iff)
qed

text \<open>Eviction keeps everything in order and makes room.\<close>

lemma evict_loop_ok:
  assumes "cache_wf c" "accounted st (\<lambda>a. cache_refs c a + ext a)"
  shows "case evict_loop st c of (st', c') \<Rightarrow>
     cache_wf c' \<and> accounted st' (\<lambda>a. cache_refs c' a + ext a) \<and> dc_size c' < dc_max_size c' \<and>
     dc_max_size c' = dc_max_size c \<and> length (dc_buckets c') = length (dc_buckets c) \<and>
     cache_entries c' \<subseteq> cache_entries c \<and> (\<forall>a. cache_refs c' a \<le> cache_refs c a) \<and>
     (dc_size c < dc_max_size c \<longrightarrow> c' = c)"
  using assms
proof (induction st c rule: evict_loop.induct)
  case (1 st c)
  show ?case
  proof (cases "dc_max_size c \<le> dc_size c")
    case False
    then show ?thesis using 1 by (simp add: evict_loop.simps [of st c])
  next
    case True
    then have "0 < length (concat (dc_buckets c))" using 1(2) unfolding cache_wf_def by linarith
    then have "concat (dc_buckets c) \<noteq> []" by (rule length_greater_0_conv [THEN iffD1])
    then have "first_nonempty (dc_buckets c) \<noteq> None"
      unfolding first_nonempty_None concat_eq_Nil_conv .
    then obtain st' c' where ev: "cache_evict_one st c = Some (st', c')"
      by (auto simp: cache_evict_one_def)
    then obtain i where i: "i < length (dc_buckets c)" "dc_buckets c ! i \<noteq> []"
      "st' = dynamic_pattern_release st (ce_pattern (hd (dc_buckets c ! i)))"
      "c' = c\<lparr>dc_buckets := (dc_buckets c)[i := tl (dc_buckets c ! i)], dc_size := dc_size c - 1\<rparr>"
      "mset (concat (dc_buckets c)) = add_mset (hd (dc_buckets c ! i)) (mset (concat (dc_buckets c')))"
      by (rule cache_evict_one_SomeE)
    have "add_mset (hd (dc_buckets c ! i)) (mset (tl (dc_buckets c ! i))) = mset (dc_buckets c ! i)"
      using i(2) by (cases "dc_buckets c ! i") auto
    then have wf': "cache_wf c'" using cache_wf_shrink(1) [OF 1(2) i(1)] i(4) by simp
    have acc': "accounted st' (\<lambda>a. cache_refs c' a + ext a)"
      unfolding i(3) by (rule accounted_drop_entry [OF 1(3) i(5)])
    have sub: "cache_entries c' \<subseteq> cache_entries c"
      using i(5) unfolding cache_entries_def by (metis set_mset_add_mset_insert set_mset_mset subset_insertI)
    have same: "dc_max_size c' = dc_max_size c" "length (dc_buckets c') = length (dc_buckets c)"
      using i(4) by simp_all
    have le: "cache_refs c' a \<le> cache_refs c a" for a by (simp add: cache_refs_add [OF i(5)])
    have "evict_loop st c = evict_loop st' c'"
      using True ev by (simp add: evict_loop.simps [of st c])
    then show ?thesis
      using 1(1) [OF True ev refl wf' acc'] sub same True order.trans [OF _ le]
      by (cases "evict_loop st' c'") auto
  qed
qed

lemma cache_map_iff:
  "cache_wf c \<Longrightarrow> cache_map c s = Some a \<longleftrightarrow> (\<exists>e \<in> cache_entries c. ce_source e = s \<and> ce_pattern e = a)"
  using cache_find_entry_iff [of c s] by (auto simp: cache_map_def)

section \<open>Properties\<close>

lemma concat_map_Nil [simp]: "concat (map (\<lambda>_. []) xs) = []"
  by (induction xs) simp_all

lemma remove_entry_Some:
  "remove_entry h s es = Some (a, es') \<Longrightarrow>
     \<exists>e. add_mset e (mset es') = mset es \<and> ce_source e = s \<and> ce_pattern e = a"
  by (induction es arbitrary: es') (auto split: if_splits)

lemma remove_entry_None: "remove_entry h s es = None \<longleftrightarrow> find_entry h s es = None"
  by (induction es) auto

lemma remove_entry_ok:
  assumes "cache_wf c" "accounted st (\<lambda>x. cache_refs c x + ext x)"
    "dynamic_pattern_cache_remove st (Some c) s n = (b, st', Some c')"
  shows "cache_wf c' \<and> accounted st' (\<lambda>x. cache_refs c' x + ext x) \<and>
     cache_map c' = (cache_map c)(lookup_text s n := None) \<and>
     (b \<longleftrightarrow> cache_map c (lookup_text s n) \<noteq> None)"
proof -
  let ?t = "lookup_text s n"
  let ?h = "dynamic_pattern_hash_source ?t"
  let ?b = "bucket_of c ?h"
  have b: "?b < length (dc_buckets c)" using assms(1) by (simp add: cache_wf_def bucket_of_def)
  show ?thesis
  proof (cases "remove_entry ?h ?t (dc_buckets c ! ?b)")
    case None
    then have "cache_map c ?t = None"
      by (simp add: remove_entry_None cache_map_def cache_find_entry_def)
    then show ?thesis using None assms
      by (simp add: dynamic_pattern_cache_remove_def Let_def fun_upd_idem)
  next
    case (Some r)
    then obtain a es where r: "remove_entry ?h ?t (dc_buckets c ! ?b) = Some (a, es)" by (cases r) auto
    then obtain e where e: "add_mset e (mset es) = mset (dc_buckets c ! ?b)" "ce_source e = ?t"
      "ce_pattern e = a" using remove_entry_Some by blast
    have res: "b" "st' = dynamic_pattern_release st a"
      "c' = c\<lparr>dc_buckets := (dc_buckets c)[?b := es], dc_size := dc_size c - 1\<rparr>"
      using assms(3) r by (simp_all add: dynamic_pattern_cache_remove_def Let_def)
    note shrink = cache_wf_shrink [OF assms(1) b e(1)]
    have wf': "cache_wf c'" using shrink(1) res(3) by simp
    have all: "mset (concat (dc_buckets c)) = add_mset e (mset (concat (dc_buckets c')))"
      using shrink(2) res(3) by simp
    have acc: "accounted st' (\<lambda>x. cache_refs c' x + ext x)"
      using accounted_drop_entry [OF assms(2) all] res(2) e(3) by simp
    have entries: "cache_entries c = insert e (cache_entries c')"
      using all unfolding cache_entries_def by (metis set_mset_add_mset_insert set_mset_mset)
    have "mset (map ce_source (concat (dc_buckets c))) = mset (?t # map ce_source (concat (dc_buckets c')))"
      using all e(2) by simp
    then have gone: "ce_source x \<noteq> ?t" if "x \<in> cache_entries c'" for x
      using assms(1) that unfolding cache_wf_def cache_entries_def
      by (metis distinct.simps(2) image_eqI list.set_map mset_eq_imp_distinct_iff)
    have "cache_map c' u = ((cache_map c)(?t := None)) u" for u
    proof (cases "u = ?t")
      case True
      then show ?thesis using cache_map_iff [OF wf', of u] gone by (auto simp flip: not_Some_eq)
    next
      case False
      have "cache_map c' u = Some x \<longleftrightarrow> cache_map c u = Some x" for x
        unfolding cache_map_iff [OF wf'] cache_map_iff [OF assms(1)] entries using False e(2) by auto
      then show ?thesis using False by (metis fun_upd_other not_Some_eq)
    qed
    moreover have "cache_map c ?t = Some a"
      unfolding cache_map_iff [OF assms(1)] entries using e by auto
    ultimately show ?thesis using wf' acc res(1) by auto
  qed
qed

lemma put_insert:
  assumes "cache_wf c" "accounted st (\<lambda>x. cache_refs c x + ext x)" "0 < ext a"
    "cache_refs c a + ext a < 2 ^ 32 - 1" "cache_find_entry c (dynamic_pattern_hash_source s) s = None"
    "e = \<lparr>ce_hash = dynamic_pattern_hash_source s, ce_source = s, ce_pattern = a\<rparr>"
  defines "c' \<equiv> c\<lparr>dc_buckets := (dc_buckets c)[bucket_of c (ce_hash e) := e # dc_buckets c ! bucket_of c (ce_hash e)],
      dc_size := dc_size c + 1\<rparr>"
  shows "cache_wf c'" "accounted (dynamic_pattern_retain st a) (\<lambda>x. cache_refs c' x + ext x)"
    "cache_map c' = (cache_map c)(s \<mapsto> a)"
proof -
  note grow = cache_wf_grow [OF assms(1,6,5) refl]
  show wf': "cache_wf c'" using grow(1) by (simp add: c'_def)
  have all: "mset (concat (dc_buckets c')) = add_mset e (mset (concat (dc_buckets c)))"
    using grow(2) by (simp add: c'_def)
  have refs: "cache_refs c' = (cache_refs c)(a := Suc (cache_refs c a))"
    using cache_refs_add [OF all] assms(6) by simp
  have "accounted (dynamic_pattern_retain st a)
      ((\<lambda>x. cache_refs c x + ext x)(a := Suc (cache_refs c a + ext a)))"
    using accounted_retain [OF assms(2), of a] assms(3,4) by simp
  then show "accounted (dynamic_pattern_retain st a) (\<lambda>x. cache_refs c' x + ext x)"
    by (rule back_subst [where P = "accounted _"]) (auto simp: refs fun_eq_iff)
  have entries: "cache_entries c' = insert e (cache_entries c)"
    using all unfolding cache_entries_def by (metis set_mset_add_mset_insert set_mset_mset)
  have "cache_map c' t = ((cache_map c)(s \<mapsto> a)) t" for t
  proof (cases "t = s")
    case True
    then show ?thesis using cache_map_iff [OF wf', of s a] entries assms(6) by simp
  next
    case False
    have "cache_map c' t = Some x \<longleftrightarrow> cache_map c t = Some x" for x
      unfolding cache_map_iff [OF wf'] cache_map_iff [OF assms(1)] entries using False assms(6) by auto
    then show ?thesis using False by (metis fun_upd_other not_Some_eq)
  qed
  then show "cache_map c' = (cache_map c)(s \<mapsto> a)" by blast
qed

text \<open>
  C28: Putting a pattern in the cache: the put succeeds, the cache stays well-formed and within its
  capacity, the reference counts stay exact (every object a chain points to is in the store, and
  evicted objects are freed when theirs was the last reference), a source already cached keeps its
  pattern and a new one is mapped to the pattern put; without eviction no other source changes.
\<close>

theorem dynamic_pattern_cache_put_ok:
  assumes "cache_wf c" "accounted st (\<lambda>x. cache_refs c x + ext x)" "0 < ext a"
    "cache_refs c a + ext a < 2 ^ 31" "dc_size c \<le> dc_max_size c"
  shows "\<exists>st' c'. dynamic_pattern_cache_put st (Some c) (Some s) a = (True, st', Some c') \<and>
     cache_wf c' \<and> accounted st' (\<lambda>x. cache_refs c' x + ext x) \<and> dc_size c' \<le> dc_max_size c' \<and>
     cache_map c' (c_string s) =
       (case cache_map c (c_string s) of None \<Rightarrow> Some a | Some b \<Rightarrow> Some b) \<and>
     (dc_size c < dc_max_size c \<longrightarrow>
        (\<forall>t. t \<noteq> c_string s \<longrightarrow> cache_map c' t = cache_map c t))"
proof (cases "cache_find_entry c (dynamic_pattern_hash_source (c_string s)) (c_string s)")
  case (Some e)
  then show ?thesis using assms by (simp add: dynamic_pattern_cache_put_def Let_def cache_map_def)
next
  case None
  let ?t = "c_string s" and ?h = "dynamic_pattern_hash_source (c_string s)"
  obtain st1 c1 where ev: "evict_loop st c = (st1, c1)" by (cases "evict_loop st c")
  have c1: "cache_wf c1" "accounted st1 (\<lambda>x. cache_refs c1 x + ext x)" "dc_size c1 < dc_max_size c1"
    "cache_entries c1 \<subseteq> cache_entries c" "cache_refs c1 a \<le> cache_refs c a" "dc_size c < dc_max_size c \<Longrightarrow> c1 = c"
    "dc_max_size c1 = dc_max_size c"
    using evict_loop_ok [OF assms(1,2)] unfolding ev by simp_all
  have none1: "cache_find_entry c1 ?h ?t = None"
    using None cache_find_entry_iff [OF assms(1)] cache_find_entry_iff [OF c1(1)] c1(4)
    by (metis not_Some_eq subsetD)
  have "cache_refs c1 a + ext a < 2 ^ 32 - 1" using c1(5) assms(4) by simp
  note put = put_insert [OF c1(1,2) assms(3) this none1 refl]
  define e where "e = \<lparr>ce_hash = ?h, ce_source = ?t, ce_pattern = a\<rparr>"
  define c2 where "c2 = c1\<lparr>dc_buckets := (dc_buckets c1)[bucket_of c1 ?h := e # dc_buckets c1 ! bucket_of c1 ?h],
      dc_size := dc_size c1 + 1\<rparr>"
  have eq: "dynamic_pattern_cache_put st (Some c) (Some s) a = (True, dynamic_pattern_retain st1 a, Some c2)"
    using None ev by (simp add: dynamic_pattern_cache_put_def Let_def c2_def e_def)
  have c2: "cache_wf c2" "accounted (dynamic_pattern_retain st1 a) (\<lambda>x. cache_refs c2 x + ext x)"
    "cache_map c2 = (cache_map c1)(?t \<mapsto> a)" "dc_size c2 \<le> dc_max_size c2"
    using put c1(3) by (simp_all add: c2_def e_def)
  have "cache_map c ?t = None" using None by (simp add: cache_map_def)
  then show ?thesis
    using eq c2 c1(6) by (intro exI [of _ "dynamic_pattern_retain st1 a"] exI [of _ c2]) auto
qed

theorem dynamic_pattern_cache_put_ok_witness:
  "\<exists>st' c'. dynamic_pattern_cache_put (snd (dynamic_pattern_create \<lparr>st_objs = \<lambda>_. None, st_next = 7\<rparr>
        (Some [65]) (Some [1]))) (Some (dynamic_pattern_cache_init 2)) (Some [65]) 7 = (True, st', Some c') \<and>
     cache_map c' [65] = Some 7"
proof -
  let ?st = "snd (dynamic_pattern_create \<lparr>st_objs = \<lambda>_. None, st_next = 7\<rparr> (Some [65]) (Some [1]))"
  let ?c = "dynamic_pattern_cache_init 2"
  have wf: "cache_wf ?c"
    by (simp add: cache_wf_def dynamic_pattern_cache_init_def CACHE_INITIAL_BUCKETS_def)
  have refs: "cache_refs ?c = (\<lambda>_. 0)"
    by (simp add: cache_refs_def dynamic_pattern_cache_init_def fun_eq_iff)
  have "accounted \<lparr>st_objs = \<lambda>_. None, st_next = 7\<rparr> (\<lambda>_. 0)" by (simp add: accounted_def)
  from accounted_create [OF this, of "Some [65]" "Some [1]"]
  have acc: "accounted ?st (\<lambda>x. cache_refs ?c x + (if x = 7 then 1 else 0))"
    by (rule back_subst [where P = "accounted _"]) (auto simp: refs fun_eq_iff)
  have "cache_map ?c [65] = None"
    unfolding not_Some_eq [symmetric] cache_map_iff [OF wf]
    by (simp add: cache_entries_def dynamic_pattern_cache_init_def)
  moreover have "cache_refs ?c 7 + (if (7::nat) = 7 then 1 else 0) < 2 ^ 31" by (simp add: refs)
  moreover have "dc_size ?c \<le> dc_max_size ?c" by (simp add: dynamic_pattern_cache_init_def)
  moreover have "c_string [65] = [65]" by (simp add: c_string_def)
  ultimately show ?thesis
    using dynamic_pattern_cache_put_ok [OF wf acc, of 7 "[65]"] by auto
qed

text \<open>
  C29: Looking a source up returns the pattern the cache maps it to, which is then in the store
  with one more reference; a remove drops exactly that source and its reference; a clear or a
  destroy gives all references of the cache back.
\<close>

theorem dynamic_pattern_cache_get_remove_ok:
  assumes "cache_wf c" "accounted st (\<lambda>x. cache_refs c x + ext x)"
    "\<forall>a. cache_refs c a + ext a < 2 ^ 31"
  shows "fst (dynamic_pattern_cache_get st (Some c) s n) = cache_map c (lookup_text s n) \<and>
     (case cache_map c (lookup_text s n) of
        None \<Rightarrow> snd (dynamic_pattern_cache_get st (Some c) s n) = st
      | Some a \<Rightarrow> st_objs st a \<noteq> None \<and>
          accounted (snd (dynamic_pattern_cache_get st (Some c) s n))
            (\<lambda>x. cache_refs c x + (ext(a := Suc (ext a))) x)) \<and>
     accounted (fst (dynamic_pattern_cache_clear st c)) ext \<and>
     cache_wf (snd (dynamic_pattern_cache_clear st c)) \<and>
     accounted (fst (dynamic_pattern_cache_destroy st c)) ext \<and>
     (\<forall>b st' c'. dynamic_pattern_cache_remove st (Some c) s n = (b, st', Some c') \<longrightarrow>
        cache_wf c' \<and> accounted st' (\<lambda>x. cache_refs c' x + ext x) \<and>
        cache_map c' = (cache_map c)(lookup_text s n := None) \<and>
        (b \<longleftrightarrow> cache_map c (lookup_text s n) \<noteq> None))"
proof (intro conjI)
  let ?t = "lookup_text s n"
  show "fst (dynamic_pattern_cache_get st (Some c) s n) = cache_map c ?t"
    by (simp add: dynamic_pattern_cache_get_def cache_map_def Let_def split: option.splits)
  show "case cache_map c ?t of
        None \<Rightarrow> snd (dynamic_pattern_cache_get st (Some c) s n) = st
      | Some a \<Rightarrow> st_objs st a \<noteq> None \<and>
          accounted (snd (dynamic_pattern_cache_get st (Some c) s n))
            (\<lambda>x. cache_refs c x + (ext(a := Suc (ext a))) x)"
  proof (cases "cache_find_entry c (dynamic_pattern_hash_source ?t) ?t")
    case None
    then show ?thesis by (simp add: dynamic_pattern_cache_get_def cache_map_def Let_def)
  next
    case (Some e)
    then have "e \<in> cache_entries c" using cache_find_entry_iff [OF assms(1)] by blast
    then have pos: "0 < cache_refs c (ce_pattern e) + ext (ce_pattern e)"
      by (auto simp: cache_refs_def cache_entries_def)
    have "accounted (dynamic_pattern_retain st (ce_pattern e))
        (\<lambda>x. cache_refs c x + (ext(ce_pattern e := Suc (ext (ce_pattern e)))) x)"
      using accounted_retain [OF assms(2) pos] assms(3) [THEN spec, of "ce_pattern e"]
      by (auto elim!: back_subst [where P = "accounted _"])
    then show ?thesis using Some accounted_live [OF assms(2) pos]
      by (auto simp: dynamic_pattern_cache_get_def cache_map_def Let_def)
  qed
  have "accounted (release_entries st (concat (dc_buckets c))) ext"
    using assms(2) by (intro accounted_release_entries) (simp add: cache_refs_def)
  then show "accounted (fst (dynamic_pattern_cache_clear st c)) ext"
    "accounted (fst (dynamic_pattern_cache_destroy st c)) ext"
    by (simp_all add: dynamic_pattern_cache_clear_def dynamic_pattern_cache_destroy_def)
  show "cache_wf (snd (dynamic_pattern_cache_clear st c))"
    using assms(1) by (simp add: cache_wf_def dynamic_pattern_cache_clear_def)
  show "\<forall>b st' c'. dynamic_pattern_cache_remove st (Some c) s n = (b, st', Some c') \<longrightarrow>
        cache_wf c' \<and> accounted st' (\<lambda>x. cache_refs c' x + ext x) \<and>
        cache_map c' = (cache_map c)(lookup_text s n := None) \<and>
        (b \<longleftrightarrow> cache_map c (lookup_text s n) \<noteq> None)"
    using remove_entry_ok [OF assms(1,2)] by blast
qed

theorem dynamic_pattern_cache_get_remove_ok_witness:
  "fst (dynamic_pattern_cache_get \<lparr>st_objs = \<lambda>_. None, st_next = 7\<rparr>
     (Some (dynamic_pattern_cache_init 4)) [65] 1) = None"
proof -
  let ?c = "dynamic_pattern_cache_init 4"
  have wf: "cache_wf ?c"
    by (simp add: cache_wf_def dynamic_pattern_cache_init_def CACHE_INITIAL_BUCKETS_def)
  have refs: "cache_refs ?c x = 0" for x
    by (simp add: cache_refs_def dynamic_pattern_cache_init_def)
  have "cache_map ?c [65] = None"
    unfolding not_Some_eq [symmetric] cache_map_iff [OF wf]
    by (simp add: cache_entries_def dynamic_pattern_cache_init_def)
  then show ?thesis
    using dynamic_pattern_cache_get_remove_ok [OF wf, of "\<lparr>st_objs = \<lambda>_. None, st_next = 7\<rparr>" "\<lambda>_. 0" "[65]" 1]
    by (simp add: refs accounted_def lookup_text_def)
qed

end
