(* ===== verification/Snobol_Array.thy ===== *)
theory Snobol_Array
  imports Counted_Slots
begin

text \<open>
  The runtime's arrays, \<^verbatim>\<open>core/src/array.c\<close>: sparse maps from 32 bit integers to strings on the same
  open addressing as the tables, with a multiplicative hash, a capacity that can be asked for, and
  the enumeration of keys and values. A signed key is the word of its bits.
\<close>

section \<open>The operations\<close>

record array_entry =
  ae_key :: u32
  ae_value :: "bytes option"
  ae_hash :: u32
  ae_active :: bool

record snobol_array =
  arr_entries :: "array_entry list"
  arr_size :: u64
  arr_tombstones :: u64
  arr_refcount :: u32
  arr_bounds_hint :: u32

definition array_hash_int :: "u32 \<Rightarrow> u32" where
  "array_hash_int key = key * 2654435761"

definition zero_cell :: array_entry where
  "zero_cell = \<lparr>ae_key = 0, ae_value = None, ae_hash = 0, ae_active = False\<rparr>"

definition ARRAY_INITIAL_CAPACITY :: nat where
  "ARRAY_INITIAL_CAPACITY = 16"

definition array_live :: "array_entry \<Rightarrow> bool" where
  "array_live e \<longleftrightarrow> ae_active e \<and> ae_value e \<noteq> None"

definition array_resize :: "snobol_array \<Rightarrow> nat \<Rightarrow> snobol_array option" where
  "array_resize t new_capacity =
     (let new = replicate new_capacity zero_cell
      in case rehash ae_active array_live ae_hash (slot_mask new) (arr_entries t) new of
           None \<Rightarrow> None
         | Some es \<Rightarrow> Some (t\<lparr>arr_entries := es, arr_tombstones := 0\<rparr>))"

definition array_maybe_resize :: "snobol_array \<Rightarrow> snobol_array option" where
  "array_maybe_resize t =
     (let capacity = length (arr_entries t); threshold = (capacity * 3) div 4
      in if threshold < unat (arr_size t + arr_tombstones t) then array_resize t (capacity * 2)
         else Some t)"

text \<open>The loop that doubles the capacity until it covers the hint.\<close>

function capacity_loop :: "nat \<Rightarrow> nat \<Rightarrow> nat" where
  "capacity_loop cap hint = (if 0 < cap \<and> cap < hint then capacity_loop (cap * 2) hint else cap)"
  by pat_completeness auto
termination by (relation "measure (\<lambda>(cap, hint). hint - cap)") auto

declare capacity_loop.simps [simp del]

definition initial_capacity :: "u32 \<Rightarrow> nat" where
  "initial_capacity bounds_hint =
     (if sint bounds_hint > 0 \<and> nat (sint bounds_hint) > ARRAY_INITIAL_CAPACITY
      then capacity_loop 1 (nat (sint bounds_hint)) else ARRAY_INITIAL_CAPACITY)"

definition snobol_array_create :: "u32 \<Rightarrow> snobol_array" where
  "snobol_array_create bounds_hint =
     \<lparr>arr_entries = replicate (initial_capacity bounds_hint) zero_cell, arr_size = 0,
      arr_tombstones = 0, arr_refcount = 1,
      arr_bounds_hint = (if sint bounds_hint > 0 then bounds_hint else 0)\<rparr>"

definition snobol_array_retain :: "snobol_array \<Rightarrow> snobol_array" where
  "snobol_array_retain t = t\<lparr>arr_refcount := arr_refcount t + 1\<rparr>"

definition snobol_array_release :: "snobol_array \<Rightarrow> snobol_array option" where
  "snobol_array_release t =
     (let refcount = arr_refcount t - 1
      in if 0 < refcount then Some (t\<lparr>arr_refcount := refcount\<rparr>) else None)"

definition array_find :: "snobol_array \<Rightarrow> u32 \<Rightarrow> probe_result" where
  "array_find t key =
     (let hash = array_hash_int key; es = arr_entries t; msk = slot_mask es
      in probe ae_active (\<lambda>e. ae_hash e = hash \<and> ae_key e = key) (\<lambda>e. ae_value e = None)
           es msk (length es) (hash AND msk) None)"

definition cell_removed :: "array_entry \<Rightarrow> array_entry" where
  "cell_removed e = e\<lparr>ae_key := 0, ae_value := None, ae_active := False\<rparr>"

definition array_store :: "snobol_array \<Rightarrow> u32 \<Rightarrow> bytes option \<Rightarrow> snobol_array option" where
  "array_store t0 key value =
     (case array_maybe_resize t0 of
        None \<Rightarrow> None
      | Some t \<Rightarrow>
          (let hash = array_hash_int key; es = arr_entries t
           in case array_find t key of
                Spin \<Rightarrow> None
              | Hit idx \<Rightarrow>
                  (case value of
                     Some v \<Rightarrow> Some (t\<lparr>arr_entries := es[unat idx := (es ! unat idx)\<lparr>ae_value := Some v\<rparr>]\<rparr>)
                   | None \<Rightarrow> Some (t\<lparr>arr_entries := es[unat idx := cell_removed (es ! unat idx)],
                                   arr_size := arr_size t - 1,
                                   arr_tombstones := arr_tombstones t + 1\<rparr>))
              | Free idx tombstone_idx \<Rightarrow>
                  (let insert_idx = (case tombstone_idx of None \<Rightarrow> idx | Some i \<Rightarrow> i)
                   in Some (t\<lparr>arr_entries := es[unat insert_idx :=
                                  \<lparr>ae_key = key, ae_value = value, ae_hash = hash,
                                   ae_active = True\<rparr>],
                             arr_size := arr_size t + 1,
                             arr_tombstones := (if tombstone_idx \<noteq> None then arr_tombstones t - 1
                                                else arr_tombstones t)\<rparr>))))"

definition snobol_array_set_ex ::
  "snobol_array option \<Rightarrow> u32 \<Rightarrow> bytes option \<Rightarrow> (bool \<times> snobol_array option) option" where
  "snobol_array_set_ex array key value =
     (case array of
        Some t \<Rightarrow> map_option (\<lambda>t'. (True, Some t')) (array_store t key value)
      | None \<Rightarrow> Some (False, None))"

definition array_lookup :: "snobol_array \<Rightarrow> u32 \<Rightarrow> bytes option option" where
  "array_lookup t key =
     (case array_find t key of
        Spin \<Rightarrow> None
      | Hit idx \<Rightarrow> Some (ae_value (arr_entries t ! unat idx))
      | Free idx tomb \<Rightarrow> Some None)"

definition snobol_array_get_ex :: "snobol_array option \<Rightarrow> u32 \<Rightarrow> bytes option option" where
  "snobol_array_get_ex array key =
     (case array of Some t \<Rightarrow> array_lookup t key | None \<Rightarrow> Some None)"

definition snobol_array_has :: "snobol_array option \<Rightarrow> u32 \<Rightarrow> bool option" where
  "snobol_array_has array key = map_option (\<lambda>v. v \<noteq> None) (snobol_array_get_ex array key)"

definition array_remove :: "snobol_array \<Rightarrow> u32 \<Rightarrow> (bool \<times> snobol_array) option" where
  "array_remove t key =
     (case array_find t key of
        Spin \<Rightarrow> None
      | Hit idx \<Rightarrow>
          Some (True, t\<lparr>arr_entries := (arr_entries t)[unat idx := cell_removed (arr_entries t ! unat idx)],
                        arr_size := arr_size t - 1,
                        arr_tombstones := arr_tombstones t + 1\<rparr>)
      | Free idx tomb \<Rightarrow> Some (False, t))"

definition snobol_array_delete ::
  "snobol_array option \<Rightarrow> u32 \<Rightarrow> (bool \<times> snobol_array option) option" where
  "snobol_array_delete array key =
     (case array of
        Some t \<Rightarrow> map_option (\<lambda>(b, t'). (b, Some t')) (array_remove t key)
      | None \<Rightarrow> Some (False, None))"

definition snobol_array_clear :: "snobol_array \<Rightarrow> snobol_array" where
  "snobol_array_clear t =
     t\<lparr>arr_entries := map (\<lambda>e. if ae_active e then cell_removed e else e) (arr_entries t),
       arr_size := 0, arr_tombstones := 0\<rparr>"

definition snobol_array_size :: "snobol_array option \<Rightarrow> u64" where
  "snobol_array_size array = (case array of None \<Rightarrow> 0 | Some t \<Rightarrow> arr_size t)"

text \<open>
  The two enumerations write into a block with room for \<open>arr_size\<close> elements; the elements are
  those of the live entries in slot order.
\<close>

definition snobol_array_keys :: "snobol_array \<Rightarrow> u32 list" where
  "snobol_array_keys t = map ae_key (filter array_live (arr_entries t))"

definition snobol_array_values :: "snobol_array \<Rightarrow> bytes list" where
  "snobol_array_values t = map (the \<circ> ae_value) (filter array_live (arr_entries t))"

section \<open>Arrays as counted slots\<close>

definition array_entry_of :: "u32 \<Rightarrow> bytes option \<Rightarrow> array_entry" where
  "array_entry_of k v = \<lparr>ae_key = k, ae_value = v, ae_hash = array_hash_int k, ae_active = True\<rparr>"

interpretation ar: counted_slots ae_active ae_key ae_hash ae_value array_hash_int array_entry_of
  "\<lambda>e v. e\<lparr>ae_value := Some v\<rparr>" cell_removed zero_cell
  by unfold_locales (simp_all add: array_entry_of_def cell_removed_def zero_cell_def)

definition cells_of :: "snobol_array \<Rightarrow> array_entry slots" where
  "cells_of t = \<lparr>sl_entries = arr_entries t, sl_size = arr_size t, sl_tombs = arr_tombstones t\<rparr>"

lemma cells_of_simps [simp]:
  "sl_entries (cells_of t) = arr_entries t" "sl_size (cells_of t) = arr_size t"
  "sl_tombs (cells_of t) = arr_tombstones t"
  by (simp_all add: cells_of_def)

lemma array_live_ar: "array_live = ar.live"
  by (simp add: fun_eq_iff array_live_def ar.live_def)

lemma array_find_look: "array_find t key = ar.look (arr_entries t) key"
  by (simp add: array_find_def ar.look_def ar.hit_def [abs_def] Let_def)

text \<open>Each operation of the code is the shared one on the array's slots.\<close>

lemma array_maybe_resize_slots:
  "map_option cells_of (array_maybe_resize t) = ar.maybe_resize (cells_of t)"
  by (simp add: array_maybe_resize_def ar.maybe_resize_def array_resize_def ar.resize_def
      array_live_ar Let_def cells_of_def split: option.splits)

lemma array_store_slots:
  "map_option cells_of (array_store t k v) = ar.store (cells_of t) k v"
proof (cases "array_maybe_resize t")
  case None
  then show ?thesis using array_maybe_resize_slots [of t] by (simp add: array_store_def ar.store_def)
next
  case (Some t1)
  have "ar.maybe_resize (cells_of t) = Some (cells_of t1)"
    using array_maybe_resize_slots [of t] Some by simp
  then show ?thesis using Some
    by (auto simp: array_store_def ar.store_def array_find_look ar.insert_at_def Let_def
        ar.remove_at_def array_entry_of_def cells_of_def
        split: probe_result.splits option.splits)
qed

lemma array_remove_slots:
  "map_option (\<lambda>(b, t). (b, cells_of t)) (array_remove t k) = ar.remove_key (cells_of t) k"
  by (simp add: array_remove_def ar.remove_key_def array_find_look ar.remove_at_def cells_of_def
      split: probe_result.splits)

lemma array_lookup_slots: "array_lookup t k = ar.value_of (cells_of t) k"
  by (simp add: array_lookup_def ar.value_of_def array_find_look split: probe_result.splits)

lemma array_clear_slots: "cells_of (snobol_array_clear t) = ar.cleared (cells_of t)"
  by (simp add: snobol_array_clear_def ar.cleared_def cells_of_def)

lemmas array_slots = array_store_slots array_remove_slots array_lookup_slots array_clear_slots

text \<open>The invariants of an array are those of its slots.\<close>

definition array_wf :: "snobol_array \<Rightarrow> bool" where
  "array_wf t \<longleftrightarrow> ar.slots_wf (cells_of t)"

definition array_connected :: "snobol_array \<Rightarrow> bool" where
  "array_connected t \<longleftrightarrow> ar.connected (cells_of t)"

definition array_can_grow :: "snobol_array \<Rightarrow> bool" where
  "array_can_grow t \<longleftrightarrow> unat (arr_size t) < 2 ^ 64 - 1 \<and> length (arr_entries t) \<le> 2 ^ 31"

definition array_map :: "snobol_array \<Rightarrow> u32 \<Rightarrow> bytes option" where
  "array_map t k = ar.slots_map (cells_of t) k"

lemma array_connected_wf: "array_connected t \<Longrightarrow> array_wf t"
  by (simp add: array_connected_def array_wf_def ar.connected_def)

lemma array_lookup_map: "array_wf t \<Longrightarrow> array_lookup t k = Some (array_map t k)"
  by (simp add: array_lookup_slots array_wf_def array_map_def ar.value_of_map)

text \<open>The initial capacity is a power of two that covers the hint.\<close>

lemma capacity_loop_pow2:
  "0 < cap \<Longrightarrow> \<exists>m. capacity_loop cap hint = cap * 2 ^ m \<and> hint \<le> capacity_loop cap hint \<and>
     (capacity_loop cap hint = cap \<or> capacity_loop cap hint < 2 * hint)"
proof (induction cap hint rule: capacity_loop.induct)
  case (1 cap hint)
  show ?case
  proof (cases "cap < hint")
    case True
    then obtain m where m: "capacity_loop (cap * 2) hint = cap * 2 * 2 ^ m"
      "hint \<le> capacity_loop (cap * 2) hint"
      "capacity_loop (cap * 2) hint = cap * 2 \<or> capacity_loop (cap * 2) hint < 2 * hint"
      using 1 by auto
    have "capacity_loop cap hint = capacity_loop (cap * 2) hint"
      using True 1(2) by (simp add: capacity_loop.simps [of cap])
    then show ?thesis using m True by (intro exI [of _ "Suc m"]) auto
  next
    case False
    then show ?thesis by (intro exI [of _ 0]) (simp add: capacity_loop.simps [of cap])
  qed
qed

lemma initial_capacity_pow2:
  obtains j where "initial_capacity hint = 2 ^ j" "j \<le> 31" "16 \<le> initial_capacity hint"
proof (cases "sint hint > 0 \<and> nat (sint hint) > ARRAY_INITIAL_CAPACITY")
  case True
  let ?h = "nat (sint hint)"
  have h: "?h < 2 ^ 31" using sint_lt [of hint] by simp
  obtain m where m: "capacity_loop 1 ?h = 2 ^ m" "?h \<le> capacity_loop 1 ?h"
    "capacity_loop 1 ?h = 1 \<or> capacity_loop 1 ?h < 2 * ?h"
    using capacity_loop_pow2 [of 1 ?h] by (metis mult_1 zero_less_one)
  have "(2::nat) ^ m < 2 ^ 32" using m h True by auto
  then have "m < 32" by (rule power_less_imp_less_exp [rotated]) simp
  then have "m \<le> 31" by simp
  moreover have cap: "initial_capacity hint = 2 ^ m" using m(1) True by (simp add: initial_capacity_def)
  moreover have "16 \<le> initial_capacity hint"
    unfolding cap using m(2) [unfolded m(1)] True unfolding ARRAY_INITIAL_CAPACITY_def by linarith
  ultimately show ?thesis by (intro that [of m])
next
  case False
  then have "initial_capacity hint = 16"
    unfolding initial_capacity_def ARRAY_INITIAL_CAPACITY_def by (rule if_not_P)
  then show ?thesis by (intro that [of 4]) simp_all
qed

lemma array_create_connected:
  "array_connected (snobol_array_create hint)" "array_map (snobol_array_create hint) k = None"
proof -
  obtain j where j: "initial_capacity hint = 2 ^ j" "j \<le> 31" "16 \<le> initial_capacity hint"
    by (rule initial_capacity_pow2)
  have "cells_of (snobol_array_create hint) = ar.fresh (initial_capacity hint)"
    by (simp add: cells_of_def snobol_array_create_def ar.fresh_def)
  then show "array_connected (snobol_array_create hint)" "array_map (snobol_array_create hint) k = None"
    using ar.fresh_connected [OF j(1)] j(2,3) by (simp_all add: array_connected_def array_map_def)
qed
lemma array_store_contract:
  assumes "array_wf t" "array_can_grow t"
  shows "\<exists>t'. array_store t k v = Some t' \<and> array_wf t' \<and> array_map t' k = v \<and>
     (v \<noteq> None \<and> array_connected t \<longrightarrow> array_connected t' \<and> array_map t' = (array_map t)(k := v))"
proof -
  have "ar.can_grow (cells_of t)" using assms(2) by (simp add: array_can_grow_def ar.can_grow_def)
  from ar.store_contract [OF assms(1) [unfolded array_wf_def] this, of "k" v]
  obtain s where s: "ar.store (cells_of t) k v = Some s" "ar.slots_wf s"
    "ar.slots_map s k = v"
    "v \<noteq> None \<Longrightarrow> ar.connected (cells_of t) \<Longrightarrow>
       ar.connected s \<and> ar.slots_map s = (ar.slots_map (cells_of t))(k := v)"
    by blast
  then obtain t' where t': "array_store t k v = Some t'" "s = cells_of t'"
    using array_store_slots [of t k v] by auto
  show ?thesis
    using s t' by (auto simp: array_wf_def array_connected_def array_map_def fun_eq_iff)
qed

lemma array_within_step:
  assumes "ar.within n (cells_of t)" "n < 2 ^ 29"
  shows "\<exists>t'. array_store t k (Some v) = Some t' \<and> ar.within (Suc n) (cells_of t') \<and>
     array_map t' = (array_map t)(k \<mapsto> v)"
proof -
  from ar.within_step [OF assms, of "k" v]
  obtain s where s: "ar.store (cells_of t) k (Some v) = Some s" "ar.within (Suc n) s"
    "ar.slots_map s = (ar.slots_map (cells_of t))(k \<mapsto> v)" by blast
  then obtain t' where t': "array_store t k (Some v) = Some t'" "s = cells_of t'"
    using array_store_slots [of t k "Some v"] by auto
  then show ?thesis using s by (auto simp: array_map_def fun_eq_iff)
qed

interpretation array_store: assoc_store "\<lambda>n t. ar.within n (cells_of t)" array_map
  "\<lambda>t k v. array_store t k (Some v)" "snobol_array_create hint" "2 ^ 29"
  for hint
proof
  obtain j where "initial_capacity hint = 2 ^ j" "j \<le> 31" "16 \<le> initial_capacity hint"
    by (rule initial_capacity_pow2)
  then have "initial_capacity hint \<le> 2 ^ 31" by (metis power_increasing one_le_numeral)
  then show "ar.within 0 (cells_of (snobol_array_create hint))"
    using array_create_connected(1) [of hint]
    by (simp add: array_connected_def ar.within_def snobol_array_create_def)
qed (simp_all add: array_create_connected array_within_step)

section \<open>Properties\<close>

text \<open>The keys of a connected array are distinct and are those with a value.\<close>

lemma array_keys_map:
  assumes "array_connected t"
  shows "distinct (snobol_array_keys t)" "set (snobol_array_keys t) = dom (array_map t)"
    and "list_all2 (\<lambda>k v. array_map t k = Some v) (snobol_array_keys t) (snobol_array_values t)"
proof -
  have g: "ar.good (arr_entries t)" using assms by (simp add: array_connected_def ar.connected_def)
  have "filter array_live (arr_entries t) = filter array_live (filter ae_active (arr_entries t))"
    by (simp add: array_live_def [abs_def] conj_ac cong: conj_cong)
  moreover have "distinct (map ae_key (filter ae_active (arr_entries t)))"
    using g by (simp add: ar.good_def)
  ultimately show "distinct (snobol_array_keys t)"
    unfolding snobol_array_keys_def by (metis distinct_map_filter)
  have iff: "array_map t k = Some v \<longleftrightarrow>
      (\<exists>e \<in> set (arr_entries t). ae_active e \<and> ae_key e = k \<and> ae_value e = Some v)" for k v
    using ar.good_lookup [OF g] by (simp add: array_map_def ar.slots_map_def)
  then show "set (snobol_array_keys t) = dom (array_map t)"
    by (auto simp: snobol_array_keys_def array_live_def dom_def)
  show "list_all2 (\<lambda>k v. array_map t k = Some v) (snobol_array_keys t) (snobol_array_values t)"
    unfolding snobol_array_keys_def snobol_array_values_def list.rel_map
    by (rule list.rel_refl_strong) (auto simp: iff array_live_def)
qed

text \<open>
  C27: An array created with any hint and filled by at most \<open>2 ^ 29\<close> sets is the finite map the
  sequence denotes: every operation returns, a get yields the last value set for the key, and the
  two enumerations list every key exactly once, with the values in the order of the keys.
\<close>

theorem array_sets_refine_map:
  assumes "length kvs \<le> 2 ^ 29"
  shows "\<exists>t. store_all (\<lambda>t k v. array_store t k (Some v)) (snobol_array_create hint) kvs = Some t \<and>
     (\<forall>k. snobol_array_get_ex (Some t) k = Some (map_of (rev kvs) k)) \<and>
     distinct (snobol_array_keys t) \<and> set (snobol_array_keys t) = fst ` set kvs \<and>
     list_all2 (\<lambda>k v. map_of (rev kvs) k = Some v) (snobol_array_keys t) (snobol_array_values t)"
proof -
  obtain t where t: "store_all (\<lambda>t k v. array_store t k (Some v)) (snobol_array_create hint) kvs = Some t"
    "ar.within (length kvs) (cells_of t)" "array_map t = map_of (rev kvs)"
    using array_store.store_all_get [OF assms] by blast
  have con: "array_connected t" using t(2) by (simp add: ar.within_def array_connected_def)
  show ?thesis
    using t(1,3) array_keys_map [OF con] array_lookup_map [OF array_connected_wf [OF con]]
    by (intro exI [of _ t]) (simp add: snobol_array_get_ex_def dom_map_of_conv_image_fst)
qed

theorem array_sets_refine_map_witness:
  "\<exists>t. store_all (\<lambda>t k v. array_store t k (Some v)) (snobol_array_create 20)
       [(1, [1]), (- 3, [2]), (1, [3])] = Some t \<and>
     snobol_array_get_ex (Some t) 1 = Some (Some [3]) \<and> set (snobol_array_keys t) = {1, - 3}"
  using array_sets_refine_map [of "[(1, [1]), (- 3, [2]), (1, [3])]" 20] by auto

end
