(* ===== verification/Buffer.thy ===== *)
theory Buffer
  imports Prelude
begin

text \<open>
  The growable output buffer \<open>snobol_buf\<close> of core/include/snobol/vm.h with its operations of
  core/src/vm_exec.c. The first \<open>len\<close> bytes of the C array are \<open>buf_data\<close>; the byte after them is
  the terminating NUL the operations write, which needs \<open>len < cap\<close>. Allocation is taken to
  succeed (the PHP allocator never returns NULL; the standalone one keeps the old contents).
\<close>

record snobol_buf =
  buf_data :: bytes
  buf_cap :: nat

text \<open>
  The capacity search \<open>while (len + l >= newcap) newcap *= 2\<close>. The C loop is entered with a positive
  \<open>newcap\<close> only; the test for 0 makes the definition total.
\<close>

function grow_cap :: "nat \<Rightarrow> nat \<Rightarrow> nat" where
  "grow_cap need newcap = (if newcap \<le> need \<and> 0 < newcap then grow_cap need (newcap * 2) else newcap)"
  by pat_completeness auto
termination
  by (relation "measure (\<lambda>(need, newcap). Suc need - newcap)") auto

declare grow_cap.simps [simp del]

definition snobol_buf_init :: snobol_buf where
  "snobol_buf_init = \<lparr>buf_data = [], buf_cap = 1024\<rparr>"

definition snobol_buf_append :: "snobol_buf \<Rightarrow> bytes \<Rightarrow> snobol_buf" where
  "snobol_buf_append b d =
    (if d = [] then b
     else
       let need = length (buf_data b) + length d in
       let cap = (if buf_cap b \<le> need
                  then grow_cap need (if buf_cap b \<noteq> 0 then buf_cap b * 2 else 1024)
                  else buf_cap b)
       in \<lparr>buf_data = buf_data b @ d, buf_cap = cap\<rparr>)"

definition snobol_buf_clear :: "snobol_buf \<Rightarrow> snobol_buf" where
  "snobol_buf_clear b = b\<lparr>buf_data := []\<rparr>"

definition snobol_buf_free :: "snobol_buf \<Rightarrow> snobol_buf" where
  "snobol_buf_free b = \<lparr>buf_data = [], buf_cap = 0\<rparr>"

text \<open>The buffer has room for its contents and the terminating NUL, or nothing is allocated.\<close>

definition buf_wf :: "snobol_buf \<Rightarrow> bool" where
  "buf_wf b \<longleftrightarrow> length (buf_data b) < buf_cap b \<or> (buf_data b = [] \<and> buf_cap b = 0)"

section \<open>Lemmas\<close>

lemma grow_cap_gt: "0 < newcap \<Longrightarrow> need < grow_cap need newcap"
proof (induction need newcap rule: grow_cap.induct)
  case (1 need newcap)
  then show ?case by (subst grow_cap.simps) auto
qed

lemma grow_cap_le: "grow_cap need newcap \<le> max newcap (2 * need)"
proof (induction need newcap rule: grow_cap.induct)
  case (1 need newcap)
  then show ?case by (subst grow_cap.simps) auto
qed

lemma grow_cap_multiple: "\<exists>k. grow_cap need newcap = newcap * 2 ^ k"
proof (induction need newcap rule: grow_cap.induct)
  case (1 need newcap)
  show ?case
  proof (cases "newcap \<le> need \<and> 0 < newcap")
    case True
    with 1 obtain k where "grow_cap need (newcap * 2) = newcap * 2 * 2 ^ k" by blast
    then have "grow_cap need (newcap * 2) = newcap * 2 ^ Suc k" by simp
    with True show ?thesis by (subst grow_cap.simps) metis
  next
    case False
    then have "grow_cap need newcap = newcap * 2 ^ 0" by (subst grow_cap.simps) auto
    then show ?thesis by blast
  qed
qed

lemma buf_data_append [simp]: "buf_data (snobol_buf_append b d) = buf_data b @ d"
  by (simp add: snobol_buf_append_def Let_def)

lemma buf_data_clear [simp]: "buf_data (snobol_buf_clear b) = []"
  by (simp add: snobol_buf_clear_def)

lemma buf_data_init [simp]: "buf_data snobol_buf_init = []"
  by (simp add: snobol_buf_init_def)

lemma buf_append_Nil [simp]: "snobol_buf_append b [] = b"
  by (simp add: snobol_buf_append_def)

lemma buf_wf_init [inv_intros]: "buf_wf snobol_buf_init"
  by (simp add: buf_wf_def snobol_buf_init_def)

lemma buf_wf_free [inv_intros]: "buf_wf (snobol_buf_free b)"
  by (simp add: buf_wf_def snobol_buf_free_def)

lemma buf_wf_clear [inv_intros]: "buf_wf b \<Longrightarrow> buf_wf (snobol_buf_clear b)"
  by (auto simp: buf_wf_def snobol_buf_clear_def)

lemma buf_wf_append [inv_intros]: "buf_wf b \<Longrightarrow> buf_wf (snobol_buf_append b d)"
  by (auto simp: buf_wf_def snobol_buf_append_def Let_def intro: grow_cap_gt)

lemma buf_cap_append_mono: "buf_cap b \<le> buf_cap (snobol_buf_append b d)"
proof -
  have "\<And>n. buf_cap b * 2 \<le> buf_cap b * 2 * 2 ^ n" by simp
  then show ?thesis
    using grow_cap_multiple [of "length (buf_data b) + length d" "buf_cap b * 2"]
    by (auto simp: snobol_buf_append_def Let_def)
qed

lemma buf_cap_append_le:
  "buf_cap (snobol_buf_append b d)
     \<le> max (max (buf_cap b) 1024) (2 * (length (buf_data b) + length d))"
  using grow_cap_le [of "length (buf_data b) + length d" "buf_cap b * 2"]
    grow_cap_le [of "length (buf_data b) + length d" 1024]
  by (auto simp: snobol_buf_append_def Let_def)

text \<open>
  C37: Appending keeps what the buffer held, adds exactly the given bytes, leaves room for the
  terminating NUL, never shrinks the allocation, and keeps it within twice the contents
  (or the 1024 bytes of a fresh buffer, or the capacity it already had).
\<close>

theorem snobol_buf_append_spec:
  assumes "buf_wf b" and "d \<noteq> []"
  shows "let b' = snobol_buf_append b d in
     buf_data b' = buf_data b @ d \<and> length (buf_data b') < buf_cap b' \<and> buf_cap b \<le> buf_cap b' \<and>
     buf_cap b' \<le> max (max (buf_cap b) 1024) (2 * length (buf_data b'))"
  using buf_wf_append [OF assms(1), of d] assms(2) buf_cap_append_mono [of b d]
    buf_cap_append_le [of b d]
  by (auto simp: Let_def buf_wf_def)

theorem snobol_buf_append_spec_witness:
  "let b' = snobol_buf_append snobol_buf_init (replicate 1500 0x61) in
     buf_data b' = buf_data snobol_buf_init @ replicate 1500 0x61 \<and>
     length (buf_data b') < buf_cap b' \<and> buf_cap snobol_buf_init \<le> buf_cap b' \<and>
     buf_cap b' \<le> max (max (buf_cap snobol_buf_init) 1024) (2 * length (buf_data b'))"
  by (rule snobol_buf_append_spec) (simp_all add: buf_wf_init)

end
