(* ===== verification/Vm_State.thy ===== *)
theory Vm_State
  imports Choice_Arena Dynamic_Pattern Snobol_Array Buffer
begin

text \<open>
  The state of the matching virtual machine, \<^verbatim>\<open>core/include/snobol/vm.h\<close>: its registers, its choice
  stack and undo trail, its output, and the registries it shares with the host. Positions and byte
  counts are natural numbers, loop counters are 32 bit words, bytecode and subject are byte lists.
  A pointer into bytecode is the rest of the bytecode from there. Tables and arrays are shared by
  pointer with the host, so the machine holds addresses into stores of them.
\<close>

section \<open>Reading operands\<close>

definition read_u32 :: "bytes \<Rightarrow> nat \<Rightarrow> u32 \<times> nat" where
  "read_u32 bc ip =
     (if length bc < ip + 4 then (0, length bc)
      else (push_bit 24 (ucast (bc ! ip)) OR push_bit 16 (ucast (bc ! (ip + 1))) OR
            push_bit 8 (ucast (bc ! (ip + 2))) OR ucast (bc ! (ip + 3)), ip + 4))"

definition read_u16 :: "bytes \<Rightarrow> nat \<Rightarrow> u16 \<times> nat" where
  "read_u16 bc ip =
     (if length bc < ip + 2 then (0, length bc)
      else (push_bit 8 (ucast (bc ! ip)) OR ucast (bc ! (ip + 1)), ip + 2))"

definition read_u8 :: "bytes \<Rightarrow> nat \<Rightarrow> u8 \<times> nat" where
  "read_u8 bc ip = (if length bc < ip + 1 then (0, length bc) else (bc ! ip, ip + 1))"

section \<open>Components of the state\<close>

definition MAX_CAPS :: nat where "MAX_CAPS = 64"

definition MAX_VARS :: nat where "MAX_VARS = 64"

definition MAX_LOOPS :: nat where "MAX_LOOPS = 16"

lemmas register_limits = MAX_CAPS_def MAX_VARS_def MAX_LOOPS_def

record range_meta =
  rm_ranges :: "bytes option"
  rm_count :: u16
  rm_case_insensitive :: u16
  rm_ascii_map :: "u64 \<times> u64"
  rm_has_ascii_map :: bool

record write_log_entry =
  wl_cap_index :: nat
  wl_old_start :: nat
  wl_old_end :: nat

record write_log =
  wl_entries :: "write_log_entry list option"
  wl_next :: nat
  wl_bitmap :: u64
  wl_compressed_count :: nat
  wl_dirty :: bool

datatype undo_kind = UNDO_COUNTER_DEC | UNDO_CAP_WRITE | UNDO_WL_POP | UNDO_VAR_WRITE

record undo_record =
  un_kind :: undo_kind
  un_index :: nat
  un_sub :: nat
  un_prior_u :: u32
  un_prior_a :: nat
  un_prior_b :: nat
  un_prior_lp :: nat

record compact_choice_header =
  ch_total_size :: nat
  ch_ip :: nat
  ch_pos :: nat
  ch_var_count :: nat
  ch_max_cap_used :: nat
  ch_max_counter_used :: nat
  ch_trail_base :: nat

record choice_snapshot =
  cs_ip :: nat
  cs_pos :: nat
  cs_cap_start :: "nat list"
  cs_cap_end :: "nat list"
  cs_var_count :: nat
  cs_counters :: "u32 list"
  cs_loop_last_pos :: "nat list"
  cs_max_cap_used :: nat
  cs_max_counter_used :: nat

datatype choice_rec = Compact compact_choice_header | Snapshot choice_snapshot

text \<open>
  The machine. The trail lists its records latest first. The callback for emitted text is the list
  of the pieces it was called with; the host function for evaluation is a function of its
  arguments.
\<close>

record vm =
  vm_bc :: bytes
  vm_range_meta :: "range_meta list option"
  vm_s :: bytes
  vm_ip :: nat
  vm_pos :: nat
  cap_start :: "nat list"
  cap_end :: "nat list"
  var_start :: "nat list"
  var_end :: "nat list"
  var_count :: nat
  counters :: "u32 list"
  loop_min :: "u32 list"
  loop_max :: "u32 list"
  loop_last_pos :: "nat list"
  loop_span_greedy :: "bool list"
  max_cap_used :: nat
  max_counter_used :: nat
  vm_out :: "snobol_buf option"
  vm_emitted :: "bytes list option"
  choices_arena :: "choice_rec choice_arena option"
  choices_top :: nat
  use_compact_choice :: bool
  choice_allocated :: nat
  choice_push_count :: nat
  choice_peak_depth :: nat
  choice_peak_memory :: nat
  choice_live_depth :: nat
  vm_trail :: "undo_record list"
  vm_write_log :: write_log
  vm_eval_fn :: "(nat \<Rightarrow> bytes \<Rightarrow> nat \<Rightarrow> nat \<Rightarrow> bool) option"
  label_offsets :: "u16 option list option"
  label_count :: nat
  current_label :: nat
  in_goto_fail :: bool
  abort_flag :: bool
  keep_choices :: bool
  vm_tables :: "nat list"
  vm_table_store :: "nat \<Rightarrow> snobol_table option"
  vm_arrays :: "nat list"
  vm_array_store :: "nat \<Rightarrow> snobol_array option"
  dyn_cache :: "dynamic_pattern_cache option"
  dyn_store :: dp_store
  dyn_pending_source :: "bytes option"
  dyn_pending_bc :: "bytes option"

text \<open>A machine that a host has zeroed and given bytecode and a subject.\<close>

definition empty_write_log :: write_log where
  "empty_write_log =
     \<lparr>wl_entries = None, wl_next = 0, wl_bitmap = 0, wl_compressed_count = 0, wl_dirty = False\<rparr>"

definition vm_zero :: "bytes \<Rightarrow> bytes \<Rightarrow> vm" where
  "vm_zero bc s =
     \<lparr>vm_bc = bc, vm_range_meta = None, vm_s = s, vm_ip = 0, vm_pos = 0,
      cap_start = replicate MAX_CAPS 0, cap_end = replicate MAX_CAPS 0,
      var_start = replicate MAX_VARS 0, var_end = replicate MAX_VARS 0, var_count = 0,
      counters = replicate MAX_LOOPS 0, loop_min = replicate MAX_LOOPS 0,
      loop_max = replicate MAX_LOOPS 0, loop_last_pos = replicate MAX_LOOPS 0,
      loop_span_greedy = replicate MAX_LOOPS False, max_cap_used = 0, max_counter_used = 0,
      vm_out = None, vm_emitted = None, choices_arena = None, choices_top = 0,
      use_compact_choice = False, choice_allocated = 0, choice_push_count = 0,
      choice_peak_depth = 0, choice_peak_memory = 0, choice_live_depth = 0, vm_trail = [],
      vm_write_log = empty_write_log, vm_eval_fn = None, label_offsets = None, label_count = 0,
      current_label = 0, in_goto_fail = False, abort_flag = False, keep_choices = False,
      vm_tables = [], vm_table_store = (\<lambda>_. None), vm_arrays = [],
      vm_array_store = (\<lambda>_. None), dyn_cache = None,
      dyn_store = \<lparr>st_objs = \<lambda>_. None, st_next = 0\<rparr>, dyn_pending_source = None,
      dyn_pending_bc = None\<rparr>"

text \<open>
  The outcome of one instruction or of a run: the loop goes on, the run returns, the code reads or
  writes outside its arrays, frees memory twice or probes a full table for ever, or a run needs
  more steps than it was given.
\<close>

datatype outcome = Go vm | Done bool vm | Fault | Unfinished

section \<open>Operand lemmas\<close>

lemma read_u32_next: "ip \<le> length bc \<Longrightarrow> ip \<le> snd (read_u32 bc ip) \<and> snd (read_u32 bc ip) \<le> length bc"
  by (auto simp: read_u32_def)

lemma read_u16_next: "ip \<le> length bc \<Longrightarrow> ip \<le> snd (read_u16 bc ip) \<and> snd (read_u16 bc ip) \<le> length bc"
  by (auto simp: read_u16_def)

lemma read_u8_next: "ip \<le> length bc \<Longrightarrow> ip \<le> snd (read_u8 bc ip) \<and> snd (read_u8 bc ip) \<le> length bc"
  by (auto simp: read_u8_def)

end
