(* ===== verification/Vm_Capture.thy ===== *)
theory Vm_Capture
  imports Vm_State
begin

text \<open>
  The capture write log and the undo trail, \<^verbatim>\<open>core/src/vm_capture.c\<close>. The trail records each change
  a thread makes to counters, captures and variables, and replaying it from the latest record
  undoes them. The write log remembers, per capture, the values before its last change.
\<close>

section \<open>The write log\<close>

definition SIZE_MAX :: nat where "SIZE_MAX = 2 ^ 64 - 1"

definition vm_write_log_init :: "write_log \<Rightarrow> write_log" where
  "vm_write_log_init wl = empty_write_log"

definition vm_write_log_free :: "write_log \<Rightarrow> write_log" where
  "vm_write_log_free wl = empty_write_log"

definition vm_write_log_clear :: "write_log \<Rightarrow> write_log" where
  "vm_write_log_clear wl = wl\<lparr>wl_next := 0, wl_bitmap := 0, wl_dirty := False\<rparr>"

text \<open>The search for an entry of a capture, from the latest slot backwards around the log.\<close>

fun wl_search :: "write_log_entry list \<Rightarrow> u64 \<Rightarrow> nat \<Rightarrow> nat \<Rightarrow> nat \<Rightarrow> nat option" where
  "wl_search es bitmap cap sl 0 = None"
| "wl_search es bitmap cap sl (Suc n) =
     (if bit bitmap sl \<and> wl_cap_index (es ! sl) = cap then Some sl
      else wl_search es bitmap cap (if sl = 0 then length es - 1 else sl - 1) n)"

definition wl_find :: "write_log \<Rightarrow> write_log_entry list \<Rightarrow> nat \<Rightarrow> nat option" where
  "wl_find wl es cap =
     wl_search es (wl_bitmap wl) cap (if 0 < wl_next wl then wl_next wl - 1 else length es - 1)
       (length es)"

text \<open>A new entry goes to the next slot; past the end it goes to slot 0, and the next slot is 0.\<close>

definition wl_add :: "write_log \<Rightarrow> write_log_entry list \<Rightarrow> write_log_entry \<Rightarrow> write_log" where
  "wl_add wl es e =
     (let wraps = (length es \<le> wl_next wl); sl = (if wraps then 0 else wl_next wl)
      in wl\<lparr>wl_entries := Some (es[sl := e]), wl_next := (if wraps then 0 else wl_next wl + 1),
            wl_bitmap := wl_bitmap wl OR push_bit sl 1, wl_dirty := True\<rparr>)"

definition vm_write_log_track_cap_start :: "bool \<Rightarrow> write_log \<Rightarrow> nat \<Rightarrow> nat \<Rightarrow> write_log" where
  "vm_write_log_track_cap_start compact wl cap old_start =
     (case wl_entries wl of
        None \<Rightarrow> wl
      | Some es \<Rightarrow>
          (if \<not> compact then wl
           else case wl_find wl es cap of
                  Some sl \<Rightarrow> wl\<lparr>wl_entries := Some (es[sl := (es ! sl)\<lparr>wl_old_start := old_start\<rparr>])\<rparr>
                | None \<Rightarrow> wl_add wl es \<lparr>wl_cap_index = cap, wl_old_start = old_start, wl_old_end = SIZE_MAX\<rparr>))"

definition vm_write_log_track_cap_end :: "bool \<Rightarrow> write_log \<Rightarrow> nat \<Rightarrow> nat \<Rightarrow> write_log" where
  "vm_write_log_track_cap_end compact wl cap old_end =
     (case wl_entries wl of
        None \<Rightarrow> wl
      | Some es \<Rightarrow>
          (if \<not> compact then wl
           else case wl_find wl es cap of
                  Some sl \<Rightarrow> wl\<lparr>wl_entries := Some (es[sl := (es ! sl)\<lparr>wl_old_end := old_end\<rparr>])\<rparr>
                | None \<Rightarrow> wl_add wl es \<lparr>wl_cap_index = cap, wl_old_start = SIZE_MAX, wl_old_end = old_end\<rparr>))"

definition wl_used_slots :: "write_log \<Rightarrow> write_log_entry list \<Rightarrow> nat list" where
  "wl_used_slots wl es =
     filter (\<lambda>i. bit (wl_bitmap wl) i \<and>
        (wl_old_start (es ! i) \<noteq> SIZE_MAX \<or> wl_old_end (es ! i) \<noteq> SIZE_MAX)) [0..<length es]"

definition vm_write_log_count_entries :: "write_log \<Rightarrow> nat" where
  "vm_write_log_count_entries wl =
     (case wl_entries wl of None \<Rightarrow> 0 | Some es \<Rightarrow> length (wl_used_slots wl es))"

definition vm_write_log_copy_entries :: "write_log \<Rightarrow> nat \<Rightarrow> write_log_entry list" where
  "vm_write_log_copy_entries wl dst_cap =
     (case wl_entries wl of
        None \<Rightarrow> []
      | Some es \<Rightarrow> take dst_cap (map (\<lambda>i. es ! i) (wl_used_slots wl es)))"

section \<open>The trail\<close>

definition vm_trail_clear :: "vm \<Rightarrow> vm" where
  "vm_trail_clear v = v\<lparr>vm_trail := []\<rparr>"

definition vm_trail_free :: "vm \<Rightarrow> vm" where
  "vm_trail_free v = v\<lparr>vm_trail := []\<rparr>"

definition vm_trail_push :: "vm \<Rightarrow> undo_record \<Rightarrow> vm" where
  "vm_trail_push v r = v\<lparr>vm_trail := r # vm_trail v\<rparr>"

definition blank_undo :: undo_record where
  "blank_undo =
     \<lparr>un_kind = UNDO_COUNTER_DEC, un_index = 0, un_sub = 0, un_prior_u = 0, un_prior_a = 0,
      un_prior_b = 0, un_prior_lp = 0\<rparr>"

definition vm_trail_counter_inc :: "vm \<Rightarrow> nat \<Rightarrow> u32 \<Rightarrow> nat \<Rightarrow> vm" where
  "vm_trail_counter_inc v loop_id prior_count prior_last_pos =
     (if \<not> use_compact_choice v then v
      else vm_trail_push v (blank_undo\<lparr>un_kind := UNDO_COUNTER_DEC, un_index := loop_id,
             un_prior_u := prior_count, un_prior_lp := prior_last_pos\<rparr>))"

definition vm_trail_cap_write :: "vm \<Rightarrow> nat \<Rightarrow> nat \<Rightarrow> nat \<Rightarrow> nat \<Rightarrow> vm" where
  "vm_trail_cap_write v cap sub prior_start prior_end =
     (if \<not> use_compact_choice v then v
      else vm_trail_push v (blank_undo\<lparr>un_kind := UNDO_CAP_WRITE, un_index := cap, un_sub := sub,
             un_prior_a := prior_start, un_prior_b := prior_end\<rparr>))"

definition vm_trail_var_write :: "vm \<Rightarrow> nat \<Rightarrow> nat \<Rightarrow> nat \<Rightarrow> vm" where
  "vm_trail_var_write v var prior_start prior_end =
     (if \<not> use_compact_choice v then v
      else vm_trail_push v (blank_undo\<lparr>un_kind := UNDO_VAR_WRITE, un_index := var,
             un_prior_a := prior_start, un_prior_b := prior_end\<rparr>))"

definition undo_one :: "undo_record \<Rightarrow> vm \<Rightarrow> vm" where
  "undo_one r v =
     (case un_kind r of
        UNDO_COUNTER_DEC \<Rightarrow>
          (if un_index r < MAX_LOOPS
           then v\<lparr>counters := (counters v)[un_index r := un_prior_u r],
                  loop_last_pos := (loop_last_pos v)[un_index r := un_prior_lp r]\<rparr>
           else v)
      | UNDO_CAP_WRITE \<Rightarrow>
          (if un_index r < MAX_CAPS
           then if un_sub r = 0 then v\<lparr>cap_start := (cap_start v)[un_index r := un_prior_a r]\<rparr>
                else if un_sub r = 1 then v\<lparr>cap_end := (cap_end v)[un_index r := un_prior_b r]\<rparr>
                else v\<lparr>cap_start := (cap_start v)[un_index r := un_prior_a r],
                       cap_end := (cap_end v)[un_index r := un_prior_b r]\<rparr>
           else v)
      | UNDO_WL_POP \<Rightarrow> v
      | UNDO_VAR_WRITE \<Rightarrow>
          (if un_index r < MAX_VARS
           then v\<lparr>var_start := (var_start v)[un_index r := un_prior_a r],
                  var_end := (var_end v)[un_index r := un_prior_b r]\<rparr>
           else v))"

fun undo_all :: "undo_record list \<Rightarrow> vm \<Rightarrow> vm" where
  "undo_all [] v = v"
| "undo_all (r # rs) v = undo_all rs (undo_one r v)"

definition vm_trail_replay :: "vm \<Rightarrow> nat \<Rightarrow> vm" where
  "vm_trail_replay v base =
     (let n = length (vm_trail v) - base
      in (undo_all (take n (vm_trail v)) v)\<lparr>vm_trail := drop n (vm_trail v)\<rparr>)"

definition vm_trail_depth :: "vm \<Rightarrow> nat" where
  "vm_trail_depth v = length (vm_trail v)"

section \<open>Undoing\<close>

text \<open>The registers that the trail can restore.\<close>

definition same_regs :: "vm \<Rightarrow> vm \<Rightarrow> bool" where
  "same_regs v w \<longleftrightarrow> cap_start v = cap_start w \<and> cap_end v = cap_end w \<and>
     var_start v = var_start w \<and> var_end v = var_end w"

lemma same_regs_refl [simp]: "same_regs v v"
  by (simp add: same_regs_def)

lemma same_regs_sym: "same_regs v w \<Longrightarrow> same_regs w v"
  by (simp add: same_regs_def)

lemma same_regs_trans: "same_regs u v \<Longrightarrow> same_regs v w \<Longrightarrow> same_regs u w"
  by (simp add: same_regs_def)

lemma undo_one_regs: "same_regs v w \<Longrightarrow> same_regs (undo_one r v) (undo_one r w)"
  by (cases "un_kind r") (auto simp: undo_one_def same_regs_def)

lemma undo_all_regs: "same_regs v w \<Longrightarrow> same_regs (undo_all rs v) (undo_all rs w)"
  by (induction rs arbitrary: v w) (auto intro: undo_one_regs)

lemma undo_all_append: "undo_all (rs @ qs) v = undo_all qs (undo_all rs v)"
  by (induction rs arbitrary: v) simp_all

text \<open>The fields the trail never touches.\<close>

lemma undo_one_other [simp]:
  "vm_bc (undo_one r v) = vm_bc v" "vm_s (undo_one r v) = vm_s v" "vm_ip (undo_one r v) = vm_ip v"
  "vm_pos (undo_one r v) = vm_pos v" "var_count (undo_one r v) = var_count v"
  "max_cap_used (undo_one r v) = max_cap_used v" "max_counter_used (undo_one r v) = max_counter_used v"
  "choices_arena (undo_one r v) = choices_arena v" "vm_trail (undo_one r v) = vm_trail v"
  "use_compact_choice (undo_one r v) = use_compact_choice v"
  "length (cap_start (undo_one r v)) = length (cap_start v)"
  "length (cap_end (undo_one r v)) = length (cap_end v)"
  "length (var_start (undo_one r v)) = length (var_start v)"
  "length (var_end (undo_one r v)) = length (var_end v)"
  "length (counters (undo_one r v)) = length (counters v)"
  "length (loop_last_pos (undo_one r v)) = length (loop_last_pos v)"
  by (cases "un_kind r"; simp add: undo_one_def)+

lemma undo_all_other [simp]:
  "vm_bc (undo_all rs v) = vm_bc v" "vm_s (undo_all rs v) = vm_s v" "vm_ip (undo_all rs v) = vm_ip v"
  "vm_pos (undo_all rs v) = vm_pos v" "var_count (undo_all rs v) = var_count v"
  "max_cap_used (undo_all rs v) = max_cap_used v" "max_counter_used (undo_all rs v) = max_counter_used v"
  "choices_arena (undo_all rs v) = choices_arena v" "vm_trail (undo_all rs v) = vm_trail v"
  "use_compact_choice (undo_all rs v) = use_compact_choice v"
  "length (cap_start (undo_all rs v)) = length (cap_start v)"
  "length (cap_end (undo_all rs v)) = length (cap_end v)"
  "length (var_start (undo_all rs v)) = length (var_start v)"
  "length (var_end (undo_all rs v)) = length (var_end v)"
  "length (counters (undo_all rs v)) = length (counters v)"
  "length (loop_last_pos (undo_all rs v)) = length (loop_last_pos v)"
  by (induction rs arbitrary: v) simp_all

end
