(* ===== verification/Vm_Choice.thy ===== *)
theory Vm_Choice
  imports Vm_Capture
begin

text \<open>
  The choice stack of the machine, \<^verbatim>\<open>core/src/vm_choice.c\<close>: pushing a choice point, popping one,
  the reset between attempts and the statistics. In the compact mode a record holds the scalar
  registers and how long the trail was, and a pop replays the trail down to there; in the older
  mode it holds copies of the registers in use.
\<close>

section \<open>The operations\<close>

text \<open>The sizes of the two records on a 64 bit target.\<close>

definition SIZEOF_COMPACT_CHOICE_HEADER :: nat where
  "SIZEOF_COMPACT_CHOICE_HEADER = 48"

definition SIZEOF_CHOICE :: nat where
  "SIZEOF_CHOICE = 1248"

definition compact_payload :: nat where
  "compact_payload = SIZEOF_COMPACT_CHOICE_HEADER + 4"

definition vm_compact_choice_record_size :: nat where
  "vm_compact_choice_record_size = (SIZEOF_COMPACT_CHOICE_HEADER + 4 + 7) div 8 * 8"

definition snobol_vm_reset :: "vm \<Rightarrow> vm" where
  "snobol_vm_reset v =
     v\<lparr>cap_start := replicate MAX_CAPS 0, cap_end := replicate MAX_CAPS 0, var_count := 0,
       var_start := replicate MAX_VARS 0, var_end := replicate MAX_VARS 0,
       counters := replicate MAX_LOOPS 0, loop_min := replicate MAX_LOOPS 0,
       loop_max := replicate MAX_LOOPS 0, loop_last_pos := replicate MAX_LOOPS 0,
       loop_span_greedy := replicate MAX_LOOPS False, max_cap_used := 0, max_counter_used := 0,
       vm_ip := 0, vm_pos := 0, abort_flag := False, in_goto_fail := False, current_label := 0,
       choices_top := 0, choices_arena := map_option vm_arena_reset (choices_arena v),
       choice_allocated := 0, choice_push_count := 0, choice_peak_depth := 0,
       choice_peak_memory := 0,
       vm_write_log := (if wl_entries (vm_write_log v) \<noteq> None then vm_write_log_clear (vm_write_log v)
                        else vm_write_log v)\<rparr>"

definition vm_choice_stack_memory_usage :: "vm \<Rightarrow> nat" where
  "vm_choice_stack_memory_usage v = choices_top v"

definition vm_choice_stack_depth :: "vm \<Rightarrow> nat" where
  "vm_choice_stack_depth v = (case choices_arena v of None \<Rightarrow> 0 | Some a \<Rightarrow> arena_depth a)"

definition vm_choice_record_average_size :: "vm \<Rightarrow> nat" where
  "vm_choice_record_average_size v =
     (if 0 < choice_push_count v then choice_allocated v div choice_push_count v else 0)"

definition compact_header :: "vm \<Rightarrow> nat \<Rightarrow> nat \<Rightarrow> compact_choice_header" where
  "compact_header v ip pos =
     \<lparr>ch_total_size = compact_payload, ch_ip = ip, ch_pos = pos, ch_var_count = var_count v,
      ch_max_cap_used = max_cap_used v, ch_max_counter_used = max_counter_used v,
      ch_trail_base = unat (of_nat (length (vm_trail v)) :: u32)\<rparr>"

definition full_snapshot :: "vm \<Rightarrow> nat \<Rightarrow> nat \<Rightarrow> choice_snapshot" where
  "full_snapshot v ip pos =
     \<lparr>cs_ip = ip, cs_pos = pos,
      cs_cap_start = take (max_cap_used v) (cap_start v),
      cs_cap_end = take (max_cap_used v) (cap_end v),
      cs_var_count = var_count v,
      cs_counters = take (max_counter_used v) (counters v),
      cs_loop_last_pos = take (max_counter_used v) (loop_last_pos v),
      cs_max_cap_used = max_cap_used v, cs_max_counter_used = max_counter_used v\<rparr>"

definition count_push :: "vm \<Rightarrow> choice_rec choice_arena \<Rightarrow> nat \<Rightarrow> vm" where
  "count_push v a bytes_allocated =
     (let top = ar_total_used a; depth = choice_live_depth v + 1
      in v\<lparr>choices_arena := Some a, choices_top := top,
           choice_allocated := choice_allocated v + bytes_allocated,
           choice_push_count := choice_push_count v + 1, choice_live_depth := depth,
           choice_peak_memory := (if choice_peak_memory v < top then top else choice_peak_memory v),
           choice_peak_depth := (if choice_peak_depth v < depth then depth else choice_peak_depth v)\<rparr>)"

definition vm_push_choice :: "vm \<Rightarrow> nat \<Rightarrow> nat \<Rightarrow> vm" where
  "vm_push_choice v ip pos =
     (case choices_arena v of
        None \<Rightarrow> v
      | Some a \<Rightarrow>
          (if use_compact_choice v
           then count_push v (vm_arena_alloc a compact_payload (Compact (compact_header v ip pos)))
                  (compact_payload + 2 * 4)
           else count_push v (vm_arena_alloc a SIZEOF_CHOICE (Snapshot (full_snapshot v ip pos)))
                  (SIZEOF_CHOICE + 2 * 4)))"

text \<open>Copying a prefix back over a register file.\<close>

definition overwrite :: "'a list \<Rightarrow> 'a list \<Rightarrow> 'a list" where
  "overwrite xs prefix = prefix @ drop (length prefix) xs"

definition restore_compact :: "vm \<Rightarrow> compact_choice_header \<Rightarrow> vm" where
  "restore_compact v h =
     vm_trail_replay
       (v\<lparr>vm_ip := ch_ip h, vm_pos := ch_pos h, var_count := ch_var_count h,
          max_cap_used := ch_max_cap_used h, max_counter_used := ch_max_counter_used h\<rparr>)
       (ch_trail_base h)"

definition restore_snapshot :: "vm \<Rightarrow> choice_snapshot \<Rightarrow> vm" where
  "restore_snapshot v c =
     v\<lparr>vm_ip := cs_ip c, vm_pos := cs_pos c, var_count := cs_var_count c,
       max_cap_used := cs_max_cap_used c, max_counter_used := cs_max_counter_used c,
       cap_start := overwrite (cap_start v) (cs_cap_start c),
       cap_end := overwrite (cap_end v) (cs_cap_end c),
       counters := overwrite (counters v) (cs_counters c),
       loop_last_pos := overwrite (loop_last_pos v) (cs_loop_last_pos c)\<rparr>"

text \<open>
  A pop reads the record at the tail of the current page as the mode says; the mode does not change
  while records are on the stack, so that the record is of that kind. \<open>None\<close> is a pop that found
  the stack empty.
\<close>

definition vm_pop_choice :: "vm \<Rightarrow> vm option" where
  "vm_pop_choice v =
     (case choices_arena v of
        None \<Rightarrow> None
      | Some a \<Rightarrow>
          (if ar_total_used a = 0 then None
           else case arena_tail (ar_cur a) of
                  None \<Rightarrow> None
                | Some (fp, r) \<Rightarrow>
                    (let w = (case r of
                                Compact h \<Rightarrow> restore_compact v h
                              | Snapshot c \<Rightarrow> restore_snapshot v c);
                         a' = vm_arena_pop_last a
                     in Some (w\<lparr>choices_arena := Some a', choices_top := ar_total_used a',
                                choice_live_depth := choice_live_depth v - 1\<rparr>))))"

section \<open>What a pop brings back\<close>

text \<open>The state a choice point stands for: the scalar registers, the captures and the variables.\<close>

record resume =
  rs_ip :: nat
  rs_pos :: nat
  rs_var_count :: nat
  rs_max_cap_used :: nat
  rs_max_counter_used :: nat
  rs_cap_start :: "nat list"
  rs_cap_end :: "nat list"
  rs_var_start :: "nat list"
  rs_var_end :: "nat list"

definition resume_at :: "vm \<Rightarrow> nat \<Rightarrow> nat \<Rightarrow> resume" where
  "resume_at v ip pos =
     \<lparr>rs_ip = ip, rs_pos = pos, rs_var_count = var_count v, rs_max_cap_used = max_cap_used v,
      rs_max_counter_used = max_counter_used v, rs_cap_start = cap_start v, rs_cap_end = cap_end v,
      rs_var_start = var_start v, rs_var_end = var_end v\<rparr>"

abbreviation resume_now :: "vm \<Rightarrow> resume" where
  "resume_now v \<equiv> resume_at v (vm_ip v) (vm_pos v)"

text \<open>The states that the records of a stack stand for, given the registers and the trail.\<close>

fun resumes :: "choice_rec list \<Rightarrow> vm \<Rightarrow> resume list" where
  "resumes [] v = []"
| "resumes (Compact h # rs) v =
     (let w = restore_compact v h in resume_now w # resumes rs w)"
| "resumes (Snapshot c # rs) v =
     (let w = restore_snapshot v c in resume_now w # resumes rs w)"

definition stack_of :: "vm \<Rightarrow> choice_rec list" where
  "stack_of v = (case choices_arena v of None \<Rightarrow> [] | Some a \<Rightarrow> arena_stack a)"

definition resume_list :: "vm \<Rightarrow> resume list" where
  "resume_list v = resumes (stack_of v) v"

text \<open>
  The compact mode's invariant: a well-formed arena of compact records whose trail marks go down
  the stack and stay within the trail.
\<close>

fun marks_ok :: "choice_rec list \<Rightarrow> nat \<Rightarrow> bool" where
  "marks_ok [] n = True"
| "marks_ok (Compact h # rs) n = (ch_trail_base h \<le> n \<and> marks_ok rs (ch_trail_base h))"
| "marks_ok (Snapshot c # rs) n = False"

definition compact_inv :: "vm \<Rightarrow> bool" where
  "compact_inv v \<longleftrightarrow> use_compact_choice v \<and> (\<exists>a. choices_arena v = Some a \<and> arena_wf a) \<and>
     marks_ok (stack_of v) (length (vm_trail v)) \<and>
     length (cap_start v) = MAX_CAPS \<and> length (cap_end v) = MAX_CAPS \<and>
     length (var_start v) = MAX_VARS \<and> length (var_end v) = MAX_VARS"

lemma marks_ok_mono: "marks_ok rs n \<Longrightarrow> n \<le> m \<Longrightarrow> marks_ok rs m"
  by (cases "(rs, n)" rule: marks_ok.cases) auto

lemma restore_compact_regs:
  "vm_ip (restore_compact v h) = ch_ip h" "vm_pos (restore_compact v h) = ch_pos h"
  "var_count (restore_compact v h) = ch_var_count h"
  "max_cap_used (restore_compact v h) = ch_max_cap_used h"
  "max_counter_used (restore_compact v h) = ch_max_counter_used h"
  "vm_trail (restore_compact v h) = drop (length (vm_trail v) - ch_trail_base h) (vm_trail v)"
  by (simp_all add: restore_compact_def vm_trail_replay_def Let_def)

lemma undo_all_scalars:
  "same_regs (undo_all rs (v\<lparr>vm_ip := ip, vm_pos := p, var_count := n, max_cap_used := c, max_counter_used := k\<rparr>))
     (undo_all rs v)"
  by (rule undo_all_regs) (simp add: same_regs_def)

text \<open>What the records stand for depends on the registers and the trail only.\<close>

lemma restore_compact_tracked:
  assumes "vm_trail w = rs @ vm_trail v" "same_regs (undo_all rs w) v" "ch_trail_base h \<le> length (vm_trail v)"
  shows "same_regs (restore_compact w h) (restore_compact v h)"
    and "vm_trail (restore_compact w h) = vm_trail (restore_compact v h)"
proof -
  let ?b = "ch_trail_base h"
  define k where "k = length (vm_trail v) - ?b"
  have len: "length (vm_trail w) - ?b = length rs + k"
    using assms(1,3) by (simp add: k_def)
  show "vm_trail (restore_compact w h) = vm_trail (restore_compact v h)"
    unfolding restore_compact_regs len k_def [symmetric] using assms(1) by simp
  let ?t = "take k (vm_trail v)"
  have "take (length (vm_trail w) - ?b) (vm_trail w) = rs @ ?t" unfolding len unfolding assms(1) by simp
  then have "same_regs (restore_compact w h) (undo_all ?t (undo_all rs w))"
    using undo_all_scalars [where rs = "rs @ ?t" and v = w]
    by (simp add: restore_compact_def vm_trail_replay_def Let_def undo_all_append same_regs_def)
  moreover have "same_regs (undo_all ?t (undo_all rs w)) (undo_all ?t v)"
    using undo_all_regs [OF assms(2)] .
  moreover have "same_regs (undo_all ?t v) (restore_compact v h)"
    using undo_all_scalars [where rs = ?t and v = v]
    by (simp add: k_def restore_compact_def vm_trail_replay_def Let_def same_regs_def)
  ultimately show "same_regs (restore_compact w h) (restore_compact v h)"
    using same_regs_trans by blast
qed

lemma resumes_tracked:
  "marks_ok cs (length (vm_trail v)) \<Longrightarrow> vm_trail w = rs @ vm_trail v \<Longrightarrow>
     same_regs (undo_all rs w) v \<Longrightarrow> resumes cs w = resumes cs v"
proof (induction cs arbitrary: v w rs)
  case Nil
  then show ?case by simp
next
  case (Cons r cs)
  then obtain h where h: "r = Compact h" "ch_trail_base h \<le> length (vm_trail v)"
    "marks_ok cs (ch_trail_base h)" by (cases r) auto
  note t = restore_compact_tracked [OF Cons.prems(2,3) h(2)]
  have "length (vm_trail (restore_compact v h)) = ch_trail_base h"
    using h(2) by (simp add: restore_compact_regs)
  then have "resumes cs (restore_compact w h) = resumes cs (restore_compact v h)"
    using Cons.IH [of "restore_compact v h" "restore_compact w h" "[]"] t h(3) by simp
  moreover have "resume_now (restore_compact w h) = resume_now (restore_compact v h)"
    using t(1) by (simp add: resume_at_def same_regs_def restore_compact_regs)
  ultimately show ?case using h(1) by (simp add: Let_def)
qed

text \<open>A change of the registers that the trail can undo.\<close>

definition tracked :: "vm \<Rightarrow> vm \<Rightarrow> bool" where
  "tracked v w \<longleftrightarrow> choices_arena w = choices_arena v \<and> use_compact_choice w = use_compact_choice v \<and>
     length (cap_start w) = length (cap_start v) \<and> length (cap_end w) = length (cap_end v) \<and>
     length (var_start w) = length (var_start v) \<and> length (var_end w) = length (var_end v) \<and>
     (\<exists>rs. vm_trail w = rs @ vm_trail v \<and> same_regs (undo_all rs w) v)"

lemma tracked_resume_list:
  assumes "compact_inv v" "tracked v w"
  shows "resume_list w = resume_list v" "compact_inv w"
proof -
  obtain rs where rs: "vm_trail w = rs @ vm_trail v" "same_regs (undo_all rs w) v"
    using assms(2) by (auto simp: tracked_def)
  have st: "stack_of w = stack_of v" using assms(2) by (simp add: tracked_def stack_of_def)
  have m: "marks_ok (stack_of v) (length (vm_trail v))" using assms(1) by (simp add: compact_inv_def)
  show "resume_list w = resume_list v"
    unfolding resume_list_def st by (rule resumes_tracked [OF m rs])
  have "marks_ok (stack_of v) (length (vm_trail w))" using marks_ok_mono [OF m] rs(1) by simp
  then show "compact_inv w" using assms unfolding compact_inv_def st by (auto simp: tracked_def)
qed

lemma tracked_trans:
  assumes "tracked u v" "tracked v w"
  shows "tracked u w"
proof -
  obtain rs where rs: "vm_trail v = rs @ vm_trail u" "same_regs (undo_all rs v) u"
    using assms(1) by (auto simp: tracked_def)
  obtain qs where qs: "vm_trail w = qs @ vm_trail v" "same_regs (undo_all qs w) v"
    using assms(2) by (auto simp: tracked_def)
  have "same_regs (undo_all (qs @ rs) w) u"
    unfolding undo_all_append using undo_all_regs [OF qs(2), of rs] rs(2) same_regs_trans by blast
  moreover have "vm_trail w = (qs @ rs) @ vm_trail u" using rs qs by simp
  ultimately have "\<exists>rs. vm_trail w = rs @ vm_trail u \<and> same_regs (undo_all rs w) u" by blast
  then show ?thesis using assms by (simp add: tracked_def)
qed

text \<open>Changes outside the captures, the variables and the trail are tracked for free.\<close>

lemma tracked_same:
  "choices_arena w = choices_arena v \<Longrightarrow> use_compact_choice w = use_compact_choice v \<Longrightarrow>
     vm_trail w = vm_trail v \<Longrightarrow> same_regs w v \<Longrightarrow> tracked v w"
  unfolding tracked_def by (auto simp: same_regs_def intro!: exI [of _ "[]"])

lemma vm_pop_choice_compact:
  assumes "compact_inv v" "vm_pop_choice v = Some w"
  shows "resume_list v = resume_now w # resume_list w" "compact_inv w"
proof -
  obtain a where a: "choices_arena v = Some a" "arena_wf a" using assms(1) by (auto simp: compact_inv_def)
  have "ar_total_used a \<noteq> 0" using assms(2) a by (auto simp: vm_pop_choice_def split: if_splits)
  then have ne: "arena_stack a \<noteq> []" using arena_total_0 [OF a(2)] by simp
  then obtain fp r where t: "arena_tail (ar_cur a) = Some (fp, r)" "r = hd (arena_stack a)"
    using arena_tail_top [OF a(2)] by metis
  then have st: "stack_of v = r # tl (arena_stack a)" using ne a(1) by (simp add: stack_of_def)
  obtain h where h: "r = Compact h" "ch_trail_base h \<le> length (vm_trail v)"
    "marks_ok (tl (arena_stack a)) (ch_trail_base h)"
    using assms(1) st by (cases r) (auto simp: compact_inv_def)
  let ?x = "restore_compact v h"
  have w: "w = ?x\<lparr>choices_arena := Some (vm_arena_pop_last a), choices_top := ar_total_used (vm_arena_pop_last a),
      choice_live_depth := choice_live_depth v - 1\<rparr>"
    using assms(2) a(1) t(1) h(1) by (auto simp: vm_pop_choice_def Let_def split: if_splits)
  have st': "stack_of w = tl (arena_stack a)"
    unfolding w by (simp add: stack_of_def vm_arena_pop_last_wf(2) [OF a(2)])
  have len: "length (vm_trail ?x) = ch_trail_base h" using h(2) by (simp add: restore_compact_regs)
  have "resumes (tl (arena_stack a)) w = resumes (tl (arena_stack a)) ?x"
    by (rule resumes_tracked [where rs = "[]"]) (use h len w in \<open>simp_all add: same_regs_def\<close>)
  then show "resume_list v = resume_now w # resume_list w"
    unfolding resume_list_def st st' h(1) using w by (simp add: Let_def resume_at_def)
  have "marks_ok (stack_of w) (length (vm_trail w))" unfolding st' using h(3) w len by simp
  moreover have "arena_wf (vm_arena_pop_last a)" using vm_arena_pop_last_wf(1) [OF a(2)] .
  ultimately show "compact_inv w"
    using assms(1) unfolding compact_inv_def w
    by (simp add: restore_compact_def vm_trail_replay_def Let_def)
qed

lemma vm_push_choice_compact:
  assumes "compact_inv v" "length (vm_trail v) < 2 ^ 32"
  shows "resume_list (vm_push_choice v ip pos) = resume_at v ip pos # resume_list v"
    "compact_inv (vm_push_choice v ip pos)"
    "same_regs (vm_push_choice v ip pos) v" "vm_trail (vm_push_choice v ip pos) = vm_trail v"
proof -
  obtain a where a: "choices_arena v = Some a" "arena_wf a" using assms(1) by (auto simp: compact_inv_def)
  let ?h = "compact_header v ip pos"
  let ?w = "vm_push_choice v ip pos"
  have compact: "use_compact_choice v" using assms(1) by (simp add: compact_inv_def)
  have w: "?w = count_push v (vm_arena_alloc a compact_payload (Compact ?h)) (compact_payload + 2 * 4)"
    using a compact by (simp add: vm_push_choice_def)
  have st: "stack_of ?w = Compact ?h # stack_of v"
    unfolding w by (simp add: stack_of_def count_push_def Let_def a)
  have base: "ch_trail_base ?h = length (vm_trail v)" using assms(2) by (simp add: compact_header_def unat_of_nat)
  show regs: "same_regs ?w v" and tr: "vm_trail ?w = vm_trail v"
    unfolding w by (simp_all add: count_push_def Let_def same_regs_def)
  have "restore_compact ?w ?h = ?w\<lparr>vm_ip := ip, vm_pos := pos, var_count := var_count v,
      max_cap_used := max_cap_used v, max_counter_used := max_counter_used v\<rparr>"
    using base tr by (simp add: restore_compact_def vm_trail_replay_def compact_header_def Let_def)
  then have "resume_now (restore_compact ?w ?h) = resume_at v ip pos"
    and x: "same_regs (restore_compact ?w ?h) v" "vm_trail (restore_compact ?w ?h) = vm_trail v"
    using regs tr by (simp_all add: resume_at_def same_regs_def)
  moreover have "resumes (stack_of v) (restore_compact ?w ?h) = resumes (stack_of v) v"
    by (rule resumes_tracked [where rs = "[]"]) (use assms(1) x in \<open>simp_all add: compact_inv_def\<close>)
  ultimately show "resume_list ?w = resume_at v ip pos # resume_list v"
    unfolding resume_list_def st by (simp add: Let_def)
  have "marks_ok (stack_of ?w) (length (vm_trail ?w))"
    unfolding st tr using assms(1) base by (simp add: compact_inv_def)
  moreover have "arena_wf (vm_arena_alloc a compact_payload (Compact ?h))"
    using vm_arena_alloc_wf [OF a(2)] .
  ultimately show "compact_inv ?w"
    using assms(1) regs unfolding compact_inv_def
    by (simp add: w count_push_def Let_def same_regs_def)
qed

end
