(* ===== verification/Utf8.thy ===== *)
theory Utf8
  imports Prelude
begin

text \<open>
  UTF-8 as the library decodes and encodes it: the inline decoder \<open>utf8_peek_next\<close> of
  core/include/snobol/vm.h and the helpers \<open>utf8_cp_len\<close>, \<open>encode_utf8\<close> and \<open>str_is_ascii\<close> of
  core/src/string_fn.c. The decoder is lax: it looks at the lead byte and at the number of
  bytes left only, so overlong forms and bad continuation bytes decode to some code point.
\<close>

section \<open>Decoding\<close>

definition utf8_peek_next :: "bytes \<Rightarrow> nat \<Rightarrow> (u32 \<times> nat) option" where
  "utf8_peek_next s pos =
    (if length s \<le> pos then None
     else let c = s ! pos in
       if c < 0x80 then Some (ucast c, 1)
       else if c AND 0xE0 = 0xC0 then
         (if length s \<le> pos + 1 then None
          else Some (push_bit 6 (ucast (c AND 0x1F)) OR ucast (s ! (pos + 1) AND 0x3F), 2))
       else if c AND 0xF0 = 0xE0 then
         (if length s \<le> pos + 2 then None
          else Some (push_bit 12 (ucast (c AND 0x0F)) OR push_bit 6 (ucast (s ! (pos + 1) AND 0x3F))
                       OR ucast (s ! (pos + 2) AND 0x3F), 3))
       else if c AND 0xF8 = 0xF0 then
         (if length s \<le> pos + 3 then None
          else Some (push_bit 18 (ucast (c AND 0x07)) OR push_bit 12 (ucast (s ! (pos + 1) AND 0x3F))
                       OR push_bit 6 (ucast (s ! (pos + 2) AND 0x3F))
                       OR ucast (s ! (pos + 3) AND 0x3F), 4))
       else None)"

definition utf8_cp_len :: "bytes \<Rightarrow> nat \<Rightarrow> nat" where
  "utf8_cp_len s pos =
    (if length s \<le> pos then 0
     else let c = s ! pos in
       if c < 0x80 then 1
       else if c AND 0xE0 = 0xC0 then (if pos + 1 < length s then 2 else 0)
       else if c AND 0xF0 = 0xE0 then (if pos + 2 < length s then 3 else 0)
       else if c AND 0xF8 = 0xF0 then (if pos + 3 < length s then 4 else 0)
       else 1)"

definition str_is_ascii :: "bytes \<Rightarrow> bool" where
  "str_is_ascii s = list_all (\<lambda>b. b < 0x80) s"

section \<open>Encoding\<close>

text \<open>The bytes written to \<open>buf\<close>; the empty list stands for the return value 0.\<close>

definition encode_utf8 :: "u32 \<Rightarrow> bytes" where
  "encode_utf8 cp =
    (if cp > 0x10FFFF then []
     else if cp \<ge> 0xD800 \<and> cp \<le> 0xDFFF then []
     else if cp < 0x80 then [ucast cp]
     else if cp < 0x800 then
       [ucast (0xC0 OR drop_bit 6 cp), ucast (0x80 OR (cp AND 0x3F))]
     else if cp < 0x10000 then
       [ucast (0xE0 OR drop_bit 12 cp), ucast (0x80 OR (drop_bit 6 cp AND 0x3F)),
        ucast (0x80 OR (cp AND 0x3F))]
     else
       [ucast (0xF0 OR drop_bit 18 cp), ucast (0x80 OR (drop_bit 12 cp AND 0x3F)),
        ucast (0x80 OR (drop_bit 6 cp AND 0x3F)), ucast (0x80 OR (cp AND 0x3F))])"

definition valid_cp :: "u32 \<Rightarrow> bool" where
  "valid_cp cp \<longleftrightarrow> cp \<le> 0x10FFFF \<and> \<not> (0xD800 \<le> cp \<and> cp \<le> 0xDFFF)"

section \<open>Bounds and agreement of the two decoders\<close>

lemma utf8_peek_next_bounds:
  "utf8_peek_next s pos = Some (cp, n) \<Longrightarrow> 0 < n \<and> n \<le> 4 \<and> pos + n \<le> length s"
  by (auto simp: utf8_peek_next_def Let_def split: if_splits)

lemma utf8_peek_next_pos: "utf8_peek_next s pos = Some (cp, n) \<Longrightarrow> 0 < n"
  using utf8_peek_next_bounds by blast

lemma utf8_peek_next_end: "utf8_peek_next s pos = Some (cp, n) \<Longrightarrow> pos + n \<le> length s"
  using utf8_peek_next_bounds by blast

lemma utf8_peek_next_None_end [simp]: "length s \<le> pos \<Longrightarrow> utf8_peek_next s pos = None"
  by (simp add: utf8_peek_next_def)

lemma utf8_cp_len_bounds: "utf8_cp_len s pos \<le> 4 \<and> pos + utf8_cp_len s pos \<le> max pos (length s)"
  by (auto simp: utf8_cp_len_def Let_def)

lemma utf8_cp_len_peek:
  "utf8_peek_next s pos = Some (cp, n) \<Longrightarrow> utf8_cp_len s pos = n"
  by (auto simp: utf8_peek_next_def utf8_cp_len_def Let_def split: if_splits)

lemma utf8_peek_None_cp_len:
  "utf8_peek_next s pos = None \<Longrightarrow> utf8_cp_len s pos \<in> {0, 1}"
  by (auto simp: utf8_peek_next_def utf8_cp_len_def Let_def split: if_splits)

section \<open>Encoding then decoding gives the code point back\<close>

text \<open>
  The bits of a code point below \<open>2 ^ k\<close>, taken apart into the payload bits of the bytes and put
  together again, position by position.
\<close>

lemma decode2_encode2:
  fixes cp :: u32
  assumes "cp < 0x800"
  shows "push_bit 6 (ucast ((ucast (0xC0 OR drop_bit 6 cp) :: u8) AND 0x1F))
           OR ucast ((ucast (0x80 OR (cp AND 0x3F)) :: u8) AND 0x3F) = cp"
  using assms not_bit_above [of cp 11]
  by (intro u32_eqI) (simp_all add: bit_simps)

lemma decode3_encode3:
  fixes cp :: u32
  assumes "cp < 0x10000"
  shows "push_bit 12 (ucast ((ucast (0xE0 OR drop_bit 12 cp) :: u8) AND 0x0F))
           OR push_bit 6 (ucast ((ucast (0x80 OR (drop_bit 6 cp AND 0x3F)) :: u8) AND 0x3F))
           OR ucast ((ucast (0x80 OR (cp AND 0x3F)) :: u8) AND 0x3F) = cp"
  using assms not_bit_above [of cp 16]
  by (intro u32_eqI) (simp_all add: bit_simps)

lemma decode4_encode4:
  fixes cp :: u32
  assumes "cp < 0x200000"
  shows "push_bit 18 (ucast ((ucast (0xF0 OR drop_bit 18 cp) :: u8) AND 0x07))
           OR push_bit 12 (ucast ((ucast (0x80 OR (drop_bit 12 cp AND 0x3F)) :: u8) AND 0x3F))
           OR push_bit 6 (ucast ((ucast (0x80 OR (drop_bit 6 cp AND 0x3F)) :: u8) AND 0x3F))
           OR ucast ((ucast (0x80 OR (cp AND 0x3F)) :: u8) AND 0x3F) = cp"
  using assms not_bit_above [of cp 21]
  by (intro u32_eqI) (simp_all add: bit_simps)

text \<open>The lead byte of each length is recognised as such.\<close>

lemma lead_byte_2:
  fixes cp :: u32
  assumes "cp < 0x800"
  shows "(ucast (0xC0 OR drop_bit 6 cp) :: u8) AND 0xE0 = 0xC0"
  using assms not_bit_above [of cp 11]
  by (intro u8_eqI) (simp_all add: bit_simps)

lemma lead_byte_3:
  fixes cp :: u32
  assumes "cp < 0x10000"
  shows "(ucast (0xE0 OR drop_bit 12 cp) :: u8) AND 0xF0 = 0xE0"
  using assms not_bit_above [of cp 16]
  by (intro u8_eqI) (simp_all add: bit_simps)

lemma lead_byte_4:
  fixes cp :: u32
  assumes "cp < 0x200000"
  shows "(ucast (0xF0 OR drop_bit 18 cp) :: u8) AND 0xF8 = 0xF0"
  using assms not_bit_above [of cp 21]
  by (intro u8_eqI) (simp_all add: bit_simps)

lemma high_bit_not_ascii: "bit (b :: u8) 7 \<Longrightarrow> \<not> b < 0x80"
  using not_bit_above [of b 7 7] by auto

lemma lead_byte_mask:
  "(b :: u8) AND 0xF0 = 0xE0 \<Longrightarrow> b AND 0xE0 \<noteq> 0xC0"
  "(b :: u8) AND 0xF8 = 0xF0 \<Longrightarrow> b AND 0xE0 \<noteq> 0xC0"
  "(b :: u8) AND 0xF8 = 0xF0 \<Longrightarrow> b AND 0xF0 \<noteq> 0xE0"
  using bit_and_iff [of b "0xF0" 5] bit_and_iff [of b "0xE0" 5]
    bit_and_iff [of b "0xF8" 5] bit_and_iff [of b "0xF0" 4] bit_and_iff [of b "0xF8" 4]
  by auto

lemma lead_byte_not_ascii:
  "\<not> (ucast (0xC0 OR x :: u32) :: u8) < 0x80"
  "\<not> (ucast (0xE0 OR x :: u32) :: u8) < 0x80"
  "\<not> (ucast (0xF0 OR x :: u32) :: u8) < 0x80"
  by (rule high_bit_not_ascii, simp add: bit_simps)+

lemma ascii_roundtrip:
  fixes cp :: u32
  assumes "cp < 0x80"
  shows "ucast (ucast cp :: u8) = cp" and "(ucast cp :: u8) < 0x80"
proof -
  show "ucast (ucast cp :: u8) = cp"
    using assms not_bit_above [of cp 7] by (intro u32_eqI) (simp_all add: bit_simps)
  have "unat cp < 128"
    using assms by (simp add: word_less_nat_alt)
  then show "(ucast cp :: u8) < 0x80"
    by (simp add: word_less_nat_alt unsigned_ucast_eq take_bit_nat_eq_self)
qed

lemma decode_encode_2:
  assumes "0x80 \<le> cp" "cp < 0x800"
  shows "utf8_peek_next (pre @ encode_utf8 cp @ post) (length pre) = Some (cp, 2)"
proof -
  have e: "encode_utf8 cp = [ucast (0xC0 OR drop_bit 6 cp), ucast (0x80 OR (cp AND 0x3F))]"
    using assms by (auto simp: encode_utf8_def word_less_nat_alt word_le_nat_alt)
  show ?thesis
    unfolding e by (simp add: utf8_peek_next_def nth_append Let_def lead_byte_not_ascii
        lead_byte_2 [OF assms(2)] decode2_encode2 [OF assms(2)])
qed

lemma decode_encode_3:
  assumes "0x800 \<le> cp" "cp < 0x10000" "\<not> (0xD800 \<le> cp \<and> cp \<le> 0xDFFF)"
  shows "utf8_peek_next (pre @ encode_utf8 cp @ post) (length pre) = Some (cp, 3)"
proof -
  have e: "encode_utf8 cp =
      [ucast (0xE0 OR drop_bit 12 cp), ucast (0x80 OR (drop_bit 6 cp AND 0x3F)),
       ucast (0x80 OR (cp AND 0x3F))]"
    using assms by (auto simp: encode_utf8_def word_less_nat_alt word_le_nat_alt)
  show ?thesis
    unfolding e by (simp add: utf8_peek_next_def nth_append Let_def lead_byte_not_ascii
        lead_byte_3 [OF assms(2)] lead_byte_mask(1) [OF lead_byte_3 [OF assms(2)]]
        decode3_encode3 [OF assms(2)])
qed

lemma decode_encode_4:
  assumes "0x10000 \<le> cp" "cp \<le> 0x10FFFF"
  shows "utf8_peek_next (pre @ encode_utf8 cp @ post) (length pre) = Some (cp, 4)"
proof -
  have b: "cp < 0x200000"
    using assms(2) by (rule order_le_less_trans) simp
  have e: "encode_utf8 cp =
      [ucast (0xF0 OR drop_bit 18 cp), ucast (0x80 OR (drop_bit 12 cp AND 0x3F)),
       ucast (0x80 OR (drop_bit 6 cp AND 0x3F)), ucast (0x80 OR (cp AND 0x3F))]"
    using assms by (auto simp: encode_utf8_def word_less_nat_alt word_le_nat_alt)
  show ?thesis
    unfolding e by (simp add: utf8_peek_next_def nth_append Let_def lead_byte_not_ascii
        lead_byte_4 [OF b] lead_byte_mask(2,3) [OF lead_byte_4 [OF b]] decode4_encode4 [OF b])
qed

lemma decode_encode_1:
  assumes "cp < 0x80"
  shows "utf8_peek_next (pre @ encode_utf8 cp @ post) (length pre) = Some (cp, 1)"
proof -
  have e: "encode_utf8 cp = [ucast cp]"
    using assms by (auto simp: encode_utf8_def word_less_nat_alt word_le_nat_alt)
  show ?thesis
    unfolding e by (simp add: utf8_peek_next_def nth_append Let_def ascii_roundtrip [OF assms])
qed

lemma length_encode_utf8:
  "length (encode_utf8 cp) =
    (if \<not> valid_cp cp then 0 else if cp < 0x80 then 1 else if cp < 0x800 then 2
     else if cp < 0x10000 then 3 else 4)"
  by (auto simp: encode_utf8_def valid_cp_def)

lemma encode_utf8_empty_iff: "encode_utf8 cp = [] \<longleftrightarrow> \<not> valid_cp cp"
  by (auto simp: encode_utf8_def valid_cp_def)

lemma decode_encode_any:
  assumes "valid_cp cp"
  shows "utf8_peek_next (pre @ encode_utf8 cp @ post) (length pre) = Some (cp, length (encode_utf8 cp))"
  using assms decode_encode_1 [of cp] decode_encode_2 [of cp] decode_encode_3 [of cp]
    decode_encode_4 [of cp]
  by (auto simp: length_encode_utf8 valid_cp_def not_less not_le intro: less_imp_le)

text \<open>
  C21: Encoding a valid code point and decoding the bytes, anywhere in a string, gives the code
  point back and consumes exactly the bytes that were written.
\<close>

theorem utf8_decode_encode:
  assumes "valid_cp cp"
  shows "utf8_peek_next (pre @ encode_utf8 cp @ post) (length pre)
    = Some (cp, length (encode_utf8 cp))"
  using assms by (rule decode_encode_any)

theorem utf8_decode_encode_witness:
  "utf8_peek_next ([0x41] @ encode_utf8 0x20AC @ [0x42]) (length [0x41 :: u8])
    = Some (0x20AC, length (encode_utf8 0x20AC))"
  by (rule utf8_decode_encode) (simp add: valid_cp_def)

end
