(* ===== verification/Vm_Charclass.thy ===== *)
theory Vm_Charclass
  imports Vm_State Utf8
begin

text \<open>
  Character classes, the first part of \<^verbatim>\<open>core/src/vm_exec.c\<close>: finding a class in the trailer of the
  bytecode, the cache of its metadata, the bitmaps for byte-sized classes and the binary search
  through the ranges. A class is a blob of ranges of eight bytes, two big-endian code points each.
\<close>

section \<open>The trailer\<close>

definition be32 :: "bytes \<Rightarrow> nat \<Rightarrow> u32" where
  "be32 bs i =
     push_bit 24 (ucast (bs ! i)) OR push_bit 16 (ucast (bs ! (i + 1))) OR
     push_bit 8 (ucast (bs ! (i + 2))) OR ucast (bs ! (i + 3))"

definition SNOBOL_LABEL_TABLE_MAGIC :: u32 where
  "SNOBOL_LABEL_TABLE_MAGIC = 0x534E424C"

text \<open>
  The position just after the class count: before the label table in bytecode that ends in the
  magic word, the end of the bytecode otherwise.
\<close>

definition charclass_tail :: "bytes \<Rightarrow> nat option" where
  "charclass_tail bc =
     (let tail_ip = length bc
      in if be32 bc (tail_ip - 4) = SNOBOL_LABEL_TABLE_MAGIC
         then if tail_ip < 8 then None
              else (let label_count = be32 bc (tail_ip - 8); skip = 8 + unat label_count * 4
                    in if tail_ip < skip + 4 then None else Some (tail_ip - skip))
         else Some tail_ip)"

definition parse_ranges_ptr :: "bytes \<Rightarrow> u16 \<Rightarrow> (bytes \<times> u16 \<times> u16) option" where
  "parse_ranges_ptr bc set_id =
     (if length bc < 4 then None
      else case charclass_tail bc of
             None \<Rightarrow> None
           | Some cc_tail \<Rightarrow>
               (if cc_tail < 4 then None
                else (let class_count = be32 bc (cc_tail - 4); table_size = unat class_count * 4
                      in if unat class_count < unat set_id then None
                         else if cc_tail < 4 + table_size then None
                         else (let table_start = cc_tail - 4 - table_size;
                                   offset = be32 bc (table_start + (unat set_id - 1) * 4)
                               in if length bc \<le> unat offset then None
                                  else (let (cnt, ip1) = read_u16 bc (unat offset);
                                            (ci, ip2) = read_u16 bc ip1
                                        in Some (drop ip2 bc, cnt, ci))))))"

definition get_ranges_ptr :: "bytes \<Rightarrow> range_meta list option \<Rightarrow> u16 \<Rightarrow> (bytes \<times> u16 \<times> u16) option" where
  "get_ranges_ptr bc meta set_id =
     (if set_id = 0 then None
      else case meta of
             Some entries \<Rightarrow>
               (if unat set_id \<le> length entries
                then (let entry = entries ! (unat set_id - 1)
                      in case rm_ranges entry of
                           Some ptr \<Rightarrow> Some (ptr, rm_count entry, rm_case_insensitive entry)
                         | None \<Rightarrow> parse_ranges_ptr bc set_id)
                else parse_ranges_ptr bc set_id)
           | None \<Rightarrow> parse_ranges_ptr bc set_id)"

fun earliest_offset :: "bytes \<Rightarrow> nat \<Rightarrow> nat \<Rightarrow> nat \<Rightarrow> nat" where
  "earliest_offset bc at 0 earliest = earliest"
| "earliest_offset bc at (Suc n) earliest =
     (let off = unat (fst (read_u32 bc at))
      in earliest_offset bc (at + 4) n (if off < earliest then off else earliest))"

definition snobol_bc_body_len :: "bytes \<Rightarrow> nat" where
  "snobol_bc_body_len bc =
     (let bc_len = length bc
      in if bc_len < 12 then 0
         else if fst (read_u32 bc (bc_len - 4)) \<noteq> SNOBOL_LABEL_TABLE_MAGIC then 0
         else (let label_count = fst (read_u32 bc (bc_len - 8)); skip = 8 + unat label_count * 4
               in if bc_len < skip + 4 then 0
                  else (let cc_tail = bc_len - skip;
                            class_count = fst (read_u32 bc (cc_tail - 4));
                            table_size = unat class_count * 4
                        in if cc_tail < 4 + table_size then 0
                           else if class_count = 0 then cc_tail - 4
                           else (let offsets_at = cc_tail - 4 - table_size;
                                     earliest = earliest_offset bc offsets_at (unat class_count) (2 ^ 64 - 1)
                                 in if earliest = 0 \<or> offsets_at < earliest then 0 else earliest))))"

section \<open>Membership\<close>

definition range_at :: "bytes \<Rightarrow> nat \<Rightarrow> u32 \<times> u32" where
  "range_at ranges i = (be32 ranges (i * 8), be32 ranges (i * 8 + 4))"

text \<open>The loop that sets the bits from \<open>c\<close> on, \<open>n\<close> of them.\<close>

fun fill_ascii :: "nat \<Rightarrow> nat \<Rightarrow> u64 \<times> u64 \<Rightarrow> u64 \<times> u64" where
  "fill_ascii c 0 bm = bm"
| "fill_ascii c (Suc n) bm =
     fill_ascii (c + 1) n
       (if c < 64 then (fst bm OR push_bit c 1, snd bm) else (fst bm, snd bm OR push_bit (c - 64) 1))"

fun ascii_loop :: "bytes \<Rightarrow> nat \<Rightarrow> nat \<Rightarrow> u64 \<times> u64 \<Rightarrow> (u64 \<times> u64) option" where
  "ascii_loop ranges i 0 bm = Some bm"
| "ascii_loop ranges i (Suc n) bm =
     (let (start, stop) = range_at ranges i
      in if 127 < start \<or> 127 < stop then None
         else ascii_loop ranges (i + 1) n (fill_ascii (unat start) (Suc (unat stop) - unat start) bm))"

text \<open>\<open>None\<close> is the result false: some range is not all ASCII.\<close>

definition ranges_to_ascii_bitmap :: "bytes \<Rightarrow> nat \<Rightarrow> (u64 \<times> u64) option" where
  "ranges_to_ascii_bitmap ranges cnt = ascii_loop ranges 0 cnt (0, 0)"

fun fill_full :: "nat \<Rightarrow> nat \<Rightarrow> u64 list \<Rightarrow> u64 list" where
  "fill_full c 0 bm = bm"
| "fill_full c (Suc n) bm =
     fill_full (c + 1) n (bm[c div 64 := bm ! (c div 64) OR push_bit (c mod 64) 1])"

fun full_loop :: "bytes \<Rightarrow> nat \<Rightarrow> nat \<Rightarrow> u64 list \<Rightarrow> u64 list option" where
  "full_loop ranges i 0 bm = Some bm"
| "full_loop ranges i (Suc n) bm =
     (let (start, stop) = range_at ranges i
      in if 255 < start \<or> 255 < stop then None
         else full_loop ranges (i + 1) n (fill_full (unat start) (Suc (unat stop) - unat start) bm))"

definition ranges_to_full_bitmap :: "bytes \<Rightarrow> nat \<Rightarrow> u64 list option" where
  "ranges_to_full_bitmap ranges cnt = full_loop ranges 0 cnt [0, 0, 0, 0]"

definition bitmap_test :: "u64 \<times> u64 \<Rightarrow> u8 \<Rightarrow> bool" where
  "bitmap_test bm c =
     (if 127 < c then False
      else if c < 64 then (fst bm AND push_bit (unat c) 1) \<noteq> 0
      else (snd bm AND push_bit (unat c - 64) 1) \<noteq> 0)"

definition bitmap_test_256 :: "u64 list \<Rightarrow> u8 \<Rightarrow> bool" where
  "bitmap_test_256 bm c = ((bm ! (unat c div 64) AND push_bit (unat (c AND 63)) 1) \<noteq> 0)"

text \<open>Counting the trailing zeros of a word that is not zero.\<close>

fun ctz_from :: "u64 \<Rightarrow> nat \<Rightarrow> nat \<Rightarrow> nat" where
  "ctz_from v i 0 = i"
| "ctz_from v i (Suc n) = (if bit v i then i else ctz_from v (i + 1) n)"

definition snobol_ctz64 :: "u64 \<Rightarrow> nat" where
  "snobol_ctz64 v = ctz_from v 0 64"

definition bitmap_single_ascii_byte :: "u64 \<times> u64 \<Rightarrow> u8 option" where
  "bitmap_single_ascii_byte bm =
     (let lo = fst bm; hi = snd bm
      in if hi = 0 \<and> lo \<noteq> 0 \<and> lo AND (lo - 1) = 0 then Some (of_nat (snobol_ctz64 lo))
         else if lo = 0 \<and> hi \<noteq> 0 \<and> hi AND (hi - 1) = 0 then Some (of_nat (64 + snobol_ctz64 hi))
         else None)"

function range_search :: "bytes \<Rightarrow> u32 \<Rightarrow> nat \<Rightarrow> nat \<Rightarrow> bool" where
  "range_search ranges cp lo hi =
     (if lo < hi
      then let mid = lo + (hi - lo) div 2; (start, stop) = range_at ranges mid
           in if cp < start then range_search ranges cp lo mid
              else if stop < cp then range_search ranges cp (mid + 1) hi
              else True
      else False)"
  by pat_completeness auto
termination by (relation "measure (\<lambda>(ranges, cp, lo, hi). hi - lo)") auto

declare range_search.simps [simp del]

definition range_contains :: "bytes \<Rightarrow> nat \<Rightarrow> u32 \<Rightarrow> bool" where
  "range_contains ranges cnt cp = range_search ranges cp 0 cnt"

section \<open>The metadata cache\<close>

definition meta_entry :: "bytes \<Rightarrow> nat \<Rightarrow> range_meta" where
  "meta_entry bc n =
     (case get_ranges_ptr bc None (of_nat n) of
        Some (ptr, cnt, ci) \<Rightarrow>
          (case ranges_to_ascii_bitmap ptr (unat cnt) of
             Some bm \<Rightarrow> \<lparr>rm_ranges = Some ptr, rm_count = cnt, rm_case_insensitive = ci,
                          rm_ascii_map = bm, rm_has_ascii_map = True\<rparr>
           | None \<Rightarrow> \<lparr>rm_ranges = Some ptr, rm_count = cnt, rm_case_insensitive = ci,
                      rm_ascii_map = (0, 0), rm_has_ascii_map = False\<rparr>)
      | None \<Rightarrow> \<lparr>rm_ranges = None, rm_count = 0, rm_case_insensitive = 0, rm_ascii_map = (0, 0),
                 rm_has_ascii_map = False\<rparr>)"

definition snobol_build_range_meta :: "bytes \<Rightarrow> range_meta list option" where
  "snobol_build_range_meta bc =
     (if length bc < 4 then None
      else case charclass_tail bc of
             None \<Rightarrow> None
           | Some cc_tail \<Rightarrow>
               (if cc_tail < 4 then None
                else (let class_count = unat (be32 bc (cc_tail - 4))
                      in if class_count = 0 \<or> 65535 < class_count then None
                         else Some (map (meta_entry bc) [1..<Suc class_count]))))"

section \<open>The tests agree\<close>

definition in_ranges :: "bytes \<Rightarrow> nat \<Rightarrow> u32 \<Rightarrow> bool" where
  "in_ranges ranges cnt cp \<longleftrightarrow>
     (\<exists>i < cnt. fst (range_at ranges i) \<le> cp \<and> cp \<le> snd (range_at ranges i))"

text \<open>The ranges are sorted and do not overlap, as the compiler emits them.\<close>

definition ranges_sorted :: "bytes \<Rightarrow> nat \<Rightarrow> bool" where
  "ranges_sorted ranges cnt \<longleftrightarrow>
     (\<forall>i < cnt. fst (range_at ranges i) \<le> snd (range_at ranges i)) \<and>
     (\<forall>i j. i < j \<and> j < cnt \<longrightarrow> snd (range_at ranges i) < fst (range_at ranges j))"

lemma ranges_sortedD:
  assumes "ranges_sorted ranges cnt"
  shows "i < cnt \<Longrightarrow> fst (range_at ranges i) \<le> snd (range_at ranges i)"
    and "i < j \<Longrightarrow> j < cnt \<Longrightarrow> snd (range_at ranges i) < fst (range_at ranges j)"
  using assms unfolding ranges_sorted_def by blast+

lemma range_search_iff:
  "ranges_sorted ranges cnt \<Longrightarrow> hi \<le> cnt \<Longrightarrow> range_search ranges cp lo hi \<longleftrightarrow>
     (\<exists>i. lo \<le> i \<and> i < hi \<and> fst (range_at ranges i) \<le> cp \<and> cp \<le> snd (range_at ranges i))"
proof (induction ranges cp lo hi rule: range_search.induct)
  case (1 ranges cp lo hi)
  note sorted = 1(3) and hi = 1(4)
  show ?case
  proof (cases "lo < hi")
    case False
    then show ?thesis by (simp add: range_search.simps [of ranges cp lo hi])
  next
    case True
    define mid where "mid = lo + (hi - lo) div 2"
    obtain start stop where r: "range_at ranges mid = (start, stop)" by (cases "range_at ranges mid")
    have mid: "lo \<le> mid" "mid < hi" using True by (auto simp: mid_def)
    have le: "start \<le> stop" using ranges_sortedD(1) [OF sorted, of mid] mid hi r by simp
    have above: "stop < fst (range_at ranges i)" if "mid < i" "i < hi" for i
      using ranges_sortedD(2) [OF sorted, of mid i] that hi r by simp
    have below: "snd (range_at ranges i) < start" if "i < mid" for i
      using ranges_sortedD(2) [OF sorted, of i mid] that mid hi r by simp
    have unf: "range_search ranges cp lo hi =
        (if cp < start then range_search ranges cp lo mid
         else if stop < cp then range_search ranges cp (mid + 1) hi else True)"
      using True r by (simp add: range_search.simps [of ranges cp lo hi] mid_def [symmetric] Let_def)
    consider "cp < start" | "\<not> cp < start" "stop < cp" | "\<not> cp < start" "\<not> stop < cp" by blast
    then show ?thesis
    proof cases
      case 1
      have "\<not> (fst (range_at ranges i) \<le> cp)" if "mid \<le> i" "i < hi" for i
        using 1 le above [of i] that r by (cases "i = mid") (auto simp: not_le)
      then have iff: "(\<exists>i. lo \<le> i \<and> i < hi \<and> fst (range_at ranges i) \<le> cp \<and> cp \<le> snd (range_at ranges i)) \<longleftrightarrow>
          (\<exists>i. lo \<le> i \<and> i < mid \<and> fst (range_at ranges i) \<le> cp \<and> cp \<le> snd (range_at ranges i))"
        using mid by (metis le_less_linear order.strict_trans)
      show ?thesis unfolding iff unf
        using "1.IH"(1) [OF True mid_def refl r [symmetric] 1 sorted] 1 mid hi by simp
    next
      case 2
      have up: "\<not> (cp \<le> snd (range_at ranges i))" if "i \<le> mid" for i
        using 2 le below [of i] that r by (cases "i = mid") (auto simp: not_le)
      have "lo \<le> i \<and> cp \<le> snd (range_at ranges i) \<longleftrightarrow> mid + 1 \<le> i \<and> cp \<le> snd (range_at ranges i)" for i
        using up [of i] mid by (cases "i \<le> mid") auto
      then have iff: "(\<exists>i. lo \<le> i \<and> i < hi \<and> fst (range_at ranges i) \<le> cp \<and> cp \<le> snd (range_at ranges i)) \<longleftrightarrow>
          (\<exists>i. mid + 1 \<le> i \<and> i < hi \<and> fst (range_at ranges i) \<le> cp \<and> cp \<le> snd (range_at ranges i))"
        by blast
      show ?thesis unfolding iff unf
        using "1.IH"(2) [OF True mid_def refl r [symmetric] 2 sorted hi] 2 by simp
    next
      case 3
      then have "fst (range_at ranges mid) \<le> cp \<and> cp \<le> snd (range_at ranges mid)"
        using r by (simp add: not_less)
      then have "\<exists>i. lo \<le> i \<and> i < hi \<and> fst (range_at ranges i) \<le> cp \<and> cp \<le> snd (range_at ranges i)"
        using mid by blast
      then show ?thesis unfolding unf using 3 by simp
    qed
  qed
qed

lemma ex_from_Suc:
  "(\<exists>j. i \<le> j \<and> j < i + Suc n \<and> P j) \<longleftrightarrow> P i \<or> (\<exists>j. i + 1 \<le> j \<and> j < i + 1 + n \<and> P j)"
proof
  assume "\<exists>j. i \<le> j \<and> j < i + Suc n \<and> P j"
  then obtain j where "i \<le> j" "j < i + Suc n" "P j" by blast
  then show "P i \<or> (\<exists>j. i + 1 \<le> j \<and> j < i + 1 + n \<and> P j)"
    by (cases "j = i") (auto intro!: exI [of _ j])
next
  assume "P i \<or> (\<exists>j. i + 1 \<le> j \<and> j < i + 1 + n \<and> P j)"
  then show "\<exists>j. i \<le> j \<and> j < i + Suc n \<and> P j"
    by (auto intro: exI [of _ i] Suc_leD)
qed

definition ascii_bit :: "u64 \<times> u64 \<Rightarrow> nat \<Rightarrow> bool" where
  "ascii_bit bm k \<longleftrightarrow> (if k < 64 then bit (fst bm) k else bit (snd bm) (k - 64))"

lemma fill_ascii_bit:
  "c + n \<le> 128 \<Longrightarrow> k < 128 \<Longrightarrow> ascii_bit (fill_ascii c n bm) k \<longleftrightarrow> ascii_bit bm k \<or> c \<le> k \<and> k < c + n"
proof (induction c n bm rule: fill_ascii.induct)
  case (2 c n bm)
  then show ?case
    by (auto simp: ascii_bit_def bit_or_iff bit_exp_iff)
qed auto

lemma ascii_loop_bit:
  "ascii_loop ranges i n bm = Some bm' \<Longrightarrow> k < 128 \<Longrightarrow> ascii_bit bm' k \<longleftrightarrow>
     ascii_bit bm k \<or> (\<exists>j. i \<le> j \<and> j < i + n \<and>
        unat (fst (range_at ranges j)) \<le> k \<and> k \<le> unat (snd (range_at ranges j)))"
proof (induction ranges i n bm rule: ascii_loop.induct)
  case (1 ranges i bm)
  then show ?case by auto
next
  case (2 ranges i n bm)
  obtain start stop where r: "range_at ranges i = (start, stop)" by (cases "range_at ranges i")
  have small: "\<not> 127 < start" "\<not> 127 < stop"
    and rest: "ascii_loop ranges (i + 1) n (fill_ascii (unat start) (Suc (unat stop) - unat start) bm) = Some bm'"
    using 2(2) r by (auto split: if_splits)
  have "unat start \<le> 127" "unat stop \<le> 127" using small by (simp_all add: word_less_nat_alt)
  then have fill: "ascii_bit (fill_ascii (unat start) (Suc (unat stop) - unat start) bm) k \<longleftrightarrow>
      ascii_bit bm k \<or> unat start \<le> k \<and> k \<le> unat stop"
    using fill_ascii_bit [of "unat start" "Suc (unat stop) - unat start" k bm] 2(3) by auto
  have no: "\<not> (127 < start \<or> 127 < stop)" using small by simp
  show ?case
    unfolding ex_from_Suc "2.IH" [OF r [symmetric] refl no rest 2(3)] fill by (auto simp: r)
qed

definition full_bit :: "u64 list \<Rightarrow> nat \<Rightarrow> bool" where
  "full_bit bm k \<longleftrightarrow> bit (bm ! (k div 64)) (k mod 64)"

lemma fill_full_bit:
  "length bm = 4 \<Longrightarrow> c + n \<le> 256 \<Longrightarrow> k < 256 \<Longrightarrow>
     length (fill_full c n bm) = 4 \<and> (full_bit (fill_full c n bm) k \<longleftrightarrow> full_bit bm k \<or> c \<le> k \<and> k < c + n)"
proof (induction c n bm rule: fill_full.induct)
  case (2 c n bm)
  have c: "c div 64 < 4" using 2(3) by simp
  have eq: "k = c" if "k div 64 = c div 64" "k mod 64 = c mod 64"
    using that by (metis mult_div_mod_eq)
  have "full_bit (bm[c div 64 := bm ! (c div 64) OR push_bit (c mod 64) 1]) k \<longleftrightarrow> full_bit bm k \<or> k = c"
    using c 2(2) eq by (auto simp: full_bit_def nth_list_update bit_or_iff bit_exp_iff)
  then show ?case using 2 by auto
qed auto

lemma full_loop_bit:
  "full_loop ranges i n bm = Some bm' \<Longrightarrow> length bm = 4 \<Longrightarrow> k < 256 \<Longrightarrow> full_bit bm' k \<longleftrightarrow>
     full_bit bm k \<or> (\<exists>j. i \<le> j \<and> j < i + n \<and>
        unat (fst (range_at ranges j)) \<le> k \<and> k \<le> unat (snd (range_at ranges j)))"
proof (induction ranges i n bm rule: full_loop.induct)
  case (1 ranges i bm)
  then show ?case by auto
next
  case (2 ranges i n bm)
  obtain start stop where r: "range_at ranges i = (start, stop)" by (cases "range_at ranges i")
  have small: "\<not> 255 < start" "\<not> 255 < stop"
    and rest: "full_loop ranges (i + 1) n (fill_full (unat start) (Suc (unat stop) - unat start) bm) = Some bm'"
    using 2(2) r by (auto split: if_splits)
  have "unat start \<le> 255" "unat stop \<le> 255" using small by (simp_all add: word_less_nat_alt)
  then have fill: "length (fill_full (unat start) (Suc (unat stop) - unat start) bm) = 4"
    "full_bit (fill_full (unat start) (Suc (unat stop) - unat start) bm) k \<longleftrightarrow>
      full_bit bm k \<or> unat start \<le> k \<and> k \<le> unat stop"
    using fill_full_bit [of bm "unat start" "Suc (unat stop) - unat start" k] 2(3,4) by auto
  have no: "\<not> (255 < start \<or> 255 < stop)" using small by simp
  show ?case
    unfolding ex_from_Suc "2.IH" [OF r [symmetric] refl no rest fill(1) 2(4)] fill(2) by (auto simp: r)
qed

lemma unat_ucast_u8: "unat (ucast (c :: u8) :: u32) = unat c"
proof -
  have "unat c < 2 ^ 32" by (rule less_trans [OF unat_u8_less]) simp
  then show ?thesis by (simp add: unsigned_ucast_eq take_bit_nat_eq_self)
qed

lemma word_u8_u32_le: "unat (w :: u32) \<le> unat (c :: u8) \<longleftrightarrow> w \<le> ucast c"
  unfolding word_le_nat_alt unat_ucast_u8 ..

lemma word_u32_u8_le: "unat (c :: u8) \<le> unat (w :: u32) \<longleftrightarrow> ucast c \<le> w"
  unfolding word_le_nat_alt unat_ucast_u8 ..

lemma bitmap_test_bit: "bitmap_test bm c \<longleftrightarrow> unat c < 128 \<and> ascii_bit bm (unat c)"
proof -
  have "127 < c \<longleftrightarrow> \<not> unat c < 128" "c < 64 \<longleftrightarrow> unat c < 64"
    by (auto simp: word_less_nat_alt)
  then show ?thesis by (simp add: bitmap_test_def ascii_bit_def bit_iff_and_push_bit_not_eq_0)
qed

lemma bitmap_test_256_bit: "bitmap_test_256 bm c \<longleftrightarrow> full_bit bm (unat c)"
proof -
  have "c AND 63 = take_bit 6 c" by (simp add: take_bit_eq_mask mask_numeral)
  then have "unat (c AND 63) = unat c mod 64" by (simp add: unsigned_take_bit_eq take_bit_nat_def)
  then show ?thesis by (simp add: bitmap_test_256_def full_bit_def bit_iff_and_push_bit_not_eq_0)
qed

lemma ascii_loop_small:
  "ascii_loop ranges i n bm = Some bm' \<Longrightarrow> i \<le> j \<Longrightarrow> j < i + n \<Longrightarrow> snd (range_at ranges j) \<le> 127"
proof (induction ranges i n bm rule: ascii_loop.induct)
  case (1 ranges i bm)
  then show ?case by simp
next
  case (2 ranges i n bm)
  obtain start stop where r: "range_at ranges i = (start, stop)" by (cases "range_at ranges i")
  have no: "\<not> (127 < start \<or> 127 < stop)"
    and rest: "ascii_loop ranges (i + 1) n (fill_ascii (unat start) (Suc (unat stop) - unat start) bm) = Some bm'"
    using 2(2) r by (auto split: if_splits)
  show ?case
  proof (cases "j = i")
    case True
    then show ?thesis using r no by (simp add: not_less)
  next
    case False
    then show ?thesis using "2.IH" [OF r [symmetric] refl no rest] 2(3,4) by simp
  qed
qed

lemma ascii_bitmap_test:
  assumes "ranges_to_ascii_bitmap ranges cnt = Some bm"
  shows "bitmap_test bm c \<longleftrightarrow> in_ranges ranges cnt (ucast c)"
proof -
  have all: "snd (range_at ranges j) \<le> 127" if "j < cnt" for j
    using ascii_loop_small [OF assms [unfolded ranges_to_ascii_bitmap_def], of j] that by simp
  show ?thesis
  proof (cases "unat c < 128")
    case True
    have "ascii_bit (0, 0) (unat c) = False" by (simp add: ascii_bit_def)
    then show ?thesis
      using ascii_loop_bit [OF assms [unfolded ranges_to_ascii_bitmap_def] True] True
      by (auto simp: bitmap_test_bit in_ranges_def word_u8_u32_le word_u32_u8_le)
  next
    case False
    have "\<not> ucast c \<le> snd (range_at ranges j)" if "j < cnt" for j
      unfolding word_u32_u8_le [symmetric] using all [OF that] False by (simp add: word_le_nat_alt)
    then show ?thesis using False by (auto simp: bitmap_test_bit in_ranges_def)
  qed
qed

lemma full_bitmap_test:
  assumes "ranges_to_full_bitmap ranges cnt = Some bm"
  shows "bitmap_test_256 bm c \<longleftrightarrow> in_ranges ranges cnt (ucast c)"
proof -
  have "full_bit [0, 0, 0, 0] (unat c) = False"
    using unat_u8_less [of c] by (auto simp: full_bit_def nth_Cons less_mult_imp_div_less split: nat.splits)
  then show ?thesis
    using full_loop_bit [OF assms [unfolded ranges_to_full_bitmap_def], of "unat c"] unat_u8_less [of c]
    by (auto simp: bitmap_test_256_bit in_ranges_def word_u8_u32_le word_u32_u8_le)
qed

lemma range_contains_iff:
  "ranges_sorted ranges cnt \<Longrightarrow> range_contains ranges cnt cp \<longleftrightarrow> in_ranges ranges cnt cp"
  by (simp add: range_contains_def range_search_iff in_ranges_def)

section \<open>A class of one byte\<close>

lemma ctz_from_least:
  "\<exists>k. i \<le> k \<and> k < i + n \<and> bit v k \<Longrightarrow>
     bit v (ctz_from v i n) \<and> ctz_from v i n < i + n \<and> (\<forall>k. i \<le> k \<and> k < ctz_from v i n \<longrightarrow> \<not> bit v k)"
proof (induction v i n rule: ctz_from.induct)
  case (1 v i)
  then show ?case by auto
next
  case (2 v i n)
  show ?case
  proof (cases "bit v i")
    case True
    then show ?thesis by auto
  next
    case False
    then have "\<exists>k. i + 1 \<le> k \<and> k < i + 1 + n \<and> bit v k"
      using 2(2) unfolding ex_from_Suc by simp
    note ih = 2(1) [OF False this]
    have "\<not> bit v k" if "i \<le> k" "k < ctz_from v (i + 1) n" for k
      using False ih that by (cases "k = i") auto
    then show ?thesis using ih False by simp
  qed
qed

lemma snobol_ctz64_least:
  assumes "v \<noteq> 0"
  shows "bit v (snobol_ctz64 v)" "snobol_ctz64 v < 64" "k < snobol_ctz64 v \<Longrightarrow> \<not> bit v k"
proof -
  obtain m where "bit v m" using assms by (auto simp: bit_eq_iff)
  moreover from this have "m < 64" using bit_imp_le_length [of v m] by simp
  ultimately have "\<exists>k. 0 \<le> k \<and> k < 0 + 64 \<and> bit v k" by auto
  from ctz_from_least [OF this]
  show "bit v (snobol_ctz64 v)" "snobol_ctz64 v < 64" "k < snobol_ctz64 v \<Longrightarrow> \<not> bit v k"
    by (auto simp: snobol_ctz64_def)
qed

lemma pred_div: "(V :: nat) mod d \<noteq> 0 \<Longrightarrow> (V - 1) div d = V div d"
  by (cases V) (auto simp: div_Suc)

lemma bit_u64_odd: "bit (v :: u64) k \<longleftrightarrow> odd (unat v div 2 ^ k)"
  by (simp add: bit_iff_odd [symmetric] bit_unsigned_iff)

lemma odd_div_mod:
  assumes "odd ((V :: nat) div 2 ^ n)"
  shows "V mod 2 ^ Suc n \<noteq> 0"
proof
  assume "V mod 2 ^ Suc n = 0"
  then obtain q where "V = 2 ^ Suc n * q" by (metis mod_0_imp_dvd dvdE)
  then have "V div 2 ^ n = 2 * q" by simp
  then show False using assms by simp
qed

lemma one_bit_word:
  assumes "v \<noteq> 0" "v AND (v - 1) = (0 :: u64)"
  shows "bit v k \<longleftrightarrow> k = snobol_ctz64 v"
proof
  let ?n = "snobol_ctz64 v"
  note least = snobol_ctz64_least [OF assms(1)]
  show "k = ?n \<Longrightarrow> bit v k" using least(1) by simp
  assume k: "bit v k"
  have "\<not> ?n < k"
  proof
    assume gt: "?n < k"
    have "unat v mod 2 ^ Suc ?n \<noteq> 0"
      using least(1) by (intro odd_div_mod) (simp add: bit_u64_odd)
    then have same: "(unat v - 1) div 2 ^ Suc ?n = unat v div 2 ^ Suc ?n" by (rule pred_div)
    have "unat (v - 1) = unat v - 1"
      using assms(1) by (simp add: unat_minus_one)
    moreover obtain j where j: "k = Suc ?n + j" using gt less_imp_Suc_add by auto
    moreover have split: "x div 2 ^ k = x div 2 ^ Suc ?n div 2 ^ j" for x :: nat
      unfolding j power_add div_mult2_eq ..
    ultimately have "bit (v - 1) k" using k same by (simp only: bit_u64_odd split not_False_eq_True)
    then have "bit (v AND (v - 1)) k" using k by (simp add: bit_and_iff)
    then show False using assms(2) by simp
  qed
  then show "k = ?n" using least(3) k by (meson linorder_neqE_nat)
qed

lemma bitmap_single_byte:
  assumes "bitmap_single_ascii_byte bm = Some b"
  shows "bitmap_test bm c \<longleftrightarrow> c = b"
proof -
  obtain lo hi where bm: "bm = (lo, hi)" by (cases bm)
  have eq: "of_nat n = c \<longleftrightarrow> n = unat c" if "n < 128" for n
    using that by (auto simp: unat_of_nat take_bit_nat_eq_self)
  have "(hi = 0 \<and> lo \<noteq> 0 \<and> lo AND (lo - 1) = 0 \<and> b = of_nat (snobol_ctz64 lo)) \<or>
      (lo = 0 \<and> hi \<noteq> 0 \<and> hi AND (hi - 1) = 0 \<and> b = of_nat (64 + snobol_ctz64 hi))"
    using assms unfolding bm by (auto simp: bitmap_single_ascii_byte_def Let_def split: if_splits)
  then show ?thesis
  proof (elim disjE conjE)
    assume a: "hi = 0" "lo \<noteq> 0" "lo AND (lo - 1) = 0" "b = of_nat (snobol_ctz64 lo)"
    have n: "snobol_ctz64 lo < 64" using snobol_ctz64_least(2) [OF a(2)] .
    show ?thesis
      using eq [of "snobol_ctz64 lo"] n a(1,4) one_bit_word [OF a(2,3), of "unat c"]
      by (auto simp: bitmap_test_bit ascii_bit_def bm)
  next
    assume a: "lo = 0" "hi \<noteq> 0" "hi AND (hi - 1) = 0" "b = of_nat (64 + snobol_ctz64 hi)"
    have n: "snobol_ctz64 hi < 64" using snobol_ctz64_least(2) [OF a(2)] .
    show ?thesis
      using eq [of "64 + snobol_ctz64 hi"] n a(1,4) one_bit_word [OF a(2,3), of "unat c - 64"]
      by (auto simp: bitmap_test_bit ascii_bit_def bm)
  qed
qed

section \<open>Properties\<close>

text \<open>
  C23: The membership tests agree: whenever the ASCII bitmap or the byte bitmap of a class can be
  built it tests exactly membership in the ranges, a bitmap that is taken to be a single byte tests
  for that byte, and on sorted ranges the binary search finds exactly the members.
\<close>

theorem charclass_tests_agree:
  "(ranges_to_ascii_bitmap ranges cnt = Some bm \<longrightarrow>
      (\<forall>c. bitmap_test bm c \<longleftrightarrow> in_ranges ranges cnt (ucast c)) \<and>
      (\<forall>b c. bitmap_single_ascii_byte bm = Some b \<longrightarrow> (bitmap_test bm c \<longleftrightarrow> c = b))) \<and>
   (ranges_to_full_bitmap ranges cnt = Some ms \<longrightarrow>
      (\<forall>c. bitmap_test_256 ms c \<longleftrightarrow> in_ranges ranges cnt (ucast c))) \<and>
   (ranges_sorted ranges cnt \<longrightarrow> (range_contains ranges cnt cp \<longleftrightarrow> in_ranges ranges cnt cp))"
  using ascii_bitmap_test full_bitmap_test range_contains_iff bitmap_single_byte by blast

theorem charclass_tests_agree_witness:
  "ranges_to_ascii_bitmap [0, 0, 0, 97, 0, 0, 0, 99] 1 = Some (0, 60129542144) \<and>
   bitmap_test (0, 60129542144) 98 \<and> \<not> bitmap_test (0, 60129542144) 100 \<and>
   range_contains [0, 0, 0, 97, 0, 0, 0, 99] 1 99"
proof -
  let ?r = "[0, 0, 0, 97, 0, 0, 0, 99] :: bytes"
  have bm: "ranges_to_ascii_bitmap ?r 1 = Some (0, 60129542144)" by code_simp
  have r0: "range_at ?r 0 = (97, 99)" by code_simp
  have sorted: "ranges_sorted ?r 1" by (simp add: ranges_sorted_def r0)
  have mem: "in_ranges ?r 1 cp \<longleftrightarrow> 97 \<le> cp \<and> cp \<le> 99" for cp by (simp add: in_ranges_def r0)
  show ?thesis
    using charclass_tests_agree [of ?r 1 "(0, 60129542144)" "[]" 99] bm sorted
    by (simp add: mem [unfolded One_nat_def])
qed

lemma parse_ranges_ptr_le:
  "parse_ranges_ptr bc set_id = Some r \<Longrightarrow> \<exists>cc_tail. charclass_tail bc = Some cc_tail \<and>
     4 \<le> cc_tail \<and> unat set_id \<le> unat (be32 bc (cc_tail - 4))"
  by (auto simp: parse_ranges_ptr_def Let_def split: if_splits option.splits)

text \<open>
  C24: The metadata cache is transparent: with the table built from the same bytecode, looking a
  class up gives exactly what parsing the trailer gives, for every class number.
\<close>

theorem range_meta_cache_transparent:
  "get_ranges_ptr bc (snobol_build_range_meta bc) set_id = get_ranges_ptr bc None set_id"
proof (cases "snobol_build_range_meta bc")
  case None
  then show ?thesis by simp
next
  case (Some entries)
  then obtain n where n: "entries = map (meta_entry bc) [1..<Suc n]" "n \<le> 65535"
    unfolding snobol_build_range_meta_def Let_def
    by (auto simp del: upt_Suc split: if_splits option.splits)
  show ?thesis
  proof (cases "set_id = 0 \<or> n < unat set_id")
    case True
    then show ?thesis using n Some by (auto simp: get_ranges_ptr_def simp del: upt_Suc)
  next
    case False
    then have pos: "0 < unat set_id" "unat set_id \<le> n" by (auto simp: unat_gt_0)
    then have entry: "entries ! (unat set_id - 1) = meta_entry bc (unat set_id)"
      using n by (simp del: upt_Suc)
    have id: "of_nat (unat set_id) = set_id" by simp
    show ?thesis
      using False pos n(1) Some entry
      by (auto simp del: upt_Suc simp: get_ranges_ptr_def meta_entry_def id split: option.splits prod.splits)
  qed
qed

end
