(* ===== verification/Vm_Match.thy ===== *)
theory Vm_Match
  imports Vm_Choice Vm_Charclass
begin

text \<open>
  The matching instructions of \<^verbatim>\<open>vm_run\<close> in \<^verbatim>\<open>core/src/vm_exec.c\<close>, one definition per handler. A
  handler starts with the instruction pointer just behind its opcode and ends in \<open>Go\<close> for the
  \<open>continue\<close> of the dispatch loop, \<open>Done\<close> for a return, or \<open>Fault\<close> for an access outside an array.
  The handlers are those of the build with computed gotos, where a bare \<open>break\<close> leaves the loop.
\<close>

section \<open>Leaving the loop and backtracking\<close>

text \<open>The cleanup that every exit of the loop does unless the choices are to be kept.\<close>

definition end_run :: "vm \<Rightarrow> vm" where
  "end_run v =
     (if keep_choices v then v
      else (let w = v\<lparr>choices_arena := None\<rparr>
            in if use_compact_choice w
               then vm_trail_free (w\<lparr>vm_write_log := vm_write_log_free (vm_write_log w)\<rparr>)
               else w))"

definition fail_ret :: "vm \<Rightarrow> outcome" where
  "fail_ret v = Done False (end_run v)"

text \<open>A failure that goes on with the latest choice, and one whose \<open>break\<close> leaves the loop.\<close>

definition backtrack :: "vm \<Rightarrow> outcome" where
  "backtrack v = (case vm_pop_choice v of Some w \<Rightarrow> Go w | None \<Rightarrow> fail_ret v)"

definition backtrack_break :: "vm \<Rightarrow> outcome" where
  "backtrack_break v = (case vm_pop_choice v of Some w \<Rightarrow> fail_ret w | None \<Rightarrow> fail_ret v)"

section \<open>Classes\<close>

text \<open>
  What \<open>get_ranges_ptr\<close> and \<open>ranges_to_ascii_bitmap\<close> make of an operand. Reading a class whose
  ranges run past the end of the bytecode is a fault.
\<close>

datatype char_class = No_Class | Ascii_Class "u64 \<times> u64" | Range_Class bytes nat | Truncated_Class

definition load_class :: "vm \<Rightarrow> u16 \<Rightarrow> char_class" where
  "load_class v set_id =
     (case get_ranges_ptr (vm_bc v) (vm_range_meta v) set_id of
        None \<Rightarrow> No_Class
      | Some (ranges, cnt, ci) \<Rightarrow>
          (if length ranges < 8 * unat cnt then Truncated_Class
           else case ranges_to_ascii_bitmap ranges (unat cnt) of
                  Some bm \<Rightarrow> Ascii_Class bm
                | None \<Rightarrow> Range_Class ranges (unat cnt)))"

definition operand_u8 :: "vm \<Rightarrow> u8 \<times> vm" where
  "operand_u8 v = (let (x, ip) = read_u8 (vm_bc v) (vm_ip v) in (x, v\<lparr>vm_ip := ip\<rparr>))"

definition operand_u16 :: "vm \<Rightarrow> u16 \<times> vm" where
  "operand_u16 v = (let (x, ip) = read_u16 (vm_bc v) (vm_ip v) in (x, v\<lparr>vm_ip := ip\<rparr>))"

definition operand_u32 :: "vm \<Rightarrow> u32 \<times> vm" where
  "operand_u32 v = (let (x, ip) = read_u32 (vm_bc v) (vm_ip v) in (x, v\<lparr>vm_ip := ip\<rparr>))"

lemma operand_simps:
  "operand_u8 v = (fst (read_u8 (vm_bc v) (vm_ip v)), v\<lparr>vm_ip := snd (read_u8 (vm_bc v) (vm_ip v))\<rparr>)"
  "operand_u16 v = (fst (read_u16 (vm_bc v) (vm_ip v)), v\<lparr>vm_ip := snd (read_u16 (vm_bc v) (vm_ip v))\<rparr>)"
  "operand_u32 v = (fst (read_u32 (vm_bc v) (vm_ip v)), v\<lparr>vm_ip := snd (read_u32 (vm_bc v) (vm_ip v))\<rparr>)"
  by (simp_all add: operand_u8_def operand_u16_def operand_u32_def case_prod_unfold Let_def)

definition move_to :: "vm \<Rightarrow> nat \<Rightarrow> vm" where
  "move_to v pos = v\<lparr>vm_pos := pos\<rparr>"

section \<open>Scanning loops\<close>

text \<open>The loop over bytes that satisfy a test, and the one over code points.\<close>

function scan_while :: "(u8 \<Rightarrow> bool) \<Rightarrow> bytes \<Rightarrow> nat \<Rightarrow> nat" where
  "scan_while P s pos = (if pos < length s \<and> P (s ! pos) then scan_while P s (pos + 1) else pos)"
  by pat_completeness auto
termination by (relation "measure (\<lambda>(P, s, pos). length s - pos)") auto

function scan_cps :: "(u32 \<Rightarrow> bool) \<Rightarrow> bytes \<Rightarrow> nat \<Rightarrow> nat" where
  "scan_cps P s pos =
     (case utf8_peek_next s pos of
        Some (cp, n) \<Rightarrow> (if P cp then scan_cps P s (pos + n) else pos)
      | None \<Rightarrow> pos)"
  by pat_completeness auto
termination
  by (relation "measure (\<lambda>(P, s, pos). length s - pos)") (auto dest: utf8_peek_next_bounds)

declare scan_while.simps [simp del] scan_cps.simps [simp del]

text \<open>\<open>memchr\<close> from a position, with the end of the subject when the byte does not occur.\<close>

definition find_byte :: "u8 \<Rightarrow> bytes \<Rightarrow> nat \<Rightarrow> nat" where
  "find_byte b s pos = scan_while (\<lambda>c. c \<noteq> b) s pos"

definition break_scan :: "char_class \<Rightarrow> bytes \<Rightarrow> nat \<Rightarrow> nat" where
  "break_scan cls s pos =
     (case cls of
        Ascii_Class bm \<Rightarrow>
          (case bitmap_single_ascii_byte bm of
             Some b \<Rightarrow> (if pos < length s then find_byte b s pos
                        else scan_while (\<lambda>c. \<not> bitmap_test bm c) s pos)
           | None \<Rightarrow> scan_while (\<lambda>c. \<not> bitmap_test bm c) s pos)
      | Range_Class ranges cnt \<Rightarrow> scan_cps (\<lambda>cp. \<not> range_contains ranges cnt cp) s pos
      | _ \<Rightarrow> scan_cps (\<lambda>cp. True) s pos)"

fun len_loop :: "bytes \<Rightarrow> nat \<Rightarrow> nat \<Rightarrow> nat option" where
  "len_loop s pos 0 = Some pos"
| "len_loop s pos (Suc n) =
     (case utf8_peek_next s pos of Some (cp, k) \<Rightarrow> len_loop s (pos + k) n | None \<Rightarrow> None)"

definition is_continuation :: "u8 \<Rightarrow> bool" where
  "is_continuation b \<longleftrightarrow> b AND 0xC0 = 0x80"

text \<open>Walking \<open>n\<close> code points back from a position or forward from one, by the lead bytes.\<close>

fun skip_back :: "bytes \<Rightarrow> nat \<Rightarrow> nat" where
  "skip_back s 0 = 0"
| "skip_back s (Suc t) = (if is_continuation (s ! Suc t) then skip_back s t else Suc t)"

fun walk_back :: "bytes \<Rightarrow> nat \<Rightarrow> nat \<Rightarrow> nat" where
  "walk_back s t 0 = t"
| "walk_back s t (Suc n) = (if 0 < t then walk_back s (skip_back s (t - 1)) n else t)"

fun walk_fwd :: "bytes \<Rightarrow> nat \<Rightarrow> nat \<Rightarrow> nat" where
  "walk_fwd s t 0 = t"
| "walk_fwd s t (Suc n) =
     (if t < length s then walk_fwd s (scan_while is_continuation s (t + 1)) n else t)"

text \<open>The loop of BAL; a byte that does not decode ends it without success.\<close>

function bal_loop :: "bytes \<Rightarrow> u32 \<Rightarrow> u32 \<Rightarrow> nat \<Rightarrow> int \<Rightarrow> nat option" where
  "bal_loop s open_cp close_cp pos depth =
     (case utf8_peek_next s pos of
        None \<Rightarrow> None
      | Some (cp, n) \<Rightarrow>
          (if cp = open_cp then bal_loop s open_cp close_cp (pos + n) (depth + 1)
           else if cp = close_cp
           then if depth - 1 = 0 then Some (pos + n)
                else bal_loop s open_cp close_cp (pos + n) (depth - 1)
           else bal_loop s open_cp close_cp (pos + n) depth))"
  by pat_completeness auto
termination
  by (relation "measure (\<lambda>(s, oc, cc, pos, d). length s - pos)") (auto dest: utf8_peek_next_bounds)

declare bal_loop.simps [simp del]

section \<open>Control\<close>

definition op_nop :: "vm \<Rightarrow> outcome" where
  "op_nop v = Go v"

definition op_accept :: "vm \<Rightarrow> outcome" where
  "op_accept v = Done True (end_run v)"

definition op_fail :: "vm \<Rightarrow> outcome" where
  "op_fail v = backtrack v"

definition op_jmp :: "vm \<Rightarrow> outcome" where
  "op_jmp v = (let (tgt, v) = operand_u32 v in Go (v\<lparr>vm_ip := unat tgt\<rparr>))"

definition op_split :: "vm \<Rightarrow> outcome" where
  "op_split v =
     (let (a, v) = operand_u32 v; (b, v) = operand_u32 v; v = vm_push_choice v (unat b) (vm_pos v)
      in Go (v\<lparr>vm_ip := unat a\<rparr>))"

definition op_fence :: "vm \<Rightarrow> outcome" where
  "op_fence v = Go (v\<lparr>choices_arena := map_option vm_arena_reset (choices_arena v), choices_top := 0\<rparr>)"

definition op_abort :: "vm \<Rightarrow> outcome" where
  "op_abort v =
     Done False (end_run (v\<lparr>abort_flag := True,
       choices_arena := map_option vm_arena_reset (choices_arena v), choices_top := 0\<rparr>))"

definition op_succeed :: "vm \<Rightarrow> outcome" where
  "op_succeed v = Done True (end_run v)"

section \<open>Literals and classes\<close>

text \<open>
  The literal's bytes follow the operands when the offset is the position behind them. The
  comparison reads the bytecode at the offset, past its end when the operands are wrong.
\<close>

definition op_lit :: "vm \<Rightarrow> outcome" where
  "op_lit v =
     (let (off, v) = operand_u32 v; (len, v) = operand_u32 v; off = unat off; len = unat len;
          v = (if off = vm_ip v then v\<lparr>vm_ip := vm_ip v + len\<rparr> else v)
      in if length (vm_s v) < vm_pos v then Fault
         else if len \<le> length (vm_s v) - vm_pos v
         then if length (vm_bc v) < off + len then Fault
              else if sub_list (vm_pos v) len (vm_s v) = sub_list off len (vm_bc v)
              then Go (move_to v (vm_pos v + len))
              else backtrack v
         else backtrack v)"

definition op_any :: "vm \<Rightarrow> outcome" where
  "op_any v =
     (let (set_id, v) = operand_u16 v
      in case load_class v set_id of
           Truncated_Class \<Rightarrow> Fault
         | Ascii_Class bm \<Rightarrow>
             (if vm_pos v < length (vm_s v) \<and> bitmap_test bm (vm_s v ! vm_pos v)
              then Go (move_to v (vm_pos v + 1)) else backtrack v)
         | Range_Class ranges cnt \<Rightarrow>
             (case utf8_peek_next (vm_s v) (vm_pos v) of
                None \<Rightarrow> backtrack v
              | Some (cp, n) \<Rightarrow>
                  (if range_contains ranges cnt cp then Go (move_to v (vm_pos v + n)) else backtrack v))
         | No_Class \<Rightarrow> backtrack v)"

definition op_notany :: "vm \<Rightarrow> outcome" where
  "op_notany v =
     (let (set_id, v) = operand_u16 v
      in case load_class v set_id of
           Truncated_Class \<Rightarrow> Fault
         | Ascii_Class bm \<Rightarrow>
             (if vm_pos v < length (vm_s v) \<and> \<not> bitmap_test bm (vm_s v ! vm_pos v)
              then Go (move_to v (vm_pos v + 1)) else backtrack v)
         | Range_Class ranges cnt \<Rightarrow>
             (case utf8_peek_next (vm_s v) (vm_pos v) of
                None \<Rightarrow> backtrack v
              | Some (cp, n) \<Rightarrow>
                  (if range_contains ranges cnt cp then backtrack v else Go (move_to v (vm_pos v + n))))
         | No_Class \<Rightarrow>
             (case utf8_peek_next (vm_s v) (vm_pos v) of
                None \<Rightarrow> backtrack v
              | Some (cp, n) \<Rightarrow> Go (move_to v (vm_pos v + n))))"

definition op_span :: "vm \<Rightarrow> outcome" where
  "op_span v =
     (let (set_id, v) = operand_u16 v
      in case load_class v set_id of
           Truncated_Class \<Rightarrow> Fault
         | Ascii_Class bm \<Rightarrow>
             (if vm_pos v < length (vm_s v) \<and> bitmap_test bm (vm_s v ! vm_pos v)
              then Go (move_to v (scan_while (bitmap_test bm) (vm_s v) (vm_pos v + 1)))
              else backtrack v)
         | Range_Class ranges cnt \<Rightarrow>
             (case utf8_peek_next (vm_s v) (vm_pos v) of
                None \<Rightarrow> backtrack v
              | Some (cp, n) \<Rightarrow>
                  (if range_contains ranges cnt cp
                   then Go (move_to v (scan_cps (range_contains ranges cnt) (vm_s v) (vm_pos v + n)))
                   else backtrack v))
         | No_Class \<Rightarrow> backtrack v)"

definition op_break :: "vm \<Rightarrow> outcome" where
  "op_break v =
     (let (set_id, v) = operand_u16 v; cls = load_class v set_id
      in if cls = Truncated_Class then Fault
         else Go (move_to v (break_scan cls (vm_s v) (vm_pos v))))"

text \<open>
  BREAKX also pushes a choice that runs the instruction again behind the break character; a byte
  that does not decode counts as one.
\<close>

definition op_breakx :: "vm \<Rightarrow> outcome" where
  "op_breakx v =
     (let breakx_ip = vm_ip v - 1; (set_id, v) = operand_u16 v; cls = load_class v set_id
      in if cls = Truncated_Class then Fault
         else (let v = move_to v (break_scan cls (vm_s v) (vm_pos v))
               in if vm_pos v < length (vm_s v)
                  then (let skip = (case utf8_peek_next (vm_s v) (vm_pos v) of
                                      Some (cp, n) \<Rightarrow> n | None \<Rightarrow> 1)
                        in Go (vm_push_choice v breakx_ip (vm_pos v + skip)))
                  else Go v))"

section \<open>Captures\<close>

text \<open>
  A write to a capture register or a variable: the trail record in the compact mode, the write, and
  how many registers are in use.
\<close>

definition write_cap_start :: "vm \<Rightarrow> nat \<Rightarrow> vm" where
  "write_cap_start v r =
     (let v = (if use_compact_choice v
               then vm_trail_cap_write v r 0 (cap_start v ! r) (cap_end v ! r) else v);
          v = v\<lparr>cap_start := (cap_start v)[r := vm_pos v]\<rparr>
      in if max_cap_used v \<le> r then v\<lparr>max_cap_used := r + 1\<rparr> else v)"

definition write_cap_end :: "vm \<Rightarrow> nat \<Rightarrow> vm" where
  "write_cap_end v r =
     (let v = (if use_compact_choice v
               then vm_trail_cap_write v r 1 (cap_start v ! r) (cap_end v ! r) else v);
          v = v\<lparr>cap_end := (cap_end v)[r := vm_pos v]\<rparr>
      in if max_cap_used v \<le> r then v\<lparr>max_cap_used := r + 1\<rparr> else v)"

definition write_var :: "vm \<Rightarrow> nat \<Rightarrow> nat \<Rightarrow> vm" where
  "write_var v var r =
     (let v = (if use_compact_choice v
               then vm_trail_var_write v var (var_start v ! var) (var_end v ! var) else v);
          v = (if var_count v \<le> var then v\<lparr>var_count := var + 1\<rparr> else v)
      in v\<lparr>var_start := (var_start v)[var := cap_start v ! r],
           var_end := (var_end v)[var := cap_end v ! r]\<rparr>)"

definition op_cap_start :: "vm \<Rightarrow> outcome" where
  "op_cap_start v =
     (let (r, v) = operand_u8 v; r = unat r
      in Go (if r < MAX_CAPS then write_cap_start v r else v))"

definition op_cap_end :: "vm \<Rightarrow> outcome" where
  "op_cap_end v =
     (let (r, v) = operand_u8 v; r = unat r
      in if r < MAX_CAPS
         then (let v = write_cap_end v r in Go (if r < MAX_VARS then write_var v r r else v))
         else Go v)"

definition op_assign :: "vm \<Rightarrow> outcome" where
  "op_assign v =
     (let (var, v) = operand_u16 v; (r, v) = operand_u8 v; var = unat var; r = unat r
      in Go (if var < MAX_VARS \<and> r < MAX_CAPS then write_var v var r else v))"

section \<open>Positions\<close>

definition op_len :: "vm \<Rightarrow> outcome" where
  "op_len v =
     (let (n, v) = operand_u32 v
      in case len_loop (vm_s v) (vm_pos v) (unat n) of
           None \<Rightarrow> backtrack v
         | Some p \<Rightarrow> Go (move_to v p))"

definition op_anchor :: "vm \<Rightarrow> outcome" where
  "op_anchor v =
     (let (type, v) = operand_u8 v
      in if (if type = 0 then vm_pos v = 0 else vm_pos v = length (vm_s v)) then Go v else backtrack v)"

definition op_rem :: "vm \<Rightarrow> outcome" where
  "op_rem v = Go (move_to v (length (vm_s v)))"

definition op_rpos :: "vm \<Rightarrow> outcome" where
  "op_rpos v =
     (let (n, v) = operand_u32 v; target = walk_back (vm_s v) (length (vm_s v)) (unat n)
      in if vm_pos v \<noteq> target then backtrack v else Go v)"

definition op_rtab :: "vm \<Rightarrow> outcome" where
  "op_rtab v =
     (let (n, v) = operand_u32 v; target = walk_back (vm_s v) (length (vm_s v)) (unat n)
      in if target < vm_pos v then backtrack v else Go (move_to v target))"

definition op_pos :: "vm \<Rightarrow> outcome" where
  "op_pos v =
     (let (n, v) = operand_u32 v; target = walk_fwd (vm_s v) 0 (unat n)
      in if vm_pos v \<noteq> target then backtrack v else Go v)"

definition op_tab :: "vm \<Rightarrow> outcome" where
  "op_tab v =
     (let (n, v) = operand_u32 v; target = walk_fwd (vm_s v) 0 (unat n)
      in if length (vm_s v) \<le> target \<and> 0 < n then backtrack v
         else if target < vm_pos v then backtrack v
         else Go (move_to v target))"

text \<open>The \<open>break\<close> behind the first failure of BAL leaves the dispatch loop.\<close>

definition op_bal :: "vm \<Rightarrow> outcome" where
  "op_bal v =
     (let (bal_open, v) = operand_u32 v; (bal_close, v) = operand_u32 v
      in case utf8_peek_next (vm_s v) (vm_pos v) of
           None \<Rightarrow> backtrack_break v
         | Some (first, n) \<Rightarrow>
             (if first \<noteq> bal_open then backtrack_break v
              else case bal_loop (vm_s v) bal_open bal_close (vm_pos v) 0 of
                     None \<Rightarrow> backtrack v
                   | Some p \<Rightarrow> Go (move_to v p)))"

section \<open>Repetition\<close>

definition op_repeat_init :: "vm \<Rightarrow> outcome" where
  "op_repeat_init v =
     (let (loop_id, v) = operand_u8 v; (lo, v) = operand_u32 v; (hi, v) = operand_u32 v;
          (skip, v) = operand_u32 v; l = unat loop_id
      in if l < MAX_LOOPS
         then (let v = v\<lparr>counters := (counters v)[l := 0], loop_min := (loop_min v)[l := lo],
                         loop_max := (loop_max v)[l := hi],
                         loop_last_pos := (loop_last_pos v)[l := vm_pos v]\<rparr>;
                   v = (if max_counter_used v < l + 1 then v\<lparr>max_counter_used := l + 1\<rparr> else v)
               in Go (if lo = 0 then vm_push_choice v (unat skip) (vm_pos v) else v))
         else Go v)"

definition UNBOUNDED :: u32 where
  "UNBOUNDED = - 1"

text \<open>Adding a value cast to \<open>int32_t\<close> to a \<open>size_t\<close>.\<close>

definition add_int32 :: "nat \<Rightarrow> nat \<Rightarrow> nat" where
  "add_int32 pos extra = nat ((int pos + sint (of_nat extra :: u32)) mod 2 ^ 64)"

definition sub_size :: "nat \<Rightarrow> nat \<Rightarrow> nat" where
  "sub_size a b = nat ((int a - int b) mod 2 ^ 64)"

text \<open>
  The commitment to the maximal run: \<open>None\<close> when the class is truncated. The machine is unchanged
  when the class is missing, empty or not within one byte.
\<close>

definition greedy_commit :: "vm \<Rightarrow> nat \<Rightarrow> nat \<Rightarrow> vm option" where
  "greedy_commit v l target =
     (case get_ranges_ptr (vm_bc v) (vm_range_meta v) (fst (read_u16 (vm_bc v) (target + 1))) of
        None \<Rightarrow> Some v
      | Some (rng, cnt, ci) \<Rightarrow>
          (if cnt = 0 then Some v
           else if length rng < 8 * unat cnt then None
           else case ranges_to_full_bitmap rng (unat cnt) of
                  None \<Rightarrow> Some v
                | Some bmap \<Rightarrow>
                    (let prior_count = counters v ! l; prior_last_pos = loop_last_pos v ! l;
                         run_end = scan_while (bitmap_test_256 bmap) (vm_s v) (vm_pos v);
                         extra = run_end - vm_pos v;
                         v = v\<lparr>vm_pos := add_int32 (vm_pos v) extra,
                               counters := (counters v)[l := prior_count + (1 + of_nat extra)]\<rparr>
                     in Some (if use_compact_choice v
                              then vm_trail_counter_inc v l prior_count prior_last_pos else v))))"

definition repeat_greedy :: "vm \<Rightarrow> nat \<Rightarrow> nat \<Rightarrow> nat \<Rightarrow> outcome" where
  "repeat_greedy v l target step_ip =
     (case greedy_commit v l target of
        None \<Rightarrow> Fault
      | Some v \<Rightarrow>
          (let v = (if loop_last_pos v ! l < vm_pos v
                    then vm_push_choice v (sub_size step_ip 6) (vm_pos v - 1) else v)
           in Go (v\<lparr>loop_last_pos := (loop_last_pos v)[l := vm_pos v]\<rparr>)))"

definition repeat_again :: "vm \<Rightarrow> nat \<Rightarrow> nat \<Rightarrow> vm" where
  "repeat_again v l target =
     v\<lparr>loop_last_pos := (loop_last_pos v)[l := vm_pos v], vm_ip := target\<rparr>"

definition repeat_normal :: "vm \<Rightarrow> nat \<Rightarrow> nat \<Rightarrow> outcome" where
  "repeat_normal v l target =
     (let prior_count = counters v ! l; prior_last_pos = loop_last_pos v ! l;
          v = v\<lparr>counters := (counters v)[l := prior_count + 1]\<rparr>; cnt = counters v ! l;
          v = (if use_compact_choice v then vm_trail_counter_inc v l prior_count prior_last_pos else v)
      in if cnt < loop_min v ! l then Go (repeat_again v l target)
         else if loop_max v ! l = UNBOUNDED \<or> cnt < loop_max v ! l
         then if loop_max v ! l = UNBOUNDED \<and> vm_pos v = loop_last_pos v ! l then Go v
              else if loop_max v ! l = UNBOUNDED \<and> length (vm_s v) + 1 < unat cnt then Go v
              else Go (repeat_again (vm_push_choice v (vm_ip v) (vm_pos v)) l target)
         else Go v)"

definition OP_SPAN :: u8 where
  "OP_SPAN = 7"

definition op_repeat_step :: "vm \<Rightarrow> outcome" where
  "op_repeat_step v =
     (let (loop_id, v) = operand_u8 v; (target, v) = operand_u32 v; step_ip = vm_ip v;
          l = unat loop_id; target = unat target
      in if MAX_LOOPS \<le> l then Go v
         else if loop_max v ! l = UNBOUNDED \<and> length (vm_bc v) \<le> target then Fault
         else (let v = (if loop_max v ! l = UNBOUNDED \<and> vm_bc v ! target = OP_SPAN \<and>
                           \<not> loop_span_greedy v ! l
                        then v\<lparr>loop_span_greedy := (loop_span_greedy v)[l := True]\<rparr> else v)
               in if loop_span_greedy v ! l then repeat_greedy v l target step_ip
                  else repeat_normal v l target))"

end
