(* ===== verification/Unicode_Fold.thy ===== *)
theory Unicode_Fold
  imports Fold_Data
begin

text \<open>
  Case conversion of code points, core/src/unicode_fold.c: the ASCII arithmetic, the Latin-1
  tables, the multi-character expansions and the binary search in the generated tables.
\<close>

section \<open>The binary searches\<close>

text \<open>
  The loop that \<open>bmp_find_upper\<close> and \<open>bmp_find_lower\<close> share: \<open>tab\<close> is the table, and a miss gives the
  code point back.
\<close>

function bmp_search :: "(u32 \<times> u32) list \<Rightarrow> u32 \<Rightarrow> nat \<Rightarrow> nat \<Rightarrow> u32" where
  "bmp_search tab cp lo hi =
    (if lo < hi then
       let mid = lo + (hi - lo) div 2 in
       if fst (tab ! mid) = cp then snd (tab ! mid)
       else if fst (tab ! mid) < cp then bmp_search tab cp (mid + 1) hi
       else bmp_search tab cp lo mid
     else cp)"
  by pat_completeness auto
termination
  by (relation "measure (\<lambda>(tab, cp, lo, hi). hi - lo)") auto

declare bmp_search.simps [simp del]

definition bmp_find_upper :: "u32 \<Rightarrow> u32" where
  "bmp_find_upper lower_cp = bmp_search BMP_LOWER_TO_UPPER lower_cp 0 (length BMP_LOWER_TO_UPPER)"

definition bmp_find_lower :: "u32 \<Rightarrow> u32" where
  "bmp_find_lower upper_cp = bmp_search BMP_UPPER_TO_LOWER upper_cp 0 (length BMP_UPPER_TO_LOWER)"

section \<open>The public functions\<close>

text \<open>\<open>find\<close> is the loop over the expansions, which returns at the first entry for \<open>cp\<close>.\<close>

definition snobol_to_upper_cp :: "u32 \<Rightarrow> u32 list" where
  "snobol_to_upper_cp cp =
    (if cp < 0x80 then [if 0x61 \<le> cp \<and> cp \<le> 0x7A then cp - 32 else cp]
     else case find (\<lambda>e. fst e = cp) MULTI_CHAR_EXPANSIONS of
       Some (_, u0, u1, n) \<Rightarrow> take n [u0, u1]
     | None \<Rightarrow>
         if cp \<le> 0xFF then [UPPER_MAP ! unat cp]
         else [bmp_find_upper cp])"

definition snobol_to_lower_cp :: "u32 \<Rightarrow> u32" where
  "snobol_to_lower_cp cp =
    (if cp < 0x80 then (if 0x41 \<le> cp \<and> cp \<le> 0x5A then cp + 32 else cp)
     else if cp \<le> 0xFF then LOWER_MAP ! unat cp
     else bmp_find_lower cp)"

section \<open>The binary search finds an entry whenever there is one\<close>

lemma bmp_search_correct:
  assumes "sorted (map fst tab)" and "hi \<le> length tab"
    and "\<And>i. i < lo \<Longrightarrow> i < length tab \<Longrightarrow> fst (tab ! i) < cp"
    and "\<And>i. hi \<le> i \<Longrightarrow> i < length tab \<Longrightarrow> cp < fst (tab ! i)"
  shows "(cp \<in> fst ` set tab \<longrightarrow> (cp, bmp_search tab cp lo hi) \<in> set tab) \<and>
         (cp \<notin> fst ` set tab \<longrightarrow> bmp_search tab cp lo hi = cp)"
  using assms
proof (induction tab cp lo hi rule: bmp_search.induct)
  case (1 tab cp lo hi)
  have mono: "fst (tab ! i) \<le> fst (tab ! j)" if "i \<le> j" "j < length tab" for i j
    using sorted_nth_mono [OF "1.prems"(1), of i j] that by simp
  let ?mid = "lo + (hi - lo) div 2"
  show ?case
  proof (cases "lo < hi")
    case False
    have "fst (tab ! i) \<noteq> cp" if "i < length tab" for i
      using False that "1.prems"(3) [of i] "1.prems"(4) [of i] by (cases "i < lo") auto
    then have "cp \<notin> fst ` set tab"
      by (metis imageE in_set_conv_nth)
    with False show ?thesis by (simp add: bmp_search.simps [of tab cp lo hi])
  next
    case True
    then have mid: "lo \<le> ?mid" "?mid < hi" by auto
    with "1.prems"(2) have midl: "?mid < length tab" by linarith
    consider (eq) "fst (tab ! ?mid) = cp" | (lt) "fst (tab ! ?mid) < cp"
      | (gt) "cp < fst (tab ! ?mid)" by (meson linorder_less_linear)
    then show ?thesis
    proof cases
      case eq
      with midl have "(cp, snd (tab ! ?mid)) \<in> set tab"
        by (metis nth_mem prod.collapse)
      with eq True show ?thesis
        by (auto simp: bmp_search.simps [of tab cp lo hi] Let_def intro: rev_image_eqI)
    next
      case lt
      have "fst (tab ! i) < cp" if "i < ?mid + 1" "i < length tab" for i
        using mono [of i ?mid] that lt midl by (auto intro: order_le_less_trans)
      moreover have ne: "fst (tab ! ?mid) \<noteq> cp" using lt by auto
      ultimately show ?thesis
        using "1.IH"(1) [OF True refl ne lt] "1.prems" lt True
        by (simp add: bmp_search.simps [of tab cp lo hi] Let_def)
    next
      case gt
      have "cp < fst (tab ! i)" if "?mid \<le> i" "i < length tab" for i
        using mono [of ?mid i] that gt by (auto intro: order_less_le_trans)
      moreover have ne: "fst (tab ! ?mid) \<noteq> cp" and nl: "\<not> fst (tab ! ?mid) < cp" using gt by auto
      moreover have "?mid \<le> length tab" using midl by simp
      ultimately show ?thesis
        using "1.IH"(2) [OF True refl ne nl] "1.prems" True
        by (simp add: bmp_search.simps [of tab cp lo hi] Let_def)
    qed
  qed
qed

lemma bmp_search_all:
  assumes "sorted (map fst tab)"
  shows "if cp \<in> fst ` set tab then (cp, bmp_search tab cp 0 (length tab)) \<in> set tab
         else bmp_search tab cp 0 (length tab) = cp"
  using bmp_search_correct [OF assms, where lo = 0 and cp = cp and hi = "length tab"] by simp

text \<open>
  The case lookups never miss: a code point that has an entry in the table is mapped to the
  value of one of its entries, and any other code point is left alone.
\<close>

theorem bmp_find_complete:
  "(if cp \<in> fst ` set BMP_LOWER_TO_UPPER then (cp, bmp_find_upper cp) \<in> set BMP_LOWER_TO_UPPER
      else bmp_find_upper cp = cp) \<and>
   (if cp \<in> fst ` set BMP_UPPER_TO_LOWER then (cp, bmp_find_lower cp) \<in> set BMP_UPPER_TO_LOWER
      else bmp_find_lower cp = cp)"
  unfolding bmp_find_upper_def bmp_find_lower_def
  using bmp_search_all [OF sorted_BMP_LOWER_TO_UPPER] bmp_search_all [OF sorted_BMP_UPPER_TO_LOWER]
  by blast

lemma set_BMP_LOWER_TO_UPPER:
  "set BMP_LOWER_TO_UPPER =
     set BMP_LOWER_TO_UPPER_a \<union> set BMP_LOWER_TO_UPPER_b \<union> set BMP_LOWER_TO_UPPER_c"
  by (auto simp: BMP_LOWER_TO_UPPER_def)


end
