(* ===== verification/String_Fn.thy ===== *)
theory String_Fn
  imports Utf8 Buffer Unicode_Fold
begin

text \<open>
  The built-in string functions of core/src/string_fn.c. A string argument is the byte list of
  the pointer and its length, \<open>None\<close> for a null pointer; the output buffer is \<open>None\<close> for a null
  pointer. A function returns the C result and the buffer afterwards.
\<close>

section \<open>SIZE\<close>

text \<open>\<open>int cl = utf8_cp_len(...); if (cl <= 0) cl = 1;\<close>, which every scan of the file does.\<close>

definition cp_advance :: "bytes \<Rightarrow> nat \<Rightarrow> nat" where
  "cp_advance s pos = (let cl = utf8_cp_len s pos in if cl = 0 then 1 else cl)"

lemma cp_advance_pos [simp]: "0 < cp_advance s pos"
  by (simp add: cp_advance_def Let_def)

function size_loop :: "bytes \<Rightarrow> nat \<Rightarrow> nat \<Rightarrow> nat" where
  "size_loop s i count =
    (if i < length s then size_loop s (i + cp_advance s i) (count + 1) else count)"
  by pat_completeness auto
termination
  by (relation "measure (\<lambda>(s, i, count). length s - i)") (auto simp: diff_less_mono2)

declare size_loop.simps [simp del]

definition snobol_size :: "bytes option \<Rightarrow> nat" where
  "snobol_size str =
    (case str of None \<Rightarrow> 0
     | Some s \<Rightarrow> if str_is_ascii s then length s else size_loop s 0 0)"

section \<open>TRIM and DUPL\<close>

fun trim_end :: "bytes \<Rightarrow> nat \<Rightarrow> nat" where
  "trim_end s 0 = 0"
| "trim_end s (Suc e) =
    (let c = s ! e in
     if c = 0x20 \<or> c = 0x09 \<or> c = 0x0D \<or> c = 0x0A then trim_end s e else Suc e)"

definition snobol_trim :: "bytes option \<Rightarrow> snobol_buf option \<Rightarrow> bool \<times> snobol_buf option" where
  "snobol_trim inp out =
    (case (inp, out) of
       (Some s, Some b) \<Rightarrow>
         (True, Some (snobol_buf_append (snobol_buf_clear b) (take (trim_end s (length s)) s)))
     | _ \<Rightarrow> (False, out))"

fun dupl_loop :: "bytes \<Rightarrow> nat \<Rightarrow> snobol_buf \<Rightarrow> snobol_buf" where
  "dupl_loop s 0 b = b"
| "dupl_loop s (Suc n) b = dupl_loop s n (snobol_buf_append b s)"

definition snobol_dupl ::
    "bytes option \<Rightarrow> nat \<Rightarrow> snobol_buf option \<Rightarrow> bool \<times> snobol_buf option" where
  "snobol_dupl str n out =
    (case out of None \<Rightarrow> (False, None)
     | Some b \<Rightarrow>
        let b = snobol_buf_clear b in
        case str of None \<Rightarrow> (True, Some b)
        | Some s \<Rightarrow> if s = [] \<or> n = 0 then (True, Some b) else (True, Some (dupl_loop s n b)))"

section \<open>REVERSE\<close>

text \<open>Pass 1: the (start, end) pairs of the code points from \<open>pos\<close> on.\<close>

function cp_spans :: "bytes \<Rightarrow> nat \<Rightarrow> (nat \<times> nat) list" where
  "cp_spans s pos =
    (if pos < length s
     then (pos, pos + cp_advance s pos) # cp_spans s (pos + cp_advance s pos) else [])"
  by pat_completeness auto
termination
  by (relation "measure (\<lambda>(s, pos). length s - pos)") (auto simp: diff_less_mono2)

declare cp_spans.simps [simp del]

text \<open>Pass 2: append the spans from the last to the first.\<close>

fun append_spans :: "bytes \<Rightarrow> (nat \<times> nat) list \<Rightarrow> snobol_buf \<Rightarrow> snobol_buf" where
  "append_spans s [] b = b"
| "append_spans s ((i, j) # sp) b = append_spans s sp (snobol_buf_append b (sub_list i (j - i) s))"

definition snobol_reverse :: "bytes option \<Rightarrow> snobol_buf option \<Rightarrow> bool \<times> snobol_buf option" where
  "snobol_reverse str out =
    (case out of None \<Rightarrow> (False, None)
     | Some b \<Rightarrow>
        let b = snobol_buf_clear b in
        case str of None \<Rightarrow> (True, Some b)
        | Some s \<Rightarrow>
            if s = [] then (True, Some b)
            else if str_is_ascii s then (True, Some (snobol_buf_append b (rev s)))
            else (True, Some (append_spans s (rev (cp_spans s 0)) b)))"

section \<open>SUBSTR\<close>

text \<open>Both loops of SUBSTR: advance over at most \<open>n\<close> code points from byte \<open>p\<close>.\<close>

fun cp_walk :: "bytes \<Rightarrow> nat \<Rightarrow> nat \<Rightarrow> nat" where
  "cp_walk s 0 p = p"
| "cp_walk s (Suc n) p = (if p < length s then cp_walk s n (p + cp_advance s p) else p)"

definition snobol_substr ::
    "bytes option \<Rightarrow> nat \<Rightarrow> nat \<Rightarrow> snobol_buf option \<Rightarrow> bool \<times> snobol_buf option" where
  "snobol_substr str pos len out =
    (case out of None \<Rightarrow> (False, None)
     | Some b \<Rightarrow>
        let b = snobol_buf_clear b in
        case str of None \<Rightarrow> (False, Some b)
        | Some s \<Rightarrow>
            if pos = 0 then (False, Some b)
            else
              let byte_pos = cp_walk s (pos - 1) 0 in
              if length s \<le> byte_pos \<and> 1 < pos then (False, Some b)
              else
                let end_byte = cp_walk s len byte_pos
                in (True, Some (snobol_buf_append b (sub_list byte_pos (end_byte - byte_pos) s))))"

section \<open>REPLACE and REPLACE_CHAR\<close>

text \<open>The scan is entered with a nonempty \<open>frm\<close> only; the test makes the definition total.\<close>

function replace_loop :: "bytes \<Rightarrow> bytes \<Rightarrow> bytes \<Rightarrow> nat \<Rightarrow> snobol_buf \<Rightarrow> snobol_buf" where
  "replace_loop s frm to i b =
    (if i + length frm \<le> length s \<and> frm \<noteq> [] then
       if sub_list i (length frm) s = frm
       then replace_loop s frm to (i + length frm) (if to \<noteq> [] then snobol_buf_append b to else b)
       else replace_loop s frm to (i + 1) (snobol_buf_append b (sub_list i 1 s))
     else if i < length s then snobol_buf_append b (drop i s) else b)"
  by pat_completeness auto
termination
proof (relation "measure (\<lambda>(s, frm, to, i, b). length s - i)"; clarsimp)
  fix s frm :: bytes and i :: nat
  assume "i + length frm \<le> length s" "frm \<noteq> []"
  moreover from this have "0 < length frm" by simp
  ultimately show "length s - (i + length frm) < length s - i" by linarith
next
  fix s frm :: bytes and i :: nat
  assume "i + length frm \<le> length s" "frm \<noteq> []"
  moreover from this have "0 < length frm" by simp
  ultimately show "length s - Suc i < length s - i" by linarith
qed

declare replace_loop.simps [simp del]

definition snobol_replace ::
    "bytes option \<Rightarrow> bytes option \<Rightarrow> bytes option \<Rightarrow> snobol_buf option \<Rightarrow> bool \<times> snobol_buf option" where
  "snobol_replace str frm to out =
    (case out of None \<Rightarrow> (False, None)
     | Some b \<Rightarrow>
        let b = snobol_buf_clear b in
        case str of None \<Rightarrow> (True, Some b)
        | Some s \<Rightarrow>
            (case frm of
               None \<Rightarrow> (True, Some (snobol_buf_append b s))
             | Some f \<Rightarrow>
                 if f = [] then (True, Some (snobol_buf_append b s))
                 else (True, Some (replace_loop s f (case to of None \<Rightarrow> [] | Some t \<Rightarrow> t) 0 b))))"

text \<open>
  The translation table, one assignment after the other, so that a later pair wins. The lengths
  are arguments of their own: the number of pairs is their minimum even where a pointer is null.
\<close>

fun build_table :: "u8 list \<Rightarrow> (u8 \<times> u8) list \<Rightarrow> u8 list" where
  "build_table table [] = table"
| "build_table table ((f, t) # ps) = build_table (table[unat f := t]) ps"

definition identity_table :: "u8 list" where
  "identity_table = map word_of_nat [0..<256]"

definition snobol_replace_char ::
    "bytes option \<Rightarrow> bytes option \<Rightarrow> bytes option \<Rightarrow> nat \<Rightarrow> snobol_buf option
       \<Rightarrow> bool \<times> snobol_buf option" where
  "snobol_replace_char str frm to to_len out =
    (case out of None \<Rightarrow> (False, None)
     | Some b \<Rightarrow>
        let b = snobol_buf_clear b in
        case str of None \<Rightarrow> (True, Some b)
        | Some s \<Rightarrow>
            if s = [] then (True, Some b)
            else
              let table =
                (case frm of None \<Rightarrow> identity_table
                 | Some f \<Rightarrow>
                     let map_len = min (length f) to_len in
                     build_table identity_table
                       (case to of None \<Rightarrow> zip (take map_len f) (take map_len f)
                        | Some t \<Rightarrow> zip (take map_len f) (take map_len t)))
              in (True, Some (snobol_buf_append b (map (\<lambda>c. table ! unat c) s))))"

section \<open>LPAD and RPAD\<close>

fun pad_loop :: "bytes \<Rightarrow> nat \<Rightarrow> snobol_buf \<Rightarrow> snobol_buf" where
  "pad_loop p 0 b = b"
| "pad_loop p (Suc n) b = pad_loop p n (snobol_buf_append b p)"

definition snobol_lpad ::
    "bytes option \<Rightarrow> nat \<Rightarrow> u32 \<Rightarrow> snobol_buf option \<Rightarrow> bool \<times> snobol_buf option" where
  "snobol_lpad str width pad_cp out =
    (case out of None \<Rightarrow> (False, None)
     | Some b \<Rightarrow>
        let s = (case str of None \<Rightarrow> [] | Some s \<Rightarrow> s);
            cur_width = snobol_size (Some s);
            b = snobol_buf_clear b
        in
        if width \<le> cur_width then (True, Some (snobol_buf_append b s))
        else
          let pad = encode_utf8 pad_cp in
          if pad = [] then (False, Some b)
          else (True, Some (snobol_buf_append (pad_loop pad (width - cur_width) b) s)))"

definition snobol_rpad ::
    "bytes option \<Rightarrow> nat \<Rightarrow> u32 \<Rightarrow> snobol_buf option \<Rightarrow> bool \<times> snobol_buf option" where
  "snobol_rpad str width pad_cp out =
    (case out of None \<Rightarrow> (False, None)
     | Some b \<Rightarrow>
        let s = (case str of None \<Rightarrow> [] | Some s \<Rightarrow> s);
            cur_width = snobol_size (Some s);
            b = snobol_buf_append (snobol_buf_clear b) s
        in
        if width \<le> cur_width then (True, Some b)
        else
          let pad = encode_utf8 pad_cp in
          if pad = [] then (False, Some b)
          else (True, Some (pad_loop pad (width - cur_width) b)))"

section \<open>CHAR and ORD\<close>

definition snobol_char_fn :: "u32 \<Rightarrow> snobol_buf option \<Rightarrow> bool \<times> snobol_buf option" where
  "snobol_char_fn cp out =
    (case out of None \<Rightarrow> (False, None)
     | Some b \<Rightarrow>
        if cp > 0x10FFFF then (False, Some b)
        else if cp \<ge> 0xD800 \<and> cp \<le> 0xDFFF then (False, Some b)
        else
          let buf = encode_utf8 cp in
          if buf = [] then (False, Some b)
          else (True, Some (snobol_buf_append (snobol_buf_clear b) buf)))"

text \<open>The value stored in \<open>out_cp\<close>, \<open>None\<close> where the function returns false without storing.\<close>

definition snobol_ord :: "bytes option \<Rightarrow> u32 option" where
  "snobol_ord str =
    (case str of None \<Rightarrow> None
     | Some [] \<Rightarrow> None
     | Some s \<Rightarrow>
        let c = s ! 0 in
        if c < 0x80 then Some (ucast c)
        else if c AND 0xE0 = 0xC0 then
          (if length s < 2 then None
           else Some (push_bit 6 (ucast (c AND 0x1F)) OR ucast (s ! 1 AND 0x3F)))
        else if c AND 0xF0 = 0xE0 then
          (if length s < 3 then None
           else Some (push_bit 12 (ucast (c AND 0x0F)) OR push_bit 6 (ucast (s ! 1 AND 0x3F))
                        OR ucast (s ! 2 AND 0x3F)))
        else if c AND 0xF8 = 0xF0 then
          (if length s < 4 then None
           else Some (push_bit 18 (ucast (c AND 0x07)) OR push_bit 12 (ucast (s ! 1 AND 0x3F))
                        OR push_bit 6 (ucast (s ! 2 AND 0x3F)) OR ucast (s ! 3 AND 0x3F)))
        else None)"

section \<open>UPPER and LOWER\<close>

text \<open>The inner loop: append every code point of the expansion that can be encoded.\<close>

fun append_cps :: "u32 list \<Rightarrow> snobol_buf \<Rightarrow> snobol_buf" where
  "append_cps [] b = b"
| "append_cps (cp # cps) b =
    append_cps cps (let u = encode_utf8 cp in if u \<noteq> [] then snobol_buf_append b u else b)"

function upper_loop :: "bytes \<Rightarrow> nat \<Rightarrow> snobol_buf \<Rightarrow> snobol_buf" where
  "upper_loop s pos b =
    (if pos < length s then
       case utf8_peek_next s pos of
         None \<Rightarrow> upper_loop s (pos + 1) (snobol_buf_append b (sub_list pos 1 s))
       | Some (cp, n) \<Rightarrow> upper_loop s (pos + n) (append_cps (snobol_to_upper_cp cp) b)
     else b)"
  by pat_completeness auto
termination
  by (relation "measure (\<lambda>(s, pos, b). length s - pos)")
    (auto dest!: utf8_peek_next_pos simp: diff_less_mono2)

function lower_loop :: "bytes \<Rightarrow> nat \<Rightarrow> snobol_buf \<Rightarrow> snobol_buf" where
  "lower_loop s pos b =
    (if pos < length s then
       case utf8_peek_next s pos of
         None \<Rightarrow> lower_loop s (pos + 1) (snobol_buf_append b (sub_list pos 1 s))
       | Some (cp, n) \<Rightarrow>
           lower_loop s (pos + n)
             (let u = encode_utf8 (snobol_to_lower_cp cp) in
              if u \<noteq> [] then snobol_buf_append b u else b)
     else b)"
  by pat_completeness auto
termination
  by (relation "measure (\<lambda>(s, pos, b). length s - pos)")
    (auto dest!: utf8_peek_next_pos simp: diff_less_mono2)

declare upper_loop.simps [simp del] lower_loop.simps [simp del]

definition snobol_upper :: "bytes option \<Rightarrow> snobol_buf option \<Rightarrow> bool \<times> snobol_buf option" where
  "snobol_upper str out =
    (case out of None \<Rightarrow> (False, None)
     | Some b \<Rightarrow>
        let b = snobol_buf_clear b in
        case str of None \<Rightarrow> (True, Some b)
        | Some s \<Rightarrow> if s = [] then (True, Some b) else (True, Some (upper_loop s 0 b)))"

definition snobol_lower :: "bytes option \<Rightarrow> snobol_buf option \<Rightarrow> bool \<times> snobol_buf option" where
  "snobol_lower str out =
    (case out of None \<Rightarrow> (False, None)
     | Some b \<Rightarrow>
        let b = snobol_buf_clear b in
        case str of None \<Rightarrow> (True, Some b)
        | Some s \<Rightarrow> if s = [] then (True, Some b) else (True, Some (lower_loop s 0 b)))"

end
