(* ===== verification/Type_Fn.thy ===== *)
theory Type_Fn
  imports Prelude
begin

text \<open>
  The comparison and type predicates of core/src/type_fn.c on byte strings. The numeric
  comparisons EQ, NE, LT, GT, LE, GE convert with the C library's \<open>strtod\<close> and compare
  doubles; they are not modelled.
\<close>

section \<open>Comparison\<close>

text \<open>\<open>memcmp\<close> of two blocks of the same length: the sign of the first difference.\<close>

fun memcmp :: "bytes \<Rightarrow> bytes \<Rightarrow> int" where
  "memcmp (x # xs) (y # ys) = (if x = y then memcmp xs ys else if x < y then -1 else 1)"
| "memcmp _ _ = 0"

definition snobol_lexcmp :: "bytes \<Rightarrow> bytes \<Rightarrow> int" where
  "snobol_lexcmp a b =
    (let min_len = min (length a) (length b);
         r = (if 0 < min_len then memcmp (take min_len a) (take min_len b) else 0)
     in if r \<noteq> 0 then r
        else if length a < length b then -1
        else if length b < length a then 1
        else 0)"

definition snobol_ident :: "bytes \<Rightarrow> bytes \<Rightarrow> bool" where
  "snobol_ident a b =
    (if length a \<noteq> length b then False else if length a = 0 then True else memcmp a b = 0)"

definition snobol_differ :: "bytes \<Rightarrow> bytes \<Rightarrow> bool" where
  "snobol_differ a b = (\<not> snobol_ident a b)"

definition snobol_lexeq :: "bytes \<Rightarrow> bytes \<Rightarrow> bool" where
  "snobol_lexeq a b = (snobol_lexcmp a b = 0)"

definition snobol_lexlt :: "bytes \<Rightarrow> bytes \<Rightarrow> bool" where
  "snobol_lexlt a b = (snobol_lexcmp a b < 0)"

definition snobol_lexgt :: "bytes \<Rightarrow> bytes \<Rightarrow> bool" where
  "snobol_lexgt a b = (0 < snobol_lexcmp a b)"

section \<open>Type predicates\<close>

definition is_digit :: "u8 \<Rightarrow> bool" where
  "is_digit c \<longleftrightarrow> 0x30 \<le> c \<and> c \<le> 0x39"

definition is_sign :: "u8 \<Rightarrow> bool" where
  "is_sign c \<longleftrightarrow> c = 0x2B \<or> c = 0x2D"

text \<open>\<open>while (i < len && str[i] >= '0' && str[i] <= '9') i++\<close>\<close>

function scan_digits :: "bytes \<Rightarrow> nat \<Rightarrow> nat" where
  "scan_digits s i = (if i < length s \<and> is_digit (s ! i) then scan_digits s (i + 1) else i)"
  by pat_completeness auto
termination
  by (relation "measure (\<lambda>(s, i). length s - i)") auto

declare scan_digits.simps [simp del]

definition snobol_integer :: "bytes option \<Rightarrow> bool" where
  "snobol_integer str =
    (case str of None \<Rightarrow> False
     | Some s \<Rightarrow>
        if s = [] then False
        else
          let digit_start = (if is_sign (s ! 0) then 1 else 0) in
          if length s \<le> digit_start then False
          else
            let i = scan_digits s digit_start
            in i = length s \<and> digit_start < i)"

definition snobol_real :: "bytes option \<Rightarrow> bool" where
  "snobol_real str =
    (case str of None \<Rightarrow> False
     | Some s \<Rightarrow>
        if s = [] then False
        else
          let i = (if is_sign (s ! 0) then 1 else 0) in
          if length s \<le> i \<or> \<not> is_digit (s ! i) then False
          else
            let i = scan_digits s i;
                i = (if i < length s \<and> s ! i = 0x2E then scan_digits s (i + 1) else i)
            in
            if i < length s \<and> (s ! i = 0x65 \<or> s ! i = 0x45) then
              let i = i + 1;
                  i = (if i < length s \<and> is_sign (s ! i) then i + 1 else i)
              in
              if length s \<le> i \<or> \<not> is_digit (s ! i) then False
              else scan_digits s i = length s
            else i = length s)"

definition snobol_numeric :: "bytes option \<Rightarrow> bool" where
  "snobol_numeric str = (snobol_integer str \<or> snobol_real str)"

section \<open>The comparisons are the lexicographic order on bytes\<close>

lemma memcmp_values: "memcmp a b \<in> {-1, 0, 1}"
  by (induction a b rule: memcmp.induct) auto

lemma memcmp_0: "length a = length b \<Longrightarrow> memcmp a b = 0 \<longleftrightarrow> a = b"
  by (induction a b rule: list_induct2) auto

lemma memcmp_take: "memcmp (take (min (length a) (length b)) a) (take (min (length a) (length b)) b) = memcmp a b"
  by (induction a b rule: memcmp.induct) auto

lemma snobol_lexcmp_memcmp:
  "snobol_lexcmp a b =
     (if memcmp a b \<noteq> 0 then memcmp a b
      else if length a < length b then -1 else if length b < length a then 1 else 0)"
proof (cases "a = [] \<or> b = []")
  case True
  then show ?thesis by (cases a; cases b) (simp_all add: snobol_lexcmp_def)
next
  case False
  then show ?thesis by (simp only: snobol_lexcmp_def Let_def memcmp_take) simp
qed

lemma snobol_lexcmp_Nil [simp]:
  "snobol_lexcmp [] [] = 0" "snobol_lexcmp [] (y # ys) = -1" "snobol_lexcmp (x # xs) [] = 1"
  by (simp_all add: snobol_lexcmp_def)

lemma snobol_lexcmp_Cons [simp]:
  "snobol_lexcmp (x # xs) (y # ys) = (if x = y then snobol_lexcmp xs ys else if x < y then -1 else 1)"
  by (simp add: snobol_lexcmp_memcmp)

lemma snobol_lexcmp_less: "snobol_lexcmp a b < 0 \<longleftrightarrow> ord_class.lexordp a b"
proof (induction a arbitrary: b)
  case Nil
  then show ?case by (cases b) auto
next
  case (Cons x xs)
  then show ?case by (cases b) auto
qed

lemma snobol_lexcmp_swap: "snobol_lexcmp b a = - snobol_lexcmp a b"
proof (induction a arbitrary: b)
  case Nil
  then show ?case by (cases b) auto
next
  case (Cons x xs)
  then show ?case by (cases b) auto
qed

lemma snobol_lexcmp_0: "snobol_lexcmp a b = 0 \<longleftrightarrow> a = b"
proof (induction a arbitrary: b)
  case Nil
  then show ?case by (cases b) auto
next
  case (Cons x xs)
  then show ?case by (cases b) auto
qed

lemma snobol_ident_eq: "snobol_ident a b \<longleftrightarrow> a = b"
  by (auto simp: snobol_ident_def memcmp_0)

text \<open>
  LEXLT, LEXEQ and LEXGT are the strict lexicographic order on bytes, equality and the
  converse order, so exactly one of them holds; IDENT and DIFFER are equality and its negation.
\<close>

theorem comparison_is_lexicographic:
  "snobol_lexlt a b = ord_class.lexordp a b \<and> snobol_lexgt a b = ord_class.lexordp b a \<and>
   snobol_lexeq a b = (a = b) \<and> snobol_ident a b = (a = b) \<and> snobol_differ a b = (a \<noteq> b)"
  using snobol_lexcmp_swap [of b a]
  by (simp add: snobol_lexlt_def snobol_lexgt_def snobol_lexeq_def snobol_differ_def snobol_ident_eq
      snobol_lexcmp_0 flip: snobol_lexcmp_less)

section \<open>What the type predicates accept\<close>

text \<open>The digits from a position on, and what they leave.\<close>

lemma scan_digits_drop:
  "i \<le> length s \<Longrightarrow> i \<le> scan_digits s i \<and> scan_digits s i \<le> length s \<and>
     drop (scan_digits s i) s = dropWhile is_digit (drop i s)"
proof (induction s i rule: scan_digits.induct)
  case (1 s i)
  show ?case
  proof (cases "i < length s \<and> is_digit (s ! i)")
    case True
    then have "dropWhile is_digit (drop i s) = dropWhile is_digit (drop (i + 1) s)"
      by (metis Cons_nth_drop_Suc Suc_eq_plus1 dropWhile.simps(2))
    with True 1 show ?thesis by (subst (1 2 3) scan_digits.simps) auto
  next
    case False
    then have "dropWhile is_digit (drop i s) = drop i s"
      by (cases "i < length s") (auto simp: Cons_nth_drop_Suc [symmetric])
    with False "1.prems" show ?thesis by (subst (1 2 3) scan_digits.simps) auto
  qed
qed

text \<open>The grammars of the comments in the source, as list predicates.\<close>

definition digits1 :: "bytes \<Rightarrow> bool" where
  "digits1 ds \<longleftrightarrow> ds \<noteq> [] \<and> list_all is_digit ds"

definition opt_sign :: "bytes \<Rightarrow> bool" where
  "opt_sign sg \<longleftrightarrow> sg = [] \<or> (\<exists>c. sg = [c] \<and> is_sign c)"

text \<open>\<open>[+-]?\d+\<close> and \<open>[+-]?\d+(.\d*)?([eE][+-]?\d+)?\<close>\<close>

definition integer_lexeme :: "bytes \<Rightarrow> bool" where
  "integer_lexeme s \<longleftrightarrow> (\<exists>sg ds. s = sg @ ds \<and> opt_sign sg \<and> digits1 ds)"

definition real_lexeme :: "bytes \<Rightarrow> bool" where
  "real_lexeme s \<longleftrightarrow>
    (\<exists>sg ds fr ex. s = sg @ ds @ fr @ ex \<and> opt_sign sg \<and> digits1 ds \<and>
       (fr = [] \<or> (\<exists>fs. fr = 0x2E # fs \<and> list_all is_digit fs)) \<and>
       (ex = [] \<or> (\<exists>e sg' es. ex = e # sg' @ es \<and> (e = 0x65 \<or> e = 0x45) \<and> opt_sign sg' \<and> digits1 es)))"

text \<open>A list of digits followed by something that does not start with a digit.\<close>

lemma dropWhile_digits:
  "list_all is_digit ds \<Longrightarrow> (rest = [] \<or> \<not> is_digit (hd rest)) \<Longrightarrow> dropWhile is_digit (ds @ rest) = rest"
  by (induction ds) (auto simp: dropWhile_eq_self_iff)

lemma takeWhile_digits: "list_all is_digit (takeWhile is_digit xs)"
  by (induction xs) auto

lemma sign_not_digit: "is_sign c \<Longrightarrow> \<not> is_digit c"
  by (auto simp: is_sign_def is_digit_def)

lemma digits1_dropWhile:
  "digits1 xs \<longleftrightarrow> xs \<noteq> [] \<and> dropWhile is_digit xs = []"
  by (auto simp: digits1_def list_all_iff)

text \<open>The optional sign, as the code skips it.\<close>

definition skip_sign :: "bytes \<Rightarrow> bytes" where
  "skip_sign s = (case s of [] \<Rightarrow> [] | c # cs \<Rightarrow> if is_sign c then cs else s)"

lemma skip_sign_drop: "s \<noteq> [] \<Longrightarrow> drop (if is_sign (s ! 0) then 1 else 0) s = skip_sign s"
  by (cases s) (auto simp: skip_sign_def)

lemma skip_sign_split: "\<exists>sg. opt_sign sg \<and> s = sg @ skip_sign s"
  by (cases s) (auto simp: skip_sign_def opt_sign_def)

lemma skip_sign_digits: "opt_sign sg \<Longrightarrow> digits1 ds \<Longrightarrow> skip_sign (sg @ ds @ r) = ds @ r"
  by (cases ds) (auto simp: skip_sign_def opt_sign_def digits1_def dest: sign_not_digit)

lemma integer_lexeme_skip: "integer_lexeme s \<longleftrightarrow> digits1 (skip_sign s)"
proof
  assume "integer_lexeme s"
  then obtain sg ds where "s = sg @ ds" "opt_sign sg" "digits1 ds" by (auto simp: integer_lexeme_def)
  then show "digits1 (skip_sign s)" using skip_sign_digits [of sg ds "[]"] by simp
next
  assume "digits1 (skip_sign s)"
  with skip_sign_split [of s] show "integer_lexeme s" by (auto simp: integer_lexeme_def)
qed

lemma snobol_integer_spec: "snobol_integer (Some s) \<longleftrightarrow> integer_lexeme s"
proof (cases "s = []")
  case True
  then show ?thesis by (simp add: snobol_integer_def integer_lexeme_skip skip_sign_def digits1_def)
next
  case False
  let ?k = "if is_sign (s ! 0) then 1 else (0 :: nat)"
  have k: "?k \<le> length s" using False by (cases s) auto
  note d = scan_digits_drop [OF k]
  have "scan_digits s ?k = length s \<longleftrightarrow> dropWhile is_digit (skip_sign s) = []"
    using d skip_sign_drop [OF False] by (metis drop_eq_Nil le_antisym order_refl)
  moreover have "length s \<le> ?k \<longleftrightarrow> skip_sign s = []"
    using skip_sign_drop [OF False] by (metis drop_eq_Nil)
  ultimately show ?thesis
    using False by (auto simp: snobol_integer_def Let_def integer_lexeme_skip digits1_dropWhile)
qed

text \<open>The steps of REAL, on what is left of the string.\<close>

definition skip_fraction :: "bytes \<Rightarrow> bytes" where
  "skip_fraction t = (case t of c # t' \<Rightarrow> if c = 0x2E then dropWhile is_digit t' else t | [] \<Rightarrow> [])"

definition real_tail :: "bytes \<Rightarrow> bool" where
  "real_tail t = (case t of [] \<Rightarrow> True | c # t' \<Rightarrow> (c = 0x65 \<or> c = 0x45) \<and> digits1 (skip_sign t'))"

definition real_steps :: "bytes \<Rightarrow> bool" where
  "real_steps s \<longleftrightarrow>
    (case skip_sign s of [] \<Rightarrow> False
     | c # t \<Rightarrow> is_digit c \<and> real_tail (skip_fraction (dropWhile is_digit t)))"

lemma drop_ConsD: "drop i s = c # t \<Longrightarrow> i < length s \<and> s ! i = c \<and> drop (i + 1) s = t"
  by (metis Cons_nth_drop_Suc Suc_eq_plus1 drop_eq_Nil list.distinct(1) list.inject not_le)

lemma drop_inside: "drop i s = t \<Longrightarrow> \<not> length s \<le> i \<Longrightarrow> t \<noteq> [] \<and> s ! i = hd t"
  by (auto simp: hd_drop_conv_nth)

lemma scan_end: "i \<le> length s \<Longrightarrow> scan_digits s i = length s \<longleftrightarrow> dropWhile is_digit (drop i s) = []"
  using scan_digits_drop [of i s] by (metis drop_eq_Nil le_antisym order_refl)

lemma scan_digits_le: "i \<le> length s \<Longrightarrow> scan_digits s i \<le> length s"
  using scan_digits_drop by blast

lemma skip_sign_index:
  "drop (if i < length s \<and> is_sign (s ! i) then i + 1 else i) s = skip_sign (drop i s)"
proof (cases "drop i s")
  case Nil
  then show ?thesis by (simp add: skip_sign_def)
next
  case (Cons c t)
  with drop_ConsD [OF Cons] show ?thesis by (simp add: skip_sign_def)
qed

lemma digits_index:
  "(\<not> (length s \<le> j \<or> \<not> is_digit (s ! j)) \<and> scan_digits s j = length s) \<longleftrightarrow> digits1 (drop j s)"
proof (cases "length s \<le> j")
  case True
  then show ?thesis by (simp add: digits1_def)
next
  case False
  then obtain c t where ct: "drop j s = c # t" by (metis drop_eq_Nil list.exhaust)
  from drop_ConsD [OF ct] have "s ! j = c" by simp
  with ct False scan_end [of j s] show ?thesis
    by (cases "is_digit c") (simp_all add: digits1_dropWhile)
qed

lemma real_tail_index:
  assumes "i \<le> length s"
  shows "(if i < length s \<and> (s ! i = 0x65 \<or> s ! i = 0x45) then
            (let j = (if i + 1 < length s \<and> is_sign (s ! (i + 1)) then i + 1 + 1 else i + 1)
             in if length s \<le> j \<or> \<not> is_digit (s ! j) then False else scan_digits s j = length s)
          else i = length s) = real_tail (drop i s)"
proof (cases "drop i s")
  case Nil
  with assms show ?thesis by (simp add: real_tail_def)
next
  case (Cons c t)
  note i = drop_ConsD [OF Cons]
  define j where "j = (if i + 1 < length s \<and> is_sign (s ! (i + 1)) then i + 1 + 1 else i + 1)"
  have "drop j s = skip_sign t"
    using skip_sign_index [of "i + 1" s] i unfolding j_def by (simp only:)
  then have "(\<not> (length s \<le> j \<or> \<not> is_digit (s ! j)) \<and> scan_digits s j = length s) \<longleftrightarrow> digits1 (skip_sign t)"
    using digits_index [of s j] by simp
  then show ?thesis unfolding j_def [symmetric] Let_def
    using i Cons by (simp add: real_tail_def) blast
qed

lemma fraction_index:
  assumes "i \<le> length s"
  shows "drop (if i < length s \<and> s ! i = 0x2E then scan_digits s (i + 1) else i) s = skip_fraction (drop i s)"
    and "(if i < length s \<and> s ! i = 0x2E then scan_digits s (i + 1) else i) \<le> length s"
proof -
  show "drop (if i < length s \<and> s ! i = 0x2E then scan_digits s (i + 1) else i) s = skip_fraction (drop i s)"
  proof (cases "drop i s")
    case Nil
    with assms show ?thesis by (simp add: skip_fraction_def)
  next
    case (Cons c t)
    with drop_ConsD [OF Cons] scan_digits_drop [of "i + 1" s] show ?thesis
      by (simp add: skip_fraction_def)
  qed
  show "(if i < length s \<and> s ! i = 0x2E then scan_digits s (i + 1) else i) \<le> length s"
    using assms by (simp add: scan_digits_le)
qed

lemma if_False_else: "(if a then False else b) \<longleftrightarrow> \<not> a \<and> b"
  by simp

lemma snobol_real_steps: "snobol_real (Some s) \<longleftrightarrow> real_steps s"
proof (cases "s = []")
  case True
  then show ?thesis by (simp add: snobol_real_def real_steps_def skip_sign_def)
next
  case False
  define k where "k = (if is_sign (s ! 0) then 1 else (0 :: nat))"
  have k: "k \<le> length s" using False unfolding k_def by (cases s) auto
  have dk: "drop k s = skip_sign s" using skip_sign_drop [OF False] by (simp add: k_def)
  define m where "m = scan_digits s k"
  have m: "m \<le> length s" "drop m s = dropWhile is_digit (skip_sign s)"
    using scan_digits_drop [OF k] dk by (auto simp: m_def)
  define f where "f = (if m < length s \<and> s ! m = 0x2E then scan_digits s (m + 1) else m)"
  have f: "f \<le> length s" "drop f s = skip_fraction (dropWhile is_digit (skip_sign s))"
    using fraction_index [OF m(1)] m(2) unfolding f_def by simp_all
  have "snobol_real (Some s) \<longleftrightarrow> \<not> (length s \<le> k \<or> \<not> is_digit (s ! k)) \<and> real_tail (drop f s)"
    unfolding real_tail_index [OF f(1), symmetric]
    by (simp only: snobol_real_def option.case False if_False Let_def k_def m_def f_def)
      (rule if_False_else)
  also have "\<dots> \<longleftrightarrow> real_steps s"
  proof (cases "length s \<le> k")
    case True
    with dk show ?thesis by (auto simp: real_steps_def)
  next
    case nl: False
    with drop_inside [OF dk] f(2) show ?thesis
      by (cases "skip_sign s") (auto simp: real_steps_def)
  qed
  finally show ?thesis .
qed

lemma exponent_not_digit: "real_tail t \<Longrightarrow> t = [] \<or> \<not> is_digit (hd t)"
  by (cases t) (auto simp: real_tail_def is_digit_def)

lemma real_tail_lexeme:
  "real_tail ex \<longleftrightarrow>
    (ex = [] \<or> (\<exists>e sg' es. ex = e # sg' @ es \<and> (e = 0x65 \<or> e = 0x45) \<and> opt_sign sg' \<and> digits1 es))"
proof (cases ex)
  case (Cons e t)
  have "digits1 (skip_sign t) \<longleftrightarrow> (\<exists>sg' es. t = sg' @ es \<and> opt_sign sg' \<and> digits1 es)"
    using integer_lexeme_skip [of t] by (auto simp: integer_lexeme_def)
  with Cons show ?thesis by (auto simp: real_tail_def)
qed (simp add: real_tail_def)

lemma skip_fraction_split:
  "\<exists>fr. t = fr @ skip_fraction t \<and> (fr = [] \<or> (\<exists>fs. fr = 0x2E # fs \<and> list_all is_digit fs))"
proof (cases t)
  case (Cons c t')
  show ?thesis
  proof (cases "c = 0x2E")
    case True
    have "t = (0x2E # takeWhile is_digit t') @ skip_fraction t"
      using Cons True by (simp add: skip_fraction_def)
    then show ?thesis using takeWhile_digits by blast
  qed (use Cons in \<open>simp add: skip_fraction_def\<close>)
qed (simp add: skip_fraction_def)

lemma skip_fraction_parts:
  assumes "fr = [] \<or> (\<exists>fs. fr = 0x2E # fs \<and> list_all is_digit fs)" and "real_tail ex"
  shows "skip_fraction (fr @ ex) = ex" and "fr @ ex = [] \<or> \<not> is_digit (hd (fr @ ex))"
proof -
  have "ex = [] \<or> hd ex \<noteq> 0x2E" using assms(2) by (cases ex) (auto simp: real_tail_def)
  with assms exponent_not_digit [OF assms(2)] show "skip_fraction (fr @ ex) = ex"
    by (cases ex) (auto simp: skip_fraction_def dropWhile_digits list_all_iff)
  show "fr @ ex = [] \<or> \<not> is_digit (hd (fr @ ex))"
    using assms exponent_not_digit [OF assms(2)] by (auto simp: is_digit_def)
qed

lemma real_steps_lexeme: "real_steps s \<longleftrightarrow> real_lexeme s"
proof
  assume "real_steps s"
  then obtain c t where ct: "skip_sign s = c # t" "is_digit c"
    and tail: "real_tail (skip_fraction (dropWhile is_digit t))"
    by (auto simp: real_steps_def split: list.splits)
  obtain sg where sg: "opt_sign sg" "s = sg @ c # t" using skip_sign_split [of s] ct by auto
  let ?ds = "c # takeWhile is_digit t" and ?r = "dropWhile is_digit t"
  obtain fr where fr: "?r = fr @ skip_fraction ?r"
    "fr = [] \<or> (\<exists>fs. fr = 0x2E # fs \<and> list_all is_digit fs)"
    using skip_fraction_split by blast
  have "s = sg @ ?ds @ fr @ skip_fraction ?r"
    using sg(2) fr(1) by (metis append_Cons takeWhile_dropWhile_id)
  moreover have "digits1 ?ds" using ct(2) takeWhile_digits by (simp add: digits1_def)
  ultimately show "real_lexeme s"
    unfolding real_lexeme_def using sg(1) fr(2) tail unfolding real_tail_lexeme by blast
next
  assume "real_lexeme s"
  then obtain sg ds fr ex where s: "s = sg @ ds @ fr @ ex" and p: "opt_sign sg" "digits1 ds"
    and fr: "fr = [] \<or> (\<exists>fs. fr = 0x2E # fs \<and> list_all is_digit fs)" and ex: "real_tail ex"
    unfolding real_lexeme_def real_tail_lexeme [symmetric] by blast
  obtain d ds' where d: "ds = d # ds'" "is_digit d" "list_all is_digit ds'"
    using p(2) by (cases ds) (auto simp: digits1_def)
  have "skip_sign s = d # ds' @ fr @ ex" using skip_sign_digits [OF p, of "fr @ ex"] s d by simp
  moreover have "dropWhile is_digit (ds' @ fr @ ex) = fr @ ex"
    using dropWhile_digits [OF d(3)] skip_fraction_parts(2) [OF fr ex] by blast
  ultimately show "real_steps s"
    using d ex by (simp add: real_steps_def skip_fraction_parts(1) [OF fr ex])
qed


end
