(* ===== verification/Vm_Emit.thy ===== *)
theory Vm_Emit
  imports Vm_Match String_Fn Type_Fn
begin

text \<open>
  The instructions of \<^verbatim>\<open>vm_run\<close> in \<^verbatim>\<open>core/src/vm_exec.c\<close> that produce output, and the call of a
  built-in or of the host. Output goes to the buffer and to the callback, to each if it is set.
\<close>

section \<open>Output\<close>

definition emit :: "vm \<Rightarrow> bytes \<Rightarrow> vm" where
  "emit v bs =
     v\<lparr>vm_out := map_option (\<lambda>b. snobol_buf_append b bs) (vm_out v),
       vm_emitted := map_option (\<lambda>e. e @ [bs]) (vm_emitted v)\<rparr>"

text \<open>The captured text of a register, and the guard under which the code reads it.\<close>

definition capture_text :: "vm \<Rightarrow> nat \<Rightarrow> bytes" where
  "capture_text v r = sub_list (cap_start v ! r) (cap_end v ! r - cap_start v ! r) (vm_s v)"

definition capture_ok :: "vm \<Rightarrow> nat \<Rightarrow> bool" where
  "capture_ok v r \<longleftrightarrow>
     r < MAX_CAPS \<and> cap_start v ! r \<le> cap_end v ! r \<and> cap_end v ! r \<le> length (vm_s v)"

definition ascii_upper :: "bytes \<Rightarrow> bytes" where
  "ascii_upper = map (\<lambda>b. if 97 \<le> b \<and> b \<le> 122 then b - 32 else b)"

definition ascii_lower :: "bytes \<Rightarrow> bytes" where
  "ascii_lower = map (\<lambda>b. if 65 \<le> b \<and> b \<le> 90 then b + 32 else b)"

text \<open>What \<open>snprintf\<close> writes for \<open>%zu\<close>.\<close>

fun decimal :: "nat \<Rightarrow> bytes" where
  "decimal n =
     (if n < 10 then [48 + of_nat n] else decimal (n div 10) @ [48 + of_nat (n mod 10)])"

declare decimal.simps [simp del]

definition op_emit_literal :: "vm \<Rightarrow> outcome" where
  "op_emit_literal v =
     (let (off, v) = operand_u32 v; (len, v) = operand_u32 v; off = unat off; len = unat len;
          v = (if off = vm_ip v then v\<lparr>vm_ip := vm_ip v + len\<rparr> else v)
      in if (vm_out v \<noteq> None \<or> vm_emitted v \<noteq> None) \<and> 0 < len \<and> length (vm_bc v) < off + len then Fault
         else Go (emit v (sub_list off len (vm_bc v))))"

definition op_emit_capture :: "vm \<Rightarrow> outcome" where
  "op_emit_capture v =
     (let (r, v) = operand_u8 v
      in Go (if capture_ok v (unat r) then emit v (capture_text v (unat r)) else v))"

definition SNBL_FMT_UPPER :: nat where "SNBL_FMT_UPPER = 1"

definition SNBL_FMT_LOWER :: nat where "SNBL_FMT_LOWER = 2"

definition SNBL_FMT_LENGTH :: nat where "SNBL_FMT_LENGTH = 3"

definition SNBL_FMT_LPAD :: nat where "SNBL_FMT_LPAD = 4"

definition SNBL_FMT_RPAD :: nat where "SNBL_FMT_RPAD = 5"

lemmas format_codes =
  SNBL_FMT_UPPER_def SNBL_FMT_LOWER_def SNBL_FMT_LENGTH_def SNBL_FMT_LPAD_def SNBL_FMT_RPAD_def

definition op_emit_expr :: "vm \<Rightarrow> outcome" where
  "op_emit_expr v =
     (let (r, v) = operand_u8 v; (expr_type, v) = operand_u8 v; r = unat r;
          mapped = (if expr_type = 1 then SNBL_FMT_UPPER
                    else if expr_type = 2 then SNBL_FMT_LENGTH else 0)
      in if capture_ok v r
         then (let data = capture_text v r
               in Go (emit v (if mapped = SNBL_FMT_UPPER then ascii_upper data
                              else if mapped = SNBL_FMT_LENGTH then decimal (length data)
                              else data)))
         else Go v)"

text \<open>Padding to a width of at most 1024 bytes; a text that is wide enough stays as it is.\<close>

definition format_pad :: "bool \<Rightarrow> nat \<Rightarrow> u8 \<Rightarrow> bytes \<Rightarrow> bytes" where
  "format_pad left width fill data =
     (let width = min width 1024
      in if width \<le> length data then data
         else if left then replicate (width - length data) fill @ data
         else data @ replicate (width - length data) fill)"

definition op_emit_format :: "vm \<Rightarrow> outcome" where
  "op_emit_format v =
     (let (r, v) = operand_u8 v; (ty, v) = operand_u8 v; r = unat r; ty = unat ty;
          pads = (ty = SNBL_FMT_LPAD \<or> ty = SNBL_FMT_RPAD)
      in if capture_ok v r
         then (let data = capture_text v r
               in if ty = SNBL_FMT_UPPER then Go (emit v (ascii_upper data))
                  else if ty = SNBL_FMT_LOWER then Go (emit v (ascii_lower data))
                  else if ty = SNBL_FMT_LENGTH then Go (emit v (decimal (length data)))
                  else if pads
                  then (let (width, v) = operand_u16 v; (fill, v) = operand_u8 v
                        in Go (emit v (format_pad (ty = SNBL_FMT_LPAD) (unat width) fill data)))
                  else Go (emit v data))
         else if pads then (let (width, v) = operand_u16 v; (fill, v) = operand_u8 v in Go v)
         else Go v)"

section \<open>Built-in functions\<close>

definition SNOBOL_FN_MAX :: nat where "SNOBOL_FN_MAX = 28"

text \<open>The string functions write to a fresh buffer, which is emitted when they succeed.\<close>

definition eval_text ::
  "vm \<Rightarrow> (bytes option \<Rightarrow> snobol_buf option \<Rightarrow> bool \<times> snobol_buf option) \<Rightarrow> bytes \<Rightarrow> bool \<times> vm" where
  "eval_text v f text =
     (case f (Some text) (Some snobol_buf_init) of
        (True, Some out) \<Rightarrow> (True, emit v (buf_data out))
      | (ok, _) \<Rightarrow> (ok, v))"

definition eval_host :: "vm \<Rightarrow> nat \<Rightarrow> nat \<Rightarrow> bool" where
  "eval_host v fn r =
     (case vm_eval_fn v of None \<Rightarrow> True | Some f \<Rightarrow> f fn (vm_s v) (cap_start v ! r) (cap_end v ! r))"

definition eval_builtin :: "vm \<Rightarrow> nat \<Rightarrow> nat \<Rightarrow> bool \<times> vm" where
  "eval_builtin v fn r =
     (let text = capture_text v r
      in if fn = 1 then (True, v)
         else if fn = 2 then eval_text v snobol_trim text
         else if fn = 4 then eval_text v snobol_reverse text
         else if fn = 12 then eval_text v snobol_upper text
         else if fn = 13 then eval_text v snobol_lower text
         else if fn = 19 then (snobol_integer (Some text), v)
         else if fn = 20 then (snobol_real (Some text), v)
         else if fn = 21 then (snobol_numeric (Some text), v)
         else (eval_host v fn r, v))"

definition op_eval :: "vm \<Rightarrow> outcome" where
  "op_eval v =
     (let (fn, v) = operand_u16 v; (r, v) = operand_u8 v; fn = unat fn; r = unat r
      in if MAX_CAPS \<le> r then backtrack v
         else if \<not> capture_ok v r then backtrack v
         else (let (ok, v) = (if 0 < fn \<and> fn < SNOBOL_FN_MAX then eval_builtin v fn r
                              else (eval_host v fn r, v))
               in if ok then Go v else backtrack v))"

end
