(* ===== verification/Vm_Control.thy ===== *)
theory Vm_Control
  imports Vm_Emit
begin

text \<open>
  The instructions of \<^verbatim>\<open>vm_run\<close> in \<^verbatim>\<open>core/src/vm_exec.c\<close> for labels, tables, arrays and patterns
  compiled at run time, with the registries behind them: \<^verbatim>\<open>vm_register_label\<close>,
  \<^verbatim>\<open>vm_register_table\<close>, \<^verbatim>\<open>vm_register_array\<close> and the lookups. Tables and arrays are addresses into
  stores; an address without an object is a freed one, and using it is a fault.
\<close>

section \<open>Labels\<close>

definition vm_init_labels :: "vm \<Rightarrow> vm" where
  "vm_init_labels v =
     v\<lparr>label_offsets := None, label_count := 0, current_label := 0, in_goto_fail := False,
       abort_flag := False\<rparr>"

definition vm_free_labels :: "vm \<Rightarrow> vm" where
  "vm_free_labels v = v\<lparr>label_offsets := None, label_count := 0\<rparr>"

text \<open>
  The block grows to twice the label number plus two; the new elements are not written, and an
  element that was never written is \<open>None\<close>. An offset is stored in 16 bits.
\<close>

definition vm_register_label :: "vm \<Rightarrow> u16 \<Rightarrow> u32 \<Rightarrow> vm" where
  "vm_register_label v label_id offset =
     (let i = unat label_id;
          offs = (case label_offsets v of None \<Rightarrow> [] | Some os \<Rightarrow> os);
          offs = (if length offs \<le> i then offs @ replicate ((i + 1) * 2 - length offs) None else offs)
      in v\<lparr>label_offsets := Some (offs[i := Some (ucast offset)]),
           label_count := (if label_count v \<le> i then i + 1 else label_count v)\<rparr>)"

datatype label_ref = No_Label | Label_At nat | Unwritten

definition vm_get_label_offset :: "vm \<Rightarrow> u16 \<Rightarrow> label_ref" where
  "vm_get_label_offset v label_id =
     (case label_offsets v of
        None \<Rightarrow> No_Label
      | Some offs \<Rightarrow>
          (if unat label_id < label_count v
           then case offs ! unat label_id of Some off \<Rightarrow> Label_At (unat off) | None \<Rightarrow> Unwritten
           else No_Label))"

definition op_label :: "vm \<Rightarrow> outcome" where
  "op_label v = (let (label_id, v) = operand_u16 v in Go v)"

definition op_goto :: "vm \<Rightarrow> outcome" where
  "op_goto v =
     (let (label_id, v) = operand_u16 v
      in case vm_get_label_offset v label_id of
           No_Label \<Rightarrow> backtrack (v\<lparr>in_goto_fail := True\<rparr>)
         | Label_At target \<Rightarrow> Go (v\<lparr>vm_ip := target\<rparr>)
         | Unwritten \<Rightarrow> Fault)"

definition op_goto_f :: "vm \<Rightarrow> outcome" where
  "op_goto_f v =
     (let (label_id, v) = operand_u16 v
      in if in_goto_fail v
         then case vm_get_label_offset v label_id of
                No_Label \<Rightarrow> backtrack v
              | Label_At target \<Rightarrow> Go (v\<lparr>vm_ip := target, in_goto_fail := False\<rparr>)
              | Unwritten \<Rightarrow> Fault
         else Go v)"

section \<open>The registries\<close>

definition vm_register_table :: "vm \<Rightarrow> nat \<Rightarrow> vm \<times> u16" where
  "vm_register_table v addr =
     (v\<lparr>vm_table_store := (vm_table_store v)(addr := map_option table_retain (vm_table_store v addr)),
        vm_tables := vm_tables v @ [addr]\<rparr>,
      of_nat (length (vm_tables v)))"

definition vm_get_table :: "vm \<Rightarrow> u16 \<Rightarrow> nat option" where
  "vm_get_table v table_id =
     (if unat table_id < length (vm_tables v) then Some (vm_tables v ! unat table_id) else None)"

fun release_tables :: "nat list \<Rightarrow> (nat \<Rightarrow> snobol_table option) \<Rightarrow> nat \<Rightarrow> snobol_table option" where
  "release_tables [] st = st"
| "release_tables (a # as) st = release_tables as (st(a := Option.bind (st a) table_release))"

definition vm_free_tables :: "vm \<Rightarrow> vm" where
  "vm_free_tables v =
     v\<lparr>vm_table_store := release_tables (vm_tables v) (vm_table_store v), vm_tables := []\<rparr>"

definition vm_register_array :: "vm \<Rightarrow> nat \<Rightarrow> vm \<times> u16" where
  "vm_register_array v addr =
     (v\<lparr>vm_array_store := (vm_array_store v)(addr := map_option snobol_array_retain (vm_array_store v addr)),
        vm_arrays := vm_arrays v @ [addr]\<rparr>,
      of_nat (length (vm_arrays v)))"

definition vm_get_array :: "vm \<Rightarrow> u16 \<Rightarrow> nat option" where
  "vm_get_array v array_id =
     (if unat array_id < length (vm_arrays v) then Some (vm_arrays v ! unat array_id) else None)"

fun release_arrays :: "nat list \<Rightarrow> (nat \<Rightarrow> snobol_array option) \<Rightarrow> nat \<Rightarrow> snobol_array option" where
  "release_arrays [] st = st"
| "release_arrays (a # as) st = release_arrays as (st(a := Option.bind (st a) snobol_array_release))"

definition vm_free_arrays :: "vm \<Rightarrow> vm" where
  "vm_free_arrays v =
     v\<lparr>vm_array_store := release_arrays (vm_arrays v) (vm_array_store v), vm_arrays := []\<rparr>"

section \<open>Tables\<close>

definition skip_name :: "vm \<Rightarrow> vm" where
  "skip_name v = (let (name_len, v) = operand_u8 v in v\<lparr>vm_ip := vm_ip v + unat name_len\<rparr>)"

text \<open>A text that a key or a value is copied from; it must not be empty.\<close>

definition text_missing :: "vm \<Rightarrow> nat \<Rightarrow> bool" where
  "text_missing v r \<longleftrightarrow> MAX_CAPS \<le> r \<or> cap_end v ! r \<le> cap_start v ! r"

definition text_outside :: "vm \<Rightarrow> nat \<Rightarrow> bool" where
  "text_outside v r \<longleftrightarrow> length (vm_s v) < cap_end v ! r"

text \<open>The value of a key in the table with a number; a missing table has no values.\<close>

definition table_value :: "vm \<Rightarrow> nat option \<Rightarrow> bytes \<Rightarrow> bytes option option" where
  "table_value v table key =
     (case table of
        None \<Rightarrow> Some None
      | Some addr \<Rightarrow>
          (case vm_table_store v addr of
             None \<Rightarrow> None
           | Some t \<Rightarrow> map_option (map_option c_string) (table_get (Some t) (Some key))))"

definition emit_value :: "vm \<Rightarrow> bytes option option \<Rightarrow> outcome" where
  "emit_value v value =
     (case value of
        None \<Rightarrow> Fault
      | Some None \<Rightarrow> Go v
      | Some (Some text) \<Rightarrow> Go (emit v text))"

text \<open>A literal key that is empty or has 1024 bytes or more is not skipped.\<close>

definition op_emit_table :: "vm \<Rightarrow> outcome" where
  "op_emit_table v =
     (let (table_id, v) = operand_u16 v; (key_type, v) = operand_u8 v; v = skip_name v;
          table = vm_get_table v table_id
      in if key_type = 0
         then (let (key_len, v) = operand_u16 v; key_len = unat key_len
               in if 0 < key_len \<and> key_len < 1024
                  then if length (vm_bc v) < vm_ip v + key_len then Fault
                       else emit_value (v\<lparr>vm_ip := vm_ip v + key_len\<rparr>)
                              (table_value v table (sub_list (vm_ip v) key_len (vm_bc v)))
                  else Go v)
         else if key_type = 1
         then (let (key_reg, v) = operand_u8 v
               in if table \<noteq> None \<and> capture_ok v (unat key_reg)
                  then emit_value v (table_value v table (capture_text v (unat key_reg)))
                  else Go v)
         else Go v)"

definition op_table_get :: "vm \<Rightarrow> outcome" where
  "op_table_get v =
     (let (table_id, v) = operand_u16 v; (key_reg, v) = operand_u8 v; (dest_reg, v) = operand_u8 v;
          v = skip_name v; key_reg = unat key_reg
      in case vm_get_table v table_id of
           None \<Rightarrow> backtrack_break v
         | Some addr \<Rightarrow>
             (if text_missing v key_reg then backtrack_break v
              else if text_outside v key_reg then Fault
              else case table_value v (Some addr) (capture_text v key_reg) of
                     None \<Rightarrow> Fault
                   | Some None \<Rightarrow> backtrack_break v
                   | Some (Some text) \<Rightarrow> Go v))"

definition op_table_set :: "vm \<Rightarrow> outcome" where
  "op_table_set v =
     (let (table_id, v) = operand_u16 v; (key_reg, v) = operand_u8 v; (value_reg, v) = operand_u8 v;
          v = skip_name v; key_reg = unat key_reg; value_reg = unat value_reg
      in case vm_get_table v table_id of
           None \<Rightarrow> backtrack_break v
         | Some addr \<Rightarrow>
             (if text_missing v key_reg then backtrack_break v
              else if text_missing v value_reg then backtrack_break v
              else if text_outside v key_reg \<or> text_outside v value_reg then Fault
              else case vm_table_store v addr of
                     None \<Rightarrow> Fault
                   | Some t \<Rightarrow>
                       (case table_set (Some t) (Some (capture_text v key_reg))
                               (Some (capture_text v value_reg)) of
                          None \<Rightarrow> Fault
                        | Some (ok, t') \<Rightarrow>
                            (let v = v\<lparr>vm_table_store := (vm_table_store v)(addr := t')\<rparr>
                             in if ok then Go v else backtrack_break v))))"

section \<open>Arrays\<close>

text \<open>\<open>strtol\<close> to base 10: white space, a sign, digits, and the limits of \<open>long\<close>.\<close>

definition is_space :: "u8 \<Rightarrow> bool" where
  "is_space b \<longleftrightarrow> b = 32 \<or> 9 \<le> b \<and> b \<le> 13"

definition digits_value :: "bytes \<Rightarrow> int" where
  "digits_value ds = foldl (\<lambda>n d. 10 * n + (uint d - 48)) 0 ds"

definition clamp_long :: "int \<Rightarrow> int" where
  "clamp_long n = (if n < - (2 ^ 63) then - (2 ^ 63) else if 2 ^ 63 - 1 < n then 2 ^ 63 - 1 else n)"

definition strtol10 :: "bytes \<Rightarrow> int" where
  "strtol10 text =
     (let s = dropWhile is_space (c_string text)
      in case s of
           [] \<Rightarrow> 0
         | b # bs \<Rightarrow>
             (if b = 45 then clamp_long (- digits_value (takeWhile is_digit bs))
              else if b = 43 then clamp_long (digits_value (takeWhile is_digit bs))
              else clamp_long (digits_value (takeWhile is_digit s))))"

definition array_key :: "bytes \<Rightarrow> u32" where
  "array_key text = of_int (strtol10 text)"

definition snobol_array_get :: "snobol_array option \<Rightarrow> u32 \<Rightarrow> bytes option option" where
  "snobol_array_get array key = snobol_array_get_ex array key"

definition snobol_array_set ::
  "snobol_array option \<Rightarrow> u32 \<Rightarrow> bytes option \<Rightarrow> (bool \<times> snobol_array option) option" where
  "snobol_array_set array key value = snobol_array_set_ex array key (map_option c_string value)"

definition op_array_get :: "vm \<Rightarrow> outcome" where
  "op_array_get v =
     (let (array_id, v) = operand_u16 v; (key_reg, v) = operand_u8 v; (dest_reg, v) = operand_u8 v;
          v = skip_name v; key_reg = unat key_reg
      in case vm_get_array v array_id of
           None \<Rightarrow> backtrack_break v
         | Some addr \<Rightarrow>
             (if text_missing v key_reg then backtrack_break v
              else if text_outside v key_reg then Fault
              else case vm_array_store v addr of
                     None \<Rightarrow> Fault
                   | Some a \<Rightarrow>
                       (case snobol_array_get (Some a) (array_key (capture_text v key_reg)) of
                          None \<Rightarrow> Fault
                        | Some None \<Rightarrow> backtrack_break v
                        | Some (Some text) \<Rightarrow> Go v)))"

definition op_array_set :: "vm \<Rightarrow> outcome" where
  "op_array_set v =
     (let (array_id, v) = operand_u16 v; (key_reg, v) = operand_u8 v; (value_reg, v) = operand_u8 v;
          v = skip_name v; key_reg = unat key_reg; value_reg = unat value_reg
      in case vm_get_array v array_id of
           None \<Rightarrow> backtrack_break v
         | Some addr \<Rightarrow>
             (if text_missing v key_reg then backtrack_break v
              else if text_missing v value_reg then backtrack_break v
              else if text_outside v key_reg \<or> text_outside v value_reg then Fault
              else case vm_array_store v addr of
                     None \<Rightarrow> Fault
                   | Some a \<Rightarrow>
                       (case snobol_array_set (Some a) (array_key (capture_text v key_reg))
                               (Some (capture_text v value_reg)) of
                          None \<Rightarrow> Fault
                        | Some (ok, a') \<Rightarrow>
                            (let v = v\<lparr>vm_array_store := (vm_array_store v)(addr := a')\<rparr>
                             in if ok then Go v else backtrack_break v))))"

section \<open>Patterns compiled at run time\<close>

text \<open>The two blocks are copied from the bytecode; a length that passes its end is a fault.\<close>

definition op_dynamic_def :: "vm \<Rightarrow> outcome" where
  "op_dynamic_def v =
     (let (source_len, v) = operand_u32 v; n = unat source_len
      in if length (vm_bc v) < vm_ip v + n then Fault
         else (let source = sub_list (vm_ip v) n (vm_bc v); v = v\<lparr>vm_ip := vm_ip v + n\<rparr>;
                   (bc_len, v) = operand_u32 v; m = unat bc_len
               in if length (vm_bc v) < vm_ip v + m then Fault
                  else (let bc = sub_list (vm_ip v) m (vm_bc v)
                        in Go (v\<lparr>vm_ip := vm_ip v + m, dyn_pending_source := Some source,
                                 dyn_pending_bc := Some bc\<rparr>))))"

text \<open>
  The pattern for the pending source: from the cache, or made from the pending bytecode and cached.
  A pattern without bytecode is not valid; the code then frees the copy of the bytecode a second
  time. The pending source is a C string when it is stored and a block with a length when it is
  looked up.
\<close>

definition dynamic_lookup :: "vm \<Rightarrow> bytes \<Rightarrow> bytes \<Rightarrow> (nat \<times> vm) option" where
  "dynamic_lookup v source bc =
     (case dynamic_pattern_cache_get (dyn_store v) (dyn_cache v) source
             (sint (of_nat (length source) :: u32)) of
        (Some a, st) \<Rightarrow> Some (a, v\<lparr>dyn_store := st\<rparr>)
      | (None, st) \<Rightarrow>
          (if bc = [] then None
           else (let (a, st) = dynamic_pattern_create st (Some source) (Some bc);
                     (ok, st, cache) = dynamic_pattern_cache_put st (dyn_cache v) (Some source) a
                 in Some (a, v\<lparr>dyn_store := st, dyn_cache := cache\<rparr>))))"

text \<open>The machine for the inner run, and the outer machine put back around its result.\<close>

definition enter_dynamic :: "vm \<Rightarrow> bytes \<Rightarrow> vm" where
  "enter_dynamic v bc =
     v\<lparr>dyn_pending_source := None, dyn_pending_bc := None, choices_arena := None, choices_top := 0,
       vm_write_log := empty_write_log, vm_trail := [], vm_bc := bc, vm_ip := 0\<rparr>"

definition leave_dynamic :: "vm \<Rightarrow> vm \<Rightarrow> vm" where
  "leave_dynamic v w =
     w\<lparr>vm_bc := vm_bc v, vm_ip := vm_ip v, choices_arena := choices_arena v,
       choices_top := choices_top v, use_compact_choice := use_compact_choice v,
       vm_write_log := vm_write_log v, vm_trail := vm_trail v\<rparr>"

definition release_dynamic :: "vm \<Rightarrow> nat \<Rightarrow> vm" where
  "release_dynamic v a = v\<lparr>dyn_store := dynamic_pattern_release (dyn_store v) a\<rparr>"

definition op_dynamic :: "(vm \<Rightarrow> outcome) \<Rightarrow> vm \<Rightarrow> outcome" where
  "op_dynamic run v =
     (case (dyn_pending_source v, dyn_pending_bc v) of
        (Some source, Some bc) \<Rightarrow>
          (case dynamic_lookup v source bc of
             None \<Rightarrow> Fault
           | Some (a, v) \<Rightarrow>
               (case Option.bind (st_objs (dyn_store v) a) dp_bc of
                  None \<Rightarrow> Fault
                | Some inner_bc \<Rightarrow>
                    (case run (enter_dynamic v inner_bc) of
                       Done True w \<Rightarrow> Go (release_dynamic (leave_dynamic v w) a)
                     | Done False w \<Rightarrow>
                         fail_ret (release_dynamic ((leave_dynamic v w)\<lparr>vm_pos := vm_pos v,
                            cap_start := cap_start v, cap_end := cap_end v\<rparr>) a)
                     | Go w \<Rightarrow> Fault
                     | Fault \<Rightarrow> Fault
                     | Unfinished \<Rightarrow> Unfinished)))
      | _ \<Rightarrow> fail_ret v)"

end
