(* ===== verification/Vm_Exec.thy ===== *)
theory Vm_Exec
  imports Vm_Control
begin

text \<open>
  The dispatch loop \<^verbatim>\<open>vm_run\<close> and the entry point \<^verbatim>\<open>vm_exec\<close> of \<^verbatim>\<open>core/src/vm_exec.c\<close>. The loop may
  run for ever, so it takes the number of instructions it may execute, and a run that needs more is
  \<open>Unfinished\<close>; the inner run of a dynamic pattern takes its instructions from the same supply.
\<close>

section \<open>Dispatch\<close>

datatype op_code =
    OC_ACCEPT | OC_FAIL | OC_JMP | OC_SPLIT | OC_LIT | OC_ANY | OC_NOTANY | OC_SPAN | OC_BREAK
  | OC_CAP_START | OC_CAP_END | OC_ASSIGN | OC_LEN | OC_EVAL | OC_ANCHOR | OC_REPEAT_INIT
  | OC_REPEAT_STEP | OC_EMIT_LITERAL | OC_EMIT_CAPTURE | OC_EMIT_EXPR | OC_EMIT_TABLE
  | OC_EMIT_FORMAT | OC_LABEL | OC_GOTO | OC_GOTO_F | OC_TABLE_GET | OC_TABLE_SET | OC_ARRAY_GET
  | OC_ARRAY_SET | OC_DYNAMIC | OC_DYNAMIC_DEF | OC_BREAKX | OC_BAL | OC_FENCE | OC_REM | OC_RPOS
  | OC_RTAB | OC_POS | OC_TAB | OC_ABORT | OC_SUCCEED | OC_NOP

text \<open>The instructions in the order of their numbers.\<close>

definition op_codes :: "op_code list" where
  "op_codes =
     [OC_ACCEPT, OC_FAIL, OC_JMP, OC_SPLIT, OC_LIT, OC_ANY, OC_NOTANY, OC_SPAN, OC_BREAK,
      OC_CAP_START, OC_CAP_END, OC_ASSIGN, OC_LEN, OC_EVAL, OC_ANCHOR, OC_REPEAT_INIT,
      OC_REPEAT_STEP, OC_EMIT_LITERAL, OC_EMIT_CAPTURE, OC_EMIT_EXPR, OC_EMIT_TABLE,
      OC_EMIT_FORMAT, OC_LABEL, OC_GOTO, OC_GOTO_F, OC_TABLE_GET, OC_TABLE_SET, OC_ARRAY_GET,
      OC_ARRAY_SET, OC_DYNAMIC, OC_DYNAMIC_DEF, OC_BREAKX, OC_BAL, OC_FENCE, OC_REM, OC_RPOS,
      OC_RTAB, OC_POS, OC_TAB, OC_ABORT, OC_SUCCEED, OC_NOP]"

definition decode_op :: "u8 \<Rightarrow> op_code option" where
  "decode_op b = (if unat b < length op_codes then Some (op_codes ! unat b) else None)"

primrec exec_op :: "(vm \<Rightarrow> outcome) \<Rightarrow> op_code \<Rightarrow> vm \<Rightarrow> outcome" where
  "exec_op run OC_ACCEPT v = op_accept v"
| "exec_op run OC_FAIL v = op_fail v"
| "exec_op run OC_JMP v = op_jmp v"
| "exec_op run OC_SPLIT v = op_split v"
| "exec_op run OC_LIT v = op_lit v"
| "exec_op run OC_ANY v = op_any v"
| "exec_op run OC_NOTANY v = op_notany v"
| "exec_op run OC_SPAN v = op_span v"
| "exec_op run OC_BREAK v = op_break v"
| "exec_op run OC_CAP_START v = op_cap_start v"
| "exec_op run OC_CAP_END v = op_cap_end v"
| "exec_op run OC_ASSIGN v = op_assign v"
| "exec_op run OC_LEN v = op_len v"
| "exec_op run OC_EVAL v = op_eval v"
| "exec_op run OC_ANCHOR v = op_anchor v"
| "exec_op run OC_REPEAT_INIT v = op_repeat_init v"
| "exec_op run OC_REPEAT_STEP v = op_repeat_step v"
| "exec_op run OC_EMIT_LITERAL v = op_emit_literal v"
| "exec_op run OC_EMIT_CAPTURE v = op_emit_capture v"
| "exec_op run OC_EMIT_EXPR v = op_emit_expr v"
| "exec_op run OC_EMIT_TABLE v = op_emit_table v"
| "exec_op run OC_EMIT_FORMAT v = op_emit_format v"
| "exec_op run OC_LABEL v = op_label v"
| "exec_op run OC_GOTO v = op_goto v"
| "exec_op run OC_GOTO_F v = op_goto_f v"
| "exec_op run OC_TABLE_GET v = op_table_get v"
| "exec_op run OC_TABLE_SET v = op_table_set v"
| "exec_op run OC_ARRAY_GET v = op_array_get v"
| "exec_op run OC_ARRAY_SET v = op_array_set v"
| "exec_op run OC_DYNAMIC v = op_dynamic run v"
| "exec_op run OC_DYNAMIC_DEF v = op_dynamic_def v"
| "exec_op run OC_BREAKX v = op_breakx v"
| "exec_op run OC_BAL v = op_bal v"
| "exec_op run OC_FENCE v = op_fence v"
| "exec_op run OC_REM v = op_rem v"
| "exec_op run OC_RPOS v = op_rpos v"
| "exec_op run OC_RTAB v = op_rtab v"
| "exec_op run OC_POS v = op_pos v"
| "exec_op run OC_TAB v = op_tab v"
| "exec_op run OC_ABORT v = op_abort v"
| "exec_op run OC_SUCCEED v = op_succeed v"
| "exec_op run OC_NOP v = op_nop v"

text \<open>One turn of the loop; a byte that is no instruction jumps through an empty table entry.\<close>

definition vm_step :: "(vm \<Rightarrow> outcome) \<Rightarrow> vm \<Rightarrow> outcome" where
  "vm_step run v =
     (if length (vm_bc v) \<le> vm_ip v then backtrack v
      else case decode_op (vm_bc v ! vm_ip v) of
             None \<Rightarrow> Fault
           | Some oc \<Rightarrow> exec_op run oc (v\<lparr>vm_ip := vm_ip v + 1\<rparr>))"

section \<open>The loop\<close>

definition fresh_log_entry :: write_log_entry where
  "fresh_log_entry = \<lparr>wl_cap_index = 0, wl_old_start = 0, wl_old_end = 0\<rparr>"

text \<open>
  What \<open>vm_run\<close> does before the loop. The flag stands for the environment variable that selects
  the older choice records. The entries of a new write log are not read before they are written.
\<close>

definition vm_start :: "bool \<Rightarrow> vm \<Rightarrow> vm" where
  "vm_start legacy v =
     (let v = v\<lparr>choices_arena := Some (case choices_arena v of
                  None \<Rightarrow> vm_arena_create | Some a \<Rightarrow> vm_arena_reset a),
                choices_top := 0, use_compact_choice := \<not> legacy\<rparr>
      in if use_compact_choice v
         then (let v = vm_trail_clear v
               in v\<lparr>vm_write_log :=
                      (if wl_entries (vm_write_log v) = None
                       then (vm_write_log_init (vm_write_log v))
                              \<lparr>wl_entries := Some (replicate MAX_CAPS fresh_log_entry)\<rparr>
                       else vm_write_log_clear (vm_write_log v))\<rparr>)
         else v)"

primrec vm_loop :: "bool \<Rightarrow> nat \<Rightarrow> vm \<Rightarrow> outcome" where
  "vm_loop legacy 0 v = Unfinished"
| "vm_loop legacy (Suc n) v =
     (case vm_step (\<lambda>w. vm_loop legacy n (vm_start legacy w)) v of
        Go w \<Rightarrow> vm_loop legacy n w
      | r \<Rightarrow> r)"

definition vm_run :: "bool \<Rightarrow> nat \<Rightarrow> vm \<Rightarrow> outcome" where
  "vm_run legacy n v = vm_loop legacy n (vm_start legacy v)"

section \<open>The entry point\<close>

text \<open>Registering the labels of the table at the end of the bytecode, number \<open>i\<close> and on.\<close>

fun register_labels :: "vm \<Rightarrow> nat \<Rightarrow> nat \<Rightarrow> nat \<Rightarrow> vm" where
  "register_labels v table_base i 0 = v"
| "register_labels v table_base i (Suc n) =
     register_labels (vm_register_label v (of_nat i) (be32 (vm_bc v) (table_base + i * 4)))
       table_base (i + 1) n"

definition load_labels :: "vm \<Rightarrow> vm" where
  "load_labels v =
     (let bc = vm_bc v; bc_len = length bc
      in if 8 \<le> bc_len \<and> be32 bc (bc_len - 4) = SNOBOL_LABEL_TABLE_MAGIC
         then (let lc = unat (be32 bc (bc_len - 8))
               in if 0 < lc \<and> 8 + lc * 4 \<le> bc_len
                  then register_labels v (bc_len - 8 - lc * 4) 0 lc else v)
         else v)"

definition vm_init_registers :: "vm \<Rightarrow> vm" where
  "vm_init_registers v =
     v\<lparr>vm_ip := 0, vm_pos := 0, max_cap_used := 0, max_counter_used := 0, abort_flag := False,
       counters := replicate MAX_LOOPS 0\<rparr>"

definition vm_exec :: "bool \<Rightarrow> nat \<Rightarrow> vm \<Rightarrow> outcome" where
  "vm_exec legacy n v =
     (let v = vm_init_registers v;
          v = (if label_offsets v = None then vm_init_labels v else v);
          v = load_labels v
      in case vm_run legacy n v of
           Done res w \<Rightarrow> Done res (vm_free_labels w)
         | r \<Rightarrow> r)"

section \<open>More instructions never change a result\<close>

definition finished :: "outcome \<Rightarrow> bool" where
  "finished r \<longleftrightarrow> r \<noteq> Unfinished"

definition refines_run :: "(vm \<Rightarrow> outcome) \<Rightarrow> (vm \<Rightarrow> outcome) \<Rightarrow> bool" where
  "refines_run f g \<longleftrightarrow> (\<forall>v. f v \<noteq> Unfinished \<longrightarrow> g v = f v)"

lemma op_dynamic_mono:
  assumes "refines_run f g" "op_dynamic f v \<noteq> Unfinished"
  shows "op_dynamic g v = op_dynamic f v"
proof (cases "dyn_pending_source v")
  case None
  then show ?thesis by (simp add: op_dynamic_def)
next
  case (Some source)
  note src = this
  show ?thesis
  proof (cases "dyn_pending_bc v")
    case None
    then show ?thesis by (simp add: op_dynamic_def src)
  next
    case (Some bc)
    note bc = this
    show ?thesis
    proof (cases "dynamic_lookup v source bc")
      case None
      then show ?thesis by (simp add: op_dynamic_def src bc)
    next
      case (Some aw)
      then obtain a w where aw: "dynamic_lookup v source bc = Some (a, w)" by (cases aw) simp
      show ?thesis
      proof (cases "Option.bind (st_objs (dyn_store w) a) dp_bc")
        case None
        then show ?thesis by (simp add: op_dynamic_def src bc aw)
      next
        case (Some inner)
        have "f (enter_dynamic w inner) \<noteq> Unfinished"
          using assms(2) by (auto simp: op_dynamic_def src bc aw Some)
        then have "g (enter_dynamic w inner) = f (enter_dynamic w inner)"
          using assms(1) by (simp add: refines_run_def)
        then show ?thesis by (simp add: op_dynamic_def src bc aw Some)
      qed
    qed
  qed
qed

lemma exec_op_mono:
  "refines_run f g \<Longrightarrow> exec_op f oc v \<noteq> Unfinished \<Longrightarrow> exec_op g oc v = exec_op f oc v"
  by (cases oc) (simp_all add: op_dynamic_mono)

lemma vm_step_mono:
  "refines_run f g \<Longrightarrow> vm_step f v \<noteq> Unfinished \<Longrightarrow> vm_step g v = vm_step f v"
  by (auto simp: vm_step_def exec_op_mono split: option.splits)

lemma vm_loop_Suc:
  "vm_loop legacy n v \<noteq> Unfinished \<Longrightarrow> vm_loop legacy (Suc n) v = vm_loop legacy n v"
proof (induction n arbitrary: v)
  case 0
  then show ?case by simp
next
  case (Suc n)
  let ?f = "\<lambda>w. vm_loop legacy n (vm_start legacy w)"
  let ?g = "\<lambda>w. vm_loop legacy (Suc n) (vm_start legacy w)"
  have ref: "refines_run ?f ?g" unfolding refines_run_def using Suc.IH by blast
  have "vm_step ?f v \<noteq> Unfinished" using Suc.prems by auto
  then have st: "vm_step ?g v = vm_step ?f v" by (rule vm_step_mono [OF ref])
  show ?case
  proof (cases "vm_step ?f v")
    case (Go w)
    then have "vm_loop legacy n w \<noteq> Unfinished" using Suc.prems by simp
    then have "vm_loop legacy (Suc n) w = vm_loop legacy n w" by (rule Suc.IH)
    then show ?thesis using Go st by (simp only: vm_loop.simps(2) outcome.case)
  qed (use st in \<open>simp_all only: vm_loop.simps(2) outcome.case\<close>)
qed

lemma vm_loop_mono:
  assumes "vm_loop legacy n v \<noteq> Unfinished" "n \<le> m"
  shows "vm_loop legacy m v = vm_loop legacy n v"
  using assms(2)
proof (induction m rule: dec_induct)
  case (step m)
  then show ?case using assms(1) vm_loop_Suc [of legacy m v] by simp
qed simp

end
