(* ===== verification/Vm_Backtrack.thy ===== *)
theory Vm_Backtrack
  imports Vm_Exec
begin

text \<open>
  Backtracking in the compact mode, over all instructions: what the machine does to its registers
  and its choice stack is what a machine with full copies of the registers on its stack does. The
  undo trail of \<^verbatim>\<open>core/src/vm_capture.c\<close> and the records of \<^verbatim>\<open>core/src/vm_choice.c\<close> implement that
  stack of copies.
\<close>

section \<open>The machine with a stack of copies\<close>

type_synonym config = "resume \<times> resume list"

text \<open>A choice holds the captures and variables there are when it is made.\<close>

definition saves :: "resume \<Rightarrow> resume \<Rightarrow> bool" where
  "saves r c \<longleftrightarrow> rs_var_count c = rs_var_count r \<and> rs_max_cap_used c = rs_max_cap_used r \<and>
     rs_cap_start c = rs_cap_start r \<and> rs_cap_end c = rs_cap_end r \<and>
     rs_var_start c = rs_var_start r \<and> rs_var_end c = rs_var_end r"

inductive bt_step :: "config \<Rightarrow> config \<Rightarrow> bool" where
  advance: "bt_step (r, st) (r', st)"
| choose: "saves r c \<Longrightarrow> bt_step (r, st) (r', c # st)"
| pop: "bt_step (r, c # st) (c, st)"
| cut: "bt_step (r, st) (r', [])"

definition config_of :: "vm \<Rightarrow> config" where
  "config_of v = (resume_now v, resume_list v)"

inductive_cases bt_stepE: "bt_step (r, st) (r', st')"

section \<open>Outcomes that are steps of it\<close>

definition moves :: "vm \<Rightarrow> outcome \<Rightarrow> bool" where
  "moves v out \<longleftrightarrow> (\<forall>w. out = Go w \<longrightarrow> compact_inv w \<and> bt_step (config_of v) (config_of w))"

lemma moves_simps [simp]: "moves v Fault" "moves v (Done b w)" "moves v Unfinished" "moves v (fail_ret w)"
  by (simp_all add: moves_def fail_ret_def)

lemma moves_advance: "compact_inv v \<Longrightarrow> tracked v w \<Longrightarrow> moves v (Go w)"
  using tracked_resume_list [of v w] by (simp add: moves_def config_of_def bt_step.advance)

lemma moves_backtrack: "compact_inv v \<Longrightarrow> tracked v w \<Longrightarrow> moves v (backtrack w)"
proof -
  assume a: "compact_inv v" "tracked v w"
  note t = tracked_resume_list [OF a]
  show ?thesis
  proof (cases "vm_pop_choice w")
    case None
    then show ?thesis by (simp add: backtrack_def)
  next
    case (Some x)
    then show ?thesis
      using vm_pop_choice_compact [OF t(2) Some] t(1)
      by (simp add: backtrack_def moves_def config_of_def bt_step.pop)
  qed
qed

lemma moves_backtrack_break [simp]: "moves v (backtrack_break w)"
  by (auto simp: backtrack_break_def moves_def fail_ret_def split: option.splits)

text \<open>A choice is pushed on top of changes that leave captures, variables and the trail alone.\<close>

lemma moves_choose:
  assumes "compact_inv v" "length (vm_trail v) < 2 ^ 32" "tracked v u"
    and "same_regs u v" "var_count u = var_count v" "max_cap_used u = max_cap_used v"
    and "length (vm_trail u) < 2 ^ 32"
    and "tracked (vm_push_choice u ip pos) w"
  shows "moves v (Go w)"
proof -
  note t = tracked_resume_list [OF assms(1,3)]
  note p = vm_push_choice_compact [OF t(2) assms(7)]
  have "resume_list w = resume_at u ip pos # resume_list v" "compact_inv w"
    using tracked_resume_list [OF p(2) assms(8)] p(1) t(1) by simp_all
  moreover have "saves (resume_now v) (resume_at u ip pos)"
    using assms(4-6) by (simp add: saves_def resume_at_def same_regs_def)
  ultimately show ?thesis by (simp add: moves_def config_of_def bt_step.choose)
qed

section \<open>The instructions\<close>

lemma tracked_ip: "tracked v (v\<lparr>vm_ip := i\<rparr>)"
  by (rule tracked_same) (simp_all add: same_regs_def)

lemmas moves_intros = moves_advance moves_backtrack tracked_same

lemmas step_defs = operand_simps Let_def move_to_def same_regs_def

lemma match_moves:
  assumes "compact_inv v"
  shows "moves v (op_nop v)" "moves v (op_accept v)" "moves v (op_fail v)" "moves v (op_jmp v)"
    "moves v (op_abort v)" "moves v (op_succeed v)"
    "moves v (op_len v)" "moves v (op_anchor v)" "moves v (op_rem v)" "moves v (op_rpos v)"
    "moves v (op_rtab v)" "moves v (op_pos v)" "moves v (op_tab v)"
  unfolding op_nop_def op_accept_def op_fail_def op_jmp_def op_abort_def op_succeed_def
    op_len_def op_anchor_def op_rem_def op_rpos_def op_rtab_def op_pos_def op_tab_def
  using assms
  by (auto simp: step_defs intro!: moves_intros split: option.splits)

text \<open>Rules that follow the branches of a handler.\<close>

lemma moves_if: "(b \<Longrightarrow> moves v x) \<Longrightarrow> (\<not> b \<Longrightarrow> moves v y) \<Longrightarrow> moves v (if b then x else y)"
  by simp

lemma moves_option:
  "(opt = None \<Longrightarrow> moves v x) \<Longrightarrow> (\<And>a. opt = Some a \<Longrightarrow> moves v (f a)) \<Longrightarrow>
     moves v (case opt of None \<Rightarrow> x | Some a \<Rightarrow> f a)"
  by (cases opt) simp_all

lemma moves_prod: "(\<And>a b. p = (a, b) \<Longrightarrow> moves v (f a b)) \<Longrightarrow> moves v (case p of (a, b) \<Rightarrow> f a b)"
  by (cases p) simp

lemma moves_class:
  "moves v n \<Longrightarrow> (\<And>bm. moves v (f bm)) \<Longrightarrow> (\<And>r k. moves v (g r k)) \<Longrightarrow> moves v t \<Longrightarrow>
     moves v (case cls of No_Class \<Rightarrow> n | Ascii_Class bm \<Rightarrow> f bm | Range_Class r k \<Rightarrow> g r k
        | Truncated_Class \<Rightarrow> t)"
  by (cases cls) simp_all

lemmas moves_branches = moves_if moves_option moves_prod moves_class

lemmas handler_simps = operand_simps Let_def prod.case move_to_def if_distrib [of vm_ip]

lemma class_moves:
  assumes "compact_inv v"
  shows "moves v (op_lit v)" "moves v (op_any v)" "moves v (op_notany v)" "moves v (op_span v)"
    "moves v (op_break v)" "moves v (op_bal v)"
  unfolding op_lit_def op_any_def op_notany_def op_span_def op_break_def op_bal_def
    operand_simps Let_def prod.case move_to_def
  by (intro moves_branches moves_simps moves_backtrack_break moves_advance moves_backtrack assms tracked_same;
      simp add: same_regs_def)+

lemma emit_moves:
  assumes "compact_inv v"
  shows "moves v (op_emit_literal v)" "moves v (op_emit_capture v)" "moves v (op_emit_expr v)"
    "moves v (op_emit_format v)" "moves v (op_emit_table v)"
  unfolding op_emit_literal_def op_emit_capture_def op_emit_expr_def op_emit_format_def
    op_emit_table_def emit_value_def emit_def skip_name_def operand_simps Let_def prod.case
  by (intro moves_branches moves_simps moves_advance assms tracked_same; simp add: same_regs_def)+

lemma moves_if_vm: "(b \<Longrightarrow> moves v (Go x)) \<Longrightarrow> (\<not> b \<Longrightarrow> moves v (Go y)) \<Longrightarrow> moves v (Go (if b then x else y))"
  by simp

lemma control_moves:
  assumes "compact_inv v"
  shows "moves v (op_label v)" "moves v (op_goto v)" "moves v (op_goto_f v)" "moves v (op_dynamic_def v)"
    "moves v (op_table_get v)" "moves v (op_table_set v)" "moves v (op_array_get v)" "moves v (op_array_set v)"
  unfolding op_label_def op_goto_def op_goto_f_def op_dynamic_def_def op_table_get_def op_table_set_def
    op_array_get_def op_array_set_def skip_name_def operand_simps Let_def prod.case
  using assms
  by (auto simp: same_regs_def intro!: moves_intros split: label_ref.splits option.splits)

lemma tracked_emit: "tracked v (emit v bs)"
  by (rule tracked_same) (simp_all add: emit_def same_regs_def)

lemma tracked_refl: "tracked v v"
  by (rule tracked_same) simp_all

lemma eval_builtin_tracked: "eval_builtin v f r = (ok, w) \<Longrightarrow> tracked v w"
  by (auto simp: eval_builtin_def eval_text_def Let_def tracked_refl tracked_emit
      split: if_splits prod.splits option.splits bool.splits)

lemma eval_moves:
  assumes "compact_inv v"
  shows "moves v (op_eval v)"
proof -
  have step: "moves v (if ok then Go x else backtrack x)" if "tracked v x" for ok x
    using moves_advance [OF assms that] moves_backtrack [OF assms that] by simp
  have "moves v (case (if b then eval_builtin u f r else (h, u)) of (ok, x) \<Rightarrow> if ok then Go x else backtrack x)"
    if "tracked v u" for b h u f r
    using step [OF that] step [OF tracked_trans [OF that eval_builtin_tracked]]
    by (auto split: prod.splits)
  moreover have "tracked v (v\<lparr>vm_ip := i\<rparr>)" for i by (rule tracked_ip)
  ultimately show ?thesis
    unfolding op_eval_def operand_simps Let_def prod.case
    by (intro moves_if moves_backtrack assms) (simp_all add: tracked_ip)
qed

section \<open>Instructions that write to the trail\<close>

lemma tracked_record:
  assumes "choices_arena w = choices_arena v" "use_compact_choice w = use_compact_choice v"
    "length (cap_start w) = length (cap_start v)" "length (cap_end w) = length (cap_end v)"
    "length (var_start w) = length (var_start v)" "length (var_end w) = length (var_end v)"
    "same_regs (undo_one r w) v" "vm_trail w = r # vm_trail v"
  shows "tracked v w"
proof -
  have "vm_trail w = [r] @ vm_trail v \<and> same_regs (undo_all [r] w) v" using assms by simp
  then have "\<exists>rs. vm_trail w = rs @ vm_trail v \<and> same_regs (undo_all rs w) v" by (rule exI)
  then show ?thesis using assms by (simp add: tracked_def)
qed

lemmas trail_defs =
  vm_trail_cap_write_def vm_trail_var_write_def vm_trail_counter_inc_def vm_trail_push_def

lemma undo_one_simps [simp]:
  "r < MAX_CAPS \<Longrightarrow>
     undo_one (blank_undo\<lparr>un_kind := UNDO_CAP_WRITE, un_index := r, un_sub := 0, un_prior_a := a,
       un_prior_b := b\<rparr>) v = v\<lparr>cap_start := (cap_start v)[r := a]\<rparr>"
  "r < MAX_CAPS \<Longrightarrow>
     undo_one (blank_undo\<lparr>un_kind := UNDO_CAP_WRITE, un_index := r, un_sub := 1, un_prior_a := a,
       un_prior_b := b\<rparr>) v = v\<lparr>cap_end := (cap_end v)[r := b]\<rparr>"
  "r < MAX_VARS \<Longrightarrow>
     undo_one (blank_undo\<lparr>un_kind := UNDO_VAR_WRITE, un_index := r, un_prior_a := a,
       un_prior_b := b\<rparr>) v = v\<lparr>var_start := (var_start v)[r := a], var_end := (var_end v)[r := b]\<rparr>"
  "same_regs (undo_one (blank_undo\<lparr>un_kind := UNDO_COUNTER_DEC, un_index := l, un_prior_u := c,
       un_prior_lp := p\<rparr>) v) v"
  by (simp_all add: undo_one_def blank_undo_def same_regs_def)

lemmas undo_one_simps' [simp] = undo_one_simps(2) [unfolded One_nat_def]

lemma compact_inv_compact: "compact_inv v \<Longrightarrow> use_compact_choice v"
  by (simp add: compact_inv_def)

lemma tracked_cap_start:
  "use_compact_choice v \<Longrightarrow> r < MAX_CAPS \<Longrightarrow>
     tracked v ((vm_trail_cap_write v r 0 (cap_start v ! r) e)\<lparr>cap_start := (cap_start v)[r := x]\<rparr>)"
  by (rule tracked_record) (simp_all add: trail_defs same_regs_def)

lemma tracked_cap_end:
  "use_compact_choice v \<Longrightarrow> r < MAX_CAPS \<Longrightarrow>
     tracked v ((vm_trail_cap_write v r 1 e (cap_end v ! r))\<lparr>cap_end := (cap_end v)[r := x]\<rparr>)"
  by (rule tracked_record) (simp_all add: trail_defs same_regs_def)

lemma tracked_var:
  "use_compact_choice v \<Longrightarrow> r < MAX_VARS \<Longrightarrow>
     tracked v ((vm_trail_var_write v r (var_start v ! r) (var_end v ! r))
       \<lparr>var_start := (var_start v)[r := x], var_end := (var_end v)[r := y]\<rparr>)"
  by (rule tracked_record) (simp_all add: trail_defs same_regs_def)

lemma tracked_counter:
  "use_compact_choice v \<Longrightarrow> tracked v (vm_trail_counter_inc v l c p)"
  by (rule tracked_record, simp_all add: trail_defs)
    (simp add: same_regs_trans [OF undo_one_simps(4)] same_regs_def [of "v\<lparr>vm_trail := t\<rparr>" for t])

lemma tracked_cong:
  "tracked u v \<Longrightarrow> choices_arena w = choices_arena v \<Longrightarrow> use_compact_choice w = use_compact_choice v \<Longrightarrow>
     vm_trail w = vm_trail v \<Longrightarrow> same_regs w v \<Longrightarrow> tracked u w"
  using tracked_trans tracked_same by blast

text \<open>The writes of the three capture instructions.\<close>

lemma tracked_write_cap_start: "use_compact_choice v \<Longrightarrow> r < MAX_CAPS \<Longrightarrow> tracked v (write_cap_start v r)"
  by (rule tracked_record [where r = "blank_undo\<lparr>un_kind := UNDO_CAP_WRITE, un_index := r, un_sub := 0,
        un_prior_a := cap_start v ! r, un_prior_b := cap_end v ! r\<rparr>"])
    (simp_all add: write_cap_start_def Let_def trail_defs same_regs_def)

lemma tracked_write_cap_end: "use_compact_choice v \<Longrightarrow> r < MAX_CAPS \<Longrightarrow> tracked v (write_cap_end v r)"
  by (rule tracked_record [where r = "blank_undo\<lparr>un_kind := UNDO_CAP_WRITE, un_index := r, un_sub := 1,
        un_prior_a := cap_start v ! r, un_prior_b := cap_end v ! r\<rparr>"])
    (simp_all add: write_cap_end_def Let_def trail_defs same_regs_def)

lemma tracked_write_var: "use_compact_choice v \<Longrightarrow> var < MAX_VARS \<Longrightarrow> tracked v (write_var v var r)"
  by (rule tracked_record [where r = "blank_undo\<lparr>un_kind := UNDO_VAR_WRITE, un_index := var,
        un_prior_a := var_start v ! var, un_prior_b := var_end v ! var\<rparr>"])
    (simp_all add: write_var_def Let_def trail_defs same_regs_def)

lemma capture_moves:
  assumes "compact_inv v"
  shows "moves v (op_cap_start v)" "moves v (op_cap_end v)" "moves v (op_assign v)"
proof -
  have c: "use_compact_choice (v\<lparr>vm_ip := i\<rparr>)" for i using compact_inv_compact [OF assms] by simp
  have c': "use_compact_choice (write_cap_end (v\<lparr>vm_ip := i\<rparr>) r)" for i r
    using c by (simp add: write_cap_end_def Let_def trail_defs)
  note start = tracked_trans [OF tracked_ip tracked_write_cap_start [OF c]]
  note stop = tracked_trans [OF tracked_ip tracked_write_cap_end [OF c]]
  note var = tracked_trans [OF tracked_ip tracked_write_var [OF c]]
  note both = tracked_trans [OF stop tracked_write_var [OF c']]
  show "moves v (op_cap_start v)" "moves v (op_cap_end v)" "moves v (op_assign v)"
    unfolding op_cap_start_def op_cap_end_def op_assign_def operand_simps Let_def prod.case
    by (intro moves_if moves_advance assms; simp add: start stop var both tracked_ip)+
qed

section \<open>Instructions that push choices\<close>

lemma fence_moves: "compact_inv v \<Longrightarrow> moves v (op_fence v)"
proof -
  assume inv: "compact_inv v"
  then obtain a where a: "choices_arena v = Some a" "arena_wf a" by (auto simp: compact_inv_def)
  let ?w = "v\<lparr>choices_arena := map_option vm_arena_reset (choices_arena v), choices_top := 0\<rparr>"
  have st: "stack_of ?w = []" using a by (simp add: stack_of_def vm_arena_reset_wf(2) [OF a(2)])
  then have "compact_inv ?w" using inv a by (simp add: compact_inv_def vm_arena_reset_wf(1) [OF a(2)])
  moreover have "resume_list ?w = []" using st by (simp add: resume_list_def)
  ultimately show ?thesis by (simp add: op_fence_def moves_def config_of_def bt_step.cut)
qed

text \<open>A state that differs from the start in other registers only, and by few trail records.\<close>

definition near :: "vm \<Rightarrow> vm \<Rightarrow> bool" where
  "near v u \<longleftrightarrow> tracked v u \<and> same_regs u v \<and> var_count u = var_count v \<and>
     max_cap_used u = max_cap_used v \<and> length (vm_trail u) < 2 ^ 32"

lemma near_same:
  "length (vm_trail v) < 2 ^ 32 \<Longrightarrow> choices_arena u = choices_arena v \<Longrightarrow>
     use_compact_choice u = use_compact_choice v \<Longrightarrow> vm_trail u = vm_trail v \<Longrightarrow> same_regs u v \<Longrightarrow>
     var_count u = var_count v \<Longrightarrow> max_cap_used u = max_cap_used v \<Longrightarrow> near v u"
  by (simp add: near_def tracked_same)

lemma near_counter:
  assumes "compact_inv v" "Suc (length (vm_trail v)) < 2 ^ 32"
    and "choices_arena u = choices_arena v" "use_compact_choice u = use_compact_choice v"
    "vm_trail u = vm_trail v" "same_regs u v" "var_count u = var_count v" "max_cap_used u = max_cap_used v"
  shows "near v (vm_trail_counter_inc u l c p)"
proof -
  have c: "use_compact_choice u" using assms compact_inv_compact by simp
  have "tracked v (vm_trail_counter_inc u l c p)"
    using tracked_trans [OF tracked_same tracked_counter [OF c]] assms(3-6) by blast
  then show ?thesis using assms by (simp add: near_def trail_defs same_regs_def)
qed

lemma moves_push:
  assumes "compact_inv v" "length (vm_trail v) < 2 ^ 32" "near v u"
    and "tracked (vm_push_choice u ip pos) w"
  shows "moves v (Go w)"
  using assms moves_choose [OF assms(1,2) _ _ _ _ _ assms(4)] by (simp add: near_def)

lemma moves_near: "compact_inv v \<Longrightarrow> near v u \<Longrightarrow> tracked u w \<Longrightarrow> moves v (Go w)"
  using moves_advance tracked_trans by (simp add: near_def) blast

lemma push_moves:
  assumes "compact_inv v" "Suc (length (vm_trail v)) < 2 ^ 32"
  shows "moves v (op_split v)" "moves v (op_breakx v)" "moves v (op_repeat_init v)"
proof -
  have t: "length (vm_trail v) < 2 ^ 32" using assms(2) by simp
  show "moves v (op_split v)"
    unfolding op_split_def operand_simps Let_def prod.case
    by (rule moves_push [OF assms(1) t near_same [OF t] tracked_same]) (simp_all add: same_regs_def)
  show "moves v (op_breakx v)"
    unfolding op_breakx_def operand_simps Let_def prod.case move_to_def
    by (intro moves_if moves_simps;
        (rule moves_push [OF assms(1) t near_same [OF t] tracked_refl] | rule moves_advance [OF assms(1) tracked_same]);
        simp add: same_regs_def)
  show "moves v (op_repeat_init v)"
    unfolding op_repeat_init_def operand_simps Let_def prod.case if_distrib [of Go]
    by (intro moves_if;
        (rule moves_push [OF assms(1) t near_same [OF t] tracked_refl] | rule moves_advance [OF assms(1) tracked_same]);
        simp add: same_regs_def)
qed

lemma repeat_normal_moves:
  assumes "compact_inv v" "Suc (length (vm_trail v)) < 2 ^ 32"
    and u: "choices_arena u = choices_arena v" "use_compact_choice u = use_compact_choice v"
    "vm_trail u = vm_trail v" "same_regs u v" "var_count u = var_count v" "max_cap_used u = max_cap_used v"
  shows "moves v (repeat_normal u l target)"
proof -
  have t: "length (vm_trail v) < 2 ^ 32" using assms(2) by simp
  have c: "use_compact_choice u" using assms compact_inv_compact by simp
  have n: "near v (vm_trail_counter_inc (u\<lparr>counters := cs\<rparr>) l k p)" for cs k p
    by (rule near_counter [OF assms(1,2)]) (use u in \<open>simp_all add: same_regs_def\<close>)
  have again: "tracked w (repeat_again w l target)" for w
    by (rule tracked_same) (simp_all add: repeat_again_def same_regs_def)
  show ?thesis
    unfolding repeat_normal_def Let_def
    using c by (simp add: moves_near [OF assms(1) n again] moves_near [OF assms(1) n tracked_refl]
        moves_push [OF assms(1) t n again])
qed

lemma greedy_commit_near:
  assumes "compact_inv v" "Suc (length (vm_trail v)) < 2 ^ 32"
    and u: "choices_arena u = choices_arena v" "use_compact_choice u = use_compact_choice v"
    "vm_trail u = vm_trail v" "same_regs u v" "var_count u = var_count v" "max_cap_used u = max_cap_used v"
    and "greedy_commit u l target = Some w"
  shows "near v w"
proof -
  have c: "use_compact_choice u" using assms compact_inv_compact by simp
  have n: "near v (vm_trail_counter_inc (u\<lparr>vm_pos := x, counters := cs\<rparr>) l k p)" for x cs k p
    by (rule near_counter [OF assms(1,2)]) (use u in \<open>simp_all add: same_regs_def\<close>)
  have "near v u" by (rule near_same) (use assms in simp_all)
  then show ?thesis
    using assms(9) n c
    by (auto simp: greedy_commit_def Let_def split: option.splits prod.splits if_splits)
qed

lemma repeat_greedy_moves:
  assumes "compact_inv v" "Suc (length (vm_trail v)) < 2 ^ 32"
    and u: "choices_arena u = choices_arena v" "use_compact_choice u = use_compact_choice v"
    "vm_trail u = vm_trail v" "same_regs u v" "var_count u = var_count v" "max_cap_used u = max_cap_used v"
  shows "moves v (repeat_greedy u l target step_ip)"
proof (cases "greedy_commit u l target")
  case None
  then show ?thesis by (simp add: repeat_greedy_def)
next
  case (Some w)
  have t: "length (vm_trail v) < 2 ^ 32" using assms(2) by simp
  have n: "near v w" using greedy_commit_near [OF assms(1,2) u Some] .
  have last: "tracked x (x\<lparr>loop_last_pos := ps\<rparr>)" for x ps
    by (rule tracked_same) (simp_all add: same_regs_def)
  show ?thesis
    unfolding repeat_greedy_def Some Let_def
    by (simp add: moves_near [OF assms(1) n last] moves_push [OF assms(1) t n last])
qed

lemma repeat_step_moves:
  assumes "compact_inv v" "Suc (length (vm_trail v)) < 2 ^ 32"
  shows "moves v (op_repeat_step v)"
  unfolding op_repeat_step_def operand_simps Let_def prod.case
  by (intro moves_if moves_simps repeat_normal_moves repeat_greedy_moves assms
      moves_advance [OF assms(1) tracked_same]; simp add: same_regs_def)

section \<open>The refinement\<close>

lemmas all_moves =
  match_moves class_moves emit_moves eval_moves control_moves capture_moves fence_moves push_moves
  repeat_step_moves

text \<open>
  The instruction the machine executes next, if there is one.
\<close>

definition next_op :: "vm \<Rightarrow> op_code option" where
  "next_op v = (if vm_ip v < length (vm_bc v) then decode_op (vm_bc v ! vm_ip v) else None)"

lemma bt_step_weaken:
  "bt_step (r, st) (r', st') \<Longrightarrow> (\<And>c. saves r c \<Longrightarrow> saves q c) \<Longrightarrow> bt_step (q, st) (r', st')"
  by (erule bt_stepE) (auto intro: bt_step.intros)

lemma vm_step_moves:
  assumes "compact_inv v" "Suc (length (vm_trail v)) < 2 ^ 32" "next_op v \<noteq> Some OC_DYNAMIC"
  shows "moves v (vm_step run v)"
proof -
  let ?v = "v\<lparr>vm_ip := vm_ip v + 1\<rparr>"
  have same: "resume_list ?v = resume_list v" "compact_inv ?v"
    using tracked_resume_list [OF assms(1) tracked_ip] by simp_all
  have lift: "moves v out" if "moves ?v out" for out
  proof -
    have "bt_step (resume_now v, resume_list v) (config_of w)"
      if "bt_step (resume_now ?v, resume_list v) (config_of w)" for w
      using that unfolding config_of_def
      by (rule bt_step_weaken) (simp add: saves_def resume_at_def)
    then show ?thesis using that same(1) by (simp add: moves_def config_of_def)
  qed
  have tr: "Suc (length (vm_trail ?v)) < 2 ^ 32" using assms(2) by simp
  have "moves ?v (exec_op run oc ?v)" if "oc \<noteq> OC_DYNAMIC" for oc
    using that same(2) tr by (cases oc) (simp_all add: all_moves)
  then have "moves v (exec_op run oc ?v)" if "oc \<noteq> OC_DYNAMIC" for oc
    using lift that by blast
  then show ?thesis
    using assms(3) moves_backtrack [OF assms(1) tracked_refl]
    by (auto simp: vm_step_def next_op_def split: option.splits)
qed

text \<open>
  One instruction of a run, other than a dynamic pattern and within the width of the trail marks.
\<close>

definition plain_step :: "(vm \<Rightarrow> outcome) \<Rightarrow> vm \<Rightarrow> vm \<Rightarrow> bool" where
  "plain_step run v w \<longleftrightarrow> vm_step run v = Go w \<and> next_op v \<noteq> Some OC_DYNAMIC \<and>
     int (length (vm_trail v)) + 1 < 2 ^ 32"

lemma plain_step_refines:
  "compact_inv v \<Longrightarrow> plain_step run v w \<Longrightarrow> compact_inv w \<and> bt_step (config_of v) (config_of w)"
  using vm_step_moves [of v run] by (auto simp: plain_step_def moves_def)

lemma plain_steps_refine:
  assumes "compact_inv v" "(plain_step run)\<^sup>*\<^sup>* v w"
  shows "compact_inv w \<and> bt_step\<^sup>*\<^sup>* (config_of v) (config_of w)"
  using assms(2)
proof (induction rule: rtranclp_induct)
  case base
  then show ?case using assms(1) by simp
next
  case (step x y)
  then show ?case using plain_step_refines by (meson rtranclp.rtrancl_into_rtrancl)
qed

definition registers_sized :: "vm \<Rightarrow> bool" where
  "registers_sized v \<longleftrightarrow> length (cap_start v) = MAX_CAPS \<and> length (cap_end v) = MAX_CAPS \<and>
     length (var_start v) = MAX_VARS \<and> length (var_end v) = MAX_VARS \<and>
     (\<forall>a. choices_arena v = Some a \<longrightarrow> arena_wf a)"

lemma vm_start_inv:
  assumes "registers_sized v"
  shows "compact_inv (vm_start False v)" "resume_list (vm_start False v) = []"
proof -
  obtain a where a: "choices_arena (vm_start False v) = Some a" "arena_wf a" "arena_stack a = []"
    using assms vm_arena_create_wf vm_arena_reset_wf
    by (cases "choices_arena v") (auto simp: vm_start_def Let_def vm_trail_clear_def registers_sized_def)
  then have st: "stack_of (vm_start False v) = []" by (simp add: stack_of_def)
  then show "resume_list (vm_start False v) = []" by (simp add: resume_list_def)
  have "use_compact_choice (vm_start False v)" by (simp add: vm_start_def Let_def vm_trail_clear_def)
  moreover have "cap_start (vm_start False v) = cap_start v" "cap_end (vm_start False v) = cap_end v"
    "var_start (vm_start False v) = var_start v" "var_end (vm_start False v) = var_end v"
    by (simp_all add: vm_start_def Let_def vm_trail_clear_def)
  ultimately show "compact_inv (vm_start False v)"
    using a st assms unfolding compact_inv_def registers_sized_def by simp
qed

text \<open>Running a number of such instructions.\<close>

primrec plain_run :: "(vm \<Rightarrow> outcome) \<Rightarrow> nat \<Rightarrow> vm \<Rightarrow> vm option" where
  "plain_run run 0 v = Some v"
| "plain_run run (Suc n) v =
     (case vm_step run v of
        Go w \<Rightarrow> (if next_op v \<noteq> Some OC_DYNAMIC \<and> int (length (vm_trail v)) + 1 < 2 ^ 32
                 then plain_run run n w else None)
      | _ \<Rightarrow> None)"

lemma plain_run_steps: "plain_run run n v = Some w \<Longrightarrow> (plain_step run)\<^sup>*\<^sup>* v w"
proof (induction n arbitrary: v)
  case (Suc n)
  then obtain x where "plain_step run v x" "plain_run run n x = Some w"
    by (auto simp: plain_step_def split: outcome.splits if_splits)
  then show ?case using Suc.IH by (meson converse_rtranclp_into_rtranclp)
qed simp


text \<open>A choice, a capture on its first branch, and a failure.\<close>

definition choice_program :: bytes where
  "choice_program = [3, 0, 0, 0, 9, 0, 0, 0, 12, 9, 0, 1, 0]"


end
