(* ===== verification/Vm_Bounds.thy ===== *)
theory Vm_Bounds
  imports Vm_Exec
begin

text \<open>
  Positions stay within the subject: the cursor, the captures, the variables, and every position on
  the choice stack and on the trail, in both modes and through the runs of dynamic patterns.
\<close>

section \<open>The scanning loops\<close>

lemma scan_while_bounds: "pos \<le> length s \<Longrightarrow> pos \<le> scan_while P s pos \<and> scan_while P s pos \<le> length s"
proof (induction P s pos rule: scan_while.induct)
  case (1 P s pos)
  then show ?case by (subst (1 2) scan_while.simps) auto
qed

lemma scan_cps_bounds: "pos \<le> length s \<Longrightarrow> pos \<le> scan_cps P s pos \<and> scan_cps P s pos \<le> length s"
proof (induction P s pos rule: scan_cps.induct)
  case (1 P s pos)
  show ?case
  proof (cases "utf8_peek_next s pos")
    case None
    then show ?thesis using 1(2) by (subst (1 2) scan_cps.simps) simp
  next
    case (Some a)
    obtain cp n where a: "utf8_peek_next s pos = Some (cp, n)" using Some by (cases a) simp
    have n: "pos + n \<le> length s" using utf8_peek_next_end [OF a] .
    show ?thesis
    proof (cases "P cp")
      case True
      then have "scan_cps P s pos = scan_cps P s (pos + n)" by (subst scan_cps.simps) (simp add: a)
      then show ?thesis using "1.IH" [OF a refl True n] by simp
    next
      case False
      then show ?thesis using 1(2) by (subst (1 2) scan_cps.simps) (simp add: a)
    qed
  qed
qed

lemma break_scan_bounds: "pos \<le> length s \<Longrightarrow> break_scan cls s pos \<le> length s"
  by (auto simp: break_scan_def find_byte_def scan_while_bounds scan_cps_bounds
      split: char_class.splits option.splits)

lemma len_loop_bounds: "len_loop s pos n = Some p \<Longrightarrow> pos \<le> length s \<Longrightarrow> pos \<le> p \<and> p \<le> length s"
proof (induction s pos n rule: len_loop.induct)
  case (2 s pos n)
  then obtain cp k where a: "utf8_peek_next s pos = Some (cp, k)" "len_loop s (pos + k) n = Some p"
    by (auto split: option.splits)
  then show ?case using "2.IH" [OF a(1) refl a(2) utf8_peek_next_end [OF a(1)]] by simp
qed simp

lemma skip_back_le: "skip_back s t \<le> t"
  by (induction s t rule: skip_back.induct) auto

lemma walk_back_le: "walk_back s t n \<le> t"
proof (induction s t n rule: walk_back.induct)
  case (2 s t n)
  show ?case
  proof (cases "0 < t")
    case True
    then show ?thesis using "2.IH" skip_back_le [of s "t - 1"] by simp
  qed simp
qed simp

lemma walk_fwd_le: "t \<le> length s \<Longrightarrow> walk_fwd s t n \<le> length s"
proof (induction s t n rule: walk_fwd.induct)
  case (2 s t n)
  then show ?case using scan_while_bounds [of "t + 1" s is_continuation] by auto
qed simp

lemma bal_loop_bounds: "bal_loop s oc cc pos d = Some p \<Longrightarrow> p \<le> length s"
proof (induction s oc cc pos d rule: bal_loop.induct)
  case (1 s oc cc pos d)
  obtain cp n where a: "utf8_peek_next s pos = Some (cp, n)"
    using 1(4) by (subst (asm) bal_loop.simps) (auto split: option.splits)
  have u: "bal_loop s oc cc pos d =
      (if cp = oc then bal_loop s oc cc (pos + n) (d + 1)
       else if cp = cc then if d - 1 = 0 then Some (pos + n) else bal_loop s oc cc (pos + n) (d - 1)
       else bal_loop s oc cc (pos + n) d)"
    by (subst bal_loop.simps) (simp add: a)
  consider "cp = oc" | "cp \<noteq> oc" "cp = cc" "d - 1 = 0" | "cp \<noteq> oc" "cp = cc" "d - 1 \<noteq> 0" | "cp \<noteq> oc" "cp \<noteq> cc"
    by blast
  then show ?case
  proof cases
    case 1
    then show ?thesis using "1.IH"(1) [OF a refl] "1.prems" u by simp
  next
    case 2
    then show ?thesis using utf8_peek_next_end [OF a] "1.prems" u by simp
  next
    case 3
    then show ?thesis using "1.IH"(2) [OF a refl] "1.prems" u by simp
  next
    case 4
    then show ?thesis using "1.IH"(3) [OF a refl] "1.prems" u by simp
  qed
qed

section \<open>The invariant\<close>

definition all_le :: "nat \<Rightarrow> nat list \<Rightarrow> bool" where
  "all_le n xs \<longleftrightarrow> (\<forall>x \<in> set xs. x \<le> n)"

lemma all_le_update [simp]: "all_le n xs \<Longrightarrow> x \<le> n \<Longrightarrow> all_le n (xs[i := x])"
  using set_update_subset_insert [of xs i x] by (auto simp: all_le_def)

lemma all_le_nth: "all_le n xs \<Longrightarrow> i < length xs \<Longrightarrow> xs ! i \<le> n"
  by (simp add: all_le_def)

lemma all_le_take: "all_le n xs \<Longrightarrow> all_le n (take k xs)"
  by (auto simp: all_le_def dest: in_set_takeD)

lemma all_le_overwrite: "all_le n xs \<Longrightarrow> all_le n ys \<Longrightarrow> all_le n (overwrite xs ys)"
  by (auto simp: all_le_def overwrite_def dest: in_set_dropD)

lemma length_overwrite: "length ys \<le> length xs \<Longrightarrow> length (overwrite xs ys) = length xs"
  by (simp add: overwrite_def)

definition undo_within :: "nat \<Rightarrow> undo_record \<Rightarrow> bool" where
  "undo_within B r \<longleftrightarrow> un_prior_a r \<le> B \<and> un_prior_b r \<le> B"

fun rec_within :: "nat \<Rightarrow> nat \<Rightarrow> choice_rec \<Rightarrow> bool" where
  "rec_within B n (Compact h) = (ch_pos h \<le> n)"
| "rec_within B n (Snapshot c) =
     (cs_pos c \<le> n \<and> all_le B (cs_cap_start c) \<and> all_le B (cs_cap_end c) \<and>
      length (cs_cap_start c) \<le> MAX_CAPS \<and> length (cs_cap_end c) \<le> MAX_CAPS)"

definition within :: "nat \<Rightarrow> nat \<Rightarrow> vm \<Rightarrow> bool" where
  "within B n v \<longleftrightarrow> n \<le> B \<and> length (vm_s v) = n \<and> vm_pos v \<le> n \<and>
     all_le B (cap_start v) \<and> all_le B (cap_end v) \<and> all_le B (var_start v) \<and> all_le B (var_end v) \<and>
     length (cap_start v) = MAX_CAPS \<and> length (cap_end v) = MAX_CAPS \<and>
     length (var_start v) = MAX_VARS \<and> length (var_end v) = MAX_VARS \<and>
     list_all (undo_within B) (vm_trail v) \<and> list_all (rec_within B n) (stack_of v) \<and>
     (\<forall>a. choices_arena v = Some a \<longrightarrow> arena_wf a)"

lemma withinD:
  assumes "within B n v"
  shows "length (vm_s v) = n" "vm_pos v \<le> n" "all_le B (cap_start v)" "all_le B (cap_end v)"
    "all_le B (var_start v)" "all_le B (var_end v)" "length (cap_start v) = MAX_CAPS"
    "length (cap_end v) = MAX_CAPS" "length (var_start v) = MAX_VARS" "length (var_end v) = MAX_VARS"
    "list_all (undo_within B) (vm_trail v)" "list_all (rec_within B n) (stack_of v)"
    "choices_arena v = Some a \<Longrightarrow> arena_wf a" "n \<le> B"
  using assms by (simp_all add: within_def)

text \<open>What is left of it between two runs: the cursor and the choices are set up anew.\<close>

definition regs_within :: "nat \<Rightarrow> vm \<Rightarrow> bool" where
  "regs_within B v \<longleftrightarrow> all_le B (cap_start v) \<and> all_le B (cap_end v) \<and> all_le B (var_start v) \<and> all_le B (var_end v) \<and>
     length (cap_start v) = MAX_CAPS \<and> length (cap_end v) = MAX_CAPS \<and>
     length (var_start v) = MAX_VARS \<and> length (var_end v) = MAX_VARS \<and>
     list_all (undo_within B) (vm_trail v) \<and> (\<forall>a. choices_arena v = Some a \<longrightarrow> arena_wf a)"

lemma within_regs: "within B n v \<Longrightarrow> regs_within B v"
  by (simp add: within_def regs_within_def)

lemma regs_within_cong:
  assumes "regs_within B v" "cap_start w = cap_start v" "cap_end w = cap_end v" "var_start w = var_start v"
    "var_end w = var_end v" "vm_trail w = vm_trail v" "choices_arena w = choices_arena v"
  shows "regs_within B w"
  using assms by (simp add: regs_within_def)

text \<open>Fields the invariant does not look at.\<close>

lemma stack_of_cong: "choices_arena v = choices_arena w \<Longrightarrow> stack_of v = stack_of w"
  by (simp add: stack_of_def)

lemma within_cong:
  assumes "within B n v" "vm_s w = vm_s v" "vm_pos w \<le> n" "cap_start w = cap_start v" "cap_end w = cap_end v"
    "var_start w = var_start v" "var_end w = var_end v" "vm_trail w = vm_trail v"
    "choices_arena w = choices_arena v"
  shows "within B n w"
  using assms stack_of_cong [OF assms(9)] by (simp add: within_def)

lemma within_pos: "within B n v \<Longrightarrow> p \<le> n \<Longrightarrow> within B n (v\<lparr>vm_pos := p\<rparr>)"
  by (rule within_cong) simp_all

lemma within_ip: "within B n v \<Longrightarrow> within B n (v\<lparr>vm_ip := i\<rparr>)"
  by (rule within_cong) (simp_all add: withinD)

section \<open>Choices and the trail\<close>

lemma undo_one_within: "undo_within B r \<Longrightarrow> within B n v \<Longrightarrow> within B n (undo_one r v)"
  by (cases "un_kind r") (auto simp: within_def undo_one_def undo_within_def stack_of_def)

lemma undo_all_within: "list_all (undo_within B) rs \<Longrightarrow> within B n v \<Longrightarrow> within B n (undo_all rs v)"
  by (induction rs arbitrary: v) (simp_all add: undo_one_within)

lemma within_trail: "within B n v \<Longrightarrow> list_all (undo_within B) rs \<Longrightarrow> within B n (v\<lparr>vm_trail := rs\<rparr>)"
  by (simp add: within_def stack_of_def)

lemma within_arena:
  "within B n v \<Longrightarrow> arena_wf a \<Longrightarrow> list_all (rec_within B n) (arena_stack a) \<Longrightarrow>
     within B n (v\<lparr>choices_arena := Some a\<rparr>)"
  by (simp add: within_def stack_of_def)

lemma list_all_takeI: "list_all P xs \<Longrightarrow> list_all P (take k xs)"
  by (auto simp: list_all_iff dest: in_set_takeD)

lemma list_all_dropI: "list_all P xs \<Longrightarrow> list_all P (drop k xs)"
  by (auto simp: list_all_iff dest: in_set_dropD)

lemma restore_within:
  assumes "within B n v"
  shows "ch_pos h \<le> n \<Longrightarrow> within B n (restore_compact v h)"
    and "rec_within B n (Snapshot c) \<Longrightarrow> within B n (restore_snapshot v c)"
proof -
  assume h: "ch_pos h \<le> n"
  let ?v = "v\<lparr>vm_ip := ch_ip h, vm_pos := ch_pos h, var_count := ch_var_count h,
          max_cap_used := ch_max_cap_used h, max_counter_used := ch_max_counter_used h\<rparr>"
  have v: "within B n ?v" by (rule within_cong [OF assms]) (simp_all add: h)
  have t: "list_all (undo_within B) (vm_trail ?v)" using withinD(11) [OF v] .
  show "within B n (restore_compact v h)"
    unfolding restore_compact_def vm_trail_replay_def Let_def
    by (intro within_trail undo_all_within v list_all_takeI list_all_dropI t)
next
  assume c: "rec_within B n (Snapshot c)"
  show "within B n (restore_snapshot v c)"
    using assms c
    by (simp add: within_def restore_snapshot_def stack_of_def all_le_overwrite length_overwrite)
qed

lemma pop_within:
  assumes "within B n v" "vm_pop_choice v = Some w"
  shows "within B n w"
proof -
  have "vm_pop_choice v = None" if "choices_arena v = None" using that by (simp add: vm_pop_choice_def)
  then obtain a where a: "choices_arena v = Some a" using assms(2) by fastforce
  have "vm_pop_choice v = None" if "ar_total_used a = 0" using that a by (simp add: vm_pop_choice_def)
  note a = a this
  have wf: "arena_wf a" using withinD(13) [OF assms(1) a(1)] .
  then have ne: "arena_stack a \<noteq> []" using arena_total_0 a(2) assms(2) by fastforce
  obtain fp r where t: "arena_tail (ar_cur a) = Some (fp, r)" "r = hd (arena_stack a)"
    using arena_tail_top [OF wf ne] by metis
  have st: "list_all (rec_within B n) (arena_stack a)"
    using withinD(12) [OF assms(1)] a(1) by (simp add: stack_of_def)
  then have r: "rec_within B n r" "list_all (rec_within B n) (tl (arena_stack a))"
    using ne t(2) by (cases "arena_stack a"; simp)+
  define x where "x = (case r of Compact h \<Rightarrow> restore_compact v h | Snapshot c \<Rightarrow> restore_snapshot v c)"
  have x: "within B n x" using restore_within [OF assms(1)] r(1) by (cases r) (simp_all add: x_def)
  have w: "w = x\<lparr>choices_arena := Some (vm_arena_pop_last a),
      choices_top := ar_total_used (vm_arena_pop_last a), choice_live_depth := choice_live_depth v - 1\<rparr>"
    using assms(2) a t(1) ne arena_total_0 [OF wf] by (simp add: vm_pop_choice_def x_def Let_def)
  have "within B n (x\<lparr>choices_arena := Some (vm_arena_pop_last a)\<rparr>)"
    by (rule within_arena [OF x]) (simp_all add: vm_arena_pop_last_wf [OF wf] r)
  then show ?thesis by (rule within_cong) (simp_all add: w withinD(2) [OF x])
qed

lemma push_within:
  assumes "within B n v" "pos \<le> n"
  shows "within B n (vm_push_choice v ip pos)"
proof (cases "choices_arena v")
  case None
  then show ?thesis using assms(1) by (simp add: vm_push_choice_def)
next
  case (Some a)
  have wf: "arena_wf a" using withinD(13) [OF assms(1) Some] .
  have st: "list_all (rec_within B n) (arena_stack a)"
    using withinD(12) [OF assms(1)] Some by (simp add: stack_of_def)
  have count: "within B n (count_push v b k)" if "arena_wf b" "list_all (rec_within B n) (arena_stack b)" for b k
    by (rule within_cong [OF within_arena [OF assms(1) that]])
      (simp_all add: count_push_def Let_def withinD(2) [OF assms(1)])
  have "rec_within B n (Compact (compact_header v ip pos))" using assms(2) by (simp add: compact_header_def)
  moreover have "rec_within B n (Snapshot (full_snapshot v ip pos))"
    using assms(2) withinD [OF assms(1)] by (simp add: full_snapshot_def all_le_take)
  ultimately show ?thesis
    using Some st by (simp add: vm_push_choice_def count vm_arena_alloc_wf [OF wf])
qed

lemma push_fields [simp]:
  "vm_s (vm_push_choice v ip p) = vm_s v" "vm_pos (vm_push_choice v ip p) = vm_pos v"
  "vm_bc (vm_push_choice v ip p) = vm_bc v"
  by (simp_all add: vm_push_choice_def count_push_def Let_def split: option.splits)

section \<open>Outcomes\<close>

definition stays :: "nat \<Rightarrow> nat \<Rightarrow> outcome \<Rightarrow> bool" where
  "stays B n out = (case out of Go w \<Rightarrow> within B n w | Done b w \<Rightarrow> within B n w | _ \<Rightarrow> True)"

lemma stays_simps [simp]:
  "stays B n (Go w) = within B n w" "stays B n (Done b w) = within B n w" "stays B n Fault" "stays B n Unfinished"
  by (simp_all add: stays_def)

lemma within_no_arena: "within B n v \<Longrightarrow> within B n (v\<lparr>choices_arena := None\<rparr>)"
  by (simp add: within_def stack_of_def)

lemma end_run_within: "within B n v \<Longrightarrow> within B n (end_run v)"
proof -
  assume v: "within B n v"
  have "within B n (vm_trail_free (v\<lparr>choices_arena := None, vm_write_log := l\<rparr>))" for l
    unfolding vm_trail_free_def
    by (rule within_cong [OF within_trail [OF within_no_arena [OF v], of "[]"]]) (simp_all add: withinD(2) [OF v])
  then show ?thesis using v within_no_arena [OF v] by (simp add: end_run_def Let_def)
qed

lemma backtrack_stays: "within B n v \<Longrightarrow> stays B n (backtrack v)"
  using pop_within [of B n v] by (auto simp: backtrack_def fail_ret_def end_run_within split: option.splits)

lemma backtrack_break_stays: "within B n v \<Longrightarrow> stays B n (backtrack_break v)"
  using pop_within [of B n v] by (auto simp: backtrack_break_def fail_ret_def end_run_within split: option.splits)

lemma stays_if: "(b \<Longrightarrow> stays B n x) \<Longrightarrow> (\<not> b \<Longrightarrow> stays B n y) \<Longrightarrow> stays B n (if b then x else y)"
  by simp

lemma stays_option:
  "(opt = None \<Longrightarrow> stays B n x) \<Longrightarrow> (\<And>a. opt = Some a \<Longrightarrow> stays B n (f a)) \<Longrightarrow>
     stays B n (case opt of None \<Rightarrow> x | Some a \<Rightarrow> f a)"
  by (cases opt) simp_all

lemma stays_prod: "(\<And>a b. p = (a, b) \<Longrightarrow> stays B n (f a b)) \<Longrightarrow> stays B n (case p of (a, b) \<Rightarrow> f a b)"
  by (cases p) simp

lemma stays_class:
  "stays B n x \<Longrightarrow> (\<And>bm. cls = Ascii_Class bm \<Longrightarrow> stays B n (f bm)) \<Longrightarrow>
     (\<And>r k. cls = Range_Class r k \<Longrightarrow> stays B n (g r k)) \<Longrightarrow> stays B n t \<Longrightarrow>
     stays B n (case cls of No_Class \<Rightarrow> x | Ascii_Class bm \<Rightarrow> f bm | Range_Class r k \<Rightarrow> g r k
        | Truncated_Class \<Rightarrow> t)"
  by (cases cls) simp_all

lemma stays_label:
  "stays B n x \<Longrightarrow> (\<And>t. stays B n (f t)) \<Longrightarrow> stays B n y \<Longrightarrow>
     stays B n (case l of No_Label \<Rightarrow> x | Label_At t \<Rightarrow> f t | Unwritten \<Rightarrow> y)"
  by (cases l) simp_all

lemmas stays_branches = stays_if stays_option stays_prod stays_class stays_label

section \<open>The instructions\<close>

lemma stays_Go: "within B n v \<Longrightarrow> stays B n (Go v)"
  by simp

lemmas stays_intros = stays_branches backtrack_stays backtrack_break_stays stays_Go within_pos

lemma peek_within: "within B n v \<Longrightarrow> utf8_peek_next (vm_s v) p = Some (cp, k) \<Longrightarrow> p + k \<le> n"
  using utf8_peek_next_end withinD(1) by metis

lemma jump_stays:
  assumes "within B n v"
  shows "stays B n (op_nop v)" "stays B n (op_accept v)" "stays B n (op_fail v)" "stays B n (op_jmp v)"
    "stays B n (op_succeed v)" "stays B n (op_split v)" "stays B n (op_label v)" "stays B n (op_goto v)"
    "stays B n (op_goto_f v)" "stays B n (op_anchor v)"
  unfolding op_nop_def op_accept_def op_fail_def op_jmp_def op_succeed_def op_split_def op_label_def
    op_goto_def op_goto_f_def op_anchor_def operand_simps Let_def prod.case
  by ((intro stays_branches backtrack_stays stays_Go)?;
      simp add: assms end_run_within within_ip push_within withinD(2) [OF assms] within_cong [OF assms])+

lemma move_stays:
  assumes "within B n v"
  shows "stays B n (op_len v)" "stays B n (op_rem v)" "stays B n (op_rpos v)" "stays B n (op_rtab v)"
    "stays B n (op_pos v)" "stays B n (op_tab v)" "stays B n (op_bal v)" "stays B n (op_lit v)"
proof -
  note len = withinD(1) [OF assms]
  note pos = withinD(2) [OF assms]
  have loop: "len_loop (vm_s v) (vm_pos v) k = Some p \<Longrightarrow> p \<le> n" for k p
    using len_loop_bounds pos len by blast
  have bal: "bal_loop (vm_s v) oc cc p d = Some q \<Longrightarrow> q \<le> n" for oc cc p d q
    using bal_loop_bounds len by blast
  have fwd: "walk_fwd (vm_s v) 0 k \<le> n" for k using walk_fwd_le [of 0 "vm_s v"] len by simp
  have bwd: "walk_back (vm_s v) n k \<le> n" for k by (rule walk_back_le)
  show "stays B n (op_len v)" "stays B n (op_rem v)" "stays B n (op_rpos v)" "stays B n (op_rtab v)"
    "stays B n (op_pos v)" "stays B n (op_tab v)" "stays B n (op_bal v)" "stays B n (op_lit v)"
    unfolding op_len_def op_rem_def op_rpos_def op_rtab_def op_pos_def op_tab_def op_bal_def op_lit_def
      operand_simps Let_def prod.case move_to_def
    by ((intro stays_branches backtrack_stays backtrack_break_stays stays_Go)?;
        simp add: assms within_ip within_pos len loop bal fwd bwd split: if_splits)+
qed

lemma class_stays:
  assumes "within B n v"
  shows "stays B n (op_any v)" "stays B n (op_notany v)" "stays B n (op_span v)" "stays B n (op_break v)"
    "stays B n (op_breakx v)"
proof -
  note len = withinD(1) [OF assms]
  note pos = withinD(2) [OF assms]
  note peek = peek_within [OF assms]
  have bytes: "Suc p \<le> n \<Longrightarrow> scan_while P (vm_s v) (Suc p) \<le> n" for P p
    using scan_while_bounds [of "Suc p" "vm_s v"] len by simp
  have cps: "utf8_peek_next (vm_s v) p = Some (cp, k) \<Longrightarrow> scan_cps P (vm_s v) (p + k) \<le> n" for P p cp k
    using scan_cps_bounds [of "p + k" "vm_s v"] peek len by simp
  have brk: "break_scan cls (vm_s v) (vm_pos v) \<le> n" for cls
    using break_scan_bounds [of "vm_pos v" "vm_s v"] pos len by simp
  have skip: "p < n \<Longrightarrow> p + (case utf8_peek_next (vm_s v) p of None \<Rightarrow> 1 | Some (cp, k) \<Rightarrow> k) \<le> n" for p
    using peek by (auto split: option.splits)
  show "stays B n (op_any v)" "stays B n (op_notany v)" "stays B n (op_span v)" "stays B n (op_break v)"
    unfolding op_any_def op_notany_def op_span_def op_break_def
      operand_simps Let_def prod.case move_to_def
    by ((intro stays_branches backtrack_stays stays_Go)?;
        simp add: assms within_ip within_pos len peek bytes cps brk split: if_splits)+
  show "stays B n (op_breakx v)"
    unfolding op_breakx_def operand_simps Let_def prod.case move_to_def
    using skip by ((intro stays_branches stays_Go push_within within_pos within_ip)?; simp add: assms len brk)+
qed

lemma within_output: "within B n v \<Longrightarrow> within B n (emit v bs)"
  by (rule within_cong) (simp_all add: emit_def withinD)

lemma within_operands:
  "within B n v \<Longrightarrow> within B n (v\<lparr>dyn_pending_source := a, dyn_pending_bc := b\<rparr>)"
  "within B n v \<Longrightarrow> within B n (v\<lparr>vm_table_store := t\<rparr>)"
  "within B n v \<Longrightarrow> within B n (v\<lparr>vm_array_store := r\<rparr>)"
  by (rule within_cong; simp add: withinD)+

lemma emit_stays:
  assumes "within B n v"
  shows "stays B n (op_emit_literal v)" "stays B n (op_emit_capture v)" "stays B n (op_emit_expr v)"
    "stays B n (op_emit_format v)" "stays B n (op_emit_table v)"
  unfolding op_emit_literal_def op_emit_capture_def op_emit_expr_def op_emit_format_def
    op_emit_table_def emit_value_def skip_name_def operand_simps Let_def prod.case
  by ((intro stays_branches stays_Go within_output)?; simp add: assms within_ip within_output)+

lemma eval_stays:
  assumes "within B n v"
  shows "stays B n (op_eval v)"
proof -
  have "within B n w" if "eval_builtin u f r = (ok, w)" "within B n u" for u f r ok w
    using that by (auto simp: eval_builtin_def eval_text_def Let_def within_output
        split: if_splits prod.splits option.splits bool.splits)
  then show ?thesis
    unfolding op_eval_def operand_simps Let_def prod.case
    by ((intro stays_branches backtrack_stays stays_Go)?; simp add: assms within_ip split: if_splits)+
qed

lemma store_stays:
  assumes "within B n v"
  shows "stays B n (op_table_get v)" "stays B n (op_table_set v)" "stays B n (op_array_get v)"
    "stays B n (op_array_set v)" "stays B n (op_dynamic_def v)"
  unfolding op_table_get_def op_table_set_def op_array_get_def op_array_set_def op_dynamic_def_def
    skip_name_def operand_simps Let_def prod.case
  by ((intro stays_branches backtrack_break_stays stays_Go)?;
      simp add: assms within_ip within_operands withinD(2) [OF assms] within_cong [OF assms])+

lemma trail_push_within:
  "within B n v \<Longrightarrow> undo_within B r \<Longrightarrow> within B n (vm_trail_push v r)"
  by (simp add: vm_trail_push_def within_trail withinD(11))

lemma write_within:
  assumes "within B n v"
  shows "r < MAX_CAPS \<Longrightarrow> within B n (write_cap_start v r)" "r < MAX_CAPS \<Longrightarrow> within B n (write_cap_end v r)"
    "var < MAX_VARS \<Longrightarrow> r < MAX_CAPS \<Longrightarrow> within B n (write_var v var r)"
proof -
  note w = withinD [OF assms]
  have pos: "vm_pos v \<le> B" using w(2,14) by simp
  have get: "r < MAX_CAPS \<Longrightarrow> cap_start v ! r \<le> B" "r < MAX_CAPS \<Longrightarrow> cap_end v ! r \<le> B"
    "var < MAX_VARS \<Longrightarrow> var_start v ! var \<le> B" "var < MAX_VARS \<Longrightarrow> var_end v ! var \<le> B"
    using w by (simp_all add: all_le_nth)
  have cap: "r < MAX_CAPS \<Longrightarrow> within B n (vm_trail_cap_write v r k (cap_start v ! r) (cap_end v ! r))" for k
    using assms get by (simp add: vm_trail_cap_write_def trail_push_within undo_within_def blank_undo_def)
  have var: "var < MAX_VARS \<Longrightarrow> within B n (vm_trail_var_write v var (var_start v ! var) (var_end v ! var))"
    using assms get by (simp add: vm_trail_var_write_def trail_push_within undo_within_def blank_undo_def)
  have cs: "within B n u \<Longrightarrow> x \<le> B \<Longrightarrow> within B n (u\<lparr>cap_start := (cap_start u)[r := x]\<rparr>)"
    and ce: "within B n u \<Longrightarrow> x \<le> B \<Longrightarrow> within B n (u\<lparr>cap_end := (cap_end u)[r := x]\<rparr>)"
    and vs: "within B n u \<Longrightarrow> x \<le> B \<Longrightarrow> y \<le> B \<Longrightarrow>
      within B n (u\<lparr>var_start := (var_start u)[var := x], var_end := (var_end u)[var := y]\<rparr>)" for u x y
    by (simp_all add: within_def stack_of_def)
  have mx: "within B n u \<Longrightarrow> within B n (u\<lparr>max_cap_used := k\<rparr>)"
    and vc: "within B n u \<Longrightarrow> within B n (u\<lparr>var_count := k\<rparr>)" for u k
    by (rule within_cong; simp add: withinD)+
  have keep: "vm_pos (vm_trail_cap_write v r k a b) = vm_pos v" "cap_start (vm_trail_var_write v var a b) = cap_start v"
    "cap_end (vm_trail_var_write v var a b) = cap_end v" for k a b
    by (simp_all add: vm_trail_cap_write_def vm_trail_var_write_def vm_trail_push_def)
  show "r < MAX_CAPS \<Longrightarrow> within B n (write_cap_start v r)" "r < MAX_CAPS \<Longrightarrow> within B n (write_cap_end v r)"
    unfolding write_cap_start_def write_cap_end_def Let_def
    using assms pos cap by (simp_all add: mx cs ce keep)
  assume "var < MAX_VARS" "r < MAX_CAPS"
  then show "within B n (write_var v var r)"
    unfolding write_var_def Let_def using assms var get vc vs by (simp add: keep)
qed

lemma capture_stays:
  assumes "within B n v"
  shows "stays B n (op_cap_start v)" "stays B n (op_cap_end v)" "stays B n (op_assign v)"
  unfolding op_cap_start_def op_cap_end_def op_assign_def operand_simps Let_def prod.case
  by ((intro stays_branches stays_Go)?; simp add: assms write_within within_ip)+

lemma cut_stays:
  assumes "within B n v"
  shows "stays B n (op_fence v)" "stays B n (op_abort v)"
proof -
  have r: "within B n (v\<lparr>choices_arena := map_option vm_arena_reset (choices_arena v)\<rparr>)"
    using assms by (cases "choices_arena v") (simp_all add: within_def stack_of_def vm_arena_reset_wf)
  have "within B n (v\<lparr>choices_arena := map_option vm_arena_reset (choices_arena v), choices_top := 0\<rparr>)"
    by (rule within_cong [OF r]) (simp_all add: withinD(2) [OF assms])
  then show "stays B n (op_fence v)" by (simp add: op_fence_def)
  have "within B n (v\<lparr>abort_flag := True, choices_arena := map_option vm_arena_reset (choices_arena v),
      choices_top := 0\<rparr>)"
    by (rule within_cong [OF r]) (simp_all add: withinD(2) [OF assms])
  then show "stays B n (op_abort v)" by (simp add: op_abort_def end_run_within)
qed

lemma within_loops:
  "within B n v \<Longrightarrow> within B n (v\<lparr>counters := cs\<rparr>)" "within B n v \<Longrightarrow> within B n (v\<lparr>loop_last_pos := ps\<rparr>)"
  "within B n v \<Longrightarrow> within B n (v\<lparr>loop_span_greedy := gs\<rparr>)" "within B n v \<Longrightarrow> within B n (v\<lparr>max_counter_used := k\<rparr>)"
  "within B n v \<Longrightarrow> within B n (v\<lparr>loop_min := cs\<rparr>)" "within B n v \<Longrightarrow> within B n (v\<lparr>loop_max := cs\<rparr>)"
  by (rule within_cong; simp add: withinD)+

lemma counter_within: "within B n v \<Longrightarrow> within B n (vm_trail_counter_inc v l c p)"
  by (simp add: vm_trail_counter_inc_def trail_push_within undo_within_def blank_undo_def)

lemma counter_fields [simp]:
  "vm_pos (vm_trail_counter_inc v l c p) = vm_pos v"
  by (simp add: vm_trail_counter_inc_def vm_trail_push_def)

text \<open>The cast to 32 bits in the greedy path does no harm to subjects below 2 GiB.\<close>

lemma add_int32_small: "pos + extra \<le> n \<Longrightarrow> n < 2 ^ 31 \<Longrightarrow> add_int32 pos extra = pos + extra"
proof -
  assume a: "pos + extra \<le> n" "n < 2 ^ 31"
  have "sint (of_nat extra :: u32) = int extra"
    using a by (simp add: signed_of_nat signed_take_bit_int_eq_self)
  then show ?thesis using a by (simp add: add_int32_def nat_eq_iff)
qed

lemma greedy_within:
  assumes "within B n v" "n < 2 ^ 31" "greedy_commit v l target = Some w"
  shows "within B n w"
proof -
  have run: "add_int32 (vm_pos v) (scan_while P (vm_s v) (vm_pos v) - vm_pos v) \<le> n" for P
    using scan_while_bounds [of "vm_pos v" "vm_s v" P] withinD(1,2) [OF assms(1)]
      add_int32_small [OF _ assms(2)] by simp
  have "within B n (v\<lparr>vm_pos := add_int32 (vm_pos v) (scan_while P (vm_s v) (vm_pos v) - vm_pos v), counters := cs\<rparr>)"
    for P cs by (rule within_loops(1) [OF within_pos [OF assms(1) run]])
  then show ?thesis
    using assms(1,3) by (auto simp: greedy_commit_def Let_def counter_within
        split: option.splits prod.splits if_splits)
qed

lemma repeat_stays:
  assumes "within B n v" "n < 2 ^ 31"
  shows "stays B n (op_repeat_init v)" "stays B n (op_repeat_step v)"
proof -
  show "stays B n (op_repeat_init v)"
    unfolding op_repeat_init_def operand_simps Let_def prod.case
    by ((intro stays_branches stays_Go)?;
        simp add: assms within_loops within_ip push_within withinD(2) [OF assms(1)])+
  have again: "within B n w \<Longrightarrow> within B n (repeat_again w l t)" for w l t
    unfolding repeat_again_def by (rule within_cong) (simp_all add: withinD)
  have normal: "within B n w \<Longrightarrow> stays B n (repeat_normal w l t)" for w l t
    unfolding repeat_normal_def Let_def
    by ((intro stays_branches stays_Go)?;
        simp add: again push_within counter_within within_loops withinD(2))+
  have greedy: "within B n w \<Longrightarrow> stays B n (repeat_greedy w l t i)" for w l t i
  proof -
    assume w: "within B n w"
    show ?thesis
    proof (cases "greedy_commit w l t")
      case (Some x)
      have x: "within B n x" using greedy_within [OF w assms(2) Some] .
      have "vm_pos x - 1 \<le> n" using withinD(2) [OF x] by simp
      then show ?thesis using x by (simp add: repeat_greedy_def Some Let_def within_loops push_within)
    qed (simp add: repeat_greedy_def)
  qed
  show "stays B n (op_repeat_step v)"
    unfolding op_repeat_step_def operand_simps Let_def prod.case
    by ((intro stays_if normal greedy)?; simp add: assms within_ip within_loops)+
qed

section \<open>Dynamic patterns and the loop\<close>

lemma lookup_within: "dynamic_lookup v source bc = Some (a, w) \<Longrightarrow> within B n v \<Longrightarrow> within B n w"
proof -
  assume a: "dynamic_lookup v source bc = Some (a, w)" "within B n v"
  have "within B n (v\<lparr>dyn_store := st\<rparr>)" "within B n (v\<lparr>dyn_store := st, dyn_cache := c\<rparr>)" for st c
    by (rule within_cong [OF a(2)]; simp add: withinD(2) [OF a(2)])+
  then show ?thesis
    using a(1) by (auto simp: dynamic_lookup_def Let_def split: option.splits prod.splits if_splits)
qed

lemma enter_within: "within B n v \<Longrightarrow> within B n (enter_dynamic v bc)"
  by (simp add: within_def enter_dynamic_def stack_of_def)

lemma leave_within: "within B n v \<Longrightarrow> within B n w \<Longrightarrow> within B n (leave_dynamic v w)"
  by (simp add: within_def leave_dynamic_def stack_of_def)

lemma restore_captures_within:
  "within B n v \<Longrightarrow> within B n w \<Longrightarrow>
     within B n (w\<lparr>vm_pos := vm_pos v, cap_start := cap_start v, cap_end := cap_end v\<rparr>)"
  by (simp add: within_def stack_of_def)

lemma release_within: "within B n v \<Longrightarrow> within B n (release_dynamic v a)"
  unfolding release_dynamic_def by (rule within_cong) (simp_all add: withinD)

lemma dynamic_stays:
  assumes "within B n v" "\<And>w. within B n w \<Longrightarrow> stays B n (run w)"
  shows "stays B n (op_dynamic run v)"
proof (cases "dyn_pending_source v")
  case None
  then show ?thesis using assms(1) by (simp add: op_dynamic_def fail_ret_def end_run_within)
next
  case (Some source)
  note src = this
  show ?thesis
  proof (cases "dyn_pending_bc v")
    case None
    then show ?thesis using assms(1) src by (simp add: op_dynamic_def fail_ret_def end_run_within)
  next
    case (Some bc)
    have go: "stays B n
        (case run (enter_dynamic u b) of
           Done True w \<Rightarrow> Go (release_dynamic (leave_dynamic u w) a)
         | Done False w \<Rightarrow>
             fail_ret (release_dynamic ((leave_dynamic u w)\<lparr>vm_pos := vm_pos u,
                cap_start := cap_start u, cap_end := cap_end u\<rparr>) a)
         | Go w \<Rightarrow> Fault | Fault \<Rightarrow> Fault | Unfinished \<Rightarrow> Unfinished)" if u: "within B n u" for u b a
      using assms(2) [OF enter_within [OF u, of b]] u
      by (auto simp: fail_ret_def end_run_within release_within leave_within restore_captures_within
          split: outcome.splits bool.splits)
    show ?thesis
      unfolding op_dynamic_def src Some prod.case option.case
      by (intro stays_option stays_prod stays_simps; (elim lookup_within go | simp))
        (auto intro!: go simp: lookup_within assms(1))
  qed
qed

lemma exec_op_stays:
  assumes "within B n v" "n < 2 ^ 31" "\<And>w. within B n w \<Longrightarrow> stays B n (run w)"
  shows "stays B n (exec_op run oc v)"
  using assms
  by (cases oc)
    (simp_all add: jump_stays move_stays class_stays emit_stays eval_stays store_stays capture_stays
      cut_stays repeat_stays dynamic_stays)

lemma vm_step_stays:
  assumes "within B n v" "n < 2 ^ 31" "\<And>w. within B n w \<Longrightarrow> stays B n (run w)"
  shows "stays B n (vm_step run v)"
  unfolding vm_step_def
  by (intro stays_branches backtrack_stays exec_op_stays within_ip assms stays_simps)

lemma vm_start_within:
  assumes "regs_within B v" "length (vm_s v) = n" "vm_pos v \<le> n" "n \<le> B"
  shows "within B n (vm_start legacy v)"
  using assms
  by (cases "choices_arena v")
    (auto simp: within_def regs_within_def vm_start_def Let_def vm_trail_clear_def stack_of_def vm_arena_reset_wf
      vm_arena_create_wf)

lemma vm_loop_stays:
  assumes "n < 2 ^ 31"
  shows "within B n v \<Longrightarrow> stays B n (vm_loop legacy k v)"
proof (induction k arbitrary: v)
  case (Suc k)
  let ?run = "\<lambda>w. vm_loop legacy k (vm_start legacy w)"
  have "stays B n (vm_step ?run v)"
    by (rule vm_step_stays [OF Suc.prems assms]) (simp add: Suc.IH vm_start_within within_regs withinD)
  then show ?case using Suc.IH by (cases "vm_step ?run v") simp_all
qed simp

section \<open>The property\<close>

lemma register_labels_regs:
  "regs_within B v \<Longrightarrow> regs_within B (register_labels v t i k) \<and>
     vm_s (register_labels v t i k) = vm_s v \<and> vm_pos (register_labels v t i k) = vm_pos v"
proof (induction v t i k rule: register_labels.induct)
  case (2 v t i k)
  have "regs_within B (vm_register_label v a b)" "vm_s (vm_register_label v a b) = vm_s v"
    "vm_pos (vm_register_label v a b) = vm_pos v" for a b
    using regs_within_cong [OF 2(2)] by (simp_all add: vm_register_label_def Let_def)
  then show ?case using "2.IH" by simp
qed simp

lemma vm_exec_prepare_regs:
  assumes "regs_within B v"
    and "u = load_labels (if label_offsets (vm_init_registers v) = None
      then vm_init_labels (vm_init_registers v) else vm_init_registers v)"
  shows "regs_within B u \<and> vm_s u = vm_s v \<and> vm_pos u = 0"
proof -
  have i: "regs_within B (vm_init_registers v)" "vm_s (vm_init_registers v) = vm_s v" "vm_pos (vm_init_registers v) = 0"
    unfolding vm_init_registers_def by (rule regs_within_cong [OF assms(1)]; simp) simp_all
  have "regs_within B (vm_init_labels (vm_init_registers v))"
    unfolding vm_init_labels_def by (rule regs_within_cong [OF i(1)]) simp_all
  then show ?thesis using i by (simp add: assms(2) load_labels_def Let_def register_labels_regs vm_init_labels_def)
qed

text \<open>A run in a rest of the subject, from registers left by runs in other rests.\<close>

lemma vm_exec_within:
  assumes "regs_within B v" "length (vm_s v) \<le> B" "length (vm_s v) < 2 ^ 31"
    and "vm_exec legacy k v = Done res w"
  shows "within B (length (vm_s v)) w"
proof -
  let ?n = "length (vm_s v)"
  define u where "u = load_labels (if label_offsets (vm_init_registers v) = None
    then vm_init_labels (vm_init_registers v) else vm_init_registers v)"
  have "regs_within B u" "length (vm_s u) = ?n" "vm_pos u \<le> ?n"
    using vm_exec_prepare_regs [OF assms(1) u_def] by simp_all
  then have "stays B ?n (vm_run legacy k u)"
    unfolding vm_run_def by (intro vm_loop_stays [OF assms(3)] vm_start_within assms(2))
  then obtain x where x: "within B ?n x" "w = vm_free_labels x"
    using assms(4) by (auto simp: vm_exec_def Let_def u_def [symmetric] split: outcome.splits)
  show ?thesis unfolding x(2) vm_free_labels_def by (rule within_cong [OF x(1)]) (simp_all add: withinD(2) [OF x(1)])
qed

text \<open>
  C7: A match never leaves its subject. From registers within a subject of less than 2 GiB, in
  either choice mode, with any bytecode and any number of instructions, \<open>vm_exec\<close> returns, if it
  does, with the cursor, all captures and all variables within that subject, so that every capture
  that is not reversed is a slice of the subject.
\<close>

theorem vm_exec_stays_within_subject:
  assumes "regs_within (length (vm_s v)) v" "length (vm_s v) < 2 ^ 31" "vm_exec legacy k v = Done res w"
  shows "length (vm_s w) = length (vm_s v) \<and> vm_pos w \<le> length (vm_s v) \<and>
    (\<forall>r < MAX_CAPS. cap_start w ! r \<le> length (vm_s v) \<and> cap_end w ! r \<le> length (vm_s v) \<and>
       var_start w ! r \<le> length (vm_s v) \<and> var_end w ! r \<le> length (vm_s v))"
  using withinD [OF vm_exec_within [OF assms(1) order_refl assms(2,3)]]
  by (simp add: all_le_nth MAX_CAPS_def MAX_VARS_def)

text \<open>The rest of the subject, and acceptance.\<close>

definition rem_program :: bytes where
  "rem_program = [34, 0]"

theorem vm_exec_stays_within_subject_witness:
  "\<exists>w. vm_exec False 20 (vm_zero rem_program [97, 98, 99]) = Done True w \<and>
     vm_pos w = 3 \<and> (\<forall>r < MAX_CAPS. cap_end w ! r \<le> 3)"
proof -
  let ?v = "vm_zero rem_program [97, 98, 99]"
  have "case vm_exec False 20 ?v of Done True w \<Rightarrow> vm_pos w = 3 | _ \<Rightarrow> False" by code_simp
  then obtain w where w: "vm_exec False 20 ?v = Done True w" "vm_pos w = 3"
    by (auto split: outcome.splits bool.splits)
  have n: "length (vm_s ?v) = 3" by (simp add: vm_zero_def)
  have "regs_within (length (vm_s ?v)) ?v" "length (vm_s ?v) < 2 ^ 31"
    by (simp_all add: regs_within_def all_le_def vm_zero_def)
  note vm_exec_stays_within_subject [OF this w(1), unfolded n]
  then show ?thesis using w by simp
qed

end
