(* ===== verification/Vm_Programs.thy ===== *)
theory Vm_Programs
  imports Vm_Backtrack
begin

text \<open>
  Programs that show what the machine does where the comments of \<^verbatim>\<open>core/src/vm_exec.c\<close> and
  \<^verbatim>\<open>core/src/vm_choice.c\<close> promise something else.
\<close>

definition run_on :: "bool \<Rightarrow> bytes \<Rightarrow> bytes \<Rightarrow> outcome" where
  "run_on legacy bc s = vm_exec legacy 40 (vm_zero bc s)"

text \<open>Whether a run returned, with which result, and a view of the machine then.\<close>

definition returns :: "outcome \<Rightarrow> bool \<Rightarrow> (vm \<Rightarrow> bool) \<Rightarrow> bool" where
  "returns out res P = (case out of Done b v \<Rightarrow> b = res \<and> P v | _ \<Rightarrow> False)"

text \<open>
  A BAL that does not start with the opening character returns false from the run, whatever choices
  there are.
\<close>

lemma bal_ends_the_run:
  assumes "case utf8_peek_next (vm_s v) (vm_pos v) of None \<Rightarrow> True | Some (c, n) \<Rightarrow> c \<noteq> fst (operand_u32 v)"
  shows "\<exists>w. op_bal v = Done False w"
proof -
  have "\<exists>w. backtrack_break u = Done False w" for u
    by (auto simp: backtrack_break_def fail_ret_def split: option.splits)
  then show ?thesis
    using assms
    by (cases "operand_u32 v", cases "operand_u32 (snd (operand_u32 v))")
      (auto simp: op_bal_def operand_u32_def Let_def split: option.splits prod.splits if_splits)
qed

text \<open>The loop \<open>(SPAN('a') 'b')*\<close> with its class.\<close>

definition span_loop_program :: bytes where
  "span_loop_program =
     [15, 0, 0, 0, 0, 0, 255, 255, 255, 255, 0, 0, 0, 33, 7, 0, 1, 4, 0, 0, 0, 26, 0, 0, 0, 1, 98,
      16, 0, 0, 0, 0, 14, 0] @
     [0, 1, 0, 0, 0, 0, 0, 97, 0, 0, 0, 97] @ [0, 0, 0, 34] @ [0, 0, 0, 1]"

lemma span_loop_matches_aba:
  "returns (run_on False span_loop_program [97, 98, 97]) True (\<lambda>v. vm_pos v = 3)"
  by code_simp

text \<open>
  In the older mode a choice does not hold the variables: after a capture on a branch and a failure
  the variable keeps what the branch gave it.
\<close>

lemma snapshot_pop_keeps_variables:
  assumes "choices_arena v = Some a" "arena_tail (ar_cur a) = Some (fp, Snapshot c)" "ar_total_used a \<noteq> 0"
    and "vm_pop_choice v = Some w"
  shows "var_start w = var_start v \<and> var_end w = var_end v \<and> var_count w = cs_var_count c"
  using assms by (auto simp: vm_pop_choice_def restore_snapshot_def Let_def)

lemma legacy_mode_leaks_variables:
  assumes "\<not> use_compact_choice v" "choices_arena v = Some a" "arena_wf a" "r < length (var_end v)"
    and "r < length (cap_end v)"
    and "vm_pop_choice (write_var (write_cap_end (vm_push_choice v ip pos) r) r r) = Some w"
  shows "var_end w ! r = vm_pos v \<and> var_count w = var_count v"
proof -
  let ?c = "full_snapshot v ip pos"
  let ?a = "vm_arena_alloc a SIZEOF_CHOICE (Snapshot ?c)"
  let ?u = "write_var (write_cap_end (vm_push_choice v ip pos) r) r r"
  have wf: "arena_wf ?a" "arena_stack ?a = Snapshot ?c # arena_stack a"
    using vm_arena_alloc_wf [OF assms(3)] by simp_all
  have u: "choices_arena ?u = Some ?a" "var_end ?u ! r = vm_pos v"
    using assms by (simp_all add: write_var_def write_cap_end_def vm_push_choice_def count_push_def Let_def)
  have "ar_total_used ?a \<noteq> 0" using arena_total_0 [OF wf(1)] wf(2) by simp
  moreover obtain fp where "arena_tail (ar_cur ?a) = Some (fp, Snapshot ?c)"
    using arena_tail_top [OF wf(1)] wf(2) by fastforce
  ultimately show ?thesis
    using snapshot_pop_keeps_variables [OF u(1) _ _ assms(6)] u(2) by (simp add: full_snapshot_def)
qed

text \<open>NOTANY of an ASCII class takes one byte of a character of several bytes.\<close>

lemma notany_splits_a_character:
  assumes "operand_u16 v = (k, w)" "load_class w k = Ascii_Class bm" "vm_pos w < length (vm_s w)" "127 < vm_s w ! vm_pos w"
  shows "op_notany v = Go (move_to w (vm_pos w + 1))"
  using assms by (simp add: op_notany_def bitmap_test_def)

text \<open>A dynamic pattern that fails ends the run, whatever choices there are.\<close>

lemma dynamic_failure_ends_the_run:
  assumes "dyn_pending_source v = Some source" "dyn_pending_bc v = Some bc" "dynamic_lookup v source bc = Some (a, u)"
    and "Option.bind (st_objs (dyn_store u) a) dp_bc = Some inner" "run (enter_dynamic u inner) = Done False x"
  shows "\<exists>w. op_dynamic run v = Done False w"
  using assms by (simp add: op_dynamic_def fail_ret_def)

text \<open>
  What a successful dynamic pattern did to the captures and variables is not on the trail of the
  run that called it.
\<close>

lemma dynamic_success_untracked:
  assumes "op_dynamic run v = Go w"
  shows "vm_trail w = vm_trail v \<and> choices_arena w = choices_arena v \<and>
     (\<exists>x u. run x = Done True u \<and> cap_start w = cap_start u \<and> cap_end w = cap_end u \<and>
        var_start w = var_start u \<and> var_end w = var_end u)"
proof -
  have look: "vm_trail u = vm_trail v \<and> choices_arena u = choices_arena v"
    if "dynamic_lookup v source bc = Some (a, u)" for source bc a u
    using that by (auto simp: dynamic_lookup_def Let_def split: option.splits prod.splits if_splits)
  show ?thesis
    using assms
    by (fastforce simp: op_dynamic_def leave_dynamic_def release_dynamic_def fail_ret_def
        dest: look split: option.splits prod.splits outcome.splits bool.splits)
qed

end
