(* ===== verification/String_Fn_Correct.thy ===== *)
theory String_Fn_Correct
  imports String_Fn "HOL-Library.Multiset"
begin

text \<open>
  What the string functions do, on UTF-8 encodings of code point lists (\<open>utf8 cps\<close>) and, where it
  makes sense, on arbitrary bytes.
\<close>

definition utf8 :: "u32 list \<Rightarrow> bytes" where
  "utf8 cps = concat (map encode_utf8 cps)"

definition valid_cps :: "u32 list \<Rightarrow> bool" where
  "valid_cps cps = list_all valid_cp cps"

lemma utf8_Nil [simp]: "utf8 [] = []"
  and utf8_Cons [simp]: "utf8 (c # cs) = encode_utf8 c @ utf8 cs"
  and utf8_append [simp]: "utf8 (xs @ ys) = utf8 xs @ utf8 ys"
  by (simp_all add: utf8_def)

lemma valid_cps_simps [simp]:
  "valid_cps []" "valid_cps (c # cs) \<longleftrightarrow> valid_cp c \<and> valid_cps cs"
  "valid_cps (xs @ ys) \<longleftrightarrow> valid_cps xs \<and> valid_cps ys"
  by (simp_all add: valid_cps_def)

lemma valid_cps_set: "valid_cps cps \<longleftrightarrow> (\<forall>c \<in> set cps. valid_cp c)"
  by (simp add: valid_cps_def list_all_iff)

lemma encode_utf8_nonempty: "valid_cp c \<Longrightarrow> encode_utf8 c \<noteq> []"
  by (simp add: encode_utf8_empty_iff)

lemma utf8_eq_Nil: "valid_cps cps \<Longrightarrow> utf8 cps = [] \<longleftrightarrow> cps = []"
  by (cases cps) (auto simp: encode_utf8_nonempty)

section \<open>Scanning an encoding goes from code point to code point\<close>

lemma cp_advance_utf8:
  assumes "valid_cp c"
  shows "cp_advance (pre @ encode_utf8 c @ post) (length pre) = length (encode_utf8 c)"
  using utf8_cp_len_peek [OF decode_encode_any [OF assms, of pre post]] encode_utf8_nonempty [OF assms]
  by (simp add: cp_advance_def)

lemma cp_advance_le: "pos < length s \<Longrightarrow> pos + cp_advance s pos \<le> length s"
  using utf8_cp_len_bounds [of s pos] by (auto simp: cp_advance_def Let_def)

lemma cp_advance_le_4: "cp_advance s pos \<le> 4"
  using utf8_cp_len_bounds [of s pos] by (auto simp: cp_advance_def Let_def)

lemma size_loop_utf8:
  "valid_cps cps \<Longrightarrow> size_loop (pre @ utf8 cps) (length pre) n = n + length cps"
proof (induction cps arbitrary: pre n)
  case Nil
  then show ?case by (simp add: size_loop.simps)
next
  case (Cons c cs)
  then have c: "valid_cp c" by simp
  from Cons.IH [of "pre @ encode_utf8 c" "n + 1"] Cons.prems show ?case
    by (subst size_loop.simps) (simp add: cp_advance_utf8 [OF c] encode_utf8_nonempty [OF c])
qed

lemma ascii_encode_length:
  assumes "valid_cp c" "list_all (\<lambda>b. b < 0x80) (encode_utf8 c)"
  shows "length (encode_utf8 c) = 1" "c < 0x80"
proof -
  show "c < 0x80"
  proof (rule ccontr)
    assume "\<not> c < 0x80"
    with assms show False
      by (auto simp: encode_utf8_def valid_cp_def lead_byte_not_ascii split: if_splits)
  qed
  then show "length (encode_utf8 c) = 1" using assms(1) by (simp add: length_encode_utf8)
qed

lemma encode_utf8_ascii: "c < 0x80 \<Longrightarrow> encode_utf8 c = [ucast c]"
  by (auto simp: encode_utf8_def word_less_nat_alt word_le_nat_alt)

lemma utf8_ascii: "list_all (\<lambda>c. c < 0x80) cps \<Longrightarrow> utf8 cps = map ucast cps"
  by (induction cps) (simp_all add: encode_utf8_ascii)

lemma ascii_utf8:
  "valid_cps cps \<Longrightarrow> str_is_ascii (utf8 cps) \<Longrightarrow> list_all (\<lambda>c. c < 0x80) cps \<and> utf8 cps = map ucast cps"
proof (induction cps)
  case (Cons c cs)
  then have "valid_cp c" "list_all (\<lambda>b. b < 0x80) (encode_utf8 c)" "str_is_ascii (utf8 cs)"
    by (auto simp: str_is_ascii_def)
  moreover from this have "c < 0x80" by (blast intro: ascii_encode_length)
  moreover from this have "encode_utf8 c = [ucast c]"
    by (rule encode_utf8_ascii)
  ultimately show ?case using Cons by simp
qed simp

lemma snobol_size_utf8:
  assumes "valid_cps cps"
  shows "snobol_size (Some (utf8 cps)) = length cps"
proof (cases "str_is_ascii (utf8 cps)")
  case True
  with ascii_utf8 [OF assms] show ?thesis by (simp add: snobol_size_def)
next
  case False
  with size_loop_utf8 [OF assms, of "[]" 0] show ?thesis by (simp add: snobol_size_def)
qed

text \<open>SIZE counts code points: the size of the encoding of a list of them is its length.\<close>

theorem snobol_size_counts_codepoints:
  assumes "valid_cps cps"
  shows "snobol_size (Some (utf8 cps)) = length cps"
  using assms by (rule snobol_size_utf8)

theorem snobol_size_counts_codepoints_witness:
  "snobol_size (Some (utf8 [0x61, 0xE9, 0x20AC, 0x1F600])) = length [0x61, 0xE9, 0x20AC, 0x1F600 :: u32]"
  by (rule snobol_size_counts_codepoints) (simp add: valid_cp_def)

lemma size_loop_bounds:
  "i \<le> length s \<Longrightarrow> size_loop s i n \<le> n + (length s - i) \<and> length s - i \<le> 4 * (size_loop s i n - n) \<and> n \<le> size_loop s i n"
proof (induction s i n rule: size_loop.induct)
  case (1 s i n)
  show ?case
  proof (cases "i < length s")
    case True
    moreover have "1 \<le> cp_advance s i" using cp_advance_pos [of s i] by linarith
    ultimately show ?thesis
      using 1 cp_advance_le [OF True] cp_advance_le_4 [of s i]
      by (subst (1 2 3) size_loop.simps) (simp, linarith)
  next
    case False
    with "1.prems" show ?thesis by (subst (1 2 3) size_loop.simps) simp
  qed
qed

lemma snobol_size_bounds:
  "snobol_size (Some s) \<le> length s \<and> length s \<le> 4 * snobol_size (Some s)"
  using size_loop_bounds [of 0 s 0] by (simp add: snobol_size_def)

section \<open>REVERSE\<close>

lemma append_spans_data:
  "buf_data (append_spans s sp b) = buf_data b @ concat (map (\<lambda>(i, j). sub_list i (j - i) s) sp)"
  by (induction s sp b rule: append_spans.induct) auto

lemma cp_spans_utf8:
  "valid_cps cps \<Longrightarrow>
   map (\<lambda>(i, j). sub_list i (j - i) (pre @ utf8 cps)) (cp_spans (pre @ utf8 cps) (length pre))
     = map encode_utf8 cps"
proof (induction cps arbitrary: pre)
  case Nil
  then show ?case by (simp add: cp_spans.simps)
next
  case (Cons c cs)
  then have c: "valid_cp c" by simp
  from Cons.IH [of "pre @ encode_utf8 c"] Cons.prems show ?case
    by (subst cp_spans.simps)
      (simp add: cp_advance_utf8 [OF c] encode_utf8_nonempty [OF c] sub_list_def)
qed

lemma cp_spans_cover:
  "concat (map (\<lambda>(i, j). sub_list i (j - i) s) (cp_spans s pos)) = drop pos s"
proof (induction s pos rule: cp_spans.induct)
  case (1 s pos)
  show ?case
  proof (cases "pos < length s")
    case True
    then have "concat (map (\<lambda>(i, j). sub_list i (j - i) s) (cp_spans s pos))
        = take (cp_advance s pos) (drop pos s) @ drop (pos + cp_advance s pos) s"
      using "1.IH" by (subst cp_spans.simps) (simp add: sub_list_def)
    also have "\<dots> = drop pos s"
      by (metis append_take_drop_id drop_drop add.commute)
    finally show ?thesis .
  next
    case False
    then show ?thesis by (subst cp_spans.simps) simp
  qed
qed

lemma mset_concat_rev: "mset (concat (rev xss)) = mset (concat xss)"
  by (induction xss) (auto simp: ac_simps)

text \<open>The contents of the output buffer after a successful call.\<close>

definition out_data :: "bool \<times> snobol_buf option \<Rightarrow> bytes option" where
  "out_data r = (if fst r then map_option buf_data (snd r) else None)"

lemma out_data_simps [simp]:
  "out_data (True, Some b) = Some (buf_data b)" "out_data (False, x) = None"
  by (simp_all add: out_data_def)

lemma snobol_reverse_ascii:
  "str_is_ascii s \<Longrightarrow> out_data (snobol_reverse (Some s) (Some b)) = Some (rev s)"
  by (cases s) (auto simp: snobol_reverse_def Let_def)

lemma snobol_reverse_nonascii:
  "\<not> str_is_ascii s \<Longrightarrow> out_data (snobol_reverse (Some s) (Some b))
     = Some (concat (rev (map (\<lambda>(i, j). sub_list i (j - i) s) (cp_spans s 0))))"
  by (cases s) (auto simp: snobol_reverse_def Let_def append_spans_data rev_map str_is_ascii_def)

lemma snobol_reverse_utf8:
  assumes "valid_cps cps"
  shows "out_data (snobol_reverse (Some (utf8 cps)) (Some b)) = Some (utf8 (rev cps))"
proof (cases "str_is_ascii (utf8 cps)")
  case True
  from ascii_utf8 [OF assms True] have l: "list_all (\<lambda>c. c < 0x80) cps" "utf8 cps = map ucast cps" by auto
  then have "utf8 (rev cps) = map ucast (rev cps)"
    by (intro utf8_ascii) (simp add: list_all_iff)
  with True l show ?thesis by (simp add: snobol_reverse_ascii rev_map)
next
  case False
  with cp_spans_utf8 [OF assms, of "[]"] show ?thesis
    by (simp add: snobol_reverse_nonascii utf8_def rev_map)
qed

text \<open>
  C31: REVERSE reverses by code points: on the encoding of a code point list it leaves the encoding
  of the reversed list in the buffer, whatever the buffer held before.
\<close>

theorem snobol_reverse_by_codepoints:
  assumes "valid_cps cps"
  shows "out_data (snobol_reverse (Some (utf8 cps)) (Some b)) = Some (utf8 (rev cps))"
  using assms by (rule snobol_reverse_utf8)

theorem snobol_reverse_by_codepoints_witness:
  "out_data (snobol_reverse (Some (utf8 [0x61, 0xE9, 0x20AC])) (Some snobol_buf_init))
     = Some (utf8 (rev [0x61, 0xE9, 0x20AC]))"
  by (rule snobol_reverse_by_codepoints) (simp add: valid_cp_def)

text \<open>On any bytes, valid or not, REVERSE neither loses nor invents a byte.\<close>

lemma snobol_reverse_mset:
  "\<exists>r. out_data (snobol_reverse (Some s) (Some b)) = Some r \<and> mset r = mset s"
proof (cases "str_is_ascii s")
  case True
  then show ?thesis by (simp add: snobol_reverse_ascii)
next
  case False
  then show ?thesis
    using cp_spans_cover [of s 0] by (simp add: snobol_reverse_nonascii mset_concat_rev)
qed

section \<open>SUBSTR\<close>

lemma cp_walk_utf8:
  "valid_cps cps \<Longrightarrow> cp_walk (pre @ utf8 cps) n (length pre) = length pre + length (utf8 (take n cps))"
proof (induction n arbitrary: cps pre)
  case (Suc n)
  show ?case
  proof (cases cps)
    case (Cons c cs)
    with Suc.prems have c: "valid_cp c" by simp
    from Suc.IH [of cs "pre @ encode_utf8 c"] Suc.prems Cons show ?thesis
      by (simp add: cp_advance_utf8 [OF c] encode_utf8_nonempty [OF c])
  qed simp
qed simp

lemma valid_cps_take_drop:
  "valid_cps cps \<Longrightarrow> valid_cps (take n cps)" "valid_cps cps \<Longrightarrow> valid_cps (drop n cps)"
  by (auto simp: valid_cps_set dest: in_set_takeD in_set_dropD)

lemma utf8_take_drop: "utf8 cps = utf8 (take n cps) @ utf8 (drop n cps)"
  by (metis append_take_drop_id utf8_append)

lemma length_utf8_take_less:
  assumes "valid_cps cps"
  shows "length (utf8 cps) \<le> length (utf8 (take n cps)) \<longleftrightarrow> length cps \<le> n"
proof -
  have "length (utf8 cps) = length (utf8 (take n cps)) + length (utf8 (drop n cps))"
    using utf8_take_drop [of cps n] by (metis length_append)
  then show ?thesis
    using utf8_eq_Nil [OF valid_cps_take_drop(2) [OF assms], of n] by simp
qed

lemma snobol_substr_utf8:
  assumes v: "valid_cps cps" and "0 < pos"
  shows "out_data (snobol_substr (Some (utf8 cps)) pos n (Some b)) =
    (if pos \<le> length cps \<or> pos = 1 then Some (utf8 (take n (drop (pos - 1) cps))) else None)"
proof -
  obtain k where pos: "pos = Suc k" using assms(2) by (cases pos) auto
  let ?pre = "utf8 (take k cps)" and ?rest = "drop k cps"
  have s: "utf8 cps = ?pre @ utf8 ?rest" by (rule utf8_take_drop)
  have w1: "cp_walk (utf8 cps) k 0 = length ?pre"
    using cp_walk_utf8 [OF v, of "[]" k] by simp
  have w2: "cp_walk (utf8 cps) n (length ?pre) = length ?pre + length (utf8 (take n ?rest))"
    using cp_walk_utf8 [OF valid_cps_take_drop(2) [OF v, of k], of ?pre n]
    unfolding s [symmetric] .
  have "sub_list (length ?pre) (length (utf8 (take n ?rest))) (utf8 cps) = utf8 (take n ?rest)"
    using utf8_take_drop [of ?rest n] by (subst s) (simp add: sub_list_def)
  then have "out_data (snobol_substr (Some (utf8 cps)) pos n (Some b)) =
      (if length cps \<le> k \<and> 0 < k then None else Some (utf8 (take n ?rest)))"
    by (simp add: snobol_substr_def pos Let_def w1 w2 length_utf8_take_less [OF v])
  then show ?thesis by (auto simp: pos)
qed

text \<open>
  C32: SUBSTR extracts by code points, 1-based: on the encoding of \<open>cps\<close> it yields the encoding of the
  \<open>n\<close> code points from position \<open>pos\<close> (fewer at the end), and fails exactly when \<open>pos\<close> is past the
  end; position 1 of the empty string is allowed.
\<close>

theorem snobol_substr_by_codepoints:
  assumes "valid_cps cps" and "0 < pos"
  shows "out_data (snobol_substr (Some (utf8 cps)) pos n (Some b)) =
    (if pos \<le> length cps \<or> pos = 1 then Some (utf8 (take n (drop (pos - 1) cps))) else None)"
  using assms by (rule snobol_substr_utf8)

theorem snobol_substr_by_codepoints_witness:
  "out_data (snobol_substr (Some (utf8 [0x61, 0xE9, 0x20AC])) 2 5 (Some snobol_buf_init)) =
    (if 2 \<le> length [0x61, 0xE9, 0x20AC :: u32] \<or> 2 = (1 :: nat)
     then Some (utf8 (take 5 (drop (2 - 1) [0x61, 0xE9, 0x20AC]))) else None)"
  by (rule snobol_substr_by_codepoints) (simp_all add: valid_cp_def)

section \<open>TRIM and DUPL\<close>

definition is_trim_ws :: "u8 \<Rightarrow> bool" where
  "is_trim_ws c \<longleftrightarrow> c = 0x20 \<or> c = 0x09 \<or> c = 0x0D \<or> c = 0x0A"

lemma trim_end_take:
  "n \<le> length s \<Longrightarrow> take (trim_end s n) s = rev (dropWhile is_trim_ws (rev (take n s)))"
  by (induction s n rule: trim_end.induct)
    (auto simp: take_Suc_conv_app_nth Let_def is_trim_ws_def)

lemma snobol_trim_data:
  "out_data (snobol_trim (Some s) (Some b)) = Some (rev (dropWhile is_trim_ws (rev s)))"
  using trim_end_take [of "length s" s] by (simp add: snobol_trim_def)

lemma dupl_loop_data: "buf_data (dupl_loop s n b) = buf_data b @ concat (replicate n s)"
  by (induction s n b rule: dupl_loop.induct) auto

lemma snobol_dupl_data:
  "out_data (snobol_dupl (Some s) n (Some b)) = Some (concat (replicate n s))"
  by (auto simp: snobol_dupl_def Let_def dupl_loop_data)

section \<open>REPLACE against its reference definition\<close>

text \<open>Leftmost, non-overlapping replacement, on lists.\<close>

function replace_ref :: "bytes \<Rightarrow> bytes \<Rightarrow> bytes \<Rightarrow> bytes" where
  "replace_ref frm to s =
    (if s = [] \<or> frm = [] then s
     else if take (length frm) s = frm then to @ replace_ref frm to (drop (length frm) s)
     else hd s # replace_ref frm to (tl s))"
  by pat_completeness auto
termination
  by (relation "measure (\<lambda>(frm, to, s). length s)") auto

declare replace_ref.simps [simp del]

lemma replace_ref_short:
  "length s < length frm \<Longrightarrow> replace_ref frm to s = s"
proof (induction s)
  case Nil
  then show ?case by (simp add: replace_ref.simps)
next
  case (Cons c s)
  then have "length (take (length frm) (c # s)) < length frm" by simp
  then have "take (length frm) (c # s) \<noteq> frm" by force
  moreover have "replace_ref frm to s = s" using Cons by simp
  ultimately show ?case by (subst replace_ref.simps) simp
qed

lemma replace_loop_ref:
  "frm \<noteq> [] \<Longrightarrow> i \<le> length s \<Longrightarrow>
   buf_data (replace_loop s frm to i b) = buf_data b @ replace_ref frm to (drop i s)"
proof (induction s frm to i b rule: replace_loop.induct)
  case (1 s frm to i b)
  show ?case
  proof (cases "i + length frm \<le> length s")
    case False
    with "1.prems" have "replace_ref frm to (drop i s) = drop i s"
      by (intro replace_ref_short) simp
    with False show ?thesis by (subst replace_loop.simps) auto
  next
    case fits: True
    with "1.prems" have l: "i < length s" and ne: "drop i s \<noteq> []"
      by (cases frm; simp)+
    show ?thesis
    proof (cases "sub_list i (length frm) s = frm")
      case True
      then have "take (length frm) (drop i s) = frm" by (simp add: sub_list_def)
      with True 1 fits ne show ?thesis
        by (subst replace_loop.simps, subst replace_ref.simps) (auto simp: drop_drop add.commute)
    next
      case False
      then have "take (length frm) (drop i s) \<noteq> frm" by (simp add: sub_list_def)
      with False 1 fits ne l show ?thesis
        by (subst replace_loop.simps, subst replace_ref.simps)
          (auto simp: drop_Suc tl_drop sub_list_Suc hd_drop_conv_nth)
    qed
  qed
qed

lemma snobol_replace_data:
  "out_data (snobol_replace (Some s) (Some frm) (Some to) (Some b)) = Some (replace_ref frm to s)"
proof (cases "frm = []")
  case True
  then show ?thesis by (simp add: snobol_replace_def Let_def replace_ref.simps)
next
  case False
  with replace_loop_ref [of frm 0 s to] show ?thesis by (simp add: snobol_replace_def Let_def)
qed

text \<open>
  C30: REPLACE computes leftmost non-overlapping replacement: the loop over byte positions agrees
  with the recursive reference definition on every input, empty patterns included.
\<close>

theorem snobol_replace_is_reference:
  "out_data (snobol_replace (Some s) (Some frm) (Some to) (Some b)) = Some (replace_ref frm to s)"
  by (rule snobol_replace_data)

section \<open>REPLACE_CHAR\<close>

lemma build_table_nth:
  "length table = 256 \<Longrightarrow>
   build_table table ps ! unat c = (case map_of (rev ps) c of Some t \<Rightarrow> t | None \<Rightarrow> table ! unat c)"
proof (induction table ps rule: build_table.induct)
  case (2 table f t ps)
  then show ?case
    using unat_u8_less [of f]
    by (cases "map_of (rev ps) c") (auto simp: map_add_def nth_list_update word_unat_eq_iff [symmetric])
qed simp

lemma identity_table_nth: "identity_table ! unat c = c"
  using unat_u8_less [of c] by (simp add: identity_table_def)

lemma length_identity_table: "length identity_table = 256"
  by (simp add: identity_table_def)

lemma snobol_replace_char_data:
  "out_data (snobol_replace_char (Some s) (Some f) (Some t) (length t) (Some b)) =
     Some (map (\<lambda>c. case map_of (rev (zip f t)) c of Some d \<Rightarrow> d | None \<Rightarrow> c) s)"
proof -
  have z: "zip (take (min (length f) (length t)) f) (take (min (length f) (length t)) t) = zip f t"
    by (simp add: zip_append1 take_zip [symmetric] min_def)
  show ?thesis
    by (cases s) (simp_all add: snobol_replace_char_def Let_def z build_table_nth identity_table_nth
        length_identity_table split: option.split)
qed

section \<open>LPAD and RPAD\<close>

lemma pad_loop_data: "buf_data (pad_loop p n b) = buf_data b @ concat (replicate n p)"
  by (induction p n b rule: pad_loop.induct) auto

lemma concat_replicate_utf8: "concat (replicate n (encode_utf8 c)) = utf8 (replicate n c)"
  by (induction n) auto

lemma valid_cps_replicate [simp]: "valid_cps (replicate n c) \<longleftrightarrow> n = 0 \<or> valid_cp c"
  by (auto simp: valid_cps_set)

lemma snobol_lpad_utf8:
  assumes "valid_cps cps" "valid_cp p"
  shows "out_data (snobol_lpad (Some (utf8 cps)) width p (Some b))
    = Some (utf8 (replicate (width - length cps) p @ cps))"
  using assms by (simp add: snobol_lpad_def Let_def snobol_size_utf8 pad_loop_data
      concat_replicate_utf8 encode_utf8_nonempty)

lemma snobol_rpad_utf8:
  assumes "valid_cps cps" "valid_cp p"
  shows "out_data (snobol_rpad (Some (utf8 cps)) width p (Some b))
    = Some (utf8 (cps @ replicate (width - length cps) p))"
  using assms by (simp add: snobol_rpad_def Let_def snobol_size_utf8 pad_loop_data
      concat_replicate_utf8 encode_utf8_nonempty)

text \<open>
  C33: LPAD and RPAD pad by code points: the result is the encoding of the padded code point list, so
  that its size is the larger of the requested width and the size of the input.
\<close>

theorem snobol_pad_by_codepoints:
  assumes "valid_cps cps" and "valid_cp p"
  shows "\<exists>l r. out_data (snobol_lpad (Some (utf8 cps)) width p (Some b)) = Some l \<and>
    out_data (snobol_rpad (Some (utf8 cps)) width p (Some b)) = Some r \<and>
    l = utf8 (replicate (width - length cps) p @ cps) \<and>
    r = utf8 (cps @ replicate (width - length cps) p) \<and>
    snobol_size (Some l) = max width (length cps) \<and> snobol_size (Some r) = max width (length cps)"
proof -
  let ?l = "replicate (width - length cps) p @ cps" and ?r = "cps @ replicate (width - length cps) p"
  have "valid_cps ?l" "valid_cps ?r" using assms by simp_all
  then have "snobol_size (Some (utf8 ?l)) = length ?l" "snobol_size (Some (utf8 ?r)) = length ?r"
    by (simp_all only: snobol_size_utf8)
  with snobol_lpad_utf8 [OF assms] snobol_rpad_utf8 [OF assms] show ?thesis
    by (simp add: max_def)
qed

theorem snobol_pad_by_codepoints_witness:
  "\<exists>l r. out_data (snobol_lpad (Some (utf8 [0xE9])) 3 0x2A (Some snobol_buf_init)) = Some l \<and>
    out_data (snobol_rpad (Some (utf8 [0xE9])) 3 0x2A (Some snobol_buf_init)) = Some r \<and>
    l = utf8 (replicate (3 - length [0xE9 :: u32]) 0x2A @ [0xE9]) \<and>
    r = utf8 ([0xE9] @ replicate (3 - length [0xE9 :: u32]) 0x2A) \<and>
    snobol_size (Some l) = max 3 (length [0xE9 :: u32]) \<and>
    snobol_size (Some r) = max 3 (length [0xE9 :: u32])"
  by (rule snobol_pad_by_codepoints) (simp_all add: valid_cp_def)

section \<open>CHAR and ORD\<close>

lemma snobol_ord_peek: "snobol_ord (Some s) = map_option fst (utf8_peek_next s 0)"
  by (cases s) (auto simp: snobol_ord_def utf8_peek_next_def Let_def not_less_eq_eq numeral_eq_Suc)

lemma snobol_char_fn_data:
  "out_data (snobol_char_fn cp (Some b)) = (if valid_cp cp then Some (encode_utf8 cp) else None)"
  by (auto simp: snobol_char_fn_def Let_def valid_cp_def encode_utf8_empty_iff)

text \<open>
  C35: ORD inverts CHAR: CHAR fails exactly on surrogates and values above U+10FFFF, and ORD of what
  it produced, with anything appended, is the code point again.
\<close>

theorem snobol_ord_char:
  "case out_data (snobol_char_fn cp (Some b)) of
     None \<Rightarrow> \<not> valid_cp cp
   | Some s \<Rightarrow> valid_cp cp \<and> snobol_ord (Some (s @ t)) = Some cp"
proof (cases "valid_cp cp")
  case True
  from decode_encode_any [OF this, of "[]" t] True show ?thesis
    by (simp add: snobol_char_fn_data snobol_ord_peek)
next
  case False
  then show ?thesis by (simp add: snobol_char_fn_data)
qed

section \<open>UPPER and LOWER\<close>

lemma append_cps_data:
  "buf_data (append_cps cps b) = buf_data b @ utf8 cps"
  by (induction cps b rule: append_cps.induct) (auto simp: Let_def)

lemma upper_loop_utf8:
  "valid_cps cps \<Longrightarrow> buf_data (upper_loop (pre @ utf8 cps) (length pre) b)
     = buf_data b @ utf8 (concat (map snobol_to_upper_cp cps))"
proof (induction cps arbitrary: pre b)
  case Nil
  then show ?case by (simp add: upper_loop.simps)
next
  case (Cons c cs)
  then have c: "valid_cp c" by simp
  from Cons.IH [of "pre @ encode_utf8 c"] Cons.prems decode_encode_any [OF c, of pre "utf8 cs"]
  show ?case
    by (subst upper_loop.simps) (simp add: encode_utf8_nonempty [OF c] append_cps_data)
qed

lemma lower_loop_utf8:
  "valid_cps cps \<Longrightarrow> buf_data (lower_loop (pre @ utf8 cps) (length pre) b)
     = buf_data b @ utf8 (map snobol_to_lower_cp cps)"
proof (induction cps arbitrary: pre b)
  case Nil
  then show ?case by (simp add: lower_loop.simps)
next
  case (Cons c cs)
  then have c: "valid_cp c" by simp
  from Cons.IH [of "pre @ encode_utf8 c"] Cons.prems decode_encode_any [OF c, of pre "utf8 cs"]
  show ?case
    by (subst lower_loop.simps) (auto simp: encode_utf8_nonempty [OF c] Let_def)
qed

lemma snobol_upper_utf8:
  "valid_cps cps \<Longrightarrow> out_data (snobol_upper (Some (utf8 cps)) (Some b))
     = Some (utf8 (concat (map snobol_to_upper_cp cps)))"
  using upper_loop_utf8 [of cps "[]"] by (auto simp: snobol_upper_def Let_def utf8_eq_Nil)

lemma snobol_lower_utf8:
  "valid_cps cps \<Longrightarrow> out_data (snobol_lower (Some (utf8 cps)) (Some b))
     = Some (utf8 (map snobol_to_lower_cp cps))"
  using lower_loop_utf8 [of cps "[]"] by (auto simp: snobol_lower_def Let_def utf8_eq_Nil)

text \<open>
  C34: UPPER and LOWER convert code point by code point: the result is the encoding of the converted
  code points (with the multi-character expansions of UPPER), whatever the lengths of their bytes.
\<close>

theorem snobol_case_by_codepoints:
  assumes "valid_cps cps"
  shows "out_data (snobol_upper (Some (utf8 cps)) (Some b))
           = Some (utf8 (concat (map snobol_to_upper_cp cps))) \<and>
         out_data (snobol_lower (Some (utf8 cps)) (Some b)) = Some (utf8 (map snobol_to_lower_cp cps))"
  using assms by (simp add: snobol_upper_utf8 snobol_lower_utf8)

theorem snobol_case_by_codepoints_witness:
  "out_data (snobol_upper (Some (utf8 [0x61, 0xDF])) (Some snobol_buf_init))
     = Some (utf8 (concat (map snobol_to_upper_cp [0x61, 0xDF]))) \<and>
   out_data (snobol_lower (Some (utf8 [0x41, 0xC9])) (Some snobol_buf_init))
     = Some (utf8 (map snobol_to_lower_cp [0x41, 0xC9]))"
  using snobol_case_by_codepoints [of "[0x61, 0xDF]" snobol_buf_init]
    snobol_case_by_codepoints [of "[0x41, 0xC9]" snobol_buf_init]
  by (simp add: valid_cp_def)

end
