(* ===== verification/Utf8_Cursor.thy ===== *)
theory Utf8_Cursor
  imports String_Fn_Correct
begin

text \<open>
  Byte offsets and code points of an encoded subject: where a code point starts, what is decoded
  there, and what its bytes look like.
\<close>

section \<open>Offsets\<close>

definition off :: "u32 list \<Rightarrow> nat \<Rightarrow> nat" where
  "off cps i = length (utf8 (take i cps))"

lemma off_0 [simp]: "off cps 0 = 0"
  by (simp add: off_def)

lemma off_all: "length cps \<le> i \<Longrightarrow> off cps i = length (utf8 cps)"
  by (simp add: off_def)

lemma off_length [simp]: "off cps (length cps) = length (utf8 cps)"
  by (simp add: off_def)

lemma off_Suc: "i < length cps \<Longrightarrow> off cps (Suc i) = off cps i + length (encode_utf8 (cps ! i))"
  by (simp add: off_def take_Suc_conv_app_nth)

lemma off_le: "off cps i \<le> length (utf8 cps)"
  using utf8_take_drop [of cps i] by (metis length_append le_add1 off_def)

lemma encode_length_pos: "valid_cps cps \<Longrightarrow> i < length cps \<Longrightarrow> 0 < length (encode_utf8 (cps ! i))"
  using encode_utf8_nonempty by (simp add: valid_cps_set)

lemma off_less: "valid_cps cps \<Longrightarrow> i < j \<Longrightarrow> j \<le> length cps \<Longrightarrow> off cps i < off cps j"
proof (induction j)
  case (Suc j)
  have "off cps j < off cps (Suc j)"
    using Suc.prems encode_length_pos [of cps j] by (simp add: off_Suc)
  then show ?case using Suc by (cases "i = j") auto
qed simp

lemma off_inject: "valid_cps cps \<Longrightarrow> i \<le> length cps \<Longrightarrow> j \<le> length cps \<Longrightarrow> off cps i = off cps j \<longleftrightarrow> i = j"
  using off_less [of cps i j] off_less [of cps j i] by (cases i j rule: linorder_cases) auto

lemma off_less_iff: "valid_cps cps \<Longrightarrow> i \<le> length cps \<Longrightarrow> j \<le> length cps \<Longrightarrow> off cps i < off cps j \<longleftrightarrow> i < j"
  using off_less [of cps i j] off_less [of cps j i] by (cases i j rule: linorder_cases) auto

lemma off_end_iff: "valid_cps cps \<Longrightarrow> i \<le> length cps \<Longrightarrow> off cps i < length (utf8 cps) \<longleftrightarrow> i < length cps"
  using off_less_iff [of cps i "length cps"] by simp

lemma subject_split:
  "i < length cps \<Longrightarrow> utf8 cps = utf8 (take i cps) @ encode_utf8 (cps ! i) @ utf8 (drop (Suc i) cps)"
  by (metis id_take_nth_drop utf8_append utf8_Cons)

lemma peek_at:
  assumes "valid_cps cps" "i < length cps"
  shows "utf8_peek_next (utf8 cps) (off cps i) = Some (cps ! i, off cps (Suc i) - off cps i)"
  using decode_encode_any [of "cps ! i" "utf8 (take i cps)" "utf8 (drop (Suc i) cps)"] assms
  by (simp add: subject_split [OF assms(2), symmetric] off_def [symmetric] off_Suc valid_cps_set)

lemma peek_end: "length cps \<le> i \<Longrightarrow> utf8_peek_next (utf8 cps) (off cps i) = None"
  by (simp add: off_all)

section \<open>The bytes of a code point\<close>

definition cont_byte :: "u8 \<Rightarrow> bool" where
  "cont_byte b \<longleftrightarrow> bit b 7 \<and> \<not> bit b 6"

lemma cont_byte_mask: "b AND 0xC0 = 0x80 \<longleftrightarrow> cont_byte b"
proof
  assume "b AND 0xC0 = 0x80"
  then have "bit (b AND 0xC0) 7 = bit (0x80 :: u8) 7" "bit (b AND 0xC0) 6 = bit (0x80 :: u8) 6" by simp_all
  then show "cont_byte b" by (simp add: cont_byte_def bit_simps)
next
  assume "cont_byte b"
  then show "b AND 0xC0 = 0x80" by (intro u8_eqI) (simp_all add: cont_byte_def bit_simps)
qed

lemma cont_byte_high: "cont_byte b \<Longrightarrow> \<not> b < 0x80"
  by (simp add: cont_byte_def high_bit_not_ascii)

lemma cont_payload: "cont_byte (ucast (0x80 OR (x AND 0x3F) :: u32) :: u8)"
  by (simp add: cont_byte_def bit_simps)

lemma lead_not_cont:
  "\<not> cont_byte (ucast (0xC0 OR x :: u32) :: u8)" "\<not> cont_byte (ucast (0xE0 OR x :: u32) :: u8)"
  "\<not> cont_byte (ucast (0xF0 OR x :: u32) :: u8)"
  by (simp_all add: cont_byte_def bit_simps)

lemma ascii_not_cont: "b < 0x80 \<Longrightarrow> \<not> cont_byte b"
  using cont_byte_high by blast

text \<open>A lead byte that is no continuation byte, then continuation bytes.\<close>

lemma encode_shape_high:
  "valid_cp c \<Longrightarrow> \<not> c < 0x80 \<Longrightarrow>
     \<not> cont_byte (hd (encode_utf8 c)) \<and> list_all cont_byte (tl (encode_utf8 c)) \<and> \<not> hd (encode_utf8 c) < 0x80"
  by (auto simp: encode_utf8_def valid_cp_def cont_payload lead_not_cont lead_byte_not_ascii)

lemma encode_shape:
  assumes "valid_cp c"
  obtains b bs where "encode_utf8 c = b # bs" "\<not> cont_byte b" "list_all cont_byte bs"
    "b < 0x80 \<longleftrightarrow> c < 0x80" "c < 0x80 \<Longrightarrow> bs = [] \<and> b = ucast c"
proof (cases "c < 0x80")
  case True
  then show ?thesis
    using that [of "ucast c" "[]"] encode_utf8_ascii [OF True] ascii_roundtrip(2) [OF True] ascii_not_cont
    by simp
next
  case False
  then show ?thesis
    using that [of "hd (encode_utf8 c)" "tl (encode_utf8 c)"] encode_shape_high [OF assms False]
      encode_utf8_nonempty [OF assms] by simp
qed

lemma byte_at_off:
  assumes "valid_cps cps" "i < length cps"
  shows "utf8 cps ! off cps i = hd (encode_utf8 (cps ! i))"
proof -
  have "encode_utf8 (cps ! i) \<noteq> []" using encode_length_pos [OF assms] by simp
  then show ?thesis
    by (subst subject_split [OF assms(2)]) (simp add: off_def nth_append hd_conv_nth)
qed

lemma lead_at_off:
  assumes "valid_cps cps" "i < length cps"
  shows "\<not> cont_byte (utf8 cps ! off cps i)" "utf8 cps ! off cps i < 0x80 \<longleftrightarrow> cps ! i < 0x80"
    "cps ! i < 0x80 \<Longrightarrow> utf8 cps ! off cps i = ucast (cps ! i)"
    "cps ! i < 0x80 \<Longrightarrow> off cps (Suc i) = off cps i + 1"
proof -
  have v: "valid_cp (cps ! i)" using assms by (simp add: valid_cps_set)
  show "\<not> cont_byte (utf8 cps ! off cps i)" "utf8 cps ! off cps i < 0x80 \<longleftrightarrow> cps ! i < 0x80"
    "cps ! i < 0x80 \<Longrightarrow> utf8 cps ! off cps i = ucast (cps ! i)"
    "cps ! i < 0x80 \<Longrightarrow> off cps (Suc i) = off cps i + 1"
    using encode_shape [OF v] byte_at_off [OF assms] off_Suc [OF assms(2)]
    by (metis list.sel(1) length_Cons list.size(3) One_nat_def)+
qed

lemma rest_at_off:
  assumes "valid_cps cps" "i < length cps" "off cps i < k" "k < off cps (Suc i)"
  shows "cont_byte (utf8 cps ! k)"
proof -
  have v: "valid_cp (cps ! i)" using assms by (simp add: valid_cps_set)
  obtain b bs where e: "encode_utf8 (cps ! i) = b # bs" "list_all cont_byte bs"
    using encode_shape [OF v] by metis
  obtain j where j: "k = off cps i + Suc j" using assms(3) less_iff_Suc_add by auto
  have "j < length bs" using assms(4) j e(1) by (simp add: off_Suc [OF assms(2)])
  moreover have "utf8 cps ! k = bs ! j"
    using \<open>j < length bs\<close> by (subst subject_split [OF assms(2)]) (simp add: j off_def nth_append e(1))
  ultimately show ?thesis using e(2) by (simp add: list_all_length)
qed

end
