(* ===== verification/Vm_Match_Correct.thy ===== *)
theory Vm_Match_Correct
  imports Utf8_Cursor Vm_Exec
begin

text \<open>
  What the matching instructions do on a subject that is the encoding of a list of code points, with
  the cursor at a code point: they move it by whole code points, as the pattern primitives of the
  language are described.
\<close>

section \<open>Runs of code points\<close>

text \<open>Where the run of code points satisfying \<open>P\<close> from index \<open>i\<close> ends.\<close>

definition span_to :: "(u32 \<Rightarrow> bool) \<Rightarrow> u32 list \<Rightarrow> nat \<Rightarrow> nat" where
  "span_to P cps i = i + length (takeWhile P (drop i cps))"

lemma span_to_end: "length cps \<le> i \<Longrightarrow> span_to P cps i = i"
  by (simp add: span_to_def)

lemma span_to_step:
  "i < length cps \<Longrightarrow> span_to P cps i = (if P (cps ! i) then span_to P cps (Suc i) else i)"
  by (simp add: span_to_def Cons_nth_drop_Suc [symmetric])

lemma span_to_bounds: "i \<le> length cps \<Longrightarrow> i \<le> span_to P cps i \<and> span_to P cps i \<le> length cps"
  using length_takeWhile_le [of P "drop i cps"] by (simp add: span_to_def)

lemma scan_cps_at:
  assumes "valid_cps cps"
  shows "i \<le> length cps \<Longrightarrow> scan_cps P (utf8 cps) (off cps i) = off cps (span_to P cps i)"
proof (induction "length cps - i" arbitrary: i)
  case 0
  then show ?case by (subst scan_cps.simps) (simp add: peek_end span_to_end)
next
  case (Suc k)
  then have i: "i < length cps" by simp
  have p: "utf8_peek_next (utf8 cps) (off cps i) = Some (cps ! i, off cps (Suc i) - off cps i)"
    using peek_at [OF assms i] .
  have "off cps i < off cps (Suc i)" using off_less [OF assms, of i "Suc i"] i by simp
  then show ?case
    using Suc(1) [of "Suc i"] Suc(2) i
    by (subst scan_cps.simps) (simp add: p span_to_step)
qed

lemma scan_while_skip:
  "a \<le> b \<Longrightarrow> b \<le> length s \<Longrightarrow> (\<And>k. a \<le> k \<Longrightarrow> k < b \<Longrightarrow> P (s ! k)) \<Longrightarrow> scan_while P s a = scan_while P s b"
proof (induction "b - a" arbitrary: a)
  case (Suc n)
  have "scan_while P s a = scan_while P s (a + 1)"
    using Suc.prems(2) Suc.prems(3) [of a] Suc.hyps(2) by (subst scan_while.simps) auto
  then show ?case using Suc.hyps(1) [of "a + 1"] Suc.hyps(2) Suc.prems by simp
qed simp

definition in_class :: "char_class \<Rightarrow> u32 \<Rightarrow> bool" where
  "in_class cls cp =
     (case cls of
        Ascii_Class bm \<Rightarrow> cp < 0x80 \<and> bitmap_test bm (ucast cp)
      | Range_Class ranges cnt \<Rightarrow> range_contains ranges cnt cp
      | _ \<Rightarrow> False)"

lemma bitmap_test_high: "\<not> c < 0x80 \<Longrightarrow> \<not> bitmap_test bm c"
  by (simp add: bitmap_test_def word_less_nat_alt)

lemma bitmap_test_lead:
  assumes "valid_cps cps" "i < length cps"
  shows "bitmap_test bm (utf8 cps ! off cps i) \<longleftrightarrow> in_class (Ascii_Class bm) (cps ! i)"
  using lead_at_off [OF assms] bitmap_test_high [of "utf8 cps ! off cps i" bm] by (auto simp: in_class_def)

lemma scan_in_class:
  assumes "valid_cps cps"
  shows "i \<le> length cps \<Longrightarrow>
     scan_while (bitmap_test bm) (utf8 cps) (off cps i) = off cps (span_to (in_class (Ascii_Class bm)) cps i)"
proof (induction "length cps - i" arbitrary: i)
  case 0
  then show ?case by (subst scan_while.simps) (simp add: off_all span_to_end)
next
  case (Suc k)
  then have i: "i < length cps" by simp
  have lt: "off cps i < length (utf8 cps)" using off_end_iff [OF assms, of i] i by simp
  show ?case
  proof (cases "in_class (Ascii_Class bm) (cps ! i)")
    case True
    then have "off cps (Suc i) = off cps i + 1" using lead_at_off(4) [OF assms i] by (simp add: in_class_def)
    then show ?thesis
      using Suc(1) [of "Suc i"] Suc(2) i lt True bitmap_test_lead [OF assms i]
      by (subst scan_while.simps) (simp add: span_to_step)
  next
    case False
    then show ?thesis
      using i lt bitmap_test_lead [OF assms i] by (subst scan_while.simps) (simp add: span_to_step)
  qed
qed

lemma scan_out_of_class:
  assumes "valid_cps cps"
  shows "i \<le> length cps \<Longrightarrow>
     scan_while (\<lambda>b. \<not> bitmap_test bm b) (utf8 cps) (off cps i) =
       off cps (span_to (\<lambda>c. \<not> in_class (Ascii_Class bm) c) cps i)"
proof (induction "length cps - i" arbitrary: i)
  case 0
  then show ?case by (subst scan_while.simps) (simp add: off_all span_to_end)
next
  case (Suc k)
  then have i: "i < length cps" by simp
  have lt: "off cps i < length (utf8 cps)" using off_end_iff [OF assms, of i] i by simp
  show ?case
  proof (cases "in_class (Ascii_Class bm) (cps ! i)")
    case True
    then show ?thesis
      using i lt bitmap_test_lead [OF assms i] by (subst scan_while.simps) (simp add: span_to_step)
  next
    case False
    have "\<not> bitmap_test bm (utf8 cps ! j)" if "off cps i \<le> j" "j < off cps (Suc i)" for j
      using that False bitmap_test_lead [OF assms i] rest_at_off [OF assms i, of j]
        bitmap_test_high cont_byte_high by (cases "j = off cps i") auto
    then have "scan_while (\<lambda>b. \<not> bitmap_test bm b) (utf8 cps) (off cps i) =
        scan_while (\<lambda>b. \<not> bitmap_test bm b) (utf8 cps) (off cps (Suc i))"
      using off_less [OF assms, of i "Suc i"] i off_le [of cps "Suc i"]
      by (intro scan_while_skip) simp_all
    then show ?thesis using Suc(1) [of "Suc i"] Suc(2) i False by (simp add: span_to_step)
  qed
qed

lemma break_scan_at:
  assumes "valid_cps cps" "i \<le> length cps" "cls \<noteq> Truncated_Class"
  shows "break_scan cls (utf8 cps) (off cps i) = off cps (span_to (\<lambda>c. \<not> in_class cls c) cps i)"
proof (cases cls)
  case No_Class
  then show ?thesis using scan_cps_at [OF assms(1,2)] by (simp add: break_scan_def in_class_def)
next
  case (Range_Class ranges cnt)
  then show ?thesis using scan_cps_at [OF assms(1,2)] by (simp add: break_scan_def in_class_def)
next
  case (Ascii_Class bm)
  have "find_byte b (utf8 cps) (off cps i) = scan_while (\<lambda>c. \<not> bitmap_test bm c) (utf8 cps) (off cps i)"
    if "bitmap_single_ascii_byte bm = Some b" for b
    using bitmap_single_byte [OF that] by (simp add: find_byte_def)
  then show ?thesis
    using scan_out_of_class [OF assms(1,2), of bm] by (simp add: break_scan_def Ascii_Class split: option.splits)
next
  case Truncated_Class
  then show ?thesis using assms(3) by simp
qed

section \<open>Classes\<close>

definition after_u16 :: "vm \<Rightarrow> vm" where
  "after_u16 v = snd (operand_u16 v)"

definition class_operand :: "vm \<Rightarrow> char_class" where
  "class_operand v = load_class (after_u16 v) (fst (operand_u16 v))"

definition at_cp :: "u32 list \<Rightarrow> nat \<Rightarrow> vm \<Rightarrow> bool" where
  "at_cp cps i v \<longleftrightarrow> valid_cps cps \<and> i \<le> length cps \<and> vm_s v = utf8 cps \<and> vm_pos v = off cps i"

lemma after_u16_fields [simp]: "vm_s (after_u16 v) = vm_s v" "vm_pos (after_u16 v) = vm_pos v"
  by (simp_all add: after_u16_def operand_u16_def case_prod_unfold Let_def)

lemma op_any_at:
  assumes "at_cp cps i v" "class_operand v = cls" "cls \<noteq> Truncated_Class"
  shows "op_any v = (if i < length cps \<and> in_class cls (cps ! i)
     then Go (move_to (after_u16 v) (off cps (Suc i))) else backtrack (after_u16 v))"
proof -
  have v: "valid_cps cps" and a: "i \<le> length cps" and s: "vm_s v = utf8 cps" and p: "vm_pos v = off cps i"
    using assms(1) by (simp_all add: at_cp_def)
  have u: "op_any v = (case cls of Truncated_Class \<Rightarrow> Fault
      | Ascii_Class bm \<Rightarrow> (if off cps i < length (utf8 cps) \<and> bitmap_test bm (utf8 cps ! off cps i)
          then Go (move_to (after_u16 v) (off cps i + 1)) else backtrack (after_u16 v))
      | Range_Class ranges cnt \<Rightarrow> (case utf8_peek_next (utf8 cps) (off cps i) of None \<Rightarrow> backtrack (after_u16 v)
          | Some (cp, n) \<Rightarrow> (if range_contains ranges cnt cp
              then Go (move_to (after_u16 v) (off cps i + n)) else backtrack (after_u16 v)))
      | No_Class \<Rightarrow> backtrack (after_u16 v))"
    unfolding op_any_def case_prod_unfold Let_def after_u16_def [symmetric] class_operand_def [symmetric]
      after_u16_fields s p assms(2) by (rule refl)
  show ?thesis
  proof (cases "i < length cps")
    case True
    have lt: "off cps i < length (utf8 cps)" "off cps i < off cps (Suc i)"
      using off_end_iff [OF v] off_less [OF v, of i "Suc i"] a True by simp_all
    show ?thesis
      using True lt assms(3) peek_at [OF v True] bitmap_test_lead [OF v True] lead_at_off(4) [OF v True]
      by (auto simp: u in_class_def split: char_class.splits)
  next
    case False
    then show ?thesis
      using assms(3) a peek_end [of cps i] by (auto simp: u off_all split: char_class.splits)
  qed
qed

lemma at_cpD:
  assumes "at_cp cps i v"
  shows "valid_cps cps" "i \<le> length cps" "vm_s v = utf8 cps" "vm_pos v = off cps i"
    "off cps i < length (utf8 cps) \<longleftrightarrow> i < length cps"
    "i < length cps \<Longrightarrow> off cps i < off cps (Suc i)"
  using assms off_end_iff [of cps i] off_less [of cps i "Suc i"] by (simp_all add: at_cp_def)

lemma op_notany_at:
  assumes "at_cp cps i v" "class_operand v = cls" "cls \<noteq> Truncated_Class"
    and "\<forall>bm. cls = Ascii_Class bm \<longrightarrow> i < length cps \<longrightarrow> cps ! i < 0x80"
  shows "op_notany v = (if i < length cps \<and> \<not> in_class cls (cps ! i)
     then Go (move_to (after_u16 v) (off cps (Suc i))) else backtrack (after_u16 v))"
proof -
  note a = at_cpD [OF assms(1)]
  have u: "op_notany v = (case cls of Truncated_Class \<Rightarrow> Fault
      | Ascii_Class bm \<Rightarrow> (if off cps i < length (utf8 cps) \<and> \<not> bitmap_test bm (utf8 cps ! off cps i)
          then Go (move_to (after_u16 v) (off cps i + 1)) else backtrack (after_u16 v))
      | Range_Class ranges cnt \<Rightarrow> (case utf8_peek_next (utf8 cps) (off cps i) of None \<Rightarrow> backtrack (after_u16 v)
          | Some (cp, n) \<Rightarrow> (if range_contains ranges cnt cp then backtrack (after_u16 v)
              else Go (move_to (after_u16 v) (off cps i + n))))
      | No_Class \<Rightarrow> (case utf8_peek_next (utf8 cps) (off cps i) of None \<Rightarrow> backtrack (after_u16 v)
          | Some (cp, n) \<Rightarrow> Go (move_to (after_u16 v) (off cps i + n))))"
    unfolding op_notany_def case_prod_unfold Let_def after_u16_def [symmetric] class_operand_def [symmetric]
      after_u16_fields a(3,4) assms(2) by (rule refl)
  show ?thesis
  proof (cases "i < length cps")
    case True
    show ?thesis
      using True a(5) a(6) [OF True] assms(3,4) peek_at [OF a(1) True] bitmap_test_lead [OF a(1) True]
        lead_at_off(4) [OF a(1) True]
      by (auto simp: u in_class_def split: char_class.splits)
  next
    case False
    then show ?thesis
      using assms(3) a(2) peek_end [of cps i] by (auto simp: u off_all split: char_class.splits)
  qed
qed

lemma op_span_at:
  assumes "at_cp cps i v" "class_operand v = cls" "cls \<noteq> Truncated_Class"
  shows "op_span v = (if i < span_to (in_class cls) cps i
     then Go (move_to (after_u16 v) (off cps (span_to (in_class cls) cps i))) else backtrack (after_u16 v))"
proof -
  note a = at_cpD [OF assms(1)]
  have u: "op_span v = (case cls of Truncated_Class \<Rightarrow> Fault
      | Ascii_Class bm \<Rightarrow> (if off cps i < length (utf8 cps) \<and> bitmap_test bm (utf8 cps ! off cps i)
          then Go (move_to (after_u16 v) (scan_while (bitmap_test bm) (utf8 cps) (off cps i + 1)))
          else backtrack (after_u16 v))
      | Range_Class ranges cnt \<Rightarrow> (case utf8_peek_next (utf8 cps) (off cps i) of None \<Rightarrow> backtrack (after_u16 v)
          | Some (cp, n) \<Rightarrow> (if range_contains ranges cnt cp
              then Go (move_to (after_u16 v) (scan_cps (range_contains ranges cnt) (utf8 cps) (off cps i + n)))
              else backtrack (after_u16 v)))
      | No_Class \<Rightarrow> backtrack (after_u16 v))"
    unfolding op_span_def case_prod_unfold Let_def after_u16_def [symmetric] class_operand_def [symmetric]
      after_u16_fields a(3,4) assms(2) by (rule refl)
  show ?thesis
  proof (cases "i < length cps")
    case True
    have st: "span_to (in_class cls) cps i = (if in_class cls (cps ! i) then span_to (in_class cls) cps (Suc i) else i)"
      by (rule span_to_step [OF True])
    have gt: "i < span_to (in_class cls) cps (Suc i)" using span_to_bounds [of "Suc i" cps] True by (simp add: Suc_le_eq)
    have cp: "in_class (Range_Class r k) = range_contains r k" for r k by (simp add: in_class_def fun_eq_iff)
    show ?thesis
    proof (cases cls)
      case (Ascii_Class bm)
      then show ?thesis
        using True a(5) bitmap_test_lead [OF a(1) True, of bm] lead_at_off(4) [OF a(1) True] gt
          scan_in_class [OF a(1), of "Suc i" bm] st
        by (cases "in_class (Ascii_Class bm) (cps ! i)") (auto simp: u in_class_def [of "Ascii_Class bm" "cps ! i"])
    next
      case (Range_Class r k)
      then show ?thesis
        using True a(6) [OF True] peek_at [OF a(1) True] gt scan_cps_at [OF a(1), of "Suc i" "range_contains r k"] st
        by (cases "range_contains r k (cps ! i)") (simp_all add: u cp)
    qed (use assms(3) st in \<open>simp_all add: u in_class_def\<close>)
  next
    case False
    then show ?thesis
      using assms(3) a(2) peek_end [of cps i] by (auto simp: u off_all span_to_end split: char_class.splits)
  qed
qed

lemma op_break_at:
  assumes "at_cp cps i v" "class_operand v = cls" "cls \<noteq> Truncated_Class"
  shows "op_break v = Go (move_to (after_u16 v) (off cps (span_to (\<lambda>c. \<not> in_class cls c) cps i)))"
proof -
  note a = at_cpD [OF assms(1)]
  have u: "op_break v = (if cls = Truncated_Class then Fault
      else Go (move_to (after_u16 v) (break_scan cls (utf8 cps) (off cps i))))"
    unfolding op_break_def case_prod_unfold Let_def after_u16_def [symmetric] class_operand_def [symmetric]
      after_u16_fields a(3,4) assms(2) by (rule refl)
  show ?thesis using assms(3) break_scan_at [OF a(1,2) assms(3)] by (simp add: u)
qed

text \<open>
  C8: ANY, NOTANY, SPAN and BREAK work on characters. With the cursor at code point \<open>i\<close> of an
  encoded subject and a class that is all there: ANY takes the next code point if it is in the
  class; SPAN takes the longest non-empty run of code points in the class; BREAK the longest run
  outside it; and NOTANY takes the next code point if it is not in the class, provided it is an
  ASCII character where the class is all ASCII. Otherwise the match backtracks.
\<close>

theorem class_instructions_by_codepoints:
  assumes "at_cp cps i v" "class_operand v = cls" "cls \<noteq> Truncated_Class"
  shows "op_any v = (if i < length cps \<and> in_class cls (cps ! i)
       then Go (move_to (after_u16 v) (off cps (Suc i))) else backtrack (after_u16 v)) \<and>
    op_span v = (if i < span_to (in_class cls) cps i
       then Go (move_to (after_u16 v) (off cps (span_to (in_class cls) cps i))) else backtrack (after_u16 v)) \<and>
    op_break v = Go (move_to (after_u16 v) (off cps (span_to (\<lambda>c. \<not> in_class cls c) cps i))) \<and>
    ((\<forall>bm. cls = Ascii_Class bm \<longrightarrow> i < length cps \<longrightarrow> cps ! i < 0x80) \<longrightarrow>
     op_notany v = (if i < length cps \<and> \<not> in_class cls (cps ! i)
       then Go (move_to (after_u16 v) (off cps (Suc i))) else backtrack (after_u16 v)))"
  using op_any_at [OF assms] op_span_at [OF assms] op_break_at [OF assms] op_notany_at [OF assms] by simp

text \<open>The class of the letters a and b, on a subject of one ASCII and one other character.\<close>

definition class_example :: vm where
  "class_example = vm_zero [0, 1, 0, 1, 0, 0, 0, 0, 0, 97, 0, 0, 0, 98, 0, 0, 0, 2, 0, 0, 0, 1] [0x62, 0xC3, 0xA9]"

lemma class_example_start: "at_cp [98, 233] 0 class_example"
  by (simp add: at_cp_def class_example_def vm_zero_def encode_utf8_def off_def valid_cp_def)

lemma class_example_operand: "class_operand class_example = Ascii_Class (0, 0x600000000)"
  by code_simp

lemma class_instructions_by_codepoints_witness:
  "op_any class_example = Go (move_to (after_u16 class_example) (off [98, 233] 1)) \<and>
   op_break class_example = Go (move_to (after_u16 class_example) (off [98, 233] 0))"
  using class_instructions_by_codepoints [OF class_example_start class_example_operand]
  by (simp add: in_class_def bitmap_test_def span_to_def)

section \<open>Positions\<close>

lemma is_continuation_cont: "is_continuation b \<longleftrightarrow> cont_byte b"
  by (simp add: is_continuation_def cont_byte_mask)

lemma len_loop_at:
  assumes "valid_cps cps"
  shows "i \<le> length cps \<Longrightarrow> len_loop (utf8 cps) (off cps i) n =
     (if i + n \<le> length cps then Some (off cps (i + n)) else None)"
proof (induction n arbitrary: i)
  case (Suc n)
  show ?case
  proof (cases "i < length cps")
    case True
    have "off cps i < off cps (Suc i)" using off_less [OF assms, of i "Suc i"] True by simp
    then show ?thesis using Suc.IH [of "Suc i"] True peek_at [OF assms True] by simp
  next
    case False
    then show ?thesis using Suc.prems peek_end [of cps i] by simp
  qed
qed simp

lemma scan_continuation:
  assumes "valid_cps cps" "i < length cps"
  shows "scan_while is_continuation (utf8 cps) (off cps i + 1) = off cps (Suc i)"
proof -
  have lt: "off cps i < off cps (Suc i)" "off cps (Suc i) \<le> length (utf8 cps)"
    using off_less [OF assms(1), of i "Suc i"] assms(2) off_le by simp_all
  have "scan_while is_continuation (utf8 cps) (off cps i + 1) = scan_while is_continuation (utf8 cps) (off cps (Suc i))"
    using lt rest_at_off [OF assms] by (intro scan_while_skip) (simp_all add: is_continuation_cont)
  also have "\<dots> = off cps (Suc i)"
  proof (cases "Suc i < length cps")
    case True
    then show ?thesis using lead_at_off(1) [OF assms(1) True]
      by (subst scan_while.simps) (simp add: is_continuation_cont)
  next
    case False
    then show ?thesis by (subst scan_while.simps) (simp add: off_all)
  qed
  finally show ?thesis .
qed

lemma walk_fwd_at:
  assumes "valid_cps cps"
  shows "i \<le> length cps \<Longrightarrow> walk_fwd (utf8 cps) (off cps i) n = off cps (min (i + n) (length cps))"
proof (induction n arbitrary: i)
  case (Suc n)
  show ?case
  proof (cases "i < length cps")
    case True
    then show ?thesis
      using Suc.IH [of "Suc i"] off_end_iff [OF assms, of i] scan_continuation [OF assms True] by simp
  next
    case False
    then show ?thesis using Suc.prems by (simp add: off_all)
  qed
qed simp

lemma skip_back_at:
  assumes "valid_cps cps" "i < length cps"
  shows "off cps i + k < off cps (Suc i) \<Longrightarrow> skip_back (utf8 cps) (off cps i + k) = off cps i"
proof (induction k)
  case 0
  show ?case
  proof (cases "off cps i")
    case (Suc t)
    then show ?thesis using lead_at_off(1) [OF assms] by (simp add: is_continuation_cont)
  qed simp
next
  case (Suc k)
  then show ?case using rest_at_off [OF assms, of "off cps i + Suc k"] by (simp add: is_continuation_cont)
qed

lemma walk_back_at:
  assumes "valid_cps cps"
  shows "i \<le> length cps \<Longrightarrow> walk_back (utf8 cps) (off cps i) n = off cps (i - n)"
proof (induction n arbitrary: i)
  case (Suc n)
  show ?case
  proof (cases i)
    case 0
    then show ?thesis by simp
  next
    case (Suc j)
    have j: "j < length cps" "off cps j < off cps (Suc j)"
      using off_less [OF assms, of j "Suc j"] Suc.prems Suc by simp_all
    have "off cps j + (off cps (Suc j) - 1 - off cps j) = off cps (Suc j) - 1" using j(2) by simp
    then have "skip_back (utf8 cps) (off cps (Suc j) - 1) = off cps j"
      using skip_back_at [OF assms j(1), of "off cps (Suc j) - 1 - off cps j"] j(2) by simp
    then show ?thesis using Suc.IH [of j] Suc j by simp
  qed
qed simp

definition after_u32 :: "vm \<Rightarrow> vm" where
  "after_u32 v = snd (operand_u32 v)"

definition count_operand :: "vm \<Rightarrow> nat" where
  "count_operand v = unat (fst (operand_u32 v))"

lemma after_u32_fields [simp]: "vm_s (after_u32 v) = vm_s v" "vm_pos (after_u32 v) = vm_pos v"
  by (simp_all add: after_u32_def operand_u32_def case_prod_unfold Let_def)

lemma count_operandD:
  assumes "count_operand v = n"
  shows "unat (fst (operand_u32 v)) = n" "0 < fst (operand_u32 v) \<longleftrightarrow> 0 < n"
  using assms by (auto simp: count_operand_def word_less_nat_alt)

lemma op_len_at:
  assumes "at_cp cps i v" "count_operand v = n"
  shows "op_len v = (if i + n \<le> length cps
       then Go (move_to (after_u32 v) (off cps (i + n))) else backtrack (after_u32 v))"
proof -
  note a = at_cpD [OF assms(1)]
  show ?thesis
    unfolding op_len_def case_prod_unfold Let_def after_u32_def [symmetric] after_u32_fields a(3,4)
      count_operandD [OF assms(2)] len_loop_at [OF a(1,2)] by simp
qed

lemma walk_at:
  assumes "valid_cps cps"
  shows "walk_fwd (utf8 cps) 0 n = off cps (min n (length cps))"
    "walk_back (utf8 cps) (length (utf8 cps)) n = off cps (length cps - n)"
  using walk_fwd_at [OF assms, of 0 n] walk_back_at [OF assms, of "length cps" n] by simp_all

lemma off_at:
  assumes "at_cp cps i v" "j \<le> length cps"
  shows "off cps i = off cps j \<longleftrightarrow> i = j" "off cps j < off cps i \<longleftrightarrow> j < i"
    "length (utf8 cps) \<le> off cps j \<longleftrightarrow> length cps \<le> j"
  using at_cpD(1,2) [OF assms(1)] assms(2) off_inject [of cps i j] off_less_iff [of cps j i] off_end_iff [of cps j]
  by (simp_all add: not_less [symmetric])

lemma op_pos_at:
  assumes "at_cp cps i v" "count_operand v = n"
  shows "op_pos v = (if i = min n (length cps) then Go (after_u32 v) else backtrack (after_u32 v))"
  unfolding op_pos_def case_prod_unfold Let_def after_u32_def [symmetric] after_u32_fields at_cpD(3,4) [OF assms(1)]
    count_operandD [OF assms(2)] walk_at [OF at_cpD(1) [OF assms(1)]]
  by (simp add: off_at [OF assms(1)])

lemma op_rpos_at:
  assumes "at_cp cps i v" "count_operand v = n"
  shows "op_rpos v = (if i = length cps - n then Go (after_u32 v) else backtrack (after_u32 v))"
  unfolding op_rpos_def case_prod_unfold Let_def after_u32_def [symmetric] after_u32_fields at_cpD(3,4) [OF assms(1)]
    count_operandD [OF assms(2)] walk_at [OF at_cpD(1) [OF assms(1)]]
  by (simp add: off_at [OF assms(1)])

lemma op_tab_at:
  assumes "at_cp cps i v" "count_operand v = n"
  shows "op_tab v = (if i \<le> n \<and> (n < length cps \<or> n = 0)
       then Go (move_to (after_u32 v) (off cps n)) else backtrack (after_u32 v))"
  unfolding op_tab_def case_prod_unfold Let_def after_u32_def [symmetric] after_u32_fields at_cpD(3,4) [OF assms(1)]
    count_operandD [OF assms(2)] walk_at [OF at_cpD(1) [OF assms(1)]]
  using at_cpD(2) [OF assms(1)] by (auto simp: off_at [OF assms(1)] min_def)

lemma op_rtab_at:
  assumes "at_cp cps i v" "count_operand v = n"
  shows "op_rtab v = (if i \<le> length cps - n
       then Go (move_to (after_u32 v) (off cps (length cps - n))) else backtrack (after_u32 v))"
  unfolding op_rtab_def case_prod_unfold Let_def after_u32_def [symmetric] after_u32_fields at_cpD(3,4) [OF assms(1)]
    count_operandD [OF assms(2)] walk_at [OF at_cpD(1) [OF assms(1)]]
  by (simp add: off_at [OF assms(1)] not_less)

lemma op_rem_at: "at_cp cps i v \<Longrightarrow> op_rem v = Go (move_to v (off cps (length cps)))"
  by (simp add: op_rem_def at_cp_def)



section \<open>Literals\<close>

lemma utf8_prefix:
  "valid_cps xs \<Longrightarrow> valid_cps ys \<Longrightarrow> utf8 xs = utf8 ys @ zs \<Longrightarrow> take (length ys) xs = ys"
proof (induction ys arbitrary: xs)
  case (Cons y ys)
  have y: "utf8_peek_next (encode_utf8 y @ utf8 ys @ zs) 0 = Some (y, length (encode_utf8 y))"
    using decode_encode_any [of y "[]"] Cons.prems(2) by simp
  have "encode_utf8 y \<noteq> []" using Cons.prems(2) encode_utf8_nonempty by simp
  then obtain x xs' where xs: "xs = x # xs'" using Cons.prems(3) by (cases xs) simp_all
  have "utf8_peek_next (encode_utf8 x @ utf8 xs') 0 = Some (x, length (encode_utf8 x))"
    using decode_encode_any [of x "[]"] Cons.prems(1) xs by simp
  then have "x = y" using y Cons.prems(3) xs by simp
  then show ?case using Cons.IH [of xs'] Cons.prems xs by simp
qed simp

lemma drop_off: "i \<le> length cps \<Longrightarrow> drop (off cps i) (utf8 cps) = utf8 (drop i cps)"
  by (subst utf8_take_drop [of cps i]) (simp add: off_def)

lemma off_add: "off cps (i + k) = off cps i + length (utf8 (take k (drop i cps)))"
  by (simp add: off_def take_add)

text \<open>The machine behind the two operands of LIT, and behind the bytes if they follow.\<close>

definition lit_offset :: "vm \<Rightarrow> nat" where
  "lit_offset v = unat (fst (operand_u32 v))"

definition lit_length :: "vm \<Rightarrow> nat" where
  "lit_length v = lit_offset (after_u32 v)"

definition after_lit :: "vm \<Rightarrow> vm" where
  "after_lit v = (let u = after_u32 (after_u32 v) in
     if lit_offset v = vm_ip u then u\<lparr>vm_ip := vm_ip u + lit_length v\<rparr> else u)"

lemma after_lit_fields [simp]: "vm_s (after_lit v) = vm_s v" "vm_pos (after_lit v) = vm_pos v"
  "vm_bc (after_lit v) = vm_bc v"
  by (simp_all add: after_lit_def Let_def after_u32_def operand_u32_def case_prod_unfold)

lemma op_lit_at:
  assumes "at_cp cps i v" "valid_cps ls" "lit_offset v + lit_length v \<le> length (vm_bc v)"
    and "sub_list (lit_offset v) (lit_length v) (vm_bc v) = utf8 ls"
  shows "op_lit v = (if take (length ls) (drop i cps) = ls
    then Go (move_to (after_lit v) (off cps (i + length ls))) else backtrack (after_lit v))"
proof -
  note a = at_cpD [OF assms(1)]
  let ?rest = "utf8 (drop i cps)"
  have len: "lit_length v = length (utf8 ls)" using assms(3,4) by (metis add_diff_cancel_left' diff_le_mono length_sub_list min.absorb1)
  have u: "op_lit v =
      (if length (vm_s v) < vm_pos v then Fault
       else if lit_length v \<le> length (vm_s v) - vm_pos v
       then if length (vm_bc v) < lit_offset v + lit_length v then Fault
            else if sub_list (vm_pos v) (lit_length v) (vm_s v) = sub_list (lit_offset v) (lit_length v) (vm_bc v)
            then Go (move_to (after_lit v) (vm_pos v + lit_length v)) else backtrack (after_lit v)
       else backtrack (after_lit v))"
    unfolding op_lit_def case_prod_unfold Let_def after_u32_def [symmetric] lit_offset_def [symmetric]
      lit_length_def [symmetric] after_lit_def [unfolded Let_def, symmetric]
    by (simp only: after_lit_fields)
  have s: "sub_list (vm_pos v) (lit_length v) (vm_s v) = take (length (utf8 ls)) ?rest"
    by (simp add: sub_list_def a(3,4) len drop_off [OF a(2)])
  have room: "length (vm_s v) - vm_pos v = length ?rest"
    using drop_off [OF a(2)] a(3,4) by (metis length_drop)
  have valid: "valid_cps (drop i cps)" using a(1) by (metis append_take_drop_id valid_cps_simps(3))
  have iff: "length (utf8 ls) \<le> length ?rest \<and> take (length (utf8 ls)) ?rest = utf8 ls \<longleftrightarrow>
      take (length ls) (drop i cps) = ls"
  proof
    assume "length (utf8 ls) \<le> length ?rest \<and> take (length (utf8 ls)) ?rest = utf8 ls"
    then have "?rest = utf8 ls @ drop (length (utf8 ls)) ?rest" by (metis append_take_drop_id)
    then show "take (length ls) (drop i cps) = ls" by (rule utf8_prefix [OF valid assms(2)])
  next
    assume "take (length ls) (drop i cps) = ls"
    then have "?rest = utf8 ls @ utf8 (drop (length ls) (drop i cps))" by (metis append_take_drop_id utf8_append)
    then show "length (utf8 ls) \<le> length ?rest \<and> take (length (utf8 ls)) ?rest = utf8 ls" by simp
  qed
  have "take (length ls) (drop i cps) = ls \<Longrightarrow> off cps (i + length ls) = off cps i + length (utf8 ls)"
    by (simp add: off_add)
  then show ?thesis
    using assms(3,4) a(4) off_le [of cps i] a(3) iff len unfolding u s room by auto
qed

text \<open>
  C10: LIT compares text. With the cursor at code point \<open>i\<close> and operands that name an encoded
  literal within the bytecode, LIT goes on behind the literal exactly if the code points from \<open>i\<close>
  on start with those of the literal, and backtracks otherwise.
\<close>

theorem literal_by_codepoints:
  assumes "at_cp cps i v" "valid_cps ls" "lit_offset v + lit_length v \<le> length (vm_bc v)"
    and "sub_list (lit_offset v) (lit_length v) (vm_bc v) = utf8 ls"
  shows "op_lit v = (if take (length ls) (drop i cps) = ls
    then Go (move_to (after_lit v) (off cps (i + length ls))) else backtrack (after_lit v))"
  by (rule op_lit_at [OF assms])

definition literal_example :: vm where
  "literal_example = vm_zero [0, 0, 0, 8, 0, 0, 0, 2, 0xC3, 0xA9] [0x62, 0xC3, 0xA9]"

lemma literal_by_codepoints_witness:
  "op_lit literal_example = backtrack (after_lit literal_example)"
proof -
  have o: "lit_offset literal_example = 8" "lit_length literal_example = 2" by code_simp+
  show ?thesis
    using literal_by_codepoints [of "[98, 233]" 0 literal_example "[233]"]
    by (simp add: o) (simp add: at_cp_def literal_example_def vm_zero_def encode_utf8_def off_def valid_cp_def sub_list_def)
qed

section \<open>Balanced text\<close>

definition nesting :: "u32 \<Rightarrow> u32 \<Rightarrow> u32 list \<Rightarrow> int" where
  "nesting oc cc xs = int (count_list xs oc) - int (count_list xs cc)"

lemma nesting_simps [simp]:
  "nesting oc cc [] = 0"
  "nesting oc cc (x # xs) = (if x = oc then 1 else 0) - (if x = cc then 1 else 0) + nesting oc cc xs"
  by (simp_all add: nesting_def)

text \<open>The first prefix of a text at which the depth returns to zero, as its length.\<close>

fun close_at :: "u32 \<Rightarrow> u32 \<Rightarrow> int \<Rightarrow> u32 list \<Rightarrow> nat option" where
  "close_at oc cc d [] = None"
| "close_at oc cc d (x # xs) =
     (if x = oc then map_option Suc (close_at oc cc (d + 1) xs)
      else if x = cc then if d - 1 = 0 then Some 1 else map_option Suc (close_at oc cc (d - 1) xs)
      else map_option Suc (close_at oc cc d xs))"

lemma bal_loop_at:
  assumes "valid_cps cps"
  shows "i \<le> length cps \<Longrightarrow> bal_loop (utf8 cps) oc cc (off cps i) d =
     map_option (\<lambda>k. off cps (i + k)) (close_at oc cc d (drop i cps))"
proof (induction "length cps - i" arbitrary: i d)
  case 0
  then show ?case by (subst bal_loop.simps) (simp add: peek_end)
next
  case (Suc k)
  then have i: "i < length cps" by simp
  have step: "off cps i + (off cps (Suc i) - off cps i) = off cps (Suc i)"
    using off_less [OF assms, of i "Suc i"] i by simp
  have d: "drop i cps = cps ! i # drop (Suc i) cps" using i by (simp add: Cons_nth_drop_Suc)
  have IH: "bal_loop (utf8 cps) oc cc (off cps (Suc i)) d' =
      map_option (\<lambda>k. off cps (Suc i + k)) (close_at oc cc d' (drop (Suc i) cps))" for d'
    using Suc(1) [of "Suc i" d'] Suc(2) i by simp
  show ?case
    unfolding d by (subst bal_loop.simps) (simp add: peek_at [OF assms i] step IH option.map_comp comp_def)
qed

lemma close_at_first:
  assumes "oc \<noteq> cc" "0 < d"
  shows "close_at oc cc d xs = Some k \<longleftrightarrow>
    0 < k \<and> k \<le> length xs \<and> d + nesting oc cc (take k xs) = 0 \<and>
    (\<forall>j. j < k \<longrightarrow> 0 < d + nesting oc cc (take j xs))"
  using assms
proof (induction xs arbitrary: d k)
  case (Cons x xs)
  let ?e = "(if x = oc then 1 else 0) - (if x = cc then 1 else 0) :: int"
  have split: "(\<forall>j. j < Suc m \<longrightarrow> 0 < d + nesting oc cc (take j (x # xs))) \<longleftrightarrow>
      (\<forall>j. j < m \<longrightarrow> 0 < d + ?e + nesting oc cc (take j xs))" for m
  proof
    assume a: "\<forall>j. j < Suc m \<longrightarrow> 0 < d + nesting oc cc (take j (x # xs))"
    show "\<forall>j. j < m \<longrightarrow> 0 < d + ?e + nesting oc cc (take j xs)"
    proof (intro allI impI)
      fix j assume "j < m"
      then show "0 < d + ?e + nesting oc cc (take j xs)" using a [rule_format, of "Suc j"] by simp
    qed
  next
    assume a: "\<forall>j. j < m \<longrightarrow> 0 < d + ?e + nesting oc cc (take j xs)"
    show "\<forall>j. j < Suc m \<longrightarrow> 0 < d + nesting oc cc (take j (x # xs))"
    proof (intro allI impI)
      fix j assume "j < Suc m"
      then show "0 < d + nesting oc cc (take j (x # xs))"
        using a [rule_format, of "j - 1"] Cons.prems(2) by (cases j) simp_all
    qed
  qed
  show ?case
  proof (cases "x = cc \<and> d = 1")
    case True
    then have "x \<noteq> oc" using Cons.prems(1) by simp
    have "k = 1" if "0 < k" "\<forall>j. j < k \<longrightarrow> 0 < d + nesting oc cc (take j (x # xs))"
      using that(2) [rule_format, of 1] that(1) True \<open>x \<noteq> oc\<close> by (cases k) auto
    then show ?thesis using True \<open>x \<noteq> oc\<close> by auto
  next
    case False
    have pos: "0 < d + ?e" using False Cons.prems by auto
    have u: "close_at oc cc d (x # xs) = map_option Suc (close_at oc cc (d + ?e) xs)"
      using False Cons.prems(1) by auto
    show ?thesis
    proof (cases k)
      case 0
      then show ?thesis unfolding u by simp
    next
      case (Suc m)
      have "close_at oc cc d (x # xs) = Some k \<longleftrightarrow> close_at oc cc (d + ?e) xs = Some m"
        unfolding u Suc by auto
      also have "\<dots> \<longleftrightarrow> 0 < m \<and> m \<le> length xs \<and> d + ?e + nesting oc cc (take m xs) = 0 \<and>
          (\<forall>j. j < m \<longrightarrow> 0 < d + ?e + nesting oc cc (take j xs))"
        by (rule Cons.IH [OF Cons.prems(1) pos])
      also have "\<dots> \<longleftrightarrow> m \<le> length xs \<and> d + ?e + nesting oc cc (take m xs) = 0 \<and>
          (\<forall>j. j < m \<longrightarrow> 0 < d + ?e + nesting oc cc (take j xs))"
        using pos by (cases m) auto
      finally show ?thesis unfolding Suc split by (simp add: algebra_simps)
    qed
  qed
qed simp

definition bal_open :: "vm \<Rightarrow> u32" where
  "bal_open v = fst (operand_u32 v)"

definition bal_close :: "vm \<Rightarrow> u32" where
  "bal_close v = bal_open (after_u32 v)"

definition balanced_to :: "u32 \<Rightarrow> u32 \<Rightarrow> u32 list \<Rightarrow> nat \<Rightarrow> nat \<Rightarrow> bool" where
  "balanced_to oc cc cps i j \<longleftrightarrow> i < j \<and> j \<le> length cps \<and> cps ! i = oc \<and>
     nesting oc cc (sub_list i (j - i) cps) = 0 \<and>
     (\<forall>m. i < m \<and> m < j \<longrightarrow> 0 < nesting oc cc (sub_list i (m - i) cps))"

lemma balanced_to_close_at:
  assumes "oc \<noteq> cc" "i < length cps" "cps ! i = oc"
  shows "balanced_to oc cc cps i j \<longleftrightarrow> i < j \<and> close_at oc cc 0 (drop i cps) = Some (j - i)"
proof (cases "i < j")
  case True
  obtain k where j: "j = Suc (i + k)" using True less_imp_Suc_add by blast
  have d: "drop i cps = oc # drop (Suc i) cps" using assms(2,3) by (metis Cons_nth_drop_Suc)
  have n: "nesting oc cc (sub_list i (Suc m) cps) = 1 + nesting oc cc (take m (drop (Suc i) cps))" for m
    using assms(1) by (simp add: sub_list_def d)
  have all: "(\<forall>m. i < m \<and> m < j \<longrightarrow> 0 < nesting oc cc (sub_list i (m - i) cps)) \<longleftrightarrow>
      (\<forall>m. m < k \<longrightarrow> 0 < 1 + nesting oc cc (take m (drop (Suc i) cps)))"
  proof
    assume a: "\<forall>m. i < m \<and> m < j \<longrightarrow> 0 < nesting oc cc (sub_list i (m - i) cps)"
    show "\<forall>m. m < k \<longrightarrow> 0 < 1 + nesting oc cc (take m (drop (Suc i) cps))"
    proof (intro allI impI)
      fix m assume "m < k"
      then show "0 < 1 + nesting oc cc (take m (drop (Suc i) cps))"
        using a [rule_format, of "i + Suc m"] j n [of m] by simp
    qed
  next
    assume a: "\<forall>m. m < k \<longrightarrow> 0 < 1 + nesting oc cc (take m (drop (Suc i) cps))"
    show "\<forall>m. i < m \<and> m < j \<longrightarrow> 0 < nesting oc cc (sub_list i (m - i) cps)"
    proof (intro allI impI)
      fix m assume m: "i < m \<and> m < j"
      then have "m - i = Suc (m - Suc i)" "m - Suc i < k" using j by auto
      then show "0 < nesting oc cc (sub_list i (m - i) cps)"
        using a [rule_format, of "m - Suc i"] n [of "m - Suc i"] by simp
    qed
  qed
  have c: "close_at oc cc 0 (drop i cps) = Some (Suc k) \<longleftrightarrow> close_at oc cc 1 (drop (Suc i) cps) = Some k"
    by (auto simp: d)
  have ji: "j - i = Suc k" using j by simp
  have pos: "nesting oc cc (take 0 xs) = 0" for xs by simp
  show ?thesis
    unfolding balanced_to_def all c close_at_first [OF assms(1) zero_less_one] ji n
    using j assms(2,3) pos [of "drop (Suc i) cps"] by (cases k) auto
qed (simp add: balanced_to_def)

text \<open>
  C11: BAL takes the shortest balanced text. With the cursor at code point \<open>i\<close> and two different
  delimiters, BAL goes behind the first code point \<open>j\<close> for which the text from \<open>i\<close> to \<open>j\<close> starts
  with the opening delimiter and has as many closing as opening ones. Where there is none it
  backtracks if the text starts with the opening delimiter, and takes the path that ends the run
  otherwise.
\<close>

theorem bal_by_codepoints:
  assumes "at_cp cps i v" "bal_open v = oc" "bal_close v = cc" "oc \<noteq> cc"
  shows "(\<forall>j. balanced_to oc cc cps i j \<longrightarrow> op_bal v = Go (move_to (after_u32 (after_u32 v)) (off cps j))) \<and>
    ((\<forall>j. \<not> balanced_to oc cc cps i j) \<longrightarrow> op_bal v =
       (if i < length cps \<and> cps ! i = oc then backtrack (after_u32 (after_u32 v))
        else backtrack_break (after_u32 (after_u32 v))))"
proof -
  note a = at_cpD [OF assms(1)]
  let ?u = "after_u32 (after_u32 v)"
  have u: "op_bal v = (case utf8_peek_next (utf8 cps) (off cps i) of None \<Rightarrow> backtrack_break ?u
      | Some (first, n) \<Rightarrow> (if first \<noteq> oc then backtrack_break ?u
         else case bal_loop (utf8 cps) oc cc (off cps i) 0 of None \<Rightarrow> backtrack ?u
            | Some p \<Rightarrow> Go (move_to ?u p)))"
    unfolding op_bal_def case_prod_unfold Let_def after_u32_def [symmetric] bal_open_def [symmetric]
      bal_close_def [symmetric] after_u32_fields a(3,4) assms(2,3) by (rule refl)
  show ?thesis
  proof (cases "i < length cps \<and> cps ! i = oc")
    case True
    note b = balanced_to_close_at [OF assms(4), of i cps]
    have "\<not> close_at oc cc 0 (drop i cps) = Some 0" using True assms(4) by (cases "drop i cps") auto
    moreover have "\<not> (\<forall>j>i. k \<noteq> j - i)" if "0 < k" for k using that by (auto intro: exI [of _ "i + k"])
    ultimately show ?thesis
      unfolding u using True b peek_at [OF a(1), of i] bal_loop_at [OF a(1,2), of oc cc 0]
      by (cases "close_at oc cc 0 (drop i cps)") auto
  next
    case False
    then have "\<not> balanced_to oc cc cps i j" for j by (auto simp: balanced_to_def)
    then show ?thesis
      unfolding u using False peek_at [OF a(1), of i] peek_end [of cps i] a(2) by (cases "i < length cps") auto
  qed
qed

definition bal_example :: vm where
  "bal_example = vm_zero [0, 0, 0, 40, 0, 0, 0, 41] [0x28, 0xC3, 0xA9, 0x29, 0x29]"

lemma bal_by_codepoints_witness:
  "op_bal bal_example = Go (move_to (after_u32 (after_u32 bal_example)) (off [40, 233, 41, 41] 3))"
proof -
  have o: "bal_open bal_example = 40" "bal_close bal_example = 41" by code_simp+
  have a: "at_cp [40, 233, 41, 41] 0 bal_example"
    by (simp add: at_cp_def bal_example_def vm_zero_def encode_utf8_def off_def valid_cp_def)
  have b: "balanced_to 40 41 [40, 233, 41, 41] 0 3"
    by (auto simp: balanced_to_def sub_list_def less_Suc_eq numeral_3_eq_3)
  show ?thesis using bal_by_codepoints [OF a o] b by simp
qed

end
