(* ===== verification/Lexer.thy ===== *)
theory Lexer
  imports Prelude
begin

text \<open>
  \<open>lexer.c\<close>: the tokens of the pattern language. The state is the structure \<open>snobol_lexer\<close>; the
  peeked token and its flag are one option, and so are the sticky error and its flag. The text of a
  token is a copy of the bytes that the code points to in the source, which it never changes. The
  message of an error is its kind with the values printed into it.
\<close>

datatype token_type =
    TOKEN_EOF | TOKEN_LIT | TOKEN_IDENT | TOKEN_CHARCLASS | TOKEN_INTEGER | TOKEN_PIPE
  | TOKEN_LPAREN | TOKEN_RPAREN | TOKEN_STAR | TOKEN_PLUS | TOKEN_QUESTION | TOKEN_ANCHOR_START
  | TOKEN_ANCHOR_END | TOKEN_AT | TOKEN_COLON | TOKEN_LBRACKET | TOKEN_RBRACKET | TOKEN_DOT
  | TOKEN_EQUALS | TOKEN_COMMA | TOKEN_ERROR

record token =
  tok_type :: token_type
  tok_text :: bytes
  tok_value :: int

datatype lexer_error_kind = Unrecognized u8 | Integer_Too_Large

record lexer_error =
  le_kind :: lexer_error_kind
  le_line :: nat
  le_column :: nat

record lexer =
  lx_source :: bytes
  lx_pos :: nat
  lx_line :: nat
  lx_column :: nat
  lx_peek :: "token option"
  lx_prev :: token_type
  lx_error :: "lexer_error option"

definition snobol_lexer_create :: "bytes \<Rightarrow> lexer" where
  "snobol_lexer_create source =
     \<lparr>lx_source = source, lx_pos = 0, lx_line = 1, lx_column = 1, lx_peek = None,
      lx_prev = TOKEN_EOF, lx_error = None\<rparr>"

text \<open>The fields of a token that its type does not use are not set in the code; here they are empty.\<close>

definition make_token :: "token_type \<Rightarrow> token" where
  "make_token ty = \<lparr>tok_type = ty, tok_text = [], tok_value = 0\<rparr>"

definition make_token_with_text :: "token_type \<Rightarrow> bytes \<Rightarrow> token" where
  "make_token_with_text ty text = (make_token ty)\<lparr>tok_text := text\<rparr>"

definition integer_token :: "int \<Rightarrow> token" where
  "integer_token v = (make_token TOKEN_INTEGER)\<lparr>tok_value := v\<rparr>"

section \<open>Characters\<close>

definition is_ident_start :: "u8 \<Rightarrow> bool" where
  "is_ident_start c \<longleftrightarrow> (97 \<le> c \<and> c \<le> 122) \<or> (65 \<le> c \<and> c \<le> 90) \<or> c = 95"

definition is_digit_char :: "u8 \<Rightarrow> bool" where
  "is_digit_char c \<longleftrightarrow> 48 \<le> c \<and> c \<le> 57"

definition is_ident_continue :: "u8 \<Rightarrow> bool" where
  "is_ident_continue c \<longleftrightarrow> is_ident_start c \<or> is_digit_char c"

definition is_white :: "u8 \<Rightarrow> bool" where
  "is_white c \<longleftrightarrow> c = 32 \<or> c = 9 \<or> c = 10 \<or> c = 13"

section \<open>Scanning\<close>

text \<open>The current character, \<open>None\<close> at the end.\<close>

definition lx_char :: "lexer \<Rightarrow> u8 option" where
  "lx_char l = byte_at (lx_source l) (lx_pos l)"

definition step_char :: "lexer \<Rightarrow> lexer" where
  "step_char l = l\<lparr>lx_pos := lx_pos l + 1, lx_column := lx_column l + 1\<rparr>"

lemma step_char_fields [simp]:
  "lx_source (step_char l) = lx_source l" "lx_pos (step_char l) = lx_pos l + 1"
  "lx_line (step_char l) = lx_line l" "lx_peek (step_char l) = lx_peek l"
  "lx_prev (step_char l) = lx_prev l" "lx_error (step_char l) = lx_error l"
  by (simp_all add: step_char_def)

function skip_whitespace :: "lexer \<Rightarrow> lexer" where
  "skip_whitespace l =
     (case lx_char l of
        None \<Rightarrow> l
      | Some c \<Rightarrow>
          (if is_white c
           then skip_whitespace (step_char (if c = 10 then l\<lparr>lx_line := lx_line l + 1, lx_column := 0\<rparr> else l))
           else l))"
  by pat_completeness auto
termination
  by (relation "measure (\<lambda>l. length (lx_source l) - lx_pos l)") (auto simp: lx_char_def byte_at_def split: if_splits)

declare skip_whitespace.simps [simp del]

text \<open>The loop over the characters that satisfy a test.\<close>

function skip_chars :: "(u8 \<Rightarrow> bool) \<Rightarrow> lexer \<Rightarrow> lexer" where
  "skip_chars P l =
     (case lx_char l of
        None \<Rightarrow> l
      | Some c \<Rightarrow> (if P c then skip_chars P (step_char l) else l))"
  by pat_completeness auto
termination
  by (relation "measure (\<lambda>(P, l). length (lx_source l) - lx_pos l)") (auto simp: lx_char_def byte_at_def split: if_splits)

declare skip_chars.simps [simp del]

text \<open>The bytes from position \<open>start\<close> to the current one.\<close>

definition text_from :: "nat \<Rightarrow> lexer \<Rightarrow> bytes" where
  "text_from start l = sub_list start (lx_pos l - start) (lx_source l)"

text \<open>
  Literals and classes run up to a closing character, which is skipped, or to the end of the
  source. The column is advanced by the length again behind the closing character.
\<close>

definition scan_closed :: "token_type \<Rightarrow> u8 \<Rightarrow> lexer \<Rightarrow> token \<times> lexer" where
  "scan_closed ty closing l0 =
     (let start = lx_pos l0; l = skip_chars (\<lambda>c. c \<noteq> closing) l0; token = make_token_with_text ty (text_from start l)
      in case lx_char l of
           Some _ \<Rightarrow> (token, l\<lparr>lx_pos := lx_pos l + 1, lx_column := lx_column l + (lx_pos l + 1 - start) + 1\<rparr>)
         | None \<Rightarrow> (token, l))"

definition scan_literal :: "lexer \<Rightarrow> token \<times> lexer" where
  "scan_literal l = scan_closed TOKEN_LIT 39 l"

definition scan_charclass :: "lexer \<Rightarrow> token \<times> lexer" where
  "scan_charclass l = scan_closed TOKEN_CHARCLASS 93 l"

definition scan_ident :: "lexer \<Rightarrow> token \<times> lexer" where
  "scan_ident l0 = (let l = skip_chars is_ident_continue l0
     in (make_token_with_text TOKEN_IDENT (text_from (lx_pos l0) l), l))"

definition INT64_MAX :: int where
  "INT64_MAX = 0x7FFFFFFFFFFFFFFF"

text \<open>
  The value of the digits and whether it left the range on the way. Beyond the range the code
  computes on with a wrapped value; the flag stays set and the value is not used then.
\<close>

fun digits_loop :: "bytes \<Rightarrow> int \<Rightarrow> bool \<Rightarrow> int \<times> bool" where
  "digits_loop [] value overflow = (value, overflow)"
| "digits_loop (c # cs) value overflow =
     (let d = uint c - 48
      in digits_loop cs (value * 10 + d) (overflow \<or> (INT64_MAX - d) div 10 < value))"

definition scan_integer :: "lexer \<Rightarrow> bool \<Rightarrow> token \<times> lexer" where
  "scan_integer l0 negative =
     (let l = skip_chars is_digit_char l0; (value, overflow) = digits_loop (text_from (lx_pos l0) l) 0 False;
          value = (if negative \<and> \<not> overflow then - value else value)
      in if overflow
         then (make_token TOKEN_ERROR,
               if lx_error l = None
               then l\<lparr>lx_error := Some \<lparr>le_kind = Integer_Too_Large, le_line = lx_line l, le_column = lx_column l\<rparr>\<rparr>
               else l)
         else (integer_token value, l))"

definition set_lexer_error :: "lexer \<Rightarrow> u8 \<Rightarrow> lexer" where
  "set_lexer_error l c =
     (if lx_error l \<noteq> None then l
      else l\<lparr>lx_error := Some \<lparr>le_kind = Unrecognized c, le_line = lx_line l, le_column = lx_column l\<rparr>\<rparr>)"

text \<open>The two loops of the look-ahead behind an opening bracket, on the rest of the source.\<close>

definition skip_blanks :: "bytes \<Rightarrow> bytes" where
  "skip_blanks s = dropWhile (\<lambda>c. c = 32 \<or> c = 9) s"

definition table_key_ahead :: "bytes \<Rightarrow> bool" where
  "table_key_ahead s =
     (case skip_blanks s of
        [] \<Rightarrow> False
      | c # rest \<Rightarrow>
          (if c = 39 then 39 \<in> set (takeWhile (\<lambda>c. c \<noteq> 93) rest)
           else if c = 36
           then (case rest of v # d # _ \<Rightarrow> v = 118 \<and> is_digit_char d | _ \<Rightarrow> False)
           else False))"

definition bracket_is_table_key :: "lexer \<Rightarrow> bool" where
  "bracket_is_table_key l = table_key_ahead (drop (lx_pos l + 1) (lx_source l))"

section \<open>Tokens\<close>

text \<open>The tokens of one character.\<close>

definition single_token :: "u8 \<Rightarrow> token_type option" where
  "single_token c =
     (if c = 124 then Some TOKEN_PIPE else if c = 40 then Some TOKEN_LPAREN
      else if c = 41 then Some TOKEN_RPAREN else if c = 42 then Some TOKEN_STAR
      else if c = 43 then Some TOKEN_PLUS else if c = 63 then Some TOKEN_QUESTION
      else if c = 94 then Some TOKEN_ANCHOR_START else if c = 36 then Some TOKEN_ANCHOR_END
      else if c = 46 then Some TOKEN_DOT else if c = 64 then Some TOKEN_AT
      else if c = 58 then Some TOKEN_COLON else if c = 93 then Some TOKEN_RBRACKET
      else if c = 61 then Some TOKEN_EQUALS else if c = 44 then Some TOKEN_COMMA
      else None)"

text \<open>Returning a token makes its type the previous one.\<close>

definition return_token :: "token \<times> lexer \<Rightarrow> token \<times> lexer" where
  "return_token r = (fst r, (snd r)\<lparr>lx_prev := tok_type (fst r)\<rparr>)"

definition next_is_digit :: "lexer \<Rightarrow> bool" where
  "next_is_digit l = (case byte_at (lx_source l) (lx_pos l + 1) of Some d \<Rightarrow> is_digit_char d | None \<Rightarrow> False)"

text \<open>The switch on the first character of a token.\<close>

definition scan_token :: "lexer \<Rightarrow> u8 \<Rightarrow> token \<times> lexer" where
  "scan_token l c =
     (case single_token c of
        Some ty \<Rightarrow> return_token (make_token ty, step_char l)
      | None \<Rightarrow>
          (if c = 91
           then if lx_prev l = TOKEN_IDENT \<and> bracket_is_table_key l
                then return_token (make_token TOKEN_LBRACKET, step_char l)
                else return_token (scan_charclass (step_char l))
           else if c = 39 then return_token (scan_literal (step_char l))
           else if is_ident_start c then return_token (scan_ident l)
           else if is_digit_char c then return_token (scan_integer l False)
           else if c = 45 \<and> next_is_digit l then return_token (scan_integer (step_char l) True)
           else return_token (make_token TOKEN_ERROR, set_lexer_error l c)))"

definition scan_next :: "lexer \<Rightarrow> token \<times> lexer" where
  "scan_next l0 =
     (let l = skip_whitespace l0
      in case lx_char l of
           None \<Rightarrow> (make_token TOKEN_EOF, l)
         | Some c \<Rightarrow> (if c = 0 then (make_token TOKEN_EOF, l) else scan_token l c))"

definition snobol_lexer_next :: "lexer \<Rightarrow> token \<times> lexer" where
  "snobol_lexer_next l =
     (if lx_error l \<noteq> None then (make_token TOKEN_ERROR, l)
      else case lx_peek l of
             Some t \<Rightarrow> (t, l\<lparr>lx_peek := None, lx_prev := tok_type t\<rparr>)
           | None \<Rightarrow> scan_next l)"

definition snobol_lexer_peek :: "lexer \<Rightarrow> token \<times> lexer" where
  "snobol_lexer_peek l =
     (case lx_peek l of
        Some t \<Rightarrow> (t, l)
      | None \<Rightarrow> (let (t, l) = snobol_lexer_next l in (t, l\<lparr>lx_peek := Some t\<rparr>)))"

record lexer_state =
  ls_pos :: nat
  ls_line :: nat
  ls_column :: nat
  ls_peek :: "token option"
  ls_prev :: token_type

definition snobol_lexer_save :: "lexer \<Rightarrow> lexer_state" where
  "snobol_lexer_save l =
     \<lparr>ls_pos = lx_pos l, ls_line = lx_line l, ls_column = lx_column l, ls_peek = lx_peek l, ls_prev = lx_prev l\<rparr>"

definition snobol_lexer_restore :: "lexer \<Rightarrow> lexer_state \<Rightarrow> lexer" where
  "snobol_lexer_restore l st =
     l\<lparr>lx_pos := ls_pos st, lx_line := ls_line st, lx_column := ls_column st, lx_peek := ls_peek st,
       lx_prev := ls_prev st\<rparr>"

definition snobol_lexer_has_error :: "lexer \<Rightarrow> bool" where
  "snobol_lexer_has_error l \<longleftrightarrow> lx_error l \<noteq> None"

end
