(* ===== verification/Ast.thy ===== *)
theory Ast
  imports Prelude
begin

text \<open>
  \<open>ast.h\<close> and \<open>ast.c\<close>: the syntax trees of patterns. A node is a constructor with the members of
  its part of the union; a string with its length is a byte list, a string that may be NULL an
  option. Trees are values here, so copying a tree is the identity and freeing one does nothing.
\<close>

definition ascii :: "string \<Rightarrow> bytes" where
  "ascii s = map of_char s"

datatype anchor_type = ANCHOR_START | ANCHOR_END

datatype ast =
    AST_LITERAL bytes
  | AST_CONCAT "ast list"
  | AST_ALT ast ast
  | AST_REPETITION ast int int
  | AST_SPAN bytes
  | AST_BREAK bytes
  | AST_ANY "bytes option"
  | AST_NOTANY bytes
  | AST_ARBNO ast
  | AST_CAP int ast
  | AST_ASSIGN int int
  | AST_LEN int
  | AST_EVAL int int
  | AST_DYNAMIC_EVAL ast
  | AST_ANCHOR anchor_type
  | AST_EMIT "bytes option" int
  | AST_LABEL bytes ast
  | AST_GOTO bytes
  | AST_TABLE_ACCESS bytes ast
  | AST_TABLE_UPDATE bytes ast ast
  | AST_BREAKX bytes
  | AST_BAL u32 u32
  | AST_FENCE
  | AST_REM
  | AST_RPOS int
  | AST_RTAB int
  | AST_POS int
  | AST_TAB int
  | AST_ABORT
  | AST_FAIL
  | AST_SUCCEED
  | AST_REG_REF int

end
