(* ===== verification/Parser.thy ===== *)
theory Parser
  imports Lexer Ast Utf8
begin

text \<open>
  \<open>parser.c\<close>: the recursive descent parser. The functions of the code that call each other
  recursively are one function here, \<open>parse\<close>, over the kinds of recursive call, with a bound on the
  depth of the calls and loop iterations; the bodies take it as an argument. A body that returns NULL or
  false ends in \<open>Null\<close>, with the error that it set. An error message is its format with the values
  printed into it. Memory allocation never fails in the model.
\<close>

datatype message =
    Text string
  | Lexical lexer_error
  | Expected token_type token_type
  | Expects_Integer string token
  | Integer_Range string int
  | Naming_Register int
  | Duplicate_Label bytes
  | Repeat_Min int
  | Repeat_Max int int
  | Not_A_Capture bytes
  | Assign_Register int
  | Key_Register int
  | Invalid_Key bytes
  | Unknown_Capture bytes

record parser_error =
  pe_message :: message
  pe_line :: nat
  pe_column :: nat

text \<open>The parser with the lexer it reads from.\<close>

record parser =
  ps_lexer :: lexer
  ps_error :: "parser_error option"
  seen_labels :: "bytes list"
  capture_reg_counter :: int
  capture_names :: "(bytes \<times> int) list"

definition snobol_parser_create :: "lexer \<Rightarrow> parser" where
  "snobol_parser_create l =
     \<lparr>ps_lexer = l, ps_error = None, seen_labels = [], capture_reg_counter = 0, capture_names = []\<rparr>"

datatype 'a parsed = Parsed 'a parser | Null parser | Too_Deep

primrec pbind :: "'a parsed \<Rightarrow> ('a \<Rightarrow> parser \<Rightarrow> 'b parsed) \<Rightarrow> 'b parsed" where
  "pbind (Parsed a p) f = f a p"
| "pbind (Null p) f = Null p"
| "pbind Too_Deep f = Too_Deep"

section \<open>Helpers\<close>

definition set_error :: "parser \<Rightarrow> message \<Rightarrow> parser" where
  "set_error p msg =
     p\<lparr>ps_error := Some \<lparr>pe_message = msg, pe_line = lx_line (ps_lexer p), pe_column = lx_pos (ps_lexer p)\<rparr>\<rparr>"

definition fail_with :: "message \<Rightarrow> parser \<Rightarrow> 'a parsed" where
  "fail_with msg p = Null (set_error p msg)"

definition advance :: "parser \<Rightarrow> parser" where
  "advance p = p\<lparr>ps_lexer := snd (snobol_lexer_next (ps_lexer p))\<rparr>"

definition peek :: "parser \<Rightarrow> token \<times> parser" where
  "peek p = (let (t, l) = snobol_lexer_peek (ps_lexer p) in (t, p\<lparr>ps_lexer := l\<rparr>))"

definition save :: "parser \<Rightarrow> lexer_state" where
  "save p = snobol_lexer_save (ps_lexer p)"

definition restore :: "parser \<Rightarrow> lexer_state \<Rightarrow> parser" where
  "restore p st = p\<lparr>ps_lexer := snobol_lexer_restore (ps_lexer p) st\<rparr>"

text \<open>Passing a lexical error on, if the token is one.\<close>

definition lexical_error :: "token \<Rightarrow> parser \<Rightarrow> lexer_error option" where
  "lexical_error tok p = (if tok_type tok = TOKEN_ERROR then lx_error (ps_lexer p) else None)"

definition expect :: "token_type \<Rightarrow> parser \<Rightarrow> unit parsed" where
  "expect ty p =
     (let (tok, p) = peek p
      in if tok_type tok = ty then Parsed () (advance p)
         else case lexical_error tok p of
                Some e \<Rightarrow> fail_with (Lexical e) p
              | None \<Rightarrow> fail_with (Expected ty (tok_type tok)) p)"

definition INT32_MIN :: int where
  "INT32_MIN = - 0x80000000"

definition INT32_MAX :: int where
  "INT32_MAX = 0x7FFFFFFF"

definition MAX_VARS_INT :: int where
  "MAX_VARS_INT = 64"

definition parse_integer_arg :: "string \<Rightarrow> parser \<Rightarrow> int parsed" where
  "parse_integer_arg func p =
     (let (tok, p) = peek p
      in case lexical_error tok p of
           Some e \<Rightarrow> fail_with (Lexical e) p
         | None \<Rightarrow>
             (if tok_type tok \<noteq> TOKEN_INTEGER then fail_with (Expects_Integer func tok) p
              else if tok_value tok < INT32_MIN \<or> INT32_MAX < tok_value tok
              then fail_with (Integer_Range func (tok_value tok)) p
              else Parsed (tok_value tok) (advance p)))"

text \<open>The register is at most 64: the test in the loop is \<open>reg > MAX_VARS\<close>.\<close>

fun v_register_loop :: "bytes \<Rightarrow> int \<Rightarrow> int option" where
  "v_register_loop [] reg = Some reg"
| "v_register_loop (c # cs) reg =
     (if \<not> is_digit_char c then None
      else (let reg = reg * 10 + (uint c - 48) in if MAX_VARS_INT < reg then None else v_register_loop cs reg))"

definition ident_is_v_register :: "bytes \<Rightarrow> int option" where
  "ident_is_v_register text =
     (case text of
        v # d # ds \<Rightarrow> (if v \<noteq> 118 \<or> \<not> is_digit_char d then None else v_register_loop (d # ds) 0)
      | _ \<Rightarrow> None)"

fun update_name :: "(bytes \<times> int) list \<Rightarrow> bytes \<Rightarrow> int \<Rightarrow> (bytes \<times> int) list" where
  "update_name [] name reg = [(name, reg)]"
| "update_name ((n, r) # es) name reg = (if n = name then (n, reg) # es else (n, r) # update_name es name reg)"

definition register_capture_name :: "parser \<Rightarrow> bytes \<Rightarrow> int \<Rightarrow> parser" where
  "register_capture_name p name reg = p\<lparr>capture_names := update_name (capture_names p) name reg\<rparr>"

definition find_capture_reg :: "parser \<Rightarrow> bytes \<Rightarrow> int" where
  "find_capture_reg p name = (case map_of (capture_names p) name of Some r \<Rightarrow> r | None \<Rightarrow> - 1)"

text \<open>The next sequential register for a capture with a name.\<close>

definition new_capture :: "bytes \<Rightarrow> parser \<Rightarrow> int parsed" where
  "new_capture name p =
     (if MAX_VARS_INT \<le> capture_reg_counter p then fail_with (Text ''Too many captures (max 64)'') p
      else Parsed (capture_reg_counter p)
             (register_capture_name (p\<lparr>capture_reg_counter := capture_reg_counter p + 1\<rparr>) name (capture_reg_counter p)))"

definition is_v_digit :: "bytes \<Rightarrow> bool" where
  "is_v_digit text \<longleftrightarrow> (case text of v # d # _ \<Rightarrow> v = 118 \<and> is_digit_char d | _ \<Rightarrow> False)"

definition parse_naming_target :: "parser \<Rightarrow> int parsed" where
  "parse_naming_target p =
     (let (tok, p) = peek p
      in if tok_type tok = TOKEN_AT
         then (let p = advance p; (tok, p) = peek p
               in if tok_type tok \<noteq> TOKEN_IDENT
                  then fail_with (Text ''expected a capture name after '@' in a naming target'') p
                  else pbind (new_capture (tok_text tok) p) (\<lambda>reg p. Parsed reg (advance p)))
         else (let (tok, p) = (if tok_type tok = TOKEN_ANCHOR_END then peek (advance p) else (tok, p));
                   other = fail_with (Text ''naming target must be @name or $vN (e.g. 'a' . @word or 'a' $ v1)'') p
               in if tok_type tok = TOKEN_IDENT
                  then (case ident_is_v_register (tok_text tok) of
                          Some reg \<Rightarrow> (if MAX_VARS_INT \<le> reg then fail_with (Naming_Register reg) p
                                      else Parsed reg (advance p))
                        | None \<Rightarrow> (if is_v_digit (tok_text tok)
                                  then fail_with (Text ''naming register out of range (v0..v63)'') p
                                  else other))
                  else other))"

section \<open>The kinds of recursive call\<close>

datatype call =
    Statement
  | Alternation
  | Alternatives ast
  | Parts "ast list"
  | Repetition
  | Primary

type_synonym recursion = "call \<Rightarrow> parser \<Rightarrow> ast parsed"

section \<open>Builtin calls\<close>

definition parse_set_arg :: "string \<Rightarrow> (bytes \<Rightarrow> ast) \<Rightarrow> parser \<Rightarrow> ast parsed" where
  "parse_set_arg err node p =
     (let (arg, p) = peek p
      in if tok_type arg \<noteq> TOKEN_LIT \<and> tok_type arg \<noteq> TOKEN_CHARCLASS then fail_with (Text err) p
         else pbind (expect TOKEN_RPAREN (advance p)) (\<lambda>_ p. Parsed (node (tok_text arg)) p))"

definition parse_int_call :: "string \<Rightarrow> (int \<Rightarrow> ast) \<Rightarrow> parser \<Rightarrow> ast parsed" where
  "parse_int_call func node p =
     pbind (parse_integer_arg func p) (\<lambda>n p. pbind (expect TOKEN_RPAREN p) (\<lambda>_ p. Parsed (node n) p))"

definition parse_empty_call :: "ast \<Rightarrow> parser \<Rightarrow> ast parsed" where
  "parse_empty_call node p = pbind (expect TOKEN_RPAREN p) (\<lambda>_ p. Parsed node p)"

definition parse_any_call :: "parser \<Rightarrow> ast parsed" where
  "parse_any_call p =
     (let (arg, p) = peek p
      in if tok_type arg = TOKEN_RPAREN then Parsed (AST_ANY None) (advance p)
         else parse_set_arg ''ANY expects string argument'' (\<lambda>s. AST_ANY (Some s)) p)"

definition ARB_NODE :: ast where
  "ARB_NODE = AST_ARBNO (AST_LEN 1)"

definition parse_arbno_call :: "recursion \<Rightarrow> parser \<Rightarrow> ast parsed" where
  "parse_arbno_call rec p =
     (let err = fail_with (Text ''ARBNO expects one pattern argument: ARBNO(pattern)''); (tok, p) = peek p
      in if tok_type tok = TOKEN_RPAREN then err p
         else pbind (rec Repetition p) (\<lambda>sub p.
           (let (tok, p) = peek p
            in if tok_type tok = TOKEN_COMMA then err p
               else pbind (expect TOKEN_RPAREN p) (\<lambda>_ p. Parsed (AST_ARBNO sub) p))))"

text \<open>A delimiter of BAL: the first code point of a literal.\<close>

definition parse_delimiter :: "token \<Rightarrow> parser \<Rightarrow> u32 parsed" where
  "parse_delimiter arg p =
     (if tok_type arg \<noteq> TOKEN_LIT
      then fail_with (Text ''BAL expects string delimiters: BAL() or BAL('(', ')')'') p
      else (let p = advance p
            in case utf8_peek_next (tok_text arg) 0 of
                 None \<Rightarrow> fail_with (Text ''BAL delimiter is not valid UTF-8'') p
               | Some (cp, _) \<Rightarrow> Parsed cp p))"

definition parse_bal_call :: "parser \<Rightarrow> ast parsed" where
  "parse_bal_call p =
     (let (arg, p) = peek p
      in if tok_type arg = TOKEN_RPAREN then Parsed (AST_BAL 40 41) (advance p)
         else pbind (parse_delimiter arg p) (\<lambda>open_cp p.
           (let (tok, p) = peek p
            in if tok_type tok = TOKEN_COMMA
               then (let (arg, p) = peek (advance p)
                     in if tok_type arg = TOKEN_RPAREN
                        then fail_with (Text ''BAL expects a closing delimiter after the comma: BAL('(', ')')'') p
                        else pbind (parse_delimiter arg p) (\<lambda>close_cp p.
                          parse_empty_call (AST_BAL open_cp close_cp) p))
               else parse_empty_call (AST_BAL open_cp 41) p)))"

definition parse_no_args :: "string \<Rightarrow> ast \<Rightarrow> parser \<Rightarrow> ast parsed" where
  "parse_no_args err node p =
     (let (tok, p) = peek p
      in if tok_type tok \<noteq> TOKEN_RPAREN then fail_with (Text err) p else Parsed node (advance p))"

definition parse_repeat_call :: "recursion \<Rightarrow> parser \<Rightarrow> ast parsed" where
  "parse_repeat_call rec p =
     (let sig = fail_with (Text ''repeat expects three arguments: repeat(pattern, min, max)''); (tok, p) = peek p
      in if tok_type tok = TOKEN_RPAREN then sig p
         else pbind (rec Repetition p) (\<lambda>sub p. pbind (expect TOKEN_COMMA p) (\<lambda>_ p.
           pbind (parse_integer_arg ''repeat'' p) (\<lambda>min p.
             (let (tok, p) = peek p
              in if tok_type tok = TOKEN_RPAREN then sig p
                 else pbind (expect TOKEN_COMMA p) (\<lambda>_ p. pbind (parse_integer_arg ''repeat'' p) (\<lambda>max p.
                   pbind (expect TOKEN_RPAREN p) (\<lambda>_ p.
                     if min < 0 then fail_with (Repeat_Min min) p
                     else if max < min then fail_with (Repeat_Max max min) p
                     else Parsed (AST_REPETITION sub min max) p))))))))"

definition parse_dynamic_eval :: "recursion \<Rightarrow> parser \<Rightarrow> ast parsed" where
  "parse_dynamic_eval rec p =
     pbind (rec Alternation p) (\<lambda>expr p. pbind (expect TOKEN_RPAREN p) (\<lambda>_ p. Parsed (AST_DYNAMIC_EVAL expr) p))"

definition parse_emit :: "parser \<Rightarrow> ast parsed" where
  "parse_emit p =
     (let (tok, p) = peek p
      in if tok_type tok = TOKEN_LIT
         then pbind (expect TOKEN_RPAREN (advance p)) (\<lambda>_ p. Parsed (AST_EMIT (Some (tok_text tok)) (- 1)) p)
         else if tok_type tok = TOKEN_AT
         then (let (tok, p) = peek (advance p)
               in if tok_type tok \<noteq> TOKEN_IDENT
                  then fail_with (Text ''EMIT(@...) expects a capture name or register: EMIT(@name) or EMIT(@vN)'') p
                  else (let reg = (case ident_is_v_register (tok_text tok) of
                                     Some r \<Rightarrow> r | None \<Rightarrow> find_capture_reg p (tok_text tok))
                        in if ident_is_v_register (tok_text tok) = None \<and> reg < 0
                           then fail_with (Unknown_Capture (tok_text tok)) p
                           else pbind (expect TOKEN_RPAREN (advance p)) (\<lambda>_ p. Parsed (AST_EMIT None reg) p)))
         else fail_with (Text ''EMIT expects an argument: EMIT('text') or EMIT(@reg)'') p)"

text \<open>
  The comparison \<open>strncmp (name, "SPAN", name_len) == 0\<close>: equal as far as the name goes. A name has
  no NUL byte in it.
\<close>

definition named :: "bytes \<Rightarrow> string \<Rightarrow> bool" where
  "named name f \<longleftrightarrow> name = take (length name) (ascii f)"

definition parse_builtin :: "recursion \<Rightarrow> bytes \<Rightarrow> parser \<Rightarrow> ast parsed" where
  "parse_builtin rec name p =
     (if named name ''SPAN'' then parse_set_arg ''SPAN expects string argument'' AST_SPAN p
      else if named name ''BREAK'' then parse_set_arg ''BREAK expects string argument'' AST_BREAK p
      else if named name ''BREAKX'' then parse_set_arg ''BREAKX expects string argument'' AST_BREAKX p
      else if named name ''ANY'' then parse_any_call p
      else if named name ''NOTANY'' then parse_set_arg ''NOTANY expects string argument'' AST_NOTANY p
      else if named name ''LEN'' then parse_int_call ''LEN'' AST_LEN p
      else if named name ''EVAL'' then parse_dynamic_eval rec p
      else if named name ''EMIT'' then parse_emit p
      else if named name ''POS'' then parse_int_call ''POS'' AST_POS p
      else if named name ''TAB'' then parse_int_call ''TAB'' AST_TAB p
      else if named name ''ARB'' then parse_empty_call ARB_NODE p
      else if named name ''ARBNO'' then parse_arbno_call rec p
      else if named name ''BAL'' then parse_bal_call p
      else if named name ''FENCE'' then parse_no_args ''FENCE expects no arguments'' AST_FENCE p
      else if named name ''REM'' then parse_no_args ''REM expects no arguments'' AST_REM p
      else if named name ''RPOS'' then parse_int_call ''RPOS'' AST_RPOS p
      else if named name ''RTAB'' then parse_int_call ''RTAB'' AST_RTAB p
      else if named name ''repeat'' then parse_repeat_call rec p
      else if named name ''ABORT'' then parse_empty_call AST_ABORT p
      else if named name ''FAIL'' then parse_empty_call AST_FAIL p
      else if named name ''SUCCEED'' then parse_empty_call AST_SUCCEED p
      else fail_with (Text ''Unknown function'') p)"

section \<open>Tables and assignments\<close>

definition parse_assignment :: "bytes \<Rightarrow> parser \<Rightarrow> ast parsed" where
  "parse_assignment name p =
     (let p = advance p;
          var = (case ident_is_v_register name of Some r \<Rightarrow> r | None \<Rightarrow> find_capture_reg p name)
      in if ident_is_v_register name = None \<and> var < 0 then fail_with (Not_A_Capture name) p
         else (let (tok, p) = peek p
               in if tok_type tok \<noteq> TOKEN_INTEGER
                  then fail_with (Text ''assignment expects a register number after '=' (e.g. v1 = 0 copies capture register 0 into v1)'') p
                  else if tok_value tok < 0 \<or> MAX_VARS_INT \<le> tok_value tok
                  then fail_with (Assign_Register (tok_value tok)) p
                  else Parsed (AST_ASSIGN var (tok_value tok)) (advance p)))"

definition parse_table_key :: "bytes \<Rightarrow> parser \<Rightarrow> ast parsed" where
  "parse_table_key name p =
     (let (tok, p) = peek p
      in case lexical_error tok p of
           Some e \<Rightarrow> fail_with (Lexical e) p
         | None \<Rightarrow>
             (if tok_type tok = TOKEN_LIT then Parsed (AST_LITERAL (tok_text tok)) (advance p)
              else if tok_type tok = TOKEN_ANCHOR_END
              then (let (tok, p) = peek (advance p)
                    in case (if tok_type tok = TOKEN_IDENT then ident_is_v_register (tok_text tok) else None) of
                         None \<Rightarrow> fail_with (Text ''table key register must be $vN (e.g. $v0 for the value captured into register 0)'') p
                       | Some reg \<Rightarrow>
                           (if MAX_VARS_INT \<le> reg then fail_with (Key_Register reg) p
                            else Parsed (AST_REG_REF reg) (advance p)))
              else fail_with (Invalid_Key name) p))"

definition parse_table_or_assign :: "recursion \<Rightarrow> bytes \<Rightarrow> parser \<Rightarrow> ast parsed" where
  "parse_table_or_assign rec name p =
     (let (tok, p) = peek p
      in if tok_type tok = TOKEN_EQUALS then parse_assignment name p
         else pbind (parse_table_key name (advance p)) (\<lambda>key p. pbind (expect TOKEN_RBRACKET p) (\<lambda>_ p.
           (let (tok, p) = peek p
            in if tok_type tok = TOKEN_EQUALS
               then (let (tok, p) = peek (advance p)
                     in if tok_type tok = TOKEN_EOF
                        then fail_with (Text (''expected a value pattern after '=' in 'TABLE[key] = '' @ [CHR 0x27])) p
                        else pbind (rec Repetition p) (\<lambda>value p. Parsed (AST_TABLE_UPDATE name key value) p))
               else Parsed (AST_TABLE_ACCESS name key) p))))"

definition parse_function_call :: "recursion \<Rightarrow> parser \<Rightarrow> ast parsed" where
  "parse_function_call rec p =
     (let (name_tok, p) = peek p
      in if tok_type name_tok \<noteq> TOKEN_IDENT then fail_with (Text ''Expected function name'') p
         else (let name = tok_text name_tok; (nxt, p) = peek (advance p)
               in if tok_type nxt = TOKEN_EQUALS \<or> tok_type nxt = TOKEN_LBRACKET then parse_table_or_assign rec name p
                  else if tok_type nxt = TOKEN_CHARCLASS
                  then fail_with (Text ''invalid table key after identifier: expected 'literal' or $vN register reference'') p
                  else if tok_type nxt \<noteq> TOKEN_LPAREN
                  then if name = ascii ''ARB'' then Parsed ARB_NODE p
                       else if name = ascii ''FENCE'' then Parsed AST_FENCE p
                       else if name = ascii ''REM'' then Parsed AST_REM p
                       else fail_with (Text ''Bare identifier is not a valid pattern'') p
                  else parse_builtin rec name (advance p)))"

section \<open>Patterns\<close>

definition parse_primary :: "recursion \<Rightarrow> parser \<Rightarrow> ast parsed" where
  "parse_primary rec p =
     (let (tok, p) = peek p
      in case tok_type tok of
           TOKEN_LIT \<Rightarrow> Parsed (AST_LITERAL (tok_text tok)) (advance p)
         | TOKEN_CHARCLASS \<Rightarrow> Parsed (AST_SPAN (tok_text tok)) (advance p)
         | TOKEN_LPAREN \<Rightarrow>
             pbind (rec Alternation (advance p)) (\<lambda>inner p. pbind (expect TOKEN_RPAREN p) (\<lambda>_ p. Parsed inner p))
         | TOKEN_ANCHOR_START \<Rightarrow> Parsed (AST_ANCHOR ANCHOR_START) (advance p)
         | TOKEN_ANCHOR_END \<Rightarrow>
             (let (nxt, p) = peek (advance p)
              in if tok_type nxt = TOKEN_IDENT
                 then fail_with (Text ''unary '$' indirect reference is not supported (naming targets are @name or $vN)'') p
                 else Parsed (AST_ANCHOR ANCHOR_END) p)
         | TOKEN_AT \<Rightarrow>
             (let (tok, p) = peek (advance p)
              in if tok_type tok \<noteq> TOKEN_IDENT then fail_with (Text ''Expected capture target'') p
                 else pbind (new_capture (tok_text tok) (advance p)) (\<lambda>reg p.
                   pbind (rec Primary p) (\<lambda>sub p. Parsed (AST_CAP reg sub) p)))
         | TOKEN_IDENT \<Rightarrow> parse_function_call rec p
         | _ \<Rightarrow>
             (case lexical_error tok p of
                Some e \<Rightarrow> fail_with (Lexical e) p
              | None \<Rightarrow>
                  (if tok_type tok = TOKEN_INTEGER
                   then fail_with (Text ''Integer literal is not valid here (digits only appear inside builtin argument lists)'') p
                   else fail_with (Text ''Unexpected token in pattern'') p)))"

definition parse_repetition :: "recursion \<Rightarrow> parser \<Rightarrow> ast parsed" where
  "parse_repetition rec p =
     pbind (parse_primary rec p) (\<lambda>primary p.
       (let (tok, p) = peek p
        in case tok_type tok of
             TOKEN_STAR \<Rightarrow> Parsed (AST_ARBNO primary) (advance p)
           | TOKEN_PLUS \<Rightarrow> Parsed (AST_CONCAT [primary, AST_ARBNO primary]) (advance p)
           | TOKEN_QUESTION \<Rightarrow> Parsed (AST_REPETITION primary 0 1) (advance p)
           | _ \<Rightarrow> Parsed primary p))"

text \<open>
  Whether a naming operator follows the last part, and if so, in front of its target: \<open>Some\<close> with the
  parser there. A \<open>$\<close> that is no naming operator is put back.
\<close>

definition naming_follows :: "token \<Rightarrow> parser \<Rightarrow> bool parsed" where
  "naming_follows tok p =
     (if tok_type tok = TOKEN_DOT then Parsed True (advance p)
      else if tok_type tok = TOKEN_ANCHOR_END
      then (let saved = save p; (nxt, q) = peek (advance p)
            in if tok_type nxt = TOKEN_AT then Parsed True q
               else if tok_type nxt = TOKEN_IDENT
               then if ident_is_v_register (tok_text nxt) \<noteq> None then Parsed True q
                    else fail_with (Text ''unary '$' indirect reference is not supported (naming targets are @name or $vN)'') q
               else Parsed False (restore q saved))
      else Parsed False p)"

text \<open>Whether a primary pattern starts here; an identifier is looked behind, and put back.\<close>

definition starts_primary :: "token \<Rightarrow> bool" where
  "starts_primary tok \<longleftrightarrow>
     tok_type tok \<in> {TOKEN_LIT, TOKEN_CHARCLASS, TOKEN_LPAREN, TOKEN_ANCHOR_START, TOKEN_ANCHOR_END,
       TOKEN_AT, TOKEN_IDENT}"

definition look_behind_ident :: "token \<Rightarrow> parser \<Rightarrow> parser" where
  "look_behind_ident tok p =
     (if tok_type tok = TOKEN_IDENT then (let saved = save p; (nxt, q) = peek (advance p) in restore q saved) else p)"

text \<open>One round of the loop of \<open>parse_concatenation\<close>, with the parts so far.\<close>

definition parse_parts :: "recursion \<Rightarrow> ast list \<Rightarrow> parser \<Rightarrow> ast parsed" where
  "parse_parts rec parts p =
     (let (tok, p) = peek p
      in pbind (if parts \<noteq> [] then naming_follows tok p else Parsed False p) (\<lambda>naming p.
           if naming
           then pbind (parse_naming_target p) (\<lambda>reg p. rec (Parts (butlast parts @ [AST_CAP reg (last parts)])) p)
           else (let p = look_behind_ident tok p
                 in if starts_primary tok
                    then pbind (parse_repetition rec p) (\<lambda>part p. rec (Parts (parts @ [part])) p)
                    else if parts = [] then fail_with (Text ''Expected pattern element'') p
                    else Parsed (if length parts = 1 then hd parts else AST_CONCAT parts) p)))"

definition parse_concatenation :: "recursion \<Rightarrow> parser \<Rightarrow> ast parsed" where
  "parse_concatenation rec p = rec (Parts []) p"

text \<open>The loop of \<open>parse_alternation\<close>, with the alternative so far.\<close>

definition parse_alternatives :: "recursion \<Rightarrow> ast \<Rightarrow> parser \<Rightarrow> ast parsed" where
  "parse_alternatives rec left p =
     (let (tok, p) = peek p
      in if tok_type tok = TOKEN_PIPE
         then pbind (parse_concatenation rec (advance p)) (\<lambda>right p. rec (Alternatives (AST_ALT left right)) p)
         else Parsed left p)"

definition parse_alternation :: "recursion \<Rightarrow> parser \<Rightarrow> ast parsed" where
  "parse_alternation rec p = pbind (parse_concatenation rec p) (\<lambda>left p. rec (Alternatives left) p)"

text \<open>The pattern of a statement and the goto behind it.\<close>

definition parse_goto :: "recursion \<Rightarrow> parser \<Rightarrow> ast parsed" where
  "parse_goto rec p =
     pbind (rec Alternation p) (\<lambda>pattern p.
       (let (tok, p) = peek p
        in if tok_type tok \<noteq> TOKEN_COLON then Parsed pattern p
           else pbind (expect TOKEN_LPAREN (advance p)) (\<lambda>_ p.
             (let (tok, p) = peek p
              in if tok_type tok \<noteq> TOKEN_IDENT then fail_with (Text (''Expected label name after ':('' @ [CHR 0x27])) p
                 else pbind (expect TOKEN_RPAREN (advance p)) (\<lambda>_ p.
                   Parsed (AST_CONCAT [pattern, AST_GOTO (tok_text tok)]) p)))))"

definition parse_statement :: "recursion \<Rightarrow> parser \<Rightarrow> ast parsed" where
  "parse_statement rec p =
     (let (tok, p) = peek p
      in if tok_type tok = TOKEN_IDENT
         then (let saved = save p; (nxt, q) = peek (advance p)
               in if tok_type nxt = TOKEN_COLON
                  then (let q = advance q; name = tok_text tok
                        in if name \<in> set (seen_labels q) then fail_with (Duplicate_Label name) q
                           else pbind (rec Statement (q\<lparr>seen_labels := seen_labels q @ [name]\<rparr>)) (\<lambda>target p.
                             Parsed (AST_LABEL name target) p))
                  else parse_goto rec (restore q saved))
         else parse_goto rec p)"

primrec parse_call :: "recursion \<Rightarrow> call \<Rightarrow> parser \<Rightarrow> ast parsed" where
  "parse_call rec Statement = parse_statement rec"
| "parse_call rec Alternation = parse_alternation rec"
| "parse_call rec (Alternatives left) = parse_alternatives rec left"
| "parse_call rec (Parts parts) = parse_parts rec parts"
| "parse_call rec Repetition = parse_repetition rec"
| "parse_call rec Primary = parse_primary rec"

primrec parse :: "nat \<Rightarrow> recursion" where
  "parse 0 = (\<lambda>c p. Too_Deep)"
| "parse (Suc n) = parse_call (parse n)"

text \<open>Behind the pattern the source must end.\<close>

definition trailing_check :: "parser \<Rightarrow> unit parsed" where
  "trailing_check p =
     (let (tok, p) = peek p
      in case lexical_error tok p of
           Some e \<Rightarrow> fail_with (Lexical e) p
         | None \<Rightarrow>
             (if tok_type tok \<noteq> TOKEN_EOF then fail_with (Text ''Unexpected token after pattern'') p
              else Parsed () p))"

text \<open>A whole source; \<open>Null\<close> is the result NULL.\<close>

definition snobol_parser_parse :: "nat \<Rightarrow> parser \<Rightarrow> ast parsed" where
  "snobol_parser_parse n p0 =
     (let p = p0\<lparr>ps_error := None, seen_labels := [], capture_reg_counter := 0, capture_names := []\<rparr>
      in case parse n Statement p of
           Parsed ast p \<Rightarrow>
             (if ps_error p \<noteq> None then Parsed ast p else pbind (trailing_check p) (\<lambda>_ p. Parsed ast p))
         | Null p \<Rightarrow> (if ps_error p \<noteq> None then Null p else pbind (trailing_check p) (\<lambda>_ p. Null p))
         | Too_Deep \<Rightarrow> Too_Deep)"

end
