(* ===== verification/Lexer_Correct.thy ===== *)
theory Lexer_Correct
  imports Lexer
begin

text \<open>
  The lexer against a specification on the bytes that are left: what one token is, and the list of
  all tokens of a text. Then the way back: a list of tokens, written out with blanks between, is
  read as that list.
\<close>

section \<open>One token of a text\<close>

definition closed_text :: "token_type \<Rightarrow> u8 \<Rightarrow> bytes \<Rightarrow> token \<times> bytes" where
  "closed_text ty closing s =
     (make_token_with_text ty (takeWhile (\<lambda>c. c \<noteq> closing) s), tl (dropWhile (\<lambda>c. c \<noteq> closing) s))"

definition digits_value :: "bytes \<Rightarrow> int" where
  "digits_value cs = foldl (\<lambda>v c. v * 10 + (uint c - 48)) 0 cs"

definition integer_text :: "bool \<Rightarrow> bytes \<Rightarrow> token \<times> bytes" where
  "integer_text negative s =
     (let v = digits_value (takeWhile is_digit_char s)
      in (if INT64_MAX < v then make_token TOKEN_ERROR else integer_token (if negative then - v else v),
          dropWhile is_digit_char s))"

text \<open>The flag tells whether the token before was an identifier.\<close>

definition token_at :: "bool \<Rightarrow> u8 \<Rightarrow> bytes \<Rightarrow> token \<times> bytes" where
  "token_at after_ident c s =
     (case single_token c of
        Some ty \<Rightarrow> (make_token ty, s)
      | None \<Rightarrow>
          (if c = 91 then if after_ident \<and> table_key_ahead s then (make_token TOKEN_LBRACKET, s)
             else closed_text TOKEN_CHARCLASS 93 s
           else if c = 39 then closed_text TOKEN_LIT 39 s
           else if is_ident_start c
           then (make_token_with_text TOKEN_IDENT (c # takeWhile is_ident_continue s), dropWhile is_ident_continue s)
           else if is_digit_char c then integer_text False (c # s)
           else if c = 45 \<and> s \<noteq> [] \<and> is_digit_char (hd s) then integer_text True s
           else (make_token TOKEN_ERROR, c # s)))"

definition next_text :: "bool \<Rightarrow> bytes \<Rightarrow> token \<times> bytes" where
  "next_text after_ident s =
     (case dropWhile is_white s of
        [] \<Rightarrow> (make_token TOKEN_EOF, [])
      | c # r \<Rightarrow> (if c = 0 then (make_token TOKEN_EOF, c # r) else token_at after_ident c r))"

definition is_last :: "token \<Rightarrow> bool" where
  "is_last t \<longleftrightarrow> tok_type t = TOKEN_EOF \<or> tok_type t = TOKEN_ERROR"

lemma token_types [simp]:
  "tok_type (make_token ty) = ty" "tok_type (make_token_with_text ty x) = ty"
  "tok_type (integer_token v) = TOKEN_INTEGER"
  by (simp_all add: make_token_def make_token_with_text_def integer_token_def)

lemma token_texts [simp]: "tok_text (make_token_with_text ty x) = x" "tok_value (integer_token v) = v"
  by (simp_all add: make_token_with_text_def integer_token_def)

lemma closed_text_shorter: "length (snd (closed_text ty ch s)) \<le> length s"
  using length_dropWhile_le [of "\<lambda>c. c \<noteq> ch" s] by (simp add: closed_text_def)

lemma token_at_shorter:
  assumes "\<not> is_last (fst (token_at b c s))"
  shows "length (snd (token_at b c s)) \<le> length s"
  using assms closed_text_shorter [of TOKEN_CHARCLASS 93 s] closed_text_shorter [of TOKEN_LIT 39 s]
    length_dropWhile_le [of is_ident_continue s] length_dropWhile_le [of is_digit_char s]
  by (auto simp: token_at_def integer_text_def Let_def is_last_def split: option.splits if_splits)

lemma next_text_shorter:
  assumes "\<not> is_last (fst (next_text b s))"
  shows "length (snd (next_text b s)) < length s"
proof (cases "dropWhile is_white s")
  case Nil
  have "is_last (fst (next_text b s))" unfolding next_text_def Nil by (simp add: is_last_def)
  then show ?thesis using assms by simp
next
  case (Cons c r)
  then have "c \<noteq> 0" "length r < length s" using assms length_dropWhile_le [of is_white s]
    by (auto simp: next_text_def is_last_def split: if_splits)
  then show ?thesis using assms token_at_shorter [of b c r] Cons by (simp add: next_text_def)
qed

text \<open>All tokens, up to the end of the text or the first that is not one.\<close>

function all_tokens :: "bool \<Rightarrow> bytes \<Rightarrow> token list" where
  "all_tokens b s =
     (let (t, r) = next_text b s
      in if is_last t then [t] else t # all_tokens (tok_type t = TOKEN_IDENT) r)"
  by pat_completeness auto
termination
  using next_text_shorter by (relation "measure (\<lambda>(b, s). length s)") (auto, metis fst_conv snd_conv)

declare all_tokens.simps [simp del]

section \<open>The lexer reads the text\<close>

definition rest_of :: "lexer \<Rightarrow> bytes" where
  "rest_of l = drop (lx_pos l) (lx_source l)"

lemma lx_char_rest: "lx_char l = (case rest_of l of [] \<Rightarrow> None | c # _ \<Rightarrow> Some c)"
proof (cases "lx_pos l < length (lx_source l)")
  case True
  then show ?thesis by (simp add: lx_char_def rest_of_def byte_at_def Cons_nth_drop_Suc [symmetric])
qed (simp add: lx_char_def rest_of_def byte_at_def)

lemma rest_of_step: "rest_of (step_char l) = tl (rest_of l)"
  by (simp add: rest_of_def drop_Suc tl_drop)

lemma rest_of_update [simp]:
  "rest_of (l\<lparr>lx_line := x\<rparr>) = rest_of l" "rest_of (l\<lparr>lx_column := x\<rparr>) = rest_of l"
  "rest_of (l\<lparr>lx_prev := ty\<rparr>) = rest_of l" "rest_of (l\<lparr>lx_peek := pk\<rparr>) = rest_of l"
  "rest_of (l\<lparr>lx_error := e\<rparr>) = rest_of l"
  by (simp_all add: rest_of_def)

text \<open>What scanning leaves alone.\<close>

definition same_ends :: "lexer \<Rightarrow> lexer \<Rightarrow> bool" where
  "same_ends l l' \<longleftrightarrow> lx_source l' = lx_source l \<and> lx_peek l' = lx_peek l \<and> lx_prev l' = lx_prev l \<and>
     lx_error l' = lx_error l"

lemma same_ends_refl [simp]: "same_ends l l"
  by (simp add: same_ends_def)

lemma same_ends_step [simp]: "same_ends (step_char l) l' = same_ends l l'" "same_ends l (step_char l') = same_ends l l'"
  by (simp_all add: same_ends_def)

lemma skip_chars_spec:
  "same_ends l (skip_chars P l) \<and> lx_line (skip_chars P l) = lx_line l \<and>
   lx_pos (skip_chars P l) = lx_pos l + length (takeWhile P (rest_of l))"
proof (induction P l rule: skip_chars.induct)
  case (1 P l)
  show ?case
  proof (cases "rest_of l")
    case Nil
    then show ?thesis by (subst (1 2 3) skip_chars.simps) (simp add: lx_char_rest)
  next
    case (Cons c r)
    then show ?thesis using 1 [of c] by (subst (1 2 3) skip_chars.simps) (simp add: lx_char_rest rest_of_step)
  qed
qed

lemma rest_skip_chars: "rest_of (skip_chars P l) = dropWhile P (rest_of l)"
  using skip_chars_spec [of l P] by (simp add: rest_of_def same_ends_def dropWhile_eq_drop add.commute)

lemma skip_whitespace_spec:
  "same_ends l (skip_whitespace l) \<and> lx_pos (skip_whitespace l) = lx_pos l + length (takeWhile is_white (rest_of l))"
proof (induction l rule: skip_whitespace.induct)
  case (1 l)
  show ?case
  proof (cases "rest_of l")
    case Nil
    then show ?thesis by (subst (1 2) skip_whitespace.simps) (simp add: lx_char_rest)
  next
    case (Cons c r)
    let ?l = "if c = 10 then l\<lparr>lx_line := lx_line l + 1, lx_column := 0\<rparr> else l"
    have "rest_of ?l = c # r" using Cons by simp
    then show ?thesis using 1 [of c] Cons
      by (subst (1 2) skip_whitespace.simps) (auto simp: lx_char_rest rest_of_step same_ends_def split: if_splits)
  qed
qed

lemma rest_skip_whitespace: "rest_of (skip_whitespace l) = dropWhile is_white (rest_of l)"
  using skip_whitespace_spec [of l] by (simp add: rest_of_def same_ends_def dropWhile_eq_drop add.commute)

lemma text_from_skip: "text_from (lx_pos l) (skip_chars P l) = takeWhile P (rest_of l)"
  using skip_chars_spec [of l P]
  by (simp add: text_from_def sub_list_def same_ends_def rest_of_def takeWhile_eq_take [symmetric])

lemma scan_closed_spec:
  "fst (scan_closed ty ch l) = fst (closed_text ty ch (rest_of l))"
  "rest_of (snd (scan_closed ty ch l)) = snd (closed_text ty ch (rest_of l))"
  "same_ends l (snd (scan_closed ty ch l))"
proof -
  let ?l = "skip_chars (\<lambda>c. c \<noteq> ch) l"
  have r: "rest_of ?l = dropWhile (\<lambda>c. c \<noteq> ch) (rest_of l)" by (rule rest_skip_chars)
  show "fst (scan_closed ty ch l) = fst (closed_text ty ch (rest_of l))"
    by (simp add: scan_closed_def Let_def closed_text_def text_from_skip split: option.split)
  show "same_ends l (snd (scan_closed ty ch l))"
    using skip_chars_spec [of l "\<lambda>c. c \<noteq> ch"]
    by (simp add: scan_closed_def Let_def same_ends_def split: option.split)
  have "rest_of (l'\<lparr>lx_pos := lx_pos l' + 1, lx_column := x\<rparr>) = tl (rest_of l')" for l' x
    by (simp add: rest_of_def drop_Suc tl_drop)
  then show "rest_of (snd (scan_closed ty ch l)) = snd (closed_text ty ch (rest_of l))"
    unfolding scan_closed_def Let_def closed_text_def lx_char_rest r
    by (cases "dropWhile (\<lambda>c. c \<noteq> ch) (rest_of l)") (simp_all only: list.case option.case snd_conv r list.sel)
qed

lemma overflow_test: "(m - d) div 10 < v \<longleftrightarrow> m < v * 10 + (d :: int)"
  using div_mult_mod_eq [of "m - d" 10] pos_mod_bound [of 10 "m - d"] pos_mod_sign [of 10 "m - d"] by linarith

lemma digits_loop_eq:
  assumes "\<forall>c \<in> set cs. is_digit_char c" "0 \<le> v" "ov \<longleftrightarrow> INT64_MAX < v"
  shows "digits_loop cs v ov = (foldl (\<lambda>v c. v * 10 + (uint c - 48)) v cs,
     INT64_MAX < foldl (\<lambda>v c. v * 10 + (uint c - 48)) v cs)"
  using assms
proof (induction cs arbitrary: v ov)
  case (Cons c cs)
  let ?d = "uint c - 48"
  have d: "0 \<le> ?d" "?d \<le> 9" using Cons.prems(1) by (simp_all add: is_digit_char_def word_le_def)
  have "INT64_MAX < v * 10 + ?d" if "INT64_MAX < v" using that d Cons.prems(2) by linarith
  then have o: "(ov \<or> (INT64_MAX - ?d) div 10 < v) \<longleftrightarrow> INT64_MAX < v * 10 + ?d"
    using Cons.prems(3) by (auto simp: overflow_test)
  have "\<forall>c \<in> set cs. is_digit_char c" "0 \<le> v * 10 + ?d" using Cons.prems d by simp_all
  from Cons.IH [OF this o] show ?case by (simp only: digits_loop.simps Let_def foldl.simps)
qed simp

lemma scan_integer_spec:
  assumes "lx_error l = None"
  shows "integer_text negative (rest_of l) = (fst (scan_integer l negative), rest_of (snd (scan_integer l negative)))"
    "tok_type (fst (scan_integer l negative)) \<noteq> TOKEN_EOF"
    "lx_source (snd (scan_integer l negative)) = lx_source l" "lx_peek (snd (scan_integer l negative)) = lx_peek l"
    "lx_error (snd (scan_integer l negative)) = None \<longleftrightarrow> tok_type (fst (scan_integer l negative)) \<noteq> TOKEN_ERROR"
proof -
  let ?ds = "takeWhile is_digit_char (rest_of l)"
  have d: "digits_loop ?ds 0 False = (digits_value ?ds, INT64_MAX < digits_value ?ds)"
    unfolding digits_value_def
    by (rule digits_loop_eq) (auto simp: INT64_MAX_def dest: set_takeWhileD)
  note u = scan_integer_def Let_def text_from_skip d prod.case integer_text_def
  note sk = skip_chars_spec [of l is_digit_char] rest_skip_chars [of is_digit_char l]
  show "integer_text negative (rest_of l) = (fst (scan_integer l negative), rest_of (snd (scan_integer l negative)))"
    unfolding u using sk by simp
  show "tok_type (fst (scan_integer l negative)) \<noteq> TOKEN_EOF" unfolding u by simp
  show "lx_source (snd (scan_integer l negative)) = lx_source l" "lx_peek (snd (scan_integer l negative)) = lx_peek l"
    unfolding u using sk by (simp_all add: same_ends_def)
  show "lx_error (snd (scan_integer l negative)) = None \<longleftrightarrow> tok_type (fst (scan_integer l negative)) \<noteq> TOKEN_ERROR"
    unfolding u using sk assms by (simp add: same_ends_def)
qed

text \<open>One token, from the text that is left.\<close>

definition after_ident :: "lexer \<Rightarrow> bool" where
  "after_ident l \<longleftrightarrow> lx_prev l = TOKEN_IDENT"

lemma scan_token_spec:
  assumes "lx_error l = None" "rest_of l = c # r" "scan_token l c = (t, l')"
  shows "token_at (after_ident l) c r = (t, rest_of l') \<and> lx_source l' = lx_source l \<and>
     lx_peek l' = lx_peek l \<and> (lx_error l' = None \<longleftrightarrow> tok_type t \<noteq> TOKEN_ERROR) \<and> lx_prev l' = tok_type t \<and>
     tok_type t \<noteq> TOKEN_EOF"
proof -
  have st: "rest_of (step_char l) = r" using assms(2) by (simp add: rest_of_step)
  have key: "bracket_is_table_key l = table_key_ahead r"
    using assms(2) by (metis bracket_is_table_key_def rest_of_def rest_of_step st step_char_fields(1,2))
  have dig: "next_is_digit l \<longleftrightarrow> r \<noteq> [] \<and> is_digit_char (hd r)"
    using lx_char_rest [of "step_char l"] st by (cases r) (simp_all add: next_is_digit_def lx_char_def)
  have ty: "single_token c = Some ty \<Longrightarrow> ty \<noteq> TOKEN_EOF \<and> ty \<noteq> TOKEN_ERROR" for ty
    by (auto simp: single_token_def split: if_splits)
  note ret = assms(3) [unfolded scan_token_def return_token_def]
  show ?thesis
  proof (cases "single_token c")
    case (Some ty)
    then show ?thesis using ret st assms(1) ty [OF Some] by (auto simp: token_at_def)
  next
    case None
    note int = scan_integer_spec [of l False] scan_integer_spec [of "step_char l" True]
    note cl = scan_closed_spec [where l = "step_char l"]
    note out = token_at_def None option.case key [symmetric] dig [symmetric] after_ident_def
    consider (key) "c = 91" "after_ident l \<and> table_key_ahead r" | (cls) "c = 91" "\<not> (after_ident l \<and> table_key_ahead r)"
      | (lit) "c = 39" | (ident) "c \<noteq> 91" "c \<noteq> 39" "is_ident_start c"
      | (num) "c \<noteq> 91" "c \<noteq> 39" "\<not> is_ident_start c" "is_digit_char c"
      | (neg) "c = 45" "next_is_digit l"
      | (err) "c \<noteq> 91" "c \<noteq> 39" "\<not> is_ident_start c" "\<not> is_digit_char c" "\<not> (c = 45 \<and> next_is_digit l)" by blast
    then show ?thesis
    proof cases
      case key
      then show ?thesis using ret st assms(1) None \<open>bracket_is_table_key l = _\<close> by (auto simp: token_at_def after_ident_def)
    next
      case cls
      then show ?thesis using ret st assms(1) None cl \<open>bracket_is_table_key l = _\<close>
        by (auto simp: token_at_def after_ident_def scan_charclass_def closed_text_def same_ends_def)
    next
      case lit
      then show ?thesis using ret st assms(1) None cl
        by (auto simp: token_at_def after_ident_def scan_literal_def closed_text_def same_ends_def)
    next
      case ident
      have c: "is_ident_continue c" using ident by (simp add: is_ident_continue_def)
      have i: "scan_ident l = (make_token_with_text TOKEN_IDENT (c # takeWhile is_ident_continue r), skip_chars is_ident_continue l)"
        "rest_of (skip_chars is_ident_continue l) = dropWhile is_ident_continue r"
        by (simp_all add: scan_ident_def Let_def text_from_skip rest_skip_chars assms(2) c)
      then show ?thesis using ident ret assms(1) None skip_chars_spec [of l is_ident_continue]
        by (auto simp: token_at_def same_ends_def)
    next
      case num
      then show ?thesis using ret st assms(1,2) None int(1-5) by (auto simp: token_at_def)
    next
      case neg
      then have "\<not> is_ident_start c" "\<not> is_digit_char c" by (simp_all add: is_ident_start_def is_digit_char_def)
      then show ?thesis using neg dig ret st assms(1) None int(6-10) by (auto simp: token_at_def)
    next
      case err
      then show ?thesis using dig ret assms(1,2) None by (auto simp: token_at_def set_lexer_error_def)
    qed
  qed
qed

lemma scan_next_spec:
  assumes "lx_error l = None" "scan_next l = (t, l')"
  shows "next_text (after_ident l) (rest_of l) = (t, rest_of l')"
    "lx_source l' = lx_source l" "lx_peek l' = lx_peek l"
    "lx_error l' = None \<longleftrightarrow> tok_type t \<noteq> TOKEN_ERROR"
    "tok_type t \<noteq> TOKEN_EOF \<Longrightarrow> lx_prev l' = tok_type t"
    "tok_type t = TOKEN_EOF \<Longrightarrow> lx_prev l' = lx_prev l"
proof -
  let ?l = "skip_whitespace l"
  have w: "rest_of ?l = dropWhile is_white (rest_of l)" "same_ends l ?l"
    by (simp_all add: rest_skip_whitespace skip_whitespace_spec)
  have all: "next_text (after_ident l) (rest_of l) = (t, rest_of l') \<and> lx_source l' = lx_source l \<and>
     lx_peek l' = lx_peek l \<and> (lx_error l' = None \<longleftrightarrow> tok_type t \<noteq> TOKEN_ERROR) \<and>
     (tok_type t \<noteq> TOKEN_EOF \<longrightarrow> lx_prev l' = tok_type t) \<and> (tok_type t = TOKEN_EOF \<longrightarrow> lx_prev l' = lx_prev l)"
  proof (cases "rest_of ?l")
    case Nil
    have "scan_next l = (make_token TOKEN_EOF, ?l)" unfolding scan_next_def Let_def lx_char_rest Nil by simp
    then have "t = make_token TOKEN_EOF" "l' = ?l" using assms(2) by simp_all
    then show ?thesis using w Nil assms(1) by (simp add: next_text_def same_ends_def)
  next
    case (Cons c r)
    have d: "dropWhile is_white (rest_of l) = c # r" using w(1) Cons by simp
    show ?thesis
    proof (cases "c = 0")
      case True
      have "scan_next l = (make_token TOKEN_EOF, ?l)" unfolding scan_next_def Let_def lx_char_rest Cons True by simp
      then have "t = make_token TOKEN_EOF" "l' = ?l" using assms(2) by simp_all
      then show ?thesis using d True assms(1) w by (simp add: next_text_def same_ends_def Cons)
    next
      case False
      have s: "scan_token ?l c = (t, l')"
        using assms(2) unfolding scan_next_def Let_def lx_char_rest Cons by (simp add: False)
      show ?thesis using scan_token_spec [OF _ Cons s] w(2) d False assms(1)
        by (simp add: next_text_def same_ends_def after_ident_def)
    qed
  qed
  show "next_text (after_ident l) (rest_of l) = (t, rest_of l')" "lx_source l' = lx_source l" "lx_peek l' = lx_peek l"
    "lx_error l' = None \<longleftrightarrow> tok_type t \<noteq> TOKEN_ERROR" "tok_type t \<noteq> TOKEN_EOF \<Longrightarrow> lx_prev l' = tok_type t"
    "tok_type t = TOKEN_EOF \<Longrightarrow> lx_prev l' = lx_prev l"
    using all by blast+
qed

section \<open>A stream of tokens\<close>

text \<open>
  What the parser relies on: an input that can be peeked and read, with a list of tokens that is
  left, and states that can be taken back.
\<close>

definition rest_tokens :: "token list \<Rightarrow> token list" where
  "rest_tokens ts = (if is_last (hd ts) then ts else tl ts)"

locale token_source =
  fixes pk :: "'l \<Rightarrow> token \<times> 'l" and nxt :: "'l \<Rightarrow> token \<times> 'l"
    and save :: "'l \<Rightarrow> 'st" and restore :: "'l \<Rightarrow> 'st \<Rightarrow> 'l"
    and toks :: "'l \<Rightarrow> token list" and ok :: "'l \<Rightarrow> bool" and src :: "'l \<Rightarrow> bytes"
  assumes peek_ok: "ok l \<Longrightarrow> fst (pk l) = hd (toks l) \<and> toks (snd (pk l)) = toks l \<and> ok (snd (pk l)) \<and>
      src (snd (pk l)) = src l"
    and next_ok: "ok l \<Longrightarrow> fst (nxt l) = hd (toks l) \<and> toks (snd (nxt l)) = rest_tokens (toks l) \<and>
      ok (snd (nxt l)) \<and> src (snd (nxt l)) = src l"
    and restore_ok: "ok l \<Longrightarrow> ok l' \<Longrightarrow> src l' = src l \<Longrightarrow> restore l' (save l) = l"
begin

text \<open>Looking at the token behind the next one, and taking that back.\<close>

lemma look_ahead:
  assumes "ok l"
  shows "fst (pk (snd (nxt l))) = hd (rest_tokens (toks l)) \<and> restore (snd (pk (snd (nxt l)))) (save l) = l"
  using next_ok [OF assms] peek_ok [of "snd (nxt l)"] restore_ok [OF assms, of "snd (pk (snd (nxt l)))"] by simp

text \<open>Reading behind a peek.\<close>

lemma peek_next:
  assumes "ok l"
  shows "fst (nxt (snd (pk l))) = hd (toks l) \<and> toks (snd (nxt (snd (pk l)))) = rest_tokens (toks l) \<and>
     ok (snd (nxt (snd (pk l))))"
  using peek_ok [OF assms] next_ok [of "snd (pk l)"] by simp

end

definition at_end :: "bytes \<Rightarrow> bool" where
  "at_end s \<longleftrightarrow> (case dropWhile is_white s of [] \<Rightarrow> True | c # _ \<Rightarrow> c = 0)"

definition stream :: "lexer \<Rightarrow> token list" where
  "stream l =
     (case lx_peek l of
        None \<Rightarrow> all_tokens (after_ident l) (rest_of l)
      | Some t \<Rightarrow> (if is_last t then [t] else t # all_tokens (tok_type t = TOKEN_IDENT) (rest_of l)))"

definition clean :: "lexer \<Rightarrow> bool" where
  "clean l \<longleftrightarrow> lx_error l = None \<and> (\<forall>t \<in> set (stream l). tok_type t \<noteq> TOKEN_ERROR) \<and>
     (\<forall>t. lx_peek l = Some t \<longrightarrow> tok_type t = TOKEN_EOF \<longrightarrow> t = make_token TOKEN_EOF \<and> at_end (rest_of l))"

lemma all_tokens_step:
  "next_text b s = (t, r) \<Longrightarrow> all_tokens b s = (if is_last t then [t] else t # all_tokens (tok_type t = TOKEN_IDENT) r)"
  by (subst all_tokens.simps) simp

lemma next_text_at_end: "at_end s \<Longrightarrow> fst (next_text b s) = make_token TOKEN_EOF"
  unfolding at_end_def next_text_def by (cases "dropWhile is_white s") (simp_all only: list.case if_True fst_conv refl)

lemma all_tokens_at_end: "at_end s \<Longrightarrow> all_tokens b s = [make_token TOKEN_EOF]"
  using all_tokens_step [OF surjective_pairing, of b s] next_text_at_end [of s b] by (simp add: is_last_def)

lemma token_at_not_eof: "tok_type (fst (token_at b c s)) \<noteq> TOKEN_EOF"
  by (auto simp: token_at_def closed_text_def integer_text_def Let_def single_token_def split: option.split)

lemma next_text_eof:
  assumes "next_text b s = (t, r)" "tok_type t = TOKEN_EOF"
  shows "t = make_token TOKEN_EOF \<and> at_end r"
proof (cases "dropWhile is_white s")
  case Nil
  then show ?thesis using assms(1) unfolding next_text_def Nil by (auto simp: at_end_def)
next
  case (Cons c u)
  then have "c = 0" using assms token_at_not_eof [of b c u] unfolding next_text_def Cons by (auto split: if_splits)
  then show ?thesis using assms(1) unfolding next_text_def Cons by (auto simp: at_end_def is_white_def)
qed

lemma stream_not_Nil [simp]: "stream l \<noteq> []"
  by (auto simp: stream_def split: option.split) (subst (asm) all_tokens.simps, auto simp: Let_def split: prod.splits if_splits)

lemma scan_next_stream:
  assumes "clean l" "lx_peek l = None" "scan_next l = (t, l')"
  shows "t = hd (stream l)" "lx_error l' = None" "lx_source l' = lx_source l" "lx_peek l' = None"
    "tok_type t \<noteq> TOKEN_ERROR" "tok_type t = TOKEN_EOF \<Longrightarrow> t = make_token TOKEN_EOF \<and> at_end (rest_of l')"
    "tok_type t = TOKEN_EOF \<Longrightarrow> stream l = [t]"
    "tok_type t \<noteq> TOKEN_EOF \<Longrightarrow> stream l = t # all_tokens (tok_type t = TOKEN_IDENT) (rest_of l') \<and> lx_prev l' = tok_type t"
proof -
  have e: "lx_error l = None" using assms(1) by (simp add: clean_def)
  note sp = scan_next_spec [OF e assms(3)]
  have st: "stream l = (if is_last t then [t] else t # all_tokens (tok_type t = TOKEN_IDENT) (rest_of l'))"
    using all_tokens_step [OF sp(1)] assms(2) by (simp add: stream_def)
  show "t = hd (stream l)" unfolding st by simp
  have "t \<in> set (stream l)" unfolding st by simp
  then show te: "tok_type t \<noteq> TOKEN_ERROR" using assms(1) by (simp add: clean_def)
  show "lx_error l' = None" "lx_source l' = lx_source l" "lx_peek l' = None" using sp te assms(2) by simp_all
  show "tok_type t = TOKEN_EOF \<Longrightarrow> t = make_token TOKEN_EOF \<and> at_end (rest_of l')" by (rule next_text_eof [OF sp(1)])
  show "tok_type t = TOKEN_EOF \<Longrightarrow> stream l = [t]" unfolding st by (simp add: is_last_def)
  show "tok_type t \<noteq> TOKEN_EOF \<Longrightarrow> stream l = t # all_tokens (tok_type t = TOKEN_IDENT) (rest_of l') \<and> lx_prev l' = tok_type t"
    unfolding st using te sp(5) by (simp add: is_last_def)
qed

lemma clean_next:
  assumes "clean l" "snobol_lexer_next l = (t, l')"
  shows "t = hd (stream l) \<and> stream l' = rest_tokens (stream l) \<and> clean l' \<and> lx_source l' = lx_source l"
proof (cases "lx_peek l")
  case None
  then have s: "scan_next l = (t, l')" using assms by (simp add: clean_def snobol_lexer_next_def)
  note sp = scan_next_stream [OF assms(1) None s]
  show ?thesis
  proof (cases "tok_type t = TOKEN_EOF")
    case True
    have "stream l' = [t]" using sp(4) sp(6) [OF True] by (simp add: stream_def all_tokens_at_end)
    then show ?thesis using sp(2-5) sp(7) [OF True] True by (simp add: rest_tokens_def is_last_def clean_def)
  next
    case False
    have st: "stream l' = all_tokens (tok_type t = TOKEN_IDENT) (rest_of l')"
      using sp(4) sp(8) [OF False] by (simp add: stream_def after_ident_def)
    have "stream l = t # stream l'" using sp(8) [OF False] st by simp
    moreover have "\<not> is_last t" using sp(5) False by (simp add: is_last_def)
    ultimately show ?thesis using sp(2-4) assms(1) by (simp add: rest_tokens_def clean_def)
  qed
next
  case (Some u)
  then have r: "t = u" "l' = l\<lparr>lx_peek := None, lx_prev := tok_type u\<rparr>"
    using assms by (auto simp: clean_def snobol_lexer_next_def)
  have u: "u \<in> set (stream l)" using Some by (simp add: stream_def)
  show ?thesis
  proof (cases "tok_type u = TOKEN_EOF")
    case True
    have e: "u = make_token TOKEN_EOF" "at_end (rest_of l)" using assms(1) Some True by (simp_all add: clean_def)
    have "stream l' = [u]" using e by (simp add: r stream_def all_tokens_at_end rest_of_def)
    moreover have "stream l = [u]" using Some True by (simp add: stream_def is_last_def)
    moreover have "lx_error l' = None" using assms(1) by (simp add: clean_def r)
    ultimately show ?thesis using True by (simp add: rest_tokens_def is_last_def clean_def r)
  next
    case False
    then have last: "\<not> is_last u" using u assms(1) by (simp add: is_last_def clean_def)
    have "stream l' = all_tokens (tok_type u = TOKEN_IDENT) (rest_of l)"
      by (simp add: r stream_def after_ident_def rest_of_def)
    then have "stream l = u # stream l'" using last Some by (simp add: stream_def)
    moreover have "lx_error l' = None" "lx_peek l' = None" using assms(1) by (simp_all add: clean_def r)
    ultimately show ?thesis using last assms(1) by (simp add: rest_tokens_def clean_def r(1)) (simp add: r(2))
  qed
qed

lemma clean_peek:
  assumes "clean l" "snobol_lexer_peek l = (t, l')"
  shows "t = hd (stream l) \<and> stream l' = stream l \<and> clean l' \<and> lx_source l' = lx_source l"
proof (cases "lx_peek l")
  case None
  obtain l1 where s: "scan_next l = (t, l1)" and l': "l' = l1\<lparr>lx_peek := Some t\<rparr>"
    using assms None by (auto simp: clean_def snobol_lexer_next_def snobol_lexer_peek_def split: prod.splits)
  note sp = scan_next_stream [OF assms(1) None s]
  have "stream l' = stream l"
  proof (cases "tok_type t = TOKEN_EOF")
    case True
    then show ?thesis using sp(7) by (simp add: stream_def l' is_last_def)
  next
    case False
    then show ?thesis using sp(5,8) by (simp add: stream_def l' is_last_def)
  qed
  then show ?thesis using sp(1-3,5,6) assms(1) unfolding clean_def by (auto simp: l' rest_of_def)
next
  case (Some u)
  then have "t = u" "l' = l" using assms(2) by (simp_all add: snobol_lexer_peek_def)
  then show ?thesis using Some assms(1) by (simp add: stream_def)
qed

interpretation lexer_src: token_source snobol_lexer_peek snobol_lexer_next snobol_lexer_save
  snobol_lexer_restore stream clean lx_source
proof
  show "clean l \<Longrightarrow> fst (snobol_lexer_peek l) = hd (stream l) \<and> stream (snd (snobol_lexer_peek l)) = stream l \<and>
    clean (snd (snobol_lexer_peek l)) \<and> lx_source (snd (snobol_lexer_peek l)) = lx_source l" for l
    using clean_peek [of l "fst (snobol_lexer_peek l)" "snd (snobol_lexer_peek l)"] by simp
  show "clean l \<Longrightarrow> fst (snobol_lexer_next l) = hd (stream l) \<and>
    stream (snd (snobol_lexer_next l)) = rest_tokens (stream l) \<and> clean (snd (snobol_lexer_next l)) \<and>
    lx_source (snd (snobol_lexer_next l)) = lx_source l" for l
    using clean_next [of l "fst (snobol_lexer_next l)" "snd (snobol_lexer_next l)"] by simp
  show "clean l \<Longrightarrow> clean l' \<Longrightarrow> lx_source l' = lx_source l \<Longrightarrow>
    snobol_lexer_restore l' (snobol_lexer_save l) = l" for l l'
    by (simp add: clean_def snobol_lexer_restore_def snobol_lexer_save_def)
qed

text \<open>
  C15: The lexer is a stream of tokens. In a state with no lexical error ahead, peeking and reading
  give the next token of the text, reading drops it, the end repeats, and a state that was saved is
  restored whole after any reading and peeking, here one token ahead.
\<close>

theorem lexer_is_a_token_stream:
  assumes "clean l"
  shows "fst (snobol_lexer_peek l) = hd (stream l) \<and> stream (snd (snobol_lexer_peek l)) = stream l \<and>
    fst (snobol_lexer_next l) = hd (stream l) \<and> stream (snd (snobol_lexer_next l)) = rest_tokens (stream l) \<and>
    clean (snd (snobol_lexer_peek l)) \<and> clean (snd (snobol_lexer_next l)) \<and>
    fst (snobol_lexer_peek (snd (snobol_lexer_next l))) = hd (rest_tokens (stream l)) \<and>
    snobol_lexer_restore (snd (snobol_lexer_peek (snd (snobol_lexer_next l)))) (snobol_lexer_save l) = l"
  using lexer_src.peek_ok [OF assms] lexer_src.next_ok [OF assms] lexer_src.look_ahead [OF assms] by blast

section \<open>Writing tokens\<close>

function dec_digits :: "nat \<Rightarrow> bytes" where
  "dec_digits n = (if n < 10 then [of_nat (48 + n)] else dec_digits (n div 10) @ [of_nat (48 + n mod 10)])"
  by pat_completeness auto
termination by (relation "measure id") auto

declare dec_digits.simps [simp del]

definition single_char :: "token_type \<Rightarrow> u8" where
  "single_char ty =
     (case ty of TOKEN_PIPE \<Rightarrow> 124 | TOKEN_LPAREN \<Rightarrow> 40 | TOKEN_RPAREN \<Rightarrow> 41 | TOKEN_STAR \<Rightarrow> 42
      | TOKEN_PLUS \<Rightarrow> 43 | TOKEN_QUESTION \<Rightarrow> 63 | TOKEN_ANCHOR_START \<Rightarrow> 94 | TOKEN_ANCHOR_END \<Rightarrow> 36
      | TOKEN_DOT \<Rightarrow> 46 | TOKEN_AT \<Rightarrow> 64 | TOKEN_COLON \<Rightarrow> 58 | TOKEN_RBRACKET \<Rightarrow> 93
      | TOKEN_EQUALS \<Rightarrow> 61 | TOKEN_COMMA \<Rightarrow> 44 | TOKEN_LBRACKET \<Rightarrow> 91 | _ \<Rightarrow> 0)"

definition token_text :: "token \<Rightarrow> bytes" where
  "token_text t =
     (case tok_type t of
        TOKEN_LIT \<Rightarrow> 39 # tok_text t @ [39]
      | TOKEN_IDENT \<Rightarrow> tok_text t
      | TOKEN_CHARCLASS \<Rightarrow> 91 # tok_text t @ [93]
      | TOKEN_INTEGER \<Rightarrow> (if tok_value t < 0 then [45] else []) @ dec_digits (nat \<bar>tok_value t\<bar>)
      | ty \<Rightarrow> [single_char ty])"

definition write_tokens :: "token list \<Rightarrow> bytes" where
  "write_tokens ts = concat (map (\<lambda>t. token_text t @ [32]) ts)"

lemma write_tokens_simps [simp]:
  "write_tokens [] = []" "write_tokens (t # ts) = token_text t @ 32 # write_tokens ts"
  by (simp_all add: write_tokens_def)

definition valid_token :: "token \<Rightarrow> bool" where
  "valid_token t \<longleftrightarrow>
     (case tok_type t of
        TOKEN_LIT \<Rightarrow> t = make_token_with_text TOKEN_LIT (tok_text t) \<and> 39 \<notin> set (tok_text t)
      | TOKEN_IDENT \<Rightarrow> t = make_token_with_text TOKEN_IDENT (tok_text t) \<and>
          tok_text t \<noteq> [] \<and> is_ident_start (hd (tok_text t)) \<and> (\<forall>c \<in> set (tok_text t). is_ident_continue c)
      | TOKEN_CHARCLASS \<Rightarrow> t = make_token_with_text TOKEN_CHARCLASS (tok_text t) \<and> 93 \<notin> set (tok_text t)
      | TOKEN_INTEGER \<Rightarrow> t = integer_token (tok_value t) \<and> \<bar>tok_value t\<bar> \<le> INT64_MAX
      | TOKEN_EOF \<Rightarrow> False | TOKEN_ERROR \<Rightarrow> False
      | ty \<Rightarrow> t = make_token ty)"

text \<open>
  A bracket behind an identifier opens a table key or a class, by what follows; the tokens must
  fit that.
\<close>

fun writable :: "bool \<Rightarrow> token list \<Rightarrow> bool" where
  "writable b [] = True"
| "writable b (t # ts) =
     (valid_token t \<and>
      (tok_type t = TOKEN_LBRACKET \<longrightarrow> b \<and> table_key_ahead (32 # write_tokens ts)) \<and>
      (tok_type t = TOKEN_CHARCLASS \<longrightarrow> \<not> (b \<and> table_key_ahead (tok_text t @ 93 # 32 # write_tokens ts))) \<and>
      writable (tok_type t = TOKEN_IDENT) ts)"

lemma dec_digits_digit: "c \<in> set (dec_digits n) \<Longrightarrow> is_digit_char c"
proof (induction n rule: dec_digits.induct)
  case (1 n)
  have "is_digit_char (of_nat (48 + k))" if "k < 10" for k :: nat
  proof -
    have "k \<in> {0, 1, 2, 3, 4, 5, 6, 7, 8, 9}" using that by auto
    then show ?thesis by (auto simp: is_digit_char_def)
  qed
  then show ?case using 1 by (subst (asm) dec_digits.simps) (auto split: if_splits)
qed

lemma dec_digits_not_Nil: "dec_digits n \<noteq> []"
  by (subst dec_digits.simps) simp

lemma digits_value_dec: "digits_value (dec_digits n) = int n"
proof (induction n rule: dec_digits.induct)
  case (1 n)
  have d: "uint (of_nat (48 + k) :: u8) - 48 = int k" if "k < 10" for k :: nat
  proof -
    have "k \<in> {0, 1, 2, 3, 4, 5, 6, 7, 8, 9}" using that by auto
    then show ?thesis by auto
  qed
  show ?case
  proof (cases "n < 10")
    case True
    then show ?thesis using d [of n] by (subst dec_digits.simps) (simp add: digits_value_def)
  next
    case False
    then have "digits_value (dec_digits n) = digits_value (dec_digits (n div 10)) * 10 + int (n mod 10)"
      using d [of "n mod 10"] by (subst dec_digits.simps) (simp add: digits_value_def)
    moreover have "int n = int (n div 10) * 10 + int (n mod 10)" by presburger
    ultimately show ?thesis using 1 False by simp
  qed
qed

lemma take_drop_stop:
  assumes "\<forall>c \<in> set xs. P c" "\<not> P x"
  shows "takeWhile P (xs @ x # ys) = xs" "dropWhile P (xs @ x # ys) = x # ys"
  using assms by simp_all

lemma next_text_white: "next_text b (32 # s) = next_text b s"
  by (simp add: next_text_def is_white_def)

lemma next_text_visible: "c \<noteq> 0 \<Longrightarrow> \<not> is_white c \<Longrightarrow> next_text b (c # s) = token_at b c s"
  by (simp add: next_text_def)

lemma integer_text_dec:
  assumes "int n \<le> INT64_MAX"
  shows "integer_text neg (dec_digits n @ 32 # s) = (integer_token (if neg then - int n else int n), 32 # s)"
proof -
  have "takeWhile is_digit_char (dec_digits n @ 32 # s) = dec_digits n" "dropWhile is_digit_char (dec_digits n @ 32 # s) = 32 # s"
    using dec_digits_digit by (intro take_drop_stop; simp add: is_digit_char_def)+
  then show ?thesis using assms by (simp add: integer_text_def digits_value_dec)
qed

lemma next_text_token:
  assumes "valid_token t"
    "tok_type t = TOKEN_LBRACKET \<Longrightarrow> b \<and> table_key_ahead (32 # s)"
    "tok_type t = TOKEN_CHARCLASS \<Longrightarrow> \<not> (b \<and> table_key_ahead (tok_text t @ 93 # 32 # s))"
  shows "next_text b (token_text t @ 32 # s) = (t, 32 # s)"
proof -
  consider (lit) x where "t = make_token_with_text TOKEN_LIT x" "39 \<notin> set x"
    | (ident) x where "t = make_token_with_text TOKEN_IDENT x" "x \<noteq> []" "is_ident_start (hd x)" "\<forall>c \<in> set x. is_ident_continue c"
    | (cls) x where "t = make_token_with_text TOKEN_CHARCLASS x" "93 \<notin> set x"
    | (int) v where "t = integer_token v" "\<bar>v\<bar> \<le> INT64_MAX"
    | (single) ty where "t = make_token ty" "single_token (single_char ty) = Some ty" "token_text t = [single_char ty]"
        "single_char ty \<noteq> 0" "\<not> is_white (single_char ty)"
    | (bracket) "t = make_token TOKEN_LBRACKET"
    using assms(1) unfolding valid_token_def
    by (cases "tok_type t") (auto simp: single_char_def single_token_def token_text_def is_white_def)
  then show ?thesis
  proof cases
    case lit
    then have "takeWhile (\<lambda>c. c \<noteq> 39) (x @ 39 # 32 # s) = x" "dropWhile (\<lambda>c. c \<noteq> 39) (x @ 39 # 32 # s) = 39 # 32 # s"
      by (intro take_drop_stop; auto)+
    then show ?thesis using lit
      by (simp add: token_text_def next_text_visible is_white_def token_at_def single_token_def closed_text_def is_ident_start_def)
  next
    case ident
    then obtain c y where x: "x = c # y" by (cases x) simp_all
    have "is_ident_start c" using ident x by simp
    then have v: "c \<noteq> 0" "\<not> is_white c" "single_token c = None" "c \<noteq> 91" "c \<noteq> 39"
      by (auto simp: is_ident_start_def is_white_def single_token_def)
    have "takeWhile is_ident_continue (y @ 32 # s) = y" "dropWhile is_ident_continue (y @ 32 # s) = 32 # s"
      using ident x by (intro take_drop_stop; simp add: is_ident_continue_def is_ident_start_def is_digit_char_def)+
    then show ?thesis using ident v \<open>is_ident_start c\<close> by (simp add: token_text_def next_text_visible token_at_def x)
  next
    case cls
    then have "takeWhile (\<lambda>c. c \<noteq> 93) (x @ 93 # 32 # s) = x" "dropWhile (\<lambda>c. c \<noteq> 93) (x @ 93 # 32 # s) = 93 # 32 # s"
      by (intro take_drop_stop; auto)+
    then show ?thesis using cls assms(3)
      by (simp add: token_text_def next_text_visible is_white_def token_at_def single_token_def closed_text_def)
  next
    case int
    have v: "v = (if v < 0 then - int (nat \<bar>v\<bar>) else int (nat \<bar>v\<bar>))" by simp
    show ?thesis
    proof (cases "v < 0")
      case True
      obtain c y where cy: "dec_digits (nat \<bar>v\<bar>) = c # y" using dec_digits_not_Nil by (metis neq_Nil_conv)
      then have "is_digit_char c" using dec_digits_digit [of c "nat \<bar>v\<bar>"] by simp
      then have "token_at b 45 (dec_digits (nat \<bar>v\<bar>) @ 32 # s) = integer_text True (dec_digits (nat \<bar>v\<bar>) @ 32 # s)"
        by (simp add: token_at_def single_token_def is_ident_start_def is_digit_char_def cy)
      then show ?thesis using int True integer_text_dec [of "nat \<bar>v\<bar>" True s]
        by (simp add: token_text_def next_text_visible is_white_def)
    next
      case False
      obtain c y where cy: "dec_digits (nat v) = c # y" using dec_digits_not_Nil by (metis neq_Nil_conv)
      then have d: "is_digit_char c" using dec_digits_digit [of c "nat v"] by simp
      then have v: "c \<noteq> 0" "\<not> is_white c" "single_token c = None" "c \<noteq> 91" "c \<noteq> 39" "\<not> is_ident_start c"
        by (auto simp: is_digit_char_def is_white_def single_token_def is_ident_start_def word_le_nat_alt)
      then show ?thesis using int False integer_text_dec [of "nat v" False s] d
        by (simp add: token_text_def next_text_visible token_at_def cy)
    qed
  next
    case single
    then show ?thesis by (simp add: next_text_visible token_at_def)
  next
    case bracket
    then show ?thesis using assms(2)
      by (simp add: token_text_def single_char_def next_text_visible is_white_def token_at_def single_token_def)
  qed
qed

lemma valid_not_last: "valid_token t \<Longrightarrow> \<not> is_last t"
  by (auto simp: valid_token_def is_last_def)

lemma all_tokens_write: "writable b ts \<Longrightarrow> all_tokens b (write_tokens ts) = ts @ [make_token TOKEN_EOF]"
proof (induction ts arbitrary: b)
  case Nil
  show ?case by (simp add: all_tokens_at_end at_end_def)
next
  case (Cons t ts)
  have n: "next_text b (token_text t @ 32 # write_tokens ts) = (t, 32 # write_tokens ts)"
    using Cons.prems by (intro next_text_token) simp_all
  have "all_tokens (tok_type t = TOKEN_IDENT) (32 # write_tokens ts) = all_tokens (tok_type t = TOKEN_IDENT) (write_tokens ts)"
    by (subst (1 2) all_tokens.simps) (simp only: next_text_white)
  then show ?case using all_tokens_step [OF n] valid_not_last Cons by simp
qed

lemma stream_write: "writable False ts \<Longrightarrow> stream (snobol_lexer_create (write_tokens ts)) = ts @ [make_token TOKEN_EOF]"
  by (drule all_tokens_write) (simp add: stream_def snobol_lexer_create_def after_ident_def rest_of_def)

lemma clean_write:
  assumes "writable False ts"
  shows "clean (snobol_lexer_create (write_tokens ts))"
proof -
  have "writable b ts \<Longrightarrow> \<forall>t \<in> set ts. tok_type t \<noteq> TOKEN_ERROR" for b
    by (induction ts arbitrary: b) (use valid_not_last in \<open>auto simp: is_last_def\<close>)
  then show ?thesis
    using stream_write [OF assms] assms by (simp add: clean_def snobol_lexer_create_def [symmetric]) (simp add: snobol_lexer_create_def)
qed

text \<open>
  C16: Tokens written out are read back. A list of tokens, each with a text that its delimiters do
  not cut, written with a blank behind each, is read by the lexer as that list followed by the end.
\<close>

theorem written_tokens_are_read:
  assumes "writable False ts"
  shows "stream (snobol_lexer_create (write_tokens ts)) = ts @ [make_token TOKEN_EOF] \<and>
    clean (snobol_lexer_create (write_tokens ts))"
  using stream_write [OF assms] clean_write [OF assms] by simp

lemma lexer_is_a_token_stream_witness:
  "fst (snobol_lexer_peek (snobol_lexer_create [39, 97, 39, 124])) = make_token_with_text TOKEN_LIT [97] \<and>
   fst (snobol_lexer_peek (snd (snobol_lexer_next (snobol_lexer_create [39, 97, 39, 124])))) = make_token TOKEN_PIPE"
proof -
  let ?l = "snobol_lexer_create [39, 97, 39, 124]"
  have s: "stream ?l = [make_token_with_text TOKEN_LIT [97], make_token TOKEN_PIPE, make_token TOKEN_EOF]"
    by code_simp
  then have "clean ?l" unfolding clean_def by (simp add: snobol_lexer_create_def)
  from lexer_is_a_token_stream [OF this] show ?thesis unfolding s by (simp add: rest_tokens_def is_last_def)
qed

lemma written_tokens_are_read_witness:
  "stream (snobol_lexer_create (write_tokens [make_token_with_text TOKEN_LIT [97, 98], make_token TOKEN_PIPE, integer_token 12])) =
     [make_token_with_text TOKEN_LIT [97, 98], make_token TOKEN_PIPE, integer_token 12, make_token TOKEN_EOF]"
  using written_tokens_are_read [of "[make_token_with_text TOKEN_LIT [97, 98], make_token TOKEN_PIPE, integer_token 12]"]
  by (simp add: valid_token_def INT64_MAX_def)

end
