(* ===== verification/Parser_Total.thy ===== *)
theory Parser_Total
  imports Parser_Correct
begin

text \<open>
  The parser ends. Every call of a parsing function that returns a tree has read a token, and a call
  that has not read one goes down in the grammar; so the depth of the calls is bounded by the number
  of tokens. This needs that no lexical error is ahead: with one, a look-ahead that runs into the
  error makes the parser read the same token for ever.
\<close>

section \<open>Tokens that are left\<close>

definition ok :: "parser \<Rightarrow> bool" where
  "ok p \<longleftrightarrow> clean (ps_lexer p)"

definition left :: "parser \<Rightarrow> nat" where
  "left p = length (stream (ps_lexer p))"

text \<open>The result is no depth overflow, and a tree comes with at most \<open>k\<close> tokens left.\<close>

definition ends :: "nat \<Rightarrow> 'a parsed \<Rightarrow> bool" where
  "ends k r = (case r of Parsed a p \<Rightarrow> ok p \<and> left p \<le> k | Null p \<Rightarrow> True | Too_Deep \<Rightarrow> False)"

lemma ends_simps [simp]: "ends k (Parsed a p) \<longleftrightarrow> ok p \<and> left p \<le> k" "ends k (Null p)" "\<not> ends k Too_Deep"
  by (simp_all add: ends_def)

lemma ends_fail [simp]: "ends k (fail_with msg p)"
  by (simp add: fail_with_def)

lemma ends_pbind: "ends k m \<Longrightarrow> (\<And>a p. ok p \<Longrightarrow> left p \<le> k \<Longrightarrow> ends k' (f a p)) \<Longrightarrow> ends k' (pbind m f)"
  by (cases m) simp_all

lemma ends_if: "(b \<Longrightarrow> ends k x) \<Longrightarrow> (\<not> b \<Longrightarrow> ends k y) \<Longrightarrow> ends k (if b then x else y)"
  by simp

lemma ends_option: "(x = None \<Longrightarrow> ends k a) \<Longrightarrow> (\<And>y. x = Some y \<Longrightarrow> ends k (f y)) \<Longrightarrow>
    ends k (case x of None \<Rightarrow> a | Some y \<Rightarrow> f y)"
  by (cases x) simp_all

lemma ends_mono: "ends k r \<Longrightarrow> k \<le> k' \<Longrightarrow> ends k' r"
  by (auto simp: ends_def split: parsed.splits)

lemma left_pos: "0 < left p"
  by (simp add: left_def)

lemma left_fields [simp]:
  "left (p\<lparr>seen_labels := x\<rparr>) = left p" "left (p\<lparr>capture_reg_counter := y\<rparr>) = left p"
  "left (p\<lparr>capture_names := z\<rparr>) = left p" "left (p\<lparr>ps_error := e\<rparr>) = left p"
  "ok (p\<lparr>seen_labels := x\<rparr>) = ok p" "ok (p\<lparr>capture_reg_counter := y\<rparr>) = ok p"
  "ok (p\<lparr>capture_names := z\<rparr>) = ok p" "ok (p\<lparr>ps_error := e\<rparr>) = ok p"
  by (simp_all add: left_def ok_def)

lemma peek_token: "ok p \<Longrightarrow> fst (peek p) = hd (stream (ps_lexer p))"
  using lexer_src.peek_ok [of "ps_lexer p"] by (simp add: ok_def peek_def case_prod_unfold Let_def)

lemma peek_lexer: "ps_lexer (snd (peek p)) = snd (snobol_lexer_peek (ps_lexer p))"
  by (simp add: peek_def case_prod_unfold Let_def)

lemma left_peek [simp]: "ok p \<Longrightarrow> ok (snd (peek p))" "ok p \<Longrightarrow> left (snd (peek p)) = left p"
  using lexer_src.peek_ok [of "ps_lexer p"] by (simp_all add: ok_def left_def peek_lexer)

lemma peek_again [simp]: "ok p \<Longrightarrow> fst (peek (snd (peek p))) = fst (peek p)"
  using lexer_src.peek_ok [of "ps_lexer p"] by (simp add: peek_token) (simp add: ok_def peek_lexer)

text \<open>Reading a token that is not the last.\<close>

lemma left_advance_eq:
  assumes "ok p" "\<not> is_last (fst (peek p))"
  shows "left (advance (snd (peek p))) = left p - Suc 0"
  using lexer_src.peek_next [of "ps_lexer p"] peek_token [OF assms(1)] assms
  by (simp add: ok_def left_def advance_def peek_lexer rest_tokens_def)

lemma left_advance_le: "ok p \<Longrightarrow> left (advance (snd (peek p))) \<le> left p"
  using lexer_src.peek_next [of "ps_lexer p"]
  by (simp add: ok_def left_def advance_def peek_lexer rest_tokens_def)

lemma ok_advance_peek [simp]: "ok p \<Longrightarrow> ok (advance (snd (peek p)))"
  using lexer_src.peek_next [of "ps_lexer p"] by (simp add: ok_def advance_def peek_lexer)

lemma restore_back [simp]: "ok p \<Longrightarrow> restore (snd (peek (advance p))) (save p) = p"
  using lexer_src.look_ahead [of "ps_lexer p"]
  by (simp add: ok_def restore_def save_def peek_def advance_def case_prod_unfold Let_def)

lemma left_advance [simp]:
  "ok p \<Longrightarrow> tok_type (fst (peek p)) = ty \<Longrightarrow> ty \<noteq> TOKEN_EOF \<Longrightarrow> ty \<noteq> TOKEN_ERROR \<Longrightarrow>
     left (advance (snd (peek p))) = left p - Suc 0"
  by (rule left_advance_eq) (auto simp: is_last_def)

section \<open>The helpers\<close>

lemma ends_expect:
  assumes "ok p" "ty \<noteq> TOKEN_EOF" "ty \<noteq> TOKEN_ERROR"
    "\<And>p'. ok p' \<Longrightarrow> left p' < left p \<Longrightarrow> ends k (f () p')"
  shows "ends k (pbind (expect ty p) f)"
proof (rule ends_pbind)
  show "ends (left p - Suc 0) (expect ty p)"
    unfolding expect_def case_prod_unfold Let_def using assms by (intro ends_if ends_option) simp_all
  show "ends k (f a p')" if "ok p'" "left p' \<le> left p - Suc 0" for a p'
    using assms(4) [of p'] left_pos [of p] that by simp
qed

lemma ends_integer:
  assumes "ok p" "\<And>n p'. ok p' \<Longrightarrow> left p' < left p \<Longrightarrow> ends k (f n p')"
  shows "ends k (pbind (parse_integer_arg name p) f)"
proof (rule ends_pbind)
  show "ends (left p - Suc 0) (parse_integer_arg name p)"
    unfolding parse_integer_arg_def case_prod_unfold Let_def using assms by (intro ends_if ends_option) simp_all
  show "ends k (f a p')" if "ok p'" "left p' \<le> left p - Suc 0" for a p'
    using assms(2) [of p' a] left_pos [of p] that by simp
qed

lemma ends_new_capture:
  assumes "ok p" "\<And>r p'. ok p' \<Longrightarrow> left p' = left p \<Longrightarrow> left (advance p') = left (advance p) \<Longrightarrow>
    ok (advance p') = ok (advance p) \<Longrightarrow> ends k (f r p')"
  shows "ends k (pbind (new_capture n p) f)"
  unfolding new_capture_def
  using assms by (simp add: fail_with_def register_capture_name_def left_def ok_def advance_def)

lemma ends_naming_target:
  assumes "ok p" "\<And>n p'. ok p' \<Longrightarrow> left p' < left p \<Longrightarrow> ends k (f n p')"
  shows "ends k (pbind (parse_naming_target p) f)"
proof (rule ends_pbind)
  have le: "left (advance (snd (peek q))) \<le> left p - Suc 0" if "ok q" "left q \<le> left p - Suc 0" for q
    using left_advance_le [OF that(1)] that(2) by simp
  show "ends (left p - Suc 0) (parse_naming_target p)"
    unfolding parse_naming_target_def case_prod_unfold Let_def using assms(1)
    by (intro ends_if ends_option ends_new_capture) (simp_all add: le split: if_splits)
  show "ends k (f a p')" if "ok p'" "left p' \<le> left p - Suc 0" for a p'
    using assms(2) [of p' a] left_pos [of p] that by simp
qed

section \<open>The bodies\<close>

definition rank :: "call \<Rightarrow> nat" where
  "rank c = (case c of Statement \<Rightarrow> 3 | Alternation \<Rightarrow> 2 | _ \<Rightarrow> 1)"

text \<open>The loops may return without reading a token, once they have something.\<close>

definition reads :: "call \<Rightarrow> nat" where
  "reads c = (case c of Alternatives _ \<Rightarrow> 0 | Parts parts \<Rightarrow> (if parts = [] then 1 else 0) | _ \<Rightarrow> 1)"

definition ends_rec :: "nat \<Rightarrow> recursion \<Rightarrow> bool" where
  "ends_rec n rec \<longleftrightarrow> (\<forall>c p. ok p \<longrightarrow> 4 * left p + rank c \<le> n \<longrightarrow> ends (left p - reads c) (rec c p))"

lemma ends_recursion:
  assumes "ends_rec n rec" "ok p" "4 * left p + rank c \<le> n"
    "\<And>a p'. ok p' \<Longrightarrow> left p' + reads c \<le> left p \<Longrightarrow> ends k (f a p')"
  shows "ends k (pbind (rec c p) f)"
proof (rule ends_pbind)
  show "ends (left p - reads c) (rec c p)" using assms(1-3) by (simp add: ends_rec_def)
  have "reads c \<le> 1" by (simp add: reads_def split: call.split)
  then show "ends k (f a p')" if "ok p'" "left p' \<le> left p - reads c" for a p'
    using assms(4) [of p' a] left_pos [of p] that by simp
qed

lemma reads_simps [simp]:
  "reads Statement = 1" "reads Alternation = 1" "reads Repetition = 1" "reads Primary = 1"
  "reads (Alternatives a) = 0" "reads (Parts []) = 1" "parts \<noteq> [] \<Longrightarrow> reads (Parts parts) = 0"
  and rank_simps [simp]: "rank Statement = 3" "rank Alternation = 2" "rank Repetition = 1" "rank Primary = 1"
  "rank (Alternatives a) = 1" "rank (Parts parts) = 1"
  by (simp_all add: reads_def rank_def)

lemmas ends_rules = ends_if ends_option ends_expect ends_integer ends_new_capture

lemma ends_set_arg: "ok p \<Longrightarrow> left p \<le> Suc k \<Longrightarrow> ends k (parse_set_arg e node p)"
  unfolding parse_set_arg_def case_prod_unfold Let_def by (intro ends_rules) (auto simp: is_last_def left_advance_eq)

lemma ends_int_call: "ok p \<Longrightarrow> left p \<le> Suc k \<Longrightarrow> ends k (parse_int_call name node p)"
  unfolding parse_int_call_def by (intro ends_rules) auto

lemma ends_empty_call: "ok p \<Longrightarrow> left p \<le> Suc k \<Longrightarrow> ends k (parse_empty_call node p)"
  unfolding parse_empty_call_def by (intro ends_rules) auto

lemma ends_no_args: "ok p \<Longrightarrow> left p \<le> Suc k \<Longrightarrow> ends k (parse_no_args e node p)"
  unfolding parse_no_args_def case_prod_unfold Let_def by (intro ends_rules) auto

lemma ends_any_call: "ok p \<Longrightarrow> left p \<le> Suc k \<Longrightarrow> ends k (parse_any_call p)"
  unfolding parse_any_call_def case_prod_unfold Let_def by (intro ends_rules ends_set_arg) auto

lemma ends_delimiter:
  assumes "ok p" "\<And>cp p'. ok p' \<Longrightarrow> left p' < left p \<Longrightarrow> ends k (f cp p')"
  shows "ends k (pbind (parse_delimiter (fst (peek p)) (snd (peek p))) f)"
proof (rule ends_pbind)
  show "ends (left p - Suc 0) (parse_delimiter (fst (peek p)) (snd (peek p)))"
    unfolding parse_delimiter_def Let_def using assms(1)
    by (intro ends_if ends_option) (auto split: option.split simp: case_prod_unfold)
  show "ends k (f a p')" if "ok p'" "left p' \<le> left p - Suc 0" for a p'
    using assms(2) [of p' a] left_pos [of p] that by simp
qed

lemma ends_bal_call: "ok p \<Longrightarrow> left p \<le> Suc k \<Longrightarrow> ends k (parse_bal_call p)"
  unfolding parse_bal_call_def case_prod_unfold Let_def
  by (intro ends_if ends_delimiter ends_empty_call) auto

text \<open>Bodies with recursive calls: at least one token has been read before, as \<open>left p\<close> is below the bound.\<close>

lemma ends_arbno_call:
  "ends_rec n rec \<Longrightarrow> ok p \<Longrightarrow> left p \<le> Suc k \<Longrightarrow> 4 * left p + 3 \<le> n \<Longrightarrow> ends k (parse_arbno_call rec p)"
  unfolding parse_arbno_call_def case_prod_unfold Let_def
  by (intro ends_if ends_recursion [where n = n] ends_expect) auto

lemma ends_repeat_call:
  "ends_rec n rec \<Longrightarrow> ok p \<Longrightarrow> left p \<le> Suc k \<Longrightarrow> 4 * left p + 3 \<le> n \<Longrightarrow> ends k (parse_repeat_call rec p)"
  unfolding parse_repeat_call_def case_prod_unfold Let_def
  by (intro ends_if ends_recursion [where n = n] ends_expect ends_integer) auto

lemma ends_dynamic_eval:
  "ends_rec n rec \<Longrightarrow> ok p \<Longrightarrow> left p \<le> Suc k \<Longrightarrow> 4 * left p + 3 \<le> n \<Longrightarrow> ends k (parse_dynamic_eval rec p)"
  unfolding parse_dynamic_eval_def by (intro ends_recursion [where n = n] ends_expect) auto

lemma ends_emit: "ok p \<Longrightarrow> left p \<le> Suc k \<Longrightarrow> ends k (parse_emit p)"
  unfolding parse_emit_def case_prod_unfold Let_def
  by (intro ends_if ends_expect) auto

lemma ends_builtin:
  "ends_rec n rec \<Longrightarrow> ok p \<Longrightarrow> left p \<le> Suc k \<Longrightarrow> 4 * left p + 3 \<le> n \<Longrightarrow> ends k (parse_builtin rec name p)"
  unfolding parse_builtin_def
  by (intro ends_if ends_set_arg ends_any_call ends_int_call ends_dynamic_eval ends_emit ends_empty_call
      ends_arbno_call ends_bal_call ends_no_args ends_repeat_call) simp_all

lemma ends_assignment: "ok p \<Longrightarrow> tok_type (fst (peek p)) = TOKEN_EQUALS \<Longrightarrow> left p \<le> Suc k \<Longrightarrow>
    ends k (parse_assignment name (snd (peek p)))"
  using left_advance_le [of "advance (snd (peek p))"]
  unfolding parse_assignment_def case_prod_unfold Let_def by (intro ends_if) auto

lemma ends_table_key:
  assumes "ok p" "\<And>key p'. ok p' \<Longrightarrow> left p' < left p \<Longrightarrow> ends k (f key p')"
  shows "ends k (pbind (parse_table_key name p) f)"
proof (rule ends_pbind)
  have le: "left (advance (snd (peek q))) \<le> left p - Suc 0" if "ok q" "left q \<le> left p - Suc 0" for q
    using left_advance_le [OF that(1)] that(2) by simp
  show "ends (left p - Suc 0) (parse_table_key name p)"
    unfolding parse_table_key_def case_prod_unfold Let_def using assms(1)
    by (intro ends_if ends_option) (simp_all add: le)
  show "ends k (f a p')" if "ok p'" "left p' \<le> left p - Suc 0" for a p'
    using assms(2) [of p' a] left_pos [of p] that by simp
qed

text \<open>The parser stands behind an identifier; the token ahead is an equals sign or a bracket.\<close>

lemma ends_table_or_assign:
  assumes "ends_rec n rec" "ok p" "left p \<le> k" "4 * left p + 3 \<le> n"
  shows "ends k (parse_table_or_assign rec name p)"
proof -
  have assign: "ends k (parse_assignment name (snd (peek p)))" if "tok_type (fst (peek p)) = TOKEN_EQUALS"
    using ends_assignment [OF assms(2) that, of k] assms(3) by simp
  show ?thesis
    unfolding parse_table_or_assign_def case_prod_unfold Let_def using assms left_advance_le [OF assms(2)]
    by (intro ends_if assign ends_table_key ends_expect ends_recursion [where n = n]) auto
qed

lemma ends_function_call:
  assumes "ends_rec n rec" "ok p" "left p \<le> Suc k" "4 * left p \<le> n"
  shows "ends k (parse_function_call rec p)"
proof -
  have "4 * left (advance (snd (peek p))) + 3 \<le> n" "left (advance (snd (peek p))) \<le> k"
    if "tok_type (fst (peek p)) = TOKEN_IDENT"
    using that assms(2-4) left_pos [of p] by simp_all
  then show ?thesis
    unfolding parse_function_call_def case_prod_unfold Let_def using assms(1,2)
    by (intro ends_if ends_table_or_assign [where n = n] ends_builtin [where n = n]) auto
qed

lemma ends_primary:
  assumes "ends_rec n rec" "ok p" "left p \<le> Suc k" "4 * left p \<le> n"
  shows "ends k (parse_primary rec p)"
proof -
  have call: "ends k (parse_function_call rec (snd (peek p)))"
    by (rule ends_function_call [where n = n]) (simp_all add: assms)
  have le: "left (advance (snd (peek (advance (snd (peek p)))))) \<le> left p - Suc 0" if "tok_type (fst (peek p)) = TOKEN_AT"
    using left_advance_le [of "advance (snd (peek p))"] assms(2) that by simp
  show ?thesis
    unfolding parse_primary_def case_prod_unfold Let_def using assms left_pos [of p]
    by (cases "tok_type (fst (peek p))"; simp only: token_type.case;
        (intro ends_if ends_option call ends_new_capture ends_recursion [where n = n] ends_expect)?; use le in force)
qed

lemma ends_repetition:
  assumes "ends_rec n rec" "ok p" "4 * left p \<le> n"
    "\<And>a p'. ok p' \<Longrightarrow> left p' < left p \<Longrightarrow> ends k (f a p')"
  shows "ends k (pbind (parse_repetition rec p) f)"
proof (rule ends_pbind)
  have "ends (left p - Suc 0) (parse_primary rec p)"
    using left_pos [of p] assms by (intro ends_primary [where n = n]) simp_all
  then show "ends (left p - Suc 0) (parse_repetition rec p)"
    unfolding parse_repetition_def case_prod_unfold Let_def
    by (rule ends_pbind) (auto split: token_type.split)
  show "ends k (f a p')" if "ok p'" "left p' \<le> left p - Suc 0" for a p'
    using assms(4) [of p' a] left_pos [of p] that by simp
qed

lemma ends_naming_follows:
  assumes "ok p" "\<And>p'. ok p' \<Longrightarrow> left p' < left p \<Longrightarrow> ends k (f True p')" "ends k (f False (snd (peek p)))"
  shows "ends k (pbind (naming_follows (fst (peek p)) (snd (peek p))) f)"
  using assms left_pos [of p] unfolding naming_follows_def case_prod_unfold Let_def
  by (simp add: fail_with_def)

lemma look_behind_same [simp]: "ok p \<Longrightarrow> look_behind_ident tok p = p"
  by (simp add: look_behind_ident_def case_prod_unfold Let_def)

lemma ends_recD:
  "ends_rec n rec \<Longrightarrow> ok p \<Longrightarrow> 4 * left p + rank c \<le> n \<Longrightarrow> ends (left p - reads c) (rec c p)"
  by (simp add: ends_rec_def)

lemma ends_parts:
  assumes "ends_rec n rec" "ok p" "4 * left p \<le> n" "left p \<le> k + reads (Parts parts)"
  shows "ends k (parse_parts rec parts p)"
proof -
  have rec: "ends k (rec (Parts ps) p')" if "ok p'" "left p' < left p" "ps \<noteq> []" for ps p'
  proof (rule ends_mono)
    show "ends (left p' - reads (Parts ps)) (rec (Parts ps) p')"
      using that assms(3) by (intro ends_recD [OF assms(1)]) simp_all
    show "left p' - reads (Parts ps) \<le> k" using that assms(4) by (simp add: reads_def split: if_splits)
  qed
  have rest: "ends k (if starts_primary (fst (peek p))
      then pbind (parse_repetition rec (snd (peek p))) (\<lambda>part q. rec (Parts (parts @ [part])) q)
      else if parts = [] then fail_with msg (snd (peek p))
      else Parsed (if length parts = 1 then hd parts else AST_CONCAT parts) (snd (peek p)))" for msg
    using assms by (intro ends_if ends_repetition [where n = n] rec) (simp_all add: reads_def)
  show ?thesis
  proof (cases "parts = []")
    case True
    show ?thesis using rest [of "Text ''Expected pattern element''"] assms(2)
      unfolding parse_parts_def case_prod_unfold Let_def True by (simp split: if_splits)
  next
    case False
    then have "parse_parts rec parts p = pbind (naming_follows (fst (peek p)) (snd (peek p))) (\<lambda>naming q.
        if naming then pbind (parse_naming_target q) (\<lambda>reg q. rec (Parts (butlast parts @ [AST_CAP reg (last parts)])) q)
        else (let q = look_behind_ident (fst (peek p)) q in if starts_primary (fst (peek p))
          then pbind (parse_repetition rec q) (\<lambda>part q. rec (Parts (parts @ [part])) q)
          else if parts = [] then fail_with (Text ''Expected pattern element'') q
          else Parsed (if length parts = 1 then hd parts else AST_CONCAT parts) q))"
      by (simp add: parse_parts_def case_prod_unfold Let_def)
    also have "ends k \<dots>"
    proof (rule ends_naming_follows [OF assms(2)])
      show "ends k (if True then pbind (parse_naming_target p') (\<lambda>reg q. rec (Parts (butlast parts @ [AST_CAP reg (last parts)])) q)
        else (let q = look_behind_ident (fst (peek p)) p' in if starts_primary (fst (peek p))
          then pbind (parse_repetition rec q) (\<lambda>part q. rec (Parts (parts @ [part])) q)
          else if parts = [] then fail_with (Text ''Expected pattern element'') q
          else Parsed (if length parts = 1 then hd parts else AST_CONCAT parts) q))"
        if "ok p'" "left p' < left p" for p'
        unfolding if_True using that by (intro ends_naming_target rec) simp_all
    next
      show "ends k (if False then pbind (parse_naming_target (snd (peek p))) (\<lambda>reg q. rec (Parts (butlast parts @ [AST_CAP reg (last parts)])) q)
        else (let q = look_behind_ident (fst (peek p)) (snd (peek p)) in if starts_primary (fst (peek p))
          then pbind (parse_repetition rec q) (\<lambda>part q. rec (Parts (parts @ [part])) q)
          else if parts = [] then fail_with (Text ''Expected pattern element'') q
          else Parsed (if length parts = 1 then hd parts else AST_CONCAT parts) q))"
        unfolding if_False Let_def using rest [of "Text ''Expected pattern element''"] assms(2) by simp (simp add: False split: if_splits)
    qed
    finally show ?thesis .
  qed
qed

lemma ends_rec_mono:
  "ends_rec n rec \<Longrightarrow> ok p \<Longrightarrow> 4 * left p + rank c \<le> n \<Longrightarrow> left p \<le> k + reads c \<Longrightarrow> ends k (rec c p)"
  by (rule ends_mono [of "left p - reads c"]) (simp_all add: ends_rec_def)

lemma ends_alternatives:
  assumes "ends_rec n rec" "ok p" "4 * left p \<le> n" "left p \<le> k"
  shows "ends k (parse_alternatives rec a p)"
  unfolding parse_alternatives_def parse_concatenation_def case_prod_unfold Let_def
  using assms left_pos [of p]
  by (intro ends_if ends_recursion [where n = n] ends_rec_mono [where n = n and rec = rec]) auto

lemma ends_alternation:
  assumes "ends_rec n rec" "ok p" "4 * left p + 1 \<le> n" "left p \<le> Suc k"
  shows "ends k (parse_alternation rec p)"
  unfolding parse_alternation_def parse_concatenation_def
  using assms by (intro ends_recursion [where n = n] ends_rec_mono [where n = n and rec = rec]) auto

lemma ends_goto:
  assumes "ends_rec n rec" "ok p" "4 * left p + 2 \<le> n" "left p \<le> Suc k"
  shows "ends k (parse_goto rec p)"
  unfolding parse_goto_def case_prod_unfold Let_def
  using assms by (intro ends_recursion [where n = n] ends_if ends_expect) auto

lemma ends_statement:
  assumes "ends_rec n rec" "ok p" "4 * left p + 2 \<le> n" "left p \<le> Suc k"
  shows "ends k (parse_statement rec p)"
proof -
  have "ends k (parse_goto rec (snd (peek p)))" using assms by (intro ends_goto [where n = n]) simp_all
  moreover have "left (advance (snd (peek (advance (snd (peek p)))))) < left p" if "tok_type (fst (peek p)) = TOKEN_IDENT"
    using left_advance_le [of "advance (snd (peek p))"] assms(2) that left_pos [of p] by simp
  ultimately show ?thesis
    unfolding parse_statement_def case_prod_unfold Let_def using assms
    by (intro ends_if ends_recursion [where n = n]) force+
qed

lemma ends_parse: "ends_rec n (parse n)"
proof (induction n)
  case 0
  have "0 < rank c" for c by (simp add: rank_def split: call.split)
  then show ?case by (auto simp: ends_rec_def)
next
  case (Suc n)
  have "ends (left p - reads c) (parse_call (parse n) c p)" if p: "ok p" "4 * left p + rank c \<le> Suc n" for c p
  proof (cases c)
    case (Parts parts)
    then show ?thesis using ends_parts [OF Suc, of p "left p - reads c" parts] p left_pos [of p] by simp
  next
    case Repetition
    have "ends (left p - Suc 0) (pbind (parse_repetition (parse n) p) Parsed)"
      using p Repetition left_pos [of p] by (intro ends_repetition [OF Suc]) simp_all
    moreover have "pbind r Parsed = r" for r :: "ast parsed" by (cases r) simp_all
    ultimately show ?thesis using Repetition by simp
  qed (use p left_pos [of p] Suc ends_statement ends_alternation ends_alternatives ends_primary in auto)
  then show ?case by (simp add: ends_rec_def)
qed

text \<open>
  C13: The parser ends. On a source with no lexical error ahead, of \<open>k\<close> tokens with the end, the
  calls are never nested deeper than \<open>4 * k + 3\<close>, loop rounds counted as calls.
\<close>

theorem parser_ends:
  assumes "clean (ps_lexer p)" "4 * length (stream (ps_lexer p)) + 3 \<le> n"
  shows "snobol_parser_parse n p \<noteq> Too_Deep"
proof -
  let ?p = "p\<lparr>ps_error := None, seen_labels := [], capture_reg_counter := 0, capture_names := []\<rparr>"
  have "ends (left ?p - reads Statement) (parse n Statement ?p)"
    using assms by (intro ends_recD [OF ends_parse]) (simp_all add: ok_def left_def)
  then have "parse n Statement ?p \<noteq> Too_Deep" by auto
  moreover have "trailing_check q \<noteq> Too_Deep" for q
    by (simp add: trailing_check_def case_prod_unfold Let_def fail_with_def split: option.split)
  moreover have "m \<noteq> Too_Deep \<Longrightarrow> (\<And>a q. f a q \<noteq> Too_Deep) \<Longrightarrow> pbind m f \<noteq> Too_Deep" for m :: "unit parsed" and f :: "unit \<Rightarrow> parser \<Rightarrow> ast parsed"
    by (cases m) simp_all
  ultimately show ?thesis
    by (cases "parse n Statement ?p") (simp_all add: snobol_parser_parse_def Let_def)
qed

section \<open>A lexical error behind a look-ahead\<close>

text \<open>
  When the error was found by a look-ahead that was taken back, the token before it is peeked and the
  error is recorded. Reading then returns the error and leaves the peeked token.
\<close>

definition stuck :: "parser \<Rightarrow> bool" where
  "stuck p \<longleftrightarrow> lx_error (ps_lexer p) \<noteq> None \<and>
     lx_peek (ps_lexer p) = Some (make_token_with_text TOKEN_IDENT (ascii ''ARB''))"

lemma stuck_simps:
  assumes "stuck p"
  shows "peek p = (make_token_with_text TOKEN_IDENT (ascii ''ARB''), p)" "advance p = p" "restore p (save p) = p"
  using assms
  by (simp_all add: stuck_def peek_def advance_def restore_def save_def snobol_lexer_peek_def snobol_lexer_next_def
      snobol_lexer_restore_def snobol_lexer_save_def)

lemma stuck_parts: "stuck p \<Longrightarrow> parse n (Parts parts) p = Too_Deep"
proof (induction n arbitrary: parts)
  case (Suc n)
  note st = stuck_simps [OF Suc.prems]
  have "parse_repetition rec p = Parsed ARB_NODE p" for rec
    by (simp add: parse_repetition_def parse_primary_def parse_function_call_def st)
  moreover have "naming_follows (make_token_with_text TOKEN_IDENT (ascii ''ARB'')) p = Parsed False p"
    by (simp add: naming_follows_def)
  moreover have "look_behind_ident tok p = p" for tok by (simp add: look_behind_ident_def st)
  moreover have "starts_primary (make_token_with_text TOKEN_IDENT (ascii ''ARB''))" by (simp add: starts_primary_def)
  ultimately show ?case using Suc.IH [OF Suc.prems] by (simp add: parse_parts_def st)
qed simp

lemma stuck_alternation: "stuck p \<Longrightarrow> parse n Alternation p = Too_Deep"
  by (cases n) (simp_all add: parse_alternation_def parse_concatenation_def stuck_parts)

lemma stuck_goto: "stuck p \<Longrightarrow> parse_goto (parse n) p = Too_Deep"
  by (simp add: parse_goto_def stuck_alternation)

text \<open>
  C17: A lexical error can make the parser run for ever. On the source \<open>ARB #\<close>, no depth is enough:
  the look-ahead behind the identifier finds the error, and the identifier is then read again and
  again.
\<close>

theorem parser_diverges_on_lexical_error:
  "snobol_parser_parse n (snobol_parser_create (snobol_lexer_create (ascii ''ARB #''))) = Too_Deep"
proof -
  let ?p = "snobol_parser_create (snobol_lexer_create (ascii ''ARB #''))"
  let ?q = "restore (snd (peek (advance (snd (peek ?p))))) (save (snd (peek ?p)))"
  have t: "fst (peek ?p) = make_token_with_text TOKEN_IDENT (ascii ''ARB'')"
    "tok_type (fst (peek (advance (snd (peek ?p))))) = TOKEN_ERROR"
    "lx_peek (ps_lexer ?q) = Some (make_token_with_text TOKEN_IDENT (ascii ''ARB''))"
    by code_simp+
  have "lx_error (ps_lexer ?q) = Some \<lparr>le_kind = Unrecognized 35, le_line = 1, le_column = 5\<rparr>" by code_simp
  then have "stuck ?q" using t(3) by (simp add: stuck_def)
  then have "parse n Statement ?p = Too_Deep"
    using t(1,2) by (cases n) (simp_all add: parse_statement_def case_prod_unfold Let_def stuck_goto)
  moreover have "?p\<lparr>ps_error := None, seen_labels := [], capture_reg_counter := 0, capture_names := []\<rparr> = ?p"
    by (simp add: snobol_parser_create_def)
  ultimately show ?thesis by (simp add: snobol_parser_parse_def)
qed

lemma parser_ends_witness:
  "snobol_parser_parse 11 (snobol_parser_create (snobol_lexer_create (ascii ''ARB''))) \<noteq> Too_Deep"
proof (rule parser_ends)
  let ?l = "snobol_lexer_create (ascii ''ARB'')"
  have s: "stream ?l = [make_token_with_text TOKEN_IDENT (ascii ''ARB''), make_token TOKEN_EOF]" by code_simp
  then show "clean (ps_lexer (snobol_parser_create ?l))"
    unfolding clean_def snobol_parser_create_def by (simp add: snobol_lexer_create_def)
  show "4 * length (stream (ps_lexer (snobol_parser_create ?l))) + 3 \<le> 11"
    by (simp add: snobol_parser_create_def s)
qed

end
