(* ===== verification/Parser_Print.thy ===== *)
theory Parser_Print
  imports Parser_Total
begin

text \<open>
  Writing patterns. A printer turns a tree into tokens, with parentheses where the grammar needs
  them; parsing what it wrote gives the tree back. Together with the lexer this is a round trip from
  trees to source text and back.
\<close>

section \<open>Tokens of a tree\<close>

definition lit_tok :: "bytes \<Rightarrow> token" where
  "lit_tok s = make_token_with_text TOKEN_LIT s"

definition ident_tok :: "bytes \<Rightarrow> token" where
  "ident_tok s = make_token_with_text TOKEN_IDENT s"

definition register_name :: "int \<Rightarrow> bytes" where
  "register_name r = 118 # dec_digits (nat r)"

definition call_toks :: "string \<Rightarrow> token list \<Rightarrow> token list" where
  "call_toks f args = ident_tok (ascii f) # make_token TOKEN_LPAREN # args @ [make_token TOKEN_RPAREN]"

definition paren_toks :: "token list \<Rightarrow> token list" where
  "paren_toks ts = make_token TOKEN_LPAREN # ts @ [make_token TOKEN_RPAREN]"

text \<open>
  The level of a tree: 0 alternation, 1 concatenation, 2 a part with a name, 3 a repetition, 4 a
  primary pattern. The end anchor is in parentheses unless it stands alone.
\<close>

fun level :: "ast \<Rightarrow> nat" where
  "level (AST_ALT _ _) = 0"
| "level (AST_ANCHOR ANCHOR_END) = 0"
| "level (AST_CONCAT _) = 1"
| "level (AST_CAP _ _) = 2"
| "level (AST_ARBNO _) = 3"
| "level (AST_TABLE_UPDATE _ _ _) = 3"
| "level _ = 4"

definition enclose :: "nat \<Rightarrow> nat \<Rightarrow> token list \<Rightarrow> token list" where
  "enclose k l ts = (if l < k then paren_toks ts else ts)"

definition key_toks :: "bytes \<Rightarrow> ast \<Rightarrow> token list" where
  "key_toks table key =
     ident_tok table # make_token TOKEN_LBRACKET #
     (case key of AST_LITERAL k \<Rightarrow> [lit_tok k] | AST_REG_REF r \<Rightarrow> [make_token TOKEN_ANCHOR_END, ident_tok (register_name r)] | _ \<Rightarrow> []) @
     [make_token TOKEN_RBRACKET]"

fun raw :: "ast \<Rightarrow> token list" where
  "raw (AST_LITERAL s) = [lit_tok s]"
| "raw (AST_CONCAT parts) = concat (map (\<lambda>a. enclose 2 (level a) (raw a)) parts)"
| "raw (AST_ALT l r) = enclose 0 (level l) (raw l) @ make_token TOKEN_PIPE # enclose 1 (level r) (raw r)"
| "raw (AST_REPETITION a lo hi) =
     call_toks ''repeat'' (enclose 3 (level a) (raw a) @
       [make_token TOKEN_COMMA, integer_token lo, make_token TOKEN_COMMA, integer_token hi])"
| "raw (AST_SPAN s) = call_toks ''SPAN'' [lit_tok s]"
| "raw (AST_BREAK s) = call_toks ''BREAK'' [lit_tok s]"
| "raw (AST_ANY None) = call_toks ''ANY'' []"
| "raw (AST_ANY (Some s)) = call_toks ''ANY'' [lit_tok s]"
| "raw (AST_NOTANY s) = call_toks ''NOTANY'' [lit_tok s]"
| "raw (AST_ARBNO a) = enclose 4 (level a) (raw a) @ [make_token TOKEN_STAR]"
| "raw (AST_CAP r a) = enclose 2 (level a) (raw a) @ [make_token TOKEN_DOT, ident_tok (register_name r)]"
| "raw (AST_ASSIGN v r) = [ident_tok (register_name v), make_token TOKEN_EQUALS, integer_token r]"
| "raw (AST_LEN n) = call_toks ''LEN'' [integer_token n]"
| "raw (AST_DYNAMIC_EVAL a) = call_toks ''EVAL'' (enclose 0 (level a) (raw a))"
| "raw (AST_ANCHOR ANCHOR_START) = [make_token TOKEN_ANCHOR_START]"
| "raw (AST_ANCHOR ANCHOR_END) = [make_token TOKEN_ANCHOR_END]"
| "raw (AST_EMIT (Some s) r) = call_toks ''EMIT'' [lit_tok s]"
| "raw (AST_EMIT None r) = call_toks ''EMIT'' [make_token TOKEN_AT, ident_tok (register_name r)]"
| "raw (AST_TABLE_ACCESS t k) = key_toks t k"
| "raw (AST_TABLE_UPDATE t k a) = key_toks t k @ make_token TOKEN_EQUALS # enclose 3 (level a) (raw a)"
| "raw (AST_BREAKX s) = call_toks ''BREAKX'' [lit_tok s]"
| "raw (AST_BAL oc cc) = call_toks ''BAL'' [lit_tok (encode_utf8 oc), make_token TOKEN_COMMA, lit_tok (encode_utf8 cc)]"
| "raw AST_FENCE = call_toks ''FENCE'' []"
| "raw AST_REM = call_toks ''REM'' []"
| "raw (AST_RPOS n) = call_toks ''RPOS'' [integer_token n]"
| "raw (AST_RTAB n) = call_toks ''RTAB'' [integer_token n]"
| "raw (AST_POS n) = call_toks ''POS'' [integer_token n]"
| "raw (AST_TAB n) = call_toks ''TAB'' [integer_token n]"
| "raw AST_ABORT = call_toks ''ABORT'' []"
| "raw AST_FAIL = call_toks ''FAIL'' []"
| "raw AST_SUCCEED = call_toks ''SUCCEED'' []"
| "raw _ = []"

definition show_at :: "nat \<Rightarrow> ast \<Rightarrow> token list" where
  "show_at k a = enclose k (level a) (raw a)"

text \<open>The trees that patterns without labels and gotos have.\<close>

fun printable :: "ast \<Rightarrow> bool" where
  "printable (AST_CONCAT parts) = (2 \<le> length parts \<and> (\<forall>a \<in> set parts. printable a))"
| "printable (AST_ALT l r) = (printable l \<and> printable r)"
| "printable (AST_REPETITION a lo hi) = (printable a \<and> 0 \<le> lo \<and> lo \<le> hi \<and> hi \<le> INT32_MAX)"
| "printable (AST_ARBNO a) = printable a"
| "printable (AST_CAP r a) = (reg_ok r \<and> printable a)"
| "printable (AST_ASSIGN v r) = (reg_ok v \<and> reg_ok r)"
| "printable (AST_LEN n) = int32_ok n"
| "printable (AST_EVAL f r) = False"
| "printable (AST_DYNAMIC_EVAL a) = printable a"
| "printable (AST_EMIT text r) = (if text = None then reg_ok r else r = - 1)"
| "printable (AST_LABEL _ a) = False"
| "printable (AST_GOTO _) = False"
| "printable (AST_TABLE_ACCESS _ k) = wf_key k"
| "printable (AST_TABLE_UPDATE _ k a) = (wf_key k \<and> printable a)"
| "printable (AST_BAL oc cc) = (valid_cp oc \<and> valid_cp cc)"
| "printable (AST_RPOS n) = int32_ok n"
| "printable (AST_RTAB n) = int32_ok n"
| "printable (AST_POS n) = int32_ok n"
| "printable (AST_TAB n) = int32_ok n"
| "printable (AST_REG_REF r) = False"
| "printable _ = True"

section \<open>Where the parser stands\<close>

definition at :: "token list \<Rightarrow> parser \<Rightarrow> bool" where
  "at ts p \<longleftrightarrow> ok p \<and> stream (ps_lexer p) = ts"

text \<open>The parsers differ in the lexer only.\<close>

definition same :: "parser \<Rightarrow> parser \<Rightarrow> bool" where
  "same p q \<longleftrightarrow> ps_error q = ps_error p \<and> seen_labels q = seen_labels p \<and>
     capture_reg_counter q = capture_reg_counter p \<and> capture_names q = capture_names p"

lemma same_refl [simp]: "same p p"
  by (simp add: same_def)

lemma same_trans: "same p q \<Longrightarrow> same q r \<Longrightarrow> same p r"
  by (simp add: same_def)

lemma same_ops [simp]:
  "same p (advance q) = same p q" "same p (snd (peek q)) = same p q" "same p (restore q st) = same p q"
  by (simp_all add: same_def advance_def restore_def peek_def case_prod_unfold Let_def)

lemma tok_simps [simp]:
  "tok_type (lit_tok s) = TOKEN_LIT" "tok_text (lit_tok s) = s"
  "tok_type (ident_tok s) = TOKEN_IDENT" "tok_text (ident_tok s) = s"
  by (simp_all add: lit_tok_def ident_tok_def)

lemma is_last_simps [simp]:
  "\<not> is_last (lit_tok s)" "\<not> is_last (ident_tok s)" "\<not> is_last (integer_token v)"
  "is_last (make_token ty) \<longleftrightarrow> ty = TOKEN_EOF \<or> ty = TOKEN_ERROR"
  by (simp_all add: is_last_def)

lemma at_peek: "at (t # ts) p \<Longrightarrow> fst (peek p) = t \<and> at (t # ts) (snd (peek p))"
proof -
  assume a: "at (t # ts) p"
  then have c: "clean (ps_lexer p)" and s: "stream (ps_lexer p) = t # ts" by (simp_all add: at_def ok_def)
  have "fst (peek p) = t" using peek_token [of p] a s by (simp add: at_def)
  moreover have "at (t # ts) (snd (peek p))" using lexer_src.peek_ok [OF c] s by (simp add: at_def ok_def peek_lexer)
  ultimately show ?thesis by blast
qed

lemma at_advance: "at (t # ts) p \<Longrightarrow> \<not> is_last t \<Longrightarrow> at ts (advance p)"
  using lexer_src.next_ok [of "ps_lexer p"] by (simp add: at_def ok_def advance_def rest_tokens_def)

lemma at_ok: "at ts p \<Longrightarrow> ok p"
  by (simp add: at_def)

section \<open>Runs\<close>

text \<open>
  With enough depth the result is the tree \<open>a\<close>, with the parser at the tokens \<open>rest\<close> and otherwise
  as \<open>p\<close>.
\<close>

definition runs :: "parser \<Rightarrow> token list \<Rightarrow> 'a \<Rightarrow> (nat \<Rightarrow> 'a parsed) \<Rightarrow> bool" where
  "runs p rest a g \<longleftrightarrow> (\<exists>q. at rest q \<and> same p q \<and> eventually (\<lambda>n. g n = Parsed a q) sequentially)"

lemma runs_Parsed: "at rest q \<Longrightarrow> same p q \<Longrightarrow> runs p rest a (\<lambda>n. Parsed a q)"
  by (auto simp: runs_def)

lemma runs_done: "at (t # rest) q \<Longrightarrow> same p q \<Longrightarrow> \<not> is_last t \<Longrightarrow> runs p rest a (\<lambda>n. Parsed a (advance q))"
  by (rule runs_Parsed) (simp_all add: at_advance)

lemma runs_peek:
  assumes "at (t # ts) q" "same p q" "\<And>q. at (t # ts) q \<Longrightarrow> same p q \<Longrightarrow> runs p rest a (\<lambda>n. F n t q)"
  shows "runs p rest a (\<lambda>n. case peek q of (x, y) \<Rightarrow> F n x y)"
  using assms(3) [of "snd (peek q)"] at_peek [OF assms(1)] assms(2) by (simp add: case_prod_unfold)

lemma runs_pbind:
  assumes "runs q rest1 b g" "same p q" "\<And>q. at rest1 q \<Longrightarrow> same p q \<Longrightarrow> runs p rest a (\<lambda>n. f n b q)"
  shows "runs p rest a (\<lambda>n. pbind (g n) (f n))"
proof -
  obtain q1 where q1: "at rest1 q1" "same q q1" "eventually (\<lambda>n. g n = Parsed b q1) sequentially"
    using assms(1) by (auto simp: runs_def)
  obtain q2 where q2: "at rest q2" "same p q2" "eventually (\<lambda>n. f n b q1 = Parsed a q2) sequentially"
    using assms(3) [OF q1(1) same_trans [OF assms(2) q1(2)]] by (auto simp: runs_def)
  have "eventually (\<lambda>n. pbind (g n) (f n) = Parsed a q2) sequentially"
    using q1(3) q2(3) by eventually_elim simp
  then show ?thesis using q2 by (auto simp: runs_def)
qed

lemma runs_expect: "at (make_token ty # ts) q \<Longrightarrow> ty \<noteq> TOKEN_EOF \<Longrightarrow> ty \<noteq> TOKEN_ERROR \<Longrightarrow> runs q ts () (\<lambda>n. expect ty q)"
  unfolding expect_def Let_def
  by (rule runs_peek, assumption, simp) (simp add: runs_done)

lemmas runs_expects = runs_pbind [OF runs_expect]

lemma runs_integer:
  "at (integer_token v # ts) q \<Longrightarrow> int32_ok v \<Longrightarrow> runs q ts v (\<lambda>n. parse_integer_arg f q)"
  unfolding parse_integer_arg_def Let_def lexical_error_def int32_ok_def
  by (rule runs_peek, assumption, simp) (simp add: runs_done)

lemmas runs_integers = runs_pbind [OF runs_integer]

lemma runs_Suc: "runs p rest a (\<lambda>n. parse_call (parse n) c q) \<Longrightarrow> runs p rest a (\<lambda>n. parse n c q)"
proof -
  assume "runs p rest a (\<lambda>n. parse_call (parse n) c q)"
  then obtain q' where q: "at rest q'" "same p q'" "eventually (\<lambda>n. parse (Suc n) c q = Parsed a q') sequentially"
    by (auto simp: runs_def)
  then have "eventually (\<lambda>n. parse n c q = Parsed a q') sequentially"
    using eventually_sequentially_Suc [of "\<lambda>n. parse n c q = Parsed a q'"] by blast
  then show ?thesis using q by (auto simp: runs_def)
qed

section \<open>Calls\<close>

lemma runs_set_arg: "at (lit_tok s # make_token TOKEN_RPAREN # rest) q \<Longrightarrow> runs q rest (node s) (\<lambda>n. parse_set_arg e node q)"
  unfolding parse_set_arg_def Let_def
  by (rule runs_peek, assumption, simp, simp, rule runs_expects, erule at_advance)
    (auto intro: runs_Parsed simp: is_last_def)

lemma runs_int_call: "at (integer_token v # make_token TOKEN_RPAREN # rest) q \<Longrightarrow> int32_ok v \<Longrightarrow>
    runs q rest (node v) (\<lambda>n. parse_int_call f node q)"
  unfolding parse_int_call_def
  by (rule runs_integers, assumption, assumption, simp, rule runs_expects) (auto intro: runs_Parsed)

lemma runs_empty_call: "at (make_token TOKEN_RPAREN # rest) q \<Longrightarrow> runs q rest node (\<lambda>n. parse_empty_call node q)"
  unfolding parse_empty_call_def by (rule runs_expects) (auto intro: runs_Parsed)

lemma runs_no_args: "at (make_token TOKEN_RPAREN # rest) q \<Longrightarrow> runs q rest node (\<lambda>n. parse_no_args e node q)"
  unfolding parse_no_args_def Let_def
  by (rule runs_peek, assumption, simp) (simp add: runs_done)

lemma runs_any_call:
  "at (make_token TOKEN_RPAREN # rest) q \<Longrightarrow> runs q rest (AST_ANY None) (\<lambda>n. parse_any_call q)"
  "at (lit_tok s # make_token TOKEN_RPAREN # rest) q \<Longrightarrow> runs q rest (AST_ANY (Some s)) (\<lambda>n. parse_any_call q)"
proof -
  assume "at (make_token TOKEN_RPAREN # rest) q"
  then show "runs q rest (AST_ANY None) (\<lambda>n. parse_any_call q)"
    unfolding parse_any_call_def Let_def by (rule runs_peek, simp) (simp add: runs_done)
next
  assume a: "at (lit_tok s # make_token TOKEN_RPAREN # rest) q"
  have "runs q rest (AST_ANY (Some s)) (\<lambda>n. parse_set_arg e (\<lambda>s. AST_ANY (Some s)) q')"
    if "at (lit_tok s # make_token TOKEN_RPAREN # rest) q'" "same q q'" for q' e
    using runs_set_arg [OF that(1), of "\<lambda>s. AST_ANY (Some s)" e] that(2) by (auto simp: runs_def intro: same_trans)
  then show "runs q rest (AST_ANY (Some s)) (\<lambda>n. parse_any_call q)"
    using a unfolding parse_any_call_def Let_def by (intro runs_peek [OF a]) simp_all
qed

lemma runs_same: "runs q rest a g \<Longrightarrow> same p q \<Longrightarrow> runs p rest a g"
  by (auto simp: runs_def intro: same_trans)

lemma runs_delimiter:
  assumes "at (lit_tok (encode_utf8 c) # ts) q" "valid_cp c" "same p q"
    "\<And>q. at ts q \<Longrightarrow> same p q \<Longrightarrow> runs p rest a (\<lambda>n. f n c q)"
  shows "runs p rest a (\<lambda>n. pbind (parse_delimiter (lit_tok (encode_utf8 c)) q) (f n))"
proof -
  have "utf8_peek_next (encode_utf8 c) 0 = Some (c, length (encode_utf8 c))"
    using decode_encode_any [of c "[]" "[]"] assms(2) by simp
  then show ?thesis using assms at_advance [OF assms(1)] by (simp add: parse_delimiter_def)
qed

lemma runs_bal_call:
  assumes "at (lit_tok (encode_utf8 oc) # make_token TOKEN_COMMA # lit_tok (encode_utf8 cc) # make_token TOKEN_RPAREN # rest) q"
    "valid_cp oc" "valid_cp cc"
  shows "runs q rest (AST_BAL oc cc) (\<lambda>n. parse_bal_call q)"
  unfolding parse_bal_call_def Let_def
  by (rule runs_peek [OF assms(1) same_refl], simp, rule runs_delimiter, assumption, rule assms(2), assumption,
      rule runs_peek, assumption, assumption, simp, rule runs_peek, erule at_advance, simp, simp, simp,
      rule runs_delimiter, assumption, rule assms(3), assumption, rule runs_same, rule runs_empty_call)

lemma v_register_name: "0 \<le> r \<Longrightarrow> r \<le> 64 \<Longrightarrow> ident_is_v_register (register_name r) = Some r"
proof -
  assume r: "0 \<le> r" "r \<le> 64"
  have "list_all (\<lambda>n. ident_is_v_register (118 # dec_digits n) = Some (int n)) [0..<65]" by code_simp
  then have "ident_is_v_register (118 # dec_digits (nat r)) = Some (int (nat r))"
    using r unfolding list_all_iff by (auto simp del: upt_Suc)
  then show ?thesis using r by (simp add: register_name_def)
qed

lemma runs_emit:
  "at (lit_tok s # make_token TOKEN_RPAREN # rest) q \<Longrightarrow> runs q rest (AST_EMIT (Some s) (- 1)) (\<lambda>n. parse_emit q)"
  "at (make_token TOKEN_AT # ident_tok (register_name r) # make_token TOKEN_RPAREN # rest) q \<Longrightarrow> reg_ok r \<Longrightarrow>
     runs q rest (AST_EMIT None r) (\<lambda>n. parse_emit q)"
proof -
  assume a: "at (lit_tok s # make_token TOKEN_RPAREN # rest) q"
  show "runs q rest (AST_EMIT (Some s) (- 1)) (\<lambda>n. parse_emit q)"
    unfolding parse_emit_def Let_def
    by (rule runs_peek [OF a same_refl], simp, rule runs_expects, erule at_advance) (simp_all add: runs_Parsed)
next
  assume a: "at (make_token TOKEN_AT # ident_tok (register_name r) # make_token TOKEN_RPAREN # rest) q" and r: "reg_ok r"
  then have v: "ident_is_v_register (register_name r) = Some r" by (intro v_register_name) (simp_all add: reg_ok_def MAX_VARS_INT_def)
  show "runs q rest (AST_EMIT None r) (\<lambda>n. parse_emit q)"
    unfolding parse_emit_def Let_def
    by (rule runs_peek [OF a same_refl], simp, rule runs_peek, erule at_advance, simp, simp,
        simp add: v, rule runs_expects, erule at_advance) (simp_all add: runs_Parsed)
qed

lemma runs_assignment:
  assumes "at (make_token TOKEN_EQUALS # integer_token r # rest) q" "reg_ok v" "reg_ok r"
  shows "runs q rest (AST_ASSIGN v r) (\<lambda>n. parse_assignment (register_name v) q)"
proof -
  have v: "ident_is_v_register (register_name v) = Some v"
    using assms(2) by (intro v_register_name) (simp_all add: reg_ok_def MAX_VARS_INT_def)
  have r: "\<not> r < 0" "\<not> MAX_VARS_INT \<le> r" using assms(3) by (simp_all add: reg_ok_def)
  have a: "at (integer_token r # rest) (advance q)" using at_advance [OF assms(1)] by simp
  show ?thesis
    unfolding parse_assignment_def Let_def using v r
    by (simp, intro runs_peek [OF a]) (simp_all add: runs_done)
qed

lemma runs_table_key:
  assumes "at ((case key of AST_LITERAL k \<Rightarrow> [lit_tok k]
      | AST_REG_REF r \<Rightarrow> [make_token TOKEN_ANCHOR_END, ident_tok (register_name r)] | _ \<Rightarrow> []) @ ts) q" "wf_key key"
  shows "runs q ts key (\<lambda>n. parse_table_key name q)"
proof (cases key)
  case (AST_LITERAL k)
  then have a: "at (lit_tok k # ts) q" using assms(1) by simp
  show ?thesis
    unfolding parse_table_key_def Let_def lexical_error_def AST_LITERAL
    by (rule runs_peek [OF a same_refl]) (simp add: runs_done)
next
  case (AST_REG_REF r)
  then have a: "at (make_token TOKEN_ANCHOR_END # ident_tok (register_name r) # ts) q" and r: "reg_ok r" using assms by simp_all
  have v: "ident_is_v_register (register_name r) = Some r" "\<not> MAX_VARS_INT \<le> r"
    using r v_register_name [of r] by (simp_all add: reg_ok_def MAX_VARS_INT_def)
  show ?thesis
    unfolding parse_table_key_def Let_def lexical_error_def AST_REG_REF
    by (rule runs_peek [OF a same_refl], simp, rule runs_peek, erule at_advance, simp, simp) (simp add: v runs_done)
qed (use assms(2) in simp_all)

text \<open>Behind a name: a table or an assignment; the table with its value, or not followed by one.\<close>

definition repetition_at :: "token list \<Rightarrow> token list \<Rightarrow> ast \<Rightarrow> bool" where
  "repetition_at ts rest a \<longleftrightarrow> (\<forall>p. at (ts @ rest) p \<longrightarrow> runs p rest a (\<lambda>n. parse_repetition (parse n) p))"

definition alternation_at :: "token list \<Rightarrow> token list \<Rightarrow> ast \<Rightarrow> bool" where
  "alternation_at ts rest a \<longleftrightarrow> (\<forall>p. at (ts @ rest) p \<longrightarrow> runs p rest a (\<lambda>n. parse n Alternation p))"

definition primary_at :: "token list \<Rightarrow> token list \<Rightarrow> ast \<Rightarrow> bool" where
  "primary_at ts rest a \<longleftrightarrow> (\<forall>p. at (ts @ rest) p \<longrightarrow> runs p rest a (\<lambda>n. parse_primary (parse n) p))"

definition starts :: "token list \<Rightarrow> token_type set \<Rightarrow> bool" where
  "starts ts S \<longleftrightarrow> ts \<noteq> [] \<and> tok_type (hd ts) \<in> S"

lemma startsE:
  assumes "starts ts S"
  obtains t us where "ts = t # us" "tok_type t \<in> S"
  using assms by (cases ts) (auto simp: starts_def)

lemma starts_append [simp]: "starts ts S \<Longrightarrow> starts (ts @ us) S"
  by (auto simp: starts_def)

lemma starts_Cons [simp]: "starts (t # ts) S \<longleftrightarrow> tok_type t \<in> S"
  by (simp add: starts_def)

lemma starts_mono: "starts ts S \<Longrightarrow> S \<subseteq> T \<Longrightarrow> starts ts T"
  by (auto simp: starts_def)

text \<open>A primary pattern that begins with a name.\<close>

lemma primary_name:
  assumes "at (ident_tok name # t # ts) p"
    "\<And>q. at (t # ts) q \<Longrightarrow> same p q \<Longrightarrow> runs p rest a (\<lambda>n.
       if tok_type t = TOKEN_EQUALS \<or> tok_type t = TOKEN_LBRACKET then parse_table_or_assign (parse n) name q
       else if tok_type t = TOKEN_LPAREN then parse_builtin (parse n) name (advance q) else Null q)"
    "tok_type t \<in> {TOKEN_EQUALS, TOKEN_LBRACKET, TOKEN_LPAREN}"
  shows "runs p rest a (\<lambda>n. parse_primary (parse n) p)"
  unfolding parse_primary_def parse_function_call_def Let_def
  by (rule runs_peek [OF assms(1) same_refl], simp, rule runs_peek, assumption, assumption, simp,
      rule runs_peek, erule at_advance, simp, simp) (use assms(2,3) in fastforce)

lemma primary_call:
  assumes "\<And>q. at (args @ make_token TOKEN_RPAREN # rest) q \<Longrightarrow> runs q rest a (\<lambda>n. parse_builtin (parse n) (ascii f) q)"
  shows "primary_at (call_toks f args) rest a"
  unfolding primary_at_def
proof (intro allI impI)
  fix p assume "at (call_toks f args @ rest) p"
  then have a: "at (ident_tok (ascii f) # make_token TOKEN_LPAREN # args @ make_token TOKEN_RPAREN # rest) p"
    by (simp add: call_toks_def)
  show "runs p rest a (\<lambda>n. parse_primary (parse n) p)"
  proof (rule primary_name [OF a])
    fix q assume q: "at (make_token TOKEN_LPAREN # args @ make_token TOKEN_RPAREN # rest) q" "same p q"
    have "runs p rest a (\<lambda>n. parse_builtin (parse n) (ascii f) (advance q))"
      using at_advance [OF q(1)] q(2) by (intro runs_same [OF assms]) simp_all
    then show "runs p rest a (\<lambda>n. if tok_type (make_token TOKEN_LPAREN) = TOKEN_EQUALS \<or> tok_type (make_token TOKEN_LPAREN) = TOKEN_LBRACKET
        then parse_table_or_assign (parse n) (ascii f) q
        else if tok_type (make_token TOKEN_LPAREN) = TOKEN_LPAREN then parse_builtin (parse n) (ascii f) (advance q) else Null q)"
      by simp
  qed simp
qed

lemma primary_assign:
  assumes "reg_ok v" "reg_ok r"
  shows "primary_at [ident_tok (register_name v), make_token TOKEN_EQUALS, integer_token r] rest (AST_ASSIGN v r)"
  unfolding primary_at_def
proof (intro allI impI)
  fix p assume "at ([ident_tok (register_name v), make_token TOKEN_EQUALS, integer_token r] @ rest) p"
  then have a: "at (ident_tok (register_name v) # make_token TOKEN_EQUALS # integer_token r # rest) p" by simp
  show "runs p rest (AST_ASSIGN v r) (\<lambda>n. parse_primary (parse n) p)"
    by (rule primary_name [OF a], simp, unfold parse_table_or_assign_def Let_def,
        rule runs_peek, assumption, assumption, simp, rule runs_same [OF runs_assignment]) (use assms in simp_all)
qed

lemma primary_access:
  assumes "wf_key k" "starts rest (- {TOKEN_EQUALS})"
  shows "primary_at (key_toks t k) rest (AST_TABLE_ACCESS t k)"
  unfolding primary_at_def
proof (intro allI impI)
  fix p assume "at (key_toks t k @ rest) p"
  then have a: "at (ident_tok t # make_token TOKEN_LBRACKET # (case k of AST_LITERAL k \<Rightarrow> [lit_tok k]
      | AST_REG_REF r \<Rightarrow> [make_token TOKEN_ANCHOR_END, ident_tok (register_name r)] | _ \<Rightarrow> []) @ make_token TOKEN_RBRACKET # rest) p"
    by (simp add: key_toks_def)
  obtain u us where u: "rest = u # us" "tok_type u \<noteq> TOKEN_EQUALS" using startsE [OF assms(2)] by blast
  show "runs p rest (AST_TABLE_ACCESS t k) (\<lambda>n. parse_primary (parse n) p)"
    by (rule primary_name [OF a], simp, unfold parse_table_or_assign_def Let_def,
        rule runs_peek, assumption, assumption, simp, rule runs_pbind, rule runs_table_key, erule at_advance, simp,
        rule assms(1), simp, rule runs_expects, assumption, simp, simp, assumption, unfold u(1),
        rule runs_peek, assumption, assumption, simp add: u(2), rule runs_Parsed) simp_all
qed

lemma primary_update:
  assumes "wf_key k" "starts ts (- {TOKEN_EOF})" "repetition_at ts rest a"
  shows "primary_at (key_toks t k @ make_token TOKEN_EQUALS # ts) rest (AST_TABLE_UPDATE t k a)"
  unfolding primary_at_def
proof (intro allI impI)
  fix p assume "at ((key_toks t k @ make_token TOKEN_EQUALS # ts) @ rest) p"
  then have a: "at (ident_tok t # make_token TOKEN_LBRACKET # (case k of AST_LITERAL k \<Rightarrow> [lit_tok k]
      | AST_REG_REF r \<Rightarrow> [make_token TOKEN_ANCHOR_END, ident_tok (register_name r)] | _ \<Rightarrow> []) @
      make_token TOKEN_RBRACKET # make_token TOKEN_EQUALS # ts @ rest) p"
    by (simp add: key_toks_def)
  obtain u us where u: "ts = u # us" "tok_type u \<noteq> TOKEN_EOF" using startsE [OF assms(2)] by blast
  have r: "runs p rest a (\<lambda>n. parse n Repetition q)" if "at (u # us @ rest) q" "same p q" for q
  proof (rule runs_Suc)
    show "runs p rest a (\<lambda>n. parse_call (parse n) Repetition q)"
      using assms(3) that u(1) by (auto simp: repetition_at_def intro: runs_same)
  qed
  show "runs p rest (AST_TABLE_UPDATE t k a) (\<lambda>n. parse_primary (parse n) p)"
    by (rule primary_name [OF a], simp, unfold parse_table_or_assign_def Let_def,
        rule runs_peek, assumption, assumption, simp, rule runs_pbind, rule runs_table_key, erule at_advance, simp,
        rule assms(1), simp, rule runs_expects, assumption, simp, simp, assumption,
        rule runs_peek, assumption, assumption, simp, unfold u(1) append_Cons, rule runs_peek, erule at_advance, simp, simp,
        simp add: u(2), rule runs_pbind, rule r, assumption, assumption, rule same_refl, rule runs_Parsed) simp_all
qed

lemma runs_alternation: "alternation_at ts rest a \<Longrightarrow> at (ts @ rest) q \<Longrightarrow> runs q rest a (\<lambda>n. parse n Alternation q)"
  by (simp add: alternation_at_def)

lemma runs_repetition: "repetition_at ts rest a \<Longrightarrow> at (ts @ rest) q \<Longrightarrow> runs q rest a (\<lambda>n. parse n Repetition q)"
  by (rule runs_Suc) (simp add: repetition_at_def)

lemma primary_paren:
  assumes "alternation_at ts (make_token TOKEN_RPAREN # rest) a"
  shows "primary_at (paren_toks ts) rest a"
  unfolding primary_at_def
proof (intro allI impI)
  fix p assume "at (paren_toks ts @ rest) p"
  then have a: "at (make_token TOKEN_LPAREN # ts @ make_token TOKEN_RPAREN # rest) p" by (simp add: paren_toks_def)
  show "runs p rest a (\<lambda>n. parse_primary (parse n) p)"
    unfolding parse_primary_def Let_def
    by (rule runs_peek [OF a same_refl], simp, rule runs_pbind, rule runs_alternation [OF assms], erule at_advance, simp, simp,
        rule runs_expects, assumption, simp, simp, assumption, rule runs_Parsed)
qed

lemma primary_eval:
  assumes "alternation_at ts (make_token TOKEN_RPAREN # rest) a"
  shows "primary_at (call_toks ''EVAL'' ts) rest (AST_DYNAMIC_EVAL a)"
proof (rule primary_call)
  fix q assume a: "at (ts @ make_token TOKEN_RPAREN # rest) q"
  have "runs q rest (AST_DYNAMIC_EVAL a) (\<lambda>n. parse_dynamic_eval (parse n) q)"
    unfolding parse_dynamic_eval_def
    by (rule runs_pbind, rule runs_alternation [OF assms a], simp, rule runs_expects, assumption, simp, simp, assumption,
        rule runs_Parsed)
  then show "runs q rest (AST_DYNAMIC_EVAL a) (\<lambda>n. parse_builtin (parse n) (ascii ''EVAL'') q)"
    by (simp add: parse_builtin_def named_def ascii_def)
qed

lemma primary_repeat:
  assumes "repetition_at ts (make_token TOKEN_COMMA # integer_token lo # make_token TOKEN_COMMA # integer_token hi # make_token TOKEN_RPAREN # rest) a"
    "starts ts (- {TOKEN_RPAREN})" "0 \<le> lo" "lo \<le> hi" "hi \<le> INT32_MAX"
  shows "primary_at (call_toks ''repeat'' (ts @ [make_token TOKEN_COMMA, integer_token lo, make_token TOKEN_COMMA, integer_token hi]))
     rest (AST_REPETITION a lo hi)"
proof (rule primary_call)
  fix q assume "at ((ts @ [make_token TOKEN_COMMA, integer_token lo, make_token TOKEN_COMMA, integer_token hi]) @ make_token TOKEN_RPAREN # rest) q"
  then have a: "at (ts @ make_token TOKEN_COMMA # integer_token lo # make_token TOKEN_COMMA # integer_token hi # make_token TOKEN_RPAREN # rest) q"
    by simp
  obtain u us where u: "ts = u # us" "tok_type u \<noteq> TOKEN_RPAREN" using startsE [OF assms(2)] by blast
  have i: "int32_ok lo" "int32_ok hi" using assms(3-5) by (simp_all add: int32_ok_def INT32_MIN_def INT32_MAX_def)
  have "runs q rest (AST_REPETITION a lo hi) (\<lambda>n. parse_repeat_call (parse n) q)"
    unfolding parse_repeat_call_def Let_def
    by (rule runs_peek [OF a [unfolded u append_Cons] same_refl], simp add: u(2), rule runs_pbind,
        rule runs_repetition [OF assms(1)], simp add: u(1), assumption, rule runs_expects, assumption, simp, simp, assumption,
        rule runs_integers, assumption, rule i(1), assumption, rule runs_peek, assumption, assumption, simp,
        rule runs_expects, assumption, simp, simp, assumption, rule runs_integers, assumption, rule i(2), assumption,
        rule runs_expects, assumption, simp, simp, assumption) (use assms(3,4) in \<open>simp add: runs_Parsed\<close>)
  then show "runs q rest (AST_REPETITION a lo hi) (\<lambda>n. parse_builtin (parse n) (ascii ''repeat'') q)"
    by (simp add: parse_builtin_def named_def ascii_def)
qed

section \<open>Levels\<close>

text \<open>What follows a repetition, a part and a whole alternative.\<close>

definition after_repetition :: "token_type set" where
  "after_repetition = - {TOKEN_EQUALS, TOKEN_STAR, TOKEN_PLUS, TOKEN_QUESTION}"

definition after_parts :: "token_type set" where
  "after_parts = {TOKEN_PIPE, TOKEN_RPAREN, TOKEN_COLON, TOKEN_EOF}"

definition after_pattern :: "token_type set" where
  "after_pattern = {TOKEN_RPAREN, TOKEN_COLON, TOKEN_EOF}"

text \<open>How a part starts: not with a naming operator.\<close>

definition part_start :: "token_type set" where
  "part_start = {TOKEN_LIT, TOKEN_LPAREN, TOKEN_ANCHOR_START, TOKEN_IDENT}"

lemma repetition_plain:
  assumes "primary_at ts rest a" "starts rest after_repetition"
  shows "repetition_at ts rest a"
  unfolding repetition_at_def
proof (intro allI impI)
  fix p assume a: "at (ts @ rest) p"
  obtain u us where u: "rest = u # us" "tok_type u \<in> after_repetition" using startsE [OF assms(2)] by blast
  have "(case tok_type u of TOKEN_STAR \<Rightarrow> x | TOKEN_PLUS \<Rightarrow> y | TOKEN_QUESTION \<Rightarrow> z | _ \<Rightarrow> w) = w" for x y z w :: "ast parsed"
    using u(2) by (simp add: after_repetition_def split: token_type.split)
  then have r: "runs p rest a (\<lambda>n. case tok_type u of TOKEN_STAR \<Rightarrow> Parsed (AST_ARBNO a) (advance q)
      | TOKEN_PLUS \<Rightarrow> Parsed (AST_CONCAT [a, AST_ARBNO a]) (advance q)
      | TOKEN_QUESTION \<Rightarrow> Parsed (AST_REPETITION a 0 1) (advance q) | _ \<Rightarrow> Parsed a q)"
    if "at (u # us) q" "same p q" for q
    using that u(1) by (simp add: runs_Parsed)
  show "runs p rest a (\<lambda>n. parse_repetition (parse n) p)"
    unfolding parse_repetition_def Let_def
    by (rule runs_pbind, rule assms(1) [unfolded primary_at_def, rule_format, OF a], simp, unfold u(1), rule runs_peek, assumption,
        assumption, rule r [unfolded u(1)])
qed

lemma repetition_star:
  assumes "primary_at ts (make_token TOKEN_STAR # rest) a"
  shows "repetition_at (ts @ [make_token TOKEN_STAR]) rest (AST_ARBNO a)"
  unfolding repetition_at_def
proof (intro allI impI)
  fix p assume "at ((ts @ [make_token TOKEN_STAR]) @ rest) p"
  then have a: "at (ts @ make_token TOKEN_STAR # rest) p" by simp
  show "runs p rest (AST_ARBNO a) (\<lambda>n. parse_repetition (parse n) p)"
    unfolding parse_repetition_def Let_def
    by (rule runs_pbind, rule assms(1) [unfolded primary_at_def, rule_format, OF a], simp, rule runs_peek, assumption,
        assumption) (simp add: runs_done)
qed

text \<open>One part: the loop goes on with it at the end of its list.\<close>

definition part_at :: "token list \<Rightarrow> token list \<Rightarrow> ast \<Rightarrow> bool" where
  "part_at ts rest a \<longleftrightarrow> (\<forall>p acc. at (ts @ rest) p \<longrightarrow> (\<exists>q. at rest q \<and> same p q \<and>
     (\<forall>r. eventually (\<lambda>n. parse n (Parts (acc @ [a])) q = r) sequentially \<longrightarrow>
          eventually (\<lambda>n. parse n (Parts acc) p = r) sequentially)))"

lemma part_plain:
  assumes "repetition_at ts rest a" "starts ts part_start"
  shows "part_at ts rest a"
  unfolding part_at_def
proof (intro allI impI)
  fix p acc assume a: "at (ts @ rest) p"
  obtain u us where u: "ts = u # us" "tok_type u \<in> part_start" using startsE [OF assms(2)] by blast
  let ?p = "snd (peek p)"
  have pk: "fst (peek p) = u" "at (ts @ rest) ?p" using at_peek [of u "us @ rest" p] a u by simp_all
  obtain q where q: "at rest q" "same ?p q" "eventually (\<lambda>n. parse_repetition (parse n) ?p = Parsed a q) sequentially"
    using assms(1) pk(2) by (auto simp: repetition_at_def runs_def)
  have st: "starts_primary u" "tok_type u \<noteq> TOKEN_DOT" "tok_type u \<noteq> TOKEN_ANCHOR_END"
    using u(2) by (auto simp: part_start_def starts_primary_def)
  have body: "parse_parts rec acc p = pbind (parse_repetition rec ?p) (\<lambda>part. rec (Parts (acc @ [part])))" for rec
    using st pk at_ok [OF pk(2)]
    by (cases "acc = []") (simp_all add: parse_parts_def case_prod_unfold Let_def naming_follows_def)
  have "eventually (\<lambda>n. parse n (Parts acc) p = r) sequentially"
    if "eventually (\<lambda>n. parse n (Parts (acc @ [a])) q = r) sequentially" for r
  proof -
    have "eventually (\<lambda>n. parse (Suc n) (Parts acc) p = r) sequentially"
      using q(3) that by eventually_elim (simp add: body)
    then show ?thesis using eventually_sequentially_Suc [of "\<lambda>n. parse n (Parts acc) p = r"] by blast
  qed
  then show "\<exists>q. at rest q \<and> same p q \<and> (\<forall>r. eventually (\<lambda>n. parse n (Parts (acc @ [a])) q = r) sequentially \<longrightarrow>
      eventually (\<lambda>n. parse n (Parts acc) p = r) sequentially)"
    using q(1,2) by (intro exI [of _ q]) (auto simp: same_def peek_def case_prod_unfold Let_def)
qed

lemma part_name:
  assumes "part_at ts (make_token TOKEN_DOT # ident_tok (register_name r) # rest) a" "reg_ok r"
  shows "part_at (ts @ [make_token TOKEN_DOT, ident_tok (register_name r)]) rest (AST_CAP r a)"
  unfolding part_at_def
proof (intro allI impI)
  fix p acc assume "at ((ts @ [make_token TOKEN_DOT, ident_tok (register_name r)]) @ rest) p"
  then have "at (ts @ make_token TOKEN_DOT # ident_tok (register_name r) # rest) p" by simp
  then obtain q where q: "at (make_token TOKEN_DOT # ident_tok (register_name r) # rest) q" "same p q"
    "\<And>x. eventually (\<lambda>n. parse n (Parts (acc @ [a])) q = x) sequentially \<Longrightarrow>
        eventually (\<lambda>n. parse n (Parts acc) p = x) sequentially"
    using assms(1) unfolding part_at_def by blast
  have v: "ident_is_v_register (register_name r) = Some r" "\<not> MAX_VARS_INT \<le> r"
    using assms(2) v_register_name [of r] by (simp_all add: reg_ok_def MAX_VARS_INT_def)
  let ?q = "advance (snd (peek (advance (snd (peek q)))))"
  have pk: "fst (peek q) = make_token TOKEN_DOT" "at (ident_tok (register_name r) # rest) (advance (snd (peek q)))"
    using at_peek [OF q(1)] at_advance [of "make_token TOKEN_DOT" _ "snd (peek q)"] by simp_all
  have q': "at rest ?q" using at_peek [OF pk(2)] at_advance [of "ident_tok (register_name r)" rest] by simp
  have body: "parse_parts rec (acc @ [a]) q = rec (Parts (acc @ [AST_CAP r a])) ?q" for rec
    using at_peek [OF pk(2)] v
    by (simp add: parse_parts_def case_prod_unfold Let_def naming_follows_def pk(1) parse_naming_target_def)
  have "eventually (\<lambda>n. parse n (Parts acc) p = x) sequentially"
    if "eventually (\<lambda>n. parse n (Parts (acc @ [AST_CAP r a])) ?q = x) sequentially" for x
  proof -
    have "eventually (\<lambda>n. parse (Suc n) (Parts (acc @ [a])) q = x) sequentially"
      using that by eventually_elim (simp add: body)
    then have "eventually (\<lambda>n. parse n (Parts (acc @ [a])) q = x) sequentially"
      using eventually_sequentially_Suc [of "\<lambda>n. parse n (Parts (acc @ [a])) q = x"] by blast
    then show ?thesis by (rule q(3))
  qed
  then show "\<exists>q. at rest q \<and> same p q \<and> (\<forall>x. eventually (\<lambda>n. parse n (Parts (acc @ [AST_CAP r a])) q = x) sequentially \<longrightarrow>
      eventually (\<lambda>n. parse n (Parts acc) p = x) sequentially)"
    using q' q(2) by (intro exI [of _ ?q]) simp
qed

lemma parts_step:
  "eventually (\<lambda>n. parse_parts (parse n) acc p = x) sequentially \<Longrightarrow> eventually (\<lambda>n. parse n (Parts acc) p = x) sequentially"
  using eventually_sequentially_Suc [of "\<lambda>n. parse n (Parts acc) p = x"] by simp

lemma part_atD:
  assumes "part_at ts rest a" "at (ts @ rest) p"
  obtains q where "at rest q" "same p q"
    "\<And>x. eventually (\<lambda>n. parse n (Parts (acc @ [a])) q = x) sequentially \<Longrightarrow>
        eventually (\<lambda>n. parse n (Parts acc) p = x) sequentially"
  using assms unfolding part_at_def by blast

lemma parts_list:
  assumes "\<And>pre a post. as = pre @ a # post \<Longrightarrow> part_at (f a) (concat (map f post) @ rest) a"
    "at (concat (map f as) @ rest) p"
  shows "\<exists>q. at rest q \<and> same p q \<and> (\<forall>x. eventually (\<lambda>n. parse n (Parts (acc @ as)) q = x) sequentially \<longrightarrow>
     eventually (\<lambda>n. parse n (Parts acc) p = x) sequentially)"
  using assms
proof (induction as arbitrary: acc p)
  case Nil
  then show ?case by (intro exI [of _ p]) simp
next
  case (Cons a as)
  have "part_at (f a) (concat (map f as) @ rest) a" using Cons.prems(1) [of "[]" a as] by simp
  then obtain q1 where q1: "at (concat (map f as) @ rest) q1" "same p q1"
    "\<And>x. eventually (\<lambda>n. parse n (Parts (acc @ [a])) q1 = x) sequentially \<Longrightarrow>
        eventually (\<lambda>n. parse n (Parts acc) p = x) sequentially"
    using Cons.prems(2) by (elim part_atD [where p = p and acc = acc]) auto
  have "\<exists>q. at rest q \<and> same q1 q \<and> (\<forall>x. eventually (\<lambda>n. parse n (Parts ((acc @ [a]) @ as)) q = x) sequentially \<longrightarrow>
     eventually (\<lambda>n. parse n (Parts (acc @ [a])) q1 = x) sequentially)"
  proof (rule Cons.IH [OF _ q1(1)])
    show "part_at (f b) (concat (map f post) @ rest) b" if "as = pre @ b # post" for pre b post
      using Cons.prems(1) [of "a # pre" b post] that by simp
  qed
  then obtain q2 where q2: "at rest q2" "same q1 q2"
    "\<And>x. eventually (\<lambda>n. parse n (Parts (acc @ a # as)) q2 = x) sequentially \<Longrightarrow>
        eventually (\<lambda>n. parse n (Parts (acc @ [a])) q1 = x) sequentially"
    by auto
  then show ?case using q1 same_trans [OF q1(2) q2(2)] by (intro exI [of _ q2]) blast
qed

text \<open>Where the parts end.\<close>

lemma parts_end:
  assumes "at rest q" "starts rest after_parts" "acc \<noteq> []"
  shows "eventually (\<lambda>n. parse n (Parts acc) q = Parsed (if length acc = 1 then hd acc else AST_CONCAT acc) (snd (peek q))) sequentially"
proof (rule parts_step)
  obtain u us where u: "rest = u # us" "tok_type u \<in> after_parts" using startsE [OF assms(2)] by blast
  have pk: "fst (peek q) = u" using at_peek [of u us q] assms(1) u by simp
  have st: "\<not> starts_primary u" "tok_type u \<noteq> TOKEN_DOT" "tok_type u \<noteq> TOKEN_ANCHOR_END" "tok_type u \<noteq> TOKEN_IDENT"
    using u(2) by (auto simp: after_parts_def starts_primary_def)
  have "parse_parts rec acc q = Parsed (if length acc = 1 then hd acc else AST_CONCAT acc) (snd (peek q))" for rec
    using assms(3) st by (simp add: parse_parts_def case_prod_unfold Let_def naming_follows_def pk look_behind_ident_def)
  then show "eventually (\<lambda>n. parse_parts (parse n) acc q = Parsed (if length acc = 1 then hd acc else AST_CONCAT acc) (snd (peek q))) sequentially"
    by simp
qed

definition conc_at :: "token list \<Rightarrow> token list \<Rightarrow> ast \<Rightarrow> bool" where
  "conc_at ts rest a \<longleftrightarrow> (\<forall>p. at (ts @ rest) p \<longrightarrow> runs p rest a (\<lambda>n. parse n (Parts []) p))"

lemma at_peek_rest: "at rest q \<Longrightarrow> at rest (snd (peek q))"
  using at_peek stream_not_Nil by (metis at_def list.exhaust)

lemma conc_parts:
  assumes "\<And>pre a post. as = pre @ a # post \<Longrightarrow> part_at (f a) (concat (map f post) @ rest) a"
    "starts rest after_parts" "as \<noteq> []"
  shows "conc_at (concat (map f as)) rest (if length as = 1 then hd as else AST_CONCAT as)"
  unfolding conc_at_def
proof (intro allI impI)
  fix p assume a: "at (concat (map f as) @ rest) p"
  have "\<exists>q. at rest q \<and> same p q \<and> (\<forall>x. eventually (\<lambda>n. parse n (Parts ([] @ as)) q = x) sequentially \<longrightarrow>
     eventually (\<lambda>n. parse n (Parts []) p = x) sequentially)"
    by (rule parts_list [OF _ a]) (rule assms(1))
  then obtain q where q: "at rest q" "same p q"
    "\<And>x. eventually (\<lambda>n. parse n (Parts as) q = x) sequentially \<Longrightarrow> eventually (\<lambda>n. parse n (Parts []) p = x) sequentially"
    by auto
  show "runs p rest (if length as = 1 then hd as else AST_CONCAT as) (\<lambda>n. parse n (Parts []) p)"
    unfolding runs_def
    using q(3) [OF parts_end [OF q(1) assms(2,3)]] at_peek_rest [OF q(1)] q(2)
    by (intro exI [of _ "snd (peek q)"]) simp
qed

lemma conc_part:
  assumes "part_at ts rest a" "starts rest after_parts"
  shows "conc_at ts rest a"
  using conc_parts [of "[a]" "\<lambda>_. ts" rest] assms by (simp add: Cons_eq_append_conv)

text \<open>An alternation so far: the loop goes on with it.\<close>

definition alt_at :: "token list \<Rightarrow> token list \<Rightarrow> ast \<Rightarrow> bool" where
  "alt_at ts rest a \<longleftrightarrow> (\<forall>p. at (ts @ rest) p \<longrightarrow> (\<exists>q. at rest q \<and> same p q \<and>
     (\<forall>x. eventually (\<lambda>n. parse n (Alternatives a) q = x) sequentially \<longrightarrow>
          eventually (\<lambda>n. parse n Alternation p = x) sequentially)))"

lemma alternation_step:
  "eventually (\<lambda>n. parse_call (parse n) c p = x) sequentially \<Longrightarrow> eventually (\<lambda>n. parse n c p = x) sequentially"
  using eventually_sequentially_Suc [of "\<lambda>n. parse n c p = x"] by simp

lemma alt_conc:
  assumes "conc_at ts rest a"
  shows "alt_at ts rest a"
  unfolding alt_at_def
proof (intro allI impI)
  fix p assume "at (ts @ rest) p"
  then obtain q where q: "at rest q" "same p q" "eventually (\<lambda>n. parse n (Parts []) p = Parsed a q) sequentially"
    using assms by (auto simp: conc_at_def runs_def)
  have "eventually (\<lambda>n. parse n Alternation p = x) sequentially"
    if e: "eventually (\<lambda>n. parse n (Alternatives a) q = x) sequentially" for x
  proof (rule alternation_step)
    show "eventually (\<lambda>n. parse_call (parse n) Alternation p = x) sequentially"
      using q(3) e by eventually_elim (simp add: parse_alternation_def parse_concatenation_def)
  qed
  then show "\<exists>q. at rest q \<and> same p q \<and> (\<forall>x. eventually (\<lambda>n. parse n (Alternatives a) q = x) sequentially \<longrightarrow>
      eventually (\<lambda>n. parse n Alternation p = x) sequentially)"
    using q by blast
qed

lemma alt_pipe:
  assumes "alt_at ls (make_token TOKEN_PIPE # rs @ rest) l" "conc_at rs rest r"
  shows "alt_at (ls @ make_token TOKEN_PIPE # rs) rest (AST_ALT l r)"
  unfolding alt_at_def
proof (intro allI impI)
  fix p assume "at ((ls @ make_token TOKEN_PIPE # rs) @ rest) p"
  then have "at (ls @ make_token TOKEN_PIPE # rs @ rest) p" by simp
  then obtain q1 where q1: "at (make_token TOKEN_PIPE # rs @ rest) q1" "same p q1"
    "\<And>x. eventually (\<lambda>n. parse n (Alternatives l) q1 = x) sequentially \<Longrightarrow> eventually (\<lambda>n. parse n Alternation p = x) sequentially"
    using assms(1) unfolding alt_at_def by blast
  let ?q = "advance (snd (peek q1))"
  have pk: "fst (peek q1) = make_token TOKEN_PIPE" "at (rs @ rest) ?q"
    using at_peek [OF q1(1)] at_advance [of "make_token TOKEN_PIPE" "rs @ rest" "snd (peek q1)"] by simp_all
  obtain q2 where q2: "at rest q2" "same ?q q2" "eventually (\<lambda>n. parse n (Parts []) ?q = Parsed r q2) sequentially"
    using assms(2) pk(2) by (auto simp: conc_at_def runs_def)
  have "eventually (\<lambda>n. parse n (Alternatives l) q1 = x) sequentially"
    if e: "eventually (\<lambda>n. parse n (Alternatives (AST_ALT l r)) q2 = x) sequentially" for x
  proof (rule alternation_step)
    show "eventually (\<lambda>n. parse_call (parse n) (Alternatives l) q1 = x) sequentially"
      using q2(3) e
      by eventually_elim (simp add: parse_alternatives_def parse_concatenation_def case_prod_unfold Let_def pk(1))
  qed
  moreover have "same p q2" using q1(2) q2(2) by (auto simp: same_def advance_def peek_def case_prod_unfold Let_def)
  ultimately show "\<exists>q. at rest q \<and> same p q \<and> (\<forall>x. eventually (\<lambda>n. parse n (Alternatives (AST_ALT l r)) q = x) sequentially \<longrightarrow>
      eventually (\<lambda>n. parse n Alternation p = x) sequentially)"
    using q1(3) q2(1) by blast
qed

lemma alternation_alt:
  assumes "alt_at ts rest a" "starts rest (- {TOKEN_PIPE})"
  shows "alternation_at ts rest a"
  unfolding alternation_at_def
proof (intro allI impI)
  fix p assume "at (ts @ rest) p"
  then obtain q where q: "at rest q" "same p q"
    "\<And>x. eventually (\<lambda>n. parse n (Alternatives a) q = x) sequentially \<Longrightarrow> eventually (\<lambda>n. parse n Alternation p = x) sequentially"
    using assms(1) unfolding alt_at_def by blast
  obtain u us where u: "rest = u # us" "tok_type u \<noteq> TOKEN_PIPE" using startsE [OF assms(2)] by blast
  have "parse_alternatives rec a q = Parsed a (snd (peek q))" for rec
    using at_peek [of u us q] q(1) u by (simp add: parse_alternatives_def case_prod_unfold Let_def)
  then have "eventually (\<lambda>n. parse n (Alternatives a) q = Parsed a (snd (peek q))) sequentially"
    by (intro alternation_step) simp
  from q(3) [OF this] show "runs p rest a (\<lambda>n. parse n Alternation p)"
    using at_peek_rest [OF q(1)] q(2) unfolding runs_def by (intro exI [of _ "snd (peek q)"]) simp
qed

section \<open>What was written is parsed\<close>

definition primary_ok :: "token list \<Rightarrow> ast \<Rightarrow> bool" where
  "primary_ok ts a \<longleftrightarrow> (\<forall>rest. starts rest (- {TOKEN_EQUALS}) \<longrightarrow> primary_at ts rest a)"

definition repetition_ok :: "token list \<Rightarrow> ast \<Rightarrow> bool" where
  "repetition_ok ts a \<longleftrightarrow> (\<forall>rest. starts rest after_repetition \<longrightarrow> repetition_at ts rest a)"

definition part_ok :: "token list \<Rightarrow> ast \<Rightarrow> bool" where
  "part_ok ts a \<longleftrightarrow> (\<forall>rest. starts rest after_repetition \<longrightarrow> part_at ts rest a)"

definition conc_ok :: "token list \<Rightarrow> ast \<Rightarrow> bool" where
  "conc_ok ts a \<longleftrightarrow> (\<forall>rest. starts rest after_parts \<longrightarrow> conc_at ts rest a)"

definition alt_ok :: "token list \<Rightarrow> ast \<Rightarrow> bool" where
  "alt_ok ts a \<longleftrightarrow> (\<forall>rest. starts rest after_parts \<longrightarrow> alt_at ts rest a)"

lemma level_up:
  "primary_ok ts a \<Longrightarrow> repetition_ok ts a"
  "repetition_ok ts a \<Longrightarrow> starts ts part_start \<Longrightarrow> part_ok ts a"
  "part_ok ts a \<Longrightarrow> conc_ok ts a"
  "conc_ok ts a \<Longrightarrow> alt_ok ts a"
  "alt_ok ts a \<Longrightarrow> primary_ok (paren_toks ts) a"
proof -
  have m: "after_repetition \<subseteq> - {TOKEN_EQUALS}" "after_parts \<subseteq> after_repetition"
    "{TOKEN_RPAREN} \<subseteq> after_parts" by (auto simp: after_repetition_def after_parts_def)
  show "primary_ok ts a \<Longrightarrow> repetition_ok ts a"
    using m(1) by (auto simp: primary_ok_def repetition_ok_def intro!: repetition_plain intro: starts_mono)
  show "repetition_ok ts a \<Longrightarrow> starts ts part_start \<Longrightarrow> part_ok ts a"
    by (auto simp: part_ok_def repetition_ok_def intro!: part_plain)
  show "part_ok ts a \<Longrightarrow> conc_ok ts a"
    using m(2) by (auto simp: part_ok_def conc_ok_def intro!: conc_part intro: starts_mono)
  show "conc_ok ts a \<Longrightarrow> alt_ok ts a" by (auto simp: conc_ok_def alt_ok_def intro!: alt_conc)
  show "alt_ok ts a \<Longrightarrow> primary_ok (paren_toks ts) a"
    using m(3) by (auto simp: alt_ok_def primary_ok_def intro!: primary_paren alternation_alt)
qed

text \<open>All levels at once; the tokens at a level are the plain ones, or in parentheses.\<close>

definition shown :: "ast \<Rightarrow> bool" where
  "shown a \<longleftrightarrow> primary_ok (show_at 4 a) a \<and> repetition_ok (show_at 3 a) a \<and> part_ok (show_at 2 a) a \<and>
     conc_ok (show_at 1 a) a \<and> alt_ok (show_at 0 a) a \<and> starts (show_at 1 a) part_start \<and>
     starts (show_at 0 a) (insert TOKEN_ANCHOR_END part_start)"

definition raw_ok :: "ast \<Rightarrow> bool" where
  "raw_ok a \<longleftrightarrow>
     (level a = 0 \<longrightarrow> alt_ok (raw a) a) \<and> (level a = 1 \<longrightarrow> conc_ok (raw a) a) \<and>
     (level a = 2 \<longrightarrow> part_ok (raw a) a) \<and> (level a = 3 \<longrightarrow> repetition_ok (raw a) a) \<and>
     (level a = 4 \<longrightarrow> primary_ok (raw a) a) \<and>
     starts (raw a) (if level a = 0 then insert TOKEN_ANCHOR_END part_start else part_start)"

lemma level_le: "level a \<le> 4"
  by (cases a rule: level.cases) simp_all

lemma paren_start [simp]: "starts (paren_toks ts) S \<longleftrightarrow> TOKEN_LPAREN \<in> S"
  by (simp add: paren_toks_def)

lemma shown_raw:
  assumes "raw_ok a"
  shows "shown a"
proof -
  have st: "TOKEN_LPAREN \<in> part_start" by (simp add: part_start_def)
  have par: "primary_ok (paren_toks (raw a)) a \<and> repetition_ok (paren_toks (raw a)) a \<and> part_ok (paren_toks (raw a)) a \<and>
      conc_ok (paren_toks (raw a)) a \<and> alt_ok (paren_toks (raw a)) a" if "alt_ok (raw a) a"
    using level_up that st paren_start by metis
  have pst: "starts (raw a) (insert TOKEN_ANCHOR_END part_start)" "level a \<noteq> 0 \<Longrightarrow> starts (raw a) part_start"
    using assms by (auto simp: raw_ok_def split: if_splits intro: starts_mono)
  consider "level a = 0" | "level a = 1" | "level a = 2" | "level a = 3" | "level a = 4" using level_le [of a] by linarith
  then have all: "alt_ok (raw a) a \<and> (1 \<le> level a \<longrightarrow> conc_ok (raw a) a) \<and> (2 \<le> level a \<longrightarrow> part_ok (raw a) a) \<and>
      (3 \<le> level a \<longrightarrow> repetition_ok (raw a) a) \<and> (4 \<le> level a \<longrightarrow> primary_ok (raw a) a)"
    by cases (use assms level_up(1-4) [of "raw a" a] pst(2) in \<open>simp_all add: raw_ok_def\<close>)
  have sh: "show_at k a = (if k \<le> level a then raw a else paren_toks (raw a))" for k
    by (simp add: show_at_def enclose_def)
  show ?thesis unfolding shown_def sh using all par st pst by (cases "level a = 0") simp_all
qed

text \<open>The cases of single calls.\<close>

lemma call_ok:
  assumes "raw a = call_toks f args" "level a = 4"
    "\<And>q rest. at (args @ make_token TOKEN_RPAREN # rest) q \<Longrightarrow> runs q rest a (\<lambda>n. parse_builtin (parse n) (ascii f) q)"
  shows "raw_ok a"
  using assms(1,2) primary_call [of args _ a f] assms(3)
  by (simp add: raw_ok_def primary_ok_def call_toks_def part_start_def)

lemmas builtin_simps = parse_builtin_def named_def ascii_def

lemma set_ok: "raw_ok (AST_SPAN s)" "raw_ok (AST_BREAK s)" "raw_ok (AST_BREAKX s)" "raw_ok (AST_NOTANY s)"
  "raw_ok (AST_ANY None)" "raw_ok (AST_ANY (Some s))"
  by (rule call_ok, rule raw.simps, simp, simp add: builtin_simps runs_set_arg runs_any_call)+

lemma int_ok: "int32_ok v \<Longrightarrow> raw_ok (AST_LEN v)" "int32_ok v \<Longrightarrow> raw_ok (AST_POS v)" "int32_ok v \<Longrightarrow> raw_ok (AST_TAB v)"
  "int32_ok v \<Longrightarrow> raw_ok (AST_RPOS v)" "int32_ok v \<Longrightarrow> raw_ok (AST_RTAB v)"
  by (rule call_ok, rule raw.simps, simp, simp add: builtin_simps runs_int_call)+

lemma empty_ok: "raw_ok AST_FENCE" "raw_ok AST_REM" "raw_ok AST_ABORT" "raw_ok AST_FAIL" "raw_ok AST_SUCCEED"
  by (rule call_ok, rule raw.simps, simp, simp add: builtin_simps runs_no_args runs_empty_call)+

lemma emit_ok: "raw_ok (AST_EMIT (Some s) (- 1))" "reg_ok r \<Longrightarrow> raw_ok (AST_EMIT None r)"
  by (rule call_ok, rule raw.simps, simp, simp add: builtin_simps runs_emit)+

lemma bal_ok: "valid_cp oc \<Longrightarrow> valid_cp cc \<Longrightarrow> raw_ok (AST_BAL oc cc)"
  by (rule call_ok, rule raw.simps, simp, simp add: builtin_simps runs_bal_call)

lemma simple_ok: "raw_ok (AST_LITERAL s)" "raw_ok (AST_ANCHOR ANCHOR_START)"
proof -
  have "primary_at [lit_tok s] rest (AST_LITERAL s)" for rest
    unfolding primary_at_def parse_primary_def Let_def
    by (intro allI impI, rule runs_peek, simp, simp) (simp add: runs_done)
  then show "raw_ok (AST_LITERAL s)" by (simp add: raw_ok_def primary_ok_def part_start_def)
  have "primary_at [make_token TOKEN_ANCHOR_START] rest (AST_ANCHOR ANCHOR_START)" for rest
    unfolding primary_at_def parse_primary_def Let_def
    by (intro allI impI, rule runs_peek, simp, simp) (simp add: runs_done)
  then show "raw_ok (AST_ANCHOR ANCHOR_START)" by (simp add: raw_ok_def primary_ok_def part_start_def)
qed

lemma anchor_end_ok: "raw_ok (AST_ANCHOR ANCHOR_END)"
proof -
  have "conc_at [make_token TOKEN_ANCHOR_END] rest (AST_ANCHOR ANCHOR_END)" if r: "starts rest after_parts" for rest
    unfolding conc_at_def
  proof (intro allI impI)
    fix p assume "at ([make_token TOKEN_ANCHOR_END] @ rest) p"
    then have a: "at (make_token TOKEN_ANCHOR_END # rest) p" by simp
    obtain u us where u: "rest = u # us" "tok_type u \<in> after_parts" using startsE [OF r] by blast
    have prim: "primary_at [make_token TOKEN_ANCHOR_END] rest (AST_ANCHOR ANCHOR_END)"
      unfolding primary_at_def parse_primary_def Let_def u(1)
      by (intro allI impI, rule runs_peek, simp, simp, simp, rule runs_peek, erule at_advance, simp, simp)
        (use u(2) in \<open>auto simp: after_parts_def intro: runs_Parsed\<close>)
    have "starts rest after_repetition" using r by (rule starts_mono) (auto simp: after_parts_def after_repetition_def)
    from repetition_plain [OF prim this] obtain q where q: "at rest q" "same p q"
      "eventually (\<lambda>n. parse_repetition (parse n) (snd (peek p)) = Parsed (AST_ANCHOR ANCHOR_END) q) sequentially"
      using at_peek [OF a] by (auto simp: repetition_at_def runs_def same_def peek_def case_prod_unfold Let_def)
    have body: "parse_parts rec [] p = pbind (parse_repetition rec (snd (peek p))) (\<lambda>part. rec (Parts [part]))" for rec
      using at_peek [OF a] by (simp add: parse_parts_def case_prod_unfold Let_def starts_primary_def look_behind_ident_def)
    have "eventually (\<lambda>n. parse n (Parts []) p = Parsed (AST_ANCHOR ANCHOR_END) (snd (peek q))) sequentially"
    proof (rule parts_step)
      show "eventually (\<lambda>n. parse_parts (parse n) [] p = Parsed (AST_ANCHOR ANCHOR_END) (snd (peek q))) sequentially"
        using q(3) parts_end [OF q(1) r, of "[AST_ANCHOR ANCHOR_END]", simplified] by eventually_elim (simp add: body)
    qed
    then show "runs p rest (AST_ANCHOR ANCHOR_END) (\<lambda>n. parse n (Parts []) p)"
      using at_peek_rest [OF q(1)] q(2) unfolding runs_def by (intro exI [of _ "snd (peek q)"]) simp
  qed
  then have "conc_ok [make_token TOKEN_ANCHOR_END] (AST_ANCHOR ANCHOR_END)" by (simp add: conc_ok_def)
  then show ?thesis by (simp add: raw_ok_def level_up(4))
qed

lemma concat_ok:
  assumes "2 \<le> length parts" "\<And>a. a \<in> set parts \<Longrightarrow> shown a"
  shows "raw_ok (AST_CONCAT parts)"
proof -
  have st: "starts (show_at 2 a) part_start" if "a \<in> set parts" for a
    using assms(2) [OF that] by (auto simp: shown_def show_at_def enclose_def part_start_def split: if_splits)
  have "conc_at (raw (AST_CONCAT parts)) rest (AST_CONCAT parts)" if r: "starts rest after_parts" for rest
  proof -
    have "part_at (show_at 2 a) (concat (map (show_at 2) post) @ rest) a" if p: "parts = pre @ a # post" for pre a post
    proof -
      have "starts (concat (map (show_at 2) post) @ rest) after_repetition"
      proof (cases post)
        case Nil
        then show ?thesis using r by (auto simp: after_parts_def after_repetition_def intro: starts_mono)
      next
        case (Cons b bs)
        then have "starts (show_at 2 b) after_repetition"
          using st [of b] p by (auto simp: part_start_def after_repetition_def intro: starts_mono)
        then show ?thesis using Cons by simp
      qed
      then show ?thesis using assms(2) [of a] p by (simp add: shown_def part_ok_def)
    qed
    note all = this
    have "parts \<noteq> []" "length parts \<noteq> 1" using assms(1) by auto
    moreover have "raw (AST_CONCAT parts) = concat (map (show_at 2) parts)"
      by (simp add: show_at_def [abs_def])
    moreover have "conc_at (concat (map (show_at 2) parts)) rest (if length parts = 1 then hd parts else AST_CONCAT parts)"
      by (rule conc_parts [OF _ r]) (simp_all add: all \<open>parts \<noteq> []\<close>)
    ultimately show ?thesis by simp
  qed
  moreover have "starts (raw (AST_CONCAT parts)) part_start"
    using assms(1) st by (cases parts) (simp_all add: show_at_def)
  ultimately show ?thesis by (simp add: raw_ok_def conc_ok_def)
qed

lemma shown_all: "printable a \<Longrightarrow> shown a"
proof (induction a rule: raw.induct)
  case (2 parts)
  show ?case by (rule shown_raw, rule concat_ok) (use 2 in simp_all)
next
  case (3 l r)
  then have l: "alt_ok (show_at 0 l) l" "starts (show_at 0 l) (insert TOKEN_ANCHOR_END part_start)"
    and r: "conc_ok (show_at 1 r) r" by (simp_all add: shown_def)
  have "alt_at (show_at 0 l @ make_token TOKEN_PIPE # show_at 1 r) rest (AST_ALT l r)" if "starts rest after_parts" for rest
    using l r that by (intro alt_pipe) (simp_all add: alt_ok_def conc_ok_def after_parts_def)
  then show ?case using l by (intro shown_raw) (simp add: raw_ok_def alt_ok_def show_at_def)
next
  case (4 a lo hi)
  then have a: "repetition_ok (show_at 3 a) a" "starts (show_at 1 a) part_start" by (simp_all add: shown_def)
  have "starts (show_at 3 a) (- {TOKEN_RPAREN})"
    using a(2) by (auto simp: show_at_def enclose_def part_start_def split: if_splits intro: starts_mono)
  then have "primary_at (call_toks ''repeat'' (show_at 3 a @ [make_token TOKEN_COMMA, integer_token lo, make_token TOKEN_COMMA, integer_token hi]))
      rest (AST_REPETITION a lo hi)" for rest
    using a(1) 4(2) by (intro primary_repeat) (simp_all add: repetition_ok_def after_repetition_def)
  then show ?case by (intro shown_raw) (simp add: raw_ok_def primary_ok_def show_at_def call_toks_def part_start_def)
next
  case (10 a)
  then have "primary_ok (show_at 4 a) a" "starts (show_at 1 a) part_start" by (simp_all add: shown_def)
  moreover from this have "starts (show_at 4 a) part_start"
    by (auto simp: show_at_def enclose_def part_start_def split: if_splits)
  ultimately show ?case
    by (intro shown_raw) (simp add: raw_ok_def repetition_ok_def primary_ok_def repetition_star show_at_def)
next
  case (11 r a)
  then have "part_ok (show_at 2 a) a" "starts (show_at 1 a) part_start" by (simp_all add: shown_def)
  moreover from this have "starts (show_at 2 a) part_start"
    by (auto simp: show_at_def enclose_def part_start_def split: if_splits)
  ultimately show ?case using 11(2)
    by (intro shown_raw) (simp add: raw_ok_def part_ok_def part_name show_at_def after_repetition_def)
next
  case (12 v r)
  then show ?case using primary_assign [of v r]
    by (intro shown_raw) (simp add: raw_ok_def primary_ok_def part_start_def)
next
  case (14 a)
  then have "alt_ok (show_at 0 a) a" by (simp add: shown_def)
  then have "alternation_at (show_at 0 a) (make_token TOKEN_RPAREN # rest) a" for rest
    by (intro alternation_alt) (simp_all add: alt_ok_def after_parts_def)
  then show ?case using primary_eval
    by (intro shown_raw) (simp add: raw_ok_def primary_ok_def show_at_def call_toks_def part_start_def)
next
  case (19 t k)
  have "starts (key_toks t k) part_start" by (simp add: key_toks_def part_start_def)
  with 19 show ?case by (intro shown_raw) (simp add: raw_ok_def primary_ok_def primary_access)
next
  case (20 t k a)
  then have a: "repetition_ok (show_at 3 a) a" "starts (show_at 1 a) part_start" by (simp_all add: shown_def)
  have st: "starts (show_at 3 a) (- {TOKEN_EOF})"
    using a(2) by (auto simp: show_at_def enclose_def part_start_def split: if_splits intro: starts_mono)
  have "repetition_at (key_toks t k @ make_token TOKEN_EQUALS # show_at 3 a) rest (AST_TABLE_UPDATE t k a)"
    if "starts rest after_repetition" for rest
    using that a(1) st 20(2) by (intro repetition_plain, intro primary_update) (simp_all add: repetition_ok_def)
  moreover have "starts (key_toks t k) part_start" by (simp add: key_toks_def part_start_def)
  ultimately show ?case by (intro shown_raw) (simp add: raw_ok_def repetition_ok_def show_at_def)
qed (auto intro!: shown_raw set_ok int_ok empty_ok emit_ok bal_ok simple_ok anchor_end_ok split: if_splits)

section \<open>The round trip\<close>

lemma raw_no_colon: "t \<in> set (raw a) \<Longrightarrow> tok_type t \<noteq> TOKEN_COLON"
  by (induction a arbitrary: t rule: raw.induct)
    (auto simp: call_toks_def paren_toks_def enclose_def key_toks_def integer_token_def split: if_splits ast.splits)

lemma show_no_colon: "t \<in> set (show_at k a) \<Longrightarrow> tok_type t \<noteq> TOKEN_COLON"
  using raw_no_colon [of t a] by (auto simp: show_at_def enclose_def paren_toks_def split: if_splits)

lemma runs_goto:
  assumes "alternation_at ts [make_token TOKEN_EOF] a" "at (ts @ [make_token TOKEN_EOF]) p"
  shows "runs p [make_token TOKEN_EOF] a (\<lambda>n. parse_goto (parse n) p)"
  unfolding parse_goto_def Let_def
proof (rule runs_pbind)
  show "runs p [make_token TOKEN_EOF] a (\<lambda>n. parse n Alternation p)" using assms by (simp add: alternation_at_def)
  show "runs p [make_token TOKEN_EOF] a
      (\<lambda>n. case peek q of (tok, q) \<Rightarrow>
        if tok_type tok \<noteq> TOKEN_COLON then Parsed a q
        else pbind (expect TOKEN_LPAREN (advance q)) (\<lambda>_ q. case peek q of (tok, q) \<Rightarrow>
          if tok_type tok \<noteq> TOKEN_IDENT then fail_with (Text (''Expected label name after ':('' @ [CHR 0x27])) q
          else pbind (expect TOKEN_RPAREN (advance q)) (\<lambda>_ q. Parsed (AST_CONCAT [a, AST_GOTO (tok_text tok)]) q)))"
    if "at [make_token TOKEN_EOF] q" "same p q" for q
    using that by (rule runs_peek) (simp add: runs_Parsed)
qed simp

lemma runs_statement:
  assumes "alternation_at ts [make_token TOKEN_EOF] a" "at (ts @ [make_token TOKEN_EOF]) p"
    "ts \<noteq> []" "\<And>t. t \<in> set ts \<Longrightarrow> tok_type t \<noteq> TOKEN_COLON"
  shows "runs p [make_token TOKEN_EOF] a (\<lambda>n. parse n Statement p)"
proof (rule runs_Suc)
  obtain t us where ts: "ts = t # us" using assms(3) by (cases ts) auto
  show "runs p [make_token TOKEN_EOF] a (\<lambda>n. parse_call (parse n) Statement p)"
    unfolding parse_call.simps parse_statement_def Let_def
  proof (rule runs_peek [of t "us @ [make_token TOKEN_EOF]"])
    fix q assume "at (t # us @ [make_token TOKEN_EOF]) q" and pq: "same p q"
    then have q: "at (ts @ [make_token TOKEN_EOF]) q" by (simp add: ts)
    have go: "runs p [make_token TOKEN_EOF] a (\<lambda>n. parse_goto (parse n) q)"
      using runs_goto [OF assms(1) q] pq by (rule runs_same)
    show "runs p [make_token TOKEN_EOF] a (\<lambda>n. if tok_type t = TOKEN_IDENT then
        case peek (advance q) of (nxt, q') \<Rightarrow>
          if tok_type nxt = TOKEN_COLON
          then if tok_text t \<in> set (seen_labels (advance q')) then fail_with (Duplicate_Label (tok_text t)) (advance q')
            else pbind (parse n Statement (advance q'\<lparr>seen_labels := seen_labels (advance q') @ [tok_text t]\<rparr>))
              (\<lambda>target p. Parsed (AST_LABEL (tok_text t) target) p)
          else parse_goto (parse n) (restore q' (save q))
        else parse_goto (parse n) q)"
    proof (cases "tok_type t = TOKEN_IDENT")
      case True
      then have "at (us @ [make_token TOKEN_EOF]) (advance q)"
        using q at_advance [of t "us @ [make_token TOKEN_EOF]" q] by (simp add: ts is_last_def)
      moreover obtain u vs where u: "us @ [make_token TOKEN_EOF] = u # vs" by (cases us) auto
      ultimately have "fst (peek (advance q)) = u" using at_peek by simp
      moreover have "tok_type u \<noteq> TOKEN_COLON" using u assms(4) ts by (cases us) auto
      ultimately show ?thesis using go True at_ok [OF q] by (simp add: case_prod_unfold)
    qed (simp add: go)
  qed (use assms(2) in \<open>simp_all add: ts\<close>)
qed

text \<open>
  C12: Written patterns are parsed back. A tree without labels and gotos, whose registers, repeat
  bounds and integers are those the parser accepts, is written as source text: its tokens with
  parentheses where the grammar needs them, a blank behind each. From this text, with any large enough
  bound on the depth of the calls, the parser returns the tree, with no error.
\<close>

theorem written_pattern_is_parsed:
  assumes "printable a" "writable False (show_at 0 a)"
  shows "\<exists>N. \<forall>n \<ge> N. \<exists>p. ps_error p = None \<and>
    snobol_parser_parse n (snobol_parser_create (snobol_lexer_create (write_tokens (show_at 0 a)))) = Parsed a p"
proof -
  let ?p = "snobol_parser_create (snobol_lexer_create (write_tokens (show_at 0 a)))"
  have p: "at (show_at 0 a @ [make_token TOKEN_EOF]) ?p"
    using stream_write [OF assms(2)] clean_write [OF assms(2)] by (simp add: at_def ok_def snobol_parser_create_def)
  have s: "alt_ok (show_at 0 a) a" "show_at 0 a \<noteq> []"
    using shown_all [OF assms(1)] by (auto simp: shown_def starts_def)
  then have "alternation_at (show_at 0 a) [make_token TOKEN_EOF] a"
    by (intro alternation_alt) (simp_all add: alt_ok_def after_parts_def)
  then have "runs ?p [make_token TOKEN_EOF] a (\<lambda>n. parse n Statement ?p)"
    using p s(2) show_no_colon by (rule runs_statement)
  then obtain q where q: "at [make_token TOKEN_EOF] q" "same ?p q"
    "eventually (\<lambda>n. parse n Statement ?p = Parsed a q) sequentially" by (auto simp: runs_def)
  have init: "?p\<lparr>ps_error := None, seen_labels := [], capture_reg_counter := 0, capture_names := []\<rparr> = ?p"
    by (simp add: snobol_parser_create_def)
  have err: "ps_error q = None" using q(2) by (simp add: same_def snobol_parser_create_def)
  have "trailing_check q = Parsed () (snd (peek q))"
    using at_peek [OF q(1)] by (simp add: trailing_check_def case_prod_unfold Let_def lexical_error_def)
  with q(3) err have "eventually (\<lambda>n. \<exists>p. ps_error p = None \<and> snobol_parser_parse n ?p = Parsed a p) sequentially"
    by (auto elim!: eventually_mono simp: snobol_parser_parse_def init peek_def case_prod_unfold Let_def)
  then show ?thesis by (simp add: eventually_sequentially)
qed

lemma written_pattern_is_parsed_witness:
  "\<exists>N. \<forall>n \<ge> N. \<exists>p. ps_error p = None \<and>
    snobol_parser_parse n (snobol_parser_create (snobol_lexer_create (write_tokens (show_at 0
      (AST_ALT (AST_CONCAT [AST_LITERAL [97], AST_ARBNO (AST_ALT (AST_LITERAL [98]) (AST_LEN 1))]) (AST_CAP 2 (AST_SPAN [99]))))))) =
    Parsed (AST_ALT (AST_CONCAT [AST_LITERAL [97], AST_ARBNO (AST_ALT (AST_LITERAL [98]) (AST_LEN 1))]) (AST_CAP 2 (AST_SPAN [99]))) p"
proof (rule written_pattern_is_parsed)
  show "printable (AST_ALT (AST_CONCAT [AST_LITERAL [97], AST_ARBNO (AST_ALT (AST_LITERAL [98]) (AST_LEN 1))]) (AST_CAP 2 (AST_SPAN [99])))"
    by code_simp
  show "writable False (show_at 0 (AST_ALT (AST_CONCAT [AST_LITERAL [97], AST_ARBNO (AST_ALT (AST_LITERAL [98]) (AST_LEN 1))])
      (AST_CAP 2 (AST_SPAN [99]))))"
    by code_simp
qed

end
