(* ===== verification/Compiler_Class.thy ===== *)
theory Compiler_Class
  imports Unicode_Fold Utf8_Cursor "HOL-Library.Multiset"
begin

text \<open>
  \<open>compiler_analysis.c\<close>, first half: the code buffer, and the registry of character classes. A class
  text is read into ranges of code points, which are sorted and merged; equal classes share a number.
  Memory allocation never fails in the model.
\<close>

section \<open>The code buffer\<close>

record code_buf =
  cb_data :: bytes
  cb_cap :: int

definition cb_init :: code_buf where
  "cb_init = \<lparr>cb_data = [], cb_cap = 4096\<rparr>"

definition cb_free :: "code_buf \<Rightarrow> code_buf" where
  "cb_free c = \<lparr>cb_data = [], cb_cap = 0\<rparr>"

function cb_grow :: "int \<Rightarrow> int \<Rightarrow> int" where
  "cb_grow need newcap = (if newcap < need \<and> 0 < newcap then cb_grow need (newcap * 2) else newcap)"
  by pat_completeness auto
termination
  by (relation "measure (\<lambda>(need, newcap). nat (need - newcap))") auto

declare cb_grow.simps [simp del]

definition cb_ensure :: "code_buf \<Rightarrow> nat \<Rightarrow> code_buf" where
  "cb_ensure c need =
     (if int (length (cb_data c)) + int need \<le> cb_cap c then c
      else c\<lparr>cb_cap := cb_grow (int (length (cb_data c)) + int need) (if cb_cap c \<noteq> 0 then cb_cap c * 2 else 4096)\<rparr>)"

definition cb_pos :: "code_buf \<Rightarrow> nat" where
  "cb_pos c = length (cb_data c)"

text \<open>Bytes behind the end of the data, which \<open>cb_ensure\<close> has made room for.\<close>

definition cb_put :: "code_buf \<Rightarrow> bytes \<Rightarrow> code_buf" where
  "cb_put c b = c\<lparr>cb_data := cb_data c @ b\<rparr>"

definition u16_bytes :: "u16 \<Rightarrow> bytes" where
  "u16_bytes v = [ucast (drop_bit 8 v AND 0xFF), ucast (v AND 0xFF)]"

definition u32_bytes :: "u32 \<Rightarrow> bytes" where
  "u32_bytes v =
     [ucast (drop_bit 24 v AND 0xFF), ucast (drop_bit 16 v AND 0xFF), ucast (drop_bit 8 v AND 0xFF), ucast (v AND 0xFF)]"

definition cb_emit_u8 :: "code_buf \<Rightarrow> u8 \<Rightarrow> code_buf" where
  "cb_emit_u8 c v = cb_put (cb_ensure c 1) [v]"

definition cb_emit_u16 :: "code_buf \<Rightarrow> u16 \<Rightarrow> code_buf" where
  "cb_emit_u16 c v = cb_put (cb_ensure c 2) (u16_bytes v)"

definition cb_emit_u32 :: "code_buf \<Rightarrow> u32 \<Rightarrow> code_buf" where
  "cb_emit_u32 c v = cb_put (cb_ensure c 4) (u32_bytes v)"

definition cb_emit_bytes :: "code_buf \<Rightarrow> bytes \<Rightarrow> code_buf" where
  "cb_emit_bytes c b = (if b = [] then c else cb_put (cb_ensure c (length b)) b)"

text \<open>The four stores that fill in an operand emitted before.\<close>

definition cb_patch_u32 :: "code_buf \<Rightarrow> nat \<Rightarrow> u32 \<Rightarrow> code_buf" where
  "cb_patch_u32 c i v =
     c\<lparr>cb_data := (cb_data c)[i := u32_bytes v ! 0, i + 1 := u32_bytes v ! 1, i + 2 := u32_bytes v ! 2, i + 3 := u32_bytes v ! 3]\<rparr>"

definition cb_wf :: "code_buf \<Rightarrow> bool" where
  "cb_wf c \<longleftrightarrow> int (length (cb_data c)) \<le> cb_cap c"

lemma cb_ensure_data [simp]: "cb_data (cb_ensure c n) = cb_data c"
  by (simp add: cb_ensure_def)

lemma length_u_bytes [simp]: "length (u16_bytes v) = 2" "length (u32_bytes w) = 4"
  by (simp_all add: u16_bytes_def u32_bytes_def)

lemma cb_data_simps [simp]:
  "cb_data cb_init = []"
  "cb_data (cb_emit_u8 c v) = cb_data c @ [v]"
  "cb_data (cb_emit_u16 c x) = cb_data c @ u16_bytes x"
  "cb_data (cb_emit_u32 c y) = cb_data c @ u32_bytes y"
  "cb_data (cb_emit_bytes c b) = cb_data c @ b"
  "length (cb_data (cb_patch_u32 c i y)) = length (cb_data c)"
  by (simp_all add: cb_init_def cb_emit_u8_def cb_emit_u16_def cb_emit_u32_def cb_emit_bytes_def cb_put_def cb_patch_u32_def)

lemma cb_grow_ge: "0 < n \<Longrightarrow> need \<le> cb_grow need n"
proof (induction need n rule: cb_grow.induct)
  case (1 need n)
  then show ?case by (subst cb_grow.simps) auto
qed

text \<open>No operation writes outside the allocated bytes.\<close>

lemma cb_ensure_room: "cb_wf c \<Longrightarrow> int (length (cb_data c)) + int n \<le> cb_cap (cb_ensure c n)"
  using cb_grow_ge [of "if cb_cap c \<noteq> 0 then cb_cap c * 2 else 4096" "int (length (cb_data c)) + int n"]
  by (auto simp: cb_ensure_def cb_wf_def)

lemma cb_wf_ops:
  "cb_wf cb_init" "cb_wf c \<Longrightarrow> cb_wf (cb_emit_u8 c v)" "cb_wf c \<Longrightarrow> cb_wf (cb_emit_u16 c x)"
  "cb_wf c \<Longrightarrow> cb_wf (cb_emit_u32 c y)" "cb_wf c \<Longrightarrow> cb_wf (cb_emit_bytes c b)" "cb_wf c \<Longrightarrow> cb_wf (cb_patch_u32 c i y)"
  using cb_ensure_room [of c 1] cb_ensure_room [of c 2] cb_ensure_room [of c 4] cb_ensure_room [of c "length b"]
  by (auto simp: cb_wf_def cb_init_def cb_emit_u8_def cb_emit_u16_def cb_emit_u32_def cb_emit_bytes_def cb_put_def cb_patch_u32_def)

section \<open>Ranges\<close>

type_synonym range = "u32 \<times> u32"

text \<open>
  \<open>add_range\<close> doubles a 16 bit capacity, which wraps to 0 at the range after 32768; then the code
  writes through a pointer to released memory. \<open>too_many\<close> is that case.
\<close>

definition add_range :: "range list \<Rightarrow> u32 \<Rightarrow> u32 \<Rightarrow> range list" where
  "add_range e start stop = e @ [(start, stop)]"

definition too_many :: "range list \<Rightarrow> bool" where
  "too_many e \<longleftrightarrow> 32768 < int (length e)"

text \<open>
  \<open>qsort\<close> by the first code point; it may leave ranges with the same start in any order, which
  does not matter for the result (lemma \<open>normalize_perm\<close>).
\<close>

fun merge_loop :: "range \<Rightarrow> range list \<Rightarrow> range list" where
  "merge_loop (start, stop) [] = [(start, stop)]"
| "merge_loop (start, stop) ((s, e) # rs) =
     (if s \<le> stop + 1 then merge_loop (start, if stop < e then e else stop) rs
      else (start, stop) # merge_loop (s, e) rs)"

definition normalize_ranges :: "range list \<Rightarrow> range list" where
  "normalize_ranges e = (case sort_key fst e of [] \<Rightarrow> [] | r # rs \<Rightarrow> merge_loop r rs)"

section \<open>Class texts\<close>

text \<open>The other case of a code point outside ASCII, as single ranges.\<close>

definition fold_cp :: "u32 \<Rightarrow> range list" where
  "fold_cp c =
     (let up = snobol_to_upper_cp c; lo = snobol_to_lower_cp c
      in (if hd up \<noteq> c then map (\<lambda>u. (u, u)) (take 2 up) else []) @ (if lo \<noteq> c then [(lo, lo)] else []))"

definition fold_range :: "u32 \<Rightarrow> u32 \<Rightarrow> range list" where
  "fold_range cp end_cp =
     (if 0x41 \<le> cp \<and> end_cp \<le> 0x5A then [(cp + 32, end_cp + 32)]
      else if 0x61 \<le> cp \<and> end_cp \<le> 0x7A then [(cp - 32, end_cp - 32)]
      else if 0x7F < end_cp then concat (map (\<lambda>c. fold_cp (of_nat c)) [unat cp..<Suc (unat end_cp)])
      else [])"

definition fold_single :: "u32 \<Rightarrow> range list" where
  "fold_single cp =
     (if 0x41 \<le> cp \<and> cp \<le> 0x5A then [(cp + 32, cp + 32)]
      else if 0x61 \<le> cp \<and> cp \<le> 0x7A then [(cp - 32, cp - 32)]
      else if 0x7F < cp then fold_cp cp else [])"

text \<open>The notation \<open>X-Y\<close> at a position: the end of the range and the bytes behind \<open>X\<close>.\<close>

definition range_ahead :: "bytes \<Rightarrow> nat \<Rightarrow> u32 \<Rightarrow> (u32 \<times> nat) option" where
  "range_ahead s pos cp =
     (case utf8_peek_next s pos of
        Some (dash_cp, dash_bytes) \<Rightarrow>
          (if dash_cp = 45
           then case utf8_peek_next s (pos + dash_bytes) of
                  Some (end_cp, end_bytes) \<Rightarrow> (if cp < end_cp then Some (end_cp, dash_bytes + end_bytes) else None)
                | None \<Rightarrow> None
           else None)
      | None \<Rightarrow> None)"

function class_loop :: "bool \<Rightarrow> bytes \<Rightarrow> nat \<Rightarrow> range list \<Rightarrow> range list" where
  "class_loop ci s pos e =
     (case utf8_peek_next s pos of
        None \<Rightarrow> e
      | Some (cp, cp_bytes) \<Rightarrow>
          (case range_ahead s (pos + cp_bytes) cp of
             Some (end_cp, behind) \<Rightarrow>
               class_loop ci s (pos + cp_bytes + behind) (add_range e cp end_cp @ (if ci then fold_range cp end_cp else []))
           | None \<Rightarrow>
               class_loop ci s (pos + cp_bytes) (add_range e cp cp @ (if ci then fold_single cp else []))))"
  by pat_completeness auto
termination
  by (relation "measure (\<lambda>(ci, s, pos, e). length s - pos)") (auto dest!: utf8_peek_next_bounds)

declare class_loop.simps [simp del]

section \<open>The registry\<close>

record cc_entry =
  cc_ranges :: "range list"
  cc_ci :: u16

text \<open>The number of the first entry equal to the new one, which is added when there is none.\<close>

fun find_entry_from :: "nat \<Rightarrow> cc_entry list \<Rightarrow> cc_entry \<Rightarrow> nat option" where
  "find_entry_from i [] ne = None"
| "find_entry_from i (e # es) ne = (if e = ne then Some i else find_entry_from (i + 1) es ne)"

definition register_class :: "cc_entry list \<Rightarrow> cc_entry \<Rightarrow> nat \<times> cc_entry list" where
  "register_class es ne =
     (case find_entry_from 1 es ne of
        Some i \<Rightarrow> (i, es)
      | None \<Rightarrow> (length es + 1, es @ [ne]))"

text \<open>\<open>None\<close> is the write to released memory.\<close>

definition add_or_get_charclass :: "bool \<Rightarrow> cc_entry list \<Rightarrow> bytes \<Rightarrow> (nat \<times> cc_entry list) option" where
  "add_or_get_charclass ci es s =
     (let e = class_loop ci s 0 []
      in if too_many e then None
         else Some (register_class es \<lparr>cc_ranges = normalize_ranges e, cc_ci = (if ci then 1 else 0)\<rparr>))"

definition get_cc_entry :: "cc_entry list \<Rightarrow> nat \<Rightarrow> cc_entry option" where
  "get_cc_entry es i = (if 1 \<le> i \<and> i \<le> length es then Some (es ! (i - 1)) else None)"

section \<open>Normal forms\<close>

definition range_set :: "range \<Rightarrow> u32 set" where
  "range_set r = {fst r..snd r}"

definition ranges_set :: "range list \<Rightarrow> u32 set" where
  "ranges_set rs = (\<Union>r \<in> set rs. range_set r)"

definition proper :: "range \<Rightarrow> bool" where
  "proper r \<longleftrightarrow> fst r \<le> snd r \<and> snd r \<noteq> - 1"

text \<open>Sorted, and no two ranges touch.\<close>

fun canonical :: "range list \<Rightarrow> bool" where
  "canonical [] = True"
| "canonical [r] = proper r"
| "canonical (r # q # rs) = (proper r \<and> snd r + 1 < fst q \<and> canonical (q # rs))"

lemma ranges_set_simps [simp]:
  "ranges_set [] = {}" "ranges_set (r # rs) = range_set r \<union> ranges_set rs"
  "ranges_set (rs @ qs) = ranges_set rs \<union> ranges_set qs"
  by (auto simp: ranges_set_def)

lemma less_plus_one: "(e :: u32) \<noteq> - 1 \<Longrightarrow> c < e + 1 \<longleftrightarrow> c \<le> e"
proof -
  assume "e \<noteq> - 1"
  then have "e + 1 \<noteq> 0" by (metis add_eq_0_iff2)
  moreover have "unat (e + 1) = (unat e + 1) mod 2 ^ 32" by (simp add: unat_word_ariths)
  moreover have "unat e < 2 ^ LENGTH(32)" by (rule unsigned_less)
  ultimately have "unat (e + 1) = unat e + 1" 
    by (cases "unat e + 1 = 2 ^ 32") (simp_all add: unat_eq_zero)
  then show ?thesis by (auto simp: word_less_nat_alt word_le_nat_alt)
qed

lemma merge_loop_spec:
  assumes "proper r" "list_all proper rs" "sorted (map fst (r # rs))"
  shows "canonical (merge_loop r rs) \<and> ranges_set (merge_loop r rs) = ranges_set (r # rs) \<and>
    merge_loop r rs \<noteq> [] \<and> fst (hd (merge_loop r rs)) = fst r"
  using assms
proof (induction r rs rule: merge_loop.induct)
  case (1 start stop)
  then show ?case by simp
next
  case (2 start stop s e rs)
  show ?case
  proof (cases "s \<le> stop + 1")
    case True
    let ?stop = "if stop < e then e else stop"
    have p: "proper (start, ?stop)" using 2(3,4) by (auto simp: proper_def)
    have "range_set (start, stop) \<union> range_set (s, e) = range_set (start, ?stop)"
      using True 2(3,4,5) less_plus_one [of stop] by (auto simp: range_set_def proper_def not_less) (metis linorder_not_less order_less_le_trans)+
    then show ?thesis
      using 2(1) [OF True p] 2(4,5) True by auto
  next
    case False
    have "canonical ((start, stop) # merge_loop (s, e) rs)"
      using 2(2) [OF False] 2(3,4,5) False by (cases "merge_loop (s, e) rs") auto
    then show ?thesis using 2(2) [OF False] 2(4,5) False by auto
  qed
qed

lemma normalize_spec:
  assumes "list_all proper rs"
  shows "canonical (normalize_ranges rs) \<and> ranges_set (normalize_ranges rs) = ranges_set rs"
proof (cases "sort_key fst rs")
  case Nil
  then have "rs = []" by (metis set_empty set_sort)
  then show ?thesis by (simp add: normalize_ranges_def)
next
  case (Cons r qs)
  have set: "set rs = set (r # qs)" using Cons by (metis set_sort)
  have "ranges_set rs = ranges_set (r # qs)" unfolding ranges_set_def set ..
  moreover have "proper r" "list_all proper qs" using assms set by (simp_all add: list_all_iff)
  moreover have "sorted (map fst (r # qs))" using sorted_sort_key [of fst rs] Cons by simp
  ultimately show ?thesis using merge_loop_spec [of r qs] by (simp add: normalize_ranges_def Cons)
qed

lemma canonical_Cons: "canonical (r # rs) \<Longrightarrow> proper r \<and> canonical rs \<and> (\<forall>c \<in> ranges_set rs. snd r + 1 < c)"
proof (induction rs arbitrary: r)
  case (Cons q qs)
  then have q: "proper r" "snd r + 1 < fst q" "canonical (q # qs)" by simp_all
  then have rest: "\<forall>c \<in> ranges_set qs. snd q + 1 < c" using Cons.IH by blast
  have "proper q" using q(3) by (cases qs) simp_all
  then have "fst q \<le> snd q" "snd q < snd q + 1" using less_plus_one [of "snd q"] by (auto simp: proper_def)
  then show ?case using q rest by (auto simp: range_set_def)
qed simp

lemma proper_up: "proper r \<Longrightarrow> snd r < snd r + 1"
  using less_plus_one [of "snd r"] by (simp add: proper_def)

lemma proper_le_up: "proper r \<Longrightarrow> fst r \<le> snd r + 1"
  using order.trans [OF _ order_less_imp_le [OF proper_up]] by (simp add: proper_def)

lemma canonical_least: "canonical (r # rs) \<Longrightarrow> c \<in> ranges_set (r # rs) \<Longrightarrow> fst r \<le> c"
proof -
  assume a: "canonical (r # rs)" "c \<in> ranges_set (r # rs)"
  note r = canonical_Cons [OF a(1)]
  have up: "fst r \<le> snd r + 1" using r proper_le_up by blast
  from a(2) consider "c \<in> range_set r" | "snd r + 1 < c" using r by auto
  then show ?thesis
  proof cases
    case 2
    show ?thesis by (rule order.trans [OF up order_less_imp_le [OF 2]])
  qed (simp add: range_set_def)
qed

lemma canonical_gap: "canonical (r # rs) \<Longrightarrow> snd r + 1 \<notin> ranges_set (r # rs)"
  using canonical_Cons [of r rs] proper_up [of r] by (auto simp: range_set_def)

text \<open>The first ranges of two normal forms of a set agree.\<close>

lemma canonical_head_le:
  assumes "canonical (r # rs)" "canonical (q # qs)" "ranges_set (r # rs) = ranges_set (q # qs)"
  shows "fst r = fst q" "snd r \<le> snd q"
proof -
  have in_self: "fst r \<in> ranges_set (r # rs)" "fst q \<in> ranges_set (q # qs)"
    using canonical_Cons [OF assms(1)] canonical_Cons [OF assms(2)] by (simp_all add: range_set_def proper_def)
  have "fst q \<le> fst r" using canonical_least [OF assms(2)] in_self(1) assms(3) by blast
  moreover have "fst r \<le> fst q" using canonical_least [OF assms(1)] in_self(2) assms(3) by blast
  ultimately show f: "fst r = fst q" by (rule order.antisym [rotated])
  show "snd r \<le> snd q"
  proof (rule ccontr)
    assume "\<not> snd r \<le> snd q"
    then have "snd q + 1 \<le> snd r" by (simp add: inc_le not_le)
    moreover have "fst r \<le> snd q + 1"
      using f proper_le_up canonical_Cons [OF assms(2)] by metis
    ultimately have "snd q + 1 \<in> range_set r" by (simp add: range_set_def)
    then show False using canonical_gap [OF assms(2)] assms(3) by auto
  qed
qed

lemma canonical_disjoint: "canonical (r # rs) \<Longrightarrow> range_set r \<inter> ranges_set rs = {}"
proof (rule equals0I)
  assume "canonical (r # rs)"
  then have r: "proper r" "\<forall>c \<in> ranges_set rs. snd r + 1 < c" using canonical_Cons by blast+
  fix c assume "c \<in> range_set r \<inter> ranges_set rs"
  then have "c \<le> snd r" "snd r + 1 < c" using r by (auto simp: range_set_def)
  then show False using proper_up [OF r(1)] by (meson order.strict_trans1 order_less_asym)
qed

lemma canonical_nonempty: "canonical (r # rs) \<Longrightarrow> ranges_set (r # rs) \<noteq> {}"
  using canonical_Cons [of r rs] by (auto simp: range_set_def proper_def)

lemma canonical_unique:
  "canonical rs \<Longrightarrow> canonical qs \<Longrightarrow> ranges_set rs = ranges_set qs \<Longrightarrow> rs = qs"
proof (induction rs arbitrary: qs)
  case Nil
  then show ?case by (cases qs) (simp, metis canonical_nonempty ranges_set_simps(1))
next
  case (Cons r rs)
  note r = canonical_Cons [OF Cons.prems(1)]
  have "ranges_set qs \<noteq> {}" using canonical_nonempty [OF Cons.prems(1)] Cons.prems(3) by metis
  then obtain q qs' where q: "qs = q # qs'" by (cases qs) auto
  note eq = Cons.prems(3) [unfolded q] and c = Cons.prems(1) Cons.prems(2) [unfolded q]
  have "snd r = snd q"
    using canonical_head_le(2) [OF c eq] canonical_head_le(2) [OF c(2,1) eq [symmetric]] by (rule order.antisym)
  then have rq: "r = q" using canonical_head_le(1) [OF c eq] by (simp add: prod_eq_iff)
  have "ranges_set rs = ranges_set qs'"
    using eq canonical_disjoint [OF c(1)] canonical_disjoint [OF c(2)] unfolding rq ranges_set_simps by blast
  then show ?case using Cons.IH r canonical_Cons [OF c(2)] q rq by blast
qed

text \<open>The result does not depend on how the sort leaves ranges with the same start.\<close>

lemma normalize_perm:
  assumes "list_all proper rs" "mset qs = mset rs"
  shows "normalize_ranges qs = normalize_ranges rs"
proof -
  have "set qs = set rs" using assms(2) by (rule mset_eq_setD)
  then have "list_all proper qs" "ranges_set qs = ranges_set rs"
    using assms(1) by (simp_all add: list_all_iff ranges_set_def)
  then show ?thesis using normalize_spec assms(1) canonical_unique by metis
qed

section \<open>What a class text denotes\<close>

fun class_items :: "u32 list \<Rightarrow> range list" where
  "class_items [] = []"
| "class_items (x # zs) =
     (case zs of
        d # y # rest \<Rightarrow> (if d = 45 \<and> x < y then (x, y) # class_items rest else (x, x) # class_items zs)
      | _ \<Rightarrow> (x, x) # class_items zs)"

lemma range_ahead_at:
  assumes "valid_cps cps"
  shows "range_ahead (utf8 cps) (off cps i) x =
    (case drop i cps of
       d # y # rest \<Rightarrow> (if d = 45 \<and> x < y then Some (y, off cps (i + 2) - off cps i) else None)
     | _ \<Rightarrow> None)"
proof (cases "i < length cps")
  case False
  then show ?thesis by (simp add: range_ahead_def peek_end)
next
  case True
  note le = off_Suc [OF True]
  have d: "drop i cps = cps ! i # drop (Suc i) cps" using True by (simp add: Cons_nth_drop_Suc)
  show ?thesis
  proof (cases "Suc i < length cps")
    case False
    then have "utf8_peek_next (utf8 cps) (off cps i + length (encode_utf8 (cps ! i))) = None"
      using le peek_end [of cps "Suc i"] by simp
    then show ?thesis using False True d by (cases "cps ! i = 45") (simp_all add: range_ahead_def peek_at [OF assms] le)
  next
    case True2: True
    have d2: "drop (Suc i) cps = cps ! Suc i # drop (Suc (Suc i)) cps" using True2 by (simp add: Cons_nth_drop_Suc)
    show ?thesis
      using True d d2 peek_at [OF assms True] peek_at [OF assms True2] le off_Suc [OF True2]
      by (cases "cps ! i = 45") (simp_all add: range_ahead_def)
  qed
qed

lemma class_loop_utf8:
  assumes "valid_cps cps"
  shows "class_loop False (utf8 cps) (off cps i) e = e @ class_items (drop i cps)"
proof (induction "length cps - i" arbitrary: i e rule: less_induct)
  case less
  show ?case
  proof (cases "i < length cps")
    case False
    then show ?thesis by (subst class_loop.simps) (simp add: peek_end)
  next
    case True
    have d: "drop i cps = cps ! i # drop (Suc i) cps" using True by (simp add: Cons_nth_drop_Suc)
    have o: "off cps i + (off cps (Suc i) - off cps i) = off cps (Suc i)" using off_Suc [OF True] by simp
    have IH: "class_loop False (utf8 cps) (off cps (Suc i)) e = e @ class_items (drop (Suc i) cps)"
      "class_loop False (utf8 cps) (off cps (Suc (Suc (Suc i)))) e = e @ class_items (drop (Suc (Suc (Suc i))) cps)" for e
      using less True by simp_all
    have o3: "off cps (Suc i) + (off cps (Suc (Suc (Suc i))) - off cps (Suc i)) = off cps (Suc (Suc (Suc i)))"
      if "drop (Suc i) cps = x # y # zs" for x y zs
    proof -
      have "2 \<le> length (drop (Suc i) cps)" unfolding that by simp
      then show ?thesis by (simp add: off_Suc)
    qed
    have dd: "drop (Suc (Suc (Suc i))) cps = zs" if "drop (Suc i) cps = x # y # zs" for x y zs
      using arg_cong [OF that, of "drop 2"] by simp
    show ?thesis
      by (subst class_loop.simps)
        (simp add: peek_at [OF assms True] o range_ahead_at [OF assms] d add_range_def IH o3 dd split: list.split)
  qed
qed

lemma class_loop_text: "valid_cps cps \<Longrightarrow> class_loop False (utf8 cps) 0 [] = class_items cps"
  using class_loop_utf8 [of cps 0 "[]"] by simp

section \<open>All code points are small\<close>

definition small :: "u32 \<Rightarrow> bool" where
  "small c \<longleftrightarrow> c < 0x200000"

lemma small_bits: "(\<And>k. 21 \<le> k \<Longrightarrow> \<not> bit c k) \<Longrightarrow> small c"
proof -
  assume "\<And>k. 21 \<le> k \<Longrightarrow> \<not> bit c k"
  then have "take_bit 21 c = c" by (intro bit_eqI) (metis bit_take_bit_iff not_le)
  then have "take_bit 21 (unat c) = unat c" by (metis unsigned_take_bit_eq)
  then have "unat c < 2 ^ 21" by (simp add: take_bit_nat_eq_self_iff)
  then show ?thesis by (simp add: small_def word_less_nat_alt)
qed

lemma small_peek: "utf8_peek_next s pos = Some (c, n) \<Longrightarrow> small c"
proof (rule small_bits)
  fix k :: nat assume a: "utf8_peek_next s pos = Some (c, n)" "21 \<le> k"
  have m: "(0x1F :: u8) = mask 5" "(0x3F :: u8) = mask 6" "(0x0F :: u8) = mask 4" "(0x07 :: u8) = mask 3"
    by (simp_all add: mask_eq_exp_minus_1)
  have high: "\<not> bit (b :: u8) j" if "8 \<le> j" for b j using that bit_imp_le_length [of b j] by auto
  show "\<not> bit c k"
    using a high [of k] unfolding utf8_peek_next_def Let_def m
    by (auto simp: bit_simps split: if_splits)
qed


lemma small_tables:
  "list_all (\<lambda>e. small (snd e)) BMP_UPPER_TO_LOWER" "list_all (\<lambda>e. small (snd e)) BMP_LOWER_TO_UPPER"
  "list_all small UPPER_MAP" "list_all small LOWER_MAP"
  "list_all (\<lambda>(c, u, w, n). small u \<and> small w) MULTI_CHAR_EXPANSIONS"
  by (simp_all add: small_def BMP_UPPER_TO_LOWER_def BMP_UPPER_TO_LOWER_a_def BMP_UPPER_TO_LOWER_b_def
      BMP_UPPER_TO_LOWER_c_def BMP_LOWER_TO_UPPER_def BMP_LOWER_TO_UPPER_a_def BMP_LOWER_TO_UPPER_b_def
      BMP_LOWER_TO_UPPER_c_def UPPER_MAP_def LOWER_MAP_def MULTI_CHAR_EXPANSIONS_def)

lemma small_search:
  assumes "sorted (map fst tab)" "list_all (\<lambda>e. small (snd e)) tab" "small c"
  shows "small (bmp_search tab c 0 (length tab))"
  using bmp_search_all [OF assms(1), of c] assms(2,3) by (auto simp: list_all_iff split: if_splits)

lemma latin_index: "c \<le> 0xFF \<Longrightarrow> unat (c :: u32) < 256"
  by (simp add: word_le_nat_alt)

lemma small_upper: "small c \<Longrightarrow> u \<in> set (snobol_to_upper_cp c) \<Longrightarrow> small u"
proof -
  assume c: "small c" and u: "u \<in> set (snobol_to_upper_cp c)"
  show ?thesis
  proof (cases "c < 0x80")
    case True
    then show ?thesis using u by (auto simp: snobol_to_upper_cp_def small_def split: if_splits) unat_arith+
  next
    case big: False
    show ?thesis
    proof (cases "find (\<lambda>e. fst e = c) MULTI_CHAR_EXPANSIONS")
      case None
      then show ?thesis
        using u c big small_search [OF sorted_BMP_LOWER_TO_UPPER small_tables(2) c] small_tables(3) latin_index [of c]
        by (auto simp: snobol_to_upper_cp_def bmp_find_upper_def list_all_length split: if_splits)
    next
      case (Some e)
      then have "e \<in> set MULTI_CHAR_EXPANSIONS" by (metis find_Some_iff nth_mem)
      then have "small (fst (snd e)) \<and> small (fst (snd (snd e)))"
        using small_tables(5) unfolding list_all_iff by (auto simp: case_prod_unfold)
      then show ?thesis
        using u big Some by (cases e) (auto simp: snobol_to_upper_cp_def dest!: in_set_takeD)
    qed
  qed
qed

lemma small_lower: "small c \<Longrightarrow> small (snobol_to_lower_cp c)"
  using small_search [OF sorted_BMP_UPPER_TO_LOWER small_tables(1), of c] small_tables(4) latin_index [of c]
  by (auto simp: snobol_to_lower_cp_def bmp_find_lower_def list_all_length small_def) unat_arith+

text \<open>The ranges read from a class text.\<close>

definition good_range :: "range \<Rightarrow> bool" where
  "good_range r \<longleftrightarrow> fst r \<le> snd r \<and> small (snd r)"

lemma good_proper: "good_range r \<Longrightarrow> proper r"
  by (auto simp: good_range_def proper_def small_def)

lemma good_single [simp]: "good_range (c, c) \<longleftrightarrow> small c"
  by (simp add: good_range_def)

lemma good_fold_cp: "small c \<Longrightarrow> list_all good_range (fold_cp c)"
  using small_upper [of c] small_lower [of c]
  by (auto simp: fold_cp_def Let_def list_all_iff dest!: in_set_takeD)

lemma good_fold_range:
  assumes "c \<le> d" "small d"
  shows "list_all good_range (fold_range c d)"
proof -
  have 1: "good_range (c + 32, d + 32)" if "0x41 \<le> c" "d \<le> 0x5A"
    using that assms by (simp add: good_range_def small_def word_le_nat_alt word_less_nat_alt unat_word_ariths)
  have 2: "good_range (c - 32, d - 32)" if a: "0x61 \<le> c" "d \<le> 0x7A"
  proof -
    have "32 \<le> c" "32 \<le> d" using a assms(1) by (simp_all add: word_le_nat_alt)
    then show ?thesis
      using a assms(1) by (simp add: good_range_def small_def word_le_nat_alt word_less_nat_alt unat_sub_if') linarith
  qed
  have 3: "list_all good_range (fold_cp (of_nat x))" if "x \<le> unat d" for x
  proof -
    have "unat d < 2 ^ LENGTH(32)" by (rule unsigned_less)
    then have "x < 2 ^ 32" using that by simp
    then have "unat (of_nat x :: u32) = x" by (simp add: unat_of_nat)
    then have "small (of_nat x)" using that assms(2) by (simp add: small_def word_less_nat_alt)
    then show ?thesis by (rule good_fold_cp)
  qed
  have "list_all good_range (concat (map (\<lambda>x. fold_cp (of_nat x)) [unat c..<Suc (unat d)]))"
  proof -
    have "good_range r" if "x \<in> set [unat c..<Suc (unat d)]" "r \<in> set (fold_cp (of_nat x))" for x r
      using 3 [of x] that by (simp add: list_all_iff del: upt_Suc)
    then show ?thesis unfolding list_all_iff set_concat set_map by blast
  qed
  then show ?thesis unfolding fold_range_def using 1 2 by (simp del: upt_Suc)
qed

lemma good_fold_single: "small c \<Longrightarrow> list_all good_range (fold_single c)"
proof -
  assume c: "small c"
  have 1: "small (c + 32)" if "c \<le> 0x5A" using that by (simp add: small_def) unat_arith
  have 2: "small (c - 32)" if "c \<le> 0x7A" "0x61 \<le> c" using that by (simp add: small_def) unat_arith
  show ?thesis unfolding fold_single_def using 1 2 good_fold_cp [OF c] by simp
qed

lemma range_ahead_Some: "range_ahead s pos c = Some (d, n) \<Longrightarrow> c < d \<and> small d"
  by (auto simp: range_ahead_def split: option.splits if_splits) (rule small_peek)

lemma good_class_loop: "list_all good_range e \<Longrightarrow> list_all good_range (class_loop ci s pos e)"
proof (induction ci s pos e rule: class_loop.induct)
  case (1 ci s pos e)
  show ?case
  proof (cases "utf8_peek_next s pos")
    case None
    then show ?thesis using 1(3) by (simp add: class_loop.simps [of ci s pos e])
  next
    case (Some cn)
    then obtain c n where cn: "utf8_peek_next s pos = Some (c, n)" by (cases cn) simp
    have c: "small c" using small_peek [OF cn] .
    show ?thesis
    proof (cases "range_ahead s (pos + n) c")
      case None
      have "list_all good_range (add_range e c c @ (if ci then fold_single c else []))"
        using 1(3) c good_fold_single by (simp add: add_range_def)
      then show ?thesis using 1(1) [OF cn refl None] by (subst class_loop.simps) (simp add: cn None)
    next
      case (Some dk)
      then obtain d k where dk: "range_ahead s (pos + n) c = Some (d, k)" by (cases dk) simp
      have d: "c < d" "small d" using range_ahead_Some [OF dk] by simp_all
      have "list_all good_range (add_range e c d @ (if ci then fold_range c d else []))"
        using 1(3) d good_fold_range [OF order_less_imp_le d(2)] by (simp add: add_range_def good_range_def [of "(c, d)"])
      then show ?thesis using 1(2) [OF cn refl dk refl] by (subst class_loop.simps) (simp add: cn dk)
    qed
  qed
qed

section \<open>The numbers of classes\<close>

definition registry_ok :: "cc_entry list \<Rightarrow> bool" where
  "registry_ok es \<longleftrightarrow> distinct es \<and> (\<forall>e \<in> set es. canonical (cc_ranges e))"

lemma find_entry_from_Some: "find_entry_from i es ne = Some j \<Longrightarrow> i \<le> j \<and> j < i + length es \<and> es ! (j - i) = ne"
  by (induction i es ne rule: find_entry_from.induct) (fastforce simp: nth_Cons' split: if_splits)+

lemma find_entry_from_None: "find_entry_from i es ne = None \<longleftrightarrow> ne \<notin> set es"
  by (induction i es ne rule: find_entry_from.induct) auto

lemma register_class_spec:
  assumes "register_class es ne = (i, es')" "registry_ok es" "canonical (cc_ranges ne)"
  shows "registry_ok es'" "1 \<le> i" "i \<le> length es'" "es' ! (i - 1) = ne" "take (length es) es' = es"
proof -
  consider "find_entry_from 1 es ne = Some i" "es' = es" | "ne \<notin> set es" "i = length es + 1" "es' = es @ [ne]"
    using assms(1) find_entry_from_None [of 1 es ne] by (auto simp: register_class_def split: option.splits)
  then have "registry_ok es' \<and> 1 \<le> i \<and> i \<le> length es' \<and> es' ! (i - 1) = ne \<and> take (length es) es' = es"
  proof cases
    case 1
    then show ?thesis using find_entry_from_Some [OF 1(1)] assms(2) by auto
  next
    case 2
    then show ?thesis using assms(2,3) by (auto simp: registry_ok_def)
  qed
  then show "registry_ok es'" "1 \<le> i" "i \<le> length es'" "es' ! (i - 1) = ne" "take (length es) es' = es" by auto
qed

lemma registry_set_inj:
  assumes "registry_ok es" "i < length es" "j < length es" "cc_ci (es ! i) = cc_ci (es ! j)"
    "ranges_set (cc_ranges (es ! i)) = ranges_set (cc_ranges (es ! j))"
  shows "i = j"
proof -
  have "cc_ranges (es ! i) = cc_ranges (es ! j)"
    using assms by (intro canonical_unique) (auto simp: registry_ok_def)
  then have "es ! i = es ! j" using assms(4) by simp
  then show ?thesis using assms(1-3) by (simp add: registry_ok_def nth_eq_iff_index_eq)
qed

lemma add_class_spec:
  assumes "add_or_get_charclass ci es s = Some (i, es')" "registry_ok es"
  shows "registry_ok es'" "1 \<le> i" "i \<le> length es'" "take (length es) es' = es"
    "ranges_set (cc_ranges (es' ! (i - 1))) = ranges_set (class_loop ci s 0 [])"
    "cc_ci (es' ! (i - 1)) = (if ci then 1 else 0)" "canonical (cc_ranges (es' ! (i - 1)))"
proof -
  let ?e = "class_loop ci s 0 []"
  have "list_all proper ?e" using good_class_loop [of "[]" ci s 0] good_proper by (simp add: list_all_iff)
  note n = normalize_spec [OF this]
  have r: "register_class es \<lparr>cc_ranges = normalize_ranges ?e, cc_ci = (if ci then 1 else 0)\<rparr> = (i, es')"
    using assms(1) by (simp add: add_or_get_charclass_def Let_def split: if_splits)
  note s = register_class_spec [OF r assms(2)]
  show "registry_ok es'" "1 \<le> i" "i \<le> length es'" "take (length es) es' = es"
    "ranges_set (cc_ranges (es' ! (i - 1))) = ranges_set ?e"
    "cc_ci (es' ! (i - 1)) = (if ci then 1 else 0)" "canonical (cc_ranges (es' ! (i - 1)))"
    using s n by simp_all
qed

text \<open>
  C20: Ranges have one normal form. Sorting and merging proper ranges gives sorted ranges that do
  not touch, for the same set of code points, and any other such list for this set is the same one;
  so the order in which the sort leaves equal starts does not matter.
\<close>

theorem normalize_ranges_canonical:
  assumes "list_all proper rs"
  shows "canonical (normalize_ranges rs) \<and> ranges_set (normalize_ranges rs) = ranges_set rs \<and>
    (\<forall>qs. canonical qs \<and> ranges_set qs = ranges_set rs \<longrightarrow> qs = normalize_ranges rs)"
  using normalize_spec [OF assms] canonical_unique by auto

theorem normalize_ranges_canonical_witness:
  "normalize_ranges [(104, 110), (97, 102), (100, 103), (120, 120)] = [(97, 110), (120, 120)] \<and>
   canonical (normalize_ranges [(104, 110), (97, 102), (100, 103), (120, 120)])"
proof
  show "normalize_ranges [(104, 110), (97, 102), (100, 103), (120, 120)] = [(97, 110), (120, 120)]" by code_simp
  show "canonical (normalize_ranges [(104, 110), (97, 102), (100, 103), (120, 120)])"
    using normalize_ranges_canonical [of "[(104, 110), (97, 102), (100, 103), (120, 120)]"] by (simp add: proper_def)
qed



end
