(* ===== verification/Compiler.thy ===== *)
theory Compiler
  imports Compiler_Class Vm_Exec Ast
begin

text \<open>
  The compiler from trees to bytecode: \<open>compiler_codegen.c\<close>, and the fusion pass and the analysis of
  \<open>compiler_analysis.c\<close>. The static variables of the C code are the fields of a record. Memory
  allocation never fails. \<open>Crash\<close> is a read or write through a bad pointer. The text of the message
  for a duplicate label, which nothing reads, and the diagnostics on the error stream are left out.
\<close>

section \<open>State\<close>

record label_entry =
  la_name :: bytes
  la_offset :: u32
  la_defined :: bool
  la_referenced :: bool

record compiler =
  co_cb :: code_buf
  co_classes :: "cc_entry list"
  co_loops :: nat
  co_ci :: bool
  co_labels :: "label_entry list"

datatype 'a compiled = Compiled 'a | Failed | Crash

primrec cbind :: "'a compiled \<Rightarrow> ('a \<Rightarrow> 'b compiled) \<Rightarrow> 'b compiled" where
  "cbind (Compiled x) f = f x"
| "cbind Failed f = Failed"
| "cbind Crash f = Crash"

definition op_byte :: "op_code \<Rightarrow> u8" where
  "op_byte oc = of_nat (length (takeWhile (\<lambda>x. x \<noteq> oc) op_codes))"

definition here :: "compiler \<Rightarrow> nat" where
  "here co = cb_pos (co_cb co)"

definition put8 :: "u8 \<Rightarrow> compiler \<Rightarrow> compiler" where
  "put8 v co = co\<lparr>co_cb := cb_emit_u8 (co_cb co) v\<rparr>"

definition put16 :: "u16 \<Rightarrow> compiler \<Rightarrow> compiler" where
  "put16 v co = co\<lparr>co_cb := cb_emit_u16 (co_cb co) v\<rparr>"

definition put32 :: "u32 \<Rightarrow> compiler \<Rightarrow> compiler" where
  "put32 v co = co\<lparr>co_cb := cb_emit_u32 (co_cb co) v\<rparr>"

definition put_bytes :: "bytes \<Rightarrow> compiler \<Rightarrow> compiler" where
  "put_bytes b co = co\<lparr>co_cb := cb_emit_bytes (co_cb co) b\<rparr>"

definition patch32 :: "nat \<Rightarrow> u32 \<Rightarrow> compiler \<Rightarrow> compiler" where
  "patch32 i v co = co\<lparr>co_cb := cb_patch_u32 (co_cb co) i v\<rparr>"

definition put_op :: "op_code \<Rightarrow> compiler \<Rightarrow> compiler" where
  "put_op oc = put8 (op_byte oc)"

section \<open>Which trees match the empty string\<close>

text \<open>
  \<open>None\<close> is a bad pointer. The case of EMIT reads the member \<open>cap.sub\<close> of a node that is no capture;
  with 64 bit pointers it lies over \<open>emit.len\<close>, so the length of the text is taken for a pointer.
\<close>

fun ast_node_nullable :: "ast \<Rightarrow> bool option"
and nullable_parts :: "nat \<Rightarrow> ast list \<Rightarrow> bool option" where
  "ast_node_nullable (AST_ARBNO a) = Some True"
| "ast_node_nullable (AST_REPETITION a lo hi) = Some (lo = 0)"
| "ast_node_nullable (AST_ALT l r) =
     (case ast_node_nullable l of Some False \<Rightarrow> ast_node_nullable r | x \<Rightarrow> x)"
| "ast_node_nullable (AST_CONCAT parts) = nullable_parts (length parts) parts"
| "ast_node_nullable (AST_CAP r a) = ast_node_nullable a"
| "ast_node_nullable (AST_EMIT text r) =
     (case text of None \<Rightarrow> Some False | Some s \<Rightarrow> (if s = [] then Some False else None))"
| "ast_node_nullable (AST_LITERAL s) = Some (s = [])"
| "ast_node_nullable AST_SUCCEED = Some True"
| "ast_node_nullable AST_FAIL = Some True"
| "ast_node_nullable AST_FENCE = Some True"
| "ast_node_nullable AST_REM = Some True"
| "ast_node_nullable (AST_BREAKX s) = Some True"
| "ast_node_nullable (AST_BAL x y) = Some True"
| "ast_node_nullable _ = Some False"
| "nullable_parts n [] = Some (n = 0)"
| "nullable_parts n (a # as) =
     (case ast_node_nullable a of Some True \<Rightarrow> nullable_parts n as | x \<Rightarrow> x)"

section \<open>Simple instructions\<close>

definition emit_lit_bytes :: "bytes \<Rightarrow> compiler \<Rightarrow> compiler" where
  "emit_lit_bytes s co =
     (let off_of_payload = here co + 1 + 4 + 4
      in put_bytes s (put32 (of_nat (length s)) (put32 (of_nat off_of_payload) (put_op OC_LIT co))))"

text \<open>An instruction whose operand is a class.\<close>

definition emit_set :: "op_code \<Rightarrow> bytes \<Rightarrow> compiler \<Rightarrow> compiler compiled" where
  "emit_set oc s co =
     (case add_or_get_charclass (co_ci co) (co_classes co) s of
        None \<Rightarrow> Crash
      | Some (setid, es) \<Rightarrow> Compiled (put16 (of_nat setid) (put_op oc (co\<lparr>co_classes := es\<rparr>))))"

function lit_ci_loop :: "bytes \<Rightarrow> nat \<Rightarrow> compiler \<Rightarrow> compiler compiled" where
  "lit_ci_loop s pos co =
     (if length s \<le> pos then Compiled co
      else case utf8_peek_next s pos of
             None \<Rightarrow> lit_ci_loop s (pos + 1) (emit_lit_bytes (sub_list pos 1 s) co)
           | Some (cp, n) \<Rightarrow> cbind (emit_set OC_ANY (sub_list pos n s) co) (lit_ci_loop s (pos + n)))"
  by pat_completeness auto
termination
  by (relation "measure (\<lambda>(s, pos, co). length s - pos)") (auto dest: utf8_peek_next_bounds)

declare lit_ci_loop.simps [simp del]

definition emit_lit_case_insensitive_c :: "bytes \<Rightarrow> compiler \<Rightarrow> compiler compiled" where
  "emit_lit_case_insensitive_c s co = lit_ci_loop s 0 co"

definition emit_any_c :: "bytes option \<Rightarrow> compiler \<Rightarrow> compiler compiled" where
  "emit_any_c text co =
     (case text of
        None \<Rightarrow> Compiled (put16 0 (put_op OC_ANY co))
      | Some s \<Rightarrow> (if s = [] then Compiled (put16 0 (put_op OC_ANY co)) else emit_set OC_ANY s co))"

definition emit_span_c :: "bytes \<Rightarrow> compiler \<Rightarrow> compiler compiled" where
  [simp]: "emit_span_c s co = emit_set OC_SPAN s co"

definition emit_break_c :: "bytes \<Rightarrow> compiler \<Rightarrow> compiler compiled" where
  [simp]: "emit_break_c s co = emit_set OC_BREAK s co"

definition emit_notany_c :: "bytes \<Rightarrow> compiler \<Rightarrow> compiler compiled" where
  [simp]: "emit_notany_c s co = emit_set OC_NOTANY s co"

definition emit_breakx_c :: "bytes \<Rightarrow> compiler \<Rightarrow> compiler compiled" where
  [simp]: "emit_breakx_c s co = emit_set OC_BREAKX s co"

definition emit_assign_c :: "int \<Rightarrow> int \<Rightarrow> compiler \<Rightarrow> compiler" where
  "emit_assign_c var reg co = put8 (of_int reg) (put16 (of_int var) (put_op OC_ASSIGN co))"

text \<open>LEN, POS, TAB, RPOS and RTAB.\<close>

definition emit_int :: "op_code \<Rightarrow> int \<Rightarrow> compiler \<Rightarrow> compiler" where
  "emit_int oc n co = put32 (of_int n) (put_op oc co)"

definition emit_len_c :: "int \<Rightarrow> compiler \<Rightarrow> compiler" where
  [simp]: "emit_len_c n co = emit_int OC_LEN n co"

definition emit_rpos_c :: "int \<Rightarrow> compiler \<Rightarrow> compiler" where
  [simp]: "emit_rpos_c n co = emit_int OC_RPOS n co"

definition emit_rtab_c :: "int \<Rightarrow> compiler \<Rightarrow> compiler" where
  [simp]: "emit_rtab_c n co = emit_int OC_RTAB n co"

definition emit_pos_c :: "int \<Rightarrow> compiler \<Rightarrow> compiler" where
  [simp]: "emit_pos_c n co = emit_int OC_POS n co"

definition emit_tab_c :: "int \<Rightarrow> compiler \<Rightarrow> compiler" where
  [simp]: "emit_tab_c n co = emit_int OC_TAB n co"

definition emit_fence_c :: "compiler \<Rightarrow> compiler" where
  [simp]: "emit_fence_c co = put_op OC_FENCE co"

definition emit_rem_c :: "compiler \<Rightarrow> compiler" where
  [simp]: "emit_rem_c co = put_op OC_REM co"

definition emit_abort_c :: "compiler \<Rightarrow> compiler" where
  [simp]: "emit_abort_c co = put_op OC_ABORT co"

definition emit_succeed_c :: "compiler \<Rightarrow> compiler" where
  [simp]: "emit_succeed_c co = put_op OC_SUCCEED co"

definition emit_eval_c :: "int \<Rightarrow> int \<Rightarrow> compiler \<Rightarrow> compiler" where
  "emit_eval_c fn_id reg co = put8 (of_int reg) (put16 (of_int fn_id) (put_op OC_EVAL co))"

definition emit_anchor_c :: "anchor_type \<Rightarrow> compiler \<Rightarrow> compiler" where
  "emit_anchor_c t co = put8 (case t of ANCHOR_START \<Rightarrow> 0 | ANCHOR_END \<Rightarrow> 1) (put_op OC_ANCHOR co)"

definition emit_emit_c :: "bytes option \<Rightarrow> int \<Rightarrow> compiler \<Rightarrow> compiler" where
  "emit_emit_c text reg co =
     (case text of
        Some s \<Rightarrow>
          (let off_of_payload = here co + 1 + 4 + 4
           in put_bytes s (put32 (of_nat (length s)) (put32 (of_nat off_of_payload) (put_op OC_EMIT_LITERAL co))))
      | None \<Rightarrow> (if 0 \<le> reg then put8 (of_int reg) (put_op OC_EMIT_CAPTURE co) else co))"

definition emit_bal_c :: "u32 \<Rightarrow> u32 \<Rightarrow> compiler \<Rightarrow> compiler" where
  "emit_bal_c open_cp close_cp co = put32 close_cp (put32 open_cp (put_op OC_BAL co))"

definition put_cap :: "op_code \<Rightarrow> int \<Rightarrow> compiler \<Rightarrow> compiler" where
  "put_cap oc reg co = put8 (of_int reg) (put_op oc co)"

text \<open>The instruction behind the key (and the value) of a table access.\<close>

definition put_table :: "op_code \<Rightarrow> u8 \<Rightarrow> u8 \<Rightarrow> bytes \<Rightarrow> compiler \<Rightarrow> compiler" where
  "put_table oc key_reg reg table co =
     put_bytes table (put8 (of_nat (length table)) (put8 reg (put8 key_reg (put16 0xFFFF (put_op oc co)))))"

section \<open>Labels\<close>

fun find_label_from :: "nat \<Rightarrow> label_entry list \<Rightarrow> bytes \<Rightarrow> nat option" where
  "find_label_from i [] name = None"
| "find_label_from i (l # ls) name = (if la_name l = name then Some i else find_label_from (i + 1) ls name)"

definition find_label_c :: "compiler \<Rightarrow> bytes \<Rightarrow> nat option" where
  "find_label_c co name = find_label_from 0 (co_labels co) name"

text \<open>The capacity of the table is a 16 bit number that wraps to 0 behind 32768 entries.\<close>

definition get_or_create_label_c :: "bytes \<Rightarrow> compiler \<Rightarrow> (nat \<times> compiler) compiled" where
  "get_or_create_label_c name co =
     (case find_label_c co name of
        Some i \<Rightarrow> Compiled (i, co)
      | None \<Rightarrow>
          (if 32768 \<le> int (length (co_labels co)) then Crash
           else Compiled (length (co_labels co),
             co\<lparr>co_labels := co_labels co @ [\<lparr>la_name = name, la_offset = 0, la_defined = False, la_referenced = False\<rparr>]\<rparr>)))"

definition define_label :: "bytes \<Rightarrow> compiler \<Rightarrow> compiler compiled" where
  "define_label name co =
     cbind (case find_label_c co name of
              Some i \<Rightarrow> (if la_defined (co_labels co ! i) then Failed else Compiled (i, co))
            | None \<Rightarrow> get_or_create_label_c name co) (\<lambda>(i, co).
        (let co = put16 (of_nat i) (put_op OC_LABEL co)
         in Compiled (co\<lparr>co_labels := (co_labels co)[i := (co_labels co ! i)\<lparr>la_offset := of_nat (here co), la_defined := True\<rparr>]\<rparr>)))"

definition emit_goto :: "bytes \<Rightarrow> compiler \<Rightarrow> compiler compiled" where
  "emit_goto name co =
     cbind (get_or_create_label_c name co) (\<lambda>(i, co).
       Compiled (put16 (of_nat i) (put_op OC_GOTO
         (co\<lparr>co_labels := (co_labels co)[i := (co_labels co ! i)\<lparr>la_referenced := True\<rparr>]\<rparr>))))"

section \<open>Loops\<close>

text \<open>Nested loops without bounds are unwrapped.\<close>

fun unwrap_arbno :: "ast \<Rightarrow> ast" where
  "unwrap_arbno (AST_ARBNO a) = unwrap_arbno a"
| "unwrap_arbno a = a"

fun unwrap_repeat :: "ast \<Rightarrow> ast" where
  "unwrap_repeat (AST_REPETITION a lo hi) = (if lo = 0 \<and> hi = - 1 then unwrap_repeat a else AST_REPETITION a lo hi)"
| "unwrap_repeat a = a"

lemma size_unwrap_arbno: "size (unwrap_arbno a) \<le> size a"
  by (induction a rule: unwrap_arbno.induct) simp_all

lemma size_unwrap_repeat: "size (unwrap_repeat a) \<le> size a"
  by (induction a rule: unwrap_repeat.induct) (auto intro: le_SucI)

text \<open>The instructions around the body of loop \<open>n\<close>; the operand of the first is the end of the loop.\<close>

definition loop_head :: "nat \<Rightarrow> u32 \<Rightarrow> u32 \<Rightarrow> compiler \<Rightarrow> compiler" where
  "loop_head n lo hi co = put32 0 (put32 hi (put32 lo (put8 (of_nat n) (put_op OC_REPEAT_INIT co))))"

definition loop_tail :: "nat \<Rightarrow> nat \<Rightarrow> compiler \<Rightarrow> compiler" where
  "loop_tail n body_start co =
     (let co = put32 (of_nat body_start) (put8 (of_nat n) (put_op OC_REPEAT_STEP co))
      in patch32 (body_start - 4) (of_nat (here co)) co)"

definition emit_loop :: "(compiler \<Rightarrow> compiler compiled) \<Rightarrow> nat \<Rightarrow> u32 \<Rightarrow> u32 \<Rightarrow> compiler \<Rightarrow> compiler compiled" where
  "emit_loop body n lo hi co =
     (let co = loop_head n lo hi co; body_start = here co
      in cbind (body co) (\<lambda>co. Compiled (loop_tail n body_start co)))"

text \<open>\<open>emit_arbno_c\<close> behind the unwrapping; a warning may be printed about a nullable body.\<close>

definition emit_arbno_loop :: "(compiler \<Rightarrow> compiler compiled) \<Rightarrow> ast \<Rightarrow> compiler \<Rightarrow> compiler compiled" where
  "emit_arbno_loop body sub co =
     (if MAX_LOOPS \<le> co_loops co then Failed
      else case ast_node_nullable sub of
             None \<Rightarrow> Crash
           | Some _ \<Rightarrow> emit_loop body (co_loops co) 0 (- 1) (co\<lparr>co_loops := co_loops co + 1\<rparr>))"

definition emit_alt :: "(compiler \<Rightarrow> compiler compiled) \<Rightarrow> (compiler \<Rightarrow> compiler compiled) \<Rightarrow> compiler \<Rightarrow> compiler compiled" where
  "emit_alt left right co =
     (let co = put_op OC_SPLIT co; where_a = here co; co = put32 0 co; where_b = here co; co = put32 0 co;
          left_start = here co
      in cbind (left co) (\<lambda>co.
        let co = put_op OC_JMP co; jmp_target_pos = here co; co = put32 0 co; right_start = here co
        in cbind (right co) (\<lambda>co.
          let end_pos = here co
          in Compiled (patch32 jmp_target_pos (of_nat end_pos)
               (patch32 where_b (of_nat right_start) (patch32 where_a (of_nat left_start) co))))))"

section \<open>Trees\<close>

definition emit_key :: "(compiler \<Rightarrow> compiler compiled) \<Rightarrow> ast \<Rightarrow> compiler \<Rightarrow> (u8 \<times> compiler) compiled" where
  "emit_key emit_sub key co =
     (case key of
        AST_REG_REF r \<Rightarrow> Compiled (of_int r, co)
      | _ \<Rightarrow> cbind (emit_sub (put_cap OC_CAP_START 0 co)) (\<lambda>co. Compiled (0, put_cap OC_CAP_END 0 co)))"

definition emit_table_access_c :: "bytes \<Rightarrow> (compiler \<Rightarrow> compiler compiled) \<Rightarrow> ast \<Rightarrow> compiler \<Rightarrow> compiler compiled" where
  [simp]: "emit_table_access_c table emit_sub key co =
     cbind (emit_key emit_sub key co) (\<lambda>(key_reg, co). Compiled (put_table OC_TABLE_GET key_reg 0 table co))"

definition emit_table_update_c ::
  "bytes \<Rightarrow> (compiler \<Rightarrow> compiler compiled) \<Rightarrow> ast \<Rightarrow> (compiler \<Rightarrow> compiler compiled) \<Rightarrow> compiler \<Rightarrow> compiler compiled" where
  [simp]: "emit_table_update_c table emit_sub key emit_val co =
     cbind (emit_key emit_sub key co) (\<lambda>(key_reg, co).
       cbind (emit_val (put_cap OC_CAP_START 1 co)) (\<lambda>co.
         Compiled (put_table OC_TABLE_SET key_reg 1 table (put_cap OC_CAP_END 1 co))))"

function emit_node_c :: "ast \<Rightarrow> compiler \<Rightarrow> compiler compiled"
and emit_parts :: "ast list \<Rightarrow> compiler \<Rightarrow> compiler compiled" where
  "emit_node_c (AST_LITERAL s) co =
     (if co_ci co then emit_lit_case_insensitive_c s co else Compiled (emit_lit_bytes s co))"
| "emit_node_c (AST_CONCAT parts) co = emit_parts parts co"
| "emit_node_c (AST_ALT l r) co = emit_alt (emit_node_c l) (emit_node_c r) co"
| "emit_node_c (AST_REPETITION a lo hi) co =
     (if MAX_LOOPS \<le> co_loops co then Failed
      else if (of_int lo :: u32) = 0 \<and> (of_int hi :: u32) = - 1
      then (let sub = unwrap_repeat (unwrap_arbno (unwrap_repeat a))
            in emit_arbno_loop (emit_node_c sub) sub (co\<lparr>co_loops := co_loops co + 1\<rparr>))
      else emit_loop (emit_node_c a) (co_loops co) (of_int lo) (of_int hi) (co\<lparr>co_loops := co_loops co + 1\<rparr>))"
| "emit_node_c (AST_SPAN s) co = emit_span_c s co"
| "emit_node_c (AST_BREAK s) co = emit_break_c s co"
| "emit_node_c (AST_ANY text) co = emit_any_c text co"
| "emit_node_c (AST_NOTANY s) co = emit_notany_c s co"
| "emit_node_c (AST_ARBNO a) co =
     (let sub = unwrap_repeat (unwrap_arbno a) in emit_arbno_loop (emit_node_c sub) sub co)"
| "emit_node_c (AST_CAP reg a) co =
     cbind (emit_node_c a (put_cap OC_CAP_START reg co)) (\<lambda>co. Compiled (put_cap OC_CAP_END reg co))"
| "emit_node_c (AST_ASSIGN var reg) co = Compiled (emit_assign_c var reg co)"
| "emit_node_c (AST_LEN n) co = Compiled (emit_len_c n co)"
| "emit_node_c (AST_EVAL fn_id reg) co = Compiled (emit_eval_c fn_id reg co)"
| "emit_node_c (AST_DYNAMIC_EVAL a) co = emit_node_c a co"
| "emit_node_c (AST_ANCHOR t) co = Compiled (emit_anchor_c t co)"
| "emit_node_c (AST_EMIT text reg) co = Compiled (emit_emit_c text reg co)"
| "emit_node_c (AST_BREAKX s) co = emit_breakx_c s co"
| "emit_node_c (AST_BAL x y) co = Compiled (emit_bal_c x y co)"
| "emit_node_c AST_FENCE co = Compiled (emit_fence_c co)"
| "emit_node_c AST_REM co = Compiled (emit_rem_c co)"
| "emit_node_c (AST_RPOS n) co = Compiled (emit_rpos_c n co)"
| "emit_node_c (AST_RTAB n) co = Compiled (emit_rtab_c n co)"
| "emit_node_c (AST_POS n) co = Compiled (emit_pos_c n co)"
| "emit_node_c (AST_TAB n) co = Compiled (emit_tab_c n co)"
| "emit_node_c AST_ABORT co = Compiled (emit_abort_c co)"
| "emit_node_c AST_FAIL co = Compiled (put_op OC_FAIL co)"
| "emit_node_c AST_SUCCEED co = Compiled (emit_succeed_c co)"
| "emit_node_c (AST_LABEL name target) co = cbind (define_label name co) (emit_node_c target)"
| "emit_node_c (AST_GOTO name) co = emit_goto name co"
| "emit_node_c (AST_TABLE_ACCESS table key) co =
     emit_table_access_c table (emit_node_c key) key co"
| "emit_node_c (AST_TABLE_UPDATE table key val) co =
     emit_table_update_c table (emit_node_c key) key (emit_node_c val) co"
| "emit_node_c (AST_REG_REF r) co = Failed"
| "emit_parts [] co = Compiled co"
| "emit_parts (a # as) co = cbind (emit_node_c a co) (emit_parts as)"
  by pat_completeness auto
termination
  by (relation "measure (\<lambda>x. case x of Inl (a, _) \<Rightarrow> size a | Inr (as, _) \<Rightarrow> size_list size as)")
    (auto intro!: le_imp_less_Suc order.trans [OF size_unwrap_repeat] order.trans [OF size_unwrap_arbno] size_unwrap_repeat)

section \<open>The fusion pass\<close>

definition fuse_read_u32 :: "bytes \<Rightarrow> nat \<Rightarrow> u32" where
  "fuse_read_u32 bc i =
     push_bit 24 (ucast (bc ! i)) OR push_bit 16 (ucast (bc ! (i + 1))) OR push_bit 8 (ucast (bc ! (i + 2))) OR
     ucast (bc ! (i + 3))"

definition fuse_read_u16 :: "bytes \<Rightarrow> nat \<Rightarrow> u16" where
  "fuse_read_u16 bc i = push_bit 8 (ucast (bc ! i)) OR ucast (bc ! (i + 1))"

text \<open>The union of two classes; an arm without an entry is a single code point.\<close>

definition fuse_add_union_cc ::
  "cc_entry option \<Rightarrow> u32 \<Rightarrow> cc_entry option \<Rightarrow> u32 \<Rightarrow> u16 \<Rightarrow> cc_entry list \<Rightarrow> (nat \<times> cc_entry list) option" where
  "fuse_add_union_cc ea cp_a eb cp_b ci es =
     (let ra = (case ea of Some e \<Rightarrow> cc_ranges e | None \<Rightarrow> [(cp_a, cp_a)]);
          rb = (case eb of Some e \<Rightarrow> cc_ranges e | None \<Rightarrow> [(cp_b, cp_b)])
      in if 65536 \<le> int (length ra) + int (length rb) then None
         else Some (register_class es \<lparr>cc_ranges = normalize_ranges (ra @ rb), cc_ci = ci\<rparr>))"

datatype arm = No_Arm | Arm_Lit u32 nat | Arm_Any u16 nat

fun skip_nops :: "bytes \<Rightarrow> nat \<Rightarrow> nat" where
  "skip_nops [] n = n"
| "skip_nops (b # bs) n = (if b = op_byte OC_NOP then skip_nops bs (n + 1) else n)"

text \<open>The single instruction of an arm with the position behind it.\<close>

definition single_op :: "bytes \<Rightarrow> nat \<Rightarrow> (arm \<times> nat) option" where
  "single_op bc a =
     (if length bc \<le> a then None
      else if bc ! a = op_byte OC_LIT
      then (if length bc < a + 9 then None
            else if fuse_read_u32 bc (a + 5) \<noteq> 1 then None
            else if length bc \<le> a + 9 then None
            else Some (Arm_Lit (ucast (bc ! (a + 9))) 0, a + 10))
      else if bc ! a = op_byte OC_ANY
      then (if length bc < a + 3 then None else Some (Arm_Any (fuse_read_u16 bc (a + 1)) 0, a + 3))
      else None)"

fun set_merge :: "nat \<Rightarrow> arm \<Rightarrow> arm" where
  "set_merge m (Arm_Lit c n) = Arm_Lit c m"
| "set_merge m (Arm_Any i n) = Arm_Any i m"
| "set_merge m No_Arm = No_Arm"

definition parse_arm_a :: "bytes \<Rightarrow> nat \<Rightarrow> arm" where
  "parse_arm_a bc a =
     (case single_op bc a of
        None \<Rightarrow> No_Arm
      | Some (r, after_op) \<Rightarrow>
          (let after_op = skip_nops (drop after_op bc) after_op
           in if length bc < after_op + 5 then No_Arm
              else if bc ! after_op \<noteq> op_byte OC_JMP then No_Arm
              else set_merge (unat (fuse_read_u32 bc (after_op + 1))) r))"

definition parse_arm_b :: "bytes \<Rightarrow> nat \<Rightarrow> arm" where
  "parse_arm_b bc b =
     (case single_op bc b of
        None \<Rightarrow> No_Arm
      | Some (r, after_op) \<Rightarrow> set_merge (skip_nops (drop after_op bc) after_op) r)"

fun arm_merge :: "arm \<Rightarrow> nat" where
  "arm_merge No_Arm = 0"
| "arm_merge (Arm_Lit c m) = m"
| "arm_merge (Arm_Any i m) = m"

fun arm_entry :: "cc_entry list \<Rightarrow> arm \<Rightarrow> cc_entry option" where
  "arm_entry es (Arm_Any i m) = get_cc_entry es (unat i)"
| "arm_entry es _ = None"

fun arm_cp :: "arm \<Rightarrow> u32" where
  "arm_cp (Arm_Lit c m) = c"
| "arm_cp _ = 0"

definition write_nops :: "nat \<Rightarrow> nat \<Rightarrow> bytes \<Rightarrow> bytes" where
  "write_nops i j bc = fold (\<lambda>k bc. bc[k := op_byte OC_NOP]) [i..<j] bc"

definition fuse_write :: "nat \<Rightarrow> nat \<Rightarrow> nat \<Rightarrow> bytes \<Rightarrow> bytes" where
  "fuse_write pos merged_id merge bc =
     write_nops (pos + 3) merge
       (bc[pos := op_byte OC_ANY, pos + 1 := u16_bytes (of_nat merged_id) ! 0, pos + 2 := u16_bytes (of_nat merged_id) ! 1])"

text \<open>One position of the scan; \<open>None\<close> is a write outside of an array.\<close>

definition fuse_at :: "nat \<Rightarrow> bytes \<times> cc_entry list \<Rightarrow> (bytes \<times> cc_entry list) option" where
  "fuse_at pos st =
     (let (bc, es) = st; bc_len = length bc
      in if bc ! pos \<noteq> op_byte OC_SPLIT then Some (bc, es)
         else if bc_len < pos + 9 then Some (bc, es)
         else (let a = unat (fuse_read_u32 bc (pos + 1)); b = unat (fuse_read_u32 bc (pos + 5))
               in if a \<le> pos \<or> b \<le> pos \<or> bc_len \<le> a \<or> bc_len \<le> b then Some (bc, es)
                  else (let arm_a = parse_arm_a bc a; arm_b = parse_arm_b bc b
                        in if arm_a = No_Arm \<or> arm_b = No_Arm then Some (bc, es)
                           else if arm_merge arm_a \<noteq> arm_merge arm_b then Some (bc, es)
                           else (let ea = arm_entry es arm_a; eb = arm_entry es arm_b;
                                     ci = (if (\<exists>e \<in> set_option ea \<union> set_option eb. cc_ci e \<noteq> 0) then 1 else 0)
                                 in case fuse_add_union_cc ea (arm_cp arm_a) eb (arm_cp arm_b) ci es of
                                      None \<Rightarrow> None
                                    | Some (merged_id, es') \<Rightarrow>
                                        (if 0xFFFF < int merged_id then Some (bc, es')
                                         else Some (fuse_write pos merged_id (arm_merge arm_a) bc, es'))))))"

primrec fuse_loop :: "nat \<Rightarrow> bytes \<times> cc_entry list \<Rightarrow> (bytes \<times> cc_entry list) option" where
  "fuse_loop 0 st = Some st"
| "fuse_loop (Suc pos) st = (case fuse_at pos st of None \<Rightarrow> None | Some st \<Rightarrow> fuse_loop pos st)"

definition snobol_bc_fuse_split_any :: "compiler \<Rightarrow> compiler compiled" where
  "snobol_bc_fuse_split_any co =
     (case fuse_loop (length (cb_data (co_cb co))) (cb_data (co_cb co), co_classes co) of
        None \<Rightarrow> Crash
      | Some (bc, es) \<Rightarrow> Compiled (co\<lparr>co_cb := (co_cb co)\<lparr>cb_data := bc\<rparr>, co_classes := es\<rparr>))"

section \<open>The whole pattern\<close>

definition emit_ranges :: "range list \<Rightarrow> code_buf \<Rightarrow> code_buf" where
  "emit_ranges rs cb = fold (\<lambda>(start, stop) cb. cb_emit_u32 (cb_emit_u32 cb start) stop) rs cb"

definition emit_class :: "cc_entry \<Rightarrow> code_buf \<Rightarrow> code_buf" where
  "emit_class e cb = emit_ranges (cc_ranges e) (cb_emit_u16 (cb_emit_u16 cb (of_nat (length (cc_ranges e)))) (cc_ci e))"

text \<open>The classes in the order of the reversed list, with their offsets.\<close>

fun emit_classes :: "cc_entry list \<Rightarrow> code_buf \<Rightarrow> nat list \<Rightarrow> code_buf \<times> nat list" where
  "emit_classes [] cb offsets = (cb, offsets)"
| "emit_classes (e # es) cb offsets = emit_classes es (emit_class e cb) (offsets @ [cb_pos cb])"

definition emit_class_table :: "cc_entry list \<Rightarrow> code_buf \<Rightarrow> code_buf" where
  "emit_class_table es cb =
     (let (cb, offsets) = emit_classes (rev es) cb [];
          cb = fold (\<lambda>i cb. cb_emit_u32 cb (of_nat i)) (rev offsets) cb
      in cb_emit_u32 cb (of_nat (length es)))"

definition emit_label_table :: "label_entry list \<Rightarrow> code_buf \<Rightarrow> code_buf" where
  "emit_label_table ls cb =
     cb_emit_u32 (cb_emit_u32 (fold (\<lambda>l cb. cb_emit_u32 cb (if la_defined l then la_offset l else 0)) ls cb)
       (of_nat (length ls))) SNOBOL_LABEL_TABLE_MAGIC"

definition compiler_start :: "bool \<Rightarrow> compiler" where
  "compiler_start case_insensitive =
     \<lparr>co_cb = cb_init, co_classes = [], co_loops = 0, co_ci = case_insensitive, co_labels = []\<rparr>"

text \<open>The instructions, before the tables are added.\<close>

definition compile_code :: "ast \<Rightarrow> bool \<Rightarrow> compiler compiled" where
  "compile_code a case_insensitive =
     cbind (emit_node_c a (compiler_start case_insensitive)) (\<lambda>co.
       if \<exists>l \<in> set (co_labels co). la_referenced l \<and> \<not> la_defined l then Failed
       else Compiled (put_op OC_ACCEPT co))"

definition compile_ast_to_bytecode_c :: "ast \<Rightarrow> bool \<Rightarrow> bytes compiled" where
  "compile_ast_to_bytecode_c a case_insensitive =
     cbind (compile_code a case_insensitive) (\<lambda>co.
       cbind (snobol_bc_fuse_split_any co) (\<lambda>co.
         Compiled (cb_data (emit_label_table (co_labels co) (emit_class_table (co_classes co) (co_cb co))))))"

end
