(* ===== verification/Match_Spec.thy ===== *)
theory Match_Spec
  imports Compiler Vm_Match_Correct
begin

text \<open>
  What a pattern matches: the specification that compiled patterns are measured by. A pattern takes
  a state of a match to the list of the states behind its matches, in the order in which they are
  tried. Positions are numbers of code points. The labels, the output, the tables, and the patterns
  that cut or end the search are not covered, and NOTANY and BAL are not, because the machine
  splits characters in the one and ends the run in the other.
\<close>

section \<open>Texts\<close>

function cps_from :: "bytes \<Rightarrow> nat \<Rightarrow> u32 list" where
  "cps_from s pos = (case utf8_peek_next s pos of None \<Rightarrow> [] | Some (c, n) \<Rightarrow> c # cps_from s (pos + n))"
  by pat_completeness auto
termination by (relation "measure (\<lambda>(s, pos). length s - pos)") (auto dest: utf8_peek_next_bounds)

declare cps_from.simps [simp del]

definition cps_of :: "bytes \<Rightarrow> u32 list" where
  "cps_of s = cps_from s 0"

definition is_text :: "bytes \<Rightarrow> bool" where
  "is_text s \<longleftrightarrow> valid_cps (cps_of s) \<and> utf8 (cps_of s) = s"

text \<open>The set that the text of a class denotes.\<close>

definition in_text :: "bytes \<Rightarrow> u32 \<Rightarrow> bool" where
  "in_text s c \<longleftrightarrow> (\<exists>(a, b) \<in> set (class_items (cps_of s)). a \<le> c \<and> c \<le> b)"

lemma cps_from_utf8: "valid_cps cps \<Longrightarrow> i \<le> length cps \<Longrightarrow> cps_from (utf8 cps) (off cps i) = drop i cps"
proof (induction "length cps - i" arbitrary: i)
  case 0
  then show ?case by (subst cps_from.simps) (simp add: peek_end)
next
  case (Suc k)
  then have i: "i < length cps" by simp
  have "off cps i < off cps (Suc i)" using off_less [OF Suc.prems(1), of i "Suc i"] i by simp
  then show ?case
    using Suc i peek_at [OF Suc.prems(1) i] by (subst cps_from.simps) (simp add: Cons_nth_drop_Suc)
qed

lemma cps_of_utf8: "valid_cps cps \<Longrightarrow> cps_of (utf8 cps) = cps"
  using cps_from_utf8 [of cps 0] by (simp add: cps_of_def)

section \<open>States of a match\<close>

record mstate =
  ms_at :: nat
  ms_cap_start :: "nat list"
  ms_cap_end :: "nat list"
  ms_var_start :: "nat list"
  ms_var_end :: "nat list"

definition ms_init :: mstate where
  "ms_init =
     \<lparr>ms_at = 0, ms_cap_start = replicate MAX_CAPS 0, ms_cap_end = replicate MAX_CAPS 0,
      ms_var_start = replicate MAX_VARS 0, ms_var_end = replicate MAX_VARS 0\<rparr>"

definition go_to :: "nat \<Rightarrow> mstate \<Rightarrow> mstate" where
  "go_to i m = m\<lparr>ms_at := i\<rparr>"

definition set_var :: "nat \<Rightarrow> nat \<Rightarrow> mstate \<Rightarrow> mstate" where
  "set_var x r m =
     m\<lparr>ms_var_start := (ms_var_start m)[x := ms_cap_start m ! r],
       ms_var_end := (ms_var_end m)[x := ms_cap_end m ! r]\<rparr>"

text \<open>A capture sets its register, and behind it the variable of the same number.\<close>

definition open_cap :: "nat \<Rightarrow> mstate \<Rightarrow> mstate" where
  "open_cap r m = m\<lparr>ms_cap_start := (ms_cap_start m)[r := ms_at m]\<rparr>"

definition close_cap :: "nat \<Rightarrow> mstate \<Rightarrow> mstate" where
  "close_cap r m = set_var r r (m\<lparr>ms_cap_end := (ms_cap_end m)[r := ms_at m]\<rparr>)"

lemma go_to_at [simp]: "ms_at (go_to i m) = i" "go_to (ms_at m) m = m"
  by (simp_all add: go_to_def)

lemma caps_at [simp]: "ms_at (open_cap r m) = ms_at m" "ms_at (close_cap r m) = ms_at m" "ms_at (set_var x r m) = ms_at m"
  by (simp_all add: open_cap_def close_cap_def set_var_def)

section \<open>Repetition\<close>

text \<open>
  As often as possible first. A repetition without bounds ends behind a match of its body that is
  empty, so it makes at most one step for every code point and one more.
\<close>

fun star :: "nat \<Rightarrow> (mstate \<Rightarrow> mstate list) \<Rightarrow> mstate \<Rightarrow> mstate list" where
  "star 0 f m = [m]"
| "star (Suc n) f m = concat (map (\<lambda>x. if ms_at x = ms_at m then [x] else star n f x) (f m)) @ [m]"

text \<open>Between \<open>lo\<close> and \<open>hi\<close> times.\<close>

fun repeated :: "nat \<Rightarrow> nat \<Rightarrow> (mstate \<Rightarrow> mstate list) \<Rightarrow> mstate \<Rightarrow> mstate list" where
  "repeated lo 0 f m = [m]"
| "repeated lo (Suc hi) f m = concat (map (repeated (lo - 1) hi f) (f m)) @ (if lo = 0 then [m] else [])"

section \<open>Patterns\<close>

definition only_if :: "bool \<Rightarrow> mstate \<Rightarrow> mstate list" where
  "only_if b m = (if b then [m] else [])"

text \<open>The body of a repetition without bounds, in which such repetitions are unwrapped.\<close>

definition loop_body :: "ast \<Rightarrow> ast" where
  "loop_body a = unwrap_repeat (unwrap_arbno a)"

lemma size_loop_body: "size (loop_body a) \<le> size a" "size (loop_body (unwrap_repeat a)) \<le> size a"
  unfolding loop_body_def
  by (rule order.trans [OF size_unwrap_repeat size_unwrap_arbno],
    rule order.trans [OF order.trans [OF size_unwrap_repeat size_unwrap_arbno] size_unwrap_repeat])

function matches :: "u32 list \<Rightarrow> ast \<Rightarrow> mstate \<Rightarrow> mstate list"
and matches_parts :: "u32 list \<Rightarrow> ast list \<Rightarrow> mstate \<Rightarrow> mstate list" where
  "matches cps (AST_LITERAL s) m =
     (let ls = cps_of s in only_if (take (length ls) (drop (ms_at m) cps) = ls) (go_to (ms_at m + length ls) m))"
| "matches cps (AST_CONCAT parts) m = matches_parts cps parts m"
| "matches cps (AST_ALT l r) m = matches cps l m @ matches cps r m"
| "matches cps (AST_REPETITION a lo hi) m =
     (if lo = 0 \<and> hi = - 1 then star (Suc (length cps)) (matches cps (loop_body (unwrap_repeat a))) m
      else repeated (nat lo) (nat hi) (matches cps a) m)"
| "matches cps (AST_ARBNO a) m = star (Suc (length cps)) (matches cps (loop_body a)) m"
| "matches cps (AST_SPAN s) m =
     (let j = span_to (in_text s) cps (ms_at m) in only_if (ms_at m < j) (go_to j m))"
| "matches cps (AST_BREAK s) m = [go_to (span_to (\<lambda>c. \<not> in_text s c) cps (ms_at m)) m]"
| "matches cps (AST_BREAKX s) m =
     map (\<lambda>j. go_to j m) (filter (\<lambda>j. j < length cps \<longrightarrow> in_text s (cps ! j)) [ms_at m..<Suc (length cps)])"
| "matches cps (AST_ANY text) m =
     (case text of
        None \<Rightarrow> []
      | Some s \<Rightarrow> only_if (ms_at m < length cps \<and> in_text s (cps ! ms_at m)) (go_to (Suc (ms_at m)) m))"
| "matches cps (AST_CAP r a) m = map (close_cap (nat r)) (matches cps a (open_cap (nat r) m))"
| "matches cps (AST_ASSIGN x r) m = [set_var (nat x) (nat r) m]"
| "matches cps (AST_DYNAMIC_EVAL a) m = matches cps a m"
| "matches cps (AST_LEN n) m = only_if (ms_at m + nat n \<le> length cps) (go_to (ms_at m + nat n) m)"
| "matches cps (AST_ANCHOR t) m =
     only_if (case t of ANCHOR_START \<Rightarrow> ms_at m = 0 | ANCHOR_END \<Rightarrow> ms_at m = length cps) m"
| "matches cps AST_REM m = [go_to (length cps) m]"
| "matches cps (AST_POS n) m = only_if (ms_at m = min (nat n) (length cps)) m"
| "matches cps (AST_RPOS n) m = only_if (ms_at m = length cps - nat n) m"
| "matches cps (AST_TAB n) m = only_if (ms_at m \<le> nat n \<and> (nat n < length cps \<or> nat n = 0)) (go_to (nat n) m)"
| "matches cps (AST_RTAB n) m = only_if (ms_at m \<le> length cps - nat n) (go_to (length cps - nat n) m)"
| "matches cps (AST_NOTANY s) m = []"
| "matches cps (AST_EVAL fn_id r) m = []"
| "matches cps (AST_EMIT text r) m = []"
| "matches cps (AST_LABEL name a) m = []"
| "matches cps (AST_GOTO name) m = []"
| "matches cps (AST_TABLE_ACCESS table key) m = []"
| "matches cps (AST_TABLE_UPDATE table key val) m = []"
| "matches cps (AST_BAL x y) m = []"
| "matches cps AST_FENCE m = []"
| "matches cps AST_ABORT m = []"
| "matches cps AST_FAIL m = []"
| "matches cps AST_SUCCEED m = []"
| "matches cps (AST_REG_REF r) m = []"
| "matches_parts cps [] m = [m]"
| "matches_parts cps (a # as) m = concat (map (matches_parts cps as) (matches cps a m))"
  by pat_completeness auto
termination
  by (relation "measure (\<lambda>x. case x of Inl (cps, a, _) \<Rightarrow> size a | Inr (cps, as, _) \<Rightarrow> size_list size as)")
    (auto intro!: le_imp_less_Suc size_loop_body)

section \<open>The patterns covered\<close>

text \<open>The first instruction of the pattern is there and is no SPAN.\<close>

fun plain_start :: "ast \<Rightarrow> bool" where
  "plain_start (AST_SPAN s) = False"
| "plain_start (AST_CONCAT parts) = (case parts of [] \<Rightarrow> False | a # as \<Rightarrow> plain_start a)"
| "plain_start (AST_DYNAMIC_EVAL a) = plain_start a"
| "plain_start a = True"

definition small_int :: "int \<Rightarrow> bool" where
  "small_int n \<longleftrightarrow> 0 \<le> n \<and> n < 2 ^ 31"

definition register :: "int \<Rightarrow> bool" where
  "register r \<longleftrightarrow> 0 \<le> r \<and> r < 64"

fun supported :: "ast \<Rightarrow> bool" where
  "supported (AST_LITERAL s) = is_text s"
| "supported (AST_CONCAT parts) = (\<forall>a \<in> set parts. supported a)"
| "supported (AST_ALT l r) = (supported l \<and> supported r)"
| "supported (AST_REPETITION a lo hi) =
     (supported a \<and>
      (if lo = 0 \<and> hi = - 1 then plain_start (loop_body (unwrap_repeat a))
       else small_int lo \<and> small_int hi \<and> lo \<le> hi \<and> 1 \<le> hi))"
| "supported (AST_ARBNO a) = (supported a \<and> plain_start (loop_body a))"
| "supported (AST_SPAN s) = is_text s"
| "supported (AST_BREAK s) = is_text s"
| "supported (AST_BREAKX s) = is_text s"
| "supported (AST_ANY text) = (case text of None \<Rightarrow> True | Some s \<Rightarrow> is_text s)"
| "supported (AST_CAP r a) = (register r \<and> supported a)"
| "supported (AST_ASSIGN x r) = (register x \<and> register r)"
| "supported (AST_DYNAMIC_EVAL a) = supported a"
| "supported (AST_LEN n) = small_int n"
| "supported (AST_POS n) = small_int n"
| "supported (AST_RPOS n) = small_int n"
| "supported (AST_TAB n) = small_int n"
| "supported (AST_RTAB n) = small_int n"
| "supported (AST_ANCHOR t) = True"
| "supported AST_REM = True"
| "supported AST_FAIL = True"
| "supported _ = False"

lemma supported_unwrap:
  "supported a \<Longrightarrow> supported (unwrap_arbno a)" "supported a \<Longrightarrow> supported (unwrap_repeat a)"
  "supported a \<Longrightarrow> supported (loop_body a)"
proof -
  show 1: "supported (unwrap_arbno a)" if "supported a" for a
    using that by (induction a rule: unwrap_arbno.induct) simp_all
  show 2: "supported (unwrap_repeat a)" if "supported a" for a
    using that by (induction a rule: unwrap_repeat.induct) auto
  show "supported (loop_body a)" if "supported a" using 1 [OF that] 2 by (simp add: loop_body_def)
qed

text \<open>How many trail records a search below one choice can need, on a subject of \<open>n\<close> code points.\<close>

function trail_cost :: "nat \<Rightarrow> ast \<Rightarrow> nat"
and trail_costs :: "nat \<Rightarrow> ast list \<Rightarrow> nat" where
  "trail_cost n (AST_CONCAT parts) = trail_costs n parts"
| "trail_cost n (AST_ALT l r) = max (trail_cost n l) (trail_cost n r)"
| "trail_cost n (AST_REPETITION a lo hi) =
     (if lo = 0 \<and> hi = - 1 then Suc (Suc n) * Suc (trail_cost n (loop_body (unwrap_repeat a)))
      else nat hi * Suc (trail_cost n a))"
| "trail_cost n (AST_ARBNO a) = Suc (Suc n) * Suc (trail_cost n (loop_body a))"
| "trail_cost n (AST_CAP r a) = trail_cost n a + 3"
| "trail_cost n (AST_ASSIGN x r) = 1"
| "trail_cost n (AST_DYNAMIC_EVAL a) = trail_cost n a"
| "trail_cost n (AST_LITERAL s) = 0" | "trail_cost n (AST_SPAN s) = 0" | "trail_cost n (AST_BREAK s) = 0"
| "trail_cost n (AST_ANY t) = 0" | "trail_cost n (AST_NOTANY s) = 0" | "trail_cost n (AST_LEN k) = 0"
| "trail_cost n (AST_EVAL f r) = 0" | "trail_cost n (AST_ANCHOR t) = 0" | "trail_cost n (AST_EMIT x r) = 0"
| "trail_cost n (AST_LABEL x a) = 0" | "trail_cost n (AST_GOTO x) = 0" | "trail_cost n (AST_TABLE_ACCESS x a) = 0"
| "trail_cost n (AST_TABLE_UPDATE x a b) = 0" | "trail_cost n (AST_BREAKX s) = 0" | "trail_cost n (AST_BAL x y) = 0"
| "trail_cost n AST_FENCE = 0" | "trail_cost n AST_REM = 0" | "trail_cost n (AST_RPOS k) = 0"
| "trail_cost n (AST_RTAB k) = 0" | "trail_cost n (AST_POS k) = 0" | "trail_cost n (AST_TAB k) = 0"
| "trail_cost n AST_ABORT = 0" | "trail_cost n AST_FAIL = 0" | "trail_cost n AST_SUCCEED = 0"
| "trail_cost n (AST_REG_REF r) = 0"
| "trail_costs n [] = 0"
| "trail_costs n (a # as) = trail_cost n a + trail_costs n as"
  by pat_completeness auto
termination
  by (relation "measure (\<lambda>x. case x of Inl (_, a) \<Rightarrow> size a | Inr (_, as) \<Rightarrow> size_list size as)")
    (auto intro!: le_imp_less_Suc size_loop_body)

text \<open>The bounds of the loops in the order of their numbers; one number is left unused.\<close>

function loop_limits :: "ast \<Rightarrow> (u32 \<times> u32) list"
and loops_limits :: "ast list \<Rightarrow> (u32 \<times> u32) list" where
  "loop_limits (AST_CONCAT parts) = loops_limits parts"
| "loop_limits (AST_ALT l r) = loop_limits l @ loop_limits r"
| "loop_limits (AST_REPETITION a lo hi) =
     (if lo = 0 \<and> hi = - 1 then (0, - 1) # (0, - 1) # loop_limits (loop_body (unwrap_repeat a))
      else (of_int lo, of_int hi) # loop_limits a)"
| "loop_limits (AST_ARBNO a) = (0, - 1) # loop_limits (loop_body a)"
| "loop_limits (AST_CAP r a) = loop_limits a"
| "loop_limits (AST_DYNAMIC_EVAL a) = loop_limits a"
| "loop_limits (AST_ASSIGN x r) = []"
| "loop_limits (AST_LITERAL s) = []" | "loop_limits (AST_SPAN s) = []" | "loop_limits (AST_BREAK s) = []"
| "loop_limits (AST_ANY t) = []" | "loop_limits (AST_NOTANY s) = []" | "loop_limits (AST_LEN k) = []"
| "loop_limits (AST_EVAL f r) = []" | "loop_limits (AST_ANCHOR t) = []" | "loop_limits (AST_EMIT x r) = []"
| "loop_limits (AST_LABEL x a) = []" | "loop_limits (AST_GOTO x) = []" | "loop_limits (AST_TABLE_ACCESS x a) = []"
| "loop_limits (AST_TABLE_UPDATE x a b) = []" | "loop_limits (AST_BREAKX s) = []" | "loop_limits (AST_BAL x y) = []"
| "loop_limits AST_FENCE = []" | "loop_limits AST_REM = []" | "loop_limits (AST_RPOS k) = []"
| "loop_limits (AST_RTAB k) = []" | "loop_limits (AST_POS k) = []" | "loop_limits (AST_TAB k) = []"
| "loop_limits AST_ABORT = []" | "loop_limits AST_FAIL = []" | "loop_limits AST_SUCCEED = []"
| "loop_limits (AST_REG_REF r) = []"
| "loops_limits [] = []"
| "loops_limits (a # as) = loop_limits a @ loops_limits as"
  by pat_completeness auto
termination
  by (relation "measure (\<lambda>x. case x of Inl a \<Rightarrow> size a | Inr as \<Rightarrow> size_list size as)")
    (auto intro!: le_imp_less_Suc size_loop_body)

section \<open>A match goes on from where it is\<close>

definition forward :: "u32 list \<Rightarrow> (mstate \<Rightarrow> mstate list) \<Rightarrow> bool" where
  "forward cps f \<longleftrightarrow>
     (\<forall>m. ms_at m \<le> length cps \<longrightarrow> (\<forall>x \<in> set (f m). ms_at m \<le> ms_at x \<and> ms_at x \<le> length cps))"

lemma forwardD: "forward cps f \<Longrightarrow> ms_at m \<le> length cps \<Longrightarrow> x \<in> set (f m) \<Longrightarrow> ms_at m \<le> ms_at x \<and> ms_at x \<le> length cps"
  by (simp add: forward_def)

lemma forward_star:
  assumes "forward cps f"
  shows "forward cps (star n f)"
proof (induction n)
  case (Suc n)
  show ?case unfolding forward_def
  proof (intro allI impI ballI)
    fix m x assume m: "ms_at m \<le> length cps" and "x \<in> set (star (Suc n) f m)"
    then consider "x = m" | y where "y \<in> set (f m)" "x = y \<or> x \<in> set (star n f y)"
      by (auto split: if_splits)
    then show "ms_at m \<le> ms_at x \<and> ms_at x \<le> length cps"
    proof cases
      case (2 y)
      then show ?thesis using forwardD [OF assms m 2(1)] forwardD [OF Suc.IH, of y x] by auto
    qed (use m in simp)
  qed
qed (simp add: forward_def)

lemma forward_repeated:
  assumes "forward cps f"
  shows "forward cps (repeated lo hi f)"
proof (induction hi arbitrary: lo)
  case (Suc hi)
  show ?case unfolding forward_def
  proof (intro allI impI ballI)
    fix m x assume m: "ms_at m \<le> length cps" and "x \<in> set (repeated lo (Suc hi) f m)"
    then consider "x = m" | y where "y \<in> set (f m)" "x \<in> set (repeated (lo - 1) hi f y)"
      by (auto split: if_splits)
    then show "ms_at m \<le> ms_at x \<and> ms_at x \<le> length cps"
    proof cases
      case (2 y)
      then show ?thesis using forwardD [OF assms m 2(1)] forwardD [OF Suc.IH, of y x "lo - 1"] by auto
    qed (use m in simp)
  qed
qed (simp add: forward_def)

lemma only_if_set [simp]: "x \<in> set (only_if b m) \<longleftrightarrow> b \<and> x = m"
  by (auto simp: only_if_def)

lemma matches_forward: "forward cps (matches cps a)" "forward cps (matches_parts cps as)"
proof -
  have "ms_at m \<le> length cps \<Longrightarrow> x \<in> set (matches cps a m) \<Longrightarrow> ms_at m \<le> ms_at x \<and> ms_at x \<le> length cps"
    and "ms_at m \<le> length cps \<Longrightarrow> x \<in> set (matches_parts cps as m) \<Longrightarrow> ms_at m \<le> ms_at x \<and> ms_at x \<le> length cps" for m x
  proof (induction cps a m and cps as m arbitrary: x and x rule: matches_matches_parts.induct)
    case (1 cps s m)
    have "length (cps_of s) \<le> length (drop (ms_at m) cps)" if "take (length (cps_of s)) (drop (ms_at m) cps) = cps_of s"
      using arg_cong [OF that, of length] by simp
    then show ?case using 1 by (auto simp: Let_def)
  next
    case (4 cps a lo hi m)
    have "forward cps (matches cps (loop_body (unwrap_repeat a)))" if "lo = 0 \<and> hi = - 1"
      using 4(1) [OF that] unfolding forward_def by blast
    moreover have "forward cps (matches cps a)" if "\<not> (lo = 0 \<and> hi = - 1)"
      using 4(2) [OF that] unfolding forward_def by blast
    ultimately show ?case
      using 4(3,4) forwardD [OF forward_star] forwardD [OF forward_repeated] by (metis (no_types, lifting) matches.simps(4))
  next
    case (5 cps a m)
    have "forward cps (matches cps (loop_body a))" using 5(1) unfolding forward_def by blast
    then show ?case using 5(2,3) forwardD [OF forward_star] by (metis matches.simps(5))
  next
    case (10 cps r a m)
    then show ?case by fastforce
  next
    case (34 cps a as m)
    then show ?case by (fastforce intro: order.trans)
  qed (auto simp: Let_def span_to_bounds split: option.splits anchor_type.splits if_splits)
  then show "forward cps (matches cps a)" "forward cps (matches_parts cps as)" unfolding forward_def by blast+
qed

section \<open>Registers hold positions of the text\<close>

definition within_text :: "u32 list \<Rightarrow> nat list \<Rightarrow> bool" where
  "within_text cps xs \<longleftrightarrow> list_all (\<lambda>i. i \<le> length cps) xs"

definition in_text_at :: "u32 list \<Rightarrow> mstate \<Rightarrow> bool" where
  "in_text_at cps m \<longleftrightarrow>
     ms_at m \<le> length cps \<and> length (ms_cap_start m) = MAX_CAPS \<and> length (ms_cap_end m) = MAX_CAPS \<and>
     within_text cps (ms_cap_start m) \<and> within_text cps (ms_cap_end m) \<and>
     within_text cps (ms_var_start m) \<and> within_text cps (ms_var_end m)"

definition stays_in :: "u32 list \<Rightarrow> (mstate \<Rightarrow> mstate list) \<Rightarrow> bool" where
  "stays_in cps f \<longleftrightarrow> (\<forall>m. in_text_at cps m \<longrightarrow> (\<forall>x \<in> set (f m). in_text_at cps x))"

lemma stays_inD: "stays_in cps f \<Longrightarrow> in_text_at cps m \<Longrightarrow> x \<in> set (f m) \<Longrightarrow> in_text_at cps x"
  by (simp add: stays_in_def)

lemma stays_in_star:
  assumes "stays_in cps f"
  shows "stays_in cps (star n f)"
proof (induction n)
  case (Suc n)
  show ?case unfolding stays_in_def
  proof (intro allI impI ballI)
    fix m x assume m: "in_text_at cps m" and "x \<in> set (star (Suc n) f m)"
    then consider "x = m" | y where "y \<in> set (f m)" "x = y \<or> x \<in> set (star n f y)"
      by (auto split: if_splits)
    then show "in_text_at cps x"
      by cases (use m stays_inD [OF assms m] stays_inD [OF Suc.IH] in blast)+
  qed
qed (simp add: stays_in_def)

lemma stays_in_repeated:
  assumes "stays_in cps f"
  shows "stays_in cps (repeated lo hi f)"
proof (induction hi arbitrary: lo)
  case (Suc hi)
  show ?case unfolding stays_in_def
  proof (intro allI impI ballI)
    fix m x assume m: "in_text_at cps m" and "x \<in> set (repeated lo (Suc hi) f m)"
    then consider "x = m" | y where "y \<in> set (f m)" "x \<in> set (repeated (lo - 1) hi f y)"
      by (auto split: if_splits)
    then show "in_text_at cps x"
      by cases (use m stays_inD [OF assms m] stays_inD [OF Suc.IH] in blast)+
  qed
qed (simp add: stays_in_def)

lemma within_update: "within_text cps xs \<Longrightarrow> i \<le> length cps \<Longrightarrow> within_text cps (xs[k := i])"
  by (cases "k < length xs") (auto simp: within_text_def list_all_length nth_list_update list_update_beyond)

lemma within_nth: "within_text cps xs \<Longrightarrow> r < length xs \<Longrightarrow> xs ! r \<le> length cps"
  by (simp add: within_text_def list_all_length)

lemma in_text_go: "in_text_at cps m \<Longrightarrow> i \<le> length cps \<Longrightarrow> in_text_at cps (go_to i m)"
  by (simp add: in_text_at_def go_to_def)

lemma in_text_open: "in_text_at cps m \<Longrightarrow> in_text_at cps (open_cap r m)"
  by (simp add: in_text_at_def open_cap_def within_update)

lemma in_text_set_var: "in_text_at cps m \<Longrightarrow> r < MAX_CAPS \<Longrightarrow> in_text_at cps (set_var x r m)"
  by (simp add: in_text_at_def set_var_def within_update within_nth)

lemma in_text_close: "in_text_at cps m \<Longrightarrow> r < MAX_CAPS \<Longrightarrow> in_text_at cps (close_cap r m)"
  unfolding close_cap_def by (rule in_text_set_var) (simp_all add: in_text_at_def within_update)

lemma in_text_le: "in_text_at cps m \<Longrightarrow> ms_at m \<le> length cps"
  by (simp add: in_text_at_def)

lemma matches_stays_in:
  "supported a \<Longrightarrow> stays_in cps (matches cps a)" "\<forall>a \<in> set as. supported a \<Longrightarrow> stays_in cps (matches_parts cps as)"
proof -
  have "supported a \<Longrightarrow> in_text_at cps m \<Longrightarrow> x \<in> set (matches cps a m) \<Longrightarrow> in_text_at cps x"
    and "\<forall>a \<in> set as. supported a \<Longrightarrow> in_text_at cps m \<Longrightarrow> x \<in> set (matches_parts cps as m) \<Longrightarrow> in_text_at cps x" for m x
  proof (induction cps a m and cps as m arbitrary: x and x rule: matches_matches_parts.induct)
    case (1 cps s m)
    have "length (cps_of s) \<le> length (drop (ms_at m) cps)" if "take (length (cps_of s)) (drop (ms_at m) cps) = cps_of s"
      using arg_cong [OF that, of length] by simp
    then show ?case using 1 in_text_le [of cps m] by (auto simp: Let_def intro!: in_text_go)
  next
    case (4 cps a lo hi m)
    have s: "supported (loop_body (unwrap_repeat a))" using 4(3) supported_unwrap by (simp split: if_splits)
    show ?case
    proof (cases "lo = 0 \<and> hi = - 1")
      case True
      have "stays_in cps (matches cps (loop_body (unwrap_repeat a)))"
        unfolding stays_in_def using 4(1) [OF True s] by blast
      from stays_inD [OF stays_in_star [OF this] 4(4)] show ?thesis using 4(5) True by (simp del: star.simps)
    next
      case False
      have "stays_in cps (matches cps a)" unfolding stays_in_def using 4(2) [OF False] 4(3) by simp
      from stays_inD [OF stays_in_repeated [OF this] 4(4)] show ?thesis using 4(5) False by simp
    qed
  next
    case (5 cps a m)
    have s: "supported (loop_body a)" using 5(2) supported_unwrap by simp
    have "stays_in cps (matches cps (loop_body a))" unfolding stays_in_def using 5(1) [OF s] by blast
    from stays_inD [OF stays_in_star [OF this] 5(3)] show ?case using 5(4) by (simp del: star.simps)
  next
    case (7 cps s m)
    then show ?case using span_to_bounds in_text_le by (auto intro!: in_text_go)
  next
    case (10 cps r a m)
    then show ?case using in_text_open in_text_close by (fastforce simp: register_def MAX_CAPS_def)
  next
    case (11 cps y r m)
    then show ?case using in_text_set_var [of cps m "nat r" "nat y"] by (simp add: register_def MAX_CAPS_def nat_less_iff)
  next
    case (34 cps a as m)
    obtain y where y: "y \<in> set (matches cps a m)" "x \<in> set (matches_parts cps as y)" using 34(5) by auto
    have "in_text_at cps y" using 34(1) [OF _ 34(4) y(1)] 34(3) by simp
    then show ?case using 34(2) [OF y(1) _ _ y(2)] 34(3) by simp
  qed (auto simp: Let_def span_to_bounds dest: in_text_le intro!: in_text_go split: option.splits anchor_type.splits if_splits)
  then show "supported a \<Longrightarrow> stays_in cps (matches cps a)" "\<forall>a \<in> set as. supported a \<Longrightarrow> stays_in cps (matches_parts cps as)"
    unfolding stays_in_def by blast+
qed

end
