(* ===== verification/Compiler_Layout.thy ===== *)
theory Compiler_Layout
  imports Compiler
begin

text \<open>
  The tables behind the instructions. What the compiler writes there is what the machine finds: the
  ranges of a class by its number, and the offsets of the labels.
\<close>

section \<open>Bytes of words\<close>

lemma be32_u32_bytes: "be32 (xs @ u32_bytes w @ ys) (length xs) = w"
  by (rule u32_eqI) (auto simp: be32_def u32_bytes_def nth_append bit_simps)

lemma be32_u32_bytes_at: "i = length xs \<Longrightarrow> be32 (xs @ u32_bytes w @ ys) i = w"
  by (simp add: be32_u32_bytes)

lemma read_u16_u16_bytes: "read_u16 (xs @ u16_bytes w @ ys) (length xs) = (w, length xs + 2)"
proof -
  have m: "(0xFF :: u16) = mask 8" by (simp add: mask_eq_exp_minus_1)
  have "push_bit 8 (ucast (ucast (drop_bit 8 w AND 0xFF) :: u8)) OR ucast (ucast (w AND 0xFF) :: u8) = (w :: u16)"
  proof (rule bit_word_eqI)
    fix n assume "n < LENGTH(16)"
    then have n: "n < 16" by simp
    show "bit (push_bit 8 (ucast (ucast (drop_bit 8 w AND 0xFF) :: u8)) OR ucast (ucast (w AND 0xFF) :: u8) :: u16) n = bit w n"
      unfolding m using n by (cases "n < 8") (auto simp: bit_simps)
  qed
  then show ?thesis by (simp add: read_u16_def u16_bytes_def nth_append)
qed

lemma read_u32_be32: "ip + 4 \<le> length bc \<Longrightarrow> read_u32 bc ip = (be32 bc ip, ip + 4)"
  by (simp add: read_u32_def be32_def)

section \<open>What is emitted\<close>

definition range_blob :: "range list \<Rightarrow> bytes" where
  "range_blob rs = concat (map (\<lambda>(s, t). u32_bytes s @ u32_bytes t) rs)"

definition class_blob :: "cc_entry \<Rightarrow> bytes" where
  "class_blob e = u16_bytes (of_nat (length (cc_ranges e))) @ u16_bytes (cc_ci e) @ range_blob (cc_ranges e)"

definition words_blob :: "u32 list \<Rightarrow> bytes" where
  "words_blob ws = concat (map u32_bytes ws)"

lemma blob_simps [simp]:
  "range_blob [] = []" "range_blob ((s, t) # rs) = u32_bytes s @ u32_bytes t @ range_blob rs"
  "words_blob [] = []" "words_blob (w # ws) = u32_bytes w @ words_blob ws"
  "words_blob (vs @ ws) = words_blob vs @ words_blob ws"
  by (simp_all add: range_blob_def words_blob_def)

lemma length_words_blob [simp]: "length (words_blob ws) = 4 * length ws"
  by (induction ws) simp_all

lemma length_range_blob [simp]: "length (range_blob rs) = 8 * length rs"
  by (induction rs) auto

lemma emit_ranges_data: "cb_data (emit_ranges rs cb) = cb_data cb @ range_blob rs"
  by (induction rs arbitrary: cb) (auto simp: emit_ranges_def)

lemma emit_class_data: "cb_data (emit_class e cb) = cb_data cb @ class_blob e"
  by (simp add: emit_class_def emit_ranges_data class_blob_def)

lemma emit_classes_data:
  "emit_classes es cb offsets =
     (fst (emit_classes es cb offsets),
      offsets @ map (\<lambda>i. length (cb_data cb) + length (concat (map class_blob (take i es)))) [0..<length es]) \<and>
   cb_data (fst (emit_classes es cb offsets)) = cb_data cb @ concat (map class_blob es)"
proof (induction es arbitrary: cb offsets)
  case (Cons e es)
  have "map f [0..<Suc n] = f 0 # map (\<lambda>i. f (Suc i)) [0..<n]" for f :: "nat \<Rightarrow> nat" and n
    by (simp add: upt_conv_Cons map_Suc_upt [symmetric] del: upt_Suc)
  then show ?case
    using Cons [of "emit_class e cb" "offsets @ [cb_pos cb]"]
    by (simp add: emit_class_data cb_pos_def add.assoc del: upt_Suc)
qed simp

lemma fold_emit_u32: "cb_data (fold (\<lambda>x cb. cb_emit_u32 cb (f x)) xs cb) = cb_data cb @ words_blob (map f xs)"
  by (induction xs arbitrary: cb) simp_all

text \<open>The offset of class number \<open>k\<close> in the list \<open>es\<close>, whose blobs are written from the last on.\<close>

definition class_offset :: "nat \<Rightarrow> cc_entry list \<Rightarrow> nat \<Rightarrow> nat" where
  "class_offset start es k = start + length (concat (map class_blob (rev (drop k es))))"

lemma emit_class_table_data:
  "cb_data (emit_class_table es cb) = cb_data cb @ concat (map class_blob (rev es)) @
     words_blob (map (\<lambda>k. of_nat (class_offset (length (cb_data cb)) es k)) [1..<Suc (length es)]) @
     u32_bytes (of_nat (length es))"
proof -
  let ?n = "length es"
  let ?off = "\<lambda>i. length (cb_data cb) + length (concat (map class_blob (take i (rev es))))"
  have "rev (map ?off [0..<?n]) = map (class_offset (length (cb_data cb)) es) [1..<Suc ?n]"
  proof (rule nth_equalityI)
    fix i assume i: "i < length (rev (map ?off [0..<?n]))"
    have "[0..<?n] ! (?n - Suc i) = ?n - Suc i" using i by (subst nth_upt) simp_all
    then have "rev (map ?off [0..<?n]) ! i = ?off (?n - Suc i)" using i by (simp add: rev_nth del: upt_Suc)
    moreover have "take (?n - Suc i) (rev es) = rev (drop (Suc i) es)" using i by (simp add: take_rev)
    ultimately show "rev (map ?off [0..<?n]) ! i = map (class_offset (length (cb_data cb)) es) [1..<Suc ?n] ! i"
      using i by (simp add: class_offset_def nth_upt del: upt_Suc)
  qed (simp del: upt_Suc)
  then have "rev (snd (emit_classes (rev es) cb [])) = map (class_offset (length (cb_data cb)) es) [1..<Suc ?n]"
    using emit_classes_data [of "rev es" cb "[]"] by (metis append_Nil length_rev snd_conv)
  then show ?thesis
    using emit_classes_data [of "rev es" cb "[]"]
    by (simp add: emit_class_table_def Let_def case_prod_unfold fold_emit_u32 comp_def del: upt_Suc)
qed

lemma emit_label_table_data:
  "cb_data (emit_label_table ls cb) = cb_data cb @
     words_blob (map (\<lambda>l. if la_defined l then la_offset l else 0) ls) @ u32_bytes (of_nat (length ls)) @
     u32_bytes SNOBOL_LABEL_TABLE_MAGIC"
  unfolding emit_label_table_def by (simp add: fold_emit_u32)

section \<open>What the machine finds\<close>

text \<open>Instructions, classes and labels in the layout of compiled bytecode.\<close>

definition laid_out :: "bytes \<Rightarrow> cc_entry list \<Rightarrow> u32 list \<Rightarrow> bytes" where
  "laid_out code es labels = code @ concat (map class_blob (rev es)) @
     words_blob (map (\<lambda>k. of_nat (class_offset (length code) es k)) [1..<Suc (length es)]) @
     u32_bytes (of_nat (length es)) @ words_blob labels @ u32_bytes (of_nat (length labels)) @
     u32_bytes SNOBOL_LABEL_TABLE_MAGIC"

lemma length_laid_out:
  "length (laid_out code es labels) = length code + length (concat (map class_blob (rev es))) + 4 * length es +
     4 + 4 * length labels + 8"
  by (simp add: laid_out_def del: upt_Suc)

lemma class_offset_le:
  "k \<le> length es \<Longrightarrow> class_offset start es k \<le> start + length (concat (map class_blob (rev es)))"
proof -
  assume "k \<le> length es"
  have "rev es = rev (drop k es) @ rev (take k es)" by (simp add: rev_append [symmetric])
  then show ?thesis by (metis add_le_cancel_left class_offset_def concat_append le_add1 length_append map_append)
qed

lemma nat_u32: "n < 2 ^ 32 \<Longrightarrow> unat (of_nat n :: u32) = n"
  by (simp add: unat_of_nat)

lemma laid_out_tail:
  assumes "length (laid_out code es labels) < 2 ^ 32"
  shows "charclass_tail (laid_out code es labels) = Some (length (laid_out code es labels) - (8 + 4 * length labels))"
proof -
  let ?bc = "laid_out code es labels"
  let ?front = "code @ concat (map class_blob (rev es)) @
     words_blob (map (\<lambda>k. of_nat (class_offset (length code) es k)) [1..<Suc (length es)]) @
     u32_bytes (of_nat (length es)) @ words_blob labels"
  have "?bc = (?front @ u32_bytes (of_nat (length labels))) @ u32_bytes SNOBOL_LABEL_TABLE_MAGIC @ []"
    by (simp add: laid_out_def)
  then have magic: "be32 ?bc (length ?bc - 4) = SNOBOL_LABEL_TABLE_MAGIC"
    by (metis be32_u32_bytes_at add_diff_cancel_right' append_Nil2 length_append length_u_bytes(2))
  have "?bc = ?front @ u32_bytes (of_nat (length labels)) @ u32_bytes SNOBOL_LABEL_TABLE_MAGIC"
    by (simp add: laid_out_def)
  moreover have "length ?bc - 8 = length ?front" by (simp add: length_laid_out del: upt_Suc)
  ultimately have "be32 ?bc (length ?bc - 8) = of_nat (length labels)" using be32_u32_bytes_at by metis
  then show ?thesis
    using magic assms nat_u32 [of "length labels"] by (simp add: charclass_tail_def Let_def length_laid_out)
qed

lemma words_blob_nth:
  assumes "i < length ws"
  shows "be32 (xs @ words_blob ws @ ys) (length xs + 4 * i) = ws ! i"
proof -
  have "ws = take i ws @ ws ! i # drop (Suc i) ws" using assms by (simp add: id_take_nth_drop)
  then have "words_blob ws = words_blob (take i ws) @ u32_bytes (ws ! i) @ words_blob (drop (Suc i) ws)"
    by (metis blob_simps(4,5))
  then show ?thesis
    using be32_u32_bytes_at [of "length xs + 4 * i" "xs @ words_blob (take i ws)" "ws ! i" "words_blob (drop (Suc i) ws) @ ys"] assms
    by simp
qed

lemma laid_out_count:
  "be32 (laid_out code es labels) (length (laid_out code es labels) - (8 + 4 * length labels) - 4) = of_nat (length es)"
proof -
  let ?front = "code @ concat (map class_blob (rev es)) @
     words_blob (map (\<lambda>k. of_nat (class_offset (length code) es k)) [1..<Suc (length es)])"
  have "laid_out code es labels = ?front @ u32_bytes (of_nat (length es)) @ (words_blob labels @ u32_bytes (of_nat (length labels)) @
     u32_bytes SNOBOL_LABEL_TABLE_MAGIC)" by (simp add: laid_out_def)
  moreover have "length (laid_out code es labels) - (8 + 4 * length labels) - 4 = length ?front"
    by (simp add: length_laid_out del: upt_Suc)
  ultimately show ?thesis using be32_u32_bytes_at by metis
qed

lemma laid_out_offset:
  assumes "1 \<le> k" "k \<le> length es"
  shows "be32 (laid_out code es labels) (length (laid_out code es labels) - (8 + 4 * length labels) - 4 - 4 * length es + (k - 1) * 4) =
    of_nat (class_offset (length code) es k)"
proof -
  let ?xs = "code @ concat (map class_blob (rev es))"
  let ?ws = "map (\<lambda>k. of_nat (class_offset (length code) es k) :: u32) [1..<Suc (length es)]"
  let ?ys = "u32_bytes (of_nat (length es)) @ words_blob labels @ u32_bytes (of_nat (length labels)) @ u32_bytes SNOBOL_LABEL_TABLE_MAGIC"
  have "laid_out code es labels = ?xs @ words_blob ?ws @ ?ys" by (simp add: laid_out_def)
  moreover have "length (laid_out code es labels) - (8 + 4 * length labels) - 4 - 4 * length es + (k - 1) * 4 = length ?xs + 4 * (k - 1)"
    by (simp add: length_laid_out)
  moreover have "[1..<Suc (length es)] ! (k - 1) = k" using assms by (subst nth_upt) simp_all
  then have "?ws ! (k - 1) = of_nat (class_offset (length code) es k)" using assms by (simp del: upt_Suc)
  moreover have "k - 1 < length ?ws" using assms by (simp del: upt_Suc)
  ultimately show ?thesis using words_blob_nth by metis
qed

lemma laid_out_blob:
  assumes "1 \<le> k" "k \<le> length es"
  obtains pre post where "laid_out code es labels = pre @ class_blob (es ! (k - 1)) @ post" "length pre = class_offset (length code) es k"
proof -
  have d: "drop (k - 1) es = es ! (k - 1) # drop k es"
    using assms Cons_nth_drop_Suc [of "k - 1" es] by simp
  have "rev es = rev (drop (k - 1) es) @ rev (take (k - 1) es)" by (simp add: rev_append [symmetric])
  then have "rev es = rev (drop k es) @ es ! (k - 1) # rev (take (k - 1) es)" using d by simp
  then have "concat (map class_blob (rev es)) =
      concat (map class_blob (rev (drop k es))) @ class_blob (es ! (k - 1)) @ concat (map class_blob (rev (take (k - 1) es)))"
    by simp
  then show thesis
    by (intro that [of "code @ concat (map class_blob (rev (drop k es)))"]) (simp_all add: laid_out_def class_offset_def)
qed

lemma range_at_blob:
  assumes "i < length rs"
  shows "range_at (range_blob rs @ ys) i = rs ! i"
proof -
  obtain s t where st: "rs ! i = (s, t)" by (cases "rs ! i")
  have "rs = take i rs @ (s, t) # drop (Suc i) rs" using assms st by (metis id_take_nth_drop)
  then have "range_blob rs = range_blob (take i rs) @ u32_bytes s @ u32_bytes t @ range_blob (drop (Suc i) rs)"
    unfolding range_blob_def by (metis (no_types, lifting) append.assoc case_prod_conv concat.simps(2) concat_append list.simps(9) map_append)
  then have e: "range_blob rs @ ys = range_blob (take i rs) @ u32_bytes s @ u32_bytes t @ range_blob (drop (Suc i) rs) @ ys" by simp
  have "be32 (range_blob rs @ ys) (i * 8) = s"
    unfolding e by (rule be32_u32_bytes_at) (use assms in simp)
  moreover have "be32 (range_blob rs @ ys) (i * 8 + 4) = t"
    using be32_u32_bytes_at [of "i * 8 + 4" "range_blob (take i rs) @ u32_bytes s" t "range_blob (drop (Suc i) rs) @ ys"] assms
    unfolding e by simp
  ultimately show ?thesis by (simp add: range_at_def st)
qed

text \<open>The machine's view of class \<open>k\<close>: the ranges, their number, the case flag.\<close>

definition finds_class :: "bytes \<Rightarrow> nat \<Rightarrow> cc_entry \<Rightarrow> bool" where
  "finds_class bc k e \<longleftrightarrow>
     (\<exists>ptr. get_ranges_ptr bc None (of_nat k) = Some (ptr, of_nat (length (cc_ranges e)), cc_ci e) \<and>
       8 * length (cc_ranges e) \<le> length ptr \<and> (\<forall>i < length (cc_ranges e). range_at ptr i = cc_ranges e ! i))"

lemma laid_out_class:
  assumes "length (laid_out code es labels) < 2 ^ 32" "length es < 2 ^ 16" "1 \<le> k" "k \<le> length es"
  shows "finds_class (laid_out code es labels) k (es ! (k - 1))"
proof -
  let ?bc = "laid_out code es labels" and ?e = "es ! (k - 1)"
  let ?tail = "length ?bc - (8 + 4 * length labels)"
  obtain pre post where b: "?bc = pre @ class_blob ?e @ post" "length pre = class_offset (length code) es k"
    using laid_out_blob [OF assms(3,4)] .
  have id: "unat (of_nat k :: u16) = k" using assms by (simp add: unat_of_nat)
  have n: "unat (of_nat (length es) :: u32) = length es" using assms(2) by (intro nat_u32) simp
  have len: "length ?bc = length pre + length (class_blob ?e @ post)" unfolding b(1) by simp
  have off: "unat (of_nat (class_offset (length code) es k) :: u32) = length pre"
    unfolding b(2) [symmetric] using assms(1) len by (intro nat_u32) simp
  have tail: "4 + 4 * length es \<le> ?tail" "4 \<le> length ?bc" by (simp_all add: length_laid_out)
  have inside: "\<not> length ?bc \<le> length pre" using len by (simp add: class_blob_def)
  have r1: "read_u16 ?bc (length pre) = (of_nat (length (cc_ranges ?e)), length pre + 2)"
    unfolding b(1) class_blob_def using read_u16_u16_bytes [of pre _ "u16_bytes (cc_ci ?e) @ range_blob (cc_ranges ?e) @ post"] by simp
  have r2: "read_u16 ?bc (length pre + 2) = (cc_ci ?e, length pre + 4)"
    using read_u16_u16_bytes [of "pre @ u16_bytes (of_nat (length (cc_ranges ?e)))" "cc_ci ?e" "range_blob (cc_ranges ?e) @ post"]
    unfolding b(1) class_blob_def by simp
  have ptr: "drop (length pre + 4) ?bc = range_blob (cc_ranges ?e) @ post"
    unfolding b(1) class_blob_def by simp
  have "parse_ranges_ptr ?bc (of_nat k) = Some (range_blob (cc_ranges ?e) @ post, of_nat (length (cc_ranges ?e)), cc_ci ?e)"
    unfolding parse_ranges_ptr_def
    using tail laid_out_tail [OF assms(1)] laid_out_count [of code es labels] laid_out_offset [OF assms(3,4), of code labels]
      n id off inside r1 r2 ptr assms(4)
    by (simp add: Let_def mult.commute)
  moreover have "(of_nat k :: u16) \<noteq> 0" using id assms(3) by auto
  ultimately show ?thesis
    unfolding finds_class_def get_ranges_ptr_def by (simp add: range_at_blob)
qed

end
