(* ===== verification/Vm_Sim.thy ===== *)
theory Vm_Sim
  imports Match_Spec Vm_Backtrack Compiler_Layout
begin

text \<open>
  Rules for what the machine does from an instruction on, in terms of the states of a match. A rule
  says which list of final states a search yields; a search that yields nothing comes back to the
  latest choice before it with the captures, the variables and the loops restored. The rules for
  single instructions are composed to whole patterns by \<open>Compiler_Correct\<close>.
\<close>

section \<open>States\<close>

record prog =
  pg_bc :: bytes
  pg_cps :: "u32 list"
  pg_lim :: "nat \<Rightarrow> u32 \<times> u32"

text \<open>The rounds made in a loop, and where the latest one started.\<close>

type_synonym loops = "nat \<Rightarrow> u32 \<times> nat"

definition same_loops :: "nat set \<Rightarrow> vm \<Rightarrow> vm \<Rightarrow> bool" where
  "same_loops N x v \<longleftrightarrow>
     (\<forall>l < MAX_LOOPS. l \<notin> N \<longrightarrow> counters x ! l = counters v ! l \<and> loop_last_pos x ! l = loop_last_pos v ! l)"

definition limits :: "vm \<Rightarrow> nat \<Rightarrow> u32 \<times> u32" where
  "limits v l = (loop_min v ! l, loop_max v ! l)"

definition static :: "prog \<Rightarrow> vm \<Rightarrow> vm \<Rightarrow> bool" where
  "static P v w \<longleftrightarrow> vm_bc w = vm_bc v \<and> vm_s w = vm_s v \<and> vm_range_meta w = vm_range_meta v \<and>
     length (counters w) = length (counters v) \<and> length (loop_last_pos w) = length (loop_last_pos v) \<and>
     length (loop_min w) = length (loop_min v) \<and> length (loop_max w) = length (loop_max v) \<and>
     loop_span_greedy w = loop_span_greedy v \<and> abort_flag w = abort_flag v \<and>
     (\<forall>l < MAX_LOOPS. limits w l = limits v l \<or> limits w l = pg_lim P l)"

text \<open>
  The machine has moved on from \<open>v\<close> to \<open>w\<close> above the same choices, and its trail leads back. The
  loops in \<open>N\<close> may have changed.
\<close>

definition kept :: "prog \<Rightarrow> nat set \<Rightarrow> vm \<Rightarrow> vm \<Rightarrow> bool" where
  "kept P N v w \<longleftrightarrow> static P v w \<and> compact_inv w \<and> stack_of w = stack_of v \<and>
     (\<exists>rs. vm_trail w = rs @ vm_trail v \<and> same_regs (undo_all rs w) v \<and> same_loops N (undo_all rs w) v)"

text \<open>
  A register holds the offset of a code point, or a number that an earlier run on another text left
  there, for which the numbers beyond the text stand.
\<close>

definition reg_off :: "u32 list \<Rightarrow> nat \<Rightarrow> nat" where
  "reg_off cps i = (if i \<le> length cps then off cps i else i - Suc (length cps))"

definition regs_at :: "u32 list \<Rightarrow> mstate \<Rightarrow> vm \<Rightarrow> bool" where
  "regs_at cps m v \<longleftrightarrow>
     cap_start v = map (reg_off cps) (ms_cap_start m) \<and> cap_end v = map (reg_off cps) (ms_cap_end m) \<and>
     var_start v = map (reg_off cps) (ms_var_start m) \<and> var_end v = map (reg_off cps) (ms_var_end m)"

text \<open>Loops outside \<open>N\<close> are as \<open>R\<close> says; the trail has room for \<open>d\<close> more records.\<close>

definition at_state :: "prog \<Rightarrow> nat set \<Rightarrow> loops \<Rightarrow> nat \<Rightarrow> nat \<Rightarrow> mstate \<Rightarrow> vm \<Rightarrow> bool" where
  "at_state P N R d ip m v \<longleftrightarrow> compact_inv v \<and> vm_bc v = pg_bc P \<and> vm_range_meta v = None \<and> vm_ip v = ip \<and>
     at_cp (pg_cps P) (ms_at m) v \<and> regs_at (pg_cps P) m v \<and>
     length (counters v) = MAX_LOOPS \<and> length (loop_last_pos v) = MAX_LOOPS \<and>
     length (loop_min v) = MAX_LOOPS \<and> length (loop_max v) = MAX_LOOPS \<and>
     (\<forall>l < MAX_LOOPS. \<not> loop_span_greedy v ! l) \<and> length (vm_trail v) + d < 2 ^ 32 \<and>
     (\<forall>l < MAX_LOOPS. l \<notin> N \<longrightarrow>
        counters v ! l = fst (R l) \<and> loop_last_pos v ! l = off (pg_cps P) (snd (R l)) \<and> limits v l = pg_lim P l)"

lemma reg_off_le: "i \<le> length cps \<Longrightarrow> reg_off cps i = off cps i"
  by (simp add: reg_off_def)

lemma reg_off_any: "map (reg_off cps) (map (\<lambda>p. p + Suc (length cps)) ps) = ps"
  by (induction ps) (simp_all add: reg_off_def)

section \<open>Keeping\<close>

lemma same_loops_refl [simp]: "same_loops N v v"
  by (simp add: same_loops_def)

lemma same_loops_mono: "same_loops N x v \<Longrightarrow> N \<subseteq> M \<Longrightarrow> same_loops M x v"
  by (auto simp: same_loops_def)

lemma same_loops_trans: "same_loops N x y \<Longrightarrow> same_loops N y z \<Longrightarrow> same_loops N x z"
  by (simp add: same_loops_def)

lemma nth_update_cong: "length xs = length ys \<Longrightarrow> xs ! l = ys ! l \<Longrightarrow> xs[i := a] ! l = ys[i := a] ! l"
  by (cases "i = l"; cases "l < length xs") (simp_all add: list_update_beyond)

lemma undo_one_loops: "same_loops N v w \<Longrightarrow> length (counters v) = length (counters w) \<Longrightarrow>
    length (loop_last_pos v) = length (loop_last_pos w) \<Longrightarrow> same_loops N (undo_one r v) (undo_one r w)"
  by (cases "un_kind r") (auto simp: undo_one_def same_loops_def intro!: nth_update_cong)

lemma undo_all_loops: "same_loops N v w \<Longrightarrow> length (counters v) = length (counters w) \<Longrightarrow>
    length (loop_last_pos v) = length (loop_last_pos w) \<Longrightarrow> same_loops N (undo_all rs v) (undo_all rs w)"
  by (induction rs arbitrary: v w) (simp_all add: undo_one_loops)

lemma static_refl [simp]: "static P v v"
  by (simp add: static_def)

lemma static_trans: "static P u v \<Longrightarrow> static P v w \<Longrightarrow> static P u w"
  unfolding static_def by (elim conjE, intro conjI) metis+

lemma kept_refl: "compact_inv v \<Longrightarrow> kept P N v v"
  by (auto simp: kept_def intro!: exI [of _ "[]"])

lemma kept_mono: "kept P N v w \<Longrightarrow> N \<subseteq> M \<Longrightarrow> kept P M v w"
  unfolding kept_def using same_loops_mono by blast

lemma kept_trans:
  assumes "kept P N u v" "kept P N v w"
  shows "kept P N u w"
proof -
  obtain rs where rs: "vm_trail v = rs @ vm_trail u" "same_regs (undo_all rs v) u" "same_loops N (undo_all rs v) u"
    using assms(1) by (auto simp: kept_def)
  obtain qs where qs: "vm_trail w = qs @ vm_trail v" "same_regs (undo_all qs w) v" "same_loops N (undo_all qs w) v"
    using assms(2) by (auto simp: kept_def)
  have len: "length (counters w) = length (counters v)" "length (loop_last_pos w) = length (loop_last_pos v)"
    using assms(2) by (simp_all add: kept_def static_def)
  have "same_regs (undo_all (qs @ rs) w) u" "same_loops N (undo_all (qs @ rs) w) u"
    unfolding undo_all_append
    using same_regs_trans [OF undo_all_regs [OF qs(2), of rs] rs(2)]
      same_loops_trans [OF undo_all_loops [OF qs(3), of rs] rs(3)] len by simp_all
  moreover have "vm_trail w = (qs @ rs) @ vm_trail u" using rs qs by simp
  ultimately show ?thesis
    using assms static_trans unfolding kept_def by metis
qed

text \<open>A step that leaves the choices, the trail and the captures alone.\<close>

lemma kept_same:
  assumes "compact_inv v" "static P v w" "choices_arena w = choices_arena v" "use_compact_choice w = use_compact_choice v"
    "vm_trail w = vm_trail v" "same_regs w v" "same_loops N w v"
  shows "kept P N v w"
proof -
  have "tracked v w" using assms by (intro tracked_same)
  then have "compact_inv w" using tracked_resume_list(2) [OF assms(1)] by blast
  then show ?thesis
    using assms by (auto simp: kept_def stack_of_def intro!: exI [of _ "[]"])
qed

text \<open>A step with a record of what it changed, that undoing restores also for the loop \<open>l\<close>.\<close>

lemma kept_record:
  assumes "compact_inv v" "static P v w" "choices_arena w = choices_arena v" "use_compact_choice w = use_compact_choice v"
    "vm_trail w = r # vm_trail v" "same_regs (undo_one r w) v" "same_loops N (undo_one r w) v"
    "length (cap_start w) = length (cap_start v)" "length (cap_end w) = length (cap_end v)"
    "length (var_start w) = length (var_start v)" "length (var_end w) = length (var_end v)"
  shows "kept P N v w"
proof -
  have "tracked v w" by (rule tracked_record) (use assms in simp_all)
  then have "compact_inv w" using tracked_resume_list(2) [OF assms(1)] by blast
  then show ?thesis
    using assms by (auto simp: kept_def stack_of_def intro!: exI [of _ "[r]"])
qed

section \<open>Going back to a choice\<close>

lemma undo_one_scalars:
  "undo_one r (v\<lparr>vm_ip := i, vm_pos := p, var_count := n, max_cap_used := c, max_counter_used := k\<rparr>) =
     (undo_one r v)\<lparr>vm_ip := i, vm_pos := p, var_count := n, max_cap_used := c, max_counter_used := k\<rparr>"
  by (cases "un_kind r") (simp_all add: undo_one_def)

lemma undo_all_scalars_eq:
  "undo_all rs (v\<lparr>vm_ip := i, vm_pos := p, var_count := n, max_cap_used := c, max_counter_used := k\<rparr>) =
     (undo_all rs v)\<lparr>vm_ip := i, vm_pos := p, var_count := n, max_cap_used := c, max_counter_used := k\<rparr>"
  by (induction rs arbitrary: v) (simp_all add: undo_one_scalars)

lemma undo_one_fixed [simp]:
  "vm_range_meta (undo_one r v) = vm_range_meta v" "loop_min (undo_one r v) = loop_min v"
  "loop_max (undo_one r v) = loop_max v" "loop_span_greedy (undo_one r v) = loop_span_greedy v"
  "abort_flag (undo_one r v) = abort_flag v"
  by (cases "un_kind r"; simp add: undo_one_def)+

lemma undo_all_fixed [simp]:
  "vm_range_meta (undo_all rs v) = vm_range_meta v" "loop_min (undo_all rs v) = loop_min v"
  "loop_max (undo_all rs v) = loop_max v" "loop_span_greedy (undo_all rs v) = loop_span_greedy v"
  "abort_flag (undo_all rs v) = abort_flag v"
  by (induction rs arbitrary: v) simp_all

lemma push_choice_fields:
  assumes "compact_inv v" "length (vm_trail v) < 2 ^ 32"
  shows "stack_of (vm_push_choice v b p) = Compact (compact_header v b p) # stack_of v"
    "ch_trail_base (compact_header v b p) = length (vm_trail v)"
    "static P v (vm_push_choice v b p)" "same_loops N (vm_push_choice v b p) v"
    "vm_ip (vm_push_choice v b p) = vm_ip v" "vm_pos (vm_push_choice v b p) = vm_pos v"
    "var_count (vm_push_choice v b p) = var_count v"
proof -
  obtain a where a: "choices_arena v = Some a" using assms(1) by (auto simp: compact_inv_def)
  have w: "vm_push_choice v b p = count_push v (vm_arena_alloc a compact_payload (Compact (compact_header v b p))) (compact_payload + 2 * 4)"
    using a compact_inv_compact [OF assms(1)] by (simp add: vm_push_choice_def)
  show "stack_of (vm_push_choice v b p) = Compact (compact_header v b p) # stack_of v"
    unfolding w by (simp add: stack_of_def count_push_def Let_def a)
  show "ch_trail_base (compact_header v b p) = length (vm_trail v)"
    using assms(2) by (simp add: compact_header_def unat_of_nat)
  show "static P v (vm_push_choice v b p)" "same_loops N (vm_push_choice v b p) v"
    "vm_ip (vm_push_choice v b p) = vm_ip v" "vm_pos (vm_push_choice v b p) = vm_pos v"
    "var_count (vm_push_choice v b p) = var_count v"
    unfolding w by (simp_all add: count_push_def Let_def static_def limits_def same_loops_def)
qed

lemma back_to_choice:
  assumes "compact_inv u" "length (vm_trail u) < 2 ^ 32" "kept P N (vm_push_choice u b p) w"
  obtains x where "backtrack w = Go x" "kept P N u x" "vm_ip x = b" "vm_pos x = p" "vm_trail x = vm_trail u"
    "same_regs x u" "same_loops N x u"
proof -
  let ?h = "compact_header u b p"
  note push = push_choice_fields [OF assms(1,2), where b = b and p = p] and reg = vm_push_choice_compact(3,4) [OF assms(1,2), of b p]
  have st: "stack_of w = Compact ?h # stack_of u" and inv: "compact_inv w"
    and stat: "static P u w"
    using assms(3) push(1) static_trans [OF push(3)] by (simp_all add: kept_def)
  obtain rs where rs: "vm_trail w = rs @ vm_trail u" "same_regs (undo_all rs w) u" "same_loops N (undo_all rs w) u"
    using assms(3) reg push(4) same_regs_trans same_loops_trans unfolding kept_def by metis
  obtain a where a: "choices_arena w = Some a" "arena_wf a" using inv by (auto simp: compact_inv_def)
  have as: "arena_stack a = Compact ?h # stack_of u" using st a by (simp add: stack_of_def)
  obtain fp where t: "arena_tail (ar_cur a) = Some (fp, Compact ?h)"
    using arena_tail_top [OF a(2)] as by fastforce
  have tot: "ar_total_used a \<noteq> 0" using arena_total_0 [OF a(2)] as by simp
  define x where "x = (restore_compact w ?h)\<lparr>choices_arena := Some (vm_arena_pop_last a),
      choices_top := ar_total_used (vm_arena_pop_last a), choice_live_depth := choice_live_depth w - 1\<rparr>"
  have pop: "vm_pop_choice w = Some x"
    using a(1) t tot by (simp add: vm_pop_choice_def x_def Let_def)
  have rc: "restore_compact w ?h =
      ((undo_all rs w)\<lparr>vm_ip := b, vm_pos := p, var_count := ch_var_count ?h, max_cap_used := ch_max_cap_used ?h,
        max_counter_used := ch_max_counter_used ?h\<rparr>)\<lparr>vm_trail := vm_trail u\<rparr>"
    using rs(1) push(2)
    by (simp add: restore_compact_def vm_trail_replay_def Let_def undo_all_scalars_eq)
      (simp add: compact_header_def)
  have fields: "vm_ip x = b" "vm_pos x = p" "vm_trail x = vm_trail u" unfolding x_def rc by simp_all
  have regs: "same_regs x u" using rs(2) unfolding x_def rc by (simp add: same_regs_def)
  have loops: "same_loops N x u" using rs(3) unfolding x_def rc by (simp add: same_loops_def)
  have "static P u x" using stat unfolding x_def rc by (simp add: static_def limits_def)
  moreover have "stack_of x = stack_of u"
    unfolding x_def by (simp add: stack_of_def vm_arena_pop_last_wf(2) [OF a(2)] as)
  moreover have "compact_inv x" using vm_pop_choice_compact(2) [OF inv pop] .
  ultimately have "kept P N u x" using fields regs loops by (auto simp: kept_def intro!: exI [of _ "[]"])
  then show thesis using that [of x] pop fields regs loops by (simp add: backtrack_def)
qed

lemma at_again:
  assumes "at_state P N R d i m u" "kept P N u x" "vm_ip x = b" "vm_pos x = off (pg_cps P) j" "j \<le> length (pg_cps P)"
    "vm_trail x = vm_trail u" "same_regs x u" "same_loops N x u"
  shows "at_state P N R d b (go_to j m) x"
proof -
  have s: "static P u x" and c: "compact_inv x" using assms(2) by (simp_all add: kept_def)
  have r: "regs_at (pg_cps P) (go_to j m) x"
    using assms(1,7) by (simp add: at_state_def regs_at_def same_regs_def go_to_def)
  have "limits x l = pg_lim P l" if "l < MAX_LOOPS" "l \<notin> N" for l
    using s assms(1) that unfolding static_def at_state_def by metis
  then show ?thesis
    using assms s c r unfolding at_state_def static_def at_cp_def same_loops_def by simp
qed

section \<open>What a search yields\<close>

definition go :: "vm \<Rightarrow> vm \<Rightarrow> bool" where
  "go v w \<longleftrightarrow> (\<forall>run. vm_step run v = Go w)"

definition fails :: "prog \<Rightarrow> nat set \<Rightarrow> vm \<Rightarrow> bool" where
  "fails P N v \<longleftrightarrow> (\<exists>u w. go\<^sup>*\<^sup>* v u \<and> (\<forall>run. vm_step run u = backtrack w) \<and> kept P N v w)"

definition wins :: "prog \<Rightarrow> vm \<Rightarrow> mstate \<Rightarrow> bool" where
  "wins P v m \<longleftrightarrow> (\<exists>u w. go\<^sup>*\<^sup>* v u \<and> (\<forall>run. vm_step run u = Done True w) \<and>
     vm_pos w = off (pg_cps P) (ms_at m) \<and> regs_at (pg_cps P) m w)"

definition search :: "prog \<Rightarrow> nat set \<Rightarrow> vm \<Rightarrow> mstate list \<Rightarrow> bool" where
  "search P N v L = (case L of [] \<Rightarrow> fails P N v | m # _ \<Rightarrow> wins P v m)"

definition yields :: "prog \<Rightarrow> nat set \<Rightarrow> loops \<Rightarrow> nat \<Rightarrow> nat \<Rightarrow> mstate \<Rightarrow> mstate list \<Rightarrow> bool" where
  "yields P N R d ip m L \<longleftrightarrow> (\<forall>v. at_state P N R d ip m v \<longrightarrow> search P N v L)"

lemma search_go:
  assumes "go\<^sup>*\<^sup>* v w" "\<And>x. kept P N' w x \<Longrightarrow> kept P N v x" "search P N' w L"
  shows "search P N v L"
proof (cases L)
  case Nil
  then obtain u x where "go\<^sup>*\<^sup>* w u" "\<forall>run. vm_step run u = backtrack x" "kept P N' w x"
    using assms(3) by (auto simp: search_def fails_def)
  then have "fails P N v" using assms(1,2) rtranclp_trans [of go v w u] by (auto simp: fails_def)
  then show ?thesis by (simp add: search_def Nil)
next
  case (Cons m ms)
  then have "wins P v m" using assms(1,3) rtranclp_trans [of go v w] by (auto simp: search_def wins_def)
  then show ?thesis by (simp add: search_def Cons)
qed

lemma at_state_less: "at_state P N R d ip m v \<Longrightarrow> d' \<le> d \<Longrightarrow> at_state P N R d' ip m v"
  by (simp add: at_state_def)

lemma yields_less: "yields P N R d ip m L \<Longrightarrow> d \<le> d' \<Longrightarrow> yields P N R d' ip m L"
  unfolding yields_def using at_state_less by blast

lemma yields_go:
  assumes "\<And>v. at_state P N R (d + k) ip m v \<Longrightarrow>
      \<exists>w. go v w \<and> at_state P N' R' d ip' m' w \<and> (\<forall>x. kept P N' w x \<longrightarrow> kept P N v x)"
    and "yields P N' R' d ip' m' L"
  shows "yields P N R (d + k) ip m L"
  unfolding yields_def
proof (intro allI impI)
  fix v assume "at_state P N R (d + k) ip m v"
  then obtain w where w: "go v w" "at_state P N' R' d ip' m' w" "\<And>x. kept P N' w x \<Longrightarrow> kept P N v x"
    using assms(1) by blast
  show "search P N v L"
    using search_go [OF r_into_rtranclp [of go, OF w(1)] w(3)] w(2) assms(2) by (simp add: yields_def)
qed

lemma yields_fail:
  assumes "\<And>v. at_state P N R d ip m v \<Longrightarrow> \<exists>w. (\<forall>run. vm_step run v = backtrack w) \<and> kept P N v w"
  shows "yields P N R d ip m []"
  using assms by (auto simp: yields_def search_def fails_def)

text \<open>
  An instruction that pushes a choice: the search goes on from \<open>w\<close>, and when that yields nothing from
  the choice, which was pushed in the state \<open>u\<close>.
\<close>

lemma yields_choice:
  assumes step: "\<And>v. at_state P N R (d + k) ip m v \<Longrightarrow>
      \<exists>u w i. go v w \<and> at_state P Nb Rb d i mb u \<and> at_state P Na Ra d ipa ma w \<and>
        (\<forall>x. kept P Na w x \<longrightarrow> kept P Nb (vm_push_choice u b (off (pg_cps P) j)) x) \<and> (\<forall>x. kept P Nb u x \<longrightarrow> kept P N v x)"
    and j: "\<And>v. at_state P N R (d + k) ip m v \<Longrightarrow> j \<le> length (pg_cps P)"
    and first: "yields P Na Ra d ipa ma La" and second: "yields P Nb Rb d b (go_to j mb) Lb"
  shows "yields P N R (d + k) ip m (La @ Lb)"
  unfolding yields_def
proof (intro allI impI)
  fix v assume v: "at_state P N R (d + k) ip m v"
  then obtain u w i where w: "go v w" "at_state P Nb Rb d i mb u" "at_state P Na Ra d ipa ma w"
    "\<And>x. kept P Na w x \<Longrightarrow> kept P Nb (vm_push_choice u b (off (pg_cps P) j)) x" "\<And>x. kept P Nb u x \<Longrightarrow> kept P N v x"
    using step by blast
  have s1: "search P Na w La" using first w(3) by (simp add: yields_def)
  show "search P N v (La @ Lb)"
  proof (cases La)
    case (Cons x xs)
    then have "wins P w x" using s1 by (simp add: search_def)
    then have "wins P v x" using w(1) converse_rtranclp_into_rtranclp [of go v w] by (auto simp: wins_def)
    then show ?thesis by (simp add: search_def Cons)
  next
    case Nil
    then obtain u1 w1 where f: "go\<^sup>*\<^sup>* w u1" "\<forall>run. vm_step run u1 = backtrack w1" "kept P Na w w1"
      using s1 by (auto simp: search_def fails_def)
    have u: "compact_inv u" "length (vm_trail u) < 2 ^ 32" using w(2) by (simp_all add: at_state_def)
    obtain x where x: "backtrack w1 = Go x" "kept P Nb u x" "vm_ip x = b" "vm_pos x = off (pg_cps P) j"
      "vm_trail x = vm_trail u" "same_regs x u" "same_loops Nb x u"
      using back_to_choice [OF u w(4) [OF f(3)]] .
    have a: "at_state P Nb Rb d b (go_to j mb) x" using at_again [OF w(2) x(2,3,4) j [OF v] x(5-7)] .
    have "go u1 x" using f(2) x(1) by (simp add: go_def)
    then have "go\<^sup>*\<^sup>* v x" using w(1) f(1) by (meson converse_rtranclp_into_rtranclp rtranclp.rtrancl_into_rtrancl)
    moreover have "kept P N v y" if "kept P Nb x y" for y using w(5) kept_trans [OF x(2) that] .
    ultimately show ?thesis using search_go [of v x P Nb N Lb] second a by (simp add: yields_def Nil)
  qed
qed

section \<open>Instructions in the bytecode\<close>

definition code_at :: "bytes \<Rightarrow> nat \<Rightarrow> bytes \<Rightarrow> bool" where
  "code_at bc ip b \<longleftrightarrow> ip + length b \<le> length bc \<and> sub_list ip (length b) bc = b"

lemma code_atE:
  assumes "code_at bc ip b"
  obtains xs ys where "bc = xs @ b @ ys" "length xs = ip"
proof -
  have "bc = take ip bc @ sub_list ip (length b) bc @ drop (ip + length b) bc"
    unfolding sub_list_def by (metis add.commute append_take_drop_id drop_drop)
  then show thesis using that [of "take ip bc"] assms by (simp add: code_at_def)
qed

lemma code_atI: "bc = xs @ b @ ys \<Longrightarrow> length xs = ip \<Longrightarrow> code_at bc ip b"
  by (auto simp: code_at_def sub_list_def)

lemma code_at_append [simp]:
  "code_at bc ip (a @ b) \<longleftrightarrow> code_at bc ip a \<and> code_at bc (ip + length a) b"
proof
  assume "code_at bc ip (a @ b)"
  then obtain xs ys where "bc = xs @ (a @ b) @ ys" "length xs = ip" by (rule code_atE)
  then show "code_at bc ip a \<and> code_at bc (ip + length a) b"
    using code_atI [of bc xs a "b @ ys"] code_atI [of bc "xs @ a" b ys] by simp
next
  assume c: "code_at bc ip a \<and> code_at bc (ip + length a) b"
  have "sub_list ip (length (a @ b)) bc = sub_list ip (length a) bc @ sub_list (ip + length a) (length b) bc"
    by (simp add: sub_list_def take_add drop_drop add.commute)
  then show "code_at bc ip (a @ b)" using c by (simp add: code_at_def)
qed

lemma code_at_Nil [simp]: "code_at bc ip [] \<longleftrightarrow> ip \<le> length bc"
  by (simp add: code_at_def sub_list_def)

lemma code_at_Cons [simp]: "code_at bc ip (x # b) \<longleftrightarrow> ip < length bc \<and> bc ! ip = x \<and> code_at bc (Suc ip) b"
proof -
  have "code_at bc ip [x] \<longleftrightarrow> ip < length bc \<and> bc ! ip = x"
    by (auto simp: code_at_def sub_list_def hd_drop_conv_nth take_Suc)
  then show ?thesis using code_at_append [of bc ip "[x]" b] by simp
qed

lemma decode_op_byte [simp]: "decode_op (op_byte oc) = Some oc"
  by (cases oc) (simp_all add: decode_op_def op_byte_def op_codes_def)

lemma step_at:
  assumes "code_at (vm_bc v) (vm_ip v) (op_byte oc # b)"
  shows "vm_step run v = exec_op run oc (v\<lparr>vm_ip := Suc (vm_ip v)\<rparr>)"
  using assms by (simp add: vm_step_def)

lemma operands_at:
  "code_at (vm_bc v) (vm_ip v) (u32_bytes x) \<Longrightarrow> operand_u32 v = (x, v\<lparr>vm_ip := vm_ip v + 4\<rparr>)"
  "code_at (vm_bc v) (vm_ip v) (u16_bytes y) \<Longrightarrow> operand_u16 v = (y, v\<lparr>vm_ip := vm_ip v + 2\<rparr>)"
  "code_at (vm_bc v) (vm_ip v) [z] \<Longrightarrow> operand_u8 v = (z, v\<lparr>vm_ip := vm_ip v + 1\<rparr>)"
proof -
  assume c: "code_at (vm_bc v) (vm_ip v) (u32_bytes x)"
  obtain xs ys where "vm_bc v = xs @ u32_bytes x @ ys" "length xs = vm_ip v" using c by (rule code_atE)
  then show "operand_u32 v = (x, v\<lparr>vm_ip := vm_ip v + 4\<rparr>)"
    using read_u32_be32 [of "vm_ip v" "vm_bc v"] be32_u32_bytes [of xs x ys] c
    by (simp add: operand_u32_def code_at_def)
next
  assume c: "code_at (vm_bc v) (vm_ip v) (u16_bytes y)"
  obtain xs ys where "vm_bc v = xs @ u16_bytes y @ ys" "length xs = vm_ip v" using c by (rule code_atE)
  then show "operand_u16 v = (y, v\<lparr>vm_ip := vm_ip v + 2\<rparr>)"
    using read_u16_u16_bytes [of xs y ys] by (simp add: operand_u16_def)
next
  assume "code_at (vm_bc v) (vm_ip v) [z]"
  then show "operand_u8 v = (z, v\<lparr>vm_ip := vm_ip v + 1\<rparr>)"
    by (simp add: operand_u8_def read_u8_def)
qed

section \<open>Single instructions\<close>

lemma at_stateD:
  assumes "at_state P N R d ip m v"
  shows "compact_inv v" "vm_bc v = pg_bc P" "vm_range_meta v = None" "vm_ip v = ip" "at_cp (pg_cps P) (ms_at m) v"
    "regs_at (pg_cps P) m v" "length (vm_trail v) + d < 2 ^ 32" "ms_at m \<le> length (pg_cps P)"
    "vm_pos v = off (pg_cps P) (ms_at m)" "vm_s v = utf8 (pg_cps P)" "use_compact_choice v"
  using assms at_cpD [of "pg_cps P" "ms_at m" v] compact_inv_compact [of v] by (simp_all add: at_state_def)

lemma compact_inv_move: "compact_inv (v\<lparr>vm_ip := i, vm_pos := p\<rparr>) = compact_inv v"
  by (simp add: compact_inv_def stack_of_def)

lemma at_state_move:
  "at_state P N R d ip m v \<Longrightarrow> j \<le> length (pg_cps P) \<Longrightarrow>
     at_state P N R d i (go_to j m) (v\<lparr>vm_ip := i, vm_pos := off (pg_cps P) j\<rparr>)"
  by (simp add: at_state_def compact_inv_move at_cp_def regs_at_def limits_def go_to_def)

lemma kept_move: "at_state P N R d ip m v \<Longrightarrow> kept P N v (v\<lparr>vm_ip := i, vm_pos := p\<rparr>)"
  by (rule kept_same) (simp_all add: at_state_def static_def limits_def same_regs_def same_loops_def)

text \<open>An instruction that tests something and moves the cursor, or goes back.\<close>

lemma yields_test:
  assumes "\<And>v run. at_state P N R d ip m v \<Longrightarrow>
      vm_step run v = (if c then Go (v\<lparr>vm_ip := ip', vm_pos := off (pg_cps P) j\<rparr>) else backtrack (v\<lparr>vm_ip := i\<rparr>))"
    and "\<And>v. at_state P N R d ip m v \<Longrightarrow> c \<Longrightarrow> j \<le> length (pg_cps P)"
    and "\<forall>x \<in> set (only_if c (go_to j m)). yields P N R d ip' x (F x)"
  shows "yields P N R d ip m (concat (map F (only_if c (go_to j m))))"
proof (cases c)
  case True
  have "yields P N R (d + 0) ip m (F (go_to j m))"
  proof (rule yields_go [where N' = N and R' = R and ip' = ip' and m' = "go_to j m"])
    fix v assume "at_state P N R (d + 0) ip m v"
    then have a: "at_state P N R d ip m v" by simp
    let ?w = "v\<lparr>vm_ip := ip', vm_pos := off (pg_cps P) j\<rparr>"
    have "go v ?w" using assms(1) [OF a] True by (simp add: go_def)
    moreover have "at_state P N R d ip' (go_to j m) ?w" using at_state_move [OF a assms(2) [OF a True]] .
    moreover have "kept P N v x" if "kept P N ?w x" for x using kept_trans [OF kept_move [OF a] that] .
    ultimately show "\<exists>w. go v w \<and> at_state P N R d ip' (go_to j m) w \<and> (\<forall>x. kept P N w x \<longrightarrow> kept P N v x)" by blast
  qed (use assms(3) True in simp)
  then show ?thesis using True by (simp add: only_if_def)
next
  case False
  have "yields P N R d ip m []"
  proof (rule yields_fail)
    fix v assume a: "at_state P N R d ip m v"
    have "kept P N v (v\<lparr>vm_ip := i\<rparr>)" using kept_move [OF a, where i = i and p = "vm_pos v"] by simp
    then show "\<exists>w. (\<forall>run. vm_step run v = backtrack w) \<and> kept P N v w" using assms(1) [OF a] False by auto
  qed
  then show ?thesis using False by (simp add: only_if_def)
qed

text \<open>The machine behind the opcode, and behind an operand.\<close>

lemma at_cp_ip [simp]: "at_cp cps i (v\<lparr>vm_ip := k\<rparr>) = at_cp cps i v"
  by (simp add: at_cp_def)

lemma u32_operand:
  assumes "at_state P N R d ip m v" "code_at (pg_bc P) ip (op_byte oc # u32_bytes n)"
  shows "vm_step run v = exec_op run oc (v\<lparr>vm_ip := Suc ip\<rparr>)"
    "count_operand (v\<lparr>vm_ip := Suc ip\<rparr>) = unat n" "after_u32 (v\<lparr>vm_ip := Suc ip\<rparr>) = v\<lparr>vm_ip := ip + 5\<rparr>"
    "at_cp (pg_cps P) (ms_at m) (v\<lparr>vm_ip := Suc ip\<rparr>)"
proof -
  note a = at_stateD [OF assms(1)]
  have c: "code_at (pg_bc P) (Suc ip) (u32_bytes n)" using assms(2) by simp
  show "vm_step run v = exec_op run oc (v\<lparr>vm_ip := Suc ip\<rparr>)" using step_at [of v oc "u32_bytes n"] assms(2) a by simp
  have "operand_u32 (v\<lparr>vm_ip := Suc ip\<rparr>) = (n, v\<lparr>vm_ip := ip + 5\<rparr>)"
    using operands_at(1) [of "v\<lparr>vm_ip := Suc ip\<rparr>" n] c a by simp
  then show "count_operand (v\<lparr>vm_ip := Suc ip\<rparr>) = unat n" "after_u32 (v\<lparr>vm_ip := Suc ip\<rparr>) = v\<lparr>vm_ip := ip + 5\<rparr>"
    by (simp_all add: count_operand_def after_u32_def)
  show "at_cp (pg_cps P) (ms_at m) (v\<lparr>vm_ip := Suc ip\<rparr>)" using a(5) by simp
qed

lemma vm_pos_id: "vm_pos v = p \<Longrightarrow> v\<lparr>vm_ip := i, vm_pos := p\<rparr> = v\<lparr>vm_ip := i\<rparr>"
  by simp

lemma yields_count:
  assumes "code_at (pg_bc P) ip (op_byte oc # u32_bytes n)"
    and "\<And>v run. at_cp (pg_cps P) (ms_at m) v \<Longrightarrow> count_operand v = unat n \<Longrightarrow>
      exec_op run oc v = (if c then Go (move_to (after_u32 v) (off (pg_cps P) j)) else backtrack (after_u32 v))"
    and "c \<Longrightarrow> ms_at m \<le> length (pg_cps P) \<Longrightarrow> j \<le> length (pg_cps P)"
    and "\<forall>x \<in> set (only_if c (go_to j m)). yields P N R d (ip + 5) x (F x)"
  shows "yields P N R d ip m (concat (map F (only_if c (go_to j m))))"
proof (rule yields_test [OF _ _ assms(4)])
  fix v run assume a: "at_state P N R d ip m v"
  note o = u32_operand [OF a assms(1)]
  show "vm_step run v = (if c then Go (v\<lparr>vm_ip := ip + 5, vm_pos := off (pg_cps P) j\<rparr>) else backtrack (v\<lparr>vm_ip := ip + 5\<rparr>))"
    using assms(2) [OF o(4) o(2)] o(1,3) by (simp add: move_to_def)
  show "c \<Longrightarrow> j \<le> length (pg_cps P)" using assms(3) at_stateD(8) [OF a] by blast
qed

lemma yields_len:
  assumes "code_at (pg_bc P) ip (op_byte OC_LEN # u32_bytes n)"
    and "\<forall>x \<in> set (only_if (ms_at m + unat n \<le> length (pg_cps P)) (go_to (ms_at m + unat n) m)). yields P N R d (ip + 5) x (F x)"
  shows "yields P N R d ip m (concat (map F (only_if (ms_at m + unat n \<le> length (pg_cps P)) (go_to (ms_at m + unat n) m))))"
  by (rule yields_count [OF assms(1) _ _ assms(2)]) (simp_all add: op_len_at)

lemma yields_tab:
  assumes "code_at (pg_bc P) ip (op_byte OC_TAB # u32_bytes n)"
    and "\<forall>x \<in> set (only_if (ms_at m \<le> unat n \<and> (unat n < length (pg_cps P) \<or> unat n = 0)) (go_to (unat n) m)). yields P N R d (ip + 5) x (F x)"
  shows "yields P N R d ip m (concat (map F (only_if (ms_at m \<le> unat n \<and> (unat n < length (pg_cps P) \<or> unat n = 0)) (go_to (unat n) m))))"
  by (rule yields_count [OF assms(1) _ _ assms(2)]) (auto simp: op_tab_at)

lemma yields_rtab:
  assumes "code_at (pg_bc P) ip (op_byte OC_RTAB # u32_bytes n)"
    and "\<forall>x \<in> set (only_if (ms_at m \<le> length (pg_cps P) - unat n) (go_to (length (pg_cps P) - unat n) m)). yields P N R d (ip + 5) x (F x)"
  shows "yields P N R d ip m (concat (map F (only_if (ms_at m \<le> length (pg_cps P) - unat n) (go_to (length (pg_cps P) - unat n) m))))"
  by (rule yields_count [OF assms(1) _ _ assms(2)]) (simp_all add: op_rtab_at)

text \<open>The same for an instruction that leaves the cursor where it is.\<close>

lemma at_cp_stay: "at_cp cps i v \<Longrightarrow> move_to (after_u32 v) (off cps i) = after_u32 v"
  by (simp add: at_cp_def move_to_def after_u32_def operand_u32_def case_prod_unfold Let_def)

lemma yields_count_stay:
  assumes "code_at (pg_bc P) ip (op_byte oc # u32_bytes n)"
    and "\<And>v run. at_cp (pg_cps P) (ms_at m) v \<Longrightarrow> count_operand v = unat n \<Longrightarrow>
      exec_op run oc v = (if c then Go (after_u32 v) else backtrack (after_u32 v))"
    and "\<forall>x \<in> set (only_if c m). yields P N R d (ip + 5) x (F x)"
  shows "yields P N R d ip m (concat (map F (only_if c m)))"
proof -
  have "yields P N R d ip m (concat (map F (only_if c (go_to (ms_at m) m))))"
    by (rule yields_count [OF assms(1)]) (use assms(2,3) in \<open>simp_all add: at_cp_stay\<close>)
  then show ?thesis by simp
qed

lemma yields_pos:
  assumes "code_at (pg_bc P) ip (op_byte OC_POS # u32_bytes n)"
    and "\<forall>x \<in> set (only_if (ms_at m = min (unat n) (length (pg_cps P))) m). yields P N R d (ip + 5) x (F x)"
  shows "yields P N R d ip m (concat (map F (only_if (ms_at m = min (unat n) (length (pg_cps P))) m)))"
  by (rule yields_count_stay [OF assms(1) _ assms(2)]) (simp add: op_pos_at)

lemma yields_rpos:
  assumes "code_at (pg_bc P) ip (op_byte OC_RPOS # u32_bytes n)"
    and "\<forall>x \<in> set (only_if (ms_at m = length (pg_cps P) - unat n) m). yields P N R d (ip + 5) x (F x)"
  shows "yields P N R d ip m (concat (map F (only_if (ms_at m = length (pg_cps P) - unat n) m)))"
  by (rule yields_count_stay [OF assms(1) _ assms(2)]) (simp add: op_rpos_at)

text \<open>An instruction that always goes on.\<close>

lemma yields_step:
  assumes "\<And>v run. at_state P N R d ip m v \<Longrightarrow> vm_step run v = Go (v\<lparr>vm_ip := ip', vm_pos := off (pg_cps P) j\<rparr>)"
    and "\<And>v. at_state P N R d ip m v \<Longrightarrow> j \<le> length (pg_cps P)"
    and "yields P N R d ip' (go_to j m) L"
  shows "yields P N R d ip m L"
  using yields_test [where c = True and F = "\<lambda>_. L" and m = m and j = j and ip' = ip', of P N R d ip] assms
  by (simp add: only_if_def)

lemma step_op:
  assumes "at_state P N R d ip m v" "code_at (pg_bc P) ip (op_byte oc # b)"
  shows "vm_step run v = exec_op run oc (v\<lparr>vm_ip := Suc ip\<rparr>)"
  using step_at [of v oc b run] assms(2) at_stateD [OF assms(1)] by simp

lemma yields_rem:
  assumes "code_at (pg_bc P) ip [op_byte OC_REM]" "yields P N R d (Suc ip) (go_to (length (pg_cps P)) m) L"
  shows "yields P N R d ip m L"
proof (rule yields_step [OF _ _ assms(2)])
  fix v run assume a: "at_state P N R d ip m v"
  show "vm_step run v = Go (v\<lparr>vm_ip := Suc ip, vm_pos := off (pg_cps P) (length (pg_cps P))\<rparr>)"
    using step_op [OF a assms(1), of run] at_stateD [OF a] by (simp add: op_rem_def move_to_def)
qed simp

lemma yields_jmp:
  assumes "code_at (pg_bc P) ip (op_byte OC_JMP # u32_bytes n)" "yields P N R d (unat n) m L"
  shows "yields P N R d ip m L"
proof (rule yields_step [where j = "ms_at m" and ip' = "unat n"])
  fix v run assume a: "at_state P N R d ip m v"
  note o = u32_operand [OF a assms(1)]
  have "op_jmp (v\<lparr>vm_ip := Suc ip\<rparr>) = Go (v\<lparr>vm_ip := unat n\<rparr>)"
    using o(2,3) by (simp add: op_jmp_def count_operand_def after_u32_def case_prod_unfold Let_def)
  then show "vm_step run v = Go (v\<lparr>vm_ip := unat n, vm_pos := off (pg_cps P) (ms_at m)\<rparr>)"
    using o(1) at_stateD [OF a] by simp
  show "ms_at m \<le> length (pg_cps P)" using at_stateD [OF a] by simp
qed (use assms(2) in simp)

lemma yields_FAIL: "code_at (pg_bc P) ip [op_byte OC_FAIL] \<Longrightarrow> yields P N R d ip m []"
proof (rule yields_fail)
  fix v assume c: "code_at (pg_bc P) ip [op_byte OC_FAIL]" and a: "at_state P N R d ip m v"
  have "kept P N v (v\<lparr>vm_ip := Suc ip\<rparr>)" using kept_move [OF a, where i = "Suc ip" and p = "vm_pos v"] by simp
  then show "\<exists>w. (\<forall>run. vm_step run v = backtrack w) \<and> kept P N v w" using step_op [OF a c] by (auto simp: op_fail_def)
qed

lemma yields_accept: "code_at (pg_bc P) ip [op_byte OC_ACCEPT] \<Longrightarrow> yields P N R d ip m [m]"
proof -
  assume c: "code_at (pg_bc P) ip [op_byte OC_ACCEPT]"
  have "wins P v m" if a: "at_state P N R d ip m v" for v
    unfolding wins_def
  proof (intro exI conjI allI)
    let ?w = "end_run (v\<lparr>vm_ip := Suc ip\<rparr>)"
    show "go\<^sup>*\<^sup>* v v" by simp
    show "vm_step run v = Done True ?w" for run using step_op [OF a c] by (simp add: op_accept_def)
    have "vm_pos ?w = vm_pos v" "cap_start ?w = cap_start v" "cap_end ?w = cap_end v" "var_start ?w = var_start v" "var_end ?w = var_end v"
      by (simp_all add: end_run_def vm_trail_free_def Let_def)
    then show "vm_pos ?w = off (pg_cps P) (ms_at m)" "regs_at (pg_cps P) m ?w"
      using at_stateD [OF a] by (simp_all add: regs_at_def)
  qed
  then show ?thesis by (simp add: yields_def search_def)
qed

lemma yields_anchor:
  assumes "code_at (pg_bc P) ip [op_byte OC_ANCHOR, case t of ANCHOR_START \<Rightarrow> 0 | ANCHOR_END \<Rightarrow> 1]"
    and "\<forall>x \<in> set (only_if (case t of ANCHOR_START \<Rightarrow> ms_at m = 0 | ANCHOR_END \<Rightarrow> ms_at m = length (pg_cps P)) m).
      yields P N R d (ip + 2) x (F x)"
  shows "yields P N R d ip m (concat (map F
    (only_if (case t of ANCHOR_START \<Rightarrow> ms_at m = 0 | ANCHOR_END \<Rightarrow> ms_at m = length (pg_cps P)) m)))"
proof -
  let ?c = "case t of ANCHOR_START \<Rightarrow> ms_at m = 0 | ANCHOR_END \<Rightarrow> ms_at m = length (pg_cps P)"
  have "yields P N R d ip m (concat (map F (only_if ?c (go_to (ms_at m) m))))"
  proof (rule yields_test [where ip' = "ip + 2" and i = "ip + 2"])
    fix v run assume a: "at_state P N R d ip m v"
    note D = at_stateD [OF a]
    have o: "operand_u8 (v\<lparr>vm_ip := Suc ip\<rparr>) = (case t of ANCHOR_START \<Rightarrow> 0 | ANCHOR_END \<Rightarrow> 1, v\<lparr>vm_ip := ip + 2\<rparr>)"
      using operands_at(3) [of "v\<lparr>vm_ip := Suc ip\<rparr>" "case t of ANCHOR_START \<Rightarrow> 0 | ANCHOR_END \<Rightarrow> 1"] assms(1) D by simp
    have "vm_pos v = 0 \<longleftrightarrow> ms_at m = 0" "vm_pos v = length (vm_s v) \<longleftrightarrow> ms_at m = length (pg_cps P)"
      using off_at(1) [OF D(5), of 0] off_at(1) [OF D(5), of "length (pg_cps P)"] D by simp_all
    then show "vm_step run v = (if ?c then Go (v\<lparr>vm_ip := ip + 2, vm_pos := off (pg_cps P) (ms_at m)\<rparr>) else backtrack (v\<lparr>vm_ip := ip + 2\<rparr>))"
      using step_op [OF a assms(1), of run] o D by (cases t) (simp_all add: op_anchor_def)
    show "ms_at m \<le> length (pg_cps P)" using D by simp
  qed (use assms(2) in simp)
  then show ?thesis by simp
qed

end
