(* ===== verification/Compiler_Grow.thy ===== *)
theory Compiler_Grow
  imports Compiler_Layout
begin

text \<open>
  Emitting a tree only adds: code behind the code there is, classes behind the classes there are. The
  operands filled in later lie in the added part. So the tables of the final bytecode describe the
  classes that the instructions name.
\<close>

section \<open>Growing\<close>

definition extends :: "compiler \<Rightarrow> compiler \<Rightarrow> bool" where
  "extends co co' \<longleftrightarrow>
     (\<exists>b. cb_data (co_cb co') = cb_data (co_cb co) @ b) \<and> (\<exists>es. co_classes co' = co_classes co @ es) \<and>
     (registry_ok (co_classes co) \<longrightarrow> registry_ok (co_classes co')) \<and> co_ci co' = co_ci co \<and>
     (cb_wf (co_cb co) \<longrightarrow> cb_wf (co_cb co'))"

definition grows :: "compiler \<Rightarrow> compiler compiled \<Rightarrow> bool" where
  "grows co r \<longleftrightarrow> (\<forall>co'. r = Compiled co' \<longrightarrow> extends co co')"

named_theorems grow_intros

lemma extends_refl [simp]: "extends co co"
  by (simp add: extends_def)

lemma extends_trans: "extends a b \<Longrightarrow> extends b c \<Longrightarrow> extends a c"
  unfolding extends_def by (elim conjE exE) (simp del: append_assoc, simp)

lemma grows_simps [simp]: "grows co (Compiled co') \<longleftrightarrow> extends co co'" "grows co Failed" "grows co Crash"
  by (simp_all add: grows_def)

lemma cbind_Compiled: "cbind r f = Compiled y \<longleftrightarrow> (\<exists>x. r = Compiled x \<and> f x = Compiled y)"
  by (cases r) auto

lemma grows_bind:
  "grows co r \<Longrightarrow> (\<And>co'. r = Compiled co' \<Longrightarrow> extends co co' \<Longrightarrow> grows co (f co')) \<Longrightarrow> grows co (cbind r f)"
  by (cases r) auto

lemma grows_trans: "extends co co' \<Longrightarrow> grows co' r \<Longrightarrow> grows co r"
  unfolding grows_def using extends_trans by blast

lemma extends_put:
  "extends a co \<Longrightarrow> extends a (put8 x co)" "extends a co \<Longrightarrow> extends a (put16 y co)"
  "extends a co \<Longrightarrow> extends a (put32 z co)" "extends a co \<Longrightarrow> extends a (put_bytes b co)"
  "extends a co \<Longrightarrow> extends a (put_op oc co)"
  by (auto simp: extends_def put8_def put16_def put32_def put_bytes_def put_op_def cb_wf_ops)

lemma extends_fields:
  "extends a co \<Longrightarrow> extends a (co\<lparr>co_loops := n\<rparr>)" "extends a co \<Longrightarrow> extends a (co\<lparr>co_labels := ls\<rparr>)"
  by (simp_all add: extends_def)

lemma extends_patch:
  assumes "extends a co" "here a \<le> i"
  shows "extends a (patch32 i v co)"
proof -
  obtain b where b: "cb_data (co_cb co) = cb_data (co_cb a) @ b" using assms(1) by (auto simp: extends_def)
  have "\<exists>c. cb_data (co_cb (patch32 i v co)) = cb_data (co_cb a) @ c"
    using assms(2) by (auto simp: patch32_def cb_patch_u32_def b list_update_append here_def cb_pos_def)
  moreover have "co_classes (patch32 i v co) = co_classes co" "co_ci (patch32 i v co) = co_ci co"
    "cb_wf (co_cb co) \<Longrightarrow> cb_wf (co_cb (patch32 i v co))" by (simp_all add: patch32_def cb_wf_ops)
  ultimately show ?thesis using assms(1) by (simp add: extends_def)
qed

lemma extends_here: "extends a b \<Longrightarrow> here a \<le> here b"
  by (auto simp: extends_def here_def cb_pos_def)

lemma here_simps [simp]:
  "here (put8 x co) = here co + 1" "here (put16 y co) = here co + 2" "here (put32 z co) = here co + 4"
  "here (put_bytes b co) = here co + length b" "here (put_op oc co) = here co + 1" "here (patch32 i z co) = here co"
  "here (co\<lparr>co_loops := n\<rparr>) = here co" "here (co\<lparr>co_labels := ls\<rparr>) = here co" "here (co\<lparr>co_classes := es\<rparr>) = here co"
  by (simp_all add: here_def put8_def put16_def put32_def put_bytes_def put_op_def patch32_def cb_pos_def)

lemma extends_class:
  assumes "add_or_get_charclass (co_ci co) (co_classes co) s = Some (i, es)"
  shows "extends co (co\<lparr>co_classes := es\<rparr>)"
proof -
  have "\<exists>new. es = co_classes co @ new"
    using assms by (auto simp: add_or_get_charclass_def Let_def register_class_def split: if_splits option.splits)
  then show ?thesis using add_class_spec(1) [OF assms] by (auto simp: extends_def)
qed

lemma grows_set: "grows co (emit_set oc s co)"
  using extends_class [of co s] by (auto simp: emit_set_def intro!: extends_put split: option.splits)

lemma grows_lit: "extends co (emit_lit_bytes s co)"
  by (simp add: emit_lit_bytes_def extends_put)

lemma grows_lit_ci: "grows co (lit_ci_loop s pos co)"
proof (induction s pos co rule: lit_ci_loop.induct)
  case (1 s pos co)
  show ?case
  proof (cases "length s \<le> pos")
    case True
    then show ?thesis by (subst lit_ci_loop.simps) simp
  next
    case len: False
    show ?thesis
    proof (cases "utf8_peek_next s pos")
      case None
      then show ?thesis
        using 1(1) [OF len None] grows_trans [OF grows_lit] by (subst lit_ci_loop.simps) (simp add: len None)
    next
      case (Some cn)
      then obtain c n where cn: "utf8_peek_next s pos = Some (c, n)" by (cases cn) simp
      show ?thesis
        using 1(2) [OF len cn refl] grows_set [of co OC_ANY "sub_list pos n s"] grows_trans
        by (subst lit_ci_loop.simps) (auto simp: len cn intro!: grows_bind)
    qed
  qed
qed

lemma grows_label: "grows co (define_label name co)" "grows co (emit_goto name co)"
  by (auto simp: define_label_def emit_goto_def get_or_create_label_c_def Let_def
      intro!: extends_put extends_fields split: option.splits)

lemma grows_loop:
  assumes "\<And>co. grows co (body co)"
  shows "grows co (emit_loop body n lo hi co)"
proof -
  let ?co = "loop_head n lo hi co"
  have h: "extends co ?co" "here co + 4 \<le> here ?co" by (simp_all add: loop_head_def extends_put)
  have "grows co (Compiled (loop_tail n (here ?co) co'))" if "extends ?co co'" for co'
    using extends_trans [OF h(1) that] h(2) by (simp add: loop_tail_def Let_def extends_patch extends_put)
  then show ?thesis
    using assms [of ?co] grows_trans [OF h(1)] unfolding emit_loop_def Let_def
    by (intro grows_bind) (auto simp: grows_def)
qed

lemma grows_arbno:
  assumes "\<And>co. grows co (body co)"
  shows "grows co (emit_arbno_loop body sub co)"
  using grows_trans [OF extends_fields(1) [OF extends_refl] grows_loop [OF assms]]
  by (auto simp: emit_arbno_loop_def split: option.splits)

lemma grows_alt:
  assumes "\<And>co. grows co (left co)" "\<And>co. grows co (right co)"
  shows "grows co (emit_alt left right co)"
proof -
  let ?co = "put32 0 (put32 0 (put_op OC_SPLIT co))"
  have h: "extends co ?co" by (simp add: extends_put)
  have l: "extends co co' \<and> here co + 9 \<le> here co'" if "left ?co = Compiled co'" for co'
    using assms(1) [of ?co] that extends_trans [OF h] extends_here [of ?co co'] by (simp add: grows_def)
  have r: "extends co co'' \<and> here co + 9 \<le> here co'" if "left ?co = Compiled co'" "right (put32 0 (put_op OC_JMP co')) = Compiled co''"
    for co' co''
    using assms(2) [of "put32 0 (put_op OC_JMP co')"] that l [OF that(1)]
      extends_trans [OF extends_put(3) [OF extends_put(5)], of co co' 0 OC_JMP co''] by (simp add: grows_def)
  have p: "extends co (patch32 (Suc (here co')) x (patch32 (5 + here co) y (patch32 (Suc (here co)) z co'')))"
    if "left ?co = Compiled co'" "right (put32 0 (put_op OC_JMP co')) = Compiled co''" for co' co'' x y z
    using r [OF that] by (intro extends_patch) simp_all
  show ?thesis
    unfolding grows_def emit_alt_def Let_def
    using p by (auto simp: cbind_Compiled)
qed

lemma grows_any: "grows co (emit_any_c text co)"
  by (auto simp: emit_any_c_def grows_set extends_put split: option.splits)

lemma grows_emit: "grows co (Compiled (emit_emit_c text reg co))"
  by (auto simp: emit_emit_c_def Let_def extends_put split: option.splits)

lemmas put_defs = emit_assign_c_def emit_int_def emit_eval_c_def emit_anchor_c_def emit_bal_c_def

lemma extends_cap: "extends a co \<Longrightarrow> extends a (put_cap oc reg co)"
  by (simp add: put_cap_def extends_put)

lemma extends_table: "extends a co \<Longrightarrow> extends a (put_table oc k r t co)"
  by (simp add: put_table_def extends_put)

lemma grows_in_cap:
  assumes "grows (put_cap oc reg co) (emit_sub (put_cap oc reg co))" "\<And>co'. extends co co' \<Longrightarrow> grows co (f co')"
  shows "grows co (cbind (emit_sub (put_cap oc reg co)) f)"
proof (rule grows_bind)
  have e: "extends co (put_cap oc reg co)" by (simp add: extends_cap)
  show "grows co (emit_sub (put_cap oc reg co))" using grows_trans [OF e assms(1)] .
qed (rule assms(2))

lemma grows_key:
  assumes "\<And>co. grows co (emit_sub co)" "\<And>r co'. extends co co' \<Longrightarrow> grows co (f (r, co'))"
  shows "grows co (cbind (emit_key emit_sub key co) f)"
proof -
  have "grows co (cbind (emit_sub (put_cap OC_CAP_START 0 co)) (\<lambda>co. f (0, put_cap OC_CAP_END 0 co)))"
    using assms by (intro grows_in_cap) (simp_all add: extends_cap)
  moreover have "cbind (cbind x (\<lambda>co. Compiled (0, put_cap OC_CAP_END 0 co))) f = cbind x (\<lambda>co. f (0, put_cap OC_CAP_END 0 co))" for x
    by (cases x) simp_all
  ultimately show ?thesis using assms(2) [OF extends_refl] by (cases key) (simp_all add: emit_key_def)
qed

lemma emit_grows: "grows co (emit_node_c a co)" "grows co (emit_parts as co)"
proof (induction a co and as co rule: emit_node_c_emit_parts.induct)
  case (1 s co)
  then show ?case by (simp add: grows_lit grows_lit_ci emit_lit_case_insensitive_c_def)
next
  case (4 a lo hi co)
  have e: "extends co (co\<lparr>co_loops := co_loops co + 1\<rparr>)" by (simp add: extends_fields)
  show ?case using 4 grows_trans [OF e grows_arbno] grows_trans [OF e grows_loop] by (simp add: Let_def)
next
  case (10 reg a co)
  show ?case using 10 grows_in_cap [where emit_sub = "emit_node_c a"] by (simp add: extends_cap)
next
  case (28 name target co)
  show ?case using 28 grows_label(1) [of co name] by (auto intro!: grows_bind intro: grows_trans)
next
  case (30 table key co)
  then show ?case by (auto intro!: grows_key simp: extends_table)
next
  case (31 table key val co)
  have "grows co' (cbind (emit_node_c val (put_cap OC_CAP_START 1 co')) (\<lambda>co. Compiled (put_table OC_TABLE_SET r 1 table (put_cap OC_CAP_END 1 co))))"
    for r co'
    using 31(2) by (intro grows_in_cap) (simp_all add: extends_table extends_cap)
  then show ?case using 31(1) by (auto intro!: grows_key intro: grows_trans)
next
  case (34 a as co)
  then show ?case by (auto intro!: grows_bind intro: grows_trans)
qed (simp_all add: put_defs grows_set grows_any grows_alt grows_arbno grows_label Let_def extends_put
    grows_emit [unfolded grows_simps])

section \<open>The fusion pass\<close>

lemma canonical_proper: "canonical rs \<Longrightarrow> list_all proper rs"
  by (induction rs rule: canonical.induct) auto

definition arm_ok :: "arm \<Rightarrow> bool" where
  "arm_ok r \<longleftrightarrow> arm_cp r \<le> 0xFF"

lemma arm_ok_byte: "ucast (b :: u8) \<le> (0xFF :: u32)"
proof -
  have "unat b < 2 ^ LENGTH(8)" by (rule unsigned_less)
  then show ?thesis by (simp add: word_le_nat_alt unat_ucast_u8)
qed

lemma arm_ok_single: "single_op bc a = Some (r, n) \<Longrightarrow> arm_ok r"
  by (auto simp: single_op_def arm_ok_def arm_ok_byte split: if_splits)

lemma arm_ok_merge [simp]: "arm_ok (set_merge m r) = arm_ok r"
  by (cases r) (simp_all add: arm_ok_def)

lemma arm_ok_parse: "arm_ok (parse_arm_a bc a)" "arm_ok (parse_arm_b bc a)"
  by (auto simp: parse_arm_a_def parse_arm_b_def Let_def arm_ok_single arm_ok_def [of No_Arm] split: option.splits)

lemma fuse_union_ok:
  assumes "fuse_add_union_cc (arm_entry es ra) (arm_cp ra) (arm_entry es rb) (arm_cp rb) ci es = Some (i, es')"
    "registry_ok es" "arm_ok ra" "arm_ok rb"
  shows "registry_ok es'" "1 \<le> i" "i \<le> length es'" "take (length es) es' = es"
proof -
  let ?r = "\<lambda>r. case arm_entry es r of Some e \<Rightarrow> cc_ranges e | None \<Rightarrow> [(arm_cp r, arm_cp r)]"
  have p: "list_all proper (?r r)" if "arm_ok r" for r
  proof (cases "arm_entry es r")
    case None
    have "\<not> (- 1 :: u32) \<le> 0xFF" by (simp add: word_le_nat_alt unsigned_minus_1_eq_mask mask_eq_exp_minus_1)
    then have "arm_cp r \<noteq> - 1" using that by (auto simp: arm_ok_def)
    then show ?thesis using None by (simp add: proper_def)
  next
    case (Some e)
    then have "e \<in> set es" by (cases r) (auto simp: get_cc_entry_def split: if_splits)
    then show ?thesis using assms(2) Some canonical_proper by (auto simp: registry_ok_def)
  qed
  have "canonical (normalize_ranges (?r ra @ ?r rb))" using p assms(3,4) by (intro normalize_spec [THEN conjunct1]) simp
  then show "registry_ok es'" "1 \<le> i" "i \<le> length es'" "take (length es) es' = es"
    using register_class_spec [of es _ i es'] assms(1,2)
    by (auto simp: fuse_add_union_cc_def Let_def split: if_splits)
qed

lemma length_write_nops [simp]: "length (write_nops i j bc) = length bc"
proof -
  have "length (fold (\<lambda>k bc. bc[k := op_byte OC_NOP]) ks bc) = length bc" for ks
    by (induction ks arbitrary: bc) simp_all
  then show ?thesis by (simp add: write_nops_def)
qed

lemma fuse_at_ok:
  assumes "fuse_at pos (bc, es) = Some (bc', es')" "registry_ok es"
  shows "length bc' = length bc \<and> registry_ok es' \<and> take (length es) es' = es"
proof -
  let ?ra = "parse_arm_a bc (unat (fuse_read_u32 bc (pos + 1)))" and ?rb = "parse_arm_b bc (unat (fuse_read_u32 bc (pos + 5)))"
  consider "bc' = bc" "es' = es"
    | ci i where "fuse_add_union_cc (arm_entry es ?ra) (arm_cp ?ra) (arm_entry es ?rb) (arm_cp ?rb) ci es = Some (i, es')"
      "length bc' = length bc"
    using assms(1) unfolding fuse_at_def Let_def
    by (auto simp: fuse_write_def split: if_splits option.splits)
  then show ?thesis
  proof cases
    case 2
    then show ?thesis using fuse_union_ok [OF 2(1) assms(2) arm_ok_parse] by simp
  qed (use assms(2) in simp)
qed

lemma fuse_loop_ok:
  "fuse_loop n (bc, es) = Some (bc', es') \<Longrightarrow> registry_ok es \<Longrightarrow>
     length bc' = length bc \<and> registry_ok es' \<and> take (length es) es' = es"
proof (induction n arbitrary: bc es)
  case (Suc n)
  then obtain bc1 es1 where s: "fuse_at n (bc, es) = Some (bc1, es1)" "fuse_loop n (bc1, es1) = Some (bc', es')"
    by (auto split: option.splits)
  note a = fuse_at_ok [OF s(1) Suc.prems(2)] and b = Suc.IH [OF s(2)]
  have "take (length es) es' = take (length es) (take (length es1) es')"
    using a by (metis min.absorb1 length_take nat_le_linear take_all take_take)
  then show ?case using a b by simp
qed simp

section \<open>Compiled bytecode\<close>

definition label_offsets_of :: "label_entry list \<Rightarrow> u32 list" where
  "label_offsets_of ls = map (\<lambda>l. if la_defined l then la_offset l else 0) ls"

lemma compile_laid_out:
  assumes "compile_ast_to_bytecode_c a ci = Compiled bc"
  obtains co co' where "compile_code a ci = Compiled co" "snobol_bc_fuse_split_any co = Compiled co'"
    "bc = laid_out (cb_data (co_cb co')) (co_classes co') (label_offsets_of (co_labels co'))"
    "registry_ok (co_classes co)" "registry_ok (co_classes co')"
proof -
  obtain co co' where c: "compile_code a ci = Compiled co" "snobol_bc_fuse_split_any co = Compiled co'"
    "bc = cb_data (emit_label_table (co_labels co') (emit_class_table (co_classes co') (co_cb co')))"
    using assms by (auto simp: compile_ast_to_bytecode_c_def cbind_Compiled)
  have "extends (compiler_start ci) co"
    using c(1) emit_grows(1) [of "compiler_start ci" a]
    by (auto simp: compile_code_def cbind_Compiled grows_def intro!: extends_put split: if_splits)
  then have r: "registry_ok (co_classes co)" by (simp add: extends_def compiler_start_def registry_ok_def)
  have r': "registry_ok (co_classes co')"
    using c(2) r fuse_loop_ok by (auto simp: snobol_bc_fuse_split_any_def split: option.splits)
  show thesis
    using c r r' by (intro that [of co co'])
      (simp_all add: laid_out_def emit_label_table_data emit_class_table_data label_offsets_of_def del: upt_Suc)
qed

lemma canonical_apart:
  "canonical rs \<Longrightarrow> j < length rs \<Longrightarrow> fst (rs ! j) \<le> snd (rs ! j) \<and> (i < j \<longrightarrow> snd (rs ! i) < fst (rs ! j))"
proof (induction rs arbitrary: i j)
  case (Cons r rs)
  note c = canonical_Cons [OF Cons.prems(1)]
  show ?case
  proof (cases j)
    case 0
    then show ?thesis using c by (simp add: proper_def)
  next
    case (Suc j')
    have le: "fst (rs ! j') \<le> snd (rs ! j')" using Cons.IH [of j' 0] c Cons.prems(2) Suc by simp
    then have "fst (rs ! j') \<in> ranges_set rs"
      using Cons.prems(2) Suc by (auto simp: ranges_set_def range_set_def intro!: bexI [of _ "rs ! j'"])
    then have "snd r + 1 < fst (rs ! j')" using c by blast
    then have "snd r < fst (rs ! j')" using proper_up [of r] c by (meson order.strict_trans)
    then show ?thesis using Cons.IH [of j' "i - 1"] c Cons.prems(2) Suc le by (cases i) auto
  qed
qed simp

lemma finds_in_ranges:
  assumes "finds_class bc k e"
  obtains ptr where "get_ranges_ptr bc None (of_nat k) = Some (ptr, of_nat (length (cc_ranges e)), cc_ci e)"
    "8 * length (cc_ranges e) \<le> length ptr"
    "\<And>c. in_ranges ptr (length (cc_ranges e)) c \<longleftrightarrow> c \<in> ranges_set (cc_ranges e)"
    "canonical (cc_ranges e) \<Longrightarrow> ranges_sorted ptr (length (cc_ranges e))"
proof -
  let ?rs = "cc_ranges e"
  obtain ptr where p: "get_ranges_ptr bc None (of_nat k) = Some (ptr, of_nat (length ?rs), cc_ci e)"
    "8 * length ?rs \<le> length ptr" "\<forall>i < length ?rs. range_at ptr i = ?rs ! i"
    using assms(1) by (auto simp: finds_class_def)
  have "in_ranges ptr (length ?rs) c \<longleftrightarrow> (\<exists>i < length ?rs. c \<in> range_set (?rs ! i))" for c
    using p(3) by (auto simp: in_ranges_def range_set_def)
  moreover have "(\<exists>i < length ?rs. c \<in> range_set (?rs ! i)) \<longleftrightarrow> c \<in> ranges_set ?rs" for c
    unfolding ranges_set_def set_conv_nth by blast
  moreover have "ranges_sorted ptr (length ?rs)" if "canonical ?rs"
    unfolding ranges_sorted_def using p(3) canonical_apart [OF that] by simp
  ultimately show thesis using that p(1,2) by blast
qed

lemma laid_out_sizes:
  assumes "length (laid_out code es labels) < 2 ^ 19"
  shows "length es < 2 ^ 16" "e \<in> set es \<Longrightarrow> length (cc_ranges e) < 2 ^ 16"
proof -
  have blob: "length (class_blob e) = 4 + 8 * length (cc_ranges e)" for e by (simp add: class_blob_def)
  have "4 * length es \<le> length (concat (map class_blob (rev es)))"
    by (induction es) (simp_all add: blob)
  then show "length es < 2 ^ 16" using assms by (simp add: length_laid_out)
  show "length (cc_ranges e) < 2 ^ 16" if "e \<in> set es"
  proof -
    have "length (class_blob e) \<le> length (concat (map class_blob (rev es)))"
      using that by (induction es) (auto simp: length_concat)
    then show ?thesis using assms by (simp add: length_laid_out blob)
  qed
qed

lemma compiled_class_finds:
  assumes "compile_ast_to_bytecode_c a ci = Compiled bc" "length bc < 2 ^ 19"
    "compile_code a ci = Compiled co" "1 \<le> k" "k \<le> length (co_classes co)"
  shows "finds_class bc k (co_classes co ! (k - 1))" "canonical (cc_ranges (co_classes co ! (k - 1)))"
    "length (cc_ranges (co_classes co ! (k - 1))) < 2 ^ 16"
proof -
  obtain co' where c: "snobol_bc_fuse_split_any co = Compiled co'"
    "bc = laid_out (cb_data (co_cb co')) (co_classes co') (label_offsets_of (co_labels co'))"
    "registry_ok (co_classes co)" "registry_ok (co_classes co')"
    using compile_laid_out [OF assms(1)] assms(3) by (metis compiled.inject(1))
  have t: "take (length (co_classes co)) (co_classes co') = co_classes co"
    using c(1,3) fuse_loop_ok by (auto simp: snobol_bc_fuse_split_any_def split: option.splits)
  let ?e = "co_classes co ! (k - 1)"
  have e: "co_classes co' ! (k - 1) = ?e" using t assms(4,5) nth_take [of "k - 1" "length (co_classes co)" "co_classes co'"] by simp
  have k: "k \<le> length (co_classes co')" using t assms(5) by (metis length_take min.cobounded1 order.trans)
  have "?e \<in> set (co_classes co)" using assms(4,5) by simp
  then show "canonical (cc_ranges ?e)" using c(3) by (auto simp: registry_ok_def)
  have "?e \<in> set (co_classes co')" using k assms(4) e by (metis Suc_diff_1 Suc_le_eq less_le_trans nth_mem zero_less_one)
  then have s: "length (co_classes co') < 2 ^ 16" "length (cc_ranges ?e) < 2 ^ 16"
    using laid_out_sizes assms(2) unfolding c(2) by blast+
  then show "length (cc_ranges ?e) < 2 ^ 16" by blast
  show "finds_class bc k ?e"
    using laid_out_class [of "cb_data (co_cb co')" "co_classes co'" "label_offsets_of (co_labels co')" k] assms(2,4) k s(1)
    unfolding c(2) [symmetric] e by simp
qed



end
