(* ===== verification/Vm_Sim_Ops.thy ===== *)
theory Vm_Sim_Ops
  imports Vm_Sim Compiler_Grow
begin

text \<open>
  The rules for literals, classes, captures, alternatives and loops.
\<close>

lemma Suc_shift: "Suc (i + numeral k) = i + numeral (k + num.One)"
  by simp

section \<open>Literals\<close>

lemma yields_lit:
  assumes "code_at (pg_bc P) ip (op_byte OC_LIT # u32_bytes (of_nat (ip + 9)) @ u32_bytes (of_nat (length s)) @ s)"
    and "length (pg_bc P) < 2 ^ 32" "is_text s"
    and "\<forall>x \<in> set (only_if (take (length (cps_of s)) (drop (ms_at m) (pg_cps P)) = cps_of s) (go_to (ms_at m + length (cps_of s)) m)).
      yields P N R d (ip + 9 + length s) x (F x)"
  shows "yields P N R d ip m (concat (map F
    (only_if (take (length (cps_of s)) (drop (ms_at m) (pg_cps P)) = cps_of s) (go_to (ms_at m + length (cps_of s)) m))))"
proof (rule yields_test [OF _ _ assms(4)])
  let ?c = "take (length (cps_of s)) (drop (ms_at m) (pg_cps P)) = cps_of s"
  fix v run assume a: "at_state P N R d ip m v"
  note D = at_stateD [OF a]
  let ?v = "v\<lparr>vm_ip := Suc ip\<rparr>" and ?u = "v\<lparr>vm_ip := ip + 5\<rparr>"
  have len: "ip + 9 + length s \<le> length (pg_bc P)" "code_at (pg_bc P) (ip + 9) s"
    using assms(1) by (auto simp: code_at_def [of _ _ s] Suc_shift add.commute [of 9])
  have n: "unat (of_nat (ip + 9) :: u32) = ip + 9" "unat (of_nat (length s) :: u32) = length s"
    using len(1) assms(2) nat_u32 [of "ip + 9"] nat_u32 [of "length s"] by simp_all
  have o1: "operand_u32 ?v = (of_nat (ip + 9), ?u)"
    using operands_at(1) [of ?v "of_nat (ip + 9)"] assms(1) D by simp
  have o2: "operand_u32 ?u = (of_nat (length s), v\<lparr>vm_ip := ip + 9\<rparr>)"
    using operands_at(1) [of ?u "of_nat (length s)"] assms(1) D by (simp add: Suc_shift)
  have l: "lit_offset ?v = ip + 9" "lit_length ?v = length s"
    using o1 o2 n by (simp_all add: lit_offset_def lit_length_def after_u32_def)
  have after: "after_lit ?v = v\<lparr>vm_ip := ip + 9 + length s\<rparr>"
    unfolding after_lit_def l using o1 o2 by (simp add: after_u32_def)
  have "op_lit ?v = (if ?c then Go (move_to (after_lit ?v) (off (pg_cps P) (ms_at m + length (cps_of s)))) else backtrack (after_lit ?v))"
  proof (rule op_lit_at)
    show "at_cp (pg_cps P) (ms_at m) ?v" using D by simp
    show "valid_cps (cps_of s)" using assms(3) by (simp add: is_text_def)
    show "lit_offset ?v + lit_length ?v \<le> length (vm_bc ?v)" unfolding l using len D by simp
    show "sub_list (lit_offset ?v) (lit_length ?v) (vm_bc ?v) = utf8 (cps_of s)"
      unfolding l using len(2) assms(3) D by (simp add: code_at_def is_text_def)
  qed
  moreover have "vm_step run v = exec_op run OC_LIT ?v" using step_op [OF a, of OC_LIT] assms(1) by blast
  ultimately show "vm_step run v =
      (if ?c then Go (v\<lparr>vm_ip := ip + 9 + length s, vm_pos := off (pg_cps P) (ms_at m + length (cps_of s))\<rparr>)
       else backtrack (v\<lparr>vm_ip := ip + 9 + length s\<rparr>))"
    unfolding after by (simp add: move_to_def)
  show "?c \<Longrightarrow> ms_at m + length (cps_of s) \<le> length (pg_cps P)"
    using D(8) by (metis (no_types, lifting) add_le_mono1 length_drop length_take le_add_diff_inverse min.cobounded1 nat_add_left_cancel_le)
qed

section \<open>Classes\<close>

text \<open>Class \<open>k\<close> of the bytecode is the set \<open>S\<close>.\<close>

definition has_class :: "bytes \<Rightarrow> u16 \<Rightarrow> (u32 \<Rightarrow> bool) \<Rightarrow> bool" where
  "has_class bc k S \<longleftrightarrow> (\<exists>ranges cnt ci. get_ranges_ptr bc None k = Some (ranges, cnt, ci) \<and>
     8 * unat cnt \<le> length ranges \<and> ranges_sorted ranges (unat cnt) \<and> (\<forall>c. in_ranges ranges (unat cnt) c \<longleftrightarrow> S c))"

lemma in_class_ascii:
  assumes "ranges_to_ascii_bitmap ranges cnt = Some bm"
  shows "in_class (Ascii_Class bm) c \<longleftrightarrow> in_ranges ranges cnt c"
proof (cases "c < 0x80")
  case True
  have "ucast (ucast c :: u8) = c" using ascii_roundtrip(1) [OF True] by simp
  then show ?thesis using True ascii_bitmap_test [OF assms, of "ucast c"] by (simp add: in_class_def)
next
  case False
  have "snd (range_at ranges i) \<le> 127" if "i < cnt" for i
    using assms ascii_loop_small [of ranges 0 cnt _ bm i] that by (auto simp: ranges_to_ascii_bitmap_def)
  then have "\<not> in_ranges ranges cnt c"
    using False by (fastforce simp: in_ranges_def word_le_nat_alt word_less_nat_alt)
  then show ?thesis using False by (simp add: in_class_def)
qed

lemma load_has_class:
  assumes "has_class (vm_bc v) k S" "vm_range_meta v = None"
  shows "load_class v k \<noteq> Truncated_Class" "in_class (load_class v k) = S"
proof -
  obtain ranges cnt ci where r: "get_ranges_ptr (vm_bc v) None k = Some (ranges, cnt, ci)"
    "8 * unat cnt \<le> length ranges" "ranges_sorted ranges (unat cnt)" "\<And>c. in_ranges ranges (unat cnt) c \<longleftrightarrow> S c"
    using assms(1) by (auto simp: has_class_def)
  have l: "load_class v k = (case ranges_to_ascii_bitmap ranges (unat cnt) of Some bm \<Rightarrow> Ascii_Class bm | None \<Rightarrow> Range_Class ranges (unat cnt))"
    using r(1,2) assms(2) by (simp add: load_class_def)
  show "load_class v k \<noteq> Truncated_Class" unfolding l by (simp split: option.split)
  have "in_class (load_class v k) c = S c" for c
  proof (cases "ranges_to_ascii_bitmap ranges (unat cnt)")
    case None
    then show ?thesis using l range_contains_iff [OF r(3)] r(4) by (simp add: in_class_def)
  next
    case (Some bm)
    then show ?thesis using l in_class_ascii [OF Some] r(4) by simp
  qed
  then show "in_class (load_class v k) = S" by blast
qed

lemma class_operand_at:
  assumes "at_state P N R d ip m v" "code_at (pg_bc P) ip (op_byte oc # u16_bytes k)" "has_class (pg_bc P) k S"
  shows "vm_step run v = exec_op run oc (v\<lparr>vm_ip := Suc ip\<rparr>)" "after_u16 (v\<lparr>vm_ip := Suc ip\<rparr>) = v\<lparr>vm_ip := ip + 3\<rparr>"
    "class_operand (v\<lparr>vm_ip := Suc ip\<rparr>) \<noteq> Truncated_Class" "in_class (class_operand (v\<lparr>vm_ip := Suc ip\<rparr>)) = S"
    "at_cp (pg_cps P) (ms_at m) (v\<lparr>vm_ip := Suc ip\<rparr>)"
proof -
  note D = at_stateD [OF assms(1)]
  show "vm_step run v = exec_op run oc (v\<lparr>vm_ip := Suc ip\<rparr>)" using step_op [OF assms(1,2)] .
  have o: "operand_u16 (v\<lparr>vm_ip := Suc ip\<rparr>) = (k, v\<lparr>vm_ip := ip + 3\<rparr>)"
    using operands_at(2) [of "v\<lparr>vm_ip := Suc ip\<rparr>" k] assms(2) D by (simp add: numeral_3_eq_3)
  then show "after_u16 (v\<lparr>vm_ip := Suc ip\<rparr>) = v\<lparr>vm_ip := ip + 3\<rparr>" by (simp add: after_u16_def)
  show "class_operand (v\<lparr>vm_ip := Suc ip\<rparr>) \<noteq> Truncated_Class" "in_class (class_operand (v\<lparr>vm_ip := Suc ip\<rparr>)) = S"
    using load_has_class [of "v\<lparr>vm_ip := ip + 3\<rparr>" k S] assms(3) D o by (simp_all add: class_operand_def after_u16_def)
  show "at_cp (pg_cps P) (ms_at m) (v\<lparr>vm_ip := Suc ip\<rparr>)" using D by simp
qed

lemma yields_any:
  assumes "code_at (pg_bc P) ip (op_byte OC_ANY # u16_bytes k)" "has_class (pg_bc P) k S"
    and "\<forall>x \<in> set (only_if (ms_at m < length (pg_cps P) \<and> S (pg_cps P ! ms_at m)) (go_to (Suc (ms_at m)) m)). yields P N R d (ip + 3) x (F x)"
  shows "yields P N R d ip m (concat (map F (only_if (ms_at m < length (pg_cps P) \<and> S (pg_cps P ! ms_at m)) (go_to (Suc (ms_at m)) m))))"
proof (rule yields_test [OF _ _ assms(3)])
  fix v run assume a: "at_state P N R d ip m v"
  note o = class_operand_at [OF a assms(1,2)]
  show "vm_step run v = (if ms_at m < length (pg_cps P) \<and> S (pg_cps P ! ms_at m)
      then Go (v\<lparr>vm_ip := ip + 3, vm_pos := off (pg_cps P) (Suc (ms_at m))\<rparr>) else backtrack (v\<lparr>vm_ip := ip + 3\<rparr>))"
    using op_any_at [OF o(5) refl o(3)] o(1,2,4) by (simp add: move_to_def)
qed simp

lemma yields_span:
  assumes "code_at (pg_bc P) ip (op_byte OC_SPAN # u16_bytes k)" "has_class (pg_bc P) k S"
    and "\<forall>x \<in> set (only_if (ms_at m < span_to S (pg_cps P) (ms_at m)) (go_to (span_to S (pg_cps P) (ms_at m)) m)). yields P N R d (ip + 3) x (F x)"
  shows "yields P N R d ip m (concat (map F (only_if (ms_at m < span_to S (pg_cps P) (ms_at m)) (go_to (span_to S (pg_cps P) (ms_at m)) m))))"
proof (rule yields_test [OF _ _ assms(3)])
  fix v run assume a: "at_state P N R d ip m v"
  note o = class_operand_at [OF a assms(1,2)]
  show "vm_step run v = (if ms_at m < span_to S (pg_cps P) (ms_at m)
      then Go (v\<lparr>vm_ip := ip + 3, vm_pos := off (pg_cps P) (span_to S (pg_cps P) (ms_at m))\<rparr>) else backtrack (v\<lparr>vm_ip := ip + 3\<rparr>))"
    using op_span_at [OF o(5) refl o(3)] o(1,2,4) by (simp add: move_to_def)
  show "span_to S (pg_cps P) (ms_at m) \<le> length (pg_cps P)" using span_to_bounds at_stateD(8) [OF a] by blast
qed

lemma yields_break:
  assumes "code_at (pg_bc P) ip (op_byte OC_BREAK # u16_bytes k)" "has_class (pg_bc P) k S"
    and "yields P N R d (ip + 3) (go_to (span_to (\<lambda>c. \<not> S c) (pg_cps P) (ms_at m)) m) L"
  shows "yields P N R d ip m L"
proof (rule yields_step [OF _ _ assms(3)])
  fix v run assume a: "at_state P N R d ip m v"
  note o = class_operand_at [OF a assms(1,2)]
  show "vm_step run v = Go (v\<lparr>vm_ip := ip + 3, vm_pos := off (pg_cps P) (span_to (\<lambda>c. \<not> S c) (pg_cps P) (ms_at m))\<rparr>)"
    using op_break_at [OF o(5) refl o(3)] o(1,2,4) by (simp add: move_to_def)
  show "span_to (\<lambda>c. \<not> S c) (pg_cps P) (ms_at m) \<le> length (pg_cps P)" using span_to_bounds at_stateD(8) [OF a] by blast
qed

text \<open>ANY of an empty text has no class.\<close>

lemma yields_any_none:
  assumes "code_at (pg_bc P) ip (op_byte OC_ANY # u16_bytes 0)"
  shows "yields P N R d ip m []"
proof (rule yields_fail)
  fix v assume a: "at_state P N R d ip m v"
  note D = at_stateD [OF a]
  have o: "operand_u16 (v\<lparr>vm_ip := Suc ip\<rparr>) = (0, v\<lparr>vm_ip := ip + 3\<rparr>)"
    using operands_at(2) [of "v\<lparr>vm_ip := Suc ip\<rparr>" 0] assms D by (simp add: numeral_3_eq_3)
  have "vm_step run v = backtrack (v\<lparr>vm_ip := ip + 3\<rparr>)" for run
    using step_op [OF a assms, of run] o D by (simp add: op_any_def load_class_def get_ranges_ptr_def)
  moreover have "kept P N v (v\<lparr>vm_ip := ip + 3\<rparr>)" using kept_move [OF a, where i = "ip + 3" and p = "vm_pos v"] by simp
  ultimately show "\<exists>w. (\<forall>run. vm_step run v = backtrack w) \<and> kept P N v w" by blast
qed

section \<open>Captures\<close>

lemma register_lengths:
  assumes "at_state P N R d ip m v"
  shows "length (ms_cap_start m) = MAX_CAPS" "length (ms_cap_end m) = MAX_CAPS"
    "length (ms_var_start m) = MAX_VARS" "length (ms_var_end m) = MAX_VARS"
proof -
  have "length (cap_start v) = MAX_CAPS" "length (cap_end v) = MAX_CAPS" "length (var_start v) = MAX_VARS" "length (var_end v) = MAX_VARS"
    using at_stateD(1) [OF assms] by (simp_all add: compact_inv_def)
  then show "length (ms_cap_start m) = MAX_CAPS" "length (ms_cap_end m) = MAX_CAPS"
    "length (ms_var_start m) = MAX_VARS" "length (ms_var_end m) = MAX_VARS"
    using at_stateD(6) [OF assms] by (simp_all add: regs_at_def)
qed

text \<open>A state change that the trail records once.\<close>

lemma at_record:
  assumes "at_state P N R (d + 1) ip m v" "kept P N v w" "vm_ip w = i" "vm_pos w = vm_pos v" "regs_at (pg_cps P) m' w"
    "ms_at m' = ms_at m" "length (vm_trail w) \<le> Suc (length (vm_trail v))" "same_loops N w v"
  shows "at_state P N R d i m' w"
proof -
  have s: "static P v w" and c: "compact_inv w" using assms(2) by (simp_all add: kept_def)
  have "limits w l = pg_lim P l" if "l < MAX_LOOPS" "l \<notin> N" for l
    using s assms(1) that unfolding static_def at_state_def by metis
  then show ?thesis
    using assms s c unfolding at_state_def static_def at_cp_def same_loops_def by simp
qed

definition end_cap :: "nat \<Rightarrow> mstate \<Rightarrow> mstate" where
  "end_cap r m = m\<lparr>ms_cap_end := (ms_cap_end m)[r := ms_at m]\<rparr>"

lemma write_cap_start_state:
  assumes "at_state P N R (d + 1) ip m v" "r < MAX_CAPS"
  shows "at_state P N R d ip (open_cap r m) (write_cap_start v r)" "kept P N v (write_cap_start v r)"
proof -
  note D = at_stateD [OF assms(1)]
  show k: "kept P N v (write_cap_start v r)"
    by (rule kept_record [where r = "blank_undo\<lparr>un_kind := UNDO_CAP_WRITE, un_index := r, un_sub := 0,
          un_prior_a := cap_start v ! r, un_prior_b := cap_end v ! r\<rparr>"])
      (use D(1,11) assms(2) in \<open>simp_all add: write_cap_start_def Let_def trail_defs same_regs_def static_def limits_def same_loops_def\<close>)
  show "at_state P N R d ip (open_cap r m) (write_cap_start v r)"
    by (rule at_record [OF assms(1) k])
      (use D in \<open>simp_all add: write_cap_start_def Let_def trail_defs regs_at_def open_cap_def same_loops_def map_update reg_off_le\<close>)
qed

lemma write_cap_end_state:
  assumes "at_state P N R (d + 1) ip m v" "r < MAX_CAPS"
  shows "at_state P N R d ip (end_cap r m) (write_cap_end v r)" "kept P N v (write_cap_end v r)"
proof -
  note D = at_stateD [OF assms(1)]
  show k: "kept P N v (write_cap_end v r)"
    by (rule kept_record [where r = "blank_undo\<lparr>un_kind := UNDO_CAP_WRITE, un_index := r, un_sub := 1,
          un_prior_a := cap_start v ! r, un_prior_b := cap_end v ! r\<rparr>"])
      (use D(1,11) assms(2) in \<open>simp_all add: write_cap_end_def Let_def trail_defs same_regs_def static_def limits_def same_loops_def\<close>)
  show "at_state P N R d ip (end_cap r m) (write_cap_end v r)"
    by (rule at_record [OF assms(1) k])
      (use D in \<open>simp_all add: write_cap_end_def Let_def trail_defs regs_at_def end_cap_def same_loops_def map_update reg_off_le\<close>)
qed

lemma write_var_state:
  assumes "at_state P N R (d + 1) ip m v" "x < MAX_VARS" "r < MAX_CAPS"
  shows "at_state P N R d ip (set_var x r m) (write_var v x r)" "kept P N v (write_var v x r)"
proof -
  note D = at_stateD [OF assms(1)]
  show k: "kept P N v (write_var v x r)"
    by (rule kept_record [where r = "blank_undo\<lparr>un_kind := UNDO_VAR_WRITE, un_index := x,
          un_prior_a := var_start v ! x, un_prior_b := var_end v ! x\<rparr>"])
      (use D(1,11) assms(2) in \<open>simp_all add: write_var_def Let_def trail_defs same_regs_def static_def limits_def same_loops_def\<close>)
  have "cap_start v ! r = reg_off (pg_cps P) (ms_cap_start m ! r)" "cap_end v ! r = reg_off (pg_cps P) (ms_cap_end m ! r)"
    using D(6) register_lengths [OF assms(1)] assms(3) by (simp_all add: regs_at_def)
  then show "at_state P N R d ip (set_var x r m) (write_var v x r)"
    by (intro at_record [OF assms(1) k])
      (use D in \<open>simp_all add: write_var_def Let_def trail_defs regs_at_def set_var_def same_loops_def map_update\<close>)
qed

lemma compact_inv_ip [simp]: "compact_inv (v\<lparr>vm_ip := i\<rparr>) = compact_inv v"
  by (simp add: compact_inv_def stack_of_def)

lemma at_state_ip: "at_state P N R d ip m v \<Longrightarrow> at_state P N R d i m (v\<lparr>vm_ip := i\<rparr>)"
  by (simp add: at_state_def regs_at_def limits_def)

lemma kept_ip: "at_state P N R d ip m v \<Longrightarrow> kept P N v (v\<lparr>vm_ip := i\<rparr>)"
  using kept_move [where i = i and p = "vm_pos v" and v = v and P = P and N = N and R = R and d = d and ip = ip and m = m] by simp

lemma yields_cap_start:
  assumes "code_at (pg_bc P) ip [op_byte OC_CAP_START, r]" "unat r < MAX_CAPS"
    and "yields P N R d (ip + 2) (open_cap (unat r) m) L"
  shows "yields P N R (d + 1) ip m L"
proof (rule yields_go [OF _ assms(3)])
  fix v assume a: "at_state P N R (d + 1) ip m v"
  let ?u = "v\<lparr>vm_ip := ip + 2\<rparr>"
  have o: "operand_u8 (v\<lparr>vm_ip := Suc ip\<rparr>) = (r, ?u)"
    using operands_at(3) [of "v\<lparr>vm_ip := Suc ip\<rparr>" r] assms(1) at_stateD [OF a] by simp
  have "go v (write_cap_start ?u (unat r))"
    using step_op [OF a assms(1)] o assms(2) by (simp add: go_def op_cap_start_def)
  moreover note s = write_cap_start_state [OF at_state_ip [OF a, where i = "ip + 2"] assms(2)]
  moreover have "kept P N v x" if "kept P N (write_cap_start ?u (unat r)) x" for x
    using kept_trans [OF kept_trans [OF kept_ip [OF a] s(2)] that] .
  ultimately show "\<exists>w. go v w \<and> at_state P N R d (ip + 2) (open_cap (unat r) m) w \<and> (\<forall>x. kept P N w x \<longrightarrow> kept P N v x)"
    by blast
qed

lemma yields_cap_end:
  assumes "code_at (pg_bc P) ip [op_byte OC_CAP_END, r]" "unat r < MAX_CAPS"
    and "yields P N R d (ip + 2) (close_cap (unat r) m) L"
  shows "yields P N R (d + 2) ip m L"
proof (rule yields_go [OF _ assms(3)])
  fix v assume a: "at_state P N R (d + 2) ip m v"
  let ?u = "v\<lparr>vm_ip := ip + 2\<rparr>" and ?r = "unat r"
  have o: "operand_u8 (v\<lparr>vm_ip := Suc ip\<rparr>) = (r, ?u)"
    using operands_at(3) [of "v\<lparr>vm_ip := Suc ip\<rparr>" r] assms(1) at_stateD [OF a] by simp
  have r: "?r < MAX_VARS" using assms(2) by (simp add: register_limits)
  have "go v (write_var (write_cap_end ?u ?r) ?r ?r)"
    using step_op [OF a assms(1)] o assms(2) r by (simp add: go_def op_cap_end_def Let_def)
  moreover have "at_state P N R ((d + 1) + 1) (ip + 2) m ?u" using at_state_ip [OF a, where i = "ip + 2"] by simp
  note s = write_cap_end_state [OF this assms(2)]
  note t = write_var_state [OF s(1) r assms(2)]
  have "close_cap ?r m = set_var ?r ?r (end_cap ?r m)" by (simp add: close_cap_def end_cap_def)
  moreover have "kept P N v x" if "kept P N (write_var (write_cap_end ?u ?r) ?r ?r) x" for x
    using kept_trans [OF kept_trans [OF kept_trans [OF kept_ip [OF a] s(2)] t(2)] that] .
  ultimately show "\<exists>w. go v w \<and> at_state P N R d (ip + 2) (close_cap ?r m) w \<and> (\<forall>x. kept P N w x \<longrightarrow> kept P N v x)"
    using t(1) by auto
qed

lemma yields_assign:
  assumes "code_at (pg_bc P) ip (op_byte OC_ASSIGN # u16_bytes x @ [r])" "unat x < MAX_VARS" "unat r < MAX_CAPS"
    and "yields P N R d (ip + 4) (set_var (unat x) (unat r) m) L"
  shows "yields P N R (d + 1) ip m L"
proof (rule yields_go [OF _ assms(4)])
  fix v assume a: "at_state P N R (d + 1) ip m v"
  note D = at_stateD [OF a]
  let ?u = "v\<lparr>vm_ip := ip + 4\<rparr>"
  have o: "operand_u16 (v\<lparr>vm_ip := Suc ip\<rparr>) = (x, v\<lparr>vm_ip := Suc ip + 2\<rparr>)"
    using operands_at(2) [of "v\<lparr>vm_ip := Suc ip\<rparr>" x] assms(1) D by simp
  have "operand_u8 (v\<lparr>vm_ip := Suc ip + 2\<rparr>) = (r, v\<lparr>vm_ip := Suc ip + 2 + 1\<rparr>)"
    using operands_at(3) [of "v\<lparr>vm_ip := Suc ip + 2\<rparr>" r] assms(1) D by simp
  moreover have "Suc ip + 2 + 1 = ip + 4" by simp
  ultimately have o2: "operand_u8 (v\<lparr>vm_ip := Suc ip + 2\<rparr>) = (r, ?u)" by metis
  have "go v (write_var ?u (unat x) (unat r))"
    using step_op [OF a assms(1)] o o2 assms(2,3) by (simp add: go_def op_assign_def)
  moreover note s = write_var_state [OF at_state_ip [OF a, where i = "ip + 4"] assms(2,3)]
  moreover have "kept P N v y" if "kept P N (write_var ?u (unat x) (unat r)) y" for y
    using kept_trans [OF kept_trans [OF kept_ip [OF a] s(2)] that] .
  ultimately show "\<exists>w. go v w \<and> at_state P N R d (ip + 4) (set_var (unat x) (unat r) m) w \<and> (\<forall>x. kept P N w x \<longrightarrow> kept P N v x)"
    by blast
qed

section \<open>Alternatives\<close>

lemma at_push:
  assumes "at_state P N R d ip m u" 
  shows "at_state P N R d i m ((vm_push_choice u b p)\<lparr>vm_ip := i\<rparr>)"
proof -
  note D = at_stateD [OF assms]
  have t: "length (vm_trail u) < 2 ^ 32" using D(7) by simp
  note c = vm_push_choice_compact [OF D(1) t, where ip = b and pos = p]
  note f = push_choice_fields [OF D(1) t, where b = b and p = p]
  have "limits (vm_push_choice u b p) l = pg_lim P l" if "l < MAX_LOOPS" "l \<notin> N" for l
    using f(3) [where P = P] assms that unfolding static_def at_state_def by metis
  then have "at_state P N R d ip m (vm_push_choice u b p)"
    using assms c f(3) [where P = P] f(4) [where N = N] f(5,6)
    unfolding at_state_def static_def at_cp_def same_loops_def same_regs_def regs_at_def by simp
  then show ?thesis by (rule at_state_ip)
qed

lemma push_inv:
  assumes "at_state P N R d ip m u"
  shows "compact_inv (vm_push_choice u b p)"
  using vm_push_choice_compact(2) [OF at_stateD(1) [OF assms]] at_stateD(7) [OF assms] by simp

lemma yields_split:
  assumes "code_at (pg_bc P) ip (op_byte OC_SPLIT # u32_bytes a @ u32_bytes b)"
    and "yields P N R d (unat a) m L1" "yields P N R d (unat b) m L2"
  shows "yields P N R d ip m (L1 @ L2)"
proof -
  have "yields P N R (d + 0) ip m (L1 @ L2)"
  proof (rule yields_choice [where Na = N and ma = m and ipa = "unat a" and Ra = R and Nb = N and mb = m
        and Rb = R and b = "unat b" and j = "ms_at m", OF _ _ assms(2)])
    fix v assume "at_state P N R (d + 0) ip m v"
    then have s: "at_state P N R d ip m v" by simp
    note D = at_stateD [OF s]
    let ?u = "v\<lparr>vm_ip := Suc ip + 4 + 4\<rparr>" and ?p = "off (pg_cps P) (ms_at m)"
    let ?w = "(vm_push_choice ?u (unat b) ?p)\<lparr>vm_ip := unat a\<rparr>"
    have o1: "operand_u32 (v\<lparr>vm_ip := Suc ip\<rparr>) = (a, v\<lparr>vm_ip := Suc ip + 4\<rparr>)"
      using operands_at(1) [of "v\<lparr>vm_ip := Suc ip\<rparr>" a] assms(1) D by simp
    have o2: "operand_u32 (v\<lparr>vm_ip := Suc ip + 4\<rparr>) = (b, ?u)"
      using operands_at(1) [of "v\<lparr>vm_ip := Suc ip + 4\<rparr>" b] assms(1) D by simp
    have "exec_op run OC_SPLIT (v\<lparr>vm_ip := Suc ip\<rparr>) = Go ?w" for run
      using D(9) o1 o2 by (simp add: op_split_def)
    then have "go v ?w" using step_op [OF s assms(1)] by (simp add: go_def)
    moreover have su: "at_state P N R d (Suc ip + 4 + 4) m ?u" using at_state_ip [OF s] .
    moreover have sp: "at_state P N R d (unat a) m ?w" using at_push [OF su] .
    moreover have "kept P N (vm_push_choice ?u (unat b) ?p) x" if "kept P N ?w x" for x
    proof -
      have "kept P N (vm_push_choice ?u (unat b) ?p) ?w"
        by (rule kept_same [OF push_inv [OF su]]) (simp_all add: static_def limits_def same_regs_def same_loops_def)
      then show ?thesis using kept_trans that by blast
    qed
    moreover have "kept P N v x" if "kept P N ?u x" for x using kept_trans [OF kept_ip [OF s] that] .
    ultimately show "\<exists>u w i. go v w \<and> at_state P N R d i m u \<and> at_state P N R d (unat a) m w \<and>
        (\<forall>x. kept P N w x \<longrightarrow> kept P N (vm_push_choice u (unat b) ?p) x) \<and> (\<forall>x. kept P N u x \<longrightarrow> kept P N v x)"
      by blast
    show "ms_at m \<le> length (pg_cps P)" using D by simp
  qed (use assms(3) in simp)
  then show ?thesis by simp
qed

end
