(* ===== verification/Vm_Sim_Loop.thy ===== *)
theory Vm_Sim_Loop
  imports Vm_Sim_Ops
begin

text \<open>
  The rules for BREAKX and for loops. A loop writes its registers without a record at its start, and
  moves the mark of its latest round behind the record of the round; the rules show that this does
  no harm, because a search inside a loop that is gone back to lies below the record of the round it
  left the body by.
\<close>

section \<open>BREAKX\<close>

lemma class_of_operand:
  assumes "after_u16 v = w"
  shows "snd (operand_u16 v) = w" "load_class w (fst (operand_u16 v)) = class_operand v"
  using assms by (simp_all add: class_operand_def after_u16_def)

lemma yields_breakx_step:
  assumes "code_at (pg_bc P) ip (op_byte OC_BREAKX # u16_bytes k)" "has_class (pg_bc P) k S"
    and "j = span_to (\<lambda>c. \<not> S c) (pg_cps P) (ms_at m)" "j < length (pg_cps P)"
    and "yields P N R d (ip + 3) (go_to j m) La" "yields P N R d ip (go_to (Suc j) m) Lb"
  shows "yields P N R d ip m (La @ Lb)"
proof -
  have "yields P N R (d + 0) ip m (La @ Lb)"
  proof (rule yields_choice [where Na = N and ma = "go_to j m" and ipa = "ip + 3" and Ra = R and Nb = N and mb = "go_to j m"
        and Rb = R and b = ip and j = "Suc j", OF _ _ assms(5)])
    fix v assume "at_state P N R (d + 0) ip m v"
    then have s: "at_state P N R d ip m v" by simp
    note D = at_stateD [OF s] and o = class_operand_at [OF s assms(1,2)]
    let ?u = "v\<lparr>vm_ip := ip + 3, vm_pos := off (pg_cps P) j\<rparr>" and ?p = "off (pg_cps P) (Suc j)"
    let ?w = "vm_push_choice ?u ip ?p" and ?c = "class_operand (v\<lparr>vm_ip := Suc ip\<rparr>)"
    have sc: "break_scan ?c (utf8 (pg_cps P)) (off (pg_cps P) (ms_at m)) = off (pg_cps P) j"
      using break_scan_at [of "pg_cps P" "ms_at m" ?c] at_cpD(1,2) [OF D(5)] o(3,4) assms(3) by simp
    note at_cpD(1) [OF D(5)]
    then have pk: "utf8_peek_next (utf8 (pg_cps P)) (off (pg_cps P) j) = Some (pg_cps P ! j, ?p - off (pg_cps P) j)"
      and lt: "off (pg_cps P) j < length (utf8 (pg_cps P))" and le: "off (pg_cps P) j < ?p"
      using peek_at [of "pg_cps P" j] off_end_iff [of "pg_cps P" j] off_less [of "pg_cps P" j "Suc j"] assms(4) by simp_all
    have "op_breakx (v\<lparr>vm_ip := Suc ip\<rparr>) = Go ?w"
      using o(3) sc D pk lt le class_of_operand [OF o(2)]
      by (simp add: op_breakx_def case_prod_unfold Let_def move_to_def)
    then have "go v ?w" using o(1) by (simp add: go_def)
    moreover have su: "at_state P N R d (ip + 3) (go_to j m) ?u" using at_state_move [OF s] assms(4) by simp
    have "vm_ip ?w = ip + 3" using push_choice_fields(5) [OF at_stateD(1) [OF su], where b = ip and p = ?p] at_stateD(7) [OF su] by simp
    then have "?w\<lparr>vm_ip := ip + 3\<rparr> = ?w" by simp
    then have "at_state P N R d (ip + 3) (go_to j m) ?w" using at_push [OF su, where i = "ip + 3" and b = ip and p = ?p] by simp
    moreover have "kept P N v x" if "kept P N ?u x" for x using kept_trans [OF kept_move [OF s] that] .
    ultimately show "\<exists>u w i. go v w \<and> at_state P N R d i (go_to j m) u \<and> at_state P N R d (ip + 3) (go_to j m) w \<and>
        (\<forall>x. kept P N w x \<longrightarrow> kept P N (vm_push_choice u ip ?p) x) \<and> (\<forall>x. kept P N u x \<longrightarrow> kept P N v x)"
      using su by blast
    show "Suc j \<le> length (pg_cps P)" using assms(4) by simp
  qed (use assms(6) in \<open>simp add: go_to_def\<close>)
  then show ?thesis by simp
qed

lemma yields_breakx_end:
  assumes "code_at (pg_bc P) ip (op_byte OC_BREAKX # u16_bytes k)" "has_class (pg_bc P) k S"
    and "span_to (\<lambda>c. \<not> S c) (pg_cps P) (ms_at m) = length (pg_cps P)"
    and "yields P N R d (ip + 3) (go_to (length (pg_cps P)) m) L"
  shows "yields P N R d ip m L"
proof (rule yields_step [OF _ _ assms(4)])
  fix v run assume a: "at_state P N R d ip m v"
  note D = at_stateD [OF a] and o = class_operand_at [OF a assms(1,2)]
  let ?c = "class_operand (v\<lparr>vm_ip := Suc ip\<rparr>)"
  have "break_scan ?c (utf8 (pg_cps P)) (off (pg_cps P) (ms_at m)) = off (pg_cps P) (length (pg_cps P))"
    using break_scan_at [of "pg_cps P" "ms_at m" ?c] at_cpD(1,2) [OF D(5)] o(3,4) assms(3) by simp
  then show "vm_step run v = Go (v\<lparr>vm_ip := ip + 3, vm_pos := off (pg_cps P) (length (pg_cps P))\<rparr>)"
    using o(1,3) D class_of_operand [OF o(2)]
    by (simp add: op_breakx_def case_prod_unfold Let_def move_to_def)
qed simp

lemma span_to_filter:
  assumes "i \<le> n" "n = length cps" "j = span_to (\<lambda>c. \<not> S c) cps i"
  shows "filter (\<lambda>j. j < n \<longrightarrow> S (cps ! j)) [i..<Suc n] =
    j # (if j < n then filter (\<lambda>j. j < n \<longrightarrow> S (cps ! j)) [Suc j..<Suc n] else [])"
  using assms
proof (induction "n - i" arbitrary: i)
  case 0
  then show ?case by (simp add: span_to_end)
next
  case (Suc k)
  then have i: "i < length cps" by simp
  have u: "[i..<Suc n] = i # [Suc i..<Suc n]" using Suc.prems by (simp add: upt_conv_Cons)
  show ?case
  proof (cases "S (cps ! i)")
    case True
    then show ?thesis using Suc.prems i span_to_step [OF i, of "\<lambda>c. \<not> S c"] by (subst u) (simp del: upt_Suc)
  next
    case False
    then show ?thesis
      using Suc.hyps(1) [of "Suc i"] Suc.hyps(2) Suc.prems i span_to_step [OF i, of "\<lambda>c. \<not> S c"]
      by (subst u) (simp del: upt_Suc)
  qed
qed

lemma yields_breakx:
  assumes "code_at (pg_bc P) ip (op_byte OC_BREAKX # u16_bytes k)" "has_class (pg_bc P) k S"
  shows "ms_at m \<le> length (pg_cps P) \<Longrightarrow>
    \<forall>j \<in> set (filter (\<lambda>j. j < length (pg_cps P) \<longrightarrow> S (pg_cps P ! j)) [ms_at m..<Suc (length (pg_cps P))]).
      yields P N R d (ip + 3) (go_to j m) (F (go_to j m)) \<Longrightarrow>
    yields P N R d ip m (concat (map F (map (\<lambda>j. go_to j m)
      (filter (\<lambda>j. j < length (pg_cps P) \<longrightarrow> S (pg_cps P ! j)) [ms_at m..<Suc (length (pg_cps P))]))))"
proof (induction "length (pg_cps P) - ms_at m" arbitrary: m rule: less_induct)
  case less
  define j where "j = span_to (\<lambda>c. \<not> S c) (pg_cps P) (ms_at m)"
  have le: "ms_at m \<le> j" "j \<le> length (pg_cps P)" using span_to_bounds less.prems(1) by (simp_all add: j_def)
  note f = span_to_filter [OF less.prems(1) refl j_def]
  show ?case
  proof (cases "j < length (pg_cps P)")
    case False
    then have j: "j = length (pg_cps P)" using le by simp
    have "yields P N R d (ip + 3) (go_to j m) (F (go_to j m))" using less.prems(2) unfolding f by simp
    then show ?thesis
      using yields_breakx_end [OF assms j_def [symmetric, unfolded j]] False by (simp add: f j del: upt_Suc)
  next
    case True
    let ?js = "filter (\<lambda>j. j < length (pg_cps P) \<longrightarrow> S (pg_cps P ! j)) [Suc j..<Suc (length (pg_cps P))]"
    have go: "go_to i (go_to (Suc j) m) = go_to i m" for i by (simp add: go_to_def)
    have "yields P N R d ip (go_to (Suc j) m) (concat (map F (map (\<lambda>i. go_to i (go_to (Suc j) m)) ?js)))"
      using less.hyps [of "go_to (Suc j) m"] less.prems(2) le True unfolding f go by (simp add: go del: upt_Suc)
    moreover have "yields P N R d (ip + 3) (go_to j m) (F (go_to j m))" using less.prems(2) unfolding f by simp
    ultimately have "yields P N R d ip m (F (go_to j m) @ concat (map F (map (\<lambda>i. go_to i (go_to (Suc j) m)) ?js)))"
      using yields_breakx_step [OF assms j_def True] by blast
    then show ?thesis using True unfolding f go by (simp del: upt_Suc)
  qed
qed

section \<open>Entering a loop\<close>

definition loop_entered :: "vm \<Rightarrow> nat \<Rightarrow> u32 \<Rightarrow> u32 \<Rightarrow> nat \<Rightarrow> vm" where
  "loop_entered v l lo hi i =
     (let v = v\<lparr>vm_ip := i, counters := (counters v)[l := 0], loop_min := (loop_min v)[l := lo],
                loop_max := (loop_max v)[l := hi], loop_last_pos := (loop_last_pos v)[l := vm_pos v]\<rparr>
      in if max_counter_used v < l + 1 then v\<lparr>max_counter_used := l + 1\<rparr> else v)"

lemma loop_entered_fields [simp]:
  "vm_bc (loop_entered v l lo hi i) = vm_bc v" "vm_s (loop_entered v l lo hi i) = vm_s v"
  "vm_ip (loop_entered v l lo hi i) = i" "vm_pos (loop_entered v l lo hi i) = vm_pos v"
  "vm_trail (loop_entered v l lo hi i) = vm_trail v" "vm_range_meta (loop_entered v l lo hi i) = vm_range_meta v"
  "choices_arena (loop_entered v l lo hi i) = choices_arena v" "stack_of (loop_entered v l lo hi i) = stack_of v"
  "use_compact_choice (loop_entered v l lo hi i) = use_compact_choice v"
  "cap_start (loop_entered v l lo hi i) = cap_start v" "cap_end (loop_entered v l lo hi i) = cap_end v"
  "var_start (loop_entered v l lo hi i) = var_start v" "var_end (loop_entered v l lo hi i) = var_end v"
  "loop_span_greedy (loop_entered v l lo hi i) = loop_span_greedy v" "abort_flag (loop_entered v l lo hi i) = abort_flag v"
  "counters (loop_entered v l lo hi i) = (counters v)[l := 0]"
  "loop_last_pos (loop_entered v l lo hi i) = (loop_last_pos v)[l := vm_pos v]"
  "loop_min (loop_entered v l lo hi i) = (loop_min v)[l := lo]"
  "loop_max (loop_entered v l lo hi i) = (loop_max v)[l := hi]"
  by (simp_all add: loop_entered_def Let_def stack_of_def)

lemma loop_entered_state:
  assumes "at_state P N R d ip m v" "l < MAX_LOOPS" "l \<in> N" "pg_lim P l = (lo, hi)"
  shows "at_state P (N - {l}) (R(l := (0, ms_at m))) d i m (loop_entered v l lo hi i)"
    "at_state P N R d i m (loop_entered v l lo hi i)" "kept P N v (loop_entered v l lo hi i)"
proof -
  let ?w = "loop_entered v l lo hi i"
  note D = at_stateD [OF assms(1)]
  have len: "length (counters v) = MAX_LOOPS" "length (loop_last_pos v) = MAX_LOOPS"
    "length (loop_min v) = MAX_LOOPS" "length (loop_max v) = MAX_LOOPS"
    using assms(1) by (simp_all add: at_state_def)
  have lim: "limits ?w k = (if k = l then pg_lim P l else limits v k)" if "k < MAX_LOOPS" for k
    using assms(2,4) len that by (simp add: limits_def)
  show k: "kept P N v ?w"
    by (rule kept_same [OF D(1)])
      (use assms(2,3) lim len in \<open>auto simp: static_def same_regs_def same_loops_def nth_list_update\<close>)
  have inv: "compact_inv ?w" using D(1) by (simp add: compact_inv_def)
  have regs: "at_cp (pg_cps P) (ms_at m) ?w" "regs_at (pg_cps P) m ?w"
    using D(5,6) by (simp_all add: at_cp_def regs_at_def)
  show "at_state P (N - {l}) (R(l := (0, ms_at m))) d i m ?w"
    using assms(1) inv regs lim len D(9) assms(2) unfolding at_state_def by (simp add: nth_list_update)
  show "at_state P N R d i m ?w"
    using assms(1) inv regs lim len D(9) assms(2,3) unfolding at_state_def by (auto simp: nth_list_update)
qed

text \<open>The machine behind the operands of the first instruction of a loop.\<close>

lemma init_step:
  assumes "at_state P N R d ip m v"
    "code_at (pg_bc P) ip (op_byte OC_REPEAT_INIT # lid # u32_bytes lo @ u32_bytes hi @ u32_bytes skip)"
    "unat lid < MAX_LOOPS"
  shows "vm_step run v = (let u = loop_entered v (unat lid) lo hi (ip + 14)
     in Go (if lo = 0 then vm_push_choice u (unat skip) (vm_pos v) else u))"
proof -
  note D = at_stateD [OF assms(1)]
  let ?v = "\<lambda>i. v\<lparr>vm_ip := i\<rparr>"
  have o1: "operand_u8 (?v (Suc ip)) = (lid, ?v (ip + 2))"
    using operands_at(3) [of "?v (Suc ip)" lid] assms(2) D by simp
  have o2: "operand_u32 (?v (ip + 2)) = (lo, ?v (ip + 6))"
    using operands_at(1) [of "?v (ip + 2)" lo] assms(2) D by (simp add: numeral_3_eq_3)
  have c3: "code_at (pg_bc P) (ip + 6) (u32_bytes hi)" "code_at (pg_bc P) (ip + 10) (u32_bytes skip)"
    using assms(2) by (simp_all add: Suc_shift add.commute [of 10])
  have o3: "operand_u32 (?v (ip + 6)) = (hi, ?v (ip + 10))"
    using operands_at(1) [of "?v (ip + 6)" hi] c3 D by simp
  have o4: "operand_u32 (?v (ip + 10)) = (skip, ?v (ip + 14))"
    using operands_at(1) [of "?v (ip + 10)" skip] c3 D by simp
  have "exec_op run OC_REPEAT_INIT (?v (Suc ip)) = (let u = loop_entered v (unat lid) lo hi (ip + 14)
     in Go (if lo = 0 then vm_push_choice u (unat skip) (vm_pos v) else u))"
    using assms(3) o1 o2 o3 o4 by (simp add: op_repeat_init_def loop_entered_def Let_def)
  then show ?thesis using step_op [OF assms(1,2)] by simp
qed

lemma yields_init_opt:
  assumes code: "code_at (pg_bc P) ip (op_byte OC_REPEAT_INIT # lid # u32_bytes 0 @ u32_bytes hi @ u32_bytes skip)"
    and l: "unat lid < MAX_LOOPS" "unat lid \<in> N" "pg_lim P (unat lid) = (0, hi)"
    and body: "yields P (N - {unat lid}) (R(unat lid := (0, ms_at m))) d (ip + 14) m La"
    and behind: "yields P N R d (unat skip) m Lb"
  shows "yields P N R d ip m (La @ Lb)"
proof -
  have "yields P N R (d + 0) ip m (La @ Lb)"
  proof (rule yields_choice [where ma = m and Nb = N and mb = m and Rb = R and b = "unat skip" and j = "ms_at m", OF _ _ body])
    fix v assume "at_state P N R (d + 0) ip m v"
    then have s: "at_state P N R d ip m v" by simp
    note D = at_stateD [OF s] and e = loop_entered_state [OF s l, where i = "ip + 14"]
    let ?u = "loop_entered v (unat lid) 0 hi (ip + 14)" and ?p = "off (pg_cps P) (ms_at m)"
    let ?w = "vm_push_choice ?u (unat skip) ?p"
    have "go v ?w" using init_step [OF s code l(1)] D(9) by (simp add: go_def Let_def)
    moreover have "vm_ip ?w = ip + 14"
      using push_choice_fields(5) [OF at_stateD(1) [OF e(2)], where b = "unat skip" and p = ?p] at_stateD(7) [OF e(2)] by simp
    then have "?w\<lparr>vm_ip := ip + 14\<rparr> = ?w" by simp
    then have "at_state P (N - {unat lid}) (R(unat lid := (0, ms_at m))) d (ip + 14) m ?w"
      using at_push [OF e(1), where i = "ip + 14" and b = "unat skip" and p = ?p] by simp
    moreover have "kept P N ?w x" if "kept P (N - {unat lid}) ?w x" for x using kept_mono [OF that] by blast
    moreover have "kept P N v x" if "kept P N ?u x" for x using kept_trans [OF e(3) that] .
    ultimately show "\<exists>u w i. go v w \<and> at_state P N R d i m u \<and>
        at_state P (N - {unat lid}) (R(unat lid := (0, ms_at m))) d (ip + 14) m w \<and>
        (\<forall>x. kept P (N - {unat lid}) w x \<longrightarrow> kept P N (vm_push_choice u (unat skip) ?p) x) \<and> (\<forall>x. kept P N u x \<longrightarrow> kept P N v x)"
      using e(2) by blast
    show "ms_at m \<le> length (pg_cps P)" using D by simp
  qed (use behind in simp)
  then show ?thesis by simp
qed

lemma yields_init_req:
  assumes code: "code_at (pg_bc P) ip (op_byte OC_REPEAT_INIT # lid # u32_bytes lo @ u32_bytes hi @ u32_bytes skip)"
    and l: "unat lid < MAX_LOOPS" "unat lid \<in> N" "pg_lim P (unat lid) = (lo, hi)" and lo: "lo \<noteq> 0"
    and body: "yields P (N - {unat lid}) (R(unat lid := (0, ms_at m))) d (ip + 14) m L"
  shows "yields P N R d ip m L"
proof -
  have "yields P N R (d + 0) ip m L"
  proof (rule yields_go [OF _ body])
    fix v assume "at_state P N R (d + 0) ip m v"
    then have s: "at_state P N R d ip m v" by simp
    note e = loop_entered_state [OF s l, where i = "ip + 14"]
    let ?u = "loop_entered v (unat lid) lo hi (ip + 14)"
    have "go v ?u" using init_step [OF s code l(1)] lo by (simp add: go_def Let_def)
    moreover have "kept P N v x" if "kept P (N - {unat lid}) ?u x" for x
      using kept_trans [OF e(3) kept_mono [OF that]] by blast
    ultimately show "\<exists>w. go v w \<and> at_state P (N - {unat lid}) (R(unat lid := (0, ms_at m))) d (ip + 14) m w \<and>
        (\<forall>x. kept P (N - {unat lid}) w x \<longrightarrow> kept P N v x)"
      using e(1) by blast
  qed
  then show ?thesis by simp
qed

section \<open>The end of a round\<close>

definition round_record :: "vm \<Rightarrow> nat \<Rightarrow> undo_record" where
  "round_record v l = blank_undo\<lparr>un_kind := UNDO_COUNTER_DEC, un_index := l, un_prior_u := counters v ! l,
     un_prior_lp := loop_last_pos v ! l\<rparr>"

definition round_done :: "vm \<Rightarrow> nat \<Rightarrow> nat \<Rightarrow> vm" where
  "round_done v l i =
     v\<lparr>vm_ip := i, counters := (counters v)[l := counters v ! l + 1], vm_trail := round_record v l # vm_trail v\<rparr>"

lemma round_done_fields [simp]:
  "vm_bc (round_done v l i) = vm_bc v" "vm_s (round_done v l i) = vm_s v" "vm_ip (round_done v l i) = i"
  "vm_pos (round_done v l i) = vm_pos v" "vm_range_meta (round_done v l i) = vm_range_meta v"
  "vm_trail (round_done v l i) = round_record v l # vm_trail v" "choices_arena (round_done v l i) = choices_arena v"
  "stack_of (round_done v l i) = stack_of v" "use_compact_choice (round_done v l i) = use_compact_choice v"
  "cap_start (round_done v l i) = cap_start v" "cap_end (round_done v l i) = cap_end v"
  "var_start (round_done v l i) = var_start v" "var_end (round_done v l i) = var_end v"
  "loop_span_greedy (round_done v l i) = loop_span_greedy v" "loop_last_pos (round_done v l i) = loop_last_pos v"
  "loop_min (round_done v l i) = loop_min v" "loop_max (round_done v l i) = loop_max v"
  "counters (round_done v l i) = (counters v)[l := counters v ! l + 1]" "limits (round_done v l i) = limits v"
  "abort_flag (round_done v l i) = abort_flag v"
  by (simp_all add: round_done_def stack_of_def limits_def fun_eq_iff)

lemma undo_round:
  "l < MAX_LOOPS \<Longrightarrow> undo_one (round_record v l) x =
     x\<lparr>counters := (counters x)[l := counters v ! l], loop_last_pos := (loop_last_pos x)[l := loop_last_pos v ! l]\<rparr>"
  by (simp add: undo_one_def round_record_def blank_undo_def)

text \<open>Whatever happens to the loop behind the record of a round, undoing the record restores it.\<close>

lemma kept_through_round:
  assumes "at_state P N R d ip m v" "l < MAX_LOOPS" "kept P (insert l N) (round_done v l i) x"
  shows "kept P N v x"
proof -
  let ?u = "round_done v l i"
  have len: "length (counters v) = MAX_LOOPS" "length (loop_last_pos v) = MAX_LOOPS"
    using assms(1) by (simp_all add: at_state_def)
  obtain rs where rs: "vm_trail x = rs @ vm_trail ?u" "same_regs (undo_all rs x) ?u" "same_loops (insert l N) (undo_all rs x) ?u"
    using assms(3) by (auto simp: kept_def)
  have st: "static P ?u x" "compact_inv x" "stack_of x = stack_of v" using assms(3) by (simp_all add: kept_def)
  have lenx: "length (counters (undo_all rs x)) = MAX_LOOPS" "length (loop_last_pos (undo_all rs x)) = MAX_LOOPS"
    using st(1) len by (simp_all add: static_def)
  let ?y = "undo_all (rs @ [round_record v l]) x"
  have y: "?y = undo_one (round_record v l) (undo_all rs x)" by (simp add: undo_all_append)
  have "vm_trail x = (rs @ [round_record v l]) @ vm_trail v" using rs(1) by simp
  moreover have "same_regs ?y v" using rs(2) unfolding y undo_round [OF assms(2)] by (simp add: same_regs_def)
  moreover have "same_loops N ?y v"
    unfolding same_loops_def y undo_round [OF assms(2)]
  proof (intro allI impI)
    fix k assume k: "k < MAX_LOOPS" "k \<notin> N"
    show "counters ((undo_all rs x)\<lparr>counters := (counters (undo_all rs x))[l := counters v ! l],
          loop_last_pos := (loop_last_pos (undo_all rs x))[l := loop_last_pos v ! l]\<rparr>) ! k = counters v ! k \<and>
        loop_last_pos ((undo_all rs x)\<lparr>counters := (counters (undo_all rs x))[l := counters v ! l],
          loop_last_pos := (loop_last_pos (undo_all rs x))[l := loop_last_pos v ! l]\<rparr>) ! k = loop_last_pos v ! k"
      using rs(3) k lenx assms(2) by (cases "k = l") (simp_all add: same_loops_def)
  qed
  moreover have "static P v x" using st(1) len assms(2) by (simp add: static_def)
  ultimately show ?thesis using st unfolding kept_def by blast
qed

lemma round_done_state:
  assumes "at_state P N R (d + 1) ip m v" "l < MAX_LOOPS" "l \<notin> N" "R l = (k, p)"
  shows "at_state P N (R(l := (k + 1, p))) d i m (round_done v l i)" "at_state P (insert l N) R d i m (round_done v l i)"
proof -
  note D = at_stateD [OF assms(1)]
  have len: "length (counters v) = MAX_LOOPS" using assms(1) by (simp add: at_state_def)
  have k: "counters v ! l = k" "loop_last_pos v ! l = off (pg_cps P) p"
    using assms unfolding at_state_def by auto
  have "kept P UNIV v (round_done v l i)"
    by (rule kept_record [where r = "round_record v l"])
      (use D(1) assms(2) len in \<open>simp_all add: static_def same_regs_def same_loops_def undo_round\<close>)
  then have inv: "compact_inv (round_done v l i)" by (simp add: kept_def)
  have regs: "at_cp (pg_cps P) (ms_at m) (round_done v l i)" "regs_at (pg_cps P) m (round_done v l i)"
    using D(5,6) by (simp_all add: at_cp_def regs_at_def)
  show "at_state P N (R(l := (k + 1, p))) d i m (round_done v l i)"
    using assms inv regs len k unfolding at_state_def by (simp add: nth_list_update)
  show "at_state P (insert l N) R d i m (round_done v l i)"
    using assms(1) inv regs len unfolding at_state_def by (simp add: nth_list_update)
qed

lemma repeat_normal_round:
  assumes "use_compact_choice v" "l < length (counters v)"
  shows "repeat_normal (v\<lparr>vm_ip := i\<rparr>) l t =
    (let u = round_done v l i; cnt = counters v ! l + 1
     in if cnt < loop_min v ! l then Go (repeat_again u l t)
        else if loop_max v ! l = UNBOUNDED \<or> cnt < loop_max v ! l
        then if loop_max v ! l = UNBOUNDED \<and> vm_pos v = loop_last_pos v ! l then Go u
             else if loop_max v ! l = UNBOUNDED \<and> length (vm_s v) + 1 < unat cnt then Go u
             else Go (repeat_again (vm_push_choice u i (vm_pos v)) l t)
        else Go u)"
proof -
  let ?w = "v\<lparr>vm_ip := i, counters := (counters v)[l := counters v ! l + 1]\<rparr>"
  have w: "vm_trail_counter_inc ?w l (counters v ! l) (loop_last_pos v ! l) = round_done v l i"
    using assms(1) by (simp add: vm_trail_counter_inc_def vm_trail_push_def round_done_def round_record_def)
  have f: "counters (v\<lparr>vm_ip := i\<rparr>) = counters v" "loop_last_pos (v\<lparr>vm_ip := i\<rparr>) = loop_last_pos v"
    "use_compact_choice ?w" "counters ?w ! l = counters v ! l + 1" using assms by simp_all
  show ?thesis
    unfolding repeat_normal_def Let_def f(1,2)
    by (simp only: f(3,4) if_True w round_done_fields)
qed

text \<open>The machine behind the operands of the last instruction of a loop.\<close>

lemma step_step:
  assumes "at_state P N R d ip m v"
    "code_at (pg_bc P) ip (op_byte OC_REPEAT_STEP # lid # u32_bytes target)"
    "unat lid < MAX_LOOPS" "unat lid \<notin> N" "pg_lim P (unat lid) = (lo, hi)" "R (unat lid) = (k, p)" "p \<le> length (pg_cps P)"
    "unat target < length (pg_bc P)" "hi = UNBOUNDED \<longrightarrow> pg_bc P ! unat target \<noteq> op_byte OC_SPAN"
  shows "vm_step run v = (let u = round_done v (unat lid) (ip + 6)
     in if k + 1 < lo then Go (repeat_again u (unat lid) (unat target))
        else if hi = UNBOUNDED \<or> k + 1 < hi
        then if hi = UNBOUNDED \<and> ms_at m = p then Go u
             else if hi = UNBOUNDED \<and> length (utf8 (pg_cps P)) + 1 < unat (k + 1) then Go u
             else Go (repeat_again (vm_push_choice u (ip + 6) (vm_pos v)) (unat lid) (unat target))
        else Go u)"
proof -
  note D = at_stateD [OF assms(1)]
  let ?v = "\<lambda>i. v\<lparr>vm_ip := i\<rparr>" and ?l = "unat lid"
  have k: "counters v ! ?l = k" "loop_last_pos v ! ?l = off (pg_cps P) p" "loop_min v ! ?l = lo" "loop_max v ! ?l = hi"
    "\<not> loop_span_greedy v ! ?l" "length (counters v) = MAX_LOOPS"
    using assms(1,3-6) unfolding at_state_def limits_def by auto
  have o1: "operand_u8 (?v (Suc ip)) = (lid, ?v (ip + 2))"
    using operands_at(3) [of "?v (Suc ip)" lid] assms(2) D by simp
  have o2: "operand_u32 (?v (ip + 2)) = (target, ?v (ip + 6))"
    using operands_at(1) [of "?v (ip + 2)" target] assms(2) D by (simp add: numeral_3_eq_3)
  have span: "OP_SPAN = op_byte OC_SPAN" by (simp add: OP_SPAN_def op_byte_def op_codes_def)
  have pos: "vm_pos v = off (pg_cps P) p \<longleftrightarrow> ms_at m = p" using off_at(1) [OF D(5) assms(7)] D(9) by simp
  have "op_repeat_step (?v (Suc ip)) = repeat_normal (?v (ip + 6)) ?l (unat target)"
    using assms(3,8,9) k(4,5) D(2) o1 o2 by (auto simp: op_repeat_step_def span Let_def)
  also have "\<dots> = (let u = round_done v ?l (ip + 6)
     in if k + 1 < lo then Go (repeat_again u ?l (unat target))
        else if hi = UNBOUNDED \<or> k + 1 < hi
        then if hi = UNBOUNDED \<and> ms_at m = p then Go u
             else if hi = UNBOUNDED \<and> length (utf8 (pg_cps P)) + 1 < unat (k + 1) then Go u
             else Go (repeat_again (vm_push_choice u (ip + 6) (vm_pos v)) ?l (unat target))
        else Go u)"
    using repeat_normal_round [of v ?l "ip + 6" "unat target"] k D(10,11) assms(3) pos by (simp add: Let_def)
  finally show ?thesis using step_op [OF assms(1,2)] by simp
qed

lemma again_state:
  assumes "at_state P N (R(l := (c, p))) d i m u" "l < MAX_LOOPS"
  shows "at_state P N (R(l := (c, ms_at m))) d t m (repeat_again u l t)" "kept P (insert l N) u (repeat_again u l t)"
proof -
  note D = at_stateD [OF assms(1)]
  have len: "length (loop_last_pos u) = MAX_LOOPS" using assms(1) by (simp add: at_state_def)
  show k: "kept P (insert l N) u (repeat_again u l t)"
    by (rule kept_same [OF D(1)]) (simp_all add: repeat_again_def static_def limits_def same_regs_def same_loops_def)
  then have "compact_inv (repeat_again u l t)" by (simp add: kept_def)
  then show "at_state P N (R(l := (c, ms_at m))) d t m (repeat_again u l t)"
    using assms D(9) len unfolding at_state_def repeat_again_def at_cp_def regs_at_def limits_def
    by (simp add: nth_list_update)
qed

definition loop_end :: "prog \<Rightarrow> nat set \<Rightarrow> loops \<Rightarrow> nat \<Rightarrow> u8 \<Rightarrow> u32 \<Rightarrow> u32 \<Rightarrow> u32 \<Rightarrow> u32 \<Rightarrow> nat \<Rightarrow> bool" where
  "loop_end P N R ip lid target lo hi k p \<longleftrightarrow>
     code_at (pg_bc P) ip (op_byte OC_REPEAT_STEP # lid # u32_bytes target) \<and> unat lid < MAX_LOOPS \<and> unat lid \<notin> N \<and>
     pg_lim P (unat lid) = (lo, hi) \<and> R (unat lid) = (k, p) \<and> p \<le> length (pg_cps P) \<and> unat target < length (pg_bc P) \<and>
     (hi = UNBOUNDED \<longrightarrow> pg_bc P ! unat target \<noteq> op_byte OC_SPAN)"

lemma loop_end_step:
  assumes "loop_end P N R ip lid target lo hi k p" "at_state P N R d ip m v"
  shows "vm_step run v = (let u = round_done v (unat lid) (ip + 6)
     in if k + 1 < lo then Go (repeat_again u (unat lid) (unat target))
        else if hi = UNBOUNDED \<or> k + 1 < hi
        then if hi = UNBOUNDED \<and> ms_at m = p then Go u
             else if hi = UNBOUNDED \<and> length (utf8 (pg_cps P)) + 1 < unat (k + 1) then Go u
             else Go (repeat_again (vm_push_choice u (ip + 6) (vm_pos v)) (unat lid) (unat target))
        else Go u)"
  using assms(1) unfolding loop_end_def by (elim conjE, intro step_step [OF assms(2)])

lemma loop_endD:
  assumes "loop_end P N R ip lid target lo hi k p"
  shows "unat lid < MAX_LOOPS" "unat lid \<notin> N" "R (unat lid) = (k, p)"
  using assms by (simp_all add: loop_end_def)

text \<open>Another round that is required.\<close>

lemma yields_round_more:
  assumes "loop_end P N R ip lid target lo hi k p" "k + 1 < lo"
    and "yields P N (R(unat lid := (k + 1, ms_at m))) d (unat target) m L"
  shows "yields P N R (d + 1) ip m L"
proof (rule yields_go [OF _ assms(3)])
  fix v assume s: "at_state P N R (d + 1) ip m v"
  note l = loop_endD [OF assms(1)]
  let ?l = "unat lid" and ?t = "unat target"
  let ?u = "round_done v ?l (ip + 6)"
  note u = round_done_state [OF s l, where i = "ip + 6"]
  note w = again_state [OF u(1) l(1), where t = ?t]
  have "go v (repeat_again ?u ?l ?t)" using loop_end_step [OF assms(1) s] assms(2) by (simp add: go_def Let_def)
  moreover have "kept P N v x" if "kept P N (repeat_again ?u ?l ?t) x" for x
    by (rule kept_through_round [OF s l(1) kept_trans [OF w(2) kept_mono [OF that]]]) blast
  ultimately show "\<exists>w. go v w \<and> at_state P N (R(?l := (k + 1, ms_at m))) d ?t m w \<and> (\<forall>x. kept P N w x \<longrightarrow> kept P N v x)"
    using w(1) by blast
qed

text \<open>The end of the loop.\<close>

lemma yields_round_last:
  assumes "loop_end P N R ip lid target lo hi k p" "\<not> k + 1 < lo"
    and "hi = UNBOUNDED \<and> ms_at m = p \<or> hi \<noteq> UNBOUNDED \<and> \<not> k + 1 < hi"
    and "yields P (insert (unat lid) N) R d (ip + 6) m L"
  shows "yields P N R (d + 1) ip m L"
proof (rule yields_go [OF _ assms(4)])
  fix v assume s: "at_state P N R (d + 1) ip m v"
  note l = loop_endD [OF assms(1)]
  let ?u = "round_done v (unat lid) (ip + 6)"
  note u = round_done_state [OF s l, where i = "ip + 6"]
  have "go v ?u" using loop_end_step [OF assms(1) s] assms(2,3) by (auto simp: go_def Let_def)
  moreover have "kept P N v x" if "kept P (insert (unat lid) N) ?u x" for x
    by (rule kept_through_round [OF s l(1) that])
  ultimately show "\<exists>w. go v w \<and> at_state P (insert (unat lid) N) R d (ip + 6) m w \<and>
      (\<forall>x. kept P (insert (unat lid) N) w x \<longrightarrow> kept P N v x)"
    using u(2) by blast
qed

text \<open>Another round, or the end of the loop.\<close>

lemma yields_round_again:
  assumes e: "loop_end P N R ip lid target lo hi k p" and lo: "\<not> k + 1 < lo"
    and hi: "hi = UNBOUNDED \<and> ms_at m \<noteq> p \<and> unat (k + 1) \<le> length (utf8 (pg_cps P)) + 1 \<or> hi \<noteq> UNBOUNDED \<and> k + 1 < hi"
    and body: "yields P N (R(unat lid := (k + 1, ms_at m))) d (unat target) m La"
    and behind: "yields P (insert (unat lid) N) R d (ip + 6) m Lb"
  shows "yields P N R (d + 1) ip m (La @ Lb)"
proof (rule yields_choice [where ma = m and Nb = "insert (unat lid) N" and mb = m and Rb = R and b = "ip + 6" and j = "ms_at m",
      OF _ _ body])
  fix v assume s: "at_state P N R (d + 1) ip m v"
  note l = loop_endD [OF e] and D = at_stateD [OF s]
  let ?l = "unat lid" and ?t = "unat target" and ?p = "off (pg_cps P) (ms_at m)"
  let ?u = "round_done v ?l (ip + 6)"
  note u = round_done_state [OF s l, where i = "ip + 6"]
  let ?q = "vm_push_choice ?u (ip + 6) ?p"
  let ?w = "repeat_again ?q ?l ?t"
  have "go v ?w" using loop_end_step [OF e s] lo hi D(9) by (auto simp: go_def Let_def)
  moreover have "vm_ip ?q = ip + 6"
    using push_choice_fields(5) [OF at_stateD(1) [OF u(1)], where b = "ip + 6" and p = ?p] at_stateD(7) [OF u(1)] by simp
  then have "?q\<lparr>vm_ip := ip + 6\<rparr> = ?q" by simp
  then have q: "at_state P N (R(?l := (k + 1, p))) d (ip + 6) m ?q"
    using at_push [OF u(1), where i = "ip + 6" and b = "ip + 6" and p = ?p] by simp
  note w = again_state [OF q l(1), where t = ?t]
  moreover have "kept P (insert ?l N) ?q x" if "kept P N ?w x" for x
    using kept_trans [OF w(2) kept_mono [OF that]] by blast
  moreover have "kept P N v x" if "kept P (insert ?l N) ?u x" for x by (rule kept_through_round [OF s l(1) that])
  ultimately show "\<exists>u w i. go v w \<and> at_state P (insert ?l N) R d i m u \<and> at_state P N (R(?l := (k + 1, ms_at m))) d ?t m w \<and>
      (\<forall>x. kept P N w x \<longrightarrow> kept P (insert ?l N) (vm_push_choice u (ip + 6) ?p) x) \<and> (\<forall>x. kept P (insert ?l N) u x \<longrightarrow> kept P N v x)"
    using u(2) by blast
  show "ms_at m \<le> length (pg_cps P)" using D by simp
qed (use behind in simp)

end
