(* ===== verification/Vm_Segments.thy ===== *)
theory Vm_Segments
  imports Vm_Sim_Loop
begin

text \<open>
  Segments of code. A segment from one position to another runs a function from states to lists of
  states, when every search through it is the search of what is behind it for each of the results in
  turn. Segments are joined one behind the other, as arms, and as the bodies of loops.
\<close>

section \<open>Segments\<close>

definition runs :: "prog \<Rightarrow> nat set \<Rightarrow> nat \<Rightarrow> nat \<Rightarrow> nat \<Rightarrow> (mstate \<Rightarrow> mstate list) \<Rightarrow> bool" where
  "runs P M ip ip' c f \<longleftrightarrow> (\<forall>N R d m F. M \<subseteq> N \<longrightarrow> ms_at m \<le> length (pg_cps P) \<longrightarrow>
     (\<forall>x \<in> set (f m). yields P N R d ip' x (F x)) \<longrightarrow> yields P N R (d + c) ip m (concat (map F (f m))))"

lemma runsI:
  assumes "\<And>N R d m F. M \<subseteq> N \<Longrightarrow> ms_at m \<le> length (pg_cps P) \<Longrightarrow> \<forall>x \<in> set (f m). yields P N R d ip' x (F x) \<Longrightarrow>
    yields P N R (d + c) ip m (concat (map F (f m)))"
  shows "runs P M ip ip' c f"
  using assms unfolding runs_def by blast

lemma runsD:
  "runs P M ip ip' c f \<Longrightarrow> M \<subseteq> N \<Longrightarrow> ms_at m \<le> length (pg_cps P) \<Longrightarrow> \<forall>x \<in> set (f m). yields P N R d ip' x (F x) \<Longrightarrow>
     yields P N R (d + c) ip m (concat (map F (f m)))"
  unfolding runs_def by blast

lemma runs_mono: "runs P M ip ip' c f \<Longrightarrow> M \<subseteq> M' \<Longrightarrow> c \<le> c' \<Longrightarrow> runs P M' ip ip' c' f"
  by (rule runsI) (rule yields_less [OF runsD [of P M ip ip' c f]], auto)

lemma runs_nothing: "runs P M ip ip 0 (\<lambda>m. [m])"
  by (rule runsI) simp

lemma runs_then:
  assumes "runs P M i j c f" "runs P M' j k c' g" "forward (pg_cps P) f"
  shows "runs P (M \<union> M') i k (c + c') (\<lambda>m. concat (map g (f m)))"
proof (rule runsI)
  fix N R d m F
  assume N: "M \<union> M' \<subseteq> N" and m: "ms_at m \<le> length (pg_cps P)"
    and F: "\<forall>x \<in> set (concat (map g (f m))). yields P N R d k x (F x)"
  have "yields P N R (d + c') j x (concat (map F (g x)))" if x: "x \<in> set (f m)" for x
    using runsD [OF assms(2), of N x R d F] N F x forwardD [OF assms(3) m x] by auto
  then have "yields P N R (d + c' + c) i m (concat (map (\<lambda>x. concat (map F (g x))) (f m)))"
    using runsD [OF assms(1), of N m R "d + c'"] N m by auto
  moreover have "concat (map F (concat (map g xs))) = concat (map (\<lambda>x. concat (map F (g x))) xs)" for xs
    by (induction xs) simp_all
  ultimately show "yields P N R (d + (c + c')) i m (concat (map F (concat (map g (f m)))))"
    by (simp add: ac_simps)
qed

text \<open>Two arms, with a jump behind the first.\<close>

lemma runs_arms:
  assumes "code_at (pg_bc P) ip (op_byte OC_SPLIT # u32_bytes a @ u32_bytes b)"
    "code_at (pg_bc P) j (op_byte OC_JMP # u32_bytes e)" "runs P M (unat a) j c f" "runs P M' (unat b) (unat e) c' g"
  shows "runs P (M \<union> M') ip (unat e) (max c c') (\<lambda>m. f m @ g m)"
proof (rule runsI)
  fix N R d m F
  assume N: "M \<union> M' \<subseteq> N" and m: "ms_at m \<le> length (pg_cps P)"
    and F: "\<forall>x \<in> set (f m @ g m). yields P N R d (unat e) x (F x)"
  have "yields P N R (d + c) (unat a) m (concat (map F (f m)))"
    using runsD [OF assms(3), of N m R d F] yields_jmp [OF assms(2)] N m F by auto
  moreover have "yields P N R (d + c') (unat b) m (concat (map F (g m)))"
    using runsD [OF assms(4), of N m R d F] N m F by auto
  ultimately show "yields P N R (d + max c c') ip m (concat (map F (f m @ g m)))"
    using yields_split [OF assms(1), of N R "d + max c c'" m] by (simp add: yields_less)
qed

text \<open>A segment whose results are changed by an instruction behind it.\<close>

lemma runs_last:
  assumes "\<And>N R d m L. yields P N R d ip' (h m) L \<Longrightarrow> yields P N R (d + c) ip m L"
  shows "runs P M ip ip' c (\<lambda>m. [h m])"
  by (rule runsI) (simp add: assms)

section \<open>Loops\<close>

lemma length_cps_utf8: "valid_cps cps \<Longrightarrow> length cps \<le> length (utf8 cps)"
proof (induction cps)
  case (Cons c cps)
  have "off (c # cps) 0 < off (c # cps) 1" using off_less [OF Cons.prems, of 0 1] by simp
  then have "encode_utf8 c \<noteq> []" by (auto simp: off_def utf8_def)
  then show ?case using Cons by (cases "encode_utf8 c") (auto simp: valid_cps_def utf8_def)
qed simp

text \<open>The code of loop \<open>l\<close>: its first instruction at \<open>ip\<close>, its last one at \<open>s\<close>.\<close>

definition loop_code :: "prog \<Rightarrow> nat \<Rightarrow> nat \<Rightarrow> nat \<Rightarrow> u32 \<Rightarrow> u32 \<Rightarrow> bool" where
  "loop_code P l ip s lo hi \<longleftrightarrow> l < MAX_LOOPS \<and> pg_lim P l = (lo, hi) \<and> length (pg_bc P) < 2 ^ 32 \<and> ip + 14 \<le> s \<and>
     code_at (pg_bc P) ip (op_byte OC_REPEAT_INIT # of_nat l # u32_bytes lo @ u32_bytes hi @ u32_bytes (of_nat (s + 6))) \<and>
     code_at (pg_bc P) s (op_byte OC_REPEAT_STEP # of_nat l # u32_bytes (of_nat (ip + 14))) \<and>
     (hi = UNBOUNDED \<longrightarrow> pg_bc P ! (ip + 14) \<noteq> op_byte OC_SPAN)"

lemma loop_codeD:
  assumes "loop_code P l ip s lo hi"
  shows "unat (of_nat l :: u8) = l" "unat (of_nat (s + 6) :: u32) = s + 6" "unat (of_nat (ip + 14) :: u32) = ip + 14"
    "ip + 14 < length (pg_bc P)"
proof -
  show "unat (of_nat l :: u8) = l" using assms by (simp add: loop_code_def MAX_LOOPS_def unat_of_nat)
  have s: "s + 6 \<le> length (pg_bc P)"
    using assms by (auto simp: loop_code_def code_at_def [of _ _ "u32_bytes _"] code_at_def)
  then show "unat (of_nat (s + 6) :: u32) = s + 6" "unat (of_nat (ip + 14) :: u32) = ip + 14" "ip + 14 < length (pg_bc P)"
    using assms nat_u32 [of "s + 6"] nat_u32 [of "ip + 14"] by (simp_all add: loop_code_def)
qed

lemma loop_code_end:
  assumes "loop_code P l ip s lo hi" "l \<notin> N" "R l = (k, p)" "p \<le> length (pg_cps P)"
  shows "loop_end P N R s (of_nat l) (of_nat (ip + 14)) lo hi k p"
  using assms loop_codeD [OF assms(1)] unfolding loop_end_def by (simp add: loop_code_def)


text \<open>The registers of the loops that may change do not matter.\<close>

lemma yields_loops: "(\<And>i. i \<notin> N \<Longrightarrow> R i = R' i) \<Longrightarrow> yields P N R d ip m L = yields P N R' d ip m L"
  by (simp add: yields_def at_state_def)

lemma yields_out:
  assumes "l \<in> N" "yields P N R d ip m L" "d \<le> d'"
  shows "yields P (insert l (N - {l})) (R(l := r)) d' ip m L"
proof -
  have "yields P N (R(l := r)) d ip m L" using assms(1,2) yields_loops [of N R "R(l := r)"] by fastforce
  then show ?thesis using yields_less [OF _ assms(3)] assms(1) by (simp add: insert_absorb)
qed

lemma concat_map_if: "concat (map F (concat (map g xs) @ ys)) = concat (map (\<lambda>x. concat (map F (g x))) xs) @ concat (map F ys)"
  by (induction xs) simp_all

text \<open>
  A loop without bounds, at the end of a round that started at \<open>p\<close>. The rounds before it went on by at
  least one code point each.
\<close>

lemma yields_star_round:
  assumes code: "loop_code P l ip s 0 (- 1)" and body: "runs P M (ip + 14) s c f" and fwd: "forward (pg_cps P) f"
    and l: "l \<notin> M" and cps: "valid_cps (pg_cps P)" "length (pg_cps P) + 1 < 2 ^ 32"
  shows "insert l M \<subseteq> N \<Longrightarrow> unat k \<le> p \<Longrightarrow> p \<le> ms_at x \<Longrightarrow> ms_at x \<le> length (pg_cps P) \<Longrightarrow>
    (ms_at x \<noteq> p \<Longrightarrow> length (pg_cps P) < n + ms_at x) \<Longrightarrow>
    (\<forall>y \<in> set (if ms_at x = p then [x] else star n f x). yields P N R d (s + 6) y (F y)) \<Longrightarrow>
    yields P (N - {l}) (R(l := (k, p))) (d + n * Suc c + 1) s x (concat (map F (if ms_at x = p then [x] else star n f x)))"
proof (induction n arbitrary: k p x)
  case 0
  have x: "ms_at x = p" using "0.prems"(4,5) by auto
  have "yields P (N - {l}) (R(l := (k, p))) (d + 1) s x (F x)"
  proof (rule yields_round_last [OF loop_code_end [OF code, where k = k and p = p]])
    show "yields P (insert (unat (of_nat l :: u8)) (N - {l})) (R(l := (k, p))) d (s + 6) x (F x)"
      using yields_out [of l N P R d "s + 6" x "F x" d "(k, p)"] loop_codeD(1) [OF code] "0.prems" x by simp
  qed (use "0.prems" x in \<open>simp_all add: UNBOUNDED_def\<close>)
  then have "yields P (N - {l}) (R(l := (k, p))) (d + 0 * Suc c + 1) s x (F x)" by simp
  then show ?case unfolding if_P [OF x] by (simp only: list.map concat.simps append_Nil2)
next
  case (Suc n)
  note e = loop_code_end [OF code, of "N - {l}" "R(l := (k, p))" k p]
  show ?case
  proof (cases "ms_at x = p")
    case True
    let ?d = "d + Suc n * Suc c"
    have "yields P (N - {l}) (R(l := (k, p))) (?d + 1) s x (F x)"
    proof (rule yields_round_last [OF loop_code_end [OF code, where k = k and p = p]])
      show "yields P (insert (unat (of_nat l :: u8)) (N - {l})) (R(l := (k, p))) ?d (s + 6) x (F x)"
        using yields_out [of l N P R d "s + 6" x "F x" ?d "(k, p)"] loop_codeD(1) [OF code] Suc.prems True by simp
    qed (use Suc.prems True in \<open>simp_all add: UNBOUNDED_def\<close>)
    then show ?thesis unfolding if_P [OF True] by (simp only: list.map concat.simps append_Nil2)
  next
    case False
    let ?R = "R(l := (k + 1, ms_at x))" and ?g = "\<lambda>y. if ms_at y = ms_at x then [y] else star n f y"
    have "length (pg_cps P) < 2 ^ 32 - 1" using cps(2) by simp
    then have k: "unat (k + 1) = unat k + 1" using Suc.prems(2-4) by (intro unat_add_lem [THEN iffD1, THEN trans]) simp_all
    have "yields P (N - {l}) ?R (d + n * Suc c + 1) s y (concat (map F (?g y)))" if y: "y \<in> set (f x)" for y
    proof (rule Suc.IH)
      show "insert l M \<subseteq> N" "unat (k + 1) \<le> ms_at x" using Suc.prems(1-3) False k by simp_all
      show "ms_at x \<le> ms_at y" "ms_at y \<le> length (pg_cps P)" using forwardD [OF fwd Suc.prems(4) y] by simp_all
      then show "length (pg_cps P) < n + ms_at y" if "ms_at y \<noteq> ms_at x" using that Suc.prems(5) [OF False] by simp
      show "\<forall>z \<in> set (?g y). yields P N R d (s + 6) z (F z)" using Suc.prems(6) False y by auto
    qed
    then have "yields P (N - {l}) ?R (d + n * Suc c + 1 + c) (ip + 14) x (concat (map (\<lambda>y. concat (map F (?g y))) (f x)))"
      using Suc.prems(1,4) l by (intro runsD [OF body]) auto
    moreover have "yields P (insert l (N - {l})) (R(l := (k, p))) (d + n * Suc c + 1 + c) (s + 6) x (F x)"
      using Suc.prems(1,6) False by (intro yields_out [where d = d]) auto
    ultimately have "yields P (N - {l}) (R(l := (k, p))) (d + n * Suc c + 1 + c + 1) s x
        (concat (map (\<lambda>y. concat (map F (?g y))) (f x)) @ F x)"
      using loop_codeD(1,3) [OF code] False Suc.prems(2-4) k length_cps_utf8 [OF cps(1)]
      by (intro yields_round_again [OF e]) (simp_all add: UNBOUNDED_def)
    moreover have "d + n * Suc c + 1 + c + 1 = d + Suc n * Suc c + 1" by simp
    moreover have "concat (map F (star (Suc n) f x)) = concat (map (\<lambda>y. concat (map F (?g y))) (f x)) @ F x"
      unfolding star.simps concat_map_if by simp
    ultimately show ?thesis unfolding if_not_P [OF False] by metis
  qed
qed

lemma unat_less_32: "unat (w :: u32) < 2 ^ 32"
proof -
  have "unat w < 2 ^ LENGTH(32)" by (rule unsigned_less)
  then show ?thesis by simp
qed

lemma init_opt:
  assumes "code_at (pg_bc P) ip (op_byte OC_REPEAT_INIT # of_nat l # u32_bytes 0 @ u32_bytes hi @ u32_bytes (of_nat e))"
    "l < MAX_LOOPS" "pg_lim P l = (0, hi)" "unat (of_nat l :: u8) = l" "unat (of_nat e :: u32) = e" "l \<in> N"
    "yields P (N - {l}) (R(l := (0, ms_at m))) d (ip + 14) m La" "yields P N R d e m Lb"
  shows "yields P N R d ip m (La @ Lb)"
  by (rule yields_init_opt [OF assms(1)]) (unfold assms(4,5), fact+)

lemma init_req:
  assumes "code_at (pg_bc P) ip (op_byte OC_REPEAT_INIT # of_nat l # u32_bytes lo @ u32_bytes hi @ u32_bytes e)"
    "l < MAX_LOOPS" "pg_lim P l = (lo, hi)" "unat (of_nat l :: u8) = l" "lo \<noteq> 0" "l \<in> N"
    "yields P (N - {l}) (R(l := (0, ms_at m))) d (ip + 14) m L"
  shows "yields P N R d ip m L"
  by (rule yields_init_req [OF assms(1)]) (unfold assms(4), fact+)

lemma runs_star:
  assumes code: "loop_code P l ip s 0 (- 1)" and body: "runs P M (ip + 14) s c f" and fwd: "forward (pg_cps P) f"
    and l: "l \<notin> M" and cps: "valid_cps (pg_cps P)" "length (pg_cps P) + 1 < 2 ^ 32"
  shows "runs P (insert l M) ip (s + 6) (Suc (Suc (length (pg_cps P))) * Suc c) (star (Suc (length (pg_cps P))) f)"
proof (rule runsI)
  fix N R d m F
  assume N: "insert l M \<subseteq> N" and m: "ms_at m \<le> length (pg_cps P)"
    and F: "\<forall>x \<in> set (star (Suc (length (pg_cps P))) f m). yields P N R d (s + 6) x (F x)"
  let ?n = "length (pg_cps P)" and ?R = "R(l := (0, ms_at m))"
  let ?g = "\<lambda>y. if ms_at y = ms_at m then [y] else star ?n f y"
  let ?d = "d + ?n * Suc c + 1 + c"
  note n = loop_codeD [OF code]
  have l': "l \<in> N" using N by simp
  have "yields P (N - {l}) ?R (d + ?n * Suc c + 1) s y (concat (map F (?g y)))" if y: "y \<in> set (f m)" for y
  proof (rule yields_star_round [OF code body fwd l cps N])
    show "ms_at m \<le> ms_at y" "ms_at y \<le> ?n" using forwardD [OF fwd m y] by simp_all
    then show "?n < ?n + ms_at y" if "ms_at y \<noteq> ms_at m" using that by simp
    show "\<forall>z \<in> set (?g y). yields P N R d (s + 6) z (F z)" using F y by auto
  qed simp
  then have r: "yields P (N - {l}) ?R ?d (ip + 14) m (concat (map (\<lambda>y. concat (map F (?g y))) (f m)))"
    using N m l by (intro runsD [OF body]) auto
  have out: "yields P N R ?d (s + 6) m (F m)" by (rule yields_less [OF bspec [OF F]]) simp_all
  have c: "code_at (pg_bc P) ip (op_byte OC_REPEAT_INIT # of_nat l # u32_bytes 0 @ u32_bytes (- 1) @ u32_bytes (of_nat (s + 6)))"
    "l < MAX_LOOPS" "pg_lim P l = (0, - 1)" using code by (simp_all add: loop_code_def)
  have "yields P N R ?d ip m (concat (map (\<lambda>y. concat (map F (?g y))) (f m)) @ F m)"
    using init_opt [OF c n(1,2) l' r out] .
  moreover have "concat (map F (star (Suc ?n) f m)) = concat (map (\<lambda>y. concat (map F (?g y))) (f m)) @ F m"
    unfolding star.simps concat_map_if by simp
  ultimately show "yields P N R (d + Suc (Suc ?n) * Suc c) ip m (concat (map F (star (Suc ?n) f m)))"
    by (simp add: yields_less)
qed

text \<open>A counted loop at the end of round \<open>k + 1\<close>, with up to \<open>h\<close> rounds left.\<close>

lemma yields_counted_round:
  assumes code: "loop_code P l ip s lo hi" and body: "runs P M (ip + 14) s c f" and fwd: "forward (pg_cps P) f"
    and l: "l \<notin> M" and hi: "hi \<noteq> UNBOUNDED" "unat lo \<le> unat hi"
  shows "insert l M \<subseteq> N \<Longrightarrow> unat hi = unat k + 1 + h \<Longrightarrow> p \<le> length (pg_cps P) \<Longrightarrow> ms_at x \<le> length (pg_cps P) \<Longrightarrow>
    (\<forall>y \<in> set (repeated (unat lo - unat k - 1) h f x). yields P N R d (s + 6) y (F y)) \<Longrightarrow>
    yields P (N - {l}) (R(l := (k, p))) (d + h * Suc c + 1) s x (concat (map F (repeated (unat lo - unat k - 1) h f x)))"
proof (induction h arbitrary: k p x)
  case 0
  have k: "unat (k + 1) = unat k + 1"
    using "0.prems"(2) unat_less_32 [of hi] by (intro unat_add_lem [THEN iffD1, THEN trans]) simp_all
  have "yields P (N - {l}) (R(l := (k, p))) (d + 1) s x (F x)"
  proof (rule yields_round_last [OF loop_code_end [OF code, where k = k and p = p]])
    show "yields P (insert (unat (of_nat l :: u8)) (N - {l})) (R(l := (k, p))) d (s + 6) x (F x)"
      using yields_out [of l N P R d "s + 6" x "F x" d "(k, p)"] loop_codeD(1) [OF code] "0.prems" by simp
  qed (use "0.prems" hi k in \<open>simp_all add: word_less_nat_alt\<close>)
  moreover have "concat (map F (repeated (unat lo - unat k - 1) 0 f x)) = F x" by simp
  ultimately show ?case by (metis mult_0 add_0_right)
next
  case (Suc h)
  let ?R = "R(l := (k + 1, ms_at x))" and ?lo = "unat lo - unat k - 1" and ?d = "d + h * Suc c + 1 + c"
  note unat_less_32 [of hi]
  then have k: "unat (k + 1) = unat k + 1"
    using Suc.prems(2) by (intro unat_add_lem [THEN iffD1, THEN trans]) simp_all
  have lo: "?lo - 1 = unat lo - unat (k + 1) - 1" using k by simp
  have "yields P (N - {l}) ?R (d + h * Suc c + 1) s y (concat (map F (repeated (?lo - 1) h f y)))" if y: "y \<in> set (f x)" for y
    unfolding lo
  proof (rule Suc.IH [OF Suc.prems(1)])
    show "unat hi = unat (k + 1) + 1 + h" "ms_at x \<le> length (pg_cps P)" using Suc.prems k by simp_all
    show "ms_at y \<le> length (pg_cps P)" using forwardD [OF fwd Suc.prems(4) y] by simp
    show "\<forall>z \<in> set (repeated (unat lo - unat (k + 1) - 1) h f y). yields P N R d (s + 6) z (F z)"
      using Suc.prems(5) y lo by auto
  qed
  then have r: "yields P (N - {l}) ?R ?d (ip + 14) x (concat (map (\<lambda>y. concat (map F (repeated (?lo - 1) h f y))) (f x)))"
    using Suc.prems(1,4) l by (intro runsD [OF body]) auto
  have e: "loop_end P (N - {l}) (R(l := (k, p))) s (of_nat l) (of_nat (ip + 14)) lo hi k p"
    using Suc.prems(3) by (intro loop_code_end [OF code]) simp_all
  note n = loop_codeD [OF code]
  have "yields P (N - {l}) (R(l := (k, p))) (?d + 1) s x (concat (map F (repeated ?lo (Suc h) f x)))"
  proof (cases "?lo = 0")
    case True
    have "yields P (insert l (N - {l})) (R(l := (k, p))) ?d (s + 6) x (F x)"
      using Suc.prems(1,5) True by (intro yields_out [where d = d]) auto
    then have "yields P (N - {l}) (R(l := (k, p))) (?d + 1) s x
        (concat (map (\<lambda>y. concat (map F (repeated (?lo - 1) h f y))) (f x)) @ F x)"
      using r n Suc.prems(2) True hi k
      by (intro yields_round_again [OF e]) (simp_all add: word_less_nat_alt)
    then show ?thesis using True unfolding repeated.simps concat_map_if by simp
  next
    case False
    then have "yields P (N - {l}) (R(l := (k, p))) (?d + 1) s x (concat (map (\<lambda>y. concat (map F (repeated (?lo - 1) h f y))) (f x)))"
      using r n k by (intro yields_round_more [OF e]) (simp_all add: word_less_nat_alt)
    then show ?thesis using False unfolding repeated.simps concat_map_if by simp
  qed
  moreover have "?d + 1 = d + Suc h * Suc c + 1" by simp
  ultimately show ?case by metis
qed

lemma runs_counted:
  assumes code: "loop_code P l ip s lo hi" and body: "runs P M (ip + 14) s c f" and fwd: "forward (pg_cps P) f"
    and l: "l \<notin> M" and hi: "hi \<noteq> UNBOUNDED" "unat lo \<le> unat hi" "hi \<noteq> 0"
  shows "runs P (insert l M) ip (s + 6) (unat hi * Suc c) (repeated (unat lo) (unat hi) f)"
proof (rule runsI)
  fix N R d m F
  assume N: "insert l M \<subseteq> N" and m: "ms_at m \<le> length (pg_cps P)"
    and F: "\<forall>x \<in> set (repeated (unat lo) (unat hi) f m). yields P N R d (s + 6) x (F x)"
  let ?R = "R(l := (0, ms_at m))"
  obtain h where h: "unat hi = Suc h" using hi(3) by (cases "unat hi") (simp_all add: unat_eq_0)
  let ?d = "d + h * Suc c + 1 + c"
  have lo: "unat lo - 1 = unat lo - unat (0 :: u32) - 1" by simp
  have l': "l \<in> N" using N by simp
  note n = loop_codeD [OF code]
  have "yields P (N - {l}) ?R (d + h * Suc c + 1) s y (concat (map F (repeated (unat lo - 1) h f y)))" if y: "y \<in> set (f m)" for y
    unfolding lo
  proof (rule yields_counted_round [OF code body fwd l hi(1,2) N])
    show "ms_at y \<le> length (pg_cps P)" using forwardD [OF fwd m y] by simp
    show "\<forall>z \<in> set (repeated (unat lo - unat (0 :: u32) - 1) h f y). yields P N R d (s + 6) z (F z)"
      using F y h by auto
  qed (use h m in simp_all)
  then have r: "yields P (N - {l}) ?R ?d (ip + 14) m (concat (map (\<lambda>y. concat (map F (repeated (unat lo - 1) h f y))) (f m)))"
    using N m l by (intro runsD [OF body]) auto
  have c: "code_at (pg_bc P) ip (op_byte OC_REPEAT_INIT # of_nat l # u32_bytes lo @ u32_bytes hi @ u32_bytes (of_nat (s + 6)))"
    "l < MAX_LOOPS" "pg_lim P l = (lo, hi)" using code by (simp_all add: loop_code_def)
  have "yields P N R ?d ip m (concat (map F (repeated (unat lo) (Suc h) f m)))"
  proof (cases "lo = 0")
    case True
    have out: "yields P N R ?d (s + 6) m (F m)" by (rule yields_less [OF bspec [OF F]]) (simp_all add: h True)
    have "yields P N R ?d ip m (concat (map (\<lambda>y. concat (map F (repeated (unat lo - 1) h f y))) (f m)) @ F m)"
      using init_opt [OF c [unfolded True] n(1,2) l' r out] .
    then show ?thesis using True unfolding repeated.simps concat_map_if by simp
  next
    case False
    then have "unat lo \<noteq> 0" by (simp add: unat_eq_0)
    moreover have "yields P N R ?d ip m (concat (map (\<lambda>y. concat (map F (repeated (unat lo - 1) h f y))) (f m)))"
      using init_req [OF c n(1) False l' r] .
    ultimately show ?thesis unfolding repeated.simps concat_map_if by simp
  qed
  moreover have "?d = d + Suc h * Suc c" by simp
  ultimately show "yields P N R (d + unat hi * Suc c) ip m (concat (map F (repeated (unat lo) (unat hi) f m)))"
    unfolding h by metis
qed

end
