(* ===== verification/Compiler_Emit.thy ===== *)
theory Compiler_Emit
  imports Vm_Segments
begin

text \<open>
  Compiled patterns do what the specification of matching says: the code emitted for a tree is a
  segment that runs \<open>matches\<close>, and the machine started on the whole bytecode ends with the first match.
\<close>

section \<open>What is emitted\<close>

definition code_of :: "compiler \<Rightarrow> bytes" where
  "code_of co = cb_data (co_cb co)"

lemma length_code_of [simp]: "length (code_of co) = here co"
  by (simp add: code_of_def here_def cb_pos_def)

lemma code_of_put [simp]:
  "code_of (put8 x co) = code_of co @ [x]" "code_of (put16 y co) = code_of co @ u16_bytes y"
  "code_of (put32 z co) = code_of co @ u32_bytes z" "code_of (put_bytes b co) = code_of co @ b"
  "code_of (put_op oc co) = code_of co @ [op_byte oc]" "code_of (co\<lparr>co_classes := es\<rparr>) = code_of co"
  "code_of (co\<lparr>co_loops := n\<rparr>) = code_of co"
  by (simp_all add: code_of_def put8_def put16_def put32_def put_bytes_def put_op_def)

lemma put_fields [simp]:
  "co_classes (put8 x co) = co_classes co" "co_classes (put16 y co) = co_classes co" "co_classes (put32 z co) = co_classes co"
  "co_classes (put_bytes b co) = co_classes co" "co_classes (put_op oc co) = co_classes co" "co_classes (patch32 i z co) = co_classes co"
  "co_loops (put8 x co) = co_loops co" "co_loops (put16 y co) = co_loops co" "co_loops (put32 z co) = co_loops co"
  "co_loops (put_bytes b co) = co_loops co" "co_loops (put_op oc co) = co_loops co" "co_loops (patch32 i z co) = co_loops co"
  "co_ci (put8 x co) = co_ci co" "co_ci (put16 y co) = co_ci co" "co_ci (put32 z co) = co_ci co"
  "co_ci (put_bytes b co) = co_ci co" "co_ci (put_op oc co) = co_ci co" "co_ci (patch32 i z co) = co_ci co"
  by (simp_all add: put8_def put16_def put32_def put_bytes_def put_op_def patch32_def)

lemma code_of_patch:
  assumes "code_of co = xs @ u32_bytes w @ ys" "length xs = i"
  shows "code_of (patch32 i v co) = xs @ u32_bytes v @ ys"
  using assms by (auto simp: code_of_def patch32_def cb_patch_u32_def u32_bytes_def list_update_append)

definition new_code :: "compiler \<Rightarrow> compiler \<Rightarrow> bytes" where
  "new_code co co' = drop (here co) (code_of co')"

lemma extends_code: "extends co co' \<Longrightarrow> code_of co' = code_of co @ new_code co co'"
  by (auto simp: extends_def code_of_def new_code_def here_def cb_pos_def)

lemma length_new_code [simp]: "length (new_code co co') = here co' - here co"
  by (simp add: new_code_def)

lemma new_codeI: "code_of co' = code_of co @ b \<Longrightarrow> new_code co co' = b"
  by (simp add: new_code_def)

subsection \<open>Loops and alternatives\<close>

lemma emit_loop_code:
  assumes "emit_loop body l lo hi co = Compiled co'" "\<And>co. grows co (body co)"
  obtains ca cb where "body ca = Compiled cb" "extends ca cb" "here ca = here co + 14" "here co' = here cb + 6"
    "co_loops ca = co_loops co" "co_loops co' = co_loops cb" "co_ci ca = co_ci co"
    "co_classes ca = co_classes co" "co_classes co' = co_classes cb"
    "new_code co co' = (op_byte OC_REPEAT_INIT # of_nat l # u32_bytes lo @ u32_bytes hi @ u32_bytes (of_nat (here cb + 6))) @
       new_code ca cb @ (op_byte OC_REPEAT_STEP # of_nat l # u32_bytes (of_nat (here co + 14)))"
proof -
  let ?ca = "loop_head l lo hi co"
  obtain cb where cb: "body ?ca = Compiled cb" "co' = loop_tail l (here ?ca) cb"
    using assms(1) by (auto simp: emit_loop_def Let_def cbind_Compiled)
  have e: "extends ?ca cb" using assms(2) [of ?ca] cb(1) by (simp add: grows_def)
  have h: "here ?ca = here co + 14" by (simp add: loop_head_def)
  let ?cc = "put32 (of_nat (here ?ca)) (put8 (of_nat l) (put_op OC_REPEAT_STEP cb))"
  let ?xs = "code_of co @ op_byte OC_REPEAT_INIT # of_nat l # u32_bytes lo @ u32_bytes hi"
  let ?ys = "new_code ?ca cb @ op_byte OC_REPEAT_STEP # of_nat l # u32_bytes (of_nat (here ?ca))"
  have "code_of ?cc = ?xs @ u32_bytes 0 @ ?ys"
    using extends_code [OF e] by (simp add: loop_head_def)
  then have "code_of co' = ?xs @ u32_bytes (of_nat (here cb + 6)) @ ?ys"
    unfolding cb(2) loop_tail_def Let_def by (rule code_of_patch [THEN trans]) (simp_all add: h add.commute)
  then have "new_code co co' = (op_byte OC_REPEAT_INIT # of_nat l # u32_bytes lo @ u32_bytes hi @ u32_bytes (of_nat (here cb + 6))) @ ?ys"
    by (intro new_codeI) simp
  then show thesis
    using that [of ?ca cb] cb(1) e h unfolding cb(2) by (simp add: loop_tail_def Let_def loop_head_def add.commute)
qed

lemma emit_alt_code:
  assumes "emit_alt left right co = Compiled co'" "\<And>co. grows co (left co)" "\<And>co. grows co (right co)"
  obtains ca cb cc cd where "left ca = Compiled cb" "right cc = Compiled cd" "extends ca cb" "extends cc cd"
    "here ca = here co + 9" "here cc = here cb + 5" "here co' = here cd"
    "co_loops ca = co_loops co" "co_loops cc = co_loops cb" "co_loops co' = co_loops cd" "co_ci ca = co_ci co" "co_ci cc = co_ci cb"
    "co_classes ca = co_classes co" "co_classes cc = co_classes cb" "co_classes co' = co_classes cd"
    "new_code co co' = (op_byte OC_SPLIT # u32_bytes (of_nat (here ca)) @ u32_bytes (of_nat (here cc))) @ new_code ca cb @
       (op_byte OC_JMP # u32_bytes (of_nat (here cd))) @ new_code cc cd"
proof -
  let ?ca = "put32 0 (put32 0 (put_op OC_SPLIT co))"
  obtain cb where cb: "left ?ca = Compiled cb"
    using assms(1) by (auto simp: emit_alt_def Let_def cbind_Compiled)
  let ?cc = "put32 0 (put_op OC_JMP cb)"
  obtain cd where cd: "right ?cc = Compiled cd"
    "co' = patch32 (here cb + 1) (of_nat (here cd)) (patch32 (here co + 5) (of_nat (here ?cc)) (patch32 (here co + 1) (of_nat (here ?ca)) cd))"
    using assms(1) cb by (auto simp: emit_alt_def Let_def cbind_Compiled add.commute)
  have e: "extends ?ca cb" "extends ?cc cd" using assms(2) [of ?ca] assms(3) [of ?cc] cb cd by (simp_all add: grows_def)
  let ?x = "code_of co @ [op_byte OC_SPLIT]"
    and ?l = "new_code ?ca cb @ [op_byte OC_JMP]" and ?r = "new_code ?cc cd"
  have le: "here co + 9 \<le> here cb" using extends_here [OF e(1)] by simp
  let ?a = "u32_bytes (of_nat (here ?ca))" and ?b = "u32_bytes (of_nat (here ?cc))"
  let ?p = "patch32 (here co + 1) (of_nat (here ?ca)) cd"
  have "code_of cd = ?x @ u32_bytes 0 @ (u32_bytes 0 @ ?l @ u32_bytes 0 @ ?r)"
    using extends_code [OF e(1)] extends_code [OF e(2)] by simp
  then have "code_of ?p = ?x @ ?a @ (u32_bytes 0 @ ?l @ u32_bytes 0 @ ?r)" by (rule code_of_patch) simp
  then have "code_of ?p = (?x @ ?a) @ u32_bytes 0 @ (?l @ u32_bytes 0 @ ?r)" by simp
  then have "code_of (patch32 (here co + 5) (of_nat (here ?cc)) ?p) = (?x @ ?a) @ ?b @ (?l @ u32_bytes 0 @ ?r)"
    by (rule code_of_patch) simp
  then have "code_of (patch32 (here co + 5) (of_nat (here ?cc)) ?p) = (?x @ ?a @ ?b @ ?l) @ u32_bytes 0 @ ?r" by simp
  then have "code_of co' = (?x @ ?a @ ?b @ ?l) @ u32_bytes (of_nat (here cd)) @ ?r"
    unfolding cd(2) by (rule code_of_patch) (use le in simp)
  then have "new_code co co' = (op_byte OC_SPLIT # u32_bytes (of_nat (here ?ca)) @ u32_bytes (of_nat (here ?cc))) @ new_code ?ca cb @
      (op_byte OC_JMP # u32_bytes (of_nat (here cd))) @ new_code ?cc cd"
    by (intro new_codeI) simp
  then show thesis using that [of ?ca cb ?cc cd] cb cd e by simp
qed

subsection \<open>Classes\<close>

definition classes_in :: "prog \<Rightarrow> compiler \<Rightarrow> bool" where
  "classes_in P co \<longleftrightarrow> (\<forall>k. 1 \<le> k \<and> k \<le> length (co_classes co) \<longrightarrow>
     has_class (pg_bc P) (of_nat k) (\<lambda>c. c \<in> ranges_set (cc_ranges (co_classes co ! (k - 1)))))"

lemma classes_in_mono: "classes_in P co' \<Longrightarrow> extends co co' \<Longrightarrow> classes_in P co"
  unfolding classes_in_def
proof (intro allI impI)
  fix k assume c: "\<forall>k. 1 \<le> k \<and> k \<le> length (co_classes co') \<longrightarrow>
      has_class (pg_bc P) (of_nat k) (\<lambda>c. c \<in> ranges_set (cc_ranges (co_classes co' ! (k - 1))))"
    and e: "extends co co'" and k: "1 \<le> k \<and> k \<le> length (co_classes co)"
  obtain es where es: "co_classes co' = co_classes co @ es" using e by (auto simp: extends_def)
  moreover have "k - 1 < length (co_classes co)" using k by linarith
  ultimately have "co_classes co' ! (k - 1) = co_classes co ! (k - 1)" by (simp add: nth_append)
  then show "has_class (pg_bc P) (of_nat k) (\<lambda>c. c \<in> ranges_set (cc_ranges (co_classes co ! (k - 1))))"
    using c k es by (metis length_append trans_le_add1)
qed

lemma classes_in_cong: "co_classes co = co_classes co' \<Longrightarrow> classes_in P co = classes_in P co'"
  by (simp add: classes_in_def)

lemma in_text_class:
  assumes "is_text s"
  shows "(\<lambda>c. c \<in> ranges_set (class_loop False s 0 [])) = in_text s"
proof -
  have "class_loop False s 0 [] = class_items (cps_of s)"
    using class_loop_text [of "cps_of s"] assms by (simp add: is_text_def)
  then show ?thesis by (simp add: in_text_def ranges_set_def range_set_def fun_eq_iff case_prod_unfold)
qed

lemma emit_set_code:
  assumes "emit_set oc s co = Compiled co'" "\<not> co_ci co" "is_text s" "registry_ok (co_classes co)"
  obtains k where "new_code co co' = op_byte oc # u16_bytes k" "here co' = here co + 3" "co_loops co' = co_loops co"
    "\<And>P. classes_in P co' \<Longrightarrow> has_class (pg_bc P) k (in_text s)"
proof -
  obtain i es where a: "add_or_get_charclass False (co_classes co) s = Some (i, es)"
    "co' = put16 (of_nat i) (put_op oc (co\<lparr>co_classes := es\<rparr>))"
    using assms(1,2) by (auto simp: emit_set_def split: option.splits)
  note c = add_class_spec [OF a(1) assms(4)]
  have "has_class (pg_bc P) (of_nat i) (in_text s)" if "classes_in P co'" for P
    using that c(2,3,5) a(2) by (auto simp: classes_in_def in_text_class [OF assms(3)])
  then show thesis using a(2) by (intro that [of "of_nat i"] new_codeI) simp_all
qed

subsection \<open>Loop numbers\<close>

lemma small_int_u32:
  assumes "small_int n"
  shows "unat (of_int n :: u32) = nat n" "(of_int n :: u32) \<noteq> - 1"
proof -
  have n: "0 \<le> n" "n < 2 ^ 31" using assms by (simp_all add: small_int_def)
  then have "nat n < 2 ^ 32" by simp
  then have "unat (of_nat (nat n) :: u32) = nat n" by (rule nat_u32)
  then show u: "unat (of_int n :: u32) = nat n" using n by simp
  have "unat (- 1 :: u32) = 4294967295" by (simp add: unsigned_minus_1_eq_mask mask_eq_exp_minus_1)
  then show "(of_int n :: u32) \<noteq> - 1" using u n by auto
qed

lemma unbounded_iff:
  assumes "supported (AST_REPETITION a lo hi)"
  shows "(of_int lo :: u32) = 0 \<and> (of_int hi :: u32) = - 1 \<longleftrightarrow> lo = 0 \<and> hi = - 1"
  using assms small_int_u32(2) by (auto split: if_splits)

lemma emit_arbno_loop_Compiled:
  assumes "emit_arbno_loop body sub co = Compiled co'"
  shows "co_loops co < MAX_LOOPS" "emit_loop body (co_loops co) 0 (- 1) (co\<lparr>co_loops := co_loops co + 1\<rparr>) = Compiled co'"
  using assms by (auto simp: emit_arbno_loop_def split: if_splits option.splits)

lemma emit_ci: "emit_node_c a co = Compiled co' \<Longrightarrow> co_ci co' = co_ci co"
  using emit_grows(1) [of co a] by (simp add: grows_def extends_def)

lemma emit_loop_loops:
  assumes "emit_loop (emit_node_c a) l lo hi co = Compiled co'"
    "\<And>co co'. emit_node_c a co = Compiled co' \<Longrightarrow> \<not> co_ci co \<Longrightarrow> co_loops co' = co_loops co + n" "\<not> co_ci co"
  shows "co_loops co' = co_loops co + n"
  using emit_loop_code [OF assms(1) emit_grows(1)] assms(2,3) by metis

lemma emit_set_loops: "emit_set oc s co = Compiled co' \<Longrightarrow> co_loops co' = co_loops co"
  by (auto simp: emit_set_def split: option.splits)

lemma emit_any_loops: "emit_any_c text co = Compiled co' \<Longrightarrow> co_loops co' = co_loops co"
  by (auto simp: emit_any_c_def emit_set_loops split: option.splits if_splits)

lemma emit_loops:
  "emit_node_c a co = Compiled co' \<Longrightarrow> supported a \<Longrightarrow> \<not> co_ci co \<Longrightarrow> co_loops co' = co_loops co + length (loop_limits a)"
  "emit_parts as co = Compiled co' \<Longrightarrow> \<forall>a \<in> set as. supported a \<Longrightarrow> \<not> co_ci co \<Longrightarrow> co_loops co' = co_loops co + length (loops_limits as)"
proof (induction a co and as co arbitrary: co' and co' rule: emit_node_c_emit_parts.induct)
  case (3 l r co)
  obtain ca cb cc cd where c: "emit_node_c l ca = Compiled cb" "emit_node_c r cc = Compiled cd" "co_loops ca = co_loops co"
    "co_loops cc = co_loops cb" "co_loops co' = co_loops cd" "co_ci ca = co_ci co" "co_ci cc = co_ci cb"
    using emit_alt_code [OF 3(3) [unfolded emit_node_c.simps] emit_grows(1,1)] by metis
  then show ?case using 3(1) [OF c(1)] 3(2) [OF c(2)] 3(4,5) emit_ci [OF c(1)] by simp
next
  case (4 a lo hi co)
  note u = unbounded_iff [OF 4(4)]
  show ?case
  proof (cases "lo = 0 \<and> hi = - 1")
    case True
    let ?b = "loop_body (unwrap_repeat a)"
    have "emit_arbno_loop (emit_node_c ?b) ?b (co\<lparr>co_loops := co_loops co + 1\<rparr>) = Compiled co'" and m: "co_loops co < MAX_LOOPS"
      using 4(3) u True by (auto simp: Let_def loop_body_def split: if_splits)
    then have "emit_loop (emit_node_c ?b) (Suc (co_loops co)) 0 (- 1) (co\<lparr>co_loops := co_loops co + 1, co_loops := co_loops co + 2\<rparr>) = Compiled co'"
      using emit_arbno_loop_Compiled(2) [of "emit_node_c ?b" ?b "co\<lparr>co_loops := co_loops co + 1\<rparr>"] by simp
    moreover have "supported ?b" using 4(4) supported_unwrap by simp
    then have "co_loops y = co_loops x + length (loop_limits ?b)" if "emit_node_c ?b x = Compiled y" "\<not> co_ci x" for x y
      using 4(1) [of ?b x y] u True that m by (simp add: loop_body_def)
    ultimately have "co_loops co' = co_loops co + 2 + length (loop_limits ?b)"
      using emit_loop_loops [of ?b "Suc (co_loops co)" 0 "- 1" _ co' "length (loop_limits ?b)"] 4(5) by simp
    then show ?thesis using True by simp
  next
    case False
    have "emit_loop (emit_node_c a) (co_loops co) (of_int lo) (of_int hi) (co\<lparr>co_loops := co_loops co + 1\<rparr>) = Compiled co'" and m: "co_loops co < MAX_LOOPS"
      using 4(3) u False by (auto split: if_splits)
    moreover have "co_loops y = co_loops x + length (loop_limits a)" if "emit_node_c a x = Compiled y" "\<not> co_ci x" for x y
      using 4(2) [of x y] u False that m 4(4) by auto
    ultimately have "co_loops co' = co_loops co + 1 + length (loop_limits a)"
      using emit_loop_loops [of a "co_loops co" "of_int lo" "of_int hi" _ co' "length (loop_limits a)"] 4(5) by simp
    then show ?thesis using False by auto
  qed
next
  case (9 a co)
  have "emit_arbno_loop (emit_node_c (loop_body a)) (loop_body a) co = Compiled co'" using 9(2) by (simp add: Let_def loop_body_def)
  note l = emit_arbno_loop_Compiled(2) [OF this]
  moreover have "supported (loop_body a)" using 9(3) supported_unwrap by simp
  then have "co_loops y = co_loops x + length (loop_limits (loop_body a))" if "emit_node_c (loop_body a) x = Compiled y" "\<not> co_ci x" for x y
    using 9(1) [of "loop_body a" x y] that by (simp add: loop_body_def)
  ultimately have "co_loops co' = co_loops co + 1 + length (loop_limits (loop_body a))"
    using emit_loop_loops [OF l, of "length (loop_limits (loop_body a))"] 9(4) by simp
  then show ?case by simp
next
  case (10 reg a co)
  then show ?case by (auto simp: cbind_Compiled put_cap_def)
next
  case (34 a as co)
  then show ?case using emit_ci by (fastforce simp: cbind_Compiled)
qed (auto simp: emit_lit_bytes_def Let_def emit_set_loops emit_any_loops put_defs)

subsection \<open>The first instruction\<close>

lemma new_code_trans: "extends a b \<Longrightarrow> extends b c \<Longrightarrow> new_code a c = new_code a b @ new_code b c"
  using extends_code [of a b] extends_code [of b c] by (intro new_codeI) simp

lemma emit_extends: "emit_node_c a co = Compiled co' \<Longrightarrow> extends co co'" "emit_parts as co = Compiled co' \<Longrightarrow> extends co co'"
  using emit_grows(1) [of co a] emit_grows(2) [of co as] by (simp_all add: grows_def)

definition starts_plainly :: "bytes \<Rightarrow> bool" where
  "starts_plainly b \<longleftrightarrow> (\<exists>oc bs. b = op_byte oc # bs \<and> oc \<noteq> OC_SPAN)"

lemma starts_plainly_Cons [simp]: "starts_plainly (op_byte oc # bs) \<longleftrightarrow> oc \<noteq> OC_SPAN"
  using decode_op_byte unfolding starts_plainly_def by (metis list.inject option.inject)

lemma starts_plainly_append: "starts_plainly b \<Longrightarrow> starts_plainly (b @ b')"
  by (auto simp: starts_plainly_def)

lemma starts_with: "code_of co' = code_of co @ op_byte oc # bs \<Longrightarrow> oc \<noteq> OC_SPAN \<Longrightarrow> starts_plainly (new_code co co')"
  using new_codeI [of co' co "op_byte oc # bs"] by simp

lemma new_code_cong: "code_of c = code_of co \<Longrightarrow> new_code c co' = new_code co co'"
  unfolding new_code_def by (metis length_code_of)

lemma loop_start: 
  assumes "emit_loop (emit_node_c b) l lo hi c = Compiled co'" "code_of c = code_of co"
  shows "starts_plainly (new_code co co')"
proof -
  obtain bs where "new_code c co' = op_byte OC_REPEAT_INIT # bs"
    by (rule emit_loop_code [OF assms(1) emit_grows(1)]) simp
  then show ?thesis using new_code_cong [OF assms(2), of co'] by simp
qed

lemma arbno_start: "emit_arbno_loop (emit_node_c b) sub c = Compiled co' \<Longrightarrow> code_of c = code_of co \<Longrightarrow> starts_plainly (new_code co co')"
  using emit_arbno_loop_Compiled(2) loop_start code_of_put(7) by metis

lemma emit_start:
  "plain_start a \<Longrightarrow> supported a \<Longrightarrow> \<not> co_ci co \<Longrightarrow> emit_node_c a co = Compiled co' \<Longrightarrow> starts_plainly (new_code co co')"
proof (induction a arbitrary: co co')
  case (AST_CONCAT parts)
  then obtain a as c where a: "parts = a # as" "emit_node_c a co = Compiled c" "emit_parts as c = Compiled co'"
    by (auto simp: cbind_Compiled split: list.splits)
  have "starts_plainly (new_code co c)" using AST_CONCAT.IH [of a co c] AST_CONCAT.prems a by simp
  then show ?case using new_code_trans [OF emit_extends(1) [OF a(2)] emit_extends(2) [OF a(3)]] by (simp add: starts_plainly_append)
next
  case (AST_DYNAMIC_EVAL a)
  then show ?case by simp
next
  case (AST_ALT l r)
  show ?case using emit_alt_code [OF AST_ALT.prems(4) [unfolded emit_node_c.simps] emit_grows(1,1)] by (metis append_Cons starts_plainly_Cons op_code.distinct)
next
  case (AST_REPETITION a lo hi)
  then show ?case by (auto simp: Let_def split: if_splits intro: arbno_start loop_start)
next
  case (AST_ARBNO a)
  then show ?case by (auto simp: Let_def intro: arbno_start)
next
  case (AST_CAP r a)
  then obtain c where c: "emit_node_c a (put_cap OC_CAP_START r co) = Compiled c" "co' = put_cap OC_CAP_END r c"
    by (auto simp: cbind_Compiled)
  have "extends (put_cap OC_CAP_START r co) co'" using emit_extends(1) [OF c(1)] c(2) by (simp add: extends_cap)
  then show ?case by (intro starts_with [where oc = OC_CAP_START]) (simp_all add: extends_code put_cap_def)
qed (auto simp: emit_lit_bytes_def emit_any_c_def emit_set_def Let_def put_defs split: option.splits if_splits intro!: starts_with)

end
