(* ===== verification/Compiler_Correct.thy ===== *)
theory Compiler_Correct
  imports Compiler_Emit
begin

section \<open>Emitted code runs the pattern\<close>

definition lims_at :: "prog \<Rightarrow> nat \<Rightarrow> (u32 \<times> u32) list \<Rightarrow> bool" where
  "lims_at P n ls \<longleftrightarrow> (\<forall>i < length ls. pg_lim P (n + i) = ls ! i)"

lemma lims_at_simps [simp]:
  "lims_at P n []" "lims_at P n (x # ls) \<longleftrightarrow> pg_lim P n = x \<and> lims_at P (Suc n) ls"
  "lims_at P n (ls @ ls') \<longleftrightarrow> lims_at P n ls \<and> lims_at P (n + length ls) ls'"
proof -
  show "lims_at P n []" by (simp add: lims_at_def)
  show c: "lims_at P n (x # ls) \<longleftrightarrow> pg_lim P n = x \<and> lims_at P (Suc n) ls" for n x ls
    by (auto simp: lims_at_def less_Suc_eq_0_disj)
  show "lims_at P n (ls @ ls') \<longleftrightarrow> lims_at P n ls \<and> lims_at P (n + length ls) ls'"
    by (induction ls arbitrary: n) (simp_all add: c, simp add: lims_at_def)
qed

definition prog_ok :: "prog \<Rightarrow> bool" where
  "prog_ok P \<longleftrightarrow> valid_cps (pg_cps P) \<and> length (pg_cps P) + 1 < 2 ^ 32 \<and> length (pg_bc P) < 2 ^ 32"

text \<open>The code emitted between two states of the compiler is there, with its classes and loops.\<close>

definition placed :: "prog \<Rightarrow> compiler \<Rightarrow> compiler \<Rightarrow> (u32 \<times> u32) list \<Rightarrow> bool" where
  "placed P co co' ls \<longleftrightarrow> extends co co' \<and> registry_ok (co_classes co) \<and> \<not> co_ci co \<and>
     code_at (pg_bc P) (here co) (new_code co co') \<and> classes_in P co' \<and> lims_at P (co_loops co) ls \<and>
     co_loops co' = co_loops co + length ls"

lemma runs_single:
  assumes "\<And>N R d m F. ms_at m \<le> length (pg_cps P) \<Longrightarrow> \<forall>x \<in> set (f m). yields P N R d ip' x (F x) \<Longrightarrow>
    yields P N R d ip m (concat (map F (f m)))"
  shows "runs P M ip ip' 0 f"
  by (rule runsI) (simp add: assms)

lemma emit_alt_runs:
  assumes "emit_alt (emit_node_c l) (emit_node_c r) co = Compiled co'" "prog_ok P" "supported l" "supported r"
    "placed P co co' (loop_limits l @ loop_limits r)"
    "\<And>co co'. emit_node_c l co = Compiled co' \<Longrightarrow> placed P co co' (loop_limits l) \<Longrightarrow>
       runs P {co_loops co..<co_loops co'} (here co) (here co') c f"
    "\<And>co co'. emit_node_c r co = Compiled co' \<Longrightarrow> placed P co co' (loop_limits r) \<Longrightarrow>
       runs P {co_loops co..<co_loops co'} (here co) (here co') c' g"
  shows "runs P {co_loops co..<co_loops co'} (here co) (here co') (max c c') (\<lambda>m. f m @ g m)"
proof (rule emit_alt_code [OF assms(1) emit_grows(1,1)])
  fix ca cb cc cd
  assume e: "emit_node_c l ca = Compiled cb" "emit_node_c r cc = Compiled cd" "extends ca cb" "extends cc cd"
    and h: "here ca = here co + 9" "here cc = here cb + 5" "here co' = here cd"
    and s: "co_loops ca = co_loops co" "co_loops cc = co_loops cb" "co_loops co' = co_loops cd" "co_ci ca = co_ci co" "co_ci cc = co_ci cb"
      "co_classes ca = co_classes co" "co_classes cc = co_classes cb" "co_classes co' = co_classes cd"
    and n: "new_code co co' = (op_byte OC_SPLIT # u32_bytes (of_nat (here ca)) @ u32_bytes (of_nat (here cc))) @ new_code ca cb @
       (op_byte OC_JMP # u32_bytes (of_nat (here cd))) @ new_code cc cd"
  note p = assms(5) [unfolded placed_def n]
  have ci: "\<not> co_ci cb" using p s emit_ci [OF e(1)] by simp
  have k: "co_loops cb = co_loops ca + length (loop_limits l)" "co_loops cd = co_loops cc + length (loop_limits r)"
    using emit_loops(1) [OF e(1) assms(3)] emit_loops(1) [OF e(2) assms(4)] p s ci by simp_all
  have le: "here ca \<le> here cb" "here cc \<le> here cd" using e(3,4) extends_here by blast+
  have code: "code_at (pg_bc P) (here co) (op_byte OC_SPLIT # u32_bytes (of_nat (here ca)) @ u32_bytes (of_nat (here cc)))"
    "code_at (pg_bc P) (here ca) (new_code ca cb)"
    "code_at (pg_bc P) (here cb) (op_byte OC_JMP # u32_bytes (of_nat (here cd)))"
    "code_at (pg_bc P) (here cc) (new_code cc cd)"
    using p h le by (simp_all only: code_at_append) (simp_all add: ac_simps)
  have len: "here cd \<le> length (pg_bc P)"
    using code(4) le by (simp add: code_at_def)
  have cls: "classes_in P cd" using p classes_in_cong [OF s(8)] by simp
  have "classes_in P cc" using classes_in_mono [OF cls e(4)] .
  then have clsb: "classes_in P cb" using classes_in_cong [OF s(7)] by simp
  have reg: "registry_ok (co_classes cb)" using p s(6) e(3) by (simp add: extends_def)
  have "runs P {co_loops ca..<co_loops cb} (here ca) (here cb) c f"
    using p s e k code(2) clsb by (intro assms(6)) (simp_all add: placed_def)
  moreover have "runs P {co_loops cc..<co_loops cd} (here cc) (here cd) c' g"
    using p s e k code(4) cls ci reg by (intro assms(7)) (simp_all add: placed_def)
  moreover have "unat (of_nat (here ca) :: u32) = here ca" "unat (of_nat (here cc) :: u32) = here cc" "unat (of_nat (here cd) :: u32) = here cd"
    using len le h assms(2) nat_u32 [of "here ca"] nat_u32 [of "here cc"] nat_u32 [of "here cd"] by (simp_all add: prog_ok_def)
  ultimately have "runs P ({co_loops ca..<co_loops cb} \<union> {co_loops cc..<co_loops cd}) (here co) (here cd) (max c c') (\<lambda>m. f m @ g m)"
    using runs_arms [OF code(1,3), of _ c f _ c' g] by simp
  then show ?thesis using k s h by (rule_tac runs_mono) auto
qed

lemma emit_loop_placed:
  assumes "emit_loop (emit_node_c b) l lo hi co = Compiled co'" "prog_ok P" "supported b" "placed P co co' (loop_limits b)"
    "l < MAX_LOOPS" "pg_lim P l = (lo, hi)" "hi = - 1 \<longrightarrow> plain_start b"
  obtains ca cb where "emit_node_c b ca = Compiled cb" "placed P ca cb (loop_limits b)" "here ca = here co + 14"
    "co_loops ca = co_loops co" "co_loops cb = co_loops co'" "here co' = here cb + 6" "loop_code P l (here co) (here cb) lo hi"
proof (rule emit_loop_code [OF assms(1) emit_grows(1)])
  fix ca cb
  assume e: "emit_node_c b ca = Compiled cb" "extends ca cb"
    and h: "here ca = here co + 14" "here co' = here cb + 6"
    and s: "co_loops ca = co_loops co" "co_loops co' = co_loops cb" "co_ci ca = co_ci co"
      "co_classes ca = co_classes co" "co_classes co' = co_classes cb"
    and n: "new_code co co' = (op_byte OC_REPEAT_INIT # of_nat l # u32_bytes lo @ u32_bytes hi @ u32_bytes (of_nat (here cb + 6))) @
       new_code ca cb @ (op_byte OC_REPEAT_STEP # of_nat l # u32_bytes (of_nat (here co + 14)))"
  note p = assms(4) [unfolded placed_def n]
  have le: "here ca \<le> here cb" using e(2) by (rule extends_here)
  have "code_at (pg_bc P) (here co) (op_byte OC_REPEAT_INIT # of_nat l # u32_bytes lo @ u32_bytes hi @ u32_bytes (of_nat (here cb + 6))) \<and>
      code_at (pg_bc P) (here ca) (new_code ca cb) \<and>
      code_at (pg_bc P) (here cb) (op_byte OC_REPEAT_STEP # of_nat l # u32_bytes (of_nat (here co + 14)))"
    using p h le by (simp only: code_at_append) (simp add: ac_simps Suc_shift)
  then have code: "code_at (pg_bc P) (here co) (op_byte OC_REPEAT_INIT # of_nat l # u32_bytes lo @ u32_bytes hi @ u32_bytes (of_nat (here cb + 6)))"
    "code_at (pg_bc P) (here ca) (new_code ca cb)"
    "code_at (pg_bc P) (here cb) (op_byte OC_REPEAT_STEP # of_nat l # u32_bytes (of_nat (here co + 14)))" by blast+
  have pl: "placed P ca cb (loop_limits b)"
    using p e s code(2) classes_in_cong [OF s(5)] by (simp add: placed_def)
  have "pg_bc P ! (here co + 14) \<noteq> op_byte OC_SPAN" if "hi = UNBOUNDED"
  proof -
    have "starts_plainly (new_code ca cb)" using emit_start [OF _ assms(3) _ e(1)] assms(7) that p s by (simp add: UNBOUNDED_def)
    then obtain oc bs where "new_code ca cb = op_byte oc # bs" "oc \<noteq> OC_SPAN" by (auto simp: starts_plainly_def)
    then show ?thesis using code(2) h(1) decode_op_byte by (metis code_at_Cons option.inject)
  qed
  then have "loop_code P l (here co) (here cb) lo hi"
    using code(1,3) assms(2,5,6) le h(1) by (simp add: loop_code_def prog_ok_def)
  then show thesis using that e pl h s by simp
qed

lemma arbno_runs:
  assumes "emit_loop (emit_node_c b) l 0 (- 1) co = Compiled co'" "prog_ok P" "supported b" "placed P co co' (loop_limits b)"
    "l < MAX_LOOPS" "pg_lim P l = (0, - 1)" "plain_start b" "l < co_loops co" "forward (pg_cps P) f"
    "\<And>ca cb. emit_node_c b ca = Compiled cb \<Longrightarrow> placed P ca cb (loop_limits b) \<Longrightarrow> runs P {co_loops ca..<co_loops cb} (here ca) (here cb) c f"
  shows "runs P (insert l {co_loops co..<co_loops co'}) (here co) (here co')
    (Suc (Suc (length (pg_cps P))) * Suc c) (star (Suc (length (pg_cps P))) f)"
proof (rule emit_loop_placed [OF assms(1-6)])
  fix ca cb
  assume a: "emit_node_c b ca = Compiled cb" "placed P ca cb (loop_limits b)" "here ca = here co + 14"
    "co_loops ca = co_loops co" "co_loops cb = co_loops co'" "here co' = here cb + 6" "loop_code P l (here co) (here cb) 0 (- 1)"
  show ?thesis
    using runs_star [OF a(7) assms(10) [OF a(1,2), unfolded a(3)] assms(9)] assms(2,8) a by (simp add: prog_ok_def)
qed (use assms(7) in simp)

lemma counted_runs:
  assumes "emit_loop (emit_node_c b) l (of_int lo) (of_int hi) co = Compiled co'" "prog_ok P" "supported b" "placed P co co' (loop_limits b)"
    "l < MAX_LOOPS" "pg_lim P l = (of_int lo, of_int hi)" "small_int lo" "small_int hi" "lo \<le> hi" "1 \<le> hi"
    "l < co_loops co" "forward (pg_cps P) f"
    "\<And>ca cb. emit_node_c b ca = Compiled cb \<Longrightarrow> placed P ca cb (loop_limits b) \<Longrightarrow> runs P {co_loops ca..<co_loops cb} (here ca) (here cb) c f"
  shows "runs P (insert l {co_loops co..<co_loops co'}) (here co) (here co') (nat hi * Suc c) (repeated (nat lo) (nat hi) f)"
proof (rule emit_loop_placed [OF assms(1-6)])
  note n = small_int_u32 [OF assms(7)] small_int_u32 [OF assms(8)]
  show "(of_int hi :: u32) = - 1 \<longrightarrow> plain_start b" using n by simp
  fix ca cb
  assume a: "emit_node_c b ca = Compiled cb" "placed P ca cb (loop_limits b)" "here ca = here co + 14"
    "co_loops ca = co_loops co" "co_loops cb = co_loops co'" "here co' = here cb + 6"
    "loop_code P l (here co) (here cb) (of_int lo) (of_int hi)"
  have "nat hi \<noteq> 0" using assms(10) by simp
  then have "(of_int hi :: u32) \<noteq> 0" using n(3) by (metis unat_0)
  then show ?thesis
    using runs_counted [OF a(7) assms(13) [OF a(1,2), unfolded a(3)] assms(12)] n assms(9,11) a by (simp add: UNBOUNDED_def)
qed

subsection \<open>Single instructions\<close>

lemma int_runs:
  assumes "emit_int oc n co = co'" "placed P co co' ls" "small_int n"
    "\<And>N R d m F k. code_at (pg_bc P) (here co) (op_byte oc # u32_bytes k) \<Longrightarrow> nat n = unat k \<Longrightarrow>
      \<forall>x \<in> set (f m). yields P N R d (here co + 5) x (F x) \<Longrightarrow> yields P N R d (here co) m (concat (map F (f m)))"
  shows "runs P M (here co) (here co') 0 f"
proof (rule runs_single)
  have "new_code co co' = op_byte oc # u32_bytes (of_int n)" unfolding assms(1) [symmetric] by (rule new_codeI) (simp add: emit_int_def)
  then have c: "code_at (pg_bc P) (here co) (op_byte oc # u32_bytes (of_int n))" using assms(2) unfolding placed_def by metis
  have h: "here co' = here co + 5" unfolding assms(1) [symmetric] by (simp add: emit_int_def)
  show "\<forall>x \<in> set (f m). yields P N R d (here co') x (F x) \<Longrightarrow> yields P N R d (here co) m (concat (map F (f m)))" for N R d m F
    unfolding h by (rule assms(4) [OF c small_int_u32(1) [OF assms(3), symmetric]])
qed

lemma set_runs:
  assumes "emit_set oc s co = Compiled co'" "placed P co co' ls" "is_text s"
    "\<And>N R d m F k. code_at (pg_bc P) (here co) (op_byte oc # u16_bytes k) \<Longrightarrow> has_class (pg_bc P) k (in_text s) \<Longrightarrow>
      ms_at m \<le> length (pg_cps P) \<Longrightarrow>
      \<forall>x \<in> set (f m). yields P N R d (here co + 3) x (F x) \<Longrightarrow> yields P N R d (here co) m (concat (map F (f m)))"
  shows "runs P M (here co) (here co') 0 f"
proof (rule runs_single)
  have p: "\<not> co_ci co" "registry_ok (co_classes co)" "classes_in P co'" "code_at (pg_bc P) (here co) (new_code co co')"
    using assms(2) by (simp_all add: placed_def)
  obtain k where k: "new_code co co' = op_byte oc # u16_bytes k" "here co' = here co + 3" "has_class (pg_bc P) k (in_text s)"
    using emit_set_code [OF assms(1) p(1) assms(3) p(2)] p(3) by metis
  show "ms_at m \<le> length (pg_cps P) \<Longrightarrow> \<forall>x \<in> set (f m). yields P N R d (here co') x (F x) \<Longrightarrow>
      yields P N R d (here co) m (concat (map F (f m)))" for N R d m F
    unfolding k(2) by (rule assms(4) [OF p(4) [unfolded k(1)] k(3)])
qed

lemma lit_runs:
  assumes "placed P co (emit_lit_bytes s co) ls" "prog_ok P" "is_text s"
  shows "runs P M (here co) (here (emit_lit_bytes s co)) 0 (matches (pg_cps P) (AST_LITERAL s))"
proof (rule runs_single)
  have "new_code co (emit_lit_bytes s co) = op_byte OC_LIT # u32_bytes (of_nat (here co + 9)) @ u32_bytes (of_nat (length s)) @ s"
    by (rule new_codeI) (simp add: emit_lit_bytes_def Let_def add.commute)
  then have c: "code_at (pg_bc P) (here co) (op_byte OC_LIT # u32_bytes (of_nat (here co + 9)) @ u32_bytes (of_nat (length s)) @ s)"
    using assms(1) by (simp add: placed_def)
  have h: "here (emit_lit_bytes s co) = here co + 9 + length s" by (simp add: emit_lit_bytes_def Let_def)
  show "\<forall>x \<in> set (matches (pg_cps P) (AST_LITERAL s) m). yields P N R d (here (emit_lit_bytes s co)) x (F x) \<Longrightarrow>
      yields P N R d (here co) m (concat (map F (matches (pg_cps P) (AST_LITERAL s) m)))" for N R d m F
    using yields_lit [OF c _ assms(3)] assms(2) unfolding h matches.simps Let_def prog_ok_def by blast
qed

lemma any_runs:
  assumes "emit_any_c t co = Compiled co'" "placed P co co' ls" "supported (AST_ANY t)"
  shows "runs P M (here co) (here co') 0 (matches (pg_cps P) (AST_ANY t))"
proof (cases "t = None \<or> t = Some []")
  case True
  have "cps_of [] = []" using cps_of_utf8 [of "[]"] by (simp add: valid_cps_def)
  then have "\<not> in_text [] c" for c by (simp add: in_text_def class_items.simps)
  then have "matches (pg_cps P) (AST_ANY t) = (\<lambda>m. [])" using True by (auto simp: fun_eq_iff only_if_def)
  moreover have "co' = put16 0 (put_op OC_ANY co)" using assms(1) True by (auto simp: emit_any_c_def)
  then have "new_code co co' = op_byte OC_ANY # u16_bytes 0" by (intro new_codeI) simp
  then have "code_at (pg_bc P) (here co) (op_byte OC_ANY # u16_bytes 0)" using assms(2) by (simp add: placed_def)
  ultimately show ?thesis using yields_any_none by (intro runs_single) simp
next
  case False
  then obtain s where s: "t = Some s" "emit_set OC_ANY s co = Compiled co'" "is_text s"
    using assms(1,3) by (cases t) (auto simp: emit_any_c_def)
  show ?thesis
    by (rule set_runs [OF s(2) assms(2) s(3)]) (use s(1) yields_any in simp)
qed

lemma placed_code: "placed P co co' ls \<Longrightarrow> code_of co' = code_of co @ b \<Longrightarrow> code_at (pg_bc P) (here co) b"
  using new_codeI [of co' co b] by (auto simp: placed_def)

lemma class_runs:
  "emit_set OC_SPAN s co = Compiled co' \<Longrightarrow> placed P co co' ls \<Longrightarrow> is_text s \<Longrightarrow> runs P M (here co) (here co') 0 (matches (pg_cps P) (AST_SPAN s))"
  "emit_set OC_BREAK s co = Compiled co' \<Longrightarrow> placed P co co' ls \<Longrightarrow> is_text s \<Longrightarrow> runs P M (here co) (here co') 0 (matches (pg_cps P) (AST_BREAK s))"
  "emit_set OC_BREAKX s co = Compiled co' \<Longrightarrow> placed P co co' ls \<Longrightarrow> is_text s \<Longrightarrow> runs P M (here co) (here co') 0 (matches (pg_cps P) (AST_BREAKX s))"
proof -
  show "emit_set OC_SPAN s co = Compiled co' \<Longrightarrow> placed P co co' ls \<Longrightarrow> is_text s \<Longrightarrow> runs P M (here co) (here co') 0 (matches (pg_cps P) (AST_SPAN s))"
    by (erule (2) set_runs) (unfold matches.simps Let_def, erule (2) yields_span)
  show "emit_set OC_BREAK s co = Compiled co' \<Longrightarrow> placed P co co' ls \<Longrightarrow> is_text s \<Longrightarrow> runs P M (here co) (here co') 0 (matches (pg_cps P) (AST_BREAK s))"
    by (erule (2) set_runs) (unfold matches.simps, simp only: list.map concat.simps append_Nil2, erule (1) yields_break, simp)
  show "emit_set OC_BREAKX s co = Compiled co' \<Longrightarrow> placed P co co' ls \<Longrightarrow> is_text s \<Longrightarrow> runs P M (here co) (here co') 0 (matches (pg_cps P) (AST_BREAKX s))"
    by (erule (2) set_runs) (unfold matches.simps, erule (2) yields_breakx, simp)
qed

lemma number_runs:
  assumes "placed P co co' ls" "small_int n"
  shows "emit_int OC_LEN n co = co' \<Longrightarrow> runs P M (here co) (here co') 0 (matches (pg_cps P) (AST_LEN n))"
    "emit_int OC_RPOS n co = co' \<Longrightarrow> runs P M (here co) (here co') 0 (matches (pg_cps P) (AST_RPOS n))"
    "emit_int OC_RTAB n co = co' \<Longrightarrow> runs P M (here co) (here co') 0 (matches (pg_cps P) (AST_RTAB n))"
    "emit_int OC_POS n co = co' \<Longrightarrow> runs P M (here co) (here co') 0 (matches (pg_cps P) (AST_POS n))"
    "emit_int OC_TAB n co = co' \<Longrightarrow> runs P M (here co) (here co') 0 (matches (pg_cps P) (AST_TAB n))"
  subgoal by (erule int_runs [OF _ assms]) (unfold matches.simps, simp only:, erule (1) yields_len)
  subgoal by (erule int_runs [OF _ assms]) (unfold matches.simps, simp only:, erule (1) yields_rpos)
  subgoal by (erule int_runs [OF _ assms]) (unfold matches.simps, simp only:, erule (1) yields_rtab)
  subgoal by (erule int_runs [OF _ assms]) (unfold matches.simps, simp only:, erule (1) yields_pos)
  subgoal by (erule int_runs [OF _ assms]) (unfold matches.simps, simp only:, erule (1) yields_tab)
  done

lemma op_runs:
  assumes "placed P co co' ls"
  shows "put_op OC_REM co = co' \<Longrightarrow> runs P M (here co) (here co') 0 (matches (pg_cps P) AST_REM)"
    "put_op OC_FAIL co = co' \<Longrightarrow> runs P M (here co) (here co') 0 (matches (pg_cps P) AST_FAIL)"
proof -
  have c: "code_at (pg_bc P) (here co) [op_byte oc]" if "put_op oc co = co'" for oc
    by (rule placed_code [OF assms]) (use that in auto)
  have h: "here co' = Suc (here co)" if "put_op oc co = co'" for oc using that by auto
  show "put_op OC_REM co = co' \<Longrightarrow> runs P M (here co) (here co') 0 (matches (pg_cps P) AST_REM)"
    by (rule runs_single) (use yields_rem [OF c] h in simp)
  show "put_op OC_FAIL co = co' \<Longrightarrow> runs P M (here co) (here co') 0 (matches (pg_cps P) AST_FAIL)"
    by (rule runs_single) (use yields_FAIL [OF c] in simp)
qed

lemma anchor_runs:
  assumes "placed P co (emit_anchor_c t co) ls"
  shows "runs P M (here co) (here (emit_anchor_c t co)) 0 (matches (pg_cps P) (AST_ANCHOR t))"
proof (rule runs_single)
  have "new_code co (emit_anchor_c t co) = [op_byte OC_ANCHOR, case t of ANCHOR_START \<Rightarrow> 0 | ANCHOR_END \<Rightarrow> 1]"
    by (rule new_codeI) (simp add: emit_anchor_c_def)
  then have c: "code_at (pg_bc P) (here co) [op_byte OC_ANCHOR, case t of ANCHOR_START \<Rightarrow> 0 | ANCHOR_END \<Rightarrow> 1]"
    using assms unfolding placed_def by metis
  have h: "here (emit_anchor_c t co) = here co + 2" by (simp add: emit_anchor_c_def)
  show "\<forall>x \<in> set (matches (pg_cps P) (AST_ANCHOR t) m). yields P N R d (here (emit_anchor_c t co)) x (F x) \<Longrightarrow>
      yields P N R d (here co) m (concat (map F (matches (pg_cps P) (AST_ANCHOR t) m)))" for N R d m F
    using yields_anchor [OF c] unfolding h matches.simps by blast
qed

lemma register_u8: "register r \<Longrightarrow> unat (of_int r :: u8) = nat r" "register r \<Longrightarrow> unat (of_int r :: u16) = nat r" "register r \<Longrightarrow> nat r < 64"
proof -
  assume r: "register r"
  then have "of_int r = (of_nat (nat r) :: u8)" "of_int r = (of_nat (nat r) :: u16)" "nat r < 64" by (auto simp: register_def)
  then show "unat (of_int r :: u8) = nat r" "unat (of_int r :: u16) = nat r" "nat r < 64" by (simp_all add: unat_of_nat)
qed

lemma assign_runs:
  assumes "placed P co (emit_assign_c x r co) ls" "register x" "register r"
  shows "runs P M (here co) (here (emit_assign_c x r co)) 1 (matches (pg_cps P) (AST_ASSIGN x r))"
proof -
  have c: "code_at (pg_bc P) (here co) (op_byte OC_ASSIGN # u16_bytes (of_int x) @ [of_int r])"
    by (rule placed_code [OF assms(1)]) (simp add: emit_assign_c_def)
  have h: "here (emit_assign_c x r co) = here co + 4" by (simp add: emit_assign_c_def)
  note n = register_u8(2) [OF assms(2)] register_u8(1) [OF assms(3)] register_u8(3) [OF assms(2)] register_u8(3) [OF assms(3)]
  have "runs P M (here co) (here co + 4) 1 (\<lambda>m. [set_var (nat x) (nat r) m])"
    by (rule runs_last) (rule yields_assign [OF c, unfolded n], use n in \<open>simp_all add: register_limits\<close>)
  moreover have "matches (pg_cps P) (AST_ASSIGN x r) = (\<lambda>m. [set_var (nat x) (nat r) m])" by (simp add: fun_eq_iff)
  ultimately show ?thesis unfolding h by simp
qed

lemma cap_runs:
  assumes "emit_node_c (AST_CAP r a) co = Compiled co'" "placed P co co' (loop_limits a)" "register r"
    "\<And>cb. emit_node_c a (put_cap OC_CAP_START r co) = Compiled cb \<Longrightarrow> placed P (put_cap OC_CAP_START r co) cb (loop_limits a) \<Longrightarrow>
       runs P {co_loops (put_cap OC_CAP_START r co)..<co_loops cb} (here (put_cap OC_CAP_START r co)) (here cb) c f"
    "forward (pg_cps P) f"
  shows "runs P {co_loops co..<co_loops co'} (here co) (here co') (c + 3) (\<lambda>m. map (close_cap (nat r)) (f (open_cap (nat r) m)))"
proof -
  let ?ca = "put_cap OC_CAP_START r co"
  obtain cb where cb: "emit_node_c a ?ca = Compiled cb" "co' = put_cap OC_CAP_END r cb" using assms(1) by (auto simp: cbind_Compiled)
  have e: "extends ?ca cb" using emit_extends(1) [OF cb(1)] .
  have co': "code_of co' = code_of co @ [op_byte OC_CAP_START, of_int r] @ new_code ?ca cb @ [op_byte OC_CAP_END, of_int r]"
    using extends_code [OF e] cb(2) by (simp add: put_cap_def)
  have le: "here ?ca = here co + 2" "here ?ca \<le> here cb" using extends_here [OF e] by (simp_all add: put_cap_def)
  then have pos: "here co + 2 + (here cb - here ?ca) = here cb" by simp
  have code: "code_at (pg_bc P) (here co) [op_byte OC_CAP_START, of_int r]" "code_at (pg_bc P) (here co + 2) (new_code ?ca cb)"
    "code_at (pg_bc P) (here cb) [op_byte OC_CAP_END, of_int r]"
    using placed_code [OF assms(2) co'] pos by (simp_all only: code_at_append length_new_code list.size) simp_all
  have "placed P ?ca cb (loop_limits a)"
    using assms(2) e code(2) classes_in_cong [of cb co'] cb(2) by (simp add: placed_def put_cap_def)
  note body = assms(4) [OF cb(1) this]
  note n = register_u8(1,3) [OF assms(3)]
  have "runs P {} (here co) (here ?ca) 1 (\<lambda>m. [open_cap (nat r) m])"
    by (rule runs_last) (rule yields_cap_start [OF code(1), unfolded n], use n in \<open>simp_all add: register_limits put_cap_def\<close>)
  moreover have "forward (pg_cps P) (\<lambda>m. [open_cap (nat r) m])" by (simp add: forward_def)
  ultimately have "runs P ({} \<union> {co_loops ?ca..<co_loops cb}) (here co) (here cb) (1 + c) (\<lambda>m. f (open_cap (nat r) m))"
    using runs_then [OF _ body, of "{}" "here co" 1 "\<lambda>m. [open_cap (nat r) m]"] by simp
  moreover have "runs P {} (here cb) (here co') 2 (\<lambda>m. [close_cap (nat r) m])"
    by (rule runs_last) (rule yields_cap_end [OF code(3), unfolded n], use n cb(2) in \<open>simp_all add: register_limits put_cap_def\<close>)
  moreover have "forward (pg_cps P) (\<lambda>m. f (open_cap (nat r) m))" using forwardD [OF assms(5), of "open_cap (nat r) _"] by (simp add: forward_def)
  ultimately have r: "runs P ({} \<union> {co_loops ?ca..<co_loops cb} \<union> {}) (here co) (here co') (1 + c + 2)
      (\<lambda>m. concat (map (\<lambda>m. [close_cap (nat r) m]) (f (open_cap (nat r) m))))"
    by (rule runs_then)
  have "concat (map (\<lambda>m. [close_cap (nat r) m]) xs) = map (close_cap (nat r)) xs" for xs by (induction xs) simp_all
  then have "runs P ({} \<union> {co_loops ?ca..<co_loops cb} \<union> {}) (here co) (here co') (1 + c + 2)
      (\<lambda>m. map (close_cap (nat r)) (f (open_cap (nat r) m)))" using r by simp
  then show ?thesis by (rule runs_mono) (use cb(2) in \<open>simp_all add: put_cap_def\<close>)
qed

subsection \<open>Whole trees\<close>

lemma placed_fields: "placed P co co' ls \<Longrightarrow> \<not> co_ci co \<and> co_loops co' = co_loops co + length ls"
  by (simp add: placed_def)

lemma placed_skip:
  assumes "placed P co co' (xs @ ls)" "n = co_loops co + length xs"
  shows "placed P (co\<lparr>co_loops := n\<rparr>) co' ls" "lims_at P (co_loops co) xs"
proof -
  have "new_code (co\<lparr>co_loops := n\<rparr>) co' = new_code co co'" by (rule new_code_cong) simp
  then show "placed P (co\<lparr>co_loops := n\<rparr>) co' ls" "lims_at P (co_loops co) xs"
    using assms by (simp_all add: placed_def extends_def add.assoc)
qed

lemma emit_runs:
  "emit_node_c a co = Compiled co' \<Longrightarrow> supported a \<Longrightarrow> prog_ok P \<Longrightarrow> placed P co co' (loop_limits a) \<Longrightarrow>
     runs P {co_loops co..<co_loops co'} (here co) (here co') (trail_cost (length (pg_cps P)) a) (matches (pg_cps P) a)"
  "emit_parts as co = Compiled co' \<Longrightarrow> \<forall>a \<in> set as. supported a \<Longrightarrow> prog_ok P \<Longrightarrow> placed P co co' (loops_limits as) \<Longrightarrow>
     runs P {co_loops co..<co_loops co'} (here co) (here co') (trail_costs (length (pg_cps P)) as) (matches_parts (pg_cps P) as)"
proof (induction a co and as co arbitrary: co' and co' rule: emit_node_c_emit_parts.induct)
  case (1 s co)
  then have "co' = emit_lit_bytes s co" using placed_fields [OF 1(4)] by simp
  then show ?case using 1 lit_runs [of P co s] by (simp del: matches.simps)
next
  case (2 parts co)
  have "matches (pg_cps P) (AST_CONCAT parts) = matches_parts (pg_cps P) parts" by (simp add: fun_eq_iff)
  then show ?case using 2 by simp
next
  case (3 l r co)
  have "runs P {co_loops co..<co_loops co'} (here co) (here co')
      (max (trail_cost (length (pg_cps P)) l) (trail_cost (length (pg_cps P)) r)) (\<lambda>m. matches (pg_cps P) l m @ matches (pg_cps P) r m)"
    by (rule emit_alt_runs [where l = l and r = r]) (use 3 in simp_all)
  moreover have "matches (pg_cps P) (AST_ALT l r) = (\<lambda>m. matches (pg_cps P) l m @ matches (pg_cps P) r m)" by (simp add: fun_eq_iff)
  ultimately show ?case by simp
next
  case (4 a lo hi co)
  note u = unbounded_iff [OF 4(4)] and f = placed_fields [OF 4(6)]
  let ?n = "length (pg_cps P)"
  have m: "co_loops co < MAX_LOOPS" using 4(3) by (simp split: if_splits)
  show ?case
  proof (cases "lo = 0 \<and> hi = - 1")
    case True
    let ?b = "loop_body (unwrap_repeat a)" and ?c = "co\<lparr>co_loops := co_loops co + 1\<rparr>"
    have "emit_arbno_loop (emit_node_c ?b) ?b ?c = Compiled co'"
      using 4(3) u True m by (simp add: Let_def loop_body_def)
    note l = emit_arbno_loop_Compiled [OF this]
    have p: "placed P co co' ([(0, - 1), (0, - 1)] @ loop_limits ?b)" using 4(6) True by simp
    have sup: "supported ?b" "plain_start ?b" using 4(4) supported_unwrap True by simp_all
    have "runs P (insert (co_loops ?c) {co_loops (?c\<lparr>co_loops := co_loops ?c + 1\<rparr>)..<co_loops co'})
        (here (?c\<lparr>co_loops := co_loops ?c + 1\<rparr>)) (here co')
        (Suc (Suc ?n) * Suc (trail_cost ?n ?b)) (star (Suc ?n) (matches (pg_cps P) ?b))"
    proof (rule arbno_runs [OF l(2) 4(5) sup(1) _ l(1) _ sup(2)])
      show "placed P (?c\<lparr>co_loops := co_loops ?c + 1\<rparr>) co' (loop_limits ?b)" using placed_skip(1) [OF p, of "co_loops co + 2"] by simp
      show "pg_lim P (co_loops ?c) = (0, - 1)" using placed_skip(2) [OF p refl] by simp
      show "forward (pg_cps P) (matches (pg_cps P) ?b)" by (rule matches_forward)
      show "runs P {co_loops ca..<co_loops cb} (here ca) (here cb) (trail_cost ?n ?b) (matches (pg_cps P) ?b)"
        if "emit_node_c ?b ca = Compiled cb" "placed P ca cb (loop_limits ?b)" for ca cb
        using 4(1) [of ?b ca cb] m u True that 4(5) sup(1) by (simp add: loop_body_def)
    qed simp
    then have "runs P {co_loops co..<co_loops co'} (here co) (here co') (Suc (Suc ?n) * Suc (trail_cost ?n ?b)) (star (Suc ?n) (matches (pg_cps P) ?b))"
      unfolding here_simps by (rule runs_mono) (use f True in auto)
    moreover have "matches (pg_cps P) (AST_REPETITION a lo hi) = star (Suc ?n) (matches (pg_cps P) ?b)" using True by (simp add: fun_eq_iff)
    moreover have "trail_cost ?n (AST_REPETITION a lo hi) = Suc (Suc ?n) * Suc (trail_cost ?n ?b)" using True by simp
    ultimately show ?thesis by metis
  next
    case False
    let ?c = "co\<lparr>co_loops := co_loops co + 1\<rparr>"
    have l: "emit_loop (emit_node_c a) (co_loops co) (of_int lo) (of_int hi) ?c = Compiled co'" using 4(3) u False m by auto
    have p: "placed P co co' ([(of_int lo, of_int hi)] @ loop_limits a)" using 4(6) False by auto
    have sup: "supported a" "small_int lo" "small_int hi" "lo \<le> hi" "1 \<le> hi" using 4(4) False by (auto split: if_splits)
    have "runs P (insert (co_loops co) {co_loops ?c..<co_loops co'}) (here ?c) (here co')
        (nat hi * Suc (trail_cost ?n a)) (repeated (nat lo) (nat hi) (matches (pg_cps P) a))"
    proof (rule counted_runs [OF l 4(5) sup(1) _ m _ sup(2-5)])
      show "placed P ?c co' (loop_limits a)" using placed_skip(1) [OF p, of "co_loops co + 1"] by simp
      show "pg_lim P (co_loops co) = (of_int lo, of_int hi)" using placed_skip(2) [OF p refl] by simp
      show "forward (pg_cps P) (matches (pg_cps P) a)" by (rule matches_forward)
      show "runs P {co_loops ca..<co_loops cb} (here ca) (here cb) (trail_cost ?n a) (matches (pg_cps P) a)"
        if "emit_node_c a ca = Compiled cb" "placed P ca cb (loop_limits a)" for ca cb
        using 4(2) [of ca cb] m u False that 4(5) sup(1) by auto
    qed simp
    then have "runs P {co_loops co..<co_loops co'} (here co) (here co') (nat hi * Suc (trail_cost ?n a)) (repeated (nat lo) (nat hi) (matches (pg_cps P) a))"
      unfolding here_simps by (rule runs_mono) (use f False in auto)
    moreover have "matches (pg_cps P) (AST_REPETITION a lo hi) = repeated (nat lo) (nat hi) (matches (pg_cps P) a)"
      using False by (auto simp: fun_eq_iff)
    moreover have "trail_cost ?n (AST_REPETITION a lo hi) = nat hi * Suc (trail_cost ?n a)" using False by auto
    ultimately show ?thesis by metis
  qed
next
  case (5 s co)
  then show ?case using class_runs(1) by (simp del: matches.simps)
next
  case (6 s co)
  then show ?case using class_runs(2) by (simp del: matches.simps)
next
  case (7 t co)
  then show ?case using any_runs [of t co co' P] by (simp del: matches.simps)
next
  case (9 a co)
  let ?b = "loop_body a" and ?n = "length (pg_cps P)" and ?c = "co\<lparr>co_loops := co_loops co + 1\<rparr>"
  have "emit_arbno_loop (emit_node_c ?b) ?b co = Compiled co'" using 9(2) by (simp add: Let_def loop_body_def)
  note l = emit_arbno_loop_Compiled [OF this]
  have p: "placed P co co' ([(0, - 1)] @ loop_limits ?b)" using 9(5) by simp
  have sup: "supported ?b" "plain_start ?b" using 9(3) supported_unwrap by simp_all
  have "runs P (insert (co_loops co) {co_loops ?c..<co_loops co'}) (here ?c) (here co')
      (Suc (Suc ?n) * Suc (trail_cost ?n ?b)) (star (Suc ?n) (matches (pg_cps P) ?b))"
  proof (rule arbno_runs [OF l(2) 9(4) sup(1) _ l(1) _ sup(2)])
    show "placed P ?c co' (loop_limits ?b)" using placed_skip(1) [OF p, of "co_loops co + 1"] by simp
    show "pg_lim P (co_loops co) = (0, - 1)" using placed_skip(2) [OF p refl] by simp
    show "forward (pg_cps P) (matches (pg_cps P) ?b)" by (rule matches_forward)
    show "runs P {co_loops ca..<co_loops cb} (here ca) (here cb) (trail_cost ?n ?b) (matches (pg_cps P) ?b)"
      if "emit_node_c ?b ca = Compiled cb" "placed P ca cb (loop_limits ?b)" for ca cb
      using 9(1) [of ?b ca cb] that 9(4) sup(1) by (simp add: loop_body_def)
  qed simp
  then have "runs P {co_loops co..<co_loops co'} (here co) (here co') (Suc (Suc ?n) * Suc (trail_cost ?n ?b)) (star (Suc ?n) (matches (pg_cps P) ?b))"
    unfolding here_simps by (rule runs_mono) (use placed_fields [OF 9(5)] in auto)
  moreover have "matches (pg_cps P) (AST_ARBNO a) = star (Suc ?n) (matches (pg_cps P) ?b)" by (simp add: fun_eq_iff)
  moreover have "trail_cost ?n (AST_ARBNO a) = Suc (Suc ?n) * Suc (trail_cost ?n ?b)" by simp
  ultimately show ?case by metis
next
  case (10 reg a co)
  have "matches (pg_cps P) (AST_CAP reg a) = (\<lambda>m. map (close_cap (nat reg)) (matches (pg_cps P) a (open_cap (nat reg) m)))" by (simp add: fun_eq_iff)
  moreover have "runs P {co_loops co..<co_loops co'} (here co) (here co') (trail_cost (length (pg_cps P)) a + 3)
      (\<lambda>m. map (close_cap (nat reg)) (matches (pg_cps P) a (open_cap (nat reg) m)))"
    by (rule cap_runs [OF 10(2) _ _ _ matches_forward(1)]) (use 10 in simp_all)
  ultimately show ?case by (metis trail_cost.simps(5))
next
  case (11 var reg co)
  then show ?case using assign_runs [of P co var reg] by (auto simp del: matches.simps)
next
  case (12 n co)
  then show ?case using number_runs(1) by (simp del: matches.simps)
next
  case (14 a co)
  have "matches (pg_cps P) (AST_DYNAMIC_EVAL a) = matches (pg_cps P) a" by (simp add: fun_eq_iff)
  then show ?case using 14 by simp
next
  case (15 t co)
  then show ?case using anchor_runs [of P co t] by (auto simp del: matches.simps)
next
  case (17 s co)
  then show ?case using class_runs(3) by (simp del: matches.simps)
next
  case (20 co)
  then show ?case using op_runs(1) by (simp del: matches.simps)
next
  case (21 n co)
  then show ?case using number_runs(2) by (simp del: matches.simps)
next
  case (22 n co)
  then show ?case using number_runs(3) by (simp del: matches.simps)
next
  case (23 n co)
  then show ?case using number_runs(4) by (simp del: matches.simps)
next
  case (24 n co)
  then show ?case using number_runs(5) by (simp del: matches.simps)
next
  case (26 co)
  then show ?case using op_runs(2) by (simp del: matches.simps)
next
  case (33 co)
  have "matches_parts (pg_cps P) [] = (\<lambda>m. [m])" by (simp add: fun_eq_iff)
  moreover have "runs P {} (here co) (here co) 0 (\<lambda>m. [m])" by (rule runs_nothing)
  ultimately show ?case using 33 by simp
next
  case (34 a as co)
  let ?n = "length (pg_cps P)"
  obtain c where c: "emit_node_c a co = Compiled c" "emit_parts as c = Compiled co'" using 34(3) by (auto simp: cbind_Compiled)
  note e = emit_extends(1) [OF c(1)] emit_extends(2) [OF c(2)]
  have p: "registry_ok (co_classes co)" "\<not> co_ci co" "classes_in P co'" "lims_at P (co_loops co) (loop_limits a @ loops_limits as)"
    "co_loops co' = co_loops co + length (loop_limits a) + length (loops_limits as)"
    "code_at (pg_bc P) (here co) (new_code co c @ new_code c co')"
    using 34(6) new_code_trans [OF e] by (simp_all add: placed_def add.assoc)
  have k: "co_loops c = co_loops co + length (loop_limits a)" using emit_loops(1) [OF c(1)] 34(4) p(2) by simp
  have "code_at (pg_bc P) (here co) (new_code co c)" "code_at (pg_bc P) (here c) (new_code c co')"
    using p(6) extends_here [OF e(1)] by simp_all
  then have pl: "placed P co c (loop_limits a)" "placed P c co' (loops_limits as)"
    using p k e classes_in_mono [OF p(3) e(2)] emit_ci [OF c(1)] by (simp_all add: placed_def extends_def)
  have "runs P {co_loops co..<co_loops c} (here co) (here c) (trail_cost ?n a) (matches (pg_cps P) a)"
    using 34(1) [OF c(1)] 34(4,5) pl(1) by simp
  moreover have "runs P {co_loops c..<co_loops co'} (here c) (here co') (trail_costs ?n as) (matches_parts (pg_cps P) as)"
    using 34(2) [OF c(2)] 34(4,5) pl(2) by simp
  ultimately have "runs P ({co_loops co..<co_loops c} \<union> {co_loops c..<co_loops co'}) (here co) (here co')
      (trail_cost ?n a + trail_costs ?n as) (\<lambda>m. concat (map (matches_parts (pg_cps P) as) (matches (pg_cps P) a m)))"
    by (rule runs_then) (rule matches_forward)
  then have "runs P {co_loops co..<co_loops co'} (here co) (here co')
      (trail_cost ?n a + trail_costs ?n as) (\<lambda>m. concat (map (matches_parts (pg_cps P) as) (matches (pg_cps P) a m)))"
    by (rule runs_mono) (use p(5) k in auto)
  moreover have "matches_parts (pg_cps P) (a # as) = (\<lambda>m. concat (map (matches_parts (pg_cps P) as) (matches (pg_cps P) a m)))"
    by (simp add: fun_eq_iff)
  ultimately show ?case by simp
qed simp_all

end
