(* ===== verification/Compiled_Match.thy ===== *)
theory Compiled_Match
  imports Compiler_Correct
begin

text \<open>
  From segments to runs: the machine started on the bytecode of a compiled pattern ends with the
  first match that the specification gives.
\<close>

section \<open>Running the bytecode\<close>

lemma label_fields:
  "\<exists>x y. register_labels v t i n = v\<lparr>label_offsets := x, label_count := y\<rparr>"
proof (induction n arbitrary: v i)
  case 0
  have "v = v\<lparr>label_offsets := label_offsets v, label_count := label_count v\<rparr>" by simp
  then show ?case by (metis register_labels.simps(1))
next
  case (Suc n)
  obtain x y where "vm_register_label v (of_nat i) (be32 (vm_bc v) (t + i * 4)) = v\<lparr>label_offsets := x, label_count := y\<rparr>"
    unfolding vm_register_label_def Let_def by blast
  then show ?case using Suc [of "v\<lparr>label_offsets := x, label_count := y\<rparr>" "i + 1"] by fastforce
qed

lemma load_labels_fields: "\<exists>x y. load_labels v = v\<lparr>label_offsets := x, label_count := y\<rparr>"
proof -
  have "v = v\<lparr>label_offsets := label_offsets v, label_count := label_count v\<rparr>" by simp
  then have "\<exists>x y. v = v\<lparr>label_offsets := x, label_count := y\<rparr>" by blast
  then show ?thesis using label_fields [of v] unfolding load_labels_def Let_def by presburger
qed

lemma resumes_Nil: "resumes rs v = [] \<Longrightarrow> rs = []"
  by (induction rs v rule: resumes.induct) (simp_all add: Let_def)

text \<open>
  A machine that can be run on bytecode again: a fresh one, or one that a run has left. Its captures
  and variables are whatever the run left.
\<close>

definition ready :: "bytes \<Rightarrow> vm \<Rightarrow> bool" where
  "ready bc v \<longleftrightarrow> vm_bc v = bc \<and> vm_range_meta v = None \<and> registers_sized v \<and>
     length (loop_last_pos v) = MAX_LOOPS \<and> length (loop_min v) = MAX_LOOPS \<and> length (loop_max v) = MAX_LOOPS \<and>
     (\<forall>l < MAX_LOOPS. \<not> loop_span_greedy v ! l)"

lemma ready_zero: "ready bc (vm_zero bc s)"
  by (simp add: ready_def vm_zero_def registers_sized_def)

definition vm_prepared :: "vm \<Rightarrow> vm" where
  "vm_prepared v =
     (let v = vm_init_registers v
      in vm_start False (load_labels (if label_offsets v = None then vm_init_labels v else v)))"

lemma start_state:
  assumes "ready (pg_bc P) v" "vm_s v = utf8 (pg_cps P)" "regs_at (pg_cps P) m v" "ms_at m = 0"
    and "valid_cps (pg_cps P)" "d < 2 ^ 32"
  shows "at_state P UNIV R d 0 m (vm_prepared v)" "stack_of (vm_prepared v) = []" "\<not> abort_flag (vm_prepared v)"
proof -
  let ?u = "vm_init_registers v"
  let ?z = "if label_offsets ?u = None then vm_init_labels ?u else ?u"
  obtain x y where l: "load_labels ?z = ?z\<lparr>label_offsets := x, label_count := y\<rparr>" using load_labels_fields by blast
  let ?l = "?z\<lparr>label_offsets := x, label_count := y\<rparr>"
  have sized: "registers_sized ?l"
    using assms(1) by (simp add: ready_def registers_sized_def vm_init_labels_def vm_init_registers_def)
  have v: "vm_prepared v = vm_start False ?l" using l by (simp add: vm_prepared_def Let_def)
  note i = vm_start_inv [OF sized]
  show "stack_of (vm_prepared v) = []" using i(2) unfolding v resume_list_def by (rule resumes_Nil)
  show "at_state P UNIV R d 0 m (vm_prepared v)"
    using i(1) assms unfolding v at_state_def
    by (simp add: vm_start_def Let_def vm_trail_clear_def vm_init_labels_def vm_init_registers_def ready_def
        at_cp_def regs_at_def)
  show "\<not> abort_flag (vm_prepared v)"
    unfolding v by (simp add: vm_start_def Let_def vm_trail_clear_def vm_init_labels_def vm_init_registers_def)
qed

lemma vm_exec_prepared:
  "vm_exec False n v = (case vm_loop False n (vm_prepared v) of Done res w \<Rightarrow> Done res (vm_free_labels w) | r \<Rightarrow> r)"
  by (simp add: vm_exec_def vm_run_def vm_prepared_def Let_def)

lemma go_steps:
  assumes "go\<^sup>*\<^sup>* v u"
  shows "\<exists>k. \<forall>n. vm_loop legacy (k + n) v = vm_loop legacy n u"
  using assms
proof (induction rule: converse_rtranclp_induct)
  case base
  show ?case by (rule exI [of _ 0]) simp
next
  case (step v w)
  then obtain k where k: "\<And>n. vm_loop legacy (k + n) w = vm_loop legacy n u" by blast
  have "vm_loop legacy (Suc k + n) v = vm_loop legacy n u" for n
    using step(1) k by (simp add: go_def)
  then show ?case by blast
qed

lemma run_ends:
  assumes "go\<^sup>*\<^sup>* v u" "\<And>run. vm_step run u = Done res w"
  shows "\<exists>k. \<forall>n \<ge> k. vm_loop legacy n v = Done res w"
proof -
  obtain k where k: "\<And>n. vm_loop legacy (k + n) v = vm_loop legacy n u" using go_steps [OF assms(1)] by blast
  have "vm_loop legacy n v = Done res w" if "k + 1 \<le> n" for n
  proof -
    obtain j where "n = k + Suc j" using \<open>k + 1 \<le> n\<close> by (metis add_Suc_right add.assoc le_Suc_ex plus_1_eq_Suc add.commute)
    then show ?thesis using k [of "Suc j"] assms(2) by simp
  qed
  then show ?thesis by blast
qed

lemma backtrack_empty:
  assumes "compact_inv w" "stack_of w = []"
  shows "backtrack w = Done False (end_run w)"
proof -
  obtain a where a: "choices_arena w = Some a" "arena_wf a" using assms(1) by (auto simp: compact_inv_def)
  then have "ar_total_used a = 0" using arena_total_0 [OF a(2)] assms(2) by (simp add: stack_of_def)
  then show ?thesis using a(1) by (simp add: backtrack_def vm_pop_choice_def fail_ret_def)
qed

lemma ready_after:
  assumes "at_state P N R d ip m v" "kept P N v w"
  shows "ready (pg_bc P) (vm_free_labels (end_run w))" "abort_flag (vm_free_labels (end_run w)) = abort_flag v"
proof -
  have s: "static P v w" and c: "compact_inv w" using assms(2) by (simp_all add: kept_def)
  have "registers_sized (vm_free_labels (end_run w))"
    using c by (auto simp: registers_sized_def end_run_def vm_free_labels_def Let_def vm_trail_free_def compact_inv_def)
  then show "ready (pg_bc P) (vm_free_labels (end_run w))"
    using assms(1) s unfolding ready_def at_state_def static_def
    by (simp add: end_run_def vm_free_labels_def Let_def vm_trail_free_def)
  show "abort_flag (vm_free_labels (end_run w)) = abort_flag v"
    using s by (simp add: static_def end_run_def vm_free_labels_def Let_def vm_trail_free_def)
qed

text \<open>What a run of the machine amounts to, for the list of the final states.\<close>

definition run_result :: "bytes \<Rightarrow> u32 list \<Rightarrow> mstate list \<Rightarrow> outcome \<Rightarrow> bool" where
  "run_result bc cps L out =
     (case L of
        [] \<Rightarrow> \<exists>w. out = Done False w \<and> ready bc w \<and> \<not> abort_flag w
      | m # _ \<Rightarrow> \<exists>w. out = Done True w \<and> vm_pos w = off cps (ms_at m) \<and> regs_at cps m w)"

lemma search_ends:
  assumes "search P N (vm_prepared v) L" "stack_of (vm_prepared v) = []" "at_state P N R d ip m (vm_prepared v)"
    "\<not> abort_flag (vm_prepared v)"
  shows "\<exists>k out. run_result (pg_bc P) (pg_cps P) L out \<and> (\<forall>n \<ge> k. vm_exec False n v = out)"
proof (cases L)
  case Nil
  then obtain u w where u: "go\<^sup>*\<^sup>* (vm_prepared v) u" "\<And>run. vm_step run u = backtrack w" "kept P N (vm_prepared v) w"
    using assms(1) by (auto simp: search_def fails_def)
  have "compact_inv w" "stack_of w = []" using u(3) assms(2) by (simp_all add: kept_def)
  then have d: "vm_step run u = Done False (end_run w)" for run using u(2) backtrack_empty by simp
  have "\<exists>k. \<forall>n \<ge> k. vm_loop False n (vm_prepared v) = Done False (end_run w)" by (rule run_ends [OF u(1) d])
  then have "\<exists>k. \<forall>n \<ge> k. vm_exec False n v = Done False (vm_free_labels (end_run w))"
    by (fastforce simp: vm_exec_prepared)
  moreover have "run_result (pg_bc P) (pg_cps P) L (Done False (vm_free_labels (end_run w)))"
    using ready_after [OF assms(3) u(3)] assms(4) Nil by (auto simp: run_result_def)
  ultimately show ?thesis by blast
next
  case (Cons x ms)
  then obtain u w where u: "go\<^sup>*\<^sup>* (vm_prepared v) u" "\<And>run. vm_step run u = Done True w"
    "vm_pos w = off (pg_cps P) (ms_at x)" "regs_at (pg_cps P) x w"
    using assms(1) by (auto simp: search_def wins_def)
  have "vm_pos (vm_free_labels w) = off (pg_cps P) (ms_at x)" "regs_at (pg_cps P) x (vm_free_labels w)"
    using u(3,4) by (simp_all add: vm_free_labels_def regs_at_def)
  moreover have "\<exists>k. \<forall>n \<ge> k. vm_loop False n (vm_prepared v) = Done True w" by (rule run_ends [OF u(1,2)])
  ultimately have "run_result (pg_bc P) (pg_cps P) L (Done True (vm_free_labels w))" and
      "\<exists>k. \<forall>n \<ge> k. vm_exec False n v = Done True (vm_free_labels w)"
    using Cons by (simp add: run_result_def, fastforce simp: vm_exec_prepared)
  then show ?thesis by blast
qed

section \<open>The whole pattern\<close>

lemma finds_has_class:
  assumes "finds_class bc k e" "canonical (cc_ranges e)" "length (cc_ranges e) < 2 ^ 16"
  shows "has_class bc (of_nat k) (\<lambda>c. c \<in> ranges_set (cc_ranges e))"
proof -
  have "unat (of_nat (length (cc_ranges e)) :: u16) = length (cc_ranges e)" using assms(3) by (simp add: unat_of_nat)
  then show ?thesis using finds_in_ranges [OF assms(1)] assms(2) unfolding has_class_def by metis
qed

lemma compile_code_placed:
  assumes "supported a" "compile_code a False = Compiled co" "snobol_bc_fuse_split_any co = Compiled co"
    "compile_ast_to_bytecode_c a False = Compiled bc" "length bc < 2 ^ 19"
  obtains c where "emit_node_c a (compiler_start False) = Compiled c" "code_at bc (here c) [op_byte OC_ACCEPT]"
    "\<And>cps lim. \<forall>i < length (loop_limits a). lim i = loop_limits a ! i \<Longrightarrow>
       placed \<lparr>pg_bc = bc, pg_cps = cps, pg_lim = lim\<rparr> (compiler_start False) c (loop_limits a)"
proof -
  let ?s = "compiler_start False"
  obtain c where c: "emit_node_c a ?s = Compiled c" "co = put_op OC_ACCEPT c"
    using assms(2) by (auto simp: compile_code_def cbind_Compiled split: if_splits)
  have e: "extends ?s c" using emit_extends(1) [OF c(1)] .
  obtain ls where bc: "bc = laid_out (cb_data (co_cb co)) (co_classes co) ls"
    using compile_laid_out [OF assms(4)] assms(2,3) by (metis compiled.inject(1))
  have start: "code_of ?s = []" "here ?s = 0" "co_loops ?s = 0" "co_classes ?s = []" "\<not> co_ci ?s"
    by (simp_all add: compiler_start_def code_of_def here_def cb_pos_def)
  have code: "code_of co = new_code ?s c @ [op_byte OC_ACCEPT]" using extends_code [OF e] c(2) start by simp
  then have "code_at bc 0 (new_code ?s c @ [op_byte OC_ACCEPT])"
    unfolding bc laid_out_def code_of_def [symmetric] by (intro code_atI [where xs = "[]"]) auto
  then have at: "code_at bc 0 (new_code ?s c)" "code_at bc (here c) [op_byte OC_ACCEPT]" using start by simp_all
  have "has_class bc (of_nat k) (\<lambda>c. c \<in> ranges_set (cc_ranges (co_classes co ! (k - 1))))" if "1 \<le> k" "k \<le> length (co_classes co)" for k
    using finds_has_class [OF compiled_class_finds [OF assms(4,5,2) that]] .
  then have cls: "classes_in P c" if "pg_bc P = bc" for P using that c(2) by (simp add: classes_in_def)
  have "co_loops c = length (loop_limits a)" using emit_loops(1) [OF c(1) assms(1)] start by simp
  then have "placed \<lparr>pg_bc = bc, pg_cps = cps, pg_lim = lim\<rparr> ?s c (loop_limits a)"
    if "\<forall>i < length (loop_limits a). lim i = loop_limits a ! i" for cps lim
    using that at(1) cls e start by (simp add: placed_def lims_at_def registry_ok_def)
  then show thesis using that c(1) at(2) by blast
qed

text \<open>The bytecode of a pattern, compiled within the limits of the theorems.\<close>

definition compiles_to :: "ast \<Rightarrow> bytes \<Rightarrow> bool" where
  "compiles_to a bc \<longleftrightarrow>
     supported a \<and> compile_ast_to_bytecode_c a False = Compiled bc \<and> length bc < 2 ^ 19 \<and>
     (\<exists>co. compile_code a False = Compiled co \<and> snobol_bc_fuse_split_any co = Compiled co)"

text \<open>Runs of a machine that was used before: the registers of \<open>m\<close> are the ones it holds.\<close>

lemma compiled_run:
  assumes "compiles_to a bc" "valid_cps cps" "length cps + 1 < 2 ^ 32" "trail_cost (length cps) a < 2 ^ 32"
    and "ready bc v" "vm_s v = utf8 cps" "regs_at cps m v" "ms_at m = 0"
  shows "\<exists>k out. run_result bc cps (matches cps a m) out \<and> (\<forall>n \<ge> k. vm_exec False n v = out)"
proof -
  let ?lim = "\<lambda>l. if l < length (loop_limits a) then loop_limits a ! l else (0, 0)"
  let ?P = "\<lparr>pg_bc = bc, pg_cps = cps, pg_lim = ?lim\<rparr>" and ?s = "compiler_start False"
  obtain co where co: "supported a" "compile_code a False = Compiled co" "snobol_bc_fuse_split_any co = Compiled co"
    "compile_ast_to_bytecode_c a False = Compiled bc" "length bc < 2 ^ 19" using assms(1) unfolding compiles_to_def by blast
  obtain c where c: "emit_node_c a ?s = Compiled c" "code_at bc (here c) [op_byte OC_ACCEPT]" "placed ?P ?s c (loop_limits a)"
    by (rule compile_code_placed [OF co]) simp
  have "runs ?P {co_loops ?s..<co_loops c} (here ?s) (here c) (trail_cost (length cps) a) (matches cps a)"
    using emit_runs(1) [OF c(1) co(1) _ c(3)] co(5) assms(2,3) by (simp add: prog_ok_def)
  moreover have "here ?s = 0" by (simp add: compiler_start_def here_def cb_pos_def)
  ultimately have "yields ?P UNIV (\<lambda>_. (0, 0)) (0 + trail_cost (length cps) a) 0 m
      (concat (map (\<lambda>x. [x]) (matches cps a m)))"
    using yields_accept [of ?P] c(2) by (intro runsD [where ip' = "here c"]) (simp_all add: assms(8))
  moreover have "concat (map (\<lambda>x. [x]) xs) = xs" for xs :: "mstate list" by (induction xs) simp_all
  ultimately have y: "yields ?P UNIV (\<lambda>_. (0, 0)) (trail_cost (length cps) a) 0 m (matches cps a m)" by simp
  have h: "ready (pg_bc ?P) v" "vm_s v = utf8 (pg_cps ?P)" "regs_at (pg_cps ?P) m v" "ms_at m = 0" "valid_cps (pg_cps ?P)"
    "trail_cost (length cps) a < 2 ^ 32"
    using assms by simp_all
  note v = start_state(1) [OF h, of "\<lambda>_. (0, 0)"] start_state(2,3) [OF h]
  have "search ?P UNIV (vm_prepared v) (matches cps a m)" using y v(1) by (simp add: yields_def)
  from search_ends [OF this v(2,1,3)]
  show ?thesis by simp
qed

text \<open>
  C1: The compiler is correct. For every tree of the supported patterns (literals, concatenations,
  alternations, bounded and unbounded repetitions, ARBNO, SPAN, BREAK, BREAKX, ANY, captures,
  assignments, LEN, POS, RPOS, TAB, RTAB, anchors, REM, FAIL, in any nesting), every valid text and the
  bytecode that \<open>compile_ast_to_bytecode_c\<close> makes of it, when the fusion pass finds nothing to
  rewrite: given enough steps, the virtual machine in its default mode ends. It fails if the
  specification gives the pattern no match at the start of the text. Otherwise it succeeds with the
  first match in the order of the specification: its end is the position of the machine, and the
  captures and variables are the ones of that match. The bytecode must be below 512 KiB and the
  number of changes a search can have to undo below 2^32.
\<close>

theorem compiled_pattern_matches:
  assumes "supported a" "compile_code a False = Compiled co" "snobol_bc_fuse_split_any co = Compiled co"
    "compile_ast_to_bytecode_c a False = Compiled bc" "length bc < 2 ^ 19"
    "valid_cps cps" "length cps + 1 < 2 ^ 32" "trail_cost (length cps) a < 2 ^ 32"
  shows "\<exists>k. \<forall>n \<ge> k. case matches cps a ms_init of
      [] \<Rightarrow> \<exists>w. vm_exec False n (vm_zero bc (utf8 cps)) = Done False w
    | m # _ \<Rightarrow> \<exists>w. vm_exec False n (vm_zero bc (utf8 cps)) = Done True w \<and>
        vm_pos w = off cps (ms_at m) \<and>
        cap_start w = map (off cps) (ms_cap_start m) \<and> cap_end w = map (off cps) (ms_cap_end m) \<and>
        var_start w = map (off cps) (ms_var_start m) \<and> var_end w = map (off cps) (ms_var_end m)"
proof -
  let ?v = "vm_zero bc (utf8 cps)"
  have c: "compiles_to a bc" using assms(1-5) unfolding compiles_to_def by blast
  have v: "vm_s ?v = utf8 cps" "regs_at cps ms_init ?v" "ms_at ms_init = 0"
    by (simp_all add: vm_zero_def regs_at_def ms_init_def map_replicate reg_off_def)
  have start: "in_text_at cps ms_init"
    by (simp add: in_text_at_def ms_init_def within_text_def list_all_length)
  have reg: "map (reg_off cps) xs = map (off cps) xs" if "within_text cps xs" for xs
    using that by (simp add: within_text_def list_all_iff reg_off_le)
  obtain k where k: "\<forall>n \<ge> k. run_result bc cps (matches cps a ms_init) (vm_exec False n ?v)"
    using compiled_run [OF c assms(6-8) ready_zero v] by metis
  show ?thesis
  proof (cases "matches cps a ms_init")
    case Nil
    then show ?thesis using k by (intro exI [of _ k]) (auto simp: run_result_def)
  next
    case (Cons m ms)
    then have "in_text_at cps m" using stays_inD [OF matches_stays_in(1) [OF assms(1)] start, of m] by simp
    then show ?thesis
      using k Cons reg by (intro exI [of _ k]) (auto simp: run_result_def regs_at_def in_text_at_def)
  qed
qed

text \<open>ARBNO of a captured literal, and a position that makes the last round go back.\<close>

definition sample_pattern :: ast where
  "sample_pattern = AST_CONCAT [AST_ARBNO (AST_CAP 1 (AST_LITERAL [97])), AST_RPOS 2]"

lemma sample_compiles:
  "case compile_code sample_pattern False of Compiled co \<Rightarrow>
     (case snobol_bc_fuse_split_any co of Compiled co' \<Rightarrow> co' = co | _ \<Rightarrow> False) | _ \<Rightarrow> False"
  by code_simp

lemma sample_assembles:
  "case compile_ast_to_bytecode_c sample_pattern False of Compiled bc \<Rightarrow> int (length bc) < 300 | _ \<Rightarrow> False"
  by code_simp

lemma sample_compiled: "\<exists>bc. compile_ast_to_bytecode_c sample_pattern False = Compiled bc \<and> compiles_to sample_pattern bc"
proof -
  obtain co where co: "compile_code sample_pattern False = Compiled co" "snobol_bc_fuse_split_any co = Compiled co"
    using sample_compiles by (auto split: compiled.splits)
  obtain bc where bc: "compile_ast_to_bytecode_c sample_pattern False = Compiled bc" "length bc < 2 ^ 19"
    using sample_assembles by (auto split: compiled.splits)
  have "supported sample_pattern" by code_simp
  then show ?thesis using co bc by (auto simp: compiles_to_def)
qed

lemma sample_matches:
  "supported sample_pattern \<and> trail_cost 3 sample_pattern < 100 \<and>
   map (\<lambda>m. (ms_at m, take 2 (ms_cap_start m), take 2 (ms_cap_end m))) (matches [97, 97, 98] sample_pattern ms_init) =
     [(1, [0, 0], [0, 1])]"
  by code_simp

theorem compiled_pattern_matches_witness:
  "\<exists>bc k. compile_ast_to_bytecode_c sample_pattern False = Compiled bc \<and>
     (\<forall>n \<ge> k. \<exists>w. vm_exec False n (vm_zero bc [97, 97, 98]) = Done True w \<and>
       vm_pos w = 1 \<and> take 2 (cap_start w) = [0, 0] \<and> take 2 (cap_end w) = [0, 1])"
proof -
  let ?cps = "[97, 97, 98] :: u32 list"
  obtain co where co: "compile_code sample_pattern False = Compiled co" "snobol_bc_fuse_split_any co = Compiled co"
    using sample_compiles by (auto split: compiled.splits)
  obtain bc where bc: "compile_ast_to_bytecode_c sample_pattern False = Compiled bc" "length bc < 2 ^ 19"
    using sample_assembles by (auto split: compiled.splits)
  obtain m where m: "matches ?cps sample_pattern ms_init = [m]" "ms_at m = 1" "take 2 (ms_cap_start m) = [0, 0]" "take 2 (ms_cap_end m) = [0, 1]"
    using sample_matches by (auto simp: map_eq_Cons_conv)
  have t: "valid_cps ?cps" "utf8 ?cps = [97, 97, 98]" "map (off ?cps) [0, 1] = [0, 1]" by code_simp+
  have three: "length ?cps = 3" by simp
  have len: "length ?cps + 1 < 2 ^ 32" "trail_cost (length ?cps) sample_pattern < 2 ^ 32"
    unfolding three using sample_matches by simp_all
  have sup: "supported sample_pattern" using sample_matches by blast
  have r: "take 2 (map (off ?cps) xs) = map (off ?cps) (take 2 xs)" for xs by (simp add: take_map)
  obtain k where k: "\<forall>n \<ge> k. \<exists>w. vm_exec False n (vm_zero bc [97, 97, 98]) = Done True w \<and> vm_pos w = off ?cps 1 \<and>
      cap_start w = map (off ?cps) (ms_cap_start m) \<and> cap_end w = map (off ?cps) (ms_cap_end m)"
    using compiled_pattern_matches [OF sup co bc t(1) len, unfolded m(1,2) list.case t(2)] by blast
  have "\<exists>w. vm_exec False n (vm_zero bc [97, 97, 98]) = Done True w \<and> vm_pos w = 1 \<and>
      take 2 (cap_start w) = [0, 0] \<and> take 2 (cap_end w) = [0, 1]" if "k \<le> n" for n
  proof -
    obtain w where w: "vm_exec False n (vm_zero bc [97, 97, 98]) = Done True w" "vm_pos w = off ?cps 1"
      "cap_start w = map (off ?cps) (ms_cap_start m)" "cap_end w = map (off ?cps) (ms_cap_end m)" using k \<open>k \<le> n\<close> by blast
    have "take 2 (cap_start w) = [0, 0]" "take 2 (cap_end w) = [0, 1]" "vm_pos w = 1"
      unfolding w r m using t(3) by simp_all
    then show ?thesis using w(1) by blast
  qed
  then show ?thesis using bc(1) by blast
qed

end
