(* ===== verification/Search_Walk.thy ===== *)
theory Search_Walk
  imports Vm_Exec
begin

text \<open>
  The bytecode walks of \<^verbatim>\<open>core/src/search_meta.c\<close>: what can be said about the matches of a pattern
  by reading its instructions once. A walk that runs past one of its arrays, or that goes round in
  malformed code, has a result of its own.
\<close>

section \<open>Reading bytecode\<close>

definition search_read_u16 :: "bytes \<Rightarrow> nat \<Rightarrow> u16" where
  "search_read_u16 bc ip = push_bit 8 (ucast (bc ! ip)) OR ucast (bc ! (ip + 1))"

abbreviation search_read_u32 :: "bytes \<Rightarrow> nat \<Rightarrow> u32" where
  "search_read_u32 \<equiv> be32"

abbreviation op_at :: "bytes \<Rightarrow> nat \<Rightarrow> op_code option" where
  "op_at bc ip \<equiv> decode_op (bc ! ip)"

text \<open>\<open>lit_off >= bc_len || lit_off + lit_len > bc_len\<close>, with the sum in 32 bits.\<close>

definition lit_outside :: "nat \<Rightarrow> u32 \<Rightarrow> u32 \<Rightarrow> bool" where
  "lit_outside bc_len off len \<longleftrightarrow> bc_len \<le> unat off \<or> bc_len < unat (off + len)"

text \<open>The bitmap of the ASCII part of a class as far as the loop fills it before it gives up.\<close>

fun ascii_fill :: "bytes \<Rightarrow> nat \<Rightarrow> nat \<Rightarrow> u64 \<times> u64 \<Rightarrow> bool \<times> (u64 \<times> u64)" where
  "ascii_fill ranges i 0 bm = (True, bm)"
| "ascii_fill ranges i (Suc n) bm =
     (let (start, stop) = range_at ranges i
      in if 127 < start \<or> 127 < stop then (False, bm)
         else ascii_fill ranges (i + 1) n (fill_ascii (unat start) (Suc (unat stop) - unat start) bm))"

definition ascii_bitmap :: "bytes \<Rightarrow> u16 \<Rightarrow> bool \<times> (u64 \<times> u64)" where
  "ascii_bitmap ranges cnt = ascii_fill ranges 0 (unat cnt) (0, 0)"

lemma ascii_fill_loop: "ascii_loop ranges i n bm = (case ascii_fill ranges i n bm of (ok, m) \<Rightarrow> if ok then Some m else None)"
  by (induction n arbitrary: i bm) (auto split: prod.splits)

section \<open>Bitmaps of 256 bits\<close>

definition bitmap256_set :: "u8 \<Rightarrow> bytes \<Rightarrow> bytes" where
  "bitmap256_set b bm = bm[unat b div 8 := bm ! (unat b div 8) OR push_bit (unat b mod 8) 1]"

definition bitmap256_set_all :: "bytes \<Rightarrow> bytes" where
  "bitmap256_set_all bm = replicate 32 0xFF"

definition bitmap256_test :: "bytes \<Rightarrow> u8 \<Rightarrow> bool" where
  "bitmap256_test bm b \<longleftrightarrow> bm ! (unat b div 8) AND push_bit (unat b mod 8) 1 \<noteq> 0"

text \<open>The loop over all bytes that adds those of a set.\<close>

definition bitmap256_add :: "(u8 \<Rightarrow> bool) \<Rightarrow> bytes \<Rightarrow> bytes" where
  "bitmap256_add P bm = fold bitmap256_set (filter P (map word_of_nat [0..<256])) bm"

section \<open>Start bytes\<close>

text \<open>What one instruction means for the walk: go on there, two branches, or the end of this branch.\<close>

datatype sbm_step = Sbm_next nat | Sbm_fork nat nat | Sbm_done "bytes \<Rightarrow> bytes"

definition sbm_class :: "bytes \<Rightarrow> nat \<Rightarrow> bool \<Rightarrow> sbm_step" where
  "sbm_class bc ip member =
     Sbm_done (if length bc < ip + 3 then bitmap256_set_all
       else case get_ranges_ptr bc None (search_read_u16 bc (ip + 1)) of
              Some (rng, cnt, ci) \<Rightarrow> bitmap256_add (\<lambda>b. bitmap_test (snd (ascii_bitmap rng cnt)) b = member)
            | None \<Rightarrow> bitmap256_set_all)"

definition sbm_lit :: "bytes \<Rightarrow> nat \<Rightarrow> sbm_step" where
  "sbm_lit bc ip =
     Sbm_done (if length bc < ip + 9 then bitmap256_set_all
       else (let lit_off = search_read_u32 bc (ip + 1); lit_len = search_read_u32 bc (ip + 5)
             in if lit_outside (length bc) lit_off lit_len \<or> lit_len = 0 then bitmap256_set_all
                else bitmap256_set (bc ! unat lit_off)))"

definition sbm_split :: "bytes \<Rightarrow> nat \<Rightarrow> nat \<Rightarrow> sbm_step" where
  "sbm_split bc ip depth =
     (if length bc < ip + 9 then Sbm_done bitmap256_set_all
      else (let a = unat (search_read_u32 bc (ip + 1)); b = unat (search_read_u32 bc (ip + 5))
            in if length bc \<le> a \<or> length bc \<le> b \<or> 2048 \<le> depth then Sbm_done bitmap256_set_all
               else Sbm_fork a b))"

definition sbm_jmp :: "bytes \<Rightarrow> nat \<Rightarrow> sbm_step" where
  "sbm_jmp bc ip =
     (if length bc < ip + 5 then Sbm_done bitmap256_set_all
      else (let target = unat (search_read_u32 bc (ip + 1))
            in if length bc \<le> target then Sbm_done bitmap256_set_all else Sbm_next target))"

definition sbm_skip :: "bytes \<Rightarrow> nat \<Rightarrow> nat \<Rightarrow> sbm_step" where
  "sbm_skip bc ip n = (if length bc < ip + n then Sbm_done bitmap256_set_all else Sbm_next (ip + n))"

text \<open>One turn of the switch; \<open>depth\<close> is the number of branches on the work stack.\<close>

definition sbm_op :: "bytes \<Rightarrow> nat \<Rightarrow> nat \<Rightarrow> sbm_step" where
  "sbm_op bc depth ip =
     (case op_at bc ip of
        Some OC_LIT \<Rightarrow> sbm_lit bc ip
      | Some OC_ANY \<Rightarrow> sbm_class bc ip True
      | Some OC_NOTANY \<Rightarrow> sbm_class bc ip False
      | Some OC_SPAN \<Rightarrow> sbm_class bc ip True
      | Some OC_SPLIT \<Rightarrow> sbm_split bc ip depth
      | Some OC_CAP_START \<Rightarrow> Sbm_next (ip + 2)
      | Some OC_CAP_END \<Rightarrow> Sbm_next (ip + 2)
      | Some OC_FENCE \<Rightarrow> Sbm_next (ip + 1)
      | Some OC_NOP \<Rightarrow> Sbm_next (ip + 1)
      | Some OC_ANCHOR \<Rightarrow> Sbm_next (ip + 2)
      | Some OC_ASSIGN \<Rightarrow> sbm_skip bc ip 4
      | Some OC_POS \<Rightarrow> sbm_skip bc ip 5
      | Some OC_RPOS \<Rightarrow> sbm_skip bc ip 5
      | Some OC_TAB \<Rightarrow> sbm_skip bc ip 5
      | Some OC_RTAB \<Rightarrow> sbm_skip bc ip 5
      | Some OC_JMP \<Rightarrow> sbm_jmp bc ip
      | Some OC_ACCEPT \<Rightarrow> Sbm_done id
      | Some OC_FAIL \<Rightarrow> Sbm_done id
      | Some OC_ABORT \<Rightarrow> Sbm_done id
      | Some OC_SUCCEED \<Rightarrow> Sbm_done id
      | _ \<Rightarrow> Sbm_done bitmap256_set_all)"

text \<open>
  The loop, with the steps it may still count. It ends when it comes to the end of the bytecode, with
  branches on the stack or without; an end of a branch takes the latest branch from the stack.
\<close>

fun sbm_loop :: "bytes \<Rightarrow> nat \<Rightarrow> nat \<Rightarrow> nat list \<Rightarrow> bytes \<Rightarrow> bytes" where
  "sbm_loop bc 0 ip stack bm = bitmap256_set_all bm"
| "sbm_loop bc (Suc n) ip stack bm =
     (case sbm_op bc (length stack) ip of
        Sbm_next ip' \<Rightarrow> if ip' < length bc then sbm_loop bc n ip' stack bm else bm
      | Sbm_fork a b \<Rightarrow> sbm_loop bc n b (a # stack) bm
      | Sbm_done f \<Rightarrow> (case stack of [] \<Rightarrow> f bm | p # stack' \<Rightarrow> sbm_loop bc n p stack' (f bm)))"

definition walk_steps :: "bytes \<Rightarrow> nat" where
  "walk_steps bc = length bc * 8 + 256"

definition compute_start_bitmap :: "bytes \<Rightarrow> bytes \<Rightarrow> bytes" where
  "compute_start_bitmap bc bm = (if bc = [] then bm else sbm_loop bc (walk_steps bc) 0 [] bm)"

section \<open>Minimum length\<close>

datatype min_step = Min_next u32 nat | Min_end u32 | Min_is u32 | Min_fork nat nat

definition min_operand :: "bytes \<Rightarrow> nat \<Rightarrow> nat \<Rightarrow> u32 \<Rightarrow> min_step" where
  "min_operand bc ip n amount = (if length bc < ip + n then Min_end amount else Min_next amount (ip + n))"

definition min_lit :: "bytes \<Rightarrow> nat \<Rightarrow> min_step" where
  "min_lit bc ip =
     (if length bc < ip + 9 then Min_is 0
      else (let lit_len = search_read_u32 bc (ip + 5) in Min_next lit_len (ip + unat (9 + lit_len))))"

definition min_split :: "bytes \<Rightarrow> nat \<Rightarrow> min_step" where
  "min_split bc ip =
     (if length bc < ip + 9 then Min_end 0
      else (let a = unat (search_read_u32 bc (ip + 1)); b = unat (search_read_u32 bc (ip + 5))
            in if length bc \<le> a \<or> length bc \<le> b then Min_end 0 else Min_fork a b))"

definition min_jmp :: "bytes \<Rightarrow> nat \<Rightarrow> min_step" where
  "min_jmp bc ip =
     (if length bc < ip + 5 then Min_end 0
      else (let target = unat (search_read_u32 bc (ip + 1))
            in if length bc \<le> target then Min_end 0 else Min_next 0 target))"

definition min_len :: "bytes \<Rightarrow> nat \<Rightarrow> min_step" where
  "min_len bc ip = (if length bc < ip + 5 then Min_end 0 else Min_next (search_read_u32 bc (ip + 1)) (ip + 5))"

definition min_op :: "bytes \<Rightarrow> nat \<Rightarrow> min_step" where
  "min_op bc ip =
     (case op_at bc ip of
        Some OC_LIT \<Rightarrow> min_lit bc ip
      | Some OC_ANY \<Rightarrow> min_operand bc ip 3 1
      | Some OC_NOTANY \<Rightarrow> min_operand bc ip 3 1
      | Some OC_SPAN \<Rightarrow> min_operand bc ip 3 1
      | Some OC_BREAK \<Rightarrow> Min_next 0 (ip + 3)
      | Some OC_BREAKX \<Rightarrow> Min_next 0 (ip + 3)
      | Some OC_LEN \<Rightarrow> min_len bc ip
      | Some OC_POS \<Rightarrow> min_operand bc ip 5 0
      | Some OC_RPOS \<Rightarrow> min_operand bc ip 5 0
      | Some OC_TAB \<Rightarrow> min_operand bc ip 5 0
      | Some OC_RTAB \<Rightarrow> min_operand bc ip 5 0
      | Some OC_ANCHOR \<Rightarrow> Min_next 0 (ip + 2)
      | Some OC_CAP_START \<Rightarrow> Min_next 0 (ip + 2)
      | Some OC_CAP_END \<Rightarrow> Min_next 0 (ip + 2)
      | Some OC_FENCE \<Rightarrow> Min_next 0 (ip + 1)
      | Some OC_NOP \<Rightarrow> Min_next 0 (ip + 1)
      | Some OC_ASSIGN \<Rightarrow> min_operand bc ip 4 0
      | Some OC_SPLIT \<Rightarrow> min_split bc ip
      | Some OC_JMP \<Rightarrow> min_jmp bc ip
      | Some OC_REPEAT_STEP \<Rightarrow> Min_end 0
      | Some OC_BAL \<Rightarrow> Min_end 2
      | Some OC_REM \<Rightarrow> Min_end 0
      | Some OC_ACCEPT \<Rightarrow> Min_end 0
      | Some OC_ABORT \<Rightarrow> Min_end 0
      | Some OC_SUCCEED \<Rightarrow> Min_end 0
      | Some OC_FAIL \<Rightarrow> Min_is (- 1)
      | _ \<Rightarrow> Min_is 0)"

definition branch_min :: "u32 \<Rightarrow> u32 \<Rightarrow> u32" where
  "branch_min ma mb =
     (if ma \<noteq> - 1 \<and> mb \<noteq> - 1 then if ma < mb then ma else mb
      else if ma \<noteq> - 1 then ma else if mb \<noteq> - 1 then mb else 0)"

text \<open>The loop with the steps it may still count; \<open>d\<close> is how much deeper the recursion may go.\<close>

function min_loop :: "bytes \<Rightarrow> nat \<Rightarrow> nat \<Rightarrow> nat \<Rightarrow> u32 \<Rightarrow> u32" where
  "min_loop bc d n ip len =
     (if length bc \<le> ip then len
      else if n = 0 then 0
      else case min_op bc ip of
             Min_next amount ip' \<Rightarrow> min_loop bc d (n - 1) ip' (len + amount)
           | Min_end amount \<Rightarrow> len + amount
           | Min_is r \<Rightarrow> r
           | Min_fork a b \<Rightarrow>
               (if d = 0 then len
                else len + branch_min (min_loop bc (d - 1) (walk_steps bc) a 0)
                                      (min_loop bc (d - 1) (walk_steps bc) b 0)))"
  by pat_completeness auto
termination by (relation "inv_image (less_than <*lex*> less_than) (\<lambda>(bc, d, n, ip, len). (d, n))") auto

declare min_loop.simps [simp del]

definition compute_minlength :: "bytes \<Rightarrow> u32" where
  "compute_minlength bc = min_loop bc 12 (walk_steps bc) 0 0"

end
