(* ===== verification/Search_Meta.thy ===== *)
theory Search_Meta
  imports Search_Walk
begin

text \<open>
  The search metadata of a pattern, \<^verbatim>\<open>core/src/search_meta.c\<close> with \<^verbatim>\<open>core/include/snobol/search.h\<close>:
  which strategies a pattern is eligible for, what the strategies filter candidates with, and the
  choice among the strategies by their cost. The test of eligibility for the vector strategy is the
  one of \<^verbatim>\<open>core/src/search_simd.c\<close>.
\<close>

section \<open>Constants\<close>

definition SNOBOL_SEARCH_MAX_PREFIX :: nat where "SNOBOL_SEARCH_MAX_PREFIX = 16"

definition SNOBOL_AUTO_MAX_LIT_BYTES :: nat where "SNOBOL_AUTO_MAX_LIT_BYTES = 250"

definition MAX_FUSION_SEGMENTS :: nat where "MAX_FUSION_SEGMENTS = 32"

datatype search_tier =
    TIER_BREAK_SCAN | TIER_SPAN_SCAN | TIER_LITERAL | TIER_PREFIX | TIER_BITMAP | TIER_ALT_LIT
  | TIER_SEARCH_VM | TIER_AUTOMATON | TIER_GENERAL | TIER_SIMD_NFA | TIER_FUSED_AUTOMATON

text \<open>The numbers of the enumeration, which order the strategies.\<close>

primrec tier_index :: "search_tier \<Rightarrow> nat" where
  "tier_index TIER_BREAK_SCAN = 0"
| "tier_index TIER_SPAN_SCAN = 1"
| "tier_index TIER_LITERAL = 2"
| "tier_index TIER_PREFIX = 3"
| "tier_index TIER_BITMAP = 4"
| "tier_index TIER_ALT_LIT = 5"
| "tier_index TIER_SEARCH_VM = 6"
| "tier_index TIER_AUTOMATON = 7"
| "tier_index TIER_GENERAL = 8"
| "tier_index TIER_SIMD_NFA = 9"
| "tier_index TIER_FUSED_AUTOMATON = 10"

lemma tier_index_inject: "tier_index s = tier_index t \<Longrightarrow> s = t"
  by (cases s; cases t) simp_all

instantiation search_tier :: linorder
begin

definition less_eq_search_tier :: "search_tier \<Rightarrow> search_tier \<Rightarrow> bool" where
  "less_eq_search_tier s t \<longleftrightarrow> tier_index s \<le> tier_index t"

definition less_search_tier :: "search_tier \<Rightarrow> search_tier \<Rightarrow> bool" where
  "less_search_tier s t \<longleftrightarrow> tier_index s < tier_index t"

instance
  by standard (auto simp: less_eq_search_tier_def less_search_tier_def intro: tier_index_inject)

end

section \<open>Alternations of literals\<close>

text \<open>
  The walks over the tree of branches. They keep the positions to visit on an array of 64 entries;
  \<open>Overflow\<close> is a write behind it, \<open>Unended\<close> a walk that needs more turns than it was given.
\<close>

datatype 'a walk = Ended 'a | Overflow | Unended

fun follow_jumps :: "bytes \<Rightarrow> nat \<Rightarrow> nat \<Rightarrow> nat \<Rightarrow> nat option" where
  "follow_jumps bc bc_len 0 cur = (if cur < bc_len \<and> op_at bc cur = Some OC_JMP then None else Some cur)"
| "follow_jumps bc bc_len (Suc n) cur =
     (if cur < bc_len \<and> op_at bc cur = Some OC_JMP
      then follow_jumps bc bc_len n (unat (search_read_u32 bc (cur + 1))) else Some cur)"

text \<open>
  A leaf: a literal with its bytes inline, then jumps to an ACCEPT. The count of literal bytes is
  handed on also when the check fails.
\<close>

definition check_leaf :: "bytes \<Rightarrow> nat \<Rightarrow> nat \<Rightarrow> nat \<Rightarrow> bool \<times> nat" where
  "check_leaf bc bc_len ip lit_bytes =
     (if bc_len < ip + 10 then (False, lit_bytes)
      else (let lit_len = unat (search_read_u32 bc (ip + 5))
            in if bc_len < ip + 9 + lit_len then (False, lit_bytes)
               else if SNOBOL_AUTO_MAX_LIT_BYTES < lit_bytes + lit_len then (False, lit_bytes + lit_len)
               else (case follow_jumps bc bc_len bc_len (ip + 9 + lit_len) of
                       None \<Rightarrow> (False, lit_bytes + lit_len)
                     | Some cur \<Rightarrow> (cur < bc_len \<and> op_at bc cur = Some OC_ACCEPT, lit_bytes + lit_len))))"

fun check_alt_literals :: "nat \<Rightarrow> bytes \<Rightarrow> nat \<Rightarrow> nat \<Rightarrow> nat \<Rightarrow> (bool \<times> nat) walk" where
  "check_alt_literals 0 bc bc_len ip lit_bytes = Unended"
| "check_alt_literals (Suc n) bc bc_len ip lit_bytes =
     (if bc_len < ip + 2 then Ended (False, lit_bytes)
      else case op_at bc ip of
             Some OC_LIT \<Rightarrow> Ended (check_leaf bc bc_len ip lit_bytes)
           | Some OC_SPLIT \<Rightarrow>
               (if bc_len < ip + 9 then Ended (False, lit_bytes)
                else (let a = unat (search_read_u32 bc (ip + 1)); b = unat (search_read_u32 bc (ip + 5))
                      in if bc_len \<le> a \<or> bc_len \<le> b then Ended (False, lit_bytes)
                         else case check_alt_literals n bc bc_len a lit_bytes of
                                Ended (True, lit_bytes') \<Rightarrow> check_alt_literals n bc bc_len b lit_bytes'
                              | r \<Rightarrow> r))
           | _ \<Rightarrow> Ended (False, lit_bytes))"

text \<open>This walk does not test for room on its array.\<close>

fun alt_has_empty_branch :: "nat \<Rightarrow> bytes \<Rightarrow> nat \<Rightarrow> nat list \<Rightarrow> bool walk" where
  "alt_has_empty_branch n bc bc_len [] = Ended False"
| "alt_has_empty_branch 0 bc bc_len (ip # stack) = Unended"
| "alt_has_empty_branch (Suc n) bc bc_len (ip # stack) =
     (if bc_len < ip + 2 then Ended False
      else case op_at bc ip of
             Some OC_LIT \<Rightarrow>
               (if bc_len < ip + 10 then Ended False
                else if search_read_u32 bc (ip + 5) = 0 then Ended True
                else alt_has_empty_branch n bc bc_len stack)
           | Some OC_SPLIT \<Rightarrow>
               (if bc_len < ip + 9 then Ended False
                else (let a = unat (search_read_u32 bc (ip + 1)); b = unat (search_read_u32 bc (ip + 5))
                      in if bc_len \<le> a \<or> bc_len \<le> b then Ended False
                         else if 64 < length stack + 2 then Overflow
                         else alt_has_empty_branch n bc bc_len (a # b # stack)))
           | _ \<Rightarrow> Ended False)"

text \<open>
  The two walks that collect the literals, one for their first bytes and one for the literals. They
  give up on an empty literal, on other instructions and when the array is full; at most 64 are kept.
\<close>

fun collect_literals :: "nat \<Rightarrow> bytes \<Rightarrow> nat \<Rightarrow> nat list \<Rightarrow> bytes list \<Rightarrow> bytes list option walk" where
  "collect_literals n bc bc_len [] lits = Ended (Some (rev lits))"
| "collect_literals 0 bc bc_len (p # stack) lits = Unended"
| "collect_literals (Suc n) bc bc_len (p # stack) lits =
     (if bc_len < p + 2 then Ended None
      else case op_at bc p of
             Some OC_LIT \<Rightarrow>
               (if bc_len < p + 10 then Ended None
                else (let off = search_read_u32 bc (p + 1); len = search_read_u32 bc (p + 5)
                      in if lit_outside bc_len off len \<or> len = 0 then Ended None
                         else collect_literals n bc bc_len stack
                                (if length lits < 64 then sub_list (unat off) (unat len) bc # lits else lits)))
           | Some OC_SPLIT \<Rightarrow>
               (if bc_len < p + 9 then Ended None
                else (let a = unat (search_read_u32 bc (p + 1)); b = unat (search_read_u32 bc (p + 5))
                      in if bc_len \<le> a \<or> bc_len \<le> b \<or> 64 < length stack + 2 then Ended None
                         else collect_literals n bc bc_len (a # b # stack) lits))
           | _ \<Rightarrow> Ended None)"

definition alt_literals_share_prefix :: "nat \<Rightarrow> bytes \<Rightarrow> nat \<Rightarrow> bool walk" where
  "alt_literals_share_prefix n bc bc_len =
     (case collect_literals n bc bc_len [0] [] of
        Ended None \<Rightarrow> Ended True
      | Ended (Some lits) \<Rightarrow> Ended (\<not> distinct (map hd lits))
      | Overflow \<Rightarrow> Overflow
      | Unended \<Rightarrow> Unended)"

text \<open>The loop over the byte positions that all literals agree on.\<close>

fun shared_from :: "bytes \<Rightarrow> bytes list \<Rightarrow> nat \<Rightarrow> nat \<Rightarrow> bytes" where
  "shared_from l ls i 0 = []"
| "shared_from l ls i (Suc n) =
     (if \<forall>m \<in> set ls. i < length m \<and> m ! i = l ! i then l ! i # shared_from l ls (i + 1) n else [])"

definition shared_prefix :: "bytes list \<Rightarrow> bytes" where
  "shared_prefix lits =
     (case lits of
        l # m # ls \<Rightarrow> shared_from l (m # ls) 0 (min (length l) SNOBOL_SEARCH_MAX_PREFIX)
      | _ \<Rightarrow> [])"

definition alt_literals_shared_prefix :: "nat \<Rightarrow> bytes \<Rightarrow> nat \<Rightarrow> bytes walk" where
  "alt_literals_shared_prefix n bc bc_len =
     (case collect_literals n bc bc_len [0] [] of
        Ended None \<Rightarrow> Ended []
      | Ended (Some lits) \<Rightarrow> Ended (shared_prefix lits)
      | Overflow \<Rightarrow> Overflow
      | Unended \<Rightarrow> Unended)"

section \<open>Single literals\<close>

text \<open>Skipping instructions of one byte.\<close>

function skip_nops_fences :: "bytes \<Rightarrow> nat \<Rightarrow> nat" where
  "skip_nops_fences bc ip =
     (if ip < length bc \<and> (op_at bc ip = Some OC_NOP \<or> op_at bc ip = Some OC_FENCE)
      then skip_nops_fences bc (ip + 1) else ip)"
  by pat_completeness auto
termination by (relation "measure (\<lambda>(bc, ip). length bc - ip)") auto

declare skip_nops_fences.simps [simp del]

definition check_literal_only :: "bytes \<Rightarrow> bool" where
  "check_literal_only bc =
     (let bc_len = length bc
      in if bc_len < 2 then False
         else (let ip = skip_nops_fences bc 0
               in if bc_len < ip + 9 then False
                  else if op_at bc ip \<noteq> Some OC_LIT then False
                  else (let lit_off = search_read_u32 bc (ip + 1); lit_len = search_read_u32 bc (ip + 5)
                        in if lit_outside bc_len lit_off lit_len \<or> lit_len = 0 then False
                           else (let ip = skip_nops_fences bc (ip + 9 + unat lit_len)
                                 in ip < bc_len \<and> op_at bc ip = Some OC_ACCEPT))))"

section \<open>Captures and registers\<close>

text \<open>Where the walk for captures goes on after an instruction; \<open>None\<close> when it stops.\<close>

definition capture_arity :: "op_code option \<Rightarrow> nat option" where
  "capture_arity oc =
     (case oc of
        Some OC_FAIL \<Rightarrow> Some 1 | Some OC_NOP \<Rightarrow> Some 1 | Some OC_FENCE \<Rightarrow> Some 1 | Some OC_REM \<Rightarrow> Some 1
      | Some OC_DYNAMIC \<Rightarrow> Some 1
      | Some OC_JMP \<Rightarrow> Some 9 | Some OC_SPLIT \<Rightarrow> Some 9 | Some OC_LIT \<Rightarrow> Some 9 | Some OC_EMIT_LITERAL \<Rightarrow> Some 9
      | Some OC_ANY \<Rightarrow> Some 3 | Some OC_NOTANY \<Rightarrow> Some 3 | Some OC_SPAN \<Rightarrow> Some 3 | Some OC_BREAK \<Rightarrow> Some 3
      | Some OC_BREAKX \<Rightarrow> Some 3
      | Some OC_ASSIGN \<Rightarrow> Some 4 | Some OC_EVAL \<Rightarrow> Some 4
      | Some OC_LEN \<Rightarrow> Some 5 | Some OC_POS \<Rightarrow> Some 5 | Some OC_RPOS \<Rightarrow> Some 5 | Some OC_TAB \<Rightarrow> Some 5
      | Some OC_RTAB \<Rightarrow> Some 5
      | Some OC_ANCHOR \<Rightarrow> Some 2 | Some OC_REPEAT_INIT \<Rightarrow> Some 14 | Some OC_REPEAT_STEP \<Rightarrow> Some 6
      | _ \<Rightarrow> None)"

lemma capture_arity_pos: "capture_arity oc = Some n \<Longrightarrow> 0 < n"
  by (auto simp: capture_arity_def split: option.splits op_code.splits)

function capture_walk :: "bytes \<Rightarrow> nat \<Rightarrow> bool" where
  "capture_walk bc ip =
     (if ip < length bc
      then if op_at bc ip \<in> {Some OC_CAP_START, Some OC_CAP_END, Some OC_EMIT_CAPTURE} then True
           else (case capture_arity (op_at bc ip) of Some n \<Rightarrow> capture_walk bc (ip + n) | None \<Rightarrow> False)
      else False)"
  by pat_completeness auto
termination by (relation "measure (\<lambda>(bc, ip). length bc - ip)") (auto dest: capture_arity_pos)

declare capture_walk.simps [simp del]

definition bc_has_capture :: "bytes \<Rightarrow> bool" where
  "bc_has_capture bc = capture_walk bc 0"

definition SNBL_REG_CAPTURE :: u8 where "SNBL_REG_CAPTURE = 1"

definition SNBL_REG_VARS :: u8 where "SNBL_REG_VARS = 2"

definition SNBL_REG_COUNTERS :: u8 where "SNBL_REG_COUNTERS = 4"

definition all_registers :: u8 where
  "all_registers = SNBL_REG_CAPTURE OR SNBL_REG_VARS OR SNBL_REG_COUNTERS"

text \<open>What an instruction adds to the classes and how long it is; a literal is longer by its inline bytes.\<close>

definition register_arity :: "op_code option \<Rightarrow> (u8 \<times> nat) option" where
  "register_arity oc =
     (case oc of
        Some OC_CAP_START \<Rightarrow> Some (SNBL_REG_CAPTURE, 2)
      | Some OC_CAP_END \<Rightarrow> Some (SNBL_REG_CAPTURE OR SNBL_REG_VARS, 2)
      | Some OC_EMIT_CAPTURE \<Rightarrow> Some (SNBL_REG_CAPTURE, 2)
      | Some OC_ASSIGN \<Rightarrow> Some (SNBL_REG_CAPTURE OR SNBL_REG_VARS, 4)
      | Some OC_REPEAT_INIT \<Rightarrow> Some (SNBL_REG_COUNTERS, 14)
      | Some OC_REPEAT_STEP \<Rightarrow> Some (SNBL_REG_COUNTERS, 6)
      | Some OC_FAIL \<Rightarrow> Some (0, 1) | Some OC_NOP \<Rightarrow> Some (0, 1) | Some OC_FENCE \<Rightarrow> Some (0, 1)
      | Some OC_REM \<Rightarrow> Some (0, 1) | Some OC_DYNAMIC \<Rightarrow> Some (0, 1)
      | Some OC_JMP \<Rightarrow> Some (0, 5) | Some OC_SPLIT \<Rightarrow> Some (0, 9)
      | Some OC_ANY \<Rightarrow> Some (0, 3) | Some OC_NOTANY \<Rightarrow> Some (0, 3) | Some OC_SPAN \<Rightarrow> Some (0, 3)
      | Some OC_BREAK \<Rightarrow> Some (0, 3) | Some OC_BREAKX \<Rightarrow> Some (0, 3)
      | Some OC_EVAL \<Rightarrow> Some (0, 4)
      | Some OC_LEN \<Rightarrow> Some (0, 5) | Some OC_POS \<Rightarrow> Some (0, 5) | Some OC_RPOS \<Rightarrow> Some (0, 5)
      | Some OC_TAB \<Rightarrow> Some (0, 5) | Some OC_RTAB \<Rightarrow> Some (0, 5)
      | Some OC_ANCHOR \<Rightarrow> Some (0, 2)
      | _ \<Rightarrow> None)"

lemma register_arity_pos: "register_arity oc = Some (c, n) \<Longrightarrow> 0 < n"
  by (auto simp: register_arity_def split: option.splits op_code.splits)

function register_walk :: "bytes \<Rightarrow> nat \<Rightarrow> u8 \<Rightarrow> u8" where
  "register_walk bc ip classes =
     (if ip < length bc
      then let oc = op_at bc ip
           in if oc \<in> {Some OC_ACCEPT, Some OC_SUCCEED, Some OC_ABORT} then classes
              else if oc \<in> {Some OC_LIT, Some OC_EMIT_LITERAL}
              then (if length bc < ip + 9 then all_registers
                    else (let off = unat (be32 bc (ip + 1)); lit_len = unat (be32 bc (ip + 5))
                          in register_walk bc (if off = ip + 9 then ip + 9 + lit_len else ip + 9) classes))
              else (case register_arity oc of
                      Some (c, n) \<Rightarrow> register_walk bc (ip + n) (classes OR c)
                    | None \<Rightarrow> all_registers)
      else classes)"
  by pat_completeness auto
termination by (relation "measure (\<lambda>(bc, ip, classes). length bc - ip)") (auto simp: Let_def dest: register_arity_pos)

declare register_walk.simps [simp del]

definition snobol_bc_register_classes :: "bytes \<Rightarrow> u8" where
  "snobol_bc_register_classes bc = (if length bc < 2 then all_registers else register_walk bc 0 0)"

section \<open>Eligibility\<close>

text \<open>
  An instruction on the walks for eligibility, behind its opcode: refused, the end of the walk when
  the length of the code is not known, or operands to skip.
\<close>

datatype elig = Refused | Terminal | Operands nat | Literal

definition automaton_elig :: "op_code option \<Rightarrow> elig" where
  "automaton_elig oc =
     (case oc of
        Some OC_ACCEPT \<Rightarrow> Terminal | Some OC_FAIL \<Rightarrow> Terminal
      | Some OC_JMP \<Rightarrow> Operands 4 | Some OC_SPLIT \<Rightarrow> Operands 8 | Some OC_LIT \<Rightarrow> Literal
      | Some OC_ANY \<Rightarrow> Operands 2 | Some OC_NOTANY \<Rightarrow> Operands 2 | Some OC_LEN \<Rightarrow> Operands 4
      | Some OC_CAP_START \<Rightarrow> Operands 0 | Some OC_CAP_END \<Rightarrow> Operands 0 | Some OC_FENCE \<Rightarrow> Operands 0
      | Some OC_REM \<Rightarrow> Operands 0 | Some OC_NOP \<Rightarrow> Operands 0 | Some OC_ABORT \<Rightarrow> Operands 0
      | Some OC_SUCCEED \<Rightarrow> Operands 0
      | Some OC_REPEAT_INIT \<Rightarrow> Operands 13 | Some OC_REPEAT_STEP \<Rightarrow> Operands 5
      | _ \<Rightarrow> Refused)"

definition search_vm_elig :: "op_code option \<Rightarrow> elig" where
  "search_vm_elig oc =
     (case oc of
        Some OC_ACCEPT \<Rightarrow> Terminal | Some OC_FAIL \<Rightarrow> Terminal | Some OC_ABORT \<Rightarrow> Terminal | Some OC_SUCCEED \<Rightarrow> Terminal
      | Some OC_JMP \<Rightarrow> Operands 4 | Some OC_SPLIT \<Rightarrow> Operands 8 | Some OC_LIT \<Rightarrow> Literal
      | Some OC_ANY \<Rightarrow> Operands 2 | Some OC_NOTANY \<Rightarrow> Operands 2 | Some OC_SPAN \<Rightarrow> Operands 2
      | Some OC_BREAK \<Rightarrow> Operands 2
      | Some OC_LEN \<Rightarrow> Operands 4 | Some OC_RPOS \<Rightarrow> Operands 4 | Some OC_RTAB \<Rightarrow> Operands 4
      | Some OC_POS \<Rightarrow> Operands 4 | Some OC_TAB \<Rightarrow> Operands 4
      | Some OC_ANCHOR \<Rightarrow> Operands 0 | Some OC_FENCE \<Rightarrow> Operands 0 | Some OC_NOP \<Rightarrow> Operands 0
      | Some OC_REPEAT_INIT \<Rightarrow> Operands 13 | Some OC_REPEAT_STEP \<Rightarrow> Operands 5
      | Some OC_CAP_START \<Rightarrow> Operands 1 | Some OC_CAP_END \<Rightarrow> Operands 1
      | Some OC_ASSIGN \<Rightarrow> Operands 3 | Some OC_BREAKX \<Rightarrow> Operands 2
      | _ \<Rightarrow> Refused)"

function elig_walk :: "(op_code option \<Rightarrow> elig) \<Rightarrow> bytes \<Rightarrow> bool \<Rightarrow> nat \<Rightarrow> nat \<Rightarrow> bool" where
  "elig_walk f bc bounded limit ip =
     (if ip < limit
      then (case f (op_at bc ip) of
              Refused \<Rightarrow> False
            | Terminal \<Rightarrow> if bounded then elig_walk f bc bounded limit (ip + 1) else True
            | Operands n \<Rightarrow>
                if limit < ip + 1 + n then False else elig_walk f bc bounded limit (ip + 1 + n)
            | Literal \<Rightarrow>
                if limit < ip + 1 + 8 then False
                else elig_walk f bc bounded limit (ip + 1 + unat (8 + search_read_u32 bc (ip + 1 + 4))))
      else True)"
  by pat_completeness auto
termination by (relation "measure (\<lambda>(f, bc, bounded, limit, ip). limit - ip)") auto

declare elig_walk.simps [simp del]

definition check_automaton_eligible :: "bytes \<Rightarrow> bool" where
  "check_automaton_eligible bc =
     (if 512 < length bc then False
      else (let body_len = snobol_bc_body_len bc; bounded = 0 < body_len
            in elig_walk automaton_elig bc bounded (if bounded then body_len else length bc) 0))"

definition check_search_vm_eligible :: "bytes \<Rightarrow> bool" where
  "check_search_vm_eligible bc =
     (if length bc < 2 then False
      else (let body_len = snobol_bc_body_len bc; bounded = 0 < body_len
            in elig_walk search_vm_elig bc bounded (if bounded then body_len else length bc) 0))"

function simd_walk :: "bytes \<Rightarrow> nat \<Rightarrow> bool" where
  "simd_walk bc ip =
     (if ip < length bc
      then (case op_at bc ip of
              Some OC_ACCEPT \<Rightarrow> True | Some OC_FAIL \<Rightarrow> True | Some OC_ABORT \<Rightarrow> True | Some OC_SUCCEED \<Rightarrow> True
            | Some OC_NOP \<Rightarrow> simd_walk bc (ip + 1)
            | _ \<Rightarrow> False)
      else False)"
  by pat_completeness auto
termination by (relation "measure (\<lambda>(bc, ip). length bc - ip)") auto

declare simd_walk.simps [simp del]

definition check_simd_eligible :: "bytes \<Rightarrow> bool" where
  "check_simd_eligible bc =
     (if length bc < 2 then False
      else op_at bc 0 \<in> {Some OC_SPAN, Some OC_BREAK, Some OC_ANY, Some OC_NOTANY} \<and> simd_walk bc 3)"

section \<open>Fusion\<close>

text \<open>A segment of the fused form; a run has its least length, an alternation its lists of segments.\<close>

datatype fusion_segment =
    FUSION_LIT bytes | FUSION_RUN bytes nat | FUSION_CHAR bytes | FUSION_ALT "fusion_segment list list"

text \<open>The bytes of the two words, lowest first, and sixteen bytes of zeros.\<close>

definition word_bytes :: "u64 \<Rightarrow> bytes" where
  "word_bytes w = map (\<lambda>i. ucast (drop_bit (8 * i) w)) [0..<8]"

definition fusion_bitmap_from_ascii :: "u64 \<times> u64 \<Rightarrow> bytes" where
  "fusion_bitmap_from_ascii abm = word_bytes (fst abm) @ word_bytes (snd abm) @ replicate 16 0"

definition fusion_bitmap_invert :: "bytes \<Rightarrow> bytes" where
  "fusion_bitmap_invert bm = map (\<lambda>b. NOT b) (take 16 bm) @ replicate 16 0xFF"

text \<open>
  The segment of a class instruction, a literal, or nothing for an empty literal, with the position
  behind it. The two loops of the code, over the pattern and over a branch, read them alike.
\<close>

datatype fused = Fused fusion_segment nat | Skipped nat | Unfused

definition fuse_class :: "bytes \<Rightarrow> nat \<Rightarrow> (bytes \<Rightarrow> fusion_segment) \<Rightarrow> fused" where
  "fuse_class bc ip seg =
     (if length bc < ip + 3 then Unfused
      else case get_ranges_ptr bc None (search_read_u16 bc (ip + 1)) of
             None \<Rightarrow> Unfused
           | Some (ranges, cnt, ci) \<Rightarrow>
               (case ranges_to_ascii_bitmap ranges (unat cnt) of
                  None \<Rightarrow> Unfused
                | Some abm \<Rightarrow> Fused (seg (fusion_bitmap_from_ascii abm)) (ip + 3)))"

definition fuse_lit :: "bytes \<Rightarrow> nat \<Rightarrow> fused" where
  "fuse_lit bc ip =
     (if length bc < ip + 9 then Unfused
      else (let lit_off = search_read_u32 bc (ip + 1); lit_len = search_read_u32 bc (ip + 5)
            in if lit_outside (length bc) lit_off lit_len then Unfused
               else if lit_len = 0 then Skipped (ip + 9)
               else Fused (FUSION_LIT (sub_list (unat lit_off) (unat lit_len) bc)) (ip + unat (9 + lit_len))))"

definition fuse_op :: "bytes \<Rightarrow> nat \<Rightarrow> fused" where
  "fuse_op bc ip =
     (case op_at bc ip of
        Some OC_LIT \<Rightarrow> fuse_lit bc ip
      | Some OC_SPAN \<Rightarrow> fuse_class bc ip (\<lambda>bm. FUSION_RUN bm 1)
      | Some OC_ANY \<Rightarrow> fuse_class bc ip FUSION_CHAR
      | Some OC_NOTANY \<Rightarrow> fuse_class bc ip (\<lambda>bm. FUSION_CHAR (fusion_bitmap_invert bm))
      | Some OC_BREAK \<Rightarrow> fuse_class bc ip (\<lambda>bm. FUSION_RUN (fusion_bitmap_invert bm) 0)
      | _ \<Rightarrow> Unfused)"

text \<open>
  The loop over a branch of an alternation. Every turn moves on in the code or adds one of at most
  32 segments, which bounds the number of turns.
\<close>

fun fuse_branch :: "nat \<Rightarrow> bytes \<Rightarrow> nat \<Rightarrow> fusion_segment list \<Rightarrow> fusion_segment list option" where
  "fuse_branch 0 bc ip segs = None"
| "fuse_branch (Suc n) bc ip segs =
     (if length bc \<le> ip then Some segs
      else case op_at bc ip of
             Some OC_NOP \<Rightarrow> fuse_branch n bc (ip + 1) segs
           | Some OC_FENCE \<Rightarrow> fuse_branch n bc (ip + 1) segs
           | Some OC_ACCEPT \<Rightarrow> Some segs
           | Some OC_SUCCEED \<Rightarrow> Some segs
           | Some OC_JMP \<Rightarrow> Some segs
           | Some OC_FAIL \<Rightarrow> None
           | Some OC_ABORT \<Rightarrow> None
           | _ \<Rightarrow> (if MAX_FUSION_SEGMENTS \<le> length segs then None
                  else case fuse_op bc ip of
                         Fused seg ip' \<Rightarrow> fuse_branch n bc ip' (segs @ [seg])
                       | Skipped ip' \<Rightarrow> fuse_branch n bc ip' segs
                       | Unfused \<Rightarrow> None))"

definition fuse_turns :: "bytes \<Rightarrow> nat" where
  "fuse_turns bc = length bc + 34"

definition fuse_split :: "bytes \<Rightarrow> nat \<Rightarrow> fusion_segment option" where
  "fuse_split bc ip =
     (if length bc < ip + 9 then None
      else (let a = unat (search_read_u32 bc (ip + 1)); b = unat (search_read_u32 bc (ip + 5))
            in if length bc \<le> a \<or> length bc \<le> b then None
               else case fuse_branch (fuse_turns bc) bc a [] of
                      None \<Rightarrow> None
                    | Some xs \<Rightarrow>
                        (if xs = [] then None
                         else case fuse_branch (fuse_turns bc) bc b [] of
                                None \<Rightarrow> None
                              | Some ys \<Rightarrow> if ys = [] then None else Some (FUSION_ALT [xs, ys]))))"

text \<open>
  The loop over the pattern. An alternation counts twice, so behind its segment there is one that
  the allocation left zero: an empty literal.
\<close>

fun fuse_pattern :: "nat \<Rightarrow> bytes \<Rightarrow> nat \<Rightarrow> fusion_segment list \<Rightarrow> fusion_segment list option" where
  "fuse_pattern 0 bc ip segs = None"
| "fuse_pattern (Suc n) bc ip segs =
     (if length bc \<le> ip then Some segs
      else case op_at bc ip of
             Some OC_NOP \<Rightarrow> fuse_pattern n bc (ip + 1) segs
           | Some OC_FENCE \<Rightarrow> fuse_pattern n bc (ip + 1) segs
           | Some OC_ACCEPT \<Rightarrow> Some segs
           | Some OC_SUCCEED \<Rightarrow> Some segs
           | Some OC_SPLIT \<Rightarrow>
               (if MAX_FUSION_SEGMENTS \<le> length segs then None
                else case fuse_split bc ip of
                       Some seg \<Rightarrow> fuse_pattern n bc (ip + 9) (segs @ [seg, FUSION_LIT []])
                     | None \<Rightarrow> None)
           | _ \<Rightarrow> (if MAX_FUSION_SEGMENTS \<le> length segs then None
                  else case fuse_op bc ip of
                         Fused seg ip' \<Rightarrow> fuse_pattern n bc ip' (segs @ [seg])
                       | Skipped ip' \<Rightarrow> fuse_pattern n bc ip' segs
                       | Unfused \<Rightarrow> None))"

definition check_fusion_eligible :: "bytes \<Rightarrow> bool \<Rightarrow> fusion_segment list option" where
  "check_fusion_eligible bc has_capture =
     (if length bc < 2 \<or> has_capture then None
      else case fuse_pattern (fuse_turns bc) bc 0 [] of
             None \<Rightarrow> None
           | Some segs \<Rightarrow> if length segs < 2 then None else Some segs)"

end
