(* ===== verification/Search_Derive.thy ===== *)
theory Search_Derive
  imports Search_Meta
begin

text \<open>
  \<^verbatim>\<open>snobol_search_derive_meta\<close> of \<^verbatim>\<open>core/src/search_meta.c\<close>, in the order of its parts, and the
  choice of a strategy by cost.
\<close>

section \<open>The metadata\<close>

record search_meta =
  sm_flags :: u32
  sm_tier :: search_tier
  sm_has_literal_prefix :: bool
  sm_literal_prefix :: bytes
  sm_has_first_byte :: bool
  sm_first_byte :: u8
  sm_has_candidate_bitmap :: bool
  sm_candidate_bitmap :: "u64 \<times> u64"
  sm_may_match_empty :: bool
  sm_always_consumes :: bool
  sm_is_single_char_alt :: bool
  sm_alt_bytes :: bytes
  sm_is_break_family :: bool
  sm_is_span_family :: bool
  sm_is_breakx :: bool
  sm_ascii_class_only :: bool
  sm_class_bitmap :: "u64 \<times> u64"
  sm_has_start_bitmap :: bool
  sm_start_bitmap :: bytes
  sm_minlength :: u32
  sm_automaton_eligible :: bool
  sm_is_alt_literals :: bool
  sm_is_alt_literals_flat :: bool
  sm_bmh_skip_len :: nat
  sm_has_bmh_skip :: bool
  sm_bmh_skip :: "nat list option"
  sm_is_literal_only :: bool
  sm_search_vm_eligible :: bool
  sm_has_required_lit :: bool
  sm_required_lit :: bytes
  sm_has_capture :: bool
  sm_has_assign :: bool
  sm_has_counter :: bool
  sm_simd_eligible :: bool
  sm_fusion :: "fusion_segment list option"
  sm_fusion_eligible :: bool

text \<open>The zeroed structure. The prefixes and the alternatives carry their lengths.\<close>

definition meta_zero :: search_meta where
  "meta_zero =
     \<lparr>sm_flags = 0, sm_tier = TIER_BREAK_SCAN, sm_has_literal_prefix = False, sm_literal_prefix = [],
      sm_has_first_byte = False, sm_first_byte = 0, sm_has_candidate_bitmap = False,
      sm_candidate_bitmap = (0, 0), sm_may_match_empty = False, sm_always_consumes = False,
      sm_is_single_char_alt = False, sm_alt_bytes = [], sm_is_break_family = False,
      sm_is_span_family = False, sm_is_breakx = False, sm_ascii_class_only = False,
      sm_class_bitmap = (0, 0), sm_has_start_bitmap = False, sm_start_bitmap = replicate 32 0,
      sm_minlength = 0, sm_automaton_eligible = False, sm_is_alt_literals = False,
      sm_is_alt_literals_flat = False, sm_bmh_skip_len = 0, sm_has_bmh_skip = False, sm_bmh_skip = None,
      sm_is_literal_only = False, sm_search_vm_eligible = False, sm_has_required_lit = False,
      sm_required_lit = [], sm_has_capture = False, sm_has_assign = False, sm_has_counter = False,
      sm_simd_eligible = False, sm_fusion = None, sm_fusion_eligible = False\<rparr>"

section \<open>The instruction at the root\<close>

text \<open>Past the instructions that consume nothing, position primitives included.\<close>

function root_ip :: "bytes \<Rightarrow> nat \<Rightarrow> nat" where
  "root_ip bc ip =
     (if ip < length bc
      then (case op_at bc ip of
              Some OC_ANCHOR \<Rightarrow> if length bc < ip + 2 then ip else root_ip bc (ip + 2)
            | Some OC_POS \<Rightarrow> if length bc < ip + 5 then ip else root_ip bc (ip + 5)
            | Some OC_RPOS \<Rightarrow> if length bc < ip + 5 then ip else root_ip bc (ip + 5)
            | Some OC_TAB \<Rightarrow> if length bc < ip + 5 then ip else root_ip bc (ip + 5)
            | Some OC_RTAB \<Rightarrow> if length bc < ip + 5 then ip else root_ip bc (ip + 5)
            | Some OC_NOP \<Rightarrow> root_ip bc (ip + 1)
            | Some OC_FENCE \<Rightarrow> root_ip bc (ip + 1)
            | _ \<Rightarrow> ip)
      else ip)"
  by pat_completeness auto
termination by (relation "measure (\<lambda>(bc, ip). length bc - ip)") auto

declare root_ip.simps [simp del]

definition root_lit :: "bytes \<Rightarrow> nat \<Rightarrow> search_meta \<Rightarrow> search_meta" where
  "root_lit bc ip m =
     (let lit_off = search_read_u32 bc (ip + 1); lit_len = search_read_u32 bc (ip + 5)
      in if lit_outside (length bc) lit_off lit_len then m
         else if lit_len = 0 then m\<lparr>sm_may_match_empty := True, sm_always_consumes := False\<rparr>
         else (let prefix_len = min (unat lit_len) SNOBOL_SEARCH_MAX_PREFIX;
                   m = m\<lparr>sm_literal_prefix := sub_list (unat lit_off) prefix_len bc,
                         sm_has_literal_prefix := True, sm_has_first_byte := True,
                         sm_first_byte := bc ! unat lit_off, sm_always_consumes := True,
                         sm_may_match_empty := False\<rparr>
               in if 2 \<le> prefix_len then m\<lparr>sm_has_bmh_skip := True, sm_bmh_skip_len := prefix_len\<rparr> else m))"

text \<open>The ranges of the class that the instruction names, with the ASCII bitmap and whether it is all.\<close>

definition root_class :: "bytes \<Rightarrow> nat \<Rightarrow> (u16 \<times> bool \<times> (u64 \<times> u64)) option" where
  "root_class bc ip =
     (case get_ranges_ptr bc None (search_read_u16 bc (ip + 1)) of
        None \<Rightarrow> None
      | Some (ranges, cnt, ci) \<Rightarrow> Some (cnt, ascii_bitmap ranges cnt))"

definition root_break :: "bytes \<Rightarrow> nat \<Rightarrow> bool \<Rightarrow> search_meta \<Rightarrow> search_meta" where
  "root_break bc ip breakx m =
     (let m = m\<lparr>sm_is_break_family := True, sm_is_breakx := breakx, sm_always_consumes := False,
               sm_may_match_empty := True\<rparr>
      in case root_class bc ip of
           None \<Rightarrow> m
         | Some (cnt, ascii, bm) \<Rightarrow> m\<lparr>sm_ascii_class_only := ascii, sm_class_bitmap := bm\<rparr>)"

definition root_repeat :: "bytes \<Rightarrow> nat \<Rightarrow> search_meta \<Rightarrow> search_meta" where
  "root_repeat bc ip m =
     (let lo = search_read_u32 bc (ip + 2); skip = unat (search_read_u32 bc (ip + 10))
      in if lo = 0 \<and> skip < length bc \<and> op_at bc skip \<in> {Some OC_ACCEPT, Some OC_SUCCEED}
         then m\<lparr>sm_may_match_empty := True, sm_always_consumes := False\<rparr> else m)"

definition root_span :: "bytes \<Rightarrow> nat \<Rightarrow> search_meta \<Rightarrow> search_meta" where
  "root_span bc ip m =
     (let m = m\<lparr>sm_is_span_family := True, sm_always_consumes := True, sm_may_match_empty := False\<rparr>
      in case root_class bc ip of
           None \<Rightarrow> m
         | Some (cnt, ascii, bm) \<Rightarrow> m\<lparr>sm_ascii_class_only := ascii, sm_class_bitmap := bm\<rparr>)"

definition root_any :: "bytes \<Rightarrow> nat \<Rightarrow> search_meta \<Rightarrow> search_meta" where
  "root_any bc ip m =
     (case root_class bc ip of
        None \<Rightarrow> m
      | Some (cnt, ascii, bm) \<Rightarrow>
          (if cnt = 0 then m
           else (let m = m\<lparr>sm_candidate_bitmap := bm, sm_ascii_class_only := ascii\<rparr>
                 in if ascii
                    then m\<lparr>sm_has_candidate_bitmap := True, sm_is_single_char_alt := True,
                           sm_always_consumes := True, sm_may_match_empty := False\<rparr>
                    else m)))"

definition root_notany :: "bytes \<Rightarrow> nat \<Rightarrow> search_meta \<Rightarrow> search_meta" where
  "root_notany bc ip m =
     (case root_class bc ip of
        None \<Rightarrow> m
      | Some (cnt, ascii, bm) \<Rightarrow> if cnt = 0 then m else m\<lparr>sm_ascii_class_only := ascii\<rparr>)
     \<lparr>sm_always_consumes := True, sm_may_match_empty := False\<rparr>"

text \<open>A literal of one byte in front of ACCEPT.\<close>

definition single_lit :: "bytes \<Rightarrow> nat \<Rightarrow> u8 option" where
  "single_lit bc at =
     (if length bc < at + 10 then None
      else if op_at bc at \<noteq> Some OC_LIT then None
      else (let off2 = unat (search_read_u32 bc (at + 1)); len = search_read_u32 bc (at + 5)
            in if len \<noteq> 1 \<or> length bc \<le> off2 then None
               else if op_at bc (at + 10) = Some OC_ACCEPT then Some (bc ! off2) else None))"

definition candidate_add :: "u8 \<Rightarrow> u64 \<times> u64 \<Rightarrow> u64 \<times> u64" where
  "candidate_add b bm =
     (if b < 64 then (fst bm OR push_bit (unat b) 1, snd bm)
      else if b < 128 then (fst bm, snd bm OR push_bit (unat b - 64) 1) else bm)"

definition root_split :: "bytes \<Rightarrow> nat \<Rightarrow> search_meta \<Rightarrow> search_meta" where
  "root_split bc ip m =
     (case single_lit bc (unat (search_read_u32 bc (ip + 1))) of
        None \<Rightarrow> m
      | Some a \<Rightarrow>
          (case single_lit bc (unat (search_read_u32 bc (ip + 5))) of
             None \<Rightarrow> m
           | Some b \<Rightarrow>
               m\<lparr>sm_is_single_char_alt := True, sm_alt_bytes := [a, b], sm_has_candidate_bitmap := True,
                 sm_candidate_bitmap := candidate_add b (candidate_add a (0, 0)),
                 sm_has_first_byte := False, sm_always_consumes := True, sm_may_match_empty := False\<rparr>))"

definition derive_root :: "bytes \<Rightarrow> nat \<Rightarrow> search_meta \<Rightarrow> search_meta" where
  "derive_root bc ip m =
     (let m = (if op_at bc ip \<in> {Some OC_ACCEPT, Some OC_SUCCEED}
               then m\<lparr>sm_may_match_empty := True, sm_always_consumes := False\<rparr> else m)
      in case op_at bc ip of
           Some OC_LIT \<Rightarrow> if ip + 9 \<le> length bc then root_lit bc ip m else m
         | Some OC_BREAK \<Rightarrow> if ip + 3 \<le> length bc then root_break bc ip False m else m
         | Some OC_BREAKX \<Rightarrow> if ip + 3 \<le> length bc then root_break bc ip True m else m
         | Some OC_REPEAT_INIT \<Rightarrow> if ip + 14 \<le> length bc then root_repeat bc ip m else m
         | Some OC_SPAN \<Rightarrow> if ip + 3 \<le> length bc then root_span bc ip m else m
         | Some OC_ANY \<Rightarrow> if ip + 3 \<le> length bc then root_any bc ip m else m
         | Some OC_NOTANY \<Rightarrow> if ip + 3 \<le> length bc then root_notany bc ip m else m
         | Some OC_SPLIT \<Rightarrow> if ip + 9 \<le> length bc then root_split bc ip m else m
         | _ \<Rightarrow> m)"

section \<open>Alternations of literals\<close>

text \<open>
  The walks start at the beginning of the bytecode, whatever was skipped in front of the root, and see
  at most 2048 bytes. A walk that does not end or leaves its array ends the derivation.
\<close>

definition derive_flat :: "nat \<Rightarrow> bytes \<Rightarrow> nat \<Rightarrow> search_meta \<Rightarrow> search_meta walk" where
  "derive_flat n bc remain m =
     (case alt_literals_share_prefix n bc remain of
        Ended shares \<Rightarrow>
          (case alt_literals_shared_prefix n bc remain of
             Ended sprefix \<Rightarrow>
               Ended (let m = m\<lparr>sm_is_alt_literals_flat := \<not> shares\<rparr>
                      in if sprefix = [] then m
                         else m\<lparr>sm_literal_prefix := sprefix, sm_has_bmh_skip := True,
                                sm_bmh_skip_len := length sprefix\<rparr>)
           | Overflow \<Rightarrow> Overflow | Unended \<Rightarrow> Unended)
      | Overflow \<Rightarrow> Overflow | Unended \<Rightarrow> Unended)"

definition derive_alt :: "nat \<Rightarrow> bytes \<Rightarrow> nat \<Rightarrow> search_meta \<Rightarrow> search_meta walk" where
  "derive_alt n bc ip m =
     (if op_at bc ip = Some OC_SPLIT \<and> 10 \<le> length bc
      then let remain = min (length bc) 2048
           in case check_alt_literals n bc remain 0 0 of
                Ended (ok, lit_bytes) \<Rightarrow>
                  (if ok \<and> lit_bytes \<le> SNOBOL_AUTO_MAX_LIT_BYTES
                   then (case alt_has_empty_branch n bc remain [0] of
                           Ended e \<Rightarrow>
                             derive_flat n bc remain
                               (if e then m\<lparr>sm_is_alt_literals := True, sm_may_match_empty := True\<rparr>
                                else m\<lparr>sm_is_alt_literals := True\<rparr>)
                         | Overflow \<Rightarrow> Overflow | Unended \<Rightarrow> Unended)
                   else Ended m)
              | Overflow \<Rightarrow> Overflow | Unended \<Rightarrow> Unended
      else Ended m)"

section \<open>Flags and the structural tier\<close>

definition derive_elig :: "bytes \<Rightarrow> search_meta \<Rightarrow> search_meta" where
  "derive_elig bc m =
     (let m = m\<lparr>sm_automaton_eligible := check_automaton_eligible bc \<and>
                 \<not> ((sm_is_break_family m \<or> sm_is_span_family m) \<and> \<not> sm_ascii_class_only m),
                sm_is_literal_only := check_literal_only bc,
                sm_search_vm_eligible := check_search_vm_eligible bc,
                sm_simd_eligible := check_simd_eligible bc\<rparr>
      in case check_fusion_eligible bc (sm_has_capture m) of
           Some f \<Rightarrow> m\<lparr>sm_fusion_eligible := True, sm_fusion := Some f\<rparr>
         | None \<Rightarrow> m)"

definition derive_start :: "bytes \<Rightarrow> search_meta \<Rightarrow> search_meta" where
  "derive_start bc m =
     (let bm = compute_start_bitmap bc (replicate 32 0)
      in m\<lparr>sm_has_start_bitmap := True,
           sm_start_bitmap := (if sm_may_match_empty m then bitmap256_set_all bm else bm),
           sm_minlength := compute_minlength bc\<rparr>)"

definition flag_if :: "bool \<Rightarrow> nat \<Rightarrow> u32 \<Rightarrow> u32" where
  "flag_if b i w = (if b then w OR push_bit i 1 else w)"

definition derive_flags :: "search_meta \<Rightarrow> u32" where
  "derive_flags m =
     flag_if (sm_fusion_eligible m) 19 (flag_if (sm_simd_eligible m) 16
     (flag_if (sm_search_vm_eligible m) 15 (flag_if (sm_is_literal_only m) 14
     (flag_if (sm_has_bmh_skip m) 13 (flag_if (sm_is_alt_literals_flat m) 17
     (flag_if (sm_is_alt_literals m) 12 (flag_if (sm_automaton_eligible m) 11
     (flag_if (sm_has_start_bitmap m) 10 (flag_if (sm_ascii_class_only m) 9
     (flag_if (sm_is_breakx m) 8 (flag_if (sm_is_span_family m) 7
     (flag_if (sm_is_break_family m) 6 (flag_if (sm_is_single_char_alt m) 5
     (flag_if (sm_always_consumes m) 4 (flag_if (sm_may_match_empty m) 3
     (flag_if (sm_has_candidate_bitmap m) 2 (flag_if (sm_has_first_byte m) 1
     (flag_if (sm_has_literal_prefix m) 0 0))))))))))))))))))"

definition gate_captures :: "bytes \<Rightarrow> search_meta \<Rightarrow> search_meta" where
  "gate_captures bc m =
     (let reg_classes = snobol_bc_register_classes bc;
          has_capture = bc_has_capture bc \<or> reg_classes AND SNBL_REG_CAPTURE \<noteq> 0;
          m = m\<lparr>sm_has_capture := has_capture, sm_has_assign := reg_classes AND SNBL_REG_VARS \<noteq> 0,
                sm_has_counter := reg_classes AND SNBL_REG_COUNTERS \<noteq> 0\<rparr>
      in if has_capture
         then m\<lparr>sm_is_span_family := False, sm_is_break_family := False, sm_is_breakx := False,
                sm_has_literal_prefix := False, sm_has_first_byte := False, sm_has_candidate_bitmap := False,
                sm_is_single_char_alt := False, sm_is_alt_literals := False, sm_is_alt_literals_flat := False,
                sm_automaton_eligible := False, sm_simd_eligible := False, sm_fusion_eligible := False\<rparr>
         else m)"

definition derive_tier :: "search_meta \<Rightarrow> search_tier" where
  "derive_tier m =
     (if sm_is_break_family m \<and> sm_ascii_class_only m then TIER_BREAK_SCAN
      else if sm_is_span_family m \<and> sm_ascii_class_only m then TIER_SPAN_SCAN
      else if sm_is_literal_only m then TIER_LITERAL
      else if sm_has_literal_prefix m \<and> 0 < length (sm_literal_prefix m) then TIER_PREFIX
      else if sm_has_candidate_bitmap m \<and> sm_is_single_char_alt m then TIER_BITMAP
      else if sm_is_alt_literals m \<and> \<not> sm_is_alt_literals_flat m then TIER_ALT_LIT
      else if sm_is_alt_literals m then TIER_ALT_LIT
      else if sm_fusion_eligible m then TIER_FUSED_AUTOMATON
      else if sm_simd_eligible m then TIER_SIMD_NFA
      else if sm_search_vm_eligible m then TIER_SEARCH_VM
      else if sm_automaton_eligible m then TIER_AUTOMATON
      else TIER_GENERAL)"

section \<open>The required literal\<close>

record req_scan =
  rq_lit :: bytes
  rq_off :: nat
  rq_bypassed :: bool
  rq_split_first :: bool
  rq_branch_bypass :: bool
  rq_loop_end :: nat

text \<open>Does the branch at \<open>b_off\<close> jump behind the last literal after its first instruction?\<close>

definition branch_bypasses :: "bytes \<Rightarrow> nat \<Rightarrow> nat \<Rightarrow> bool" where
  "branch_bypasses bc last_off b_off =
     (if length bc \<le> b_off then False
      else (let b_skip = (if op_at bc b_off = Some OC_LIT \<and> b_off + 9 \<le> length bc
                          then 9 + unat (search_read_u32 bc (b_off + 5))
                          else if op_at bc b_off = Some OC_JMP then 5 else 1);
                jmp_off = b_off + b_skip
            in jmp_off + 5 \<le> length bc \<and> op_at bc jmp_off = Some OC_JMP \<and>
               last_off < unat (search_read_u32 bc (jmp_off + 1))))"

definition req_lit :: "bytes \<Rightarrow> nat \<Rightarrow> req_scan \<Rightarrow> req_scan" where
  "req_lit bc scan r =
     (let r = r\<lparr>rq_off := scan\<rparr>;
          lit_off = search_read_u32 bc (scan + 1); lit_len = search_read_u32 bc (scan + 5)
      in if lit_len \<noteq> 0 \<and> \<not> lit_outside (length bc) lit_off lit_len
         then r\<lparr>rq_lit := sub_list (unat lit_off) (min (unat lit_len) SNOBOL_SEARCH_MAX_PREFIX) bc,
                rq_bypassed := rq_split_first r \<or> rq_branch_bypass r \<or> (0 < rq_loop_end r \<and> scan < rq_loop_end r)\<rparr>
         else r)"

definition req_split :: "bytes \<Rightarrow> nat \<Rightarrow> req_scan \<Rightarrow> req_scan" where
  "req_split bc scan r =
     (if rq_lit r = [] then r\<lparr>rq_split_first := True, rq_bypassed := True\<rparr>
      else if branch_bypasses bc (rq_off r) (unat (search_read_u32 bc (scan + 1))) \<or>
              branch_bypasses bc (rq_off r) (unat (search_read_u32 bc (scan + 5)))
      then r\<lparr>rq_branch_bypass := True, rq_bypassed := True\<rparr> else r)"

definition req_repeat :: "bytes \<Rightarrow> nat \<Rightarrow> req_scan \<Rightarrow> req_scan" where
  "req_repeat bc scan r =
     (if scan + 14 \<le> length bc
      then let lo = search_read_u32 bc (scan + 2); skip = unat (search_read_u32 bc (scan + 10))
           in if lo = 0 \<and> skip < length bc \<and> scan < skip then r\<lparr>rq_loop_end := skip\<rparr> else r
      else r)"

definition req_arity :: "op_code option \<Rightarrow> nat" where
  "req_arity oc =
     (case oc of
        Some OC_SPLIT \<Rightarrow> 9 | Some OC_REPEAT_INIT \<Rightarrow> 14 | Some OC_REPEAT_STEP \<Rightarrow> 6
      | Some OC_JMP \<Rightarrow> 5 | Some OC_LEN \<Rightarrow> 5 | Some OC_POS \<Rightarrow> 5 | Some OC_RPOS \<Rightarrow> 5 | Some OC_TAB \<Rightarrow> 5 | Some OC_RTAB \<Rightarrow> 5
      | Some OC_ANCHOR \<Rightarrow> 2 | Some OC_CAP_START \<Rightarrow> 2 | Some OC_CAP_END \<Rightarrow> 2
      | Some OC_ANY \<Rightarrow> 3 | Some OC_NOTANY \<Rightarrow> 3 | Some OC_SPAN \<Rightarrow> 3 | Some OC_BREAK \<Rightarrow> 3 | Some OC_BREAKX \<Rightarrow> 3
      | Some OC_ASSIGN \<Rightarrow> 4 | _ \<Rightarrow> 1)"

lemma req_arity_pos: "0 < req_arity oc"
  by (auto simp: req_arity_def split: option.splits op_code.splits)

function req_loop :: "bytes \<Rightarrow> nat \<Rightarrow> req_scan \<Rightarrow> req_scan" where
  "req_loop bc scan r =
     (if scan < length bc
      then let oc = op_at bc scan
           in if oc \<in> {Some OC_ACCEPT, Some OC_SUCCEED, Some OC_ABORT} then r
              else if oc = Some OC_LIT \<and> scan + 9 \<le> length bc
              then req_loop bc (scan + 9 + unat (search_read_u32 bc (scan + 5))) (req_lit bc scan r)
              else req_loop bc (scan + req_arity oc)
                     (if oc = Some OC_SPLIT \<and> scan + 9 \<le> length bc then req_split bc scan r
                      else if oc = Some OC_REPEAT_INIT then req_repeat bc scan r else r)
      else r)"
  by pat_completeness auto
termination
  by (relation "measure (\<lambda>(bc, scan, r). length bc - scan)")
    (auto simp: Let_def intro: diff_less_mono2 less_add_same_cancel1 [THEN iffD2] req_arity_pos)

declare req_loop.simps [simp del]

definition derive_required :: "bytes \<Rightarrow> search_meta \<Rightarrow> search_meta" where
  "derive_required bc m =
     (let r = req_loop bc 0 \<lparr>rq_lit = [], rq_off = 0, rq_bypassed = False, rq_split_first = False,
                             rq_branch_bypass = False, rq_loop_end = 0\<rparr>
      in if \<not> rq_bypassed r \<and> \<not> sm_is_alt_literals m \<and> rq_lit r \<noteq> []
         then m\<lparr>sm_has_required_lit := True, sm_flags := sm_flags m OR push_bit 18 1, sm_required_lit := rq_lit r\<rparr>
         else m)"

section \<open>The skip table\<close>

text \<open>\<open>skip[b]\<close> for the bytes of the prefix but the last, by the distance of the latest one to the end.\<close>

definition bmh_table :: "nat \<Rightarrow> bytes \<Rightarrow> nat list" where
  "bmh_table skip_len prefix =
     fold (\<lambda>i t. t[unat (prefix ! i) := length prefix - 1 - i]) [0..<length prefix - 1] (replicate 256 skip_len)"

definition derive_bmh :: "search_meta \<Rightarrow> search_meta" where
  "derive_bmh m =
     (if sm_has_bmh_skip m \<and> 0 < sm_bmh_skip_len m
      then m\<lparr>sm_bmh_skip := Some (bmh_table (sm_bmh_skip_len m) (sm_literal_prefix m))\<rparr> else m)"

section \<open>Deriving the metadata\<close>

definition snobol_search_derive_meta :: "nat \<Rightarrow> bytes \<Rightarrow> search_meta walk" where
  "snobol_search_derive_meta n bc =
     (if length bc < 2 then Ended meta_zero
      else (let at = root_ip bc 0;
                m = (if length bc \<le> at then meta_zero\<lparr>sm_may_match_empty := True\<rparr> else meta_zero);
                ip = (if length bc \<le> at then 0 else at)
            in case derive_alt n bc ip (derive_root bc ip m) of
                 Ended m \<Rightarrow>
                   Ended (let m = derive_start bc (derive_elig bc m);
                              m = gate_captures bc (m\<lparr>sm_flags := derive_flags m\<rparr>)
                          in derive_bmh (derive_required bc (m\<lparr>sm_tier := derive_tier m\<rparr>)))
               | Overflow \<Rightarrow> Overflow | Unended \<Rightarrow> Unended))"

section \<open>The cost model\<close>

definition k_tier_cost :: "(search_tier \<times> int \<times> nat) list" where
  "k_tier_cost =
     [(TIER_BREAK_SCAN, 20, 8), (TIER_SPAN_SCAN, 20, 8), (TIER_LITERAL, 10, 16), (TIER_PREFIX, 30, 32),
      (TIER_BITMAP, 25, 12), (TIER_ALT_LIT, 12, 20), (TIER_SEARCH_VM, 50, 10), (TIER_GENERAL, 100, 5),
      (TIER_SIMD_NFA, 15, 16), (TIER_FUSED_AUTOMATON, 20, 8)]"

definition tier_eligible :: "search_meta \<Rightarrow> bool \<Rightarrow> search_tier \<Rightarrow> bool" where
  "tier_eligible m anchored t =
     (case t of
        TIER_BREAK_SCAN \<Rightarrow> \<not> anchored \<and> sm_is_break_family m \<and> sm_ascii_class_only m
      | TIER_SPAN_SCAN \<Rightarrow> \<not> anchored \<and> sm_is_span_family m \<and> sm_ascii_class_only m
      | TIER_LITERAL \<Rightarrow> sm_is_literal_only m
      | TIER_PREFIX \<Rightarrow> \<not> anchored \<and> sm_has_literal_prefix m \<and> 0 < length (sm_literal_prefix m)
      | TIER_BITMAP \<Rightarrow> sm_has_candidate_bitmap m \<and> sm_is_single_char_alt m
      | TIER_ALT_LIT \<Rightarrow> sm_is_alt_literals m
      | TIER_SEARCH_VM \<Rightarrow> sm_search_vm_eligible m \<and> \<not> sm_is_alt_literals m
      | TIER_SIMD_NFA \<Rightarrow> sm_simd_eligible m \<and> sm_ascii_class_only m
      | TIER_FUSED_AUTOMATON \<Rightarrow> sm_fusion_eligible m \<and> \<not> sm_has_literal_prefix m
      | TIER_GENERAL \<Rightarrow> True
      | TIER_AUTOMATON \<Rightarrow> False)"

text \<open>The costs are 32 bit integers; the quotient of the length is cut to one.\<close>

definition to_int32 :: "int \<Rightarrow> int" where
  "to_int32 i = (i + 2 ^ 31) mod 2 ^ 32 - 2 ^ 31"

definition tier_cost :: "nat \<Rightarrow> search_tier \<times> int \<times> nat \<Rightarrow> int" where
  "tier_cost subject_len c = to_int32 (fst (snd c) + to_int32 (int (subject_len div snd (snd c))))"

fun cost_loop :: "search_meta \<Rightarrow> nat \<Rightarrow> bool \<Rightarrow> (search_tier \<times> int \<times> nat) list \<Rightarrow> search_tier \<times> int \<Rightarrow> search_tier \<times> int" where
  "cost_loop m subject_len anchored [] best = best"
| "cost_loop m subject_len anchored (c # cs) best =
     cost_loop m subject_len anchored cs
       (if tier_eligible m anchored (fst c) \<and> tier_cost subject_len c < snd best
        then (fst c, tier_cost subject_len c) else best)"

definition select_tier_by_cost :: "search_meta \<Rightarrow> nat \<Rightarrow> bool \<Rightarrow> bool \<Rightarrow> search_tier" where
  "select_tier_by_cost m subject_len dfa_available anchored =
     fst (cost_loop m subject_len anchored k_tier_cost (TIER_GENERAL, 2147483647))"

text \<open>The tier reported for a search, which the comment says mirrors the dispatch.\<close>

definition snobol_search_executed_tier :: "search_meta option \<Rightarrow> bool \<Rightarrow> nat \<Rightarrow> bool \<Rightarrow> search_tier" where
  "snobol_search_executed_tier meta dfa_available subject_len anchored =
     (case meta of
        None \<Rightarrow> TIER_GENERAL
      | Some m \<Rightarrow>
          (if dfa_available \<and> sm_automaton_eligible m \<and> \<not> sm_is_alt_literals_flat m \<and> sm_has_bmh_skip m
           then TIER_AUTOMATON else select_tier_by_cost m subject_len dfa_available anchored))"

end
