(* ===== verification/Search_Trie.thy ===== *)
theory Search_Trie
  imports Search_Derive
begin

text \<open>
  The trie of an alternation of literals, \<^verbatim>\<open>core/src/search_tiers.c\<close>: nodes and edges in two pools
  of fixed size, the edges of a node in a list through the pool. The order of a terminal is the
  number of the branch, and the lowest order wins.
\<close>

section \<open>The pools\<close>

definition SNOBOL_AUTO_MAX_NODES :: nat where "SNOBOL_AUTO_MAX_NODES = 256"

definition SNOBOL_AUTO_MAX_EDGES :: nat where "SNOBOL_AUTO_MAX_EDGES = 1024"

record auto_edge =
  ed_byte :: u8
  ed_next :: nat
  ed_sibling :: "nat option"

text \<open>The end of a node is the order of the literal that ends there.\<close>

record auto_node =
  no_first_edge :: "nat option"
  no_end :: "nat option"

record auto_trie =
  at_nodes :: "auto_node list"
  at_edges :: "auto_edge list"

definition fresh_node :: auto_node where
  "fresh_node = \<lparr>no_first_edge = None, no_end = None\<rparr>"

definition trie_empty :: auto_trie where
  "trie_empty = \<lparr>at_nodes = [fresh_node], at_edges = []\<rparr>"

section \<open>Inserting\<close>

text \<open>
  The search through the list of edges from \<open>e\<close> on: the edge with the byte, or the last edge that was
  passed. The list has at most as many edges as the pool.
\<close>

fun find_edge :: "nat \<Rightarrow> auto_edge list \<Rightarrow> u8 \<Rightarrow> nat option \<Rightarrow> nat option \<Rightarrow> nat option \<times> nat option" where
  "find_edge n edges b None prev = (None, prev)"
| "find_edge 0 edges b (Some e) prev = (None, prev)"
| "find_edge (Suc n) edges b (Some e) prev =
     (if ed_byte (edges ! e) = b then (Some e, prev)
      else find_edge n edges b (ed_sibling (edges ! e)) (Some e))"

definition edge_of :: "auto_trie \<Rightarrow> nat \<Rightarrow> u8 \<Rightarrow> nat option \<times> nat option" where
  "edge_of t n b = find_edge (length (at_edges t)) (at_edges t) b (no_first_edge (at_nodes t ! n)) None"

text \<open>A new edge and node at the end of the list of node \<open>n\<close>.\<close>

definition add_child :: "auto_trie \<Rightarrow> nat \<Rightarrow> u8 \<Rightarrow> nat option \<Rightarrow> auto_trie" where
  "add_child t n b prev =
     (let ne = length (at_edges t); nn = length (at_nodes t);
          edges = at_edges t @ [\<lparr>ed_byte = b, ed_next = nn, ed_sibling = None\<rparr>];
          nodes = at_nodes t @ [fresh_node]
      in case prev of
           None \<Rightarrow> \<lparr>at_nodes = nodes[n := (nodes ! n)\<lparr>no_first_edge := Some ne\<rparr>], at_edges = edges\<rparr>
         | Some p \<Rightarrow> \<lparr>at_nodes = nodes, at_edges = edges[p := (edges ! p)\<lparr>ed_sibling := Some ne\<rparr>]\<rparr>)"

text \<open>
  \<open>None\<close> is the result false: a pool is exhausted. The trie that is left then is not used.
\<close>

fun trie_path :: "auto_trie \<Rightarrow> nat \<Rightarrow> bytes \<Rightarrow> (auto_trie \<times> nat) option" where
  "trie_path t n [] = Some (t, n)"
| "trie_path t n (b # s) =
     (case edge_of t n b of
        (Some e, prev) \<Rightarrow> trie_path t (ed_next (at_edges t ! e)) s
      | (None, prev) \<Rightarrow>
          (if SNOBOL_AUTO_MAX_EDGES \<le> length (at_edges t) \<or> SNOBOL_AUTO_MAX_NODES \<le> length (at_nodes t)
           then None
           else trie_path (add_child t n b prev) (length (at_nodes t)) s))"

definition mark_end :: "nat \<Rightarrow> auto_node \<Rightarrow> auto_node" where
  "mark_end order nd =
     (case no_end nd of
        None \<Rightarrow> nd\<lparr>no_end := Some order\<rparr>
      | Some k \<Rightarrow> if order < k then nd\<lparr>no_end := Some order\<rparr> else nd)"

definition trie_insert :: "auto_trie \<Rightarrow> bytes \<Rightarrow> nat \<Rightarrow> auto_trie option" where
  "trie_insert t s order =
     (case trie_path t 0 s of
        None \<Rightarrow> None
      | Some (t', n) \<Rightarrow> Some (t'\<lparr>at_nodes := (at_nodes t')[n := mark_end order (at_nodes t' ! n)]\<rparr>))"

section \<open>Matching\<close>

text \<open>The best terminal so far is its order and its length; the limit 65535 stands for none.\<close>

fun trie_match_loop :: "auto_trie \<Rightarrow> nat \<Rightarrow> bytes \<Rightarrow> nat \<Rightarrow> nat \<times> nat \<Rightarrow> nat \<times> nat" where
  "trie_match_loop t n [] len best = best"
| "trie_match_loop t n (b # s) len best =
     (case fst (edge_of t n b) of
        None \<Rightarrow> best
      | Some e \<Rightarrow>
          (let n' = ed_next (at_edges t ! e)
           in trie_match_loop t n' s (len + 1)
                (case no_end (at_nodes t ! n') of
                   Some k \<Rightarrow> if k < fst best then (k, len + 1) else best
                 | None \<Rightarrow> best)))"

definition trie_match :: "auto_trie \<Rightarrow> bytes \<Rightarrow> nat \<Rightarrow> nat option" where
  "trie_match t subject offset =
     (let best = (case no_end (at_nodes t ! 0) of Some k \<Rightarrow> (k, 0) | None \<Rightarrow> (65535, 0));
          r = trie_match_loop t 0 (drop offset subject) 0 best
      in if fst r \<noteq> 65535 then Some (snd r) else None)"

section \<open>Shape and construction\<close>

fun edge_count_from :: "nat \<Rightarrow> auto_edge list \<Rightarrow> nat option \<Rightarrow> nat" where
  "edge_count_from n edges None = 0"
| "edge_count_from 0 edges (Some e) = 0"
| "edge_count_from (Suc n) edges (Some e) = Suc (edge_count_from n edges (ed_sibling (edges ! e)))"

definition trie_is_flat :: "auto_trie \<Rightarrow> bool" where
  "trie_is_flat t \<longleftrightarrow>
     (\<forall>nd \<in> set (tl (at_nodes t)). edge_count_from (length (at_edges t)) (at_edges t) (no_first_edge nd) \<le> 1)"

text \<open>
  Building the trie from the tree of branches. The search builds it in the same way on a cache miss,
  and tells an exhausted pool from malformed code.
\<close>

datatype built = Built auto_trie | Pool_exhausted | Malformed

fun build_loop :: "nat \<Rightarrow> bytes \<Rightarrow> nat list \<Rightarrow> nat \<Rightarrow> auto_trie \<Rightarrow> built walk" where
  "build_loop n bc [] order t = Ended (Built t)"
| "build_loop 0 bc (ip # stack) order t = Unended"
| "build_loop (Suc n) bc (ip # stack) order t =
     (if length bc < ip + 2 then Ended Malformed
      else case op_at bc ip of
             Some OC_LIT \<Rightarrow>
               (if length bc < ip + 10 then Ended Malformed
                else (let off = search_read_u32 bc (ip + 1); len = search_read_u32 bc (ip + 5)
                      in if lit_outside (length bc) off len then Ended Malformed
                         else case trie_insert t (sub_list (unat off) (unat len) bc) order of
                                None \<Rightarrow> Ended Pool_exhausted
                              | Some t' \<Rightarrow> build_loop n bc stack (order + 1) t'))
           | Some OC_SPLIT \<Rightarrow>
               (if length bc < ip + 9 then Ended Malformed
                else (let a = unat (search_read_u32 bc (ip + 1)); b = unat (search_read_u32 bc (ip + 5))
                      in if length bc \<le> a \<or> length bc \<le> b \<or> 64 < length stack + 2 then Ended Malformed
                         else build_loop n bc (a # b # stack) order t))
           | _ \<Rightarrow> Ended Malformed)"

definition build_trie :: "nat \<Rightarrow> bytes \<Rightarrow> built walk" where
  "build_trie n bc = build_loop n bc [0] 0 trie_empty"

definition snobol_build_alt_trie :: "nat \<Rightarrow> bytes \<Rightarrow> auto_trie option walk" where
  "snobol_build_alt_trie n bc =
     (if length bc < 2 then Ended None
      else case build_trie n bc of
             Ended (Built t) \<Rightarrow> Ended (Some t)
           | Ended _ \<Rightarrow> Ended None
           | Overflow \<Rightarrow> Overflow
           | Unended \<Rightarrow> Unended)"

end
