(* ===== verification/Search_Tiers.thy ===== *)
theory Search_Tiers
  imports Search_Trie
begin

text \<open>
  The search strategies of \<^verbatim>\<open>core/src/search_tiers.c\<close> that scan the subject and run the machine, or
  nothing at all, at the candidates. The run of the machine is an argument, so that it stands for
  \<open>vm_exec\<close> with any supply of steps. The counters of the diagnostics are left out.
\<close>

section \<open>Results\<close>

record search_result =
  sr_success :: bool
  sr_match_start :: nat
  sr_match_end :: nat
  sr_prefilter_skip :: bool
  sr_aborted :: bool

text \<open>What a strategy returns: its value, the result record and the machine; or a run went wrong.\<close>

datatype searched = Searched bool search_result vm | Search_fault | Search_unfinished

definition found_at :: "nat \<Rightarrow> nat \<Rightarrow> search_result \<Rightarrow> search_result" where
  "found_at a b r = r\<lparr>sr_success := True, sr_match_start := a, sr_match_end := b\<rparr>"

definition not_found :: "search_result \<Rightarrow> search_result" where
  "not_found r = r\<lparr>sr_success := False\<rparr>"

definition search_reset_vm :: "bytes \<Rightarrow> nat \<Rightarrow> vm \<Rightarrow> vm" where
  "search_reset_vm subject offset v =
     v\<lparr>vm_s := drop offset subject, vm_ip := 0, vm_pos := 0, var_count := 0, max_cap_used := 0,
       max_counter_used := 0, choices_top := 0\<rparr>"

text \<open>
  The machine tried at an offset: found there, or not with the machine that is left.
\<close>

definition try_at :: "(vm \<Rightarrow> outcome) \<Rightarrow> bytes \<Rightarrow> nat \<Rightarrow> search_result \<Rightarrow> vm \<Rightarrow> (vm \<Rightarrow> searched) \<Rightarrow> searched" where
  "try_at run subject offset r v otherwise =
     (case run (search_reset_vm subject offset v) of
        Done True w \<Rightarrow> Searched True (found_at offset (offset + vm_pos w) r) w
      | Done False w \<Rightarrow> otherwise w
      | Go w \<Rightarrow> Search_fault
      | Fault \<Rightarrow> Search_fault
      | Unfinished \<Rightarrow> Search_unfinished)"

section \<open>Byte searches of the C library\<close>

function memchr_at :: "bytes \<Rightarrow> u8 \<Rightarrow> nat \<Rightarrow> nat option" where
  "memchr_at s b i = (if i < length s then if s ! i = b then Some i else memchr_at s b (i + 1) else None)"
  by pat_completeness auto
termination by (relation "measure (\<lambda>(s, b, i). length s - i)") auto

declare memchr_at.simps [simp del]

lemma memchr_at_Some: "memchr_at s b i = Some p \<Longrightarrow> i \<le> p \<and> p < length s"
proof (induction s b i rule: memchr_at.induct)
  case (1 s b i)
  then show ?case by (subst (asm) (2) memchr_at.simps) (auto split: if_splits)
qed

function memmem_at :: "bytes \<Rightarrow> bytes \<Rightarrow> nat \<Rightarrow> nat option" where
  "memmem_at s needle i =
     (if i + length needle \<le> length s
      then if sub_list i (length needle) s = needle then Some i else memmem_at s needle (i + 1)
      else None)"
  by pat_completeness auto
termination by (relation "measure (\<lambda>(s, needle, i). Suc (length s) - i)") auto

declare memmem_at.simps [simp del]

lemma memmem_at_Some: "memmem_at s needle i = Some p \<Longrightarrow> i \<le> p \<and> p + length needle \<le> length s"
proof (induction s needle i rule: memmem_at.induct)
  case (1 s needle i)
  then show ?case by (subst (asm) (2) memmem_at.simps) (auto split: if_splits)
qed

section \<open>BREAK and SPAN\<close>

text \<open>The scan to the first delimiter; bytes above 127 stop it too.\<close>

function delimiter_from :: "u64 \<times> u64 \<Rightarrow> bytes \<Rightarrow> nat \<Rightarrow> nat" where
  "delimiter_from bm s i =
     (if i < length s \<and> \<not> (127 < s ! i \<or> bitmap_test bm (s ! i)) then delimiter_from bm s (i + 1) else i)"
  by pat_completeness auto
termination by (relation "measure (\<lambda>(bm, s, i). length s - i)") auto

declare delimiter_from.simps [simp del]

lemma delimiter_from_ge: "i \<le> delimiter_from bm s i"
proof (induction bm s i rule: delimiter_from.induct)
  case (1 bm s i)
  then show ?case by (subst delimiter_from.simps) auto
qed

function search_break_accelerated ::
    "(vm \<Rightarrow> outcome) \<Rightarrow> bytes \<Rightarrow> search_meta \<Rightarrow> bool \<Rightarrow> nat \<Rightarrow> search_result \<Rightarrow> vm \<Rightarrow> searched" where
  "search_break_accelerated run subject meta anchored offset r v =
     (if length subject < offset then Searched False (not_found r) v
      else let scan = delimiter_from (sm_class_bitmap meta) subject offset
           in try_at run subject offset r v
                (\<lambda>w. if length subject \<le> scan \<or> anchored then Searched False (not_found r) w
                     else search_break_accelerated run subject meta anchored (scan + 1) r w))"
  by pat_completeness auto
termination
  by (relation "measure (\<lambda>(run, subject, meta, anchored, offset, r, v). Suc (length subject) - offset)")
    (auto simp: not_less Suc_diff_le intro!: le_imp_less_Suc diff_le_mono2 delimiter_from_ge)

declare search_break_accelerated.simps [simp del]

function search_span_accelerated ::
    "(vm \<Rightarrow> outcome) \<Rightarrow> bytes \<Rightarrow> search_meta \<Rightarrow> bool \<Rightarrow> nat \<Rightarrow> search_result \<Rightarrow> vm \<Rightarrow> searched" where
  "search_span_accelerated run subject meta anchored offset r v =
     (if length subject \<le> offset then Searched False (not_found r) v
      else if 127 < subject ! offset \<or> \<not> bitmap_test (sm_class_bitmap meta) (subject ! offset)
      then search_span_accelerated run subject meta anchored (offset + 1) r v
      else try_at run subject offset r v
             (\<lambda>w. if anchored then Searched False (not_found r) w
                  else search_span_accelerated run subject meta anchored (offset + 1) r w))"
  by pat_completeness auto
termination
  by (relation "measure (\<lambda>(run, subject, meta, anchored, offset, r, v). length subject - offset)") auto

declare search_span_accelerated.simps [simp del]

section \<open>Literals\<close>

text \<open>
  The next candidate for a literal prefix: one byte by memchr, two bytes by memchr for the first and a
  look at the second, more by memmem.
\<close>

function pair_from :: "bytes \<Rightarrow> u8 \<Rightarrow> u8 \<Rightarrow> nat \<Rightarrow> nat option" where
  "pair_from s a b i =
     (case memchr_at s a i of
        None \<Rightarrow> None
      | Some p \<Rightarrow>
          (if p + 1 < length s \<and> s ! (p + 1) = b then Some p
           else if length s \<le> p + 1 then Some p
           else pair_from s a b (p + 1)))"
  by pat_completeness auto
termination
  by (relation "measure (\<lambda>(s, a, b, i). length s - i)") (auto dest!: memchr_at_Some)

declare pair_from.simps [simp del]

lemma pair_from_Some: "pair_from s a b i = Some p \<Longrightarrow> i \<le> p \<and> p < length s"
proof (induction s a b i rule: pair_from.induct)
  case (1 s a b i)
  then show ?case
    by (subst (asm) (2) pair_from.simps) (fastforce split: option.splits if_splits dest: memchr_at_Some)
qed

definition prefix_candidate :: "bytes \<Rightarrow> bytes \<Rightarrow> nat \<Rightarrow> nat option" where
  "prefix_candidate prefix subject offset =
     (if length prefix = 1 then memchr_at subject (prefix ! 0) offset
      else if length prefix = 2 then pair_from subject (prefix ! 0) (prefix ! 1) offset
      else if 2 < length prefix then memmem_at subject prefix offset
      else Some offset)"

lemma prefix_candidate_Some: "prefix_candidate prefix subject offset = Some cand \<Longrightarrow> offset \<le> cand"
  by (auto simp: prefix_candidate_def split: if_splits dest: memchr_at_Some pair_from_Some memmem_at_Some)

function search_literal_accelerated ::
    "(vm \<Rightarrow> outcome) \<Rightarrow> bytes \<Rightarrow> search_meta \<Rightarrow> bool \<Rightarrow> nat \<Rightarrow> search_result \<Rightarrow> vm \<Rightarrow> searched" where
  "search_literal_accelerated run subject meta anchored offset r v =
     (if length subject < offset then Searched False (not_found r) v
      else case prefix_candidate (sm_literal_prefix meta) subject offset of
             None \<Rightarrow> Searched False (not_found r) v
           | Some cand \<Rightarrow>
               try_at run subject cand r v
                 (\<lambda>w. if anchored then Searched False (not_found r) w
                      else search_literal_accelerated run subject meta anchored (cand + 1) r w))"
  by pat_completeness auto
termination
  by (relation "measure (\<lambda>(run, subject, meta, anchored, offset, r, v). Suc (length subject) - offset)")
    (auto dest!: prefix_candidate_Some)

declare search_literal_accelerated.simps [simp del]

text \<open>Past the instructions in front of the literal; the operand of an anchor is not skipped.\<close>

function literal_at :: "bytes \<Rightarrow> nat \<Rightarrow> nat" where
  "literal_at bc ip =
     (if ip < length bc
      then if op_at bc ip \<in> {Some OC_NOP, Some OC_FENCE, Some OC_ANCHOR} then literal_at bc (ip + 1)
           else if op_at bc ip \<in> {Some OC_POS, Some OC_RPOS} \<and> ip + 5 \<le> length bc then literal_at bc (ip + 5)
           else ip
      else ip)"
  by pat_completeness auto
termination by (relation "measure (\<lambda>(bc, ip). length bc - ip)") auto

declare literal_at.simps [simp del]

definition search_literal_only ::
    "bytes \<Rightarrow> bool \<Rightarrow> nat \<Rightarrow> search_result \<Rightarrow> vm \<Rightarrow> searched" where
  "search_literal_only subject anchored offset r v =
     (let bc = vm_bc v; ip = literal_at bc 0; nomatch = Searched False (not_found r) v
      in if length bc < ip + 9 \<or> op_at bc ip \<noteq> Some OC_LIT then nomatch
         else (let lit_off = search_read_u32 bc (ip + 1); lit_len = search_read_u32 bc (ip + 5)
               in if lit_outside (length bc) lit_off lit_len \<or> lit_len = 0 then nomatch
                  else (let lit = sub_list (unat lit_off) (unat lit_len) bc; n = unat lit_len
                        in if length subject < n then nomatch
                           else if anchored
                           then (if n \<le> length subject - offset \<and> sub_list offset n subject = lit
                                 then Searched True (found_at offset (offset + n) r) v else nomatch)
                           else if offset + n \<le> length subject
                           then (case memmem_at subject lit offset of
                                   Some cand \<Rightarrow> Searched True (found_at cand (cand + n) r) v
                                 | None \<Rightarrow> nomatch)
                           else nomatch)))"

section \<open>Candidate bitmaps\<close>

function search_bitmap_accelerated ::
    "(vm \<Rightarrow> outcome) \<Rightarrow> bytes \<Rightarrow> search_meta \<Rightarrow> bool \<Rightarrow> nat \<Rightarrow> search_result \<Rightarrow> vm \<Rightarrow> searched" where
  "search_bitmap_accelerated run subject meta anchored offset r v =
     (if length subject \<le> offset then Searched False (not_found r) v
      else if 127 < subject ! offset \<or> \<not> bitmap_test (sm_candidate_bitmap meta) (subject ! offset)
      then search_bitmap_accelerated run subject meta anchored (offset + 1) r v
      else try_at run subject offset r v
             (\<lambda>w. if anchored then Searched False (not_found r) w
                  else search_bitmap_accelerated run subject meta anchored (offset + 1) r w))"
  by pat_completeness auto
termination
  by (relation "measure (\<lambda>(run, subject, meta, anchored, offset, r, v). length subject - offset)") auto

declare search_bitmap_accelerated.simps [simp del]

section \<open>The general strategy\<close>

text \<open>How far the search moves on behind a candidate that failed.\<close>

definition bmh_advance :: "search_meta \<Rightarrow> bytes \<Rightarrow> nat \<Rightarrow> nat" where
  "bmh_advance meta subject offset =
     (case sm_bmh_skip meta of
        Some skip \<Rightarrow>
          (if sm_has_bmh_skip meta \<and> offset + sm_bmh_skip_len meta \<le> length subject
           then max 1 (skip ! unat (subject ! (offset + sm_bmh_skip_len meta - 1)))
           else 1)
      | None \<Rightarrow> 1)"

lemma bmh_advance_pos: "0 < bmh_advance meta subject offset"
  by (auto simp: bmh_advance_def split: option.splits)

function general_loop ::
    "(vm \<Rightarrow> outcome) \<Rightarrow> bytes \<Rightarrow> search_meta \<Rightarrow> bool \<Rightarrow> nat \<Rightarrow> search_result \<Rightarrow> vm \<Rightarrow> searched" where
  "general_loop run subject meta anchored offset r v =
     (if length subject < offset then Searched False (not_found r) v
      else if sm_has_start_bitmap meta \<and> offset < length subject \<and>
              \<not> bitmap256_test (sm_start_bitmap meta) (subject ! offset)
      then general_loop run subject meta anchored (offset + 1) r v
      else if 0 < sm_minlength meta \<and> length subject < offset + unat (sm_minlength meta)
      then Searched False (not_found r) v
      else try_at run subject offset r v
             (\<lambda>w. if abort_flag w then Searched False ((not_found r)\<lparr>sr_aborted := True\<rparr>) w
                  else if length subject \<le> offset \<or> anchored then Searched False (not_found r) w
                  else general_loop run subject meta anchored
                         (offset + bmh_advance meta subject offset) r w))"
  by pat_completeness auto
termination
  by (relation "measure (\<lambda>(run, subject, meta, anchored, offset, r, v). Suc (length subject) - offset)")
    (auto intro!: diff_less_mono2 simp: bmh_advance_pos)

declare general_loop.simps [simp del]

definition tier_general_fallback ::
    "(vm \<Rightarrow> outcome) \<Rightarrow> bytes \<Rightarrow> search_meta \<Rightarrow> bool \<Rightarrow> nat \<Rightarrow> search_result \<Rightarrow> vm \<Rightarrow> searched" where
  "tier_general_fallback run subject meta anchored offset r v =
     general_loop run subject meta anchored offset (r\<lparr>sr_aborted := False\<rparr>) v"

section \<open>Alternations of literals\<close>

text \<open>
  The scan with the trie. At the end of the subject, which it reaches when the shortest literal is
  empty, the code reads the byte behind the subject for the bitmap: \<open>after\<close>.
\<close>

function alt_scan ::
    "auto_trie \<Rightarrow> u8 \<Rightarrow> bytes \<Rightarrow> search_meta \<Rightarrow> bool \<Rightarrow> nat \<Rightarrow> nat \<Rightarrow> search_result \<Rightarrow> bool \<times> search_result" where
  "alt_scan trie after subject meta anchored start offset r =
     (if length subject < offset + unat (sm_minlength meta) then (False, r)
      else if anchored \<and> offset \<noteq> start then (False, r)
      else if sm_has_start_bitmap meta \<and>
              \<not> bitmap256_test (sm_start_bitmap meta) ((subject @ [after]) ! offset)
      then alt_scan trie after subject meta anchored start (offset + 1) r
      else case trie_match trie subject offset of
             Some n \<Rightarrow> (True, found_at offset (offset + n) r)
           | None \<Rightarrow> alt_scan trie after subject meta anchored start
                      (offset + bmh_advance meta subject offset) r)"
  by pat_completeness auto
termination
  by (relation "measure (\<lambda>(trie, after, subject, meta, anchored, start, offset, r). Suc (length subject) - offset)")
    (auto intro!: diff_less_mono2 simp: bmh_advance_pos)

declare alt_scan.simps [simp del]

text \<open>
  The trie is the one that is cached on the machine or its pattern, or built from the bytecode, and
  kept in the cache of the pattern when it is not flat.
\<close>

definition search_alt_literals_try ::
    "nat \<Rightarrow> (vm \<Rightarrow> outcome) \<Rightarrow> auto_trie option \<Rightarrow> u8 \<Rightarrow> bytes \<Rightarrow> search_meta \<Rightarrow> bool \<Rightarrow> nat \<Rightarrow> search_result \<Rightarrow> vm \<Rightarrow>
      searched \<times> auto_trie option" where
  "search_alt_literals_try n run cache after subject meta anchored start r v =
     (let scan = (\<lambda>t. case alt_scan t after subject meta anchored start start r of (b, r') \<Rightarrow> Searched b r' v)
      in case cache of
           Some t \<Rightarrow> (scan t, cache)
         | None \<Rightarrow>
             (case build_trie n (vm_bc v) of
                Ended (Built t) \<Rightarrow> (scan t, if trie_is_flat t then None else Some t)
              | Ended Pool_exhausted \<Rightarrow> (tier_general_fallback run subject meta anchored start r v, None)
              | Ended Malformed \<Rightarrow> (Searched False r v, None)
              | Overflow \<Rightarrow> (Search_fault, None)
              | Unended \<Rightarrow> (Search_unfinished, None)))"

end
