(* ===== verification/Search_Vm.thy ===== *)
theory Search_Vm
  imports Search_Tiers
begin

text \<open>
  The lightweight machine of the search, \<^verbatim>\<open>search_vm_exec\<close> of \<^verbatim>\<open>core/src/search_tiers.c\<close>, and the
  strategy that runs it at every offset. It has the instructions without side effects; a choice keeps
  the captures and the variables, and no loop counters.
\<close>

section \<open>State\<close>

record search_choice =
  sc_ip :: nat
  sc_pos :: nat
  sc_cap_start :: "nat list"
  sc_cap_end :: "nat list"
  sc_max_cap_used :: nat
  sc_var_start :: "nat list"
  sc_var_end :: "nat list"
  sc_var_count :: nat

record search_vm =
  sv_bc :: bytes
  sv_s :: bytes
  sv_ip :: nat
  sv_pos :: nat
  sv_range_meta :: "range_meta list option"
  sv_choices :: "search_choice list"
  sv_counters :: "u32 list"
  sv_loop_min :: "u32 list"
  sv_loop_max :: "u32 list"
  sv_loop_last_pos :: "nat list"
  sv_cap_start :: "nat list"
  sv_cap_end :: "nat list"
  sv_max_cap_used :: nat
  sv_var_start :: "nat list"
  sv_var_end :: "nat list"
  sv_var_count :: nat
  sv_max_counter_used :: nat

text \<open>
  A step goes on, ends the run with a result and whether it was aborted, or leaves the bytecode or
  the table of instructions.
\<close>

datatype sv_outcome = Sv_go search_vm | Sv_done bool bool search_vm | Sv_fault

section \<open>Choices\<close>

definition search_vm_push_choice :: "nat \<Rightarrow> nat \<Rightarrow> search_vm \<Rightarrow> search_vm" where
  "search_vm_push_choice ip pos v =
     v\<lparr>sv_choices := \<lparr>sc_ip = ip, sc_pos = pos, sc_cap_start = sv_cap_start v, sc_cap_end = sv_cap_end v,
        sc_max_cap_used = sv_max_cap_used v, sc_var_start = sv_var_start v, sc_var_end = sv_var_end v,
        sc_var_count = sv_var_count v\<rparr> # sv_choices v\<rparr>"

definition search_vm_pop_choice :: "search_vm \<Rightarrow> search_vm option" where
  "search_vm_pop_choice v =
     (case sv_choices v of
        [] \<Rightarrow> None
      | c # cs \<Rightarrow>
          Some (v\<lparr>sv_choices := cs, sv_ip := sc_ip c, sv_pos := sc_pos c, sv_cap_start := sc_cap_start c,
                  sv_cap_end := sc_cap_end c, sv_max_cap_used := sc_max_cap_used c,
                  sv_var_start := sc_var_start c, sv_var_end := sc_var_end c, sv_var_count := sc_var_count c\<rparr>))"

definition sv_backtrack :: "search_vm \<Rightarrow> sv_outcome" where
  "sv_backtrack v = (case search_vm_pop_choice v of Some w \<Rightarrow> Sv_go w | None \<Rightarrow> Sv_done False False v)"

section \<open>Classes\<close>

text \<open>The ranges of a class with their number, and the bitmap where the entry code has made one.\<close>

definition SEARCH_VM_MAX_RANGES :: nat where "SEARCH_VM_MAX_RANGES = 64"

definition sv_cached :: "search_vm \<Rightarrow> u16 \<Rightarrow> (bytes option \<times> u16 \<times> (u64 \<times> u64) option) option" where
  "sv_cached v set_id =
     (case sv_range_meta v of
        None \<Rightarrow> None
      | Some entries \<Rightarrow>
          (if 0 < set_id \<and> unat set_id \<le> min (length entries) SEARCH_VM_MAX_RANGES
           then let e = entries ! (unat set_id - 1)
                in Some (rm_ranges e, rm_count e,
                         Option.bind (rm_ranges e) (\<lambda>rp. ranges_to_ascii_bitmap rp (unat (rm_count e))))
           else None))"

definition sv_class :: "search_vm \<Rightarrow> u16 \<Rightarrow> bytes option \<times> u16 \<times> (u64 \<times> u64) option" where
  "sv_class v set_id =
     (case sv_cached v set_id of
        Some c \<Rightarrow> c
      | None \<Rightarrow>
          (if set_id = 0 then (None, 0, None)
           else case get_ranges_ptr (sv_bc v) (sv_range_meta v) set_id of
                  Some (rp, cnt, ci) \<Rightarrow> (Some rp, cnt, None)
                | None \<Rightarrow> (None, 0, None)))"

definition cp_in_class :: "bytes \<Rightarrow> u16 \<Rightarrow> bytes \<Rightarrow> nat \<Rightarrow> bool" where
  "cp_in_class rp cnt s pos =
     (case utf8_peek_next s pos of Some (cp, n) \<Rightarrow> range_contains rp (unat cnt) cp | None \<Rightarrow> False)"

text \<open>The test at a position, as ANY, NOTANY, BREAK and BREAKX make it.\<close>

definition sv_in_class :: "bytes option \<times> u16 \<times> (u64 \<times> u64) option \<Rightarrow> bytes \<Rightarrow> nat \<Rightarrow> bool" where
  "sv_in_class c s pos =
     (case c of
        (None, cnt, amap) \<Rightarrow> False
      | (Some rp, cnt, Some bm) \<Rightarrow> s ! pos \<le> 127 \<and> bitmap_test bm (s ! pos)
      | (Some rp, cnt, None) \<Rightarrow>
          (if s ! pos \<le> 127 \<and> (case ranges_to_ascii_bitmap rp (unat cnt) of
                                 Some bm \<Rightarrow> bitmap_test bm (s ! pos) | None \<Rightarrow> False)
           then True else cp_in_class rp cnt s pos))"

text \<open>SPAN makes the bitmap once.\<close>

definition sv_in_span :: "bytes option \<times> u16 \<times> (u64 \<times> u64) option \<Rightarrow> bytes \<Rightarrow> nat \<Rightarrow> bool" where
  "sv_in_span c s pos =
     (case c of
        (None, cnt, amap) \<Rightarrow> False
      | (Some rp, cnt, amap) \<Rightarrow>
          (case (case amap of Some bm \<Rightarrow> Some bm | None \<Rightarrow> ranges_to_ascii_bitmap rp (unat cnt)) of
             Some bm \<Rightarrow> s ! pos \<le> 127 \<and> bitmap_test bm (s ! pos)
           | None \<Rightarrow> cp_in_class rp cnt s pos))"

text \<open>Going on by code points while a test holds, and by bytes as BREAKX does.\<close>

function sv_scan :: "(nat \<Rightarrow> bool) \<Rightarrow> bytes \<Rightarrow> nat \<Rightarrow> nat" where
  "sv_scan test s pos =
     (if pos < length s \<and> test pos
      then (case utf8_peek_next s pos of None \<Rightarrow> pos | Some (cp, n) \<Rightarrow> sv_scan test s (pos + n))
      else pos)"
  by pat_completeness auto
termination
  by (relation "measure (\<lambda>(test, s, pos). length s - pos)") (auto dest: utf8_peek_next_bounds)

declare sv_scan.simps [simp del]

function sv_byte_scan :: "(nat \<Rightarrow> bool) \<Rightarrow> bytes \<Rightarrow> nat \<Rightarrow> nat" where
  "sv_byte_scan test s pos = (if pos < length s \<and> test pos then sv_byte_scan test s (pos + 1) else pos)"
  by pat_completeness auto
termination by (relation "measure (\<lambda>(test, s, pos). length s - pos)") auto

declare sv_byte_scan.simps [simp del]

section \<open>Instructions\<close>

text \<open>Each starts behind its opcode.\<close>

definition sv_u8 :: "search_vm \<Rightarrow> u8 \<times> search_vm" where
  "sv_u8 v = (let (x, ip) = read_u8 (sv_bc v) (sv_ip v) in (x, v\<lparr>sv_ip := ip\<rparr>))"

definition sv_u16 :: "search_vm \<Rightarrow> u16 \<times> search_vm" where
  "sv_u16 v = (let (x, ip) = read_u16 (sv_bc v) (sv_ip v) in (x, v\<lparr>sv_ip := ip\<rparr>))"

definition sv_u32 :: "search_vm \<Rightarrow> u32 \<times> search_vm" where
  "sv_u32 v = (let (x, ip) = read_u32 (sv_bc v) (sv_ip v) in (x, v\<lparr>sv_ip := ip\<rparr>))"

definition sv_anchor :: "search_vm \<Rightarrow> sv_outcome" where
  "sv_anchor v =
     (if length (sv_bc v) \<le> sv_ip v then Sv_fault
      else let t = sv_bc v ! sv_ip v; w = v\<lparr>sv_ip := sv_ip v + 1\<rparr>
           in if (if t = 0 then sv_pos w = 0 else sv_pos w = length (sv_s w)) then Sv_go w else sv_backtrack w)"

definition sv_cap_start_op :: "search_vm \<Rightarrow> sv_outcome" where
  "sv_cap_start_op v =
     (let (r, v) = sv_u8 v; r = unat r
      in Sv_go (if r < MAX_CAPS
                then v\<lparr>sv_cap_start := (sv_cap_start v)[r := sv_pos v],
                       sv_max_cap_used := (if sv_max_cap_used v \<le> r then r + 1 else sv_max_cap_used v)\<rparr>
                else v))"

definition sv_cap_end_op :: "search_vm \<Rightarrow> sv_outcome" where
  "sv_cap_end_op v =
     (let (r, v) = sv_u8 v; r = unat r
      in Sv_go (if r < MAX_CAPS
                then let v = v\<lparr>sv_cap_end := (sv_cap_end v)[r := sv_pos v],
                               sv_max_cap_used := (if sv_max_cap_used v \<le> r then r + 1 else sv_max_cap_used v)\<rparr>
                     in if r < MAX_VARS
                        then v\<lparr>sv_var_start := (sv_var_start v)[r := sv_cap_start v ! r],
                               sv_var_end := (sv_var_end v)[r := sv_cap_end v ! r],
                               sv_var_count := max (sv_var_count v) (r + 1)\<rparr>
                        else v
                else v))"

definition sv_assign :: "search_vm \<Rightarrow> sv_outcome" where
  "sv_assign v =
     (let (x, v) = sv_u16 v; (r, v) = sv_u8 v; x = unat x; r = unat r
      in Sv_go (if x < MAX_VARS \<and> r < MAX_CAPS
                then v\<lparr>sv_var_count := (if sv_var_count v \<le> x then x + 1 else sv_var_count v),
                       sv_var_start := (sv_var_start v)[x := sv_cap_start v ! r],
                       sv_var_end := (sv_var_end v)[x := sv_cap_end v ! r]\<rparr>
                else v))"

definition sv_breakx :: "search_vm \<Rightarrow> sv_outcome" where
  "sv_breakx v =
     (let breakx_ip = sv_ip v - 1; (set_id, v) = sv_u16 v; c = sv_class v set_id;
          pos = sv_byte_scan (\<lambda>i. \<not> sv_in_class c (sv_s v) i) (sv_s v) (sv_pos v); v = v\<lparr>sv_pos := pos\<rparr>
      in Sv_go (if pos < length (sv_s v)
                then search_vm_push_choice breakx_ip
                       (pos + (case utf8_peek_next (sv_s v) pos of Some (cp, n) \<Rightarrow> n | None \<Rightarrow> 1)) v
                else v))"

definition sv_lit :: "search_vm \<Rightarrow> sv_outcome" where
  "sv_lit v =
     (let (off, v) = sv_u32 v; (len, v) = sv_u32 v; off = unat off; len = unat len;
          v = (if off = sv_ip v then v\<lparr>sv_ip := sv_ip v + len\<rparr> else v)
      in if length (sv_s v) < sv_pos v then Sv_fault
         else if len \<le> length (sv_s v) - sv_pos v
         then if length (sv_bc v) < off + len then Sv_fault
              else if sub_list (sv_pos v) len (sv_s v) = sub_list off len (sv_bc v)
              then Sv_go (v\<lparr>sv_pos := sv_pos v + len\<rparr>)
              else sv_backtrack v
         else sv_backtrack v)"

text \<open>\<open>n\<close> code points further, if there are so many.\<close>

fun sv_forward :: "bytes \<Rightarrow> nat \<Rightarrow> nat \<Rightarrow> nat option" where
  "sv_forward s p 0 = Some p"
| "sv_forward s p (Suc n) =
     (case utf8_peek_next s p of None \<Rightarrow> None | Some (cp, k) \<Rightarrow> sv_forward s (p + k) n)"

text \<open>The count of code points from a position on.\<close>

function sv_count :: "bytes \<Rightarrow> nat \<Rightarrow> nat" where
  "sv_count s p =
     (if p < length s
      then (case utf8_peek_next s p of None \<Rightarrow> 0 | Some (cp, n) \<Rightarrow> Suc (sv_count s (p + n)))
      else 0)"
  by pat_completeness auto
termination by (relation "measure (\<lambda>(s, p). length s - p)") (auto dest: utf8_peek_next_bounds)

declare sv_count.simps [simp del]

definition sv_move :: "search_vm \<Rightarrow> nat option \<Rightarrow> sv_outcome" where
  "sv_move v target = (case target of Some p \<Rightarrow> Sv_go (v\<lparr>sv_pos := p\<rparr>) | None \<Rightarrow> sv_backtrack v)"

definition sv_len :: "search_vm \<Rightarrow> sv_outcome" where
  "sv_len v = (let (n, v) = sv_u32 v in sv_move v (sv_forward (sv_s v) (sv_pos v) (unat n)))"

text \<open>One code point further.\<close>

definition sv_next_cp :: "search_vm \<Rightarrow> sv_outcome" where
  "sv_next_cp v = sv_move v (map_option (\<lambda>(cp, n). sv_pos v + n) (utf8_peek_next (sv_s v) (sv_pos v)))"

definition sv_any :: "search_vm \<Rightarrow> sv_outcome" where
  "sv_any v =
     (let (set_id, v) = sv_u16 v
      in if sv_pos v < length (sv_s v) \<and> sv_in_class (sv_class v set_id) (sv_s v) (sv_pos v)
         then sv_next_cp v else sv_backtrack v)"

text \<open>NOTANY looks only into the metadata, not into the bytecode.\<close>

definition sv_notany :: "search_vm \<Rightarrow> sv_outcome" where
  "sv_notany v =
     (let (set_id, v) = sv_u16 v;
          in_class = (case sv_cached v set_id of
                        Some c \<Rightarrow> sv_pos v < length (sv_s v) \<and> sv_in_class c (sv_s v) (sv_pos v)
                      | None \<Rightarrow> False)
      in if \<not> in_class \<and> sv_pos v < length (sv_s v) then sv_next_cp v else sv_backtrack v)"

definition sv_span :: "search_vm \<Rightarrow> sv_outcome" where
  "sv_span v =
     (let (set_id, v) = sv_u16 v; c = sv_class v set_id;
          pos = sv_scan (sv_in_span c (sv_s v)) (sv_s v) (sv_pos v)
      in if pos = sv_pos v then sv_backtrack v else Sv_go (v\<lparr>sv_pos := pos\<rparr>))"

definition sv_break :: "search_vm \<Rightarrow> sv_outcome" where
  "sv_break v =
     (let (set_id, v) = sv_u16 v; c = sv_class v set_id
      in Sv_go (v\<lparr>sv_pos := sv_scan (\<lambda>i. \<not> sv_in_class c (sv_s v) i) (sv_s v) (sv_pos v)\<rparr>))"

text \<open>POS compares bytes; RPOS counts code points, in 32 bits; TAB and RTAB count from the start and end.\<close>

definition sv_pos_op :: "search_vm \<Rightarrow> sv_outcome" where
  "sv_pos_op v = (let (n, v) = sv_u32 v in if sv_pos v = unat n then Sv_go v else sv_backtrack v)"

definition sv_rpos :: "search_vm \<Rightarrow> sv_outcome" where
  "sv_rpos v =
     (let (n, v) = sv_u32 v
      in if (of_nat (sv_count (sv_s v) (sv_pos v)) :: u32) = n then Sv_go v else sv_backtrack v)"

definition sv_tab :: "search_vm \<Rightarrow> sv_outcome" where
  "sv_tab v = (let (n, v) = sv_u32 v in sv_move v (sv_forward (sv_s v) 0 (unat n)))"

definition sv_rtab :: "search_vm \<Rightarrow> sv_outcome" where
  "sv_rtab v =
     (let (n, v) = sv_u32 v; total = (of_nat (sv_count (sv_s v) 0) :: u32)
      in if total < n then sv_backtrack v else sv_move v (sv_forward (sv_s v) 0 (unat (total - n))))"

definition sv_jmp :: "search_vm \<Rightarrow> sv_outcome" where
  "sv_jmp v = (let (tgt, v) = sv_u32 v in Sv_go (v\<lparr>sv_ip := unat tgt\<rparr>))"

definition sv_split :: "search_vm \<Rightarrow> sv_outcome" where
  "sv_split v =
     (let (a, v) = sv_u32 v; (b, v) = sv_u32 v
      in Sv_go ((search_vm_push_choice (unat b) (sv_pos v) v)\<lparr>sv_ip := unat a\<rparr>))"

definition sv_repeat_init :: "search_vm \<Rightarrow> sv_outcome" where
  "sv_repeat_init v =
     (let (l, v) = sv_u8 v; (lo, v) = sv_u32 v; (hi, v) = sv_u32 v; (skip, v) = sv_u32 v; l = unat l
      in Sv_go (if l < MAX_LOOPS
                then let v = v\<lparr>sv_counters := (sv_counters v)[l := 0], sv_loop_min := (sv_loop_min v)[l := lo],
                               sv_loop_max := (sv_loop_max v)[l := hi],
                               sv_loop_last_pos := (sv_loop_last_pos v)[l := sv_pos v],
                               sv_max_counter_used := max (sv_max_counter_used v) (l + 1)\<rparr>
                     in if lo = 0 then search_vm_push_choice (unat skip) (sv_pos v) v else v
                else v))"

definition sv_loop_again :: "nat \<Rightarrow> u32 \<Rightarrow> search_vm \<Rightarrow> search_vm" where
  "sv_loop_again l target v =
     v\<lparr>sv_loop_last_pos := (sv_loop_last_pos v)[l := sv_pos v], sv_ip := unat target\<rparr>"

definition sv_repeat_step :: "search_vm \<Rightarrow> sv_outcome" where
  "sv_repeat_step v =
     (let (l, v) = sv_u8 v; (target, v) = sv_u32 v; l = unat l
      in Sv_go (if l < MAX_LOOPS
                then let k = sv_counters v ! l + 1; v = v\<lparr>sv_counters := (sv_counters v)[l := k]\<rparr>;
                         lo = sv_loop_min v ! l; hi = sv_loop_max v ! l
                     in if k < lo then sv_loop_again l target v
                        else if hi = - 1 \<or> k < hi
                        then (if hi = - 1 \<and> sv_pos v = sv_loop_last_pos v ! l then v
                              else sv_loop_again l target (search_vm_push_choice (sv_ip v) (sv_pos v) v))
                        else v
                else v))"

section \<open>The loop\<close>

definition sv_exec_op :: "op_code \<Rightarrow> search_vm \<Rightarrow> sv_outcome" where
  "sv_exec_op oc v =
     (case oc of
        OC_ACCEPT \<Rightarrow> Sv_done True False v
      | OC_FAIL \<Rightarrow> sv_backtrack v
      | OC_JMP \<Rightarrow> sv_jmp v
      | OC_SPLIT \<Rightarrow> sv_split v
      | OC_LIT \<Rightarrow> sv_lit v
      | OC_ANY \<Rightarrow> sv_any v
      | OC_NOTANY \<Rightarrow> sv_notany v
      | OC_SPAN \<Rightarrow> sv_span v
      | OC_BREAK \<Rightarrow> sv_break v
      | OC_BREAKX \<Rightarrow> sv_breakx v
      | OC_LEN \<Rightarrow> sv_len v
      | OC_ANCHOR \<Rightarrow> sv_anchor v
      | OC_REPEAT_INIT \<Rightarrow> sv_repeat_init v
      | OC_REPEAT_STEP \<Rightarrow> sv_repeat_step v
      | OC_FENCE \<Rightarrow> Sv_go (v\<lparr>sv_choices := []\<rparr>)
      | OC_RPOS \<Rightarrow> sv_rpos v
      | OC_RTAB \<Rightarrow> sv_rtab v
      | OC_POS \<Rightarrow> sv_pos_op v
      | OC_TAB \<Rightarrow> sv_tab v
      | OC_ABORT \<Rightarrow> Sv_done False True v
      | OC_SUCCEED \<Rightarrow> Sv_done True False v
      | OC_NOP \<Rightarrow> Sv_go v
      | OC_CAP_START \<Rightarrow> sv_cap_start_op v
      | OC_CAP_END \<Rightarrow> sv_cap_end_op v
      | OC_ASSIGN \<Rightarrow> sv_assign v
      | _ \<Rightarrow> Sv_fault)"

definition sv_step :: "search_vm \<Rightarrow> sv_outcome" where
  "sv_step v =
     (if length (sv_bc v) \<le> sv_ip v then sv_backtrack v
      else case op_at (sv_bc v) (sv_ip v) of
             None \<Rightarrow> Sv_fault
           | Some oc \<Rightarrow> sv_exec_op oc (v\<lparr>sv_ip := sv_ip v + 1\<rparr>))"

text \<open>A run with a supply of steps; \<open>None\<close> when it needs more.\<close>

fun sv_loop :: "nat \<Rightarrow> search_vm \<Rightarrow> sv_outcome option" where
  "sv_loop 0 v = None"
| "sv_loop (Suc n) v = (case sv_step v of Sv_go w \<Rightarrow> sv_loop n w | r \<Rightarrow> Some r)"

definition search_vm_exec :: "nat \<Rightarrow> search_vm \<Rightarrow> sv_outcome option" where
  "search_vm_exec n v = sv_loop n (v\<lparr>sv_choices := []\<rparr>)"

section \<open>The strategy\<close>

text \<open>
  The registers of a class that the bytecode does not use are not set: they keep what an attempt
  before left, and at first what was on the stack, here zeros.
\<close>

definition overlay :: "nat \<Rightarrow> 'a list \<Rightarrow> 'a list \<Rightarrow> 'a list" where
  "overlay n xs ys = take n xs @ drop n ys"

definition search_vm_init_from_vm :: "search_vm \<Rightarrow> vm \<Rightarrow> u8 \<Rightarrow> search_vm" where
  "search_vm_init_from_vm old v reg_classes =
     (let caps = reg_classes AND SNBL_REG_CAPTURE \<noteq> 0; vars = reg_classes AND SNBL_REG_VARS \<noteq> 0;
          cnts = reg_classes AND SNBL_REG_COUNTERS \<noteq> 0;
          regs = (\<lambda>zero n xs old. overlay n xs (if zero then replicate (length old) 0 else old))
      in \<lparr>sv_bc = vm_bc v, sv_s = vm_s v, sv_ip = vm_ip v, sv_pos = vm_pos v, sv_range_meta = vm_range_meta v,
          sv_choices = [],
          sv_counters = (if cnts then replicate MAX_LOOPS 0 else counters v),
          sv_loop_min = (if cnts then replicate MAX_LOOPS 0 else loop_min v),
          sv_loop_max = (if cnts then replicate MAX_LOOPS 0 else loop_max v),
          sv_loop_last_pos = (if cnts then replicate MAX_LOOPS 0 else loop_last_pos v),
          sv_cap_start = regs caps (max_cap_used v) (cap_start v) (sv_cap_start old),
          sv_cap_end = regs caps (max_cap_used v) (cap_end v) (sv_cap_end old),
          sv_max_cap_used = max_cap_used v,
          sv_var_start = regs vars (var_count v) (var_start v) (sv_var_start old),
          sv_var_end = regs vars (var_count v) (var_end v) (sv_var_end old),
          sv_var_count = var_count v, sv_max_counter_used = max_counter_used v\<rparr>)"

text \<open>Two positions, four arrays of 64 registers and two counts, of eight bytes each.\<close>

definition sizeof_search_choice :: nat where
  "sizeof_search_choice = 8 * (2 + 4 * 64 + 2)"

definition search_vm_writeback_to_vm :: "search_vm \<Rightarrow> vm \<Rightarrow> vm" where
  "search_vm_writeback_to_vm s v =
     v\<lparr>vm_ip := sv_ip s, vm_pos := sv_pos s, choices_top := length (sv_choices s) * sizeof_search_choice,
       use_compact_choice := True, counters := sv_counters s, loop_last_pos := sv_loop_last_pos s, max_counter_used := sv_max_counter_used s,
       cap_start := overlay (sv_max_cap_used s) (sv_cap_start s) (cap_start v),
       cap_end := overlay (sv_max_cap_used s) (sv_cap_end s) (cap_end v), max_cap_used := sv_max_cap_used s,
       var_start := overlay (sv_var_count s) (sv_var_start s) (var_start v),
       var_end := overlay (sv_var_count s) (sv_var_end s) (var_end v), var_count := sv_var_count s\<rparr>"

definition stack_garbage :: search_vm where
  "stack_garbage =
     \<lparr>sv_bc = [], sv_s = [], sv_ip = 0, sv_pos = 0, sv_range_meta = None, sv_choices = [],
      sv_counters = replicate MAX_LOOPS 0, sv_loop_min = replicate MAX_LOOPS 0,
      sv_loop_max = replicate MAX_LOOPS 0, sv_loop_last_pos = replicate MAX_LOOPS 0,
      sv_cap_start = replicate MAX_CAPS 0, sv_cap_end = replicate MAX_CAPS 0, sv_max_cap_used = 0,
      sv_var_start = replicate MAX_VARS 0, sv_var_end = replicate MAX_VARS 0, sv_var_count = 0,
      sv_max_counter_used = 0\<rparr>"

function search_vm_scan ::
    "nat \<Rightarrow> u8 \<Rightarrow> bytes \<Rightarrow> search_meta \<Rightarrow> bool \<Rightarrow> nat \<Rightarrow> search_vm \<Rightarrow> search_result \<Rightarrow> vm \<Rightarrow> searched" where
  "search_vm_scan n regs subject meta anchored offset old r v =
     (if length subject < offset then Searched False (not_found r) v
      else let w = search_reset_vm subject offset v
           in case search_vm_exec n (search_vm_init_from_vm old w regs) of
                None \<Rightarrow> Search_unfinished
              | Some (Sv_go s) \<Rightarrow> Search_fault
              | Some Sv_fault \<Rightarrow> Search_fault
              | Some (Sv_done ok aborted s) \<Rightarrow>
                  (let u = search_vm_writeback_to_vm s w
                   in if ok then Searched True (found_at offset (offset + sv_pos s) (r\<lparr>sr_aborted := False\<rparr>)) u
                      else if aborted then Searched False ((not_found r)\<lparr>sr_aborted := True\<rparr>) u
                      else if length subject \<le> offset \<or> anchored
                      then Searched False ((not_found r)\<lparr>sr_aborted := False\<rparr>) u
                      else search_vm_scan n regs subject meta anchored
                             (offset + bmh_advance meta subject offset) s (r\<lparr>sr_aborted := False\<rparr>) u))"
  by pat_completeness auto
termination
  by (relation "measure (\<lambda>(n, regs, subject, meta, anchored, offset, old, r, v). Suc (length subject) - offset)")
    (auto intro!: diff_less_mono2 simp: bmh_advance_pos)

declare search_vm_scan.simps [simp del]

definition tier_search_vm :: "nat \<Rightarrow> bytes \<Rightarrow> search_meta \<Rightarrow> bool \<Rightarrow> nat \<Rightarrow> search_result \<Rightarrow> vm \<Rightarrow> searched" where
  "tier_search_vm n subject meta anchored offset r v =
     search_vm_scan n (snobol_bc_register_classes (vm_bc v)) subject meta anchored offset stack_garbage
       (r\<lparr>sr_aborted := False\<rparr>) v"

end
