(* ===== verification/Search_Auto.thy ===== *)
theory Search_Auto
  imports Search_Tiers
begin

text \<open>
  The automaton of \<^verbatim>\<open>core/src/search_tiers.c\<close>: the bytecode read as a nondeterministic automaton whose
  states are its positions, the subset construction, and the scans with the result. Offsets are 16 bit
  numbers; the bytecode is shorter than that.
\<close>

section \<open>Sets of positions\<close>

definition DFA_NFA_MAX :: nat where "DFA_NFA_MAX = 512"

definition SNOBOL_DFA_MAX_STATES :: nat where "SNOBOL_DFA_MAX_STATES = 4096"

definition DFA_HASH_CAP :: nat where "DFA_HASH_CAP = 8192"

definition SNOBOL_DFA_DEAD :: nat where "SNOBOL_DFA_DEAD = 65535"

text \<open>A set is an ascending list. A full set takes nothing more.\<close>

definition nfa_set_add :: "nat \<Rightarrow> nat list \<Rightarrow> nat list" where
  "nfa_set_add x s =
     (let below = takeWhile (\<lambda>y. y < x) s; rest = dropWhile (\<lambda>y. y < x) s
      in if rest \<noteq> [] \<and> hd rest = x then s
         else if DFA_NFA_MAX \<le> length s then s
         else below @ x # rest)"

definition u16_of :: "nat \<Rightarrow> nat" where
  "u16_of n = n mod 65536"

section \<open>Epsilon closure\<close>

text \<open>
  The positions that an instruction leads to without input. REPEAT_INIT and REPEAT_STEP read their
  targets one byte before the operand.
\<close>

definition epsilon_targets :: "bytes \<Rightarrow> nat \<Rightarrow> nat list" where
  "epsilon_targets bc ip =
     (let n = length bc; inside = (\<lambda>t. if t < n then [u16_of t] else [])
      in case op_at bc ip of
           Some OC_JMP \<Rightarrow> if ip + 5 \<le> n then inside (unat (search_read_u32 bc (ip + 1))) else []
         | Some OC_SPLIT \<Rightarrow>
             if ip + 9 \<le> n
             then inside (unat (search_read_u32 bc (ip + 1))) @ inside (unat (search_read_u32 bc (ip + 5))) else []
         | Some OC_NOP \<Rightarrow> [u16_of (ip + 1)]
         | Some OC_FENCE \<Rightarrow> [u16_of (ip + 1)]
         | Some OC_LIT \<Rightarrow> if ip + 9 \<le> n \<and> search_read_u32 bc (ip + 5) = 0 then [u16_of (ip + 9)] else []
         | Some OC_ANCHOR \<Rightarrow> if ip + 2 \<le> n then [u16_of (ip + 2)] else []
         | Some OC_POS \<Rightarrow> if ip + 5 \<le> n then [u16_of (ip + 5)] else []
         | Some OC_RPOS \<Rightarrow> if ip + 5 \<le> n then [u16_of (ip + 5)] else []
         | Some OC_TAB \<Rightarrow> if ip + 5 \<le> n then [u16_of (ip + 5)] else []
         | Some OC_RTAB \<Rightarrow> if ip + 5 \<le> n then [u16_of (ip + 5)] else []
         | Some OC_REPEAT_INIT \<Rightarrow>
             if ip + 14 \<le> n then inside (unat (search_read_u32 bc (ip + 9))) @ [u16_of (ip + 14)] else []
         | Some OC_BREAK \<Rightarrow> if ip + 3 \<le> n then [u16_of (ip + 3)] else []
         | Some OC_REPEAT_STEP \<Rightarrow> if ip + 6 \<le> n then inside (unat (search_read_u32 bc (ip + 1))) else []
         | _ \<Rightarrow> [])"

text \<open>Adding the targets that are missing, with whether there was one.\<close>

fun add_targets :: "nat list \<Rightarrow> nat list \<Rightarrow> bool \<Rightarrow> nat list \<times> bool" where
  "add_targets [] s changed = (s, changed)"
| "add_targets (t # ts) s changed =
     (if t \<in> set s then add_targets ts s changed else add_targets ts (nfa_set_add t s) True)"

text \<open>
  One pass over the growing set by index, then further passes while something was missing. A pass
  has at most as many turns as a set can have members; when a set is full and a target is missing,
  the passes do not end.
\<close>

fun closure_pass :: "nat \<Rightarrow> bytes \<Rightarrow> nat \<Rightarrow> nat list \<Rightarrow> bool \<Rightarrow> nat list \<times> bool" where
  "closure_pass 0 bc i s changed = (s, changed)"
| "closure_pass (Suc n) bc i s changed =
     (if i < length s
      then let off = s ! i;
               (s', changed') = (if off < length bc then add_targets (epsilon_targets bc off) s changed else (s, changed))
           in closure_pass n bc (i + 1) s' changed'
      else (s, changed))"

fun closure_passes :: "nat \<Rightarrow> bytes \<Rightarrow> nat list \<Rightarrow> nat list walk" where
  "closure_passes 0 bc s = Unended"
| "closure_passes (Suc n) bc s =
     (case closure_pass (Suc DFA_NFA_MAX) bc 0 s False of
        (s', changed) \<Rightarrow> if changed then closure_passes n bc s' else Ended s')"

definition epsilon_closure :: "nat \<Rightarrow> bytes \<Rightarrow> nat \<Rightarrow> nat list walk" where
  "epsilon_closure n bc start = closure_passes n bc [start]"

section \<open>Transitions\<close>

text \<open>
  The continuation of the bytes of literals longer than one byte, by a linear scan that steps over a
  SPLIT by one byte. \<open>None\<close> is a position that is no byte of such a literal.
\<close>

definition lit_links :: "nat \<Rightarrow> nat \<Rightarrow> nat \<Rightarrow> (nat \<rightharpoonup> nat) \<Rightarrow> (nat \<rightharpoonup> nat)" where
  "lit_links lo ll next f =
     fold (\<lambda>k g. g(u16_of (lo + k) \<mapsto> u16_of (if k = ll - 1 then next else lo + k + 1))) [0..<ll] f"

definition scan_arity :: "op_code option \<Rightarrow> nat" where
  "scan_arity oc =
     (case oc of
        Some OC_ANCHOR \<Rightarrow> 2 | Some OC_CAP_START \<Rightarrow> 2 | Some OC_CAP_END \<Rightarrow> 2
      | Some OC_POS \<Rightarrow> 5 | Some OC_RPOS \<Rightarrow> 5 | Some OC_TAB \<Rightarrow> 5 | Some OC_RTAB \<Rightarrow> 5
      | Some OC_ANY \<Rightarrow> 3 | Some OC_NOTANY \<Rightarrow> 3 | Some OC_SPAN \<Rightarrow> 3 | Some OC_BREAK \<Rightarrow> 3
      | Some OC_REPEAT_INIT \<Rightarrow> 14 | Some OC_REPEAT_STEP \<Rightarrow> 6
      | _ \<Rightarrow> 1)"

definition lit_scan_next :: "bytes \<Rightarrow> nat \<Rightarrow> nat" where
  "lit_scan_next bc ip =
     (let n = length bc; oc = op_at bc ip
      in if oc = Some OC_LIT \<and> ip + 9 \<le> n then ip + 9 + unat (search_read_u32 bc (ip + 5))
         else if oc = Some OC_LEN \<and> ip + 5 \<le> n \<and> 1 < search_read_u32 bc (ip + 1) then ip + 5
         else if oc = Some OC_JMP \<and> ip + 5 \<le> n then unat (search_read_u32 bc (ip + 1))
         else ip + scan_arity oc)"

definition lit_scan_add :: "bytes \<Rightarrow> nat \<Rightarrow> (nat \<rightharpoonup> nat) \<Rightarrow> (nat \<rightharpoonup> nat)" where
  "lit_scan_add bc ip f =
     (if op_at bc ip = Some OC_LIT \<and> ip + 9 \<le> length bc
      then let lo = search_read_u32 bc (ip + 1); ll = search_read_u32 bc (ip + 5)
           in if 1 < ll \<and> \<not> lit_outside (length bc) lo ll
              then lit_links (unat lo) (unat ll) (ip + 9 + unat ll) f else f
      else f)"

function lit_scan :: "bytes \<Rightarrow> nat \<Rightarrow> (nat \<rightharpoonup> nat) \<Rightarrow> (nat \<rightharpoonup> nat)" where
  "lit_scan bc ip f =
     (if ip < length bc
      then lit_scan bc (if ip < lit_scan_next bc ip then lit_scan_next bc ip else ip + 1) (lit_scan_add bc ip f)
      else f)"
  by pat_completeness auto
termination by (relation "measure (\<lambda>(bc, ip, f). length bc - ip)") auto

declare lit_scan.simps [simp del]

text \<open>The bytes that a class instruction accepts, from the metadata of the machine.\<close>

definition class_accepts :: "range_meta list \<Rightarrow> bytes \<Rightarrow> nat \<Rightarrow> bool \<Rightarrow> u8 \<Rightarrow> bool" where
  "class_accepts metas bc off member b =
     (if length bc < off + 3 then False
      else let set_id = unat (search_read_u16 bc (off + 1))
           in if set_id = 0 \<or> length metas < set_id then False
              else case rm_ranges (metas ! (set_id - 1)) of
                     None \<Rightarrow> True
                   | Some rp \<Rightarrow>
                       (if rm_count (metas ! (set_id - 1)) = 0 then True
                        else bitmap_test (snd (ascii_bitmap rp (rm_count (metas ! (set_id - 1))))) b = member))"

text \<open>What a set of positions goes to under a byte; closures come from a table.\<close>

definition merge_closure :: "(nat \<Rightarrow> nat list) \<Rightarrow> nat \<Rightarrow> nat list \<Rightarrow> nat list" where
  "merge_closure ec off s = fold nfa_set_add (ec off) s"

definition dfa_move ::
    "range_meta list \<Rightarrow> bytes \<Rightarrow> (nat \<rightharpoonup> nat) \<Rightarrow> (nat \<Rightarrow> nat list) \<Rightarrow> u8 \<Rightarrow> nat \<Rightarrow> nat list \<Rightarrow> nat list" where
  "dfa_move metas bc links ec b off s =
     (if length bc \<le> off then s
      else case links off of
             Some cont \<Rightarrow>
               (if b \<noteq> bc ! off then s
                else if cont < length bc \<and> cont \<noteq> off \<and> links cont \<noteq> None then nfa_set_add cont s
                else merge_closure ec cont s)
           | None \<Rightarrow>
               (case op_at bc off of
                  Some OC_LIT \<Rightarrow>
                    (if length bc < off + 9 then s
                     else let lo = unat (search_read_u32 bc (off + 1)); ll = search_read_u32 bc (off + 5)
                          in if length bc \<le> lo \<or> ll = 0 \<or> bc ! lo \<noteq> b then s
                             else if ll = 1 then merge_closure ec (u16_of (off + 9 + 1)) s
                             else if u16_of (lo + 1) < length bc \<and> links (u16_of (lo + 1)) \<noteq> None
                             then nfa_set_add (u16_of (lo + 1)) s else s)
                | Some OC_SPAN \<Rightarrow>
                    (if class_accepts metas bc off True b
                     then merge_closure ec (u16_of (off + 3)) (merge_closure ec off s) else s)
                | Some OC_ANY \<Rightarrow> if class_accepts metas bc off True b then merge_closure ec (u16_of (off + 3)) s else s
                | Some OC_NOTANY \<Rightarrow> if class_accepts metas bc off False b then merge_closure ec (u16_of (off + 3)) s else s
                | Some OC_BREAK \<Rightarrow> if class_accepts metas bc off False b then merge_closure ec off s else s
                | Some OC_LEN \<Rightarrow>
                    (if length bc < off + 5 then s
                     else if search_read_u32 bc (off + 1) \<le> 1 then merge_closure ec (u16_of (off + 5)) s
                     else nfa_set_add off s)
                | _ \<Rightarrow> s))"

section \<open>The table of sets\<close>

text \<open>Open addressing without removals; an entry has its set and the number of its state.\<close>

type_synonym dfa_table = "nat \<rightharpoonup> nat list \<times> nat"

definition dfa_state_hash :: "nat list \<Rightarrow> u32" where
  "dfa_state_hash s = fold (\<lambda>x h. h * 31 + of_nat x) s 0"

text \<open>The state of a set, the table, and the next number; the loop makes as many turns as it is given.\<close>

fun hash_probe :: "nat \<Rightarrow> nat list \<Rightarrow> nat \<Rightarrow> nat \<Rightarrow> dfa_table \<Rightarrow> nat \<Rightarrow> nat \<times> dfa_table \<times> nat" where
  "hash_probe 0 s h i ht next_id = (SNOBOL_DFA_DEAD, ht, next_id)"
| "hash_probe (Suc n) s h i ht next_id =
     (let idx = (h + i) mod DFA_HASH_CAP
      in case ht idx of
           None \<Rightarrow> (next_id, ht(idx \<mapsto> (s, next_id)), next_id + 1)
         | Some (key, st) \<Rightarrow> if key = s then (st, ht, next_id) else hash_probe n s h (i + 1) ht next_id)"

definition dfa_hash_find_or_insert :: "nat list \<Rightarrow> dfa_table \<Rightarrow> nat \<Rightarrow> nat \<times> dfa_table \<times> nat" where
  "dfa_hash_find_or_insert s ht next_id =
     (if s = [] then (SNOBOL_DFA_DEAD, ht, next_id)
      else hash_probe DFA_HASH_CAP s (unat (dfa_state_hash s)) 0 ht next_id)"

definition set_of_state :: "dfa_table \<Rightarrow> nat \<Rightarrow> nat list option" where
  "set_of_state ht st =
     (case List.find (\<lambda>i. case ht i of Some (key, k) \<Rightarrow> k = st | None \<Rightarrow> False) [0..<DFA_HASH_CAP] of
        Some i \<Rightarrow> map_option fst (ht i)
      | None \<Rightarrow> None)"

section \<open>The construction\<close>

record dfa =
  df_trans :: "nat list list"
  df_accepting :: "bool list"
  df_start :: nat

definition df_num_states :: "dfa \<Rightarrow> nat" where
  "df_num_states d = length (df_trans d)"

text \<open>The work list holds the states in the order of their numbers.\<close>

record dfa_build =
  db_table :: dfa_table
  db_next_id :: nat
  db_num_states :: nat
  db_queue :: "nat list"

text \<open>The row of a state, byte by byte; \<open>None\<close> gives the construction up.\<close>

fun dfa_row :: "(u8 \<Rightarrow> nat \<Rightarrow> nat list \<Rightarrow> nat list) \<Rightarrow> nat list \<Rightarrow> nat list \<Rightarrow> nat list \<Rightarrow> dfa_build \<Rightarrow>
    (nat list \<times> dfa_build) option" where
  "dfa_row move cur [] row st = Some (rev row, st)"
| "dfa_row move cur (b # bs) row st =
     (let next_set = fold (move (of_nat b)) cur []
      in if next_set = [] then dfa_row move cur bs (SNOBOL_DFA_DEAD # row) st
         else let (target, ht, next_id) = dfa_hash_find_or_insert next_set (db_table st) (db_next_id st);
                  st = st\<lparr>db_table := ht, db_next_id := next_id\<rparr>
              in if target = SNOBOL_DFA_DEAD \<and> SNOBOL_DFA_MAX_STATES \<le> next_id then None
                 else dfa_row move cur bs (target # row)
                        (if target \<noteq> SNOBOL_DFA_DEAD \<and> db_num_states st \<le> target
                         then st\<lparr>db_num_states := next_id, db_queue := db_queue st @ [target]\<rparr> else st))"

text \<open>The loop over the work list. It stops at the limit of states.\<close>

fun dfa_loop :: "nat \<Rightarrow> (u8 \<Rightarrow> nat \<Rightarrow> nat list \<Rightarrow> nat list) \<Rightarrow> (nat list \<Rightarrow> bool) \<Rightarrow> nat \<Rightarrow> dfa \<Rightarrow> dfa_build \<Rightarrow>
    (dfa \<times> dfa_build) option" where
  "dfa_loop 0 move accepts q d st = Some (d, st)"
| "dfa_loop (Suc n) move accepts q d st =
     (if q < length (db_queue st) \<and> db_num_states st < SNOBOL_DFA_MAX_STATES
      then (case set_of_state (db_table st) (db_queue st ! q) of
              None \<Rightarrow> dfa_loop n move accepts (q + 1)
                        (d\<lparr>df_trans := df_trans d @ [replicate 256 0], df_accepting := df_accepting d @ [False]\<rparr>) st
            | Some cur \<Rightarrow>
                (case dfa_row move cur [0..<256] [] st of
                   None \<Rightarrow> None
                 | Some (row, st') \<Rightarrow>
                     dfa_loop n move accepts (q + 1)
                       (d\<lparr>df_trans := df_trans d @ [row], df_accepting := df_accepting d @ [accepts cur]\<rparr>) st'))
      else Some (d, st))"

text \<open>The closures of all positions.\<close>

fun closures_from :: "nat \<Rightarrow> bytes \<Rightarrow> nat list \<Rightarrow> nat list list walk" where
  "closures_from n bc [] = Ended []"
| "closures_from n bc (off # offs) =
     (case (if op_at bc off \<in> {Some OC_ACCEPT, Some OC_ABORT, Some OC_SUCCEED} then Ended [off]
            else epsilon_closure n bc off) of
        Ended s \<Rightarrow> (case closures_from n bc offs of Ended ss \<Rightarrow> Ended (s # ss) | r \<Rightarrow> r)
      | Overflow \<Rightarrow> Overflow
      | Unended \<Rightarrow> Unended)"

definition nfa_is_accept :: "bytes \<Rightarrow> (nat \<rightharpoonup> nat) \<Rightarrow> nat \<Rightarrow> bool" where
  "nfa_is_accept bc links off \<longleftrightarrow> off < length bc \<and> op_at bc off = Some OC_ACCEPT \<and> links off = None"

definition build_dfa :: "nat \<Rightarrow> bytes \<Rightarrow> range_meta list \<Rightarrow> dfa option walk" where
  "build_dfa n bc metas =
     (if bc = [] \<or> 65535 < length bc then Ended None
      else let links = lit_scan bc 0 Map.empty
           in case closures_from n bc [0..<length bc] of
                Ended ec \<Rightarrow>
                  (case epsilon_closure n bc 0 of
                     Ended start \<Rightarrow>
                       (let (s0, ht, next_id) = dfa_hash_find_or_insert start Map.empty 0
                        in case dfa_loop (Suc SNOBOL_DFA_MAX_STATES) (dfa_move metas bc links (\<lambda>off. ec ! off))
                                  (\<lambda>cur. \<exists>off \<in> set cur. nfa_is_accept bc links off) 0
                                  \<lparr>df_trans = [], df_accepting = [], df_start = s0\<rparr>
                                  \<lparr>db_table = ht, db_next_id = next_id, db_num_states = next_id, db_queue = [s0]\<rparr> of
                             None \<Rightarrow> Ended None
                           | Some (d, st) \<Rightarrow>
                               Ended (if SNOBOL_DFA_MAX_STATES \<le> db_num_states st then None else Some d))
                   | Overflow \<Rightarrow> Overflow | Unended \<Rightarrow> Unended)
              | Overflow \<Rightarrow> Overflow | Unended \<Rightarrow> Unended)"

section \<open>Running the automaton\<close>

text \<open>From a start: the end of the first accepted prefix, no transition, or the end of the subject.\<close>

datatype dfa_run = Accepted nat | Dead | At_end

function dfa_run_from :: "dfa \<Rightarrow> bytes \<Rightarrow> nat \<Rightarrow> nat \<Rightarrow> dfa_run" where
  "dfa_run_from d s pos st =
     (if pos < length s
      then let st' = df_trans d ! st ! unat (s ! pos)
           in if st' = SNOBOL_DFA_DEAD then Dead
              else if df_accepting d ! st' then Accepted (pos + 1)
              else dfa_run_from d s (pos + 1) st'
      else At_end)"
  by pat_completeness auto
termination by (relation "measure (\<lambda>(d, s, pos, st). length s - pos)") auto

declare dfa_run_from.simps [simp del]

text \<open>The end of the subject ends the scan, also when a later start would be accepted.\<close>

function search_automaton_exec :: "dfa \<Rightarrow> bytes \<Rightarrow> nat \<Rightarrow> search_result \<Rightarrow> bool \<times> search_result" where
  "search_automaton_exec d s pos r =
     (if df_num_states d = 0 \<or> length s < pos then (False, not_found r)
      else if df_accepting d ! df_start d then (True, found_at pos pos r)
      else case dfa_run_from d s pos (df_start d) of
             Accepted e \<Rightarrow> (True, found_at pos e r)
           | Dead \<Rightarrow> search_automaton_exec d s (pos + 1) r
           | At_end \<Rightarrow> (False, not_found r))"
  by pat_completeness auto
termination by (relation "measure (\<lambda>(d, s, pos, r). Suc (length s) - pos)") auto

declare search_automaton_exec.simps [simp del]

definition search_automaton_exec_anchored :: "dfa \<Rightarrow> bytes \<Rightarrow> nat \<Rightarrow> search_result \<Rightarrow> bool \<times> search_result" where
  "search_automaton_exec_anchored d s offset r =
     (if df_num_states d = 0 then (False, not_found r)
      else if df_accepting d ! df_start d then (True, found_at offset offset r)
      else case dfa_run_from d s offset (df_start d) of
             Accepted e \<Rightarrow> (True, found_at offset e r)
           | _ \<Rightarrow> (False, not_found r))"

function automaton_scan :: "dfa \<Rightarrow> bytes \<Rightarrow> search_meta \<Rightarrow> bool \<Rightarrow> nat \<Rightarrow> search_result \<Rightarrow> bool \<times> search_result" where
  "automaton_scan d s meta anchored offset r =
     (if length s < offset then (False, r)
      else case search_automaton_exec d s offset r of
             (True, r') \<Rightarrow> (True, r')
           | (False, r') \<Rightarrow>
               (if length s \<le> offset \<or> anchored then (False, r')
                else automaton_scan d s meta anchored (offset + bmh_advance meta s offset) r'))"
  by pat_completeness auto
termination
  by (relation "measure (\<lambda>(d, s, meta, anchored, offset, r). Suc (length s) - offset)")
    (auto intro!: diff_less_mono2 simp: bmh_advance_pos)

declare automaton_scan.simps [simp del]

text \<open>The strategy, with the general one where there is no automaton or no match of it.\<close>

definition tier_automaton ::
    "nat \<Rightarrow> (vm \<Rightarrow> outcome) \<Rightarrow> dfa option \<Rightarrow> bytes \<Rightarrow> search_meta \<Rightarrow> bool \<Rightarrow> nat \<Rightarrow> search_result \<Rightarrow> vm \<Rightarrow> searched" where
  "tier_automaton n run given subject meta anchored offset r v =
     (let with = (\<lambda>d. case d of
                   Some d \<Rightarrow>
                     (case automaton_scan d subject meta anchored offset r of
                        (True, r') \<Rightarrow> Searched True r' v
                      | (False, r') \<Rightarrow> tier_general_fallback run subject meta anchored offset r' v)
                 | None \<Rightarrow> tier_general_fallback run subject meta anchored offset r v)
      in case given of
           Some d \<Rightarrow> with (Some d)
         | None \<Rightarrow>
             (case build_dfa n (vm_bc v) (case vm_range_meta v of None \<Rightarrow> [] | Some ms \<Rightarrow> ms) of
                Ended d \<Rightarrow> with d
              | Overflow \<Rightarrow> Search_fault
              | Unended \<Rightarrow> Search_unfinished))"

end
