(* ===== verification/Search_Fused.thy ===== *)
theory Search_Fused
  imports Search_Tiers
begin

text \<open>
  The two strategies that match without a machine: the chain of segments of
  \<^verbatim>\<open>core/src/search_fusion.c\<close> and the automaton of two states of \<^verbatim>\<open>core/src/search_simd.c\<close> in its
  scalar form. The variants for vector registers are left out.
\<close>

section \<open>Chains of segments\<close>

text \<open>The end of the longest run of bytes of the bitmap.\<close>

function run_end :: "(u8 \<Rightarrow> bool) \<Rightarrow> bytes \<Rightarrow> nat \<Rightarrow> nat" where
  "run_end test s cur = (if cur < length s \<and> test (s ! cur) then run_end test s (cur + 1) else cur)"
  by pat_completeness auto
termination by (relation "measure (\<lambda>(test, s, cur). length s - cur)") auto

declare run_end.simps [simp del]

definition exec_run :: "bytes \<Rightarrow> nat \<Rightarrow> bytes \<Rightarrow> nat \<Rightarrow> nat option" where
  "exec_run bm least s start =
     (let cur = run_end (bitmap256_test bm) s start in if cur - start < least then None else Some cur)"

definition exec_literal :: "bytes \<Rightarrow> bytes \<Rightarrow> nat \<Rightarrow> nat option" where
  "exec_literal lit s cur =
     (if length s < cur + length lit then None
      else if sub_list cur (length lit) s \<noteq> lit then None else Some (cur + length lit))"

definition exec_char :: "bytes \<Rightarrow> bytes \<Rightarrow> nat \<Rightarrow> nat option" where
  "exec_char bm s cur =
     (if length s \<le> cur then None else if \<not> bitmap256_test bm (s ! cur) then None else Some (cur + 1))"

text \<open>A branch of an alternation: its segments in sequence, and no alternation inside.\<close>

fun exec_branch :: "fusion_segment list \<Rightarrow> bytes \<Rightarrow> nat \<Rightarrow> nat option" where
  "exec_branch [] s cur = Some cur"
| "exec_branch (seg # segs) s cur =
     (case (case seg of
              FUSION_LIT lit \<Rightarrow> exec_literal lit s cur
            | FUSION_RUN bm least \<Rightarrow> exec_run bm least s cur
            | FUSION_CHAR bm \<Rightarrow> exec_char bm s cur
            | FUSION_ALT alts \<Rightarrow> None) of
        None \<Rightarrow> None
      | Some cur' \<Rightarrow> exec_branch segs s cur')"

text \<open>The first branch that matches; branches without segments are passed over.\<close>

fun exec_alts :: "fusion_segment list list \<Rightarrow> bytes \<Rightarrow> nat \<Rightarrow> nat option" where
  "exec_alts [] s cur = None"
| "exec_alts (alt # alts) s cur =
     (if alt = [] then exec_alts alts s cur
      else case exec_branch alt s cur of Some cur' \<Rightarrow> Some cur' | None \<Rightarrow> exec_alts alts s cur)"

fun exec_fusion :: "fusion_segment list \<Rightarrow> bytes \<Rightarrow> nat \<Rightarrow> nat option" where
  "exec_fusion [] s cur = Some cur"
| "exec_fusion (seg # segs) s cur =
     (case (case seg of
              FUSION_LIT lit \<Rightarrow> exec_literal lit s cur
            | FUSION_RUN bm least \<Rightarrow> exec_run bm least s cur
            | FUSION_CHAR bm \<Rightarrow> exec_char bm s cur
            | FUSION_ALT alts \<Rightarrow> exec_alts alts s cur) of
        None \<Rightarrow> None
      | Some cur' \<Rightarrow> exec_fusion segs s cur')"

text \<open>The scan ends before the end of the subject.\<close>

function fusion_scan :: "fusion_segment list \<Rightarrow> bytes \<Rightarrow> nat \<Rightarrow> search_result \<Rightarrow> bool \<times> search_result" where
  "fusion_scan segs s offset r =
     (if offset < length s
      then (case exec_fusion segs s offset of
              Some e \<Rightarrow> (True, found_at offset e r)
            | None \<Rightarrow> fusion_scan segs s (offset + 1) r)
      else (False, not_found r))"
  by pat_completeness auto
termination by (relation "measure (\<lambda>(segs, s, offset, r). length s - offset)") auto

declare fusion_scan.simps [simp del]

definition tier_fusion :: "bytes \<Rightarrow> search_meta \<Rightarrow> bool \<Rightarrow> nat \<Rightarrow> search_result \<Rightarrow> bool \<times> search_result" where
  "tier_fusion subject meta anchored start r =
     (case sm_fusion meta of
        None \<Rightarrow> (False, not_found r)
      | Some segs \<Rightarrow>
          (if \<not> sm_fusion_eligible meta then (False, not_found r)
           else if anchored
           then (case exec_fusion segs subject start of
                   Some e \<Rightarrow> (True, found_at start e r)
                 | None \<Rightarrow> (False, not_found r))
           else fusion_scan segs subject start r))"

section \<open>The automaton of two states\<close>

record simd_nfa_trans =
  st_char_mask :: "u64 list"
  st_next_state :: nat
  st_is_accept :: bool
  st_is_split :: bool

text \<open>The states that are in use; their number is \<open>num_states\<close>.\<close>

record simd_nfa =
  nf_states :: "simd_nfa_trans list"
  nf_start_state :: nat
  nf_is_span :: bool
  nf_is_break :: bool
  nf_is_any :: bool

definition two_states :: "u64 list \<Rightarrow> nat \<Rightarrow> simd_nfa_trans list" where
  "two_states bits target =
     [\<lparr>st_char_mask = bits, st_next_state = target, st_is_accept = False, st_is_split = False\<rparr>,
      \<lparr>st_char_mask = [0, 0, 0, 0], st_next_state = 0, st_is_accept = True, st_is_split = False\<rparr>]"

definition invert_mask :: "u64 list \<Rightarrow> u64 list" where
  "invert_mask = map (\<lambda>w. NOT w)"

definition nfa_of_class :: "op_code \<Rightarrow> u64 list \<Rightarrow> simd_nfa" where
  "nfa_of_class oc bits =
     \<lparr>nf_states = two_states (if oc = OC_BREAK \<or> oc = OC_NOTANY then invert_mask bits else bits)
                    (if oc = OC_SPAN \<or> oc = OC_BREAK then 0 else 1),
      nf_start_state = 0, nf_is_span = (oc = OC_SPAN), nf_is_break = (oc = OC_BREAK),
      nf_is_any = (oc = OC_ANY \<or> oc = OC_NOTANY)\<rparr>"

definition build_nfa_masks :: "bytes \<Rightarrow> range_meta list option \<Rightarrow> simd_nfa option" where
  "build_nfa_masks bc metas =
     (if length bc < 2 then None
      else case op_at bc 0 of
             None \<Rightarrow> None
           | Some oc \<Rightarrow>
               (if oc \<in> {OC_SPAN, OC_BREAK, OC_ANY, OC_NOTANY} \<and> 3 \<le> length bc
                then (case get_ranges_ptr bc metas (search_read_u16 bc 1) of
                        None \<Rightarrow> None
                      | Some (ranges, cnt, ci) \<Rightarrow>
                          (if cnt = 0 then None
                           else map_option (nfa_of_class oc) (ranges_to_full_bitmap ranges (unat cnt))))
                else None))"

text \<open>The states that state \<open>i\<close> leads to under a byte.\<close>

definition nfa_targets :: "simd_nfa \<Rightarrow> u8 \<Rightarrow> nat \<Rightarrow> u64" where
  "nfa_targets nfa b i =
     (let st = nf_states nfa ! i
      in if st_is_accept st then push_bit i 1
         else if st_is_split st then push_bit (st_next_state st) 1
         else if bitmap_test_256 (st_char_mask st) b
         then (if st_next_state st = i \<or> st_next_state st < length (nf_states nfa)
               then push_bit (st_next_state st) 1 else 0)
         else 0)"

definition nfa_step :: "simd_nfa \<Rightarrow> u8 \<Rightarrow> u64 \<Rightarrow> u64" where
  "nfa_step nfa b state =
     fold (\<lambda>i acc. if bit state i then acc OR nfa_targets nfa b i else acc) [0..<length (nf_states nfa)] 0"

definition nfa_accepting :: "simd_nfa \<Rightarrow> u64 \<Rightarrow> bool" where
  "nfa_accepting nfa state \<longleftrightarrow>
     (\<exists>i \<in> set [0..<length (nf_states nfa)]. bit state i \<and> st_is_accept (nf_states nfa ! i))"

text \<open>The loop over the bytes: accepted at an offset, or ended with the states and the offset there.\<close>

function nfa_loop :: "simd_nfa \<Rightarrow> bytes \<Rightarrow> nat \<Rightarrow> u64 \<Rightarrow> nat + u64 \<times> nat" where
  "nfa_loop nfa s offset state =
     (if offset < length s
      then let state' = nfa_step nfa (s ! offset) state
           in if nfa_accepting nfa state' then Inl (offset + 1)
              else if state' = 0 then Inr (state', offset + 1)
              else nfa_loop nfa s (offset + 1) state'
      else Inr (state, offset))"
  by pat_completeness auto
termination by (relation "measure (\<lambda>(nfa, s, offset, state). length s - offset)") auto

declare nfa_loop.simps [simp del]

text \<open>The end of the match at \<open>start\<close>, if there is one.\<close>

definition simd_nfa_exec_scalar :: "simd_nfa \<Rightarrow> bytes \<Rightarrow> nat \<Rightarrow> nat option" where
  "simd_nfa_exec_scalar nfa s start =
     (case nfa_loop nfa s start (push_bit (nf_start_state nfa) 1) of
        Inl e \<Rightarrow> Some e
      | Inr (state, offset) \<Rightarrow>
          (if nfa_accepting nfa state then Some offset
           else if nf_is_span nfa \<and> start < offset \<and> (state \<noteq> 0 \<or> start + 1 < offset)
           then Some (if state = 0 then offset - 1 else offset)
           else if nf_is_break nfa
           then Some (if state = 0 \<and> offset \<noteq> start \<and> offset \<le> length s then offset - 1 else offset)
           else None))"

function nfa_scan :: "simd_nfa \<Rightarrow> bytes \<Rightarrow> nat \<Rightarrow> search_result \<Rightarrow> bool \<times> search_result" where
  "nfa_scan nfa s offset r =
     (if offset < length s
      then if \<not> bitmap_test_256 (st_char_mask (nf_states nfa ! 0)) (s ! offset) then nfa_scan nfa s (offset + 1) r
           else (case simd_nfa_exec_scalar nfa s offset of
                   Some e \<Rightarrow> (True, found_at offset e r)
                 | None \<Rightarrow> nfa_scan nfa s (offset + 1) r)
      else (False, not_found r))"
  by pat_completeness auto
termination by (relation "measure (\<lambda>(nfa, s, offset, r). length s - offset)") auto

declare nfa_scan.simps [simp del]

definition nfa_search :: "simd_nfa \<Rightarrow> bytes \<Rightarrow> bool \<Rightarrow> nat \<Rightarrow> search_result \<Rightarrow> bool \<times> search_result" where
  "nfa_search nfa subject anchored start r =
     (if anchored \<or> nf_is_break nfa
      then (case simd_nfa_exec_scalar nfa subject start of
              Some e \<Rightarrow> (True, found_at start e r)
            | None \<Rightarrow> (False, not_found r))
      else nfa_scan nfa subject start r)"

text \<open>The automaton that is cached on the machine, or else one built here.\<close>

definition tier_simd_nfa ::
    "(vm \<Rightarrow> outcome) \<Rightarrow> simd_nfa option \<Rightarrow> bytes \<Rightarrow> search_meta \<Rightarrow> bool \<Rightarrow> nat \<Rightarrow> search_result \<Rightarrow> vm \<Rightarrow> searched" where
  "tier_simd_nfa run cached subject meta anchored start r v =
     (case (case cached of Some nfa \<Rightarrow> Some nfa | None \<Rightarrow> build_nfa_masks (vm_bc v) (vm_range_meta v)) of
        None \<Rightarrow> tier_general_fallback run subject meta anchored start r v
      | Some nfa \<Rightarrow> (case nfa_search nfa subject anchored start r of (ok, r') \<Rightarrow> Searched ok r' v))"

end
