(* ===== verification/Search_Dispatch.thy ===== *)
theory Search_Dispatch
  imports Search_Vm Search_Auto Search_Fused
begin

text \<open>
  The entry points of the search, \<^verbatim>\<open>core/src/search_tiers.c\<close>: the filter by the required literal, the
  choice of a strategy and the table of the strategies. What the caller has cached, the automata and
  the trie, are arguments; the counters of the diagnostics are left out.
\<close>

section \<open>What the caller hands over\<close>

record search_caches =
  ca_dfa :: "dfa option"
  ca_trie :: "auto_trie option"
  ca_nfa :: "simd_nfa option"

text \<open>
  The supplies: turns of the walks and of the closures, steps of the small machine, and the full
  machine as a function; the byte behind the subject, which the scan with the trie may read.
\<close>

record search_env =
  en_walk :: nat
  en_steps :: nat
  en_run :: "vm \<Rightarrow> outcome"
  en_after :: u8

section \<open>Dispatch\<close>

definition use_automaton :: "search_meta \<Rightarrow> dfa option \<Rightarrow> bool" where
  "use_automaton meta d \<longleftrightarrow>
     d \<noteq> None \<and> sm_automaton_eligible meta \<and> \<not> sm_is_alt_literals meta \<and> sm_has_bmh_skip meta"

definition dispatch_tier :: "search_meta \<Rightarrow> dfa option \<Rightarrow> nat \<Rightarrow> bool \<Rightarrow> search_tier" where
  "dispatch_tier meta d subject_len anchored =
     (if use_automaton meta d \<and> \<not> anchored then TIER_AUTOMATON
      else select_tier_by_cost meta subject_len (d \<noteq> None) anchored)"

text \<open>The fields that are reset for the strategies with a machine of their own.\<close>

definition lazy_init :: "search_tier \<Rightarrow> vm \<Rightarrow> vm" where
  "lazy_init t v =
     (if t \<le> TIER_ALT_LIT then v
      else if t \<le> TIER_AUTOMATON
      then v\<lparr>vm_ip := 0, vm_pos := 0, var_count := 0, max_cap_used := 0, max_counter_used := 0, choices_top := 0\<rparr>
      else v)"

definition tier_table ::
    "search_tier \<Rightarrow> search_env \<Rightarrow> search_caches \<Rightarrow> bytes \<Rightarrow> search_meta \<Rightarrow> bool \<Rightarrow> nat \<Rightarrow> search_result \<Rightarrow> vm \<Rightarrow>
      searched \<times> auto_trie option" where
  "tier_table t e c subject meta anchored start r v =
     (let keep = (\<lambda>x. (x, ca_trie c))
      in case t of
           TIER_BREAK_SCAN \<Rightarrow> keep (search_break_accelerated (en_run e) subject meta anchored start r v)
         | TIER_SPAN_SCAN \<Rightarrow> keep (search_span_accelerated (en_run e) subject meta anchored start r v)
         | TIER_LITERAL \<Rightarrow> keep (search_literal_only subject anchored start r v)
         | TIER_PREFIX \<Rightarrow> keep (search_literal_accelerated (en_run e) subject meta anchored start r v)
         | TIER_BITMAP \<Rightarrow> keep (search_bitmap_accelerated (en_run e) subject meta anchored start r v)
         | TIER_ALT_LIT \<Rightarrow>
             search_alt_literals_try (en_walk e) (en_run e) (ca_trie c) (en_after e) subject meta anchored start r v
         | TIER_SEARCH_VM \<Rightarrow> keep (tier_search_vm (en_steps e) subject meta anchored start r v)
         | TIER_AUTOMATON \<Rightarrow> keep (tier_automaton (en_walk e) (en_run e) (ca_dfa c) subject meta anchored start r v)
         | TIER_GENERAL \<Rightarrow> keep (tier_general_fallback (en_run e) subject meta anchored start r v)
         | TIER_SIMD_NFA \<Rightarrow> keep (tier_simd_nfa (en_run e) (ca_nfa c) subject meta anchored start r v)
         | TIER_FUSED_AUTOMATON \<Rightarrow>
             keep (case tier_fusion subject meta anchored start r of (ok, r') \<Rightarrow> Searched ok r' v))"

definition clear_result :: "search_result \<Rightarrow> search_result" where
  "clear_result r = r\<lparr>sr_success := False, sr_prefilter_skip := False, sr_aborted := False\<rparr>"

definition dispatch_with ::
    "search_env \<Rightarrow> search_caches \<Rightarrow> bytes \<Rightarrow> search_meta \<Rightarrow> bool \<Rightarrow> nat \<Rightarrow> search_result \<Rightarrow> vm \<Rightarrow>
      searched \<times> auto_trie option" where
  "dispatch_with e c subject meta anchored start r v =
     (let tier = dispatch_tier meta (ca_dfa c) (length subject) anchored;
          go = (\<lambda>r. tier_table tier e c subject meta anchored start r (lazy_init tier v))
      in if anchored \<and> use_automaton meta (ca_dfa c)
         then (case search_automaton_exec_anchored (the (ca_dfa c)) subject start r of
                 (True, r') \<Rightarrow> (Searched True r' v, ca_trie c)
               | (False, r') \<Rightarrow> go (not_found r'))
         else go r)"

definition dispatch_search_impl ::
    "search_env \<Rightarrow> search_caches \<Rightarrow> bytes \<Rightarrow> search_meta option \<Rightarrow> bool \<Rightarrow> nat \<Rightarrow> search_result \<Rightarrow> vm \<Rightarrow>
      searched \<times> auto_trie option" where
  "dispatch_search_impl e c subject meta anchored start r v =
     (let r = clear_result r
      in if length subject < start then (Searched False r v, ca_trie c)
         else case meta of
                Some m \<Rightarrow> dispatch_with e c subject m anchored start r v
              | None \<Rightarrow>
                  (case snobol_search_derive_meta (en_walk e) (vm_bc v) of
                     Ended m \<Rightarrow> dispatch_with e c subject m anchored start r v
                   | Overflow \<Rightarrow> (Search_fault, ca_trie c)
                   | Unended \<Rightarrow> (Search_unfinished, ca_trie c)))"

section \<open>Entry points\<close>

text \<open>
  Is the required literal missing from the rest of the subject? The code does not test the start before
  it forms the rest; the model is faithful for a start within the subject.
\<close>

definition search_prefilter_miss :: "search_meta option \<Rightarrow> bytes \<Rightarrow> nat \<Rightarrow> bool" where
  "search_prefilter_miss meta subject start =
     (case meta of
        None \<Rightarrow> False
      | Some m \<Rightarrow>
          (if sm_has_required_lit m \<and> sm_required_lit m \<noteq> []
           then (if length (sm_required_lit m) = 1 then memchr_at subject (sm_required_lit m ! 0) start = None
                 else memmem_at subject (sm_required_lit m) start = None)
           else False))"

definition single_byte_search :: "u8 \<Rightarrow> bytes \<Rightarrow> nat \<Rightarrow> search_result \<Rightarrow> vm \<Rightarrow> searched" where
  "single_byte_search b subject start r v =
     (let r = clear_result r
      in if length subject < start then Searched False r v
         else case memchr_at subject b start of
                Some p \<Rightarrow> Searched True (found_at p (p + 1) r) v
              | None \<Rightarrow> Searched False r v)"

definition snobol_search_exec ::
    "bool \<Rightarrow> search_env \<Rightarrow> search_caches \<Rightarrow> bytes \<Rightarrow> search_meta option \<Rightarrow> nat \<Rightarrow> search_result \<Rightarrow> vm \<Rightarrow>
      searched \<times> auto_trie option" where
  "snobol_search_exec diag e c subject meta start r v =
     (case meta of
        Some m \<Rightarrow>
          (if sm_is_literal_only m \<and> length (sm_required_lit m) = 1 \<and> \<not> diag
           then (single_byte_search (sm_required_lit m ! 0) subject start r v, ca_trie c)
           else if search_prefilter_miss meta subject start
           then (Searched False ((not_found r)\<lparr>sr_prefilter_skip := True\<rparr>) v, ca_trie c)
           else dispatch_search_impl e c subject meta False start r v)
      | None \<Rightarrow> dispatch_search_impl e c subject meta False start r v)"

definition snobol_search_exec_anchored ::
    "search_env \<Rightarrow> search_caches \<Rightarrow> bytes \<Rightarrow> search_meta option \<Rightarrow> search_result \<Rightarrow> vm \<Rightarrow>
      searched \<times> auto_trie option" where
  "snobol_search_exec_anchored e c subject meta r v =
     (if search_prefilter_miss meta subject 0
      then (Searched False ((not_found r)\<lparr>sr_prefilter_skip := True\<rparr>) v, ca_trie c)
      else dispatch_search_impl e c subject meta True 0 r v)"

end
