(* ===== verification/Search_Find.thy ===== *)
theory Search_Find
  imports Search_Dispatch "HOL-Library.Sublist"
begin

text \<open>
  What a search is to find, and the interfaces of the ways to it: finding the first place behind an
  offset, and moving on by more than one place. The byte searches and the skip table of the code
  provide them.
\<close>

section \<open>The first match\<close>

text \<open>
  \<open>hit i\<close> is the end of the match at \<open>i\<close>, if there is one. The first match at \<open>i\<close> or behind it, up to
  and including the offset \<open>n\<close>.
\<close>

lemma from_step: "(\<forall>k. i \<le> k \<and> Q k \<longrightarrow> P k) \<longleftrightarrow> (Q i \<longrightarrow> P i) \<and> (\<forall>k. Suc i \<le> k \<and> Q k \<longrightarrow> P k)" for i :: nat
proof -
  have "i \<le> k \<longleftrightarrow> k = i \<or> Suc i \<le> k" for k by auto
  then show ?thesis by auto
qed

function first_match :: "(nat \<Rightarrow> nat option) \<Rightarrow> nat \<Rightarrow> nat \<Rightarrow> (nat \<times> nat) option" where
  "first_match hit i n =
     (if n < i then None
      else case hit i of Some e \<Rightarrow> Some (i, e) | None \<Rightarrow> first_match hit (i + 1) n)"
  by pat_completeness auto
termination by (relation "measure (\<lambda>(hit, i, n). Suc n - i)") auto

declare first_match.simps [simp del]

lemma first_match_behind: "n < i \<Longrightarrow> first_match hit i n = None"
  by (subst first_match.simps) simp

lemma first_match_hit: "i \<le> n \<Longrightarrow> hit i = Some e \<Longrightarrow> first_match hit i n = Some (i, e)"
  by (subst first_match.simps) simp

lemma first_match_miss: "hit i = None \<Longrightarrow> first_match hit i n = first_match hit (i + 1) n"
  by (subst first_match.simps) (simp add: first_match_behind)

lemma first_match_skip:
  "i \<le> j \<Longrightarrow> (\<And>k. i \<le> k \<Longrightarrow> k < j \<Longrightarrow> hit k = None) \<Longrightarrow> first_match hit i n = first_match hit j n"
  by (induction j rule: dec_induct) (simp_all add: first_match_miss)

lemma first_match_None: "first_match hit i n = None \<longleftrightarrow> (\<forall>k. i \<le> k \<and> k \<le> n \<longrightarrow> hit k = None)"
proof (induction hit i n rule: first_match.induct)
  case (1 hit i n)
  show ?case
  proof (cases "n < i \<or> hit i \<noteq> None")
    case True
    then show ?thesis by (subst first_match.simps) (auto split: option.splits)
  next
    case False
    then have "first_match hit (i + 1) n = None \<longleftrightarrow> (\<forall>k. i + 1 \<le> k \<and> k \<le> n \<longrightarrow> hit k = None)"
      using 1 by simp
    then show ?thesis using False from_step [of i "\<lambda>k. k \<le> n" "\<lambda>k. hit k = None"] by (simp add: first_match_miss)
  qed
qed

lemma first_match_Some:
  "first_match hit i n = Some (p, e) \<Longrightarrow> i \<le> p \<and> p \<le> n \<and> hit p = Some e \<and> (\<forall>k. i \<le> k \<and> k < p \<longrightarrow> hit k = None)"
proof (induction hit i n rule: first_match.induct)
  case (1 hit i n)
  show ?case
  proof (cases "n < i \<or> hit i \<noteq> None")
    case True
    then show ?thesis using 1(2) by (subst (asm) first_match.simps) (auto split: option.splits if_splits)
  next
    case False
    then have "first_match hit (i + 1) n = Some (p, e)" using 1(2) by (simp add: first_match_miss)
    then show ?thesis using 1(1) False from_step [of i "\<lambda>k. k < p" "\<lambda>k. hit k = None"] by simp
  qed
qed

lemma first_match_cong: "(\<And>k. i \<le> k \<Longrightarrow> k \<le> n \<Longrightarrow> hit k = hit' k) \<Longrightarrow> first_match hit i n = first_match hit' i n"
proof (induction hit i n rule: first_match.induct)
  case (1 hit i n)
  then show ?case by (subst (1 2) first_match.simps) (auto split: option.splits)
qed

text \<open>What a search for a first match hands back.\<close>

definition answer :: "(nat \<times> nat) option \<Rightarrow> search_result \<Rightarrow> bool \<times> search_result" where
  "answer m r = (case m of Some (a, b) \<Rightarrow> (True, found_at a b r) | None \<Rightarrow> (False, not_found r))"

section \<open>Finding the first place\<close>

locale first_place =
  fixes hit :: "'s \<Rightarrow> nat \<Rightarrow> bool" and find :: "'s \<Rightarrow> nat \<Rightarrow> nat option"
  assumes found: "find s i = Some p \<Longrightarrow> i \<le> p \<and> hit s p"
    and first: "find s i = Some p \<Longrightarrow> i \<le> j \<Longrightarrow> j < p \<Longrightarrow> \<not> hit s j"
    and none: "find s i = None \<Longrightarrow> i \<le> j \<Longrightarrow> \<not> hit s j"
begin

lemma None_iff: "find s i = None \<longleftrightarrow> (\<forall>j \<ge> i. \<not> hit s j)"
proof (cases "find s i")
  case (Some p)
  then show ?thesis using found [OF Some] by auto
qed (use none in auto)

lemma Some_iff: "find s i = Some p \<longleftrightarrow> i \<le> p \<and> hit s p \<and> (\<forall>j. i \<le> j \<and> j < p \<longrightarrow> \<not> hit s j)"
proof
  assume "find s i = Some p"
  then show "i \<le> p \<and> hit s p \<and> (\<forall>j. i \<le> j \<and> j < p \<longrightarrow> \<not> hit s j)" using found first by blast
next
  assume p: "i \<le> p \<and> hit s p \<and> (\<forall>j. i \<le> j \<and> j < p \<longrightarrow> \<not> hit s j)"
  then obtain q where q: "find s i = Some q" using none by (cases "find s i") auto
  then have "\<not> p < q" "\<not> q < p" using p found first by blast+
  then show "find s i = Some p" using q by simp
qed

text \<open>A search for matches that need a hit may start at the place that is found.\<close>

lemma narrows:
  assumes "\<And>j e. m j = Some e \<Longrightarrow> hit s j"
  shows "first_match m i n = (case find s i of Some p \<Rightarrow> first_match m p n | None \<Rightarrow> None)"
proof (cases "find s i")
  case None
  have "m k = None" if "i \<le> k" for k using none [OF None that] assms by (cases "m k") auto
  then show ?thesis using None by (simp add: first_match_None)
next
  case (Some p)
  have "m k = None" if "i \<le> k" "k < p" for k using first [OF Some that] assms by (cases "m k") auto
  then show ?thesis using Some found [OF Some] first_match_skip [of i p m n] by simp
qed

end

text \<open>The library searches for a byte and for a list of bytes.\<close>

definition occurs :: "bytes \<Rightarrow> bytes \<Rightarrow> nat \<Rightarrow> bool" where
  "occurs lit s i \<longleftrightarrow> i + length lit \<le> length s \<and> sub_list i (length lit) s = lit"

lemma occurs_prefix: "occurs lit s i \<longleftrightarrow> i \<le> length s \<and> prefix lit (drop i s)"
proof -
  have "prefix lit (drop i s) \<longleftrightarrow> take (length lit) (drop i s) = lit \<and> length lit \<le> length s - i"
    by (metis length_drop prefix_length_le prefix_order.eq_iff take_is_prefix prefix_def append_eq_conv_conj)
  then show ?thesis unfolding occurs_def sub_list_def by auto
qed

lemma occurs_nth: "occurs lit s i \<longleftrightarrow> i + length lit \<le> length s \<and> (\<forall>k < length lit. s ! (i + k) = lit ! k)"
  by (auto simp: occurs_def sub_list_def list_eq_iff_nth_eq)

lemma memchr_at_spec:
  "(\<forall>p. memchr_at s b i = Some p \<longrightarrow> i \<le> p \<and> p < length s \<and> s ! p = b \<and> (\<forall>j. i \<le> j \<and> j < p \<longrightarrow> s ! j \<noteq> b)) \<and>
   (memchr_at s b i = None \<longrightarrow> (\<forall>j. i \<le> j \<and> j < length s \<longrightarrow> s ! j \<noteq> b))"
proof (induction s b i rule: memchr_at.induct)
  case (1 s b i)
  show ?case
  proof (cases "i < length s \<and> s ! i \<noteq> b")
    case True
    then have "memchr_at s b i = memchr_at s b (i + 1)" by (subst memchr_at.simps) simp
    moreover have "(\<forall>j. i \<le> j \<and> j < p \<longrightarrow> s ! j \<noteq> b) \<longleftrightarrow> (\<forall>j. i + 1 \<le> j \<and> j < p \<longrightarrow> s ! j \<noteq> b)" for p
      using True from_step [of i "\<lambda>j. j < p" "\<lambda>j. s ! j \<noteq> b"] by simp
    ultimately show ?thesis using 1 True by (auto dest: memchr_at_Some)
  next
    case False
    then show ?thesis by (subst (1 2) memchr_at.simps) auto
  qed
qed

lemma memmem_at_spec:
  "(\<forall>p. memmem_at s lit i = Some p \<longrightarrow> i \<le> p \<and> occurs lit s p \<and> (\<forall>j. i \<le> j \<and> j < p \<longrightarrow> \<not> occurs lit s j)) \<and>
   (memmem_at s lit i = None \<longrightarrow> (\<forall>j \<ge> i. \<not> occurs lit s j))"
proof (induction s lit i rule: memmem_at.induct)
  case (1 s lit i)
  show ?case
  proof (cases "i + length lit \<le> length s \<and> \<not> occurs lit s i")
    case True
    then have "memmem_at s lit i = memmem_at s lit (i + 1)" by (subst memmem_at.simps) (simp add: occurs_def)
    moreover have "(\<forall>j. i \<le> j \<and> j < p \<longrightarrow> \<not> occurs lit s j) \<longleftrightarrow> (\<forall>j. i + 1 \<le> j \<and> j < p \<longrightarrow> \<not> occurs lit s j)"
      "(\<forall>j \<ge> i. \<not> occurs lit s j) \<longleftrightarrow> (\<forall>j \<ge> i + 1. \<not> occurs lit s j)" for p
      using True from_step [of i "\<lambda>j. j < p" "\<lambda>j. \<not> occurs lit s j"] from_step [of i "\<lambda>j. True" "\<lambda>j. \<not> occurs lit s j"]
      by simp_all
    moreover have "sub_list i (length lit) s \<noteq> lit" using True by (auto simp: occurs_def)
    moreover have "i \<le> p" if "memmem_at s lit (Suc i) = Some p" for p using memmem_at_Some [OF that] by simp
    ultimately show ?thesis using 1 True by simp
  next
    case False
    then show ?thesis by (subst (1 2) memmem_at.simps) (auto simp: occurs_def)
  qed
qed

interpretation memchr: first_place "\<lambda>(s, b) i. i < length s \<and> s ! i = b" "\<lambda>(s, b). memchr_at s b"
  using memchr_at_spec by unfold_locales (auto split: prod.splits)

interpretation memmem: first_place "\<lambda>(s, lit). occurs lit s" "\<lambda>(s, lit). memmem_at s lit"
  using memmem_at_spec by unfold_locales (auto split: prod.splits)

end
