(* ===== verification/Search_Skip.thy ===== *)
theory Search_Skip
  imports Search_Find
begin

text \<open>
  Moving on by more than one place: the skip table of the code passes over no occurrence of the
  prefix that it was made from. The bitmap of 256 bits as a set of bytes.
\<close>

section \<open>Moving on\<close>

locale safe_skip =
  fixes place :: "'c \<Rightarrow> nat \<Rightarrow> bool" and advance :: "'c \<Rightarrow> nat \<Rightarrow> nat"
  assumes forward: "i < advance c i"
    and passes: "i < j \<Longrightarrow> j < advance c i \<Longrightarrow> \<not> place c j"
begin

text \<open>A search for matches that need a place may move on.\<close>

lemma moves_on:
  assumes "\<And>j e. m j = Some e \<Longrightarrow> place c j" "m i = None"
  shows "first_match m i n = first_match m (advance c i) n"
proof (rule first_match_skip)
  show "m k = None" if "i \<le> k" "k < advance c i" for k
    using passes [of i k c] assms that by (cases "m k") (auto simp: le_less)
qed (use forward [of i c] in simp)

end

section \<open>The skip table\<close>

lemma bmh_fold:
  assumes "t = fold (\<lambda>i t. t[unat (p ! i) := length p - 1 - i]) [0..<m] (replicate 256 n)"
    "m \<le> length p - 1" "n = length p"
  shows "length t = 256" "t ! unat (c :: u8) \<le> n" "\<And>k. k < m \<Longrightarrow> p ! k = c \<Longrightarrow> t ! unat c \<le> length p - 1 - k"
proof -
  have "length t = 256 \<and> t ! unat c \<le> n \<and> (\<forall>k < m. p ! k = c \<longrightarrow> t ! unat c \<le> length p - 1 - k)"
    using assms
  proof (induction m arbitrary: t)
    case 0
    then show ?case using unat_u8_less [of c] by simp
  next
    case (Suc m)
    let ?u = "fold (\<lambda>i t. t[unat (p ! i) := length p - 1 - i]) [0..<m] (replicate 256 n)"
    have t: "t = ?u[unat (p ! m) := length p - 1 - m]" using Suc.prems(1) by simp
    have u: "length ?u = 256" "?u ! unat c \<le> n" "\<forall>k < m. p ! k = c \<longrightarrow> ?u ! unat c \<le> length p - 1 - k"
      using Suc.IH [of ?u] Suc.prems by auto
    have len: "length t = 256" using u(1) unfolding t by simp
    show ?case
    proof (cases "p ! m = c")
      case True
      then have "t ! unat c = length p - 1 - m" unfolding t using u(1) unat_u8_less [of c] by simp
      then show ?thesis using len Suc.prems(3) by auto
    next
      case False
      then have "unat (p ! m) \<noteq> unat c" by (simp add: word_unat_eq_iff)
      then have "t ! unat c = ?u ! unat c" unfolding t by simp
      then show ?thesis using u len False by (auto simp: less_Suc_eq)
    qed
  qed
  then show "length t = 256" "t ! unat c \<le> n" "\<And>k. k < m \<Longrightarrow> p ! k = c \<Longrightarrow> t ! unat c \<le> length p - 1 - k"
    by blast+
qed

text \<open>The metadata of a prefix with the table that belongs to it.\<close>

definition skip_ready :: "search_meta \<Rightarrow> bool" where
  "skip_ready m \<longleftrightarrow>
     (sm_has_bmh_skip m \<longrightarrow>
        0 < sm_bmh_skip_len m \<and> length (sm_literal_prefix m) = sm_bmh_skip_len m \<and>
        sm_bmh_skip m = Some (bmh_table (sm_bmh_skip_len m) (sm_literal_prefix m)))"

definition prefix_place :: "search_meta \<times> bytes \<Rightarrow> nat \<Rightarrow> bool" where
  "prefix_place c i \<longleftrightarrow>
     skip_ready (fst c) \<and> (sm_has_bmh_skip (fst c) \<longrightarrow> occurs (sm_literal_prefix (fst c)) (snd c) i)"

lemma bmh_passes:
  assumes "skip_ready m" "sm_has_bmh_skip m" "i < j" "j < i + bmh_advance m s i"
  shows "\<not> occurs (sm_literal_prefix m) s j"
proof
  let ?p = "sm_literal_prefix m" and ?n = "sm_bmh_skip_len m"
  assume "occurs ?p s j"
  then have o: "j + length ?p \<le> length s" "\<forall>k < length ?p. s ! (j + k) = ?p ! k" by (auto simp: occurs_nth)
  have r: "0 < ?n" "length ?p = ?n" "sm_bmh_skip m = Some (bmh_table ?n ?p)" using assms(1,2) by (auto simp: skip_ready_def)
  let ?c = "s ! (i + ?n - 1)"
  have in_s: "i + ?n \<le> length s" using o(1) r(2) assms(3) by simp
  have adv: "bmh_advance m s i = max 1 (bmh_table ?n ?p ! unat ?c)" using r(3) assms(2) in_s by (simp add: bmh_advance_def)
  then have lt: "j < i + bmh_table ?n ?p ! unat ?c" using assms(3,4) by simp
  note table = bmh_fold(2) [OF bmh_table_def order_refl r(2) [symmetric], of ?c]
    bmh_fold(3) [OF bmh_table_def order_refl r(2) [symmetric]]
  have "bmh_table ?n ?p ! unat ?c \<le> ?n" by (rule table(1))
  then have "j < i + ?n" using lt by simp
  define k where "k = i + ?n - 1 - j"
  have k: "k < length ?p - 1" "j + k = i + ?n - 1" using \<open>j < i + ?n\<close> assms(3) r(1,2) by (auto simp: k_def)
  then have "?p ! k = ?c" using o(2) by (metis less_imp_diff_less less_le_trans diff_le_self)
  then have "bmh_table ?n ?p ! unat ?c \<le> length ?p - 1 - k"
    by (rule table(2) [OF k(1)])
  then show False using lt k r(2) by linarith
qed

interpretation bmh: safe_skip prefix_place "\<lambda>c i. i + bmh_advance (fst c) (snd c) i"
proof
  show "i < i + bmh_advance (fst c) (snd c) i" for c i by (simp add: bmh_advance_pos)
  show "\<not> prefix_place c j" if "i < j" "j < i + bmh_advance (fst c) (snd c) i" for i j c
  proof (cases "sm_has_bmh_skip (fst c)")
    case True
    then show ?thesis using bmh_passes that unfolding prefix_place_def by blast
  next
    case False
    then have "bmh_advance (fst c) (snd c) i = 1" by (simp add: bmh_advance_def split: option.splits)
    then show ?thesis using that by simp
  qed
qed

section \<open>Bitmaps of 256 bits\<close>

lemma bitmap256_test_bit: "bitmap256_test bm b \<longleftrightarrow> bit (bm ! (unat b div 8)) (unat b mod 8)"
proof -
  have "(x AND push_bit k 1 \<noteq> 0) = bit x k" if "k < 8" for x :: u8 and k
    using that by (simp add: bit_iff_and_push_bit_not_eq_0)
  then show ?thesis by (simp add: bitmap256_test_def)
qed

lemma bitmap256_length [simp]:
  "length (bitmap256_set b bm) = length bm" "length (bitmap256_set_all bm) = 32"
  by (simp_all add: bitmap256_set_def bitmap256_set_all_def)

lemma bitmap256_test_set:
  assumes "length bm = 32"
  shows "bitmap256_test (bitmap256_set b bm) c \<longleftrightarrow> c = b \<or> bitmap256_test bm c"
proof (cases "unat c div 8 = unat b div 8")
  case True
  have "unat b div 8 < 32" using unat_u8_less [of b] by simp
  moreover have "unat c mod 8 = unat b mod 8 \<longleftrightarrow> c = b"
    using True by (metis div_mult_mod_eq word_unat_eq_iff)
  ultimately show ?thesis
    using assms True by (auto simp: bitmap256_test_bit bitmap256_set_def bit_or_iff bit_exp_iff)
next
  case False
  then show ?thesis using assms by (auto simp: bitmap256_test_bit bitmap256_set_def)
qed

lemma bitmap256_test_all [simp]: "bitmap256_test (bitmap256_set_all bm) c"
proof -
  have "unat c div 8 < 32" using unat_u8_less [of c] by simp
  moreover have "bit (0xFF :: u8) (unat c mod 8)"
  proof -
    have "(0xFF :: u8) = mask 8" by (simp add: mask_numeral)
    then show ?thesis by (simp only: bit_mask_iff) simp
  qed
  ultimately show ?thesis by (simp add: bitmap256_test_bit bitmap256_set_all_def)
qed

end
