(* ===== verification/Search_Match.thy ===== *)
theory Search_Match
  imports Compiled_Match Search_Skip
begin

text \<open>
  The search with the full machine: it tries the offsets in order, from whatever state the attempt
  before has left the machine in, and finds the first offset at which the pattern matches. What the
  scan needs of the machine is an interface; the machine on the bytecode of a compiled pattern
  provides it.
\<close>

section \<open>The machine as a matcher\<close>

text \<open>The filters of the metadata let every match pass.\<close>

definition filters_pass :: "search_meta \<Rightarrow> bytes \<Rightarrow> (nat \<Rightarrow> nat option) \<Rightarrow> bool" where
  "filters_pass m s hit \<longleftrightarrow> skip_ready m \<and>
     (\<forall>i e. hit i = Some e \<longrightarrow>
        (sm_has_start_bitmap m \<and> i < length s \<longrightarrow> bitmap256_test (sm_start_bitmap m) (s ! i)) \<and>
        i + unat (sm_minlength m) \<le> length s \<and>
        (sm_has_bmh_skip m \<longrightarrow> occurs (sm_literal_prefix m) s i))"

text \<open>
  With enough steps an attempt at an offset ends: with the match there, or without one and in a state
  from which the next attempt can start.
\<close>

locale restartable =
  fixes run :: "nat \<Rightarrow> vm \<Rightarrow> outcome" and subject :: "'c \<Rightarrow> bytes" and good :: "'c \<Rightarrow> vm \<Rightarrow> bool"
    and hit :: "'c \<Rightarrow> nat \<Rightarrow> nat option"
  assumes inside: "hit c i = Some e \<Longrightarrow> i \<le> length (subject c)"
    and misses: "good c v \<Longrightarrow> i \<le> length (subject c) \<Longrightarrow> hit c i = None \<Longrightarrow>
      \<exists>k w. good c w \<and> \<not> abort_flag w \<and> (\<forall>n \<ge> k. run n (search_reset_vm (subject c) i v) = Done False w)"
    and matches: "good c v \<Longrightarrow> hit c i = Some e \<Longrightarrow>
      \<exists>k w. i + vm_pos w = e \<and> (\<forall>n \<ge> k. run n (search_reset_vm (subject c) i v) = Done True w)"
begin

lemma attempt_hit:
  assumes "good c v" "hit c i = Some e"
  shows "\<exists>k w. \<forall>n \<ge> k. \<forall>f. try_at (run n) (subject c) i r v f = Searched True (found_at i e r) w"
  using matches [OF assms] by (fastforce simp: try_at_def)

lemma attempt_miss:
  assumes "good c v" "i \<le> length (subject c)" "hit c i = None"
  shows "\<exists>k w. good c w \<and> \<not> abort_flag w \<and> (\<forall>n \<ge> k. \<forall>f. try_at (run n) (subject c) i r v f = f w)"
  using misses [OF assms] by (fastforce simp: try_at_def)

lemma general_loop_first:
  assumes "filters_pass m (subject c) (hit c)" "good c v"
  shows "\<exists>k w. \<forall>n \<ge> k. general_loop (run n) (subject c) m False i r v =
    (case first_match (hit c) i (length (subject c)) of
       Some (a, b) \<Rightarrow> Searched True (found_at a b r) w | None \<Rightarrow> Searched False (not_found r) w)"
  using assms(2)
proof (induction i arbitrary: v rule: measure_induct_rule [of "\<lambda>i. Suc (length (subject c)) - i"])
  case (less i)
  let ?s = "subject c"
  have filter: "bitmap256_test (sm_start_bitmap m) (?s ! i)" if "hit c i = Some e" "sm_has_start_bitmap m" "i < length ?s" for e
    using assms(1) that unfolding filters_pass_def by blast
  show ?case
  proof (cases "length ?s < i")
    case True
    then have "general_loop (run n) ?s m False i r v = Searched False (not_found r) v" for n
      by (subst general_loop.simps) simp
    then show ?thesis using True by (auto simp: first_match_behind)
  next
    case False
    then have in_s: "i \<le> length ?s" by simp
    show ?thesis
    proof (cases "sm_has_start_bitmap m \<and> i < length ?s \<and> \<not> bitmap256_test (sm_start_bitmap m) (?s ! i)")
      case True
      then have "hit c i = None" using filter by (cases "hit c i") auto
      moreover have "general_loop (run n) ?s m False i r v = general_loop (run n) ?s m False (i + 1) r v" for n
        using True by (subst general_loop.simps) simp
      ultimately show ?thesis using less.IH [of "i + 1" v] less.prems in_s by (simp add: first_match_miss)
    next
      case pass: False
      show ?thesis
      proof (cases "0 < sm_minlength m \<and> length ?s < i + unat (sm_minlength m)")
        case True
        have "hit c j = None" if "i \<le> j" for j
        proof (rule ccontr)
          assume "hit c j \<noteq> None"
          then have "j + unat (sm_minlength m) \<le> length ?s" using assms(1) unfolding filters_pass_def by blast
          then show False using True that by simp
        qed
        then have "first_match (hit c) i (length ?s) = None" by (simp add: first_match_None)
        moreover have "general_loop (run n) ?s m False i r v = Searched False (not_found r) v" for n
          using True pass in_s by (subst general_loop.simps) auto
        ultimately show ?thesis by auto
      next
        case long: False
        have loop: "general_loop (run n) ?s m False i r v = try_at (run n) ?s i r v
            (\<lambda>w. if abort_flag w then Searched False ((not_found r)\<lparr>sr_aborted := True\<rparr>) w
                 else if length ?s \<le> i \<or> False then Searched False (not_found r) w
                 else general_loop (run n) ?s m False (i + bmh_advance m ?s i) r w)" for n
          using pass long in_s by (subst general_loop.simps) auto
        show ?thesis
        proof (cases "hit c i")
          case (Some e)
          then have "first_match (hit c) i (length ?s) = Some (i, e)" using in_s by (simp add: first_match_hit)
          moreover obtain k w where "\<forall>n \<ge> k. \<forall>f. try_at (run n) ?s i r v f = Searched True (found_at i e r) w"
            using attempt_hit [OF less.prems Some] by blast
          then have "\<forall>n \<ge> k. general_loop (run n) ?s m False i r v = Searched True (found_at i e r) w"
            unfolding loop by blast
          ultimately show ?thesis by auto
        next
          case None
          obtain k w where w: "good c w" "\<not> abort_flag w" "\<forall>n \<ge> k. \<forall>f. try_at (run n) ?s i r v f = f w"
            using attempt_miss [OF less.prems in_s None] by blast
          show ?thesis
          proof (cases "i = length ?s")
            case True
            then have "first_match (hit c) i (length ?s) = None" using None by (simp add: first_match_miss first_match_behind)
            moreover have "\<forall>n \<ge> k. general_loop (run n) ?s m False i r v = Searched False (not_found r) w"
              using w True unfolding loop by simp
            ultimately show ?thesis by auto
          next
            case False
            let ?j = "i + bmh_advance m ?s i"
            have place: "prefix_place (m, ?s) j" if "hit c j = Some e" for j e
              using assms(1) that unfolding filters_pass_def prefix_place_def by auto
            have next_i: "first_match (hit c) i (length ?s) = first_match (hit c) ?j (length ?s)"
              using bmh.moves_on [of "hit c" "(m, ?s)", OF place None] by simp
            have lt: "Suc (length ?s) - ?j < Suc (length ?s) - i" using in_s bmh_advance_pos [of m ?s i] by simp
            obtain k' w' where "\<forall>n \<ge> k'. general_loop (run n) ?s m False ?j r w =
              (case first_match (hit c) ?j (length ?s) of
                 Some (a, b) \<Rightarrow> Searched True (found_at a b r) w' | None \<Rightarrow> Searched False (not_found r) w')"
              using less.IH [OF lt w(1)] by blast
            then have "\<forall>n \<ge> max k k'. general_loop (run n) ?s m False i r v =
              (case first_match (hit c) i (length ?s) of
                 Some (a, b) \<Rightarrow> Searched True (found_at a b r) w' | None \<Rightarrow> Searched False (not_found r) w')"
              using w(2,3) False in_s unfolding loop next_i by simp
            then show ?thesis by blast
          qed
        qed
      qed
    qed
  qed
qed

end

section \<open>Positions do not depend on the registers\<close>

definition position_only :: "(mstate \<Rightarrow> mstate list) \<Rightarrow> bool" where
  "position_only f \<longleftrightarrow> (\<forall>m m'. ms_at m = ms_at m' \<longrightarrow> map ms_at (f m) = map ms_at (f m'))"

lemma position_onlyD: "position_only f \<Longrightarrow> ms_at m = ms_at m' \<Longrightarrow> map ms_at (f m) = map ms_at (f m')"
  unfolding position_only_def by blast

lemma position_onlyI: "(\<And>m m'. ms_at m = ms_at m' \<Longrightarrow> map ms_at (f m) = map ms_at (f m')) \<Longrightarrow> position_only f"
  unfolding position_only_def by (intro allI impI)

lemma concat_positions:
  "map ms_at xs = map ms_at ys \<Longrightarrow> (\<And>x y. x \<in> set xs \<Longrightarrow> ms_at x = ms_at y \<Longrightarrow> map ms_at (f x) = map ms_at (g y)) \<Longrightarrow>
     map ms_at (concat (map f xs)) = map ms_at (concat (map g ys))"
proof (induction xs arbitrary: ys)
  case (Cons x xs)
  then show ?case by (cases ys) auto
qed simp

lemma position_star:
  assumes "position_only f"
  shows "position_only (star n f)"
proof (induction n)
  case (Suc n)
  show ?case unfolding position_only_def
  proof (intro allI impI)
    fix m m' :: mstate assume at: "ms_at m = ms_at m'"
    have "map ms_at (concat (map (\<lambda>x. if ms_at x = ms_at m then [x] else star n f x) (f m))) =
      map ms_at (concat (map (\<lambda>x. if ms_at x = ms_at m' then [x] else star n f x) (f m')))"
    proof (rule concat_positions [OF position_onlyD [OF assms at]])
      fix x y :: mstate assume "ms_at x = ms_at y"
      with position_onlyD [OF Suc this]
      show "map ms_at (if ms_at x = ms_at m then [x] else star n f x) = map ms_at (if ms_at y = ms_at m' then [y] else star n f y)"
        unfolding at by simp
    qed
    then show "map ms_at (star (Suc n) f m) = map ms_at (star (Suc n) f m')" using at by simp
  qed
qed (simp add: position_only_def)

lemma position_repeated:
  assumes "position_only f"
  shows "position_only (repeated lo hi f)"
proof (induction hi arbitrary: lo)
  case (Suc hi)
  show ?case unfolding position_only_def
  proof (intro allI impI)
    fix m m' :: mstate assume at: "ms_at m = ms_at m'"
    have "map ms_at (concat (map (repeated (lo - 1) hi f) (f m))) = map ms_at (concat (map (repeated (lo - 1) hi f) (f m')))"
      using position_onlyD [OF assms at] by (rule concat_positions) (rule position_onlyD [OF Suc])
    then show "map ms_at (repeated lo (Suc hi) f m) = map ms_at (repeated lo (Suc hi) f m')" using at by simp
  qed
qed (simp add: position_only_def)

lemma only_if_positions: "map ms_at (only_if b m) = (if b then [ms_at m] else [])"
  by (simp add: only_if_def)

lemma matches_positions: "position_only (matches cps a)" "position_only (matches_parts cps as)"
proof -
  have at: "\<forall>m'. ms_at m = ms_at m' \<longrightarrow> map ms_at (matches cps a m) = map ms_at (matches cps a m')"
    and at_parts: "\<forall>m'. ms_at m = ms_at m' \<longrightarrow> map ms_at (matches_parts cps as m) = map ms_at (matches_parts cps as m')" for m
  proof (induction cps a m and cps as m rule: matches_matches_parts.induct)
    case (4 cps a lo hi m)
    show ?case
    proof (cases "lo = 0 \<and> hi = - 1")
      case True
      have "position_only (matches cps (loop_body (unwrap_repeat a)))" by (rule position_onlyI) (rule 4(1) [OF True, rule_format])
      from position_onlyD [OF position_star [OF this], of m] show ?thesis using True by (simp del: star.simps)
    next
      case False
      have "position_only (matches cps a)" by (rule position_onlyI) (rule 4(2) [OF False, rule_format])
      from position_onlyD [OF position_repeated [OF this], of m] show ?thesis using False by auto
    qed
  next
    case (5 cps a m)
    have "position_only (matches cps (loop_body a))" by (rule position_onlyI) (rule 5(1) [rule_format])
    from position_onlyD [OF position_star [OF this], of m] show ?case by (simp del: star.simps)
  next
    case (34 cps a as m)
    show ?case
    proof (intro allI impI)
      fix m' :: mstate assume at: "ms_at m = ms_at m'"
      have "map ms_at (matches cps a m) = map ms_at (matches cps a m')" using 34(1) at by blast
      then have "map ms_at (concat (map (matches_parts cps as) (matches cps a m))) =
        map ms_at (concat (map (matches_parts cps as) (matches cps a m')))"
        by (rule concat_positions) (use 34(2) in blast)
      then show "map ms_at (matches_parts cps (a # as) m) = map ms_at (matches_parts cps (a # as) m')" by simp
    qed
  next
    case (10 cps r a m)
    have "map ms_at (matches cps a (open_cap (nat r) m)) = map ms_at (matches cps a (open_cap (nat r) m'))" if "ms_at m = ms_at m'" for m'
      by (rule 10 [rule_format]) (simp add: that)
    then show ?case by (simp add: comp_def)
  next
    case (3 cps l r m)
    show ?case
    proof (intro allI impI)
      fix m' :: mstate assume at: "ms_at m = ms_at m'"
      have "map ms_at (matches cps l m) = map ms_at (matches cps l m')" "map ms_at (matches cps r m) = map ms_at (matches cps r m')"
        using 3 at by blast+
      then show "map ms_at (matches cps (AST_ALT l r) m) = map ms_at (matches cps (AST_ALT l r) m')" by simp
    qed
  next
    case (2 cps parts m)
    then show ?case unfolding matches.simps .
  next
    case (12 cps a m)
    then show ?case unfolding matches.simps .
  qed ((rule allI, rule impI, simp add: Let_def only_if_positions comp_def split: option.splits anchor_type.splits)+)
  show "position_only (matches cps a)" by (rule position_onlyI) (rule at [rule_format])
  show "position_only (matches_parts cps as)" by (rule position_onlyI) (rule at_parts [rule_format])
qed

section \<open>The compiled pattern provides the interface\<close>

lemma trail_cost_mono: "n \<le> n' \<Longrightarrow> trail_cost n a \<le> trail_cost n' a" "n \<le> n' \<Longrightarrow> trail_costs n as \<le> trail_costs n' as"
proof (induction n a and n as rule: trail_cost_trail_costs.induct)
  case (3 n a lo hi)
  then show ?case by (auto intro!: mult_le_mono add_mono simp del: mult_Suc mult_Suc_right)
next
  case (4 n a)
  then show ?case by (auto intro!: mult_le_mono simp del: mult_Suc mult_Suc_right)
qed (auto intro: add_mono max.mono le_max_iff_disj [THEN iffD2])

definition ascii :: "u32 list \<Rightarrow> bool" where
  "ascii cps \<longleftrightarrow> list_all (\<lambda>c. c < 0x80) cps"

definition ascii_bytes :: "u32 list \<Rightarrow> bytes" where
  "ascii_bytes cps = map ucast cps"

lemma utf8_of_ascii: "ascii cps \<Longrightarrow> utf8 cps = ascii_bytes cps"
  unfolding ascii_def ascii_bytes_def by (rule utf8_ascii)

lemma ascii_drop: "ascii cps \<Longrightarrow> ascii (drop i cps)"
  by (auto simp: ascii_def list_all_iff dest: in_set_dropD)

lemma ascii_take: "ascii cps \<Longrightarrow> ascii (take i cps)"
  by (auto simp: ascii_def list_all_iff dest: in_set_takeD)

lemma ascii_off: "ascii cps \<Longrightarrow> i \<le> length cps \<Longrightarrow> off cps i = i"
  by (simp add: off_def utf8_of_ascii ascii_take ascii_bytes_def)

lemma ascii_valid: "ascii cps \<Longrightarrow> valid_cps cps"
proof -
  have "c < 0x80 \<Longrightarrow> valid_cp c" for c :: u32
    by (simp add: valid_cp_def word_less_nat_alt word_le_nat_alt)
  then show ?thesis if "ascii cps" using that by (auto simp: ascii_def valid_cps_def list_all_iff)
qed

lemma ascii_bytes_simps [simp]:
  "length (ascii_bytes cps) = length cps" "drop i (ascii_bytes cps) = ascii_bytes (drop i cps)"
  by (simp_all add: ascii_bytes_def drop_map)

text \<open>A pattern, its bytecode and a text of ASCII characters.\<close>

type_synonym task = "ast \<times> bytes \<times> u32 list"

definition pattern_hit :: "task \<Rightarrow> nat \<Rightarrow> nat option" where
  "pattern_hit c i =
     (case c of (a, bc, cps) \<Rightarrow>
        if i \<le> length cps
        then (case Match_Spec.matches (drop i cps) a ms_init of [] \<Rightarrow> None | m # _ \<Rightarrow> Some (i + ms_at m))
        else None)"

definition pattern_machine :: "task \<Rightarrow> vm \<Rightarrow> bool" where
  "pattern_machine c v =
     (case c of (a, bc, cps) \<Rightarrow>
        compiles_to a bc \<and> ascii cps \<and> length cps + 1 < 2 ^ 32 \<and> trail_cost (length cps) a < 2 ^ 32 \<and> ready bc v)"

lemma attempt_run:
  assumes "compiles_to a bc" "ascii cps" "length cps + 1 < 2 ^ 32" "trail_cost (length cps) a < 2 ^ 32" "ready bc v"
    and "i \<le> length cps"
  shows "\<exists>k m out. ms_at m = 0 \<and> run_result bc (drop i cps) (Match_Spec.matches (drop i cps) a m) out \<and>
    (\<forall>n \<ge> k. vm_exec False n (search_reset_vm (ascii_bytes cps) i v) = out)"
proof -
  let ?t = "drop i cps" and ?v = "search_reset_vm (ascii_bytes cps) i v"
  let ?up = "map (\<lambda>p. p + Suc (length ?t))"
  let ?m = "\<lparr>ms_at = 0, ms_cap_start = ?up (cap_start ?v), ms_cap_end = ?up (cap_end ?v),
             ms_var_start = ?up (var_start ?v), ms_var_end = ?up (var_end ?v)\<rparr>"
  have r: "regs_at ?t ?m ?v" unfolding regs_at_def mstate.simps reg_off_any by simp
  have s: "vm_s ?v = utf8 ?t" using assms(2) by (simp add: search_reset_vm_def utf8_of_ascii ascii_drop)
  have y: "ready bc ?v" using assms(5) by (simp add: ready_def registers_sized_def search_reset_vm_def)
  have l: "length ?t + 1 < 2 ^ 32" using assms(3) by simp
  have d: "trail_cost (length ?t) a < 2 ^ 32"
    using trail_cost_mono(1) [of "length ?t" "length cps" a] assms(4) by simp
  have "\<exists>k out. run_result bc ?t (Match_Spec.matches ?t a ?m) out \<and> (\<forall>n \<ge> k. vm_exec False n ?v = out)"
    by (rule compiled_run [OF assms(1) ascii_valid [OF ascii_drop [OF assms(2)]] l d y s r]) simp
  moreover have "ms_at ?m = 0" by simp
  ultimately show ?thesis by blast
qed

lemma hit_positions:
  assumes "ms_at m = 0" "i \<le> length cps"
  shows "pattern_hit (a, bc, cps) i =
    (case Match_Spec.matches (drop i cps) a m of [] \<Rightarrow> None | x # _ \<Rightarrow> Some (i + ms_at x))"
proof -
  have "map ms_at (Match_Spec.matches (drop i cps) a m) = map ms_at (Match_Spec.matches (drop i cps) a ms_init)"
    by (rule position_onlyD [OF matches_positions(1)]) (simp add: assms(1) ms_init_def)
  then show ?thesis
    using assms(2) by (auto simp: pattern_hit_def map_eq_Cons_conv Cons_eq_map_conv split: list.splits)
qed

interpretation machine: restartable "vm_exec False" "\<lambda>(a, bc, cps). ascii_bytes cps" pattern_machine pattern_hit
proof
  fix c :: task and i e :: nat and v :: vm
  obtain a bc cps where c: "c = (a, bc, cps)" by (cases c)
  show "i \<le> length ((\<lambda>(a, bc, cps). ascii_bytes cps) c)" if "pattern_hit c i = Some e"
    using that by (simp add: c pattern_hit_def split: if_splits)
  have attempt: "\<exists>k m out. ms_at m = 0 \<and> run_result bc (drop i cps) (Match_Spec.matches (drop i cps) a m) out \<and>
      (\<forall>n \<ge> k. vm_exec False n (search_reset_vm (ascii_bytes cps) i v) = out)"
    if "pattern_machine c v" and "i \<le> length cps"
    using attempt_run [of a bc cps v i] that by (simp add: c pattern_machine_def)
  show "\<exists>k w. pattern_machine c w \<and> \<not> abort_flag w \<and>
      (\<forall>n \<ge> k. vm_exec False n (search_reset_vm ((\<lambda>(a, bc, cps). ascii_bytes cps) c) i v) = Done False w)"
    if good: "pattern_machine c v" and "i \<le> length ((\<lambda>(a, bc, cps). ascii_bytes cps) c)" and miss: "pattern_hit c i = None"
  proof -
    have i: "i \<le> length cps" using that(2) by (simp add: c)
    obtain k m out where km: "ms_at m = 0" "run_result bc (drop i cps) (Match_Spec.matches (drop i cps) a m) out"
        "\<forall>n \<ge> k. vm_exec False n (search_reset_vm (ascii_bytes cps) i v) = out"
      using attempt [OF good i] by blast
    have "Match_Spec.matches (drop i cps) a m = []"
      using hit_positions [OF km(1) i, of a bc] miss by (simp add: c split: list.splits)
    then obtain w where w: "out = Done False w" "ready bc w" "\<not> abort_flag w" using km(2) by (auto simp: run_result_def)
    then have "pattern_machine c w" using good by (simp add: c pattern_machine_def)
    then show ?thesis using w(1,3) km(3) by (auto simp: c)
  qed
  show "\<exists>k w. i + vm_pos w = e \<and>
      (\<forall>n \<ge> k. vm_exec False n (search_reset_vm ((\<lambda>(a, bc, cps). ascii_bytes cps) c) i v) = Done True w)"
    if good: "pattern_machine c v" and hit: "pattern_hit c i = Some e"
  proof -
    have i: "i \<le> length cps" using hit by (simp add: c pattern_hit_def split: if_splits)
    have asc: "ascii (drop i cps)" using good ascii_drop by (simp add: c pattern_machine_def)
    obtain k m out where km: "ms_at m = 0" "run_result bc (drop i cps) (Match_Spec.matches (drop i cps) a m) out"
        "\<forall>n \<ge> k. vm_exec False n (search_reset_vm (ascii_bytes cps) i v) = out"
      using attempt [OF good i] by blast
    obtain x xs where x: "Match_Spec.matches (drop i cps) a m = x # xs" "e = i + ms_at x"
      using hit_positions [OF km(1) i, of a bc] hit by (simp add: c split: list.splits)
    then obtain w where w: "out = Done True w" "vm_pos w = off (drop i cps) (ms_at x)"
      using km(2) by (auto simp: run_result_def)
    have "ms_at x \<le> length (drop i cps)" using forwardD [OF matches_forward(1), of m "drop i cps" x a] km(1) x(1) by simp
    then have "vm_pos w = ms_at x" using w(2) ascii_off [OF asc] by simp
    then show ?thesis using w(1) km(3) x(2) by (auto simp: c)
  qed
qed

section \<open>The search of the machine\<close>



end
