(* ===== verification/Search_Trie_Correct.thy ===== *)
theory Search_Trie_Correct
  imports Search_Find
begin

text \<open>
  The trie finds the first literal of the list, in the order of the list, that the subject starts
  with. The two pools represent a map from literals to their orders: every node has a label, the
  bytes on the way to it, and the list of edges of a node has exactly the nodes with one byte more.
\<close>

section \<open>Lists of edges\<close>

fun linked :: "auto_edge list \<Rightarrow> nat option \<Rightarrow> nat list \<Rightarrow> bool" where
  "linked edges start [] = (start = None)"
| "linked edges start (e # es) = (start = Some e \<and> e < length edges \<and> linked edges (ed_sibling (edges ! e)) es)"

lemma find_edge_linked:
  "linked edges start es \<Longrightarrow> length es \<le> n \<Longrightarrow>
     fst (find_edge n edges b start prev) = List.find (\<lambda>e. ed_byte (edges ! e) = b) es \<and>
     (List.find (\<lambda>e. ed_byte (edges ! e) = b) es = None \<longrightarrow>
        snd (find_edge n edges b start prev) = (if es = [] then prev else Some (last es)))"
proof (induction es arbitrary: n start prev)
  case (Cons e es)
  then obtain m where "n = Suc m" by (cases n) auto
  then show ?case using Cons by auto
qed simp

lemma linked_bound: "linked edges start es \<Longrightarrow> e \<in> set es \<Longrightarrow> e < length edges"
  by (induction es arbitrary: start) auto

lemma linked_short:
  assumes "linked edges start es" "distinct es"
  shows "length es \<le> length edges"
proof -
  have "set es \<subseteq> {..<length edges}" using linked_bound [OF assms(1)] by auto
  then show ?thesis using card_mono [of "{..<length edges}" "set es"] distinct_card [OF assms(2)] by simp
qed

lemma linked_append: "linked edges start es \<Longrightarrow> linked (edges @ xs) start es"
  by (induction es arbitrary: start) (auto simp: nth_append)

lemma linked_elsewhere: "linked edges start es \<Longrightarrow> p \<notin> set es \<Longrightarrow> linked (edges[p := x]) start es"
  by (induction es arbitrary: start) auto

lemma linked_snoc:
  assumes "linked edges start es" "es \<noteq> []" "distinct es" "x < length edges" "ed_sibling (edges ! x) = None" "x \<notin> set es"
  shows "linked (edges[last es := (edges ! last es)\<lparr>ed_sibling := Some x\<rparr>]) start (es @ [x])"
  using assms
proof (induction es arbitrary: start)
  case (Cons e es)
  show ?case
  proof (cases "es = []")
    case False
    then have "last es \<noteq> e" using Cons.prems(3) by auto
    then show ?thesis using Cons False by simp
  qed (use Cons in auto)
qed simp

section \<open>What a trie represents\<close>

definition children :: "auto_trie \<Rightarrow> bytes list \<Rightarrow> nat \<Rightarrow> nat list \<Rightarrow> bool" where
  "children t lab n es \<longleftrightarrow>
     linked (at_edges t) (no_first_edge (at_nodes t ! n)) es \<and> distinct es \<and>
     (\<forall>e. e \<in> set es \<longleftrightarrow> e < length (at_edges t) \<and> lab ! Suc e = lab ! n @ [ed_byte (at_edges t ! e)])"

definition trie_rep :: "auto_trie \<Rightarrow> bytes list \<Rightarrow> bool" where
  "trie_rep t lab \<longleftrightarrow>
     length lab = length (at_nodes t) \<and> length (at_nodes t) = Suc (length (at_edges t)) \<and>
     lab ! 0 = [] \<and> distinct lab \<and>
     (\<forall>e < length (at_edges t). ed_next (at_edges t ! e) = Suc e \<and>
        (\<exists>n < length lab. lab ! Suc e = lab ! n @ [ed_byte (at_edges t ! e)])) \<and>
     (\<forall>n < length lab. \<exists>es. children t lab n es)"

text \<open>The map of the ends, which are at labels only.\<close>

definition trie_holds :: "auto_trie \<Rightarrow> bytes list \<Rightarrow> (bytes \<rightharpoonup> nat) \<Rightarrow> bool" where
  "trie_holds t lab A \<longleftrightarrow>
     trie_rep t lab \<and> (\<forall>n < length lab. no_end (at_nodes t ! n) = A (lab ! n)) \<and> dom A \<subseteq> set lab"

lemma trie_empty_holds: "trie_holds trie_empty [[]] Map.empty"
  by (simp add: trie_holds_def trie_rep_def trie_empty_def fresh_node_def children_def)

lemma child:
  assumes "trie_rep t lab" "n < length lab"
  shows "fst (edge_of t n b) = Some e \<longleftrightarrow> e < length (at_edges t) \<and> lab ! Suc e = lab ! n @ [b]"
proof -
  obtain es where es: "children t lab n es" using assms unfolding trie_rep_def by blast
  then have "fst (edge_of t n b) = List.find (\<lambda>e. ed_byte (at_edges t ! e) = b) es"
    using find_edge_linked linked_short unfolding edge_of_def children_def by blast
  moreover have "List.find (\<lambda>e. ed_byte (at_edges t ! e) = b) es = Some e \<longleftrightarrow>
      e < length (at_edges t) \<and> lab ! Suc e = lab ! n @ [b]"
  proof
    assume "List.find (\<lambda>e. ed_byte (at_edges t ! e) = b) es = Some e"
    then have "e \<in> set es" "ed_byte (at_edges t ! e) = b" by (auto simp: find_Some_iff)
    then show "e < length (at_edges t) \<and> lab ! Suc e = lab ! n @ [b]" using es unfolding children_def by auto
  next
    assume e: "e < length (at_edges t) \<and> lab ! Suc e = lab ! n @ [b]"
    have d: "distinct lab" "length lab = Suc (length (at_edges t))" using assms(1) by (auto simp: trie_rep_def)
    have b: "ed_byte (at_edges t ! e) = b" using assms(1) e by (auto simp: trie_rep_def)
    then have "e \<in> set es" using es e unfolding children_def by auto
    then obtain e' where e': "List.find (\<lambda>e. ed_byte (at_edges t ! e) = b) es = Some e'"
      using b by (cases "List.find (\<lambda>e. ed_byte (at_edges t ! e) = b) es") (auto simp: find_None_iff)
    then have "e' \<in> set es" "ed_byte (at_edges t ! e') = b" by (auto simp: find_Some_iff)
    then have "e' < length (at_edges t)" "lab ! Suc e' = lab ! Suc e" using es e unfolding children_def by auto
    then have "e' = e" using d e nth_eq_iff_index_eq [OF d(1), of "Suc e'" "Suc e"] by simp
    then show "List.find (\<lambda>e. ed_byte (at_edges t ! e) = b) es = Some e" using e' by simp
  qed
  ultimately show ?thesis by simp
qed

lemma no_child:
  assumes "trie_rep t lab" "n < length lab" "fst (edge_of t n b) = None"
  shows "lab ! n @ [b] \<notin> set lab"
proof
  assume "lab ! n @ [b] \<in> set lab"
  then obtain m where m: "m < length lab" "lab ! m = lab ! n @ [b]" by (metis in_set_conv_nth)
  then obtain e where "m = Suc e" using assms(1) by (cases m) (auto simp: trie_rep_def)
  then have "fst (edge_of t n b) = Some e" using child [OF assms(1,2)] m assms(1) by (simp add: trie_rep_def)
  then show False using assms(3) by simp
qed

lemma labels_closed:
  assumes "trie_rep t lab" "u @ v \<in> set lab"
  shows "u \<in> set lab"
  using assms(2)
proof (induction v rule: rev_induct)
  case (snoc b v)
  obtain m where m: "m < length lab" "lab ! m = u @ v @ [b]" using snoc.prems by (metis in_set_conv_nth append_assoc)
  then obtain e where e: "m = Suc e" using assms(1) by (cases m) (auto simp: trie_rep_def)
  then have "e < length (at_edges t)" using m(1) assms(1) by (auto simp: trie_rep_def)
  then obtain n where "n < length lab" "lab ! Suc e = lab ! n @ [ed_byte (at_edges t ! e)]"
    using assms(1) unfolding trie_rep_def by blast
  then have "u @ v \<in> set lab" using m(2) e by (metis append_assoc butlast_snoc nth_mem)
  then show ?case using snoc.IH by simp
qed simp

section \<open>Inserting\<close>

lemma snd_edge_of:
  assumes "trie_rep t lab" "n < length lab" "edge_of t n b = (None, prev)" "children t lab n es"
  shows "prev = (if es = [] then None else Some (last es))"
  using find_edge_linked [of "at_edges t" "no_first_edge (at_nodes t ! n)" es "length (at_edges t)" b None]
    linked_short assms(3,4) unfolding edge_of_def children_def by (metis fst_conv snd_conv)

lemma add_child_edges:
  "length (at_edges (add_child t n b prev)) = Suc (length (at_edges t))"
  "length (at_nodes (add_child t n b prev)) = Suc (length (at_nodes t))"
  by (simp_all add: add_child_def Let_def split: option.splits)

lemma add_child_edge:
  "e < length (at_edges t) \<Longrightarrow> ed_byte (at_edges (add_child t n b prev) ! e) = ed_byte (at_edges t ! e)"
  "e < length (at_edges t) \<Longrightarrow> ed_next (at_edges (add_child t n b prev) ! e) = ed_next (at_edges t ! e)"
  "(case prev of Some p \<Rightarrow> p < length (at_edges t) | None \<Rightarrow> True) \<Longrightarrow>
     ed_byte (at_edges (add_child t n b prev) ! length (at_edges t)) = b"
  "(case prev of Some p \<Rightarrow> p < length (at_edges t) | None \<Rightarrow> True) \<Longrightarrow>
     ed_next (at_edges (add_child t n b prev) ! length (at_edges t)) = length (at_nodes t)"
  by (auto simp: add_child_def Let_def nth_append nth_list_update split: option.splits)

lemma add_child_end:
  "m < length (at_nodes t) \<Longrightarrow> no_end (at_nodes (add_child t n b prev) ! m) = no_end (at_nodes t ! m)"
  "n < length (at_nodes t) \<Longrightarrow> no_end (at_nodes (add_child t n b prev) ! length (at_nodes t)) = None"
  by (auto simp: add_child_def Let_def nth_append nth_list_update fresh_node_def split: option.splits)

lemma add_child_children:
  assumes "trie_rep t lab" "n < length lab" "edge_of t n b = (None, prev)" "m < length lab" "children t lab m es"
  shows "children (add_child t n b prev) (lab @ [lab ! n @ [b]]) m (if m = n then es @ [length (at_edges t)] else es)"
proof -
  let ?ne = "length (at_edges t)" and ?t = "add_child t n b prev" and ?lab = "lab @ [lab ! n @ [b]]"
  have len: "length lab = Suc ?ne" "length (at_nodes t) = Suc ?ne" "distinct lab" using assms(1) by (auto simp: trie_rep_def)
  obtain ns where ns: "children t lab n ns" using assms(1,2) unfolding trie_rep_def by blast
  have prev: "prev = (if ns = [] then None else Some (last ns))" using snd_edge_of [OF assms(1-3) ns] .
  have es: "linked (at_edges t) (no_first_edge (at_nodes t ! m)) es" "distinct es"
    "\<And>e. e \<in> set es \<longleftrightarrow> e < ?ne \<and> lab ! Suc e = lab ! m @ [ed_byte (at_edges t ! e)]"
    using assms(5) unfolding children_def by blast+
  have nsl: "linked (at_edges t) (no_first_edge (at_nodes t ! n)) ns" "distinct ns"
    "\<And>e. e \<in> set ns \<longleftrightarrow> e < ?ne \<and> lab ! Suc e = lab ! n @ [ed_byte (at_edges t ! e)]"
    using ns unfolding children_def by blast+
  have plt: "case prev of Some p \<Rightarrow> p < ?ne | None \<Rightarrow> True" using prev nsl(3) last_in_set by auto
  have old: "?lab ! Suc e = lab ! Suc e" if "e < ?ne" for e using that len by (simp add: nth_append)
  have new: "?lab ! Suc ?ne = lab ! n @ [b]" using len by (metis nth_append_length)
  have mem: "e \<in> set (if m = n then es @ [?ne] else es) \<longleftrightarrow>
      e < length (at_edges ?t) \<and> ?lab ! Suc e = ?lab ! m @ [ed_byte (at_edges ?t ! e)]" for e
  proof (cases "e = ?ne")
    case True
    have "?ne \<notin> set es" using es(3) by blast
    moreover have "lab ! n = lab ! m \<longleftrightarrow> n = m" using nth_eq_iff_index_eq [OF len(3)] assms(2,4) by simp
    ultimately show ?thesis
      using True new assms(4) add_child_edge(3) [OF plt] add_child_edges(1) by (auto simp: nth_append)
  next
    case False
    have lm: "?lab ! m = lab ! m" using assms(4) by (simp add: nth_append)
    show ?thesis
    proof (cases "e < ?ne")
      case True
      then show ?thesis
        using False es(3) old [OF True] add_child_edges(1) [of t n b prev] add_child_edge(1) [OF True, of n b prev] unfolding lm by auto
    next
      case False
      then show ?thesis using \<open>e \<noteq> ?ne\<close> es(3) add_child_edges(1) [of t n b prev] by auto
    qed
  qed
  have dist: "distinct (if m = n then es @ [?ne] else es)" using es(2,3) by auto
  have same: "es = ns" if "m = n"
  proof -
    have "linked x s as \<Longrightarrow> linked x s bs \<Longrightarrow> as = bs" for x s as bs
      by (induction as arbitrary: s bs) (case_tac bs; auto)+
    then show ?thesis using es(1) nsl(1) that by blast
  qed
  have "linked (at_edges ?t) (no_first_edge (at_nodes ?t ! m)) (if m = n then es @ [?ne] else es)"
  proof (cases "ns = []")
    case True
    then have p: "prev = None" using prev by simp
    show ?thesis
    proof (cases "m = n")
      case True
      then show ?thesis using p same \<open>ns = []\<close> len assms(2) by (simp add: add_child_def Let_def nth_append)
    next
      case False
      then show ?thesis using p es(1) linked_append len assms(4) by (simp add: add_child_def Let_def nth_append)
    qed
  next
    case False
    let ?edges = "at_edges t @ [\<lparr>ed_byte = b, ed_next = length (at_nodes t), ed_sibling = None\<rparr>]"
    have p: "prev = Some (last ns)" "last ns < ?ne" using prev False nsl(3) last_in_set by auto
    show ?thesis
    proof (cases "m = n")
      case True
      have "linked (?edges[last ns := (?edges ! last ns)\<lparr>ed_sibling := Some ?ne\<rparr>]) (no_first_edge (at_nodes t ! n)) (ns @ [?ne])"
        using False nsl by (intro linked_snoc linked_append) auto
      then show ?thesis using True same p len assms(2) by (simp add: add_child_def Let_def nth_append)
    next
      case False
      have "lab ! m \<noteq> lab ! n" using False nth_eq_iff_index_eq [OF len(3)] assms(2,4) by simp
      then have "last ns \<notin> set es" using es(3) nsl(3) last_in_set [OF \<open>ns \<noteq> []\<close>] by auto
      then have "linked (?edges[last ns := (?edges ! last ns)\<lparr>ed_sibling := Some ?ne\<rparr>]) (no_first_edge (at_nodes t ! m)) es"
        using es(1) by (intro linked_elsewhere linked_append)
      then show ?thesis using False p len assms(4) by (simp add: add_child_def Let_def nth_append)
    qed
  qed
  then show ?thesis using dist mem unfolding children_def by blast
qed

lemma add_child_holds:
  assumes "trie_holds t lab A" "n < length lab" "edge_of t n b = (None, prev)"
  shows "trie_holds (add_child t n b prev) (lab @ [lab ! n @ [b]]) A"
proof -
  let ?ne = "length (at_edges t)" and ?t = "add_child t n b prev" and ?lab = "lab @ [lab ! n @ [b]]"
  have rep: "trie_rep t lab" and A: "\<And>m. m < length lab \<Longrightarrow> no_end (at_nodes t ! m) = A (lab ! m)" "dom A \<subseteq> set lab"
    using assms(1) unfolding trie_holds_def by blast+
  have len: "length lab = Suc ?ne" "length (at_nodes t) = Suc ?ne" "distinct lab" "lab ! 0 = []"
    using rep by (auto simp: trie_rep_def)
  have fresh: "lab ! n @ [b] \<notin> set lab" using no_child [OF rep assms(2)] assms(3) by simp
  obtain ns where ns: "children t lab n ns" using rep assms(2) unfolding trie_rep_def by blast
  then have "case prev of Some p \<Rightarrow> p < ?ne | None \<Rightarrow> True"
    using snd_edge_of [OF rep assms(2,3) ns] last_in_set unfolding children_def by auto
  note new = add_child_edge(3,4) [OF this]
  have edges: "ed_next (at_edges ?t ! e) = Suc e \<and> (\<exists>m < length ?lab. ?lab ! Suc e = ?lab ! m @ [ed_byte (at_edges ?t ! e)])"
    if "e < length (at_edges ?t)" for e
  proof (cases "e = ?ne")
    case True
    have "?lab ! Suc ?ne = lab ! n @ [b]" using len by (metis nth_append_length)
    then show ?thesis using True new len assms(2) by (auto simp: nth_append intro!: exI [of _ n])
  next
    case False
    then have e: "e < ?ne" using that add_child_edges(1) [of t n b prev] by simp
    then obtain m where "m < length lab" "lab ! Suc e = lab ! m @ [ed_byte (at_edges t ! e)]" "ed_next (at_edges t ! e) = Suc e"
      using rep unfolding trie_rep_def by blast
    then show ?thesis using e add_child_edge(1,2) [of e t n b prev] len by (auto simp: nth_append intro!: exI [of _ m])
  qed
  have kids: "\<exists>es. children ?t ?lab m es" if "m < length ?lab" for m
  proof (cases "m < length lab")
    case True
    then obtain es where "children t lab m es" using rep unfolding trie_rep_def by blast
    from add_child_children [OF rep assms(2,3) True this] show ?thesis by blast
  next
    case False
    then have m: "m = length lab" using that by simp
    have "no_first_edge (at_nodes ?t ! m) = None"
      using m len assms(2) by (auto simp: add_child_def Let_def nth_append nth_list_update fresh_node_def split: option.splits)
    moreover have "?lab ! Suc e \<noteq> ?lab ! m @ [x]" if "e < length (at_edges ?t)" for e x
    proof
      assume eq: "?lab ! Suc e = ?lab ! m @ [x]"
      show False
      proof (cases "e = ?ne")
        case True
        then show False using eq m len by (metis append_self_conv nth_append_length not_Cons_self2)
      next
        case False
        then have e: "e < ?ne" using that add_child_edges(1) [of t n b prev] by simp
        then have "(lab ! n @ [b]) @ [x] \<in> set lab" using eq m len by (metis nth_append nth_append_length nth_mem Suc_less_eq)
        then show False using labels_closed [OF rep] fresh by blast
      qed
    qed
    ultimately have "children ?t ?lab m []" unfolding children_def by auto
    then show ?thesis by blast
  qed
  have "trie_rep ?t ?lab"
    using len fresh edges kids add_child_edges [of t n b prev] unfolding trie_rep_def by (simp add: nth_append)
  moreover have "no_end (at_nodes ?t ! m) = A (?lab ! m)" if "m < length ?lab" for m
  proof (cases "m < length lab")
    case True
    then show ?thesis using A(1) add_child_end(1) [of m t] len by (simp add: nth_append)
  next
    case False
    have "A (lab ! n @ [b]) = None" using fresh A(2) by auto
    moreover have "m = length (at_nodes t)" using False that len by simp
    ultimately show ?thesis using add_child_end(2) [of n t] len assms(2) by (simp add: nth_append)
  qed
  ultimately show ?thesis using A(2) unfolding trie_holds_def by auto
qed

lemma trie_path_holds:
  assumes "trie_holds t lab A" "n < length lab" "trie_path t n s = Some (t', n')"
  shows "\<exists>lab'. trie_holds t' lab' A \<and> n' < length lab' \<and> lab' ! n' = lab ! n @ s"
  using assms
proof (induction s arbitrary: t n lab)
  case (Cons b s)
  have rep: "trie_rep t lab" using Cons.prems(1) unfolding trie_holds_def by blast
  obtain o' prev where e: "edge_of t n b = (o', prev)" by fastforce
  show ?case
  proof (cases o')
    case (Some e)
    have c: "e < length (at_edges t)" "lab ! Suc e = lab ! n @ [b]" using child [OF rep Cons.prems(2), of b e] e Some by simp_all
    then have "Suc e < length lab" "ed_next (at_edges t ! e) = Suc e" using rep by (auto simp: trie_rep_def)
    then show ?thesis using Cons.IH [of t lab "Suc e"] Cons.prems e Some c by auto
  next
    case None
    let ?t = "add_child t n b prev" and ?lab = "lab @ [lab ! n @ [b]]"
    have "trie_holds ?t ?lab A" using add_child_holds [OF Cons.prems(1,2)] e None by simp
    moreover have "length (at_nodes t) = length lab" using rep by (simp add: trie_rep_def)
    moreover have "trie_path ?t (length (at_nodes t)) s = Some (t', n')" using Cons.prems(3) e None by (simp split: if_splits)
    ultimately show ?thesis using Cons.IH [of ?t ?lab "length lab"] by auto
  qed
qed auto

definition put_order :: "bytes \<Rightarrow> nat \<Rightarrow> (bytes \<rightharpoonup> nat) \<Rightarrow> (bytes \<rightharpoonup> nat)" where
  "put_order s k A = A(s \<mapsto> (case A s of None \<Rightarrow> k | Some j \<Rightarrow> min k j))"

lemma trie_insert_holds:
  assumes "trie_holds t lab A" "trie_insert t s k = Some t'"
  shows "\<exists>lab'. trie_holds t' lab' (put_order s k A)"
proof -
  obtain u n where u: "trie_path t 0 s = Some (u, n)" "t' = u\<lparr>at_nodes := (at_nodes u)[n := mark_end k (at_nodes u ! n)]\<rparr>"
    using assms(2) by (auto simp: trie_insert_def split: option.splits)
  have "0 < length lab" "lab ! 0 = []" using assms(1) by (auto simp: trie_holds_def trie_rep_def)
  then obtain lab' where l: "trie_holds u lab' A" "n < length lab'" "lab' ! n = s"
    using trie_path_holds [OF assms(1) _ u(1)] by auto
  have rep: "trie_rep u lab'" and A: "\<And>m. m < length lab' \<Longrightarrow> no_end (at_nodes u ! m) = A (lab' ! m)" "dom A \<subseteq> set lab'"
    using l(1) unfolding trie_holds_def by blast+
  have len: "length (at_nodes u) = length lab'" "distinct lab'" using rep by (simp_all add: trie_rep_def)
  have first: "no_first_edge (at_nodes t' ! m) = no_first_edge (at_nodes u ! m)" for m
    unfolding u(2) using l(2) len by (auto simp: mark_end_def nth_list_update split: option.splits)
  have same: "at_edges t' = at_edges u" "length (at_nodes t') = length (at_nodes u)" using u(2) by simp_all
  have kids: "children t' lab' m es = children u lab' m es" for m es using same first by (simp add: children_def)
  have "trie_rep t' lab'" using rep unfolding trie_rep_def kids same .
  moreover have "no_end (at_nodes t' ! m) = put_order s k A (lab' ! m)" if "m < length lab'" for m
  proof (cases "m = n")
    case True
    then show ?thesis using A(1) [OF l(2)] l len u(2) by (auto simp: put_order_def mark_end_def split: option.splits)
  next
    case False
    then have "lab' ! m \<noteq> s" using nth_eq_iff_index_eq [OF len(2)] that l by auto
    then show ?thesis using False A(1) [OF that] len u(2) by (simp add: put_order_def)
  qed
  moreover have "dom (put_order s k A) \<subseteq> set lab'" using A(2) l(2,3) by (auto simp: put_order_def)
  ultimately show ?thesis unfolding trie_holds_def by blast
qed

text \<open>The pools are big enough for literals of 250 bytes in all.\<close>

lemma trie_path_size:
  "trie_path t n s = Some (t', n') \<Longrightarrow> length (at_edges t') \<le> length (at_edges t) + length s"
proof (induction s arbitrary: t n)
  case (Cons b s)
  then show ?case
    by (force split: prod.splits option.splits if_splits simp: add_child_edges)
qed simp

lemma trie_path_room:
  assumes "length (at_nodes t) = Suc (length (at_edges t))" "length (at_edges t) + length s \<le> 255"
  shows "trie_path t n s \<noteq> None"
  using assms
proof (induction s arbitrary: t n)
  case (Cons b s)
  show ?case
  proof (cases "edge_of t n b")
    case (Pair o' prev)
    show ?thesis
    proof (cases o')
      case None
      have "trie_path (add_child t n b prev) (length (at_nodes t)) s \<noteq> None"
        using Cons.prems by (intro Cons.IH) (simp_all add: add_child_edges)
      then show ?thesis using Pair None Cons.prems by (simp add: SNOBOL_AUTO_MAX_NODES_def SNOBOL_AUTO_MAX_EDGES_def)
    next
      case (Some e)
      have "trie_path t (ed_next (at_edges t ! e)) s \<noteq> None" using Cons.prems by (intro Cons.IH) simp_all
      then show ?thesis using Pair Some by simp
    qed
  qed
qed simp

lemma trie_insert_room:
  assumes "trie_holds t lab A" "length (at_edges t) + length s \<le> 255"
  shows "\<exists>t'. trie_insert t s k = Some t' \<and> length (at_edges t') \<le> length (at_edges t) + length s"
proof -
  have "length (at_nodes t) = Suc (length (at_edges t))" using assms(1) by (auto simp: trie_holds_def trie_rep_def)
  then obtain u n where u: "trie_path t 0 s = Some (u, n)" using trie_path_room [OF _ assms(2)] by fastforce
  then show ?thesis using trie_path_size [OF u] by (simp add: trie_insert_def)
qed

section \<open>Matching\<close>

fun best_end :: "(bytes \<rightharpoonup> nat) \<Rightarrow> bytes \<Rightarrow> bytes \<Rightarrow> nat \<times> nat \<Rightarrow> nat \<times> nat" where
  "best_end A u [] best = best"
| "best_end A u (b # s) best =
     best_end A (u @ [b]) s
       (case A (u @ [b]) of Some k \<Rightarrow> if k < fst best then (k, length u + 1) else best | None \<Rightarrow> best)"

lemma best_end_none: "(\<And>v. prefix u v \<Longrightarrow> v \<noteq> u \<Longrightarrow> A v = None) \<Longrightarrow> best_end A u s best = best"
proof (induction s arbitrary: u)
  case (Cons b s)
  have "A (u @ [b]) = None" using Cons.prems [of "u @ [b]"] by simp
  moreover have "best_end A (u @ [b]) s best = best"
    using Cons.prems by (intro Cons.IH) (metis append_prefixD prefix_order.antisym self_append_conv not_Cons_self2 prefix_snoc)
  ultimately show ?case by simp
qed simp

lemma trie_match_loop_best:
  assumes "trie_holds t lab A" "n < length lab"
  shows "trie_match_loop t n s (length (lab ! n)) best = best_end A (lab ! n) s best"
  using assms(2)
proof (induction s arbitrary: n best)
  case (Cons b s)
  have rep: "trie_rep t lab" and A: "\<And>m. m < length lab \<Longrightarrow> no_end (at_nodes t ! m) = A (lab ! m)" "dom A \<subseteq> set lab"
    using assms(1) unfolding trie_holds_def by blast+
  show ?case
  proof (cases "fst (edge_of t n b)")
    case None
    have "A (lab ! n @ b # v) = None" for v
    proof (rule ccontr)
      assume "A (lab ! n @ b # v) \<noteq> None"
      then have "(lab ! n @ [b]) @ v \<in> set lab" using A(2) by auto
      then show False using labels_closed [OF rep] no_child [OF rep Cons.prems None] by blast
    qed
    then have "A (lab ! n @ [b]) = None" "best_end A (lab ! n @ [b]) s best = best"
      by (simp, intro best_end_none) (auto simp: prefix_def)
    then show ?thesis using None by simp
  next
    case (Some e)
    then have c: "e < length (at_edges t)" "lab ! Suc e = lab ! n @ [b]" using child [OF rep Cons.prems] by simp_all
    then have e: "Suc e < length lab" "ed_next (at_edges t ! e) = Suc e" using rep by (auto simp: trie_rep_def)
    show ?thesis using Cons.IH [OF e(1)] Some c A(1) [OF e(1)] e(2) by (simp add: Let_def)
  qed
qed simp

text \<open>The order of the literals of a list, and the best one among the strings of a set.\<close>

definition orders :: "bytes list \<Rightarrow> (bytes \<rightharpoonup> nat)" where
  "orders lits s = (if s \<in> set lits then Some (length (takeWhile (\<lambda>l. l \<noteq> s) lits)) else None)"

lemma orders_snoc: "put_order s (length lits) (orders lits) = orders (lits @ [s])"
proof -
  have "length (takeWhile (\<lambda>l. l \<noteq> s) lits) \<le> length lits" by (rule length_takeWhile_le)
  then show ?thesis
    by (auto simp: put_order_def orders_def fun_eq_iff takeWhile_append min_def)
qed

lemma orders_nth:
  assumes "orders lits s = Some k"
  shows "k < length lits" "lits ! k = s" "\<And>j. j < k \<Longrightarrow> lits ! j \<noteq> s"
proof -
  have s: "s \<in> set lits" and k: "k = length (takeWhile (\<lambda>l. l \<noteq> s) lits)"
    using assms by (auto simp: orders_def split: if_splits)
  have "takeWhile (\<lambda>l. l \<noteq> s) lits \<noteq> lits" using s by (metis set_takeWhileD)
  then show less: "k < length lits" unfolding k
    by (metis length_takeWhile_le nat_less_le takeWhile_eq_take take_all order_refl)
  show "lits ! k = s" using nth_length_takeWhile [of "\<lambda>l. l \<noteq> s" lits] less unfolding k by simp
  show "lits ! j \<noteq> s" if "j < k" for j
    using takeWhile_nth [of j "\<lambda>l. l \<noteq> s" lits] set_takeWhileD [of "lits ! j" "\<lambda>l. l \<noteq> s" lits] that unfolding k
    by (metis nth_mem)
qed

definition is_best :: "(bytes \<rightharpoonup> nat) \<Rightarrow> bytes set \<Rightarrow> nat \<times> nat \<Rightarrow> bool" where
  "is_best A S best \<longleftrightarrow>
     (fst best = 65535 \<and> (\<forall>u \<in> S. A u = None)) \<or>
     (\<exists>u \<in> S. A u = Some (fst best) \<and> snd best = length u \<and> (\<forall>v \<in> S. \<forall>j. A v = Some j \<longrightarrow> fst best \<le> j))"

lemma is_best_insert:
  assumes "is_best A S best" "\<forall>u j. A u = Some j \<longrightarrow> j < 65535" "n = length u"
  shows "is_best A (insert u S) (case A u of Some k \<Rightarrow> if k < fst best then (k, n) else best | None \<Rightarrow> best)"
proof (cases "A u")
  case None
  then show ?thesis using assms(1) unfolding is_best_def by auto
next
  case (Some k)
  show ?thesis
  proof (cases "k < fst best")
    case True
    then have "\<forall>v \<in> S. \<forall>j. A v = Some j \<longrightarrow> k \<le> j" using assms(1) unfolding is_best_def by fastforce
    then show ?thesis using True Some assms(3) unfolding is_best_def by auto
  next
    case False
    then have "fst best \<noteq> 65535" using assms(2) Some by (metis not_less_iff_gr_or_eq)
    then show ?thesis using False assms(1) Some unfolding is_best_def by fastforce
  qed
qed

lemma best_end_best:
  assumes "is_best A {v. prefix v u} best" "\<forall>u j. A u = Some j \<longrightarrow> j < 65535"
  shows "is_best A {v. prefix v (u @ s)} (best_end A u s best)"
  using assms(1)
proof (induction s arbitrary: u best)
  case (Cons b s)
  have "{v. prefix v (u @ [b])} = insert (u @ [b]) {v. prefix v u}" by (auto simp: prefix_snoc)
  then have "is_best A {v. prefix v (u @ [b])}
      (case A (u @ [b]) of Some k \<Rightarrow> if k < fst best then (k, length u + 1) else best | None \<Rightarrow> best)"
    using is_best_insert [OF Cons.prems assms(2), of "length u + 1" "u @ [b]"] by simp
  from Cons.IH [OF this] show ?case by simp
qed simp

definition first_literal :: "bytes list \<Rightarrow> bytes \<Rightarrow> nat option" where
  "first_literal lits s = map_option length (List.find (\<lambda>l. prefix l s) lits)"

lemma trie_match_first:
  assumes "trie_holds t lab (orders lits)" "length lits \<le> 65535"
  shows "trie_match t subject offset = first_literal lits (drop offset subject)"
proof -
  let ?s = "drop offset subject" and ?A = "orders lits"
  have zero: "0 < length lab" "lab ! 0 = []" "no_end (at_nodes t ! 0) = ?A []"
    using assms(1) by (auto simp: trie_holds_def trie_rep_def)
  have small: "\<forall>u j. ?A u = Some j \<longrightarrow> j < 65535" using orders_nth assms(2) by fastforce
  let ?b = "case ?A [] of Some k \<Rightarrow> (k, 0) | None \<Rightarrow> (65535, 0)"
  have "is_best ?A {v. prefix v []} ?b" by (auto simp: is_best_def split: option.splits)
  from best_end_best [OF this small, of ?s]
  obtain r where r: "r = trie_match_loop t 0 ?s 0 ?b" "is_best ?A {v. prefix v ?s} r"
    using trie_match_loop_best [OF assms(1) zero(1), of ?s ?b] zero(2) by simp
  have m: "trie_match t subject offset = (if fst r \<noteq> 65535 then Some (snd r) else None)"
    using r(1) zero(3) by (simp add: trie_match_def Let_def)
  show ?thesis
  proof (cases "List.find (\<lambda>l. prefix l ?s) lits")
    case None
    then have "\<forall>v. prefix v ?s \<longrightarrow> ?A v = None" by (auto simp: find_None_iff orders_def)
    then have "fst r = 65535" using r(2) by (auto simp: is_best_def)
    then show ?thesis using m None by (simp add: first_literal_def)
  next
    case (Some l)
    then obtain k where k: "k < length lits" "lits ! k = l" "prefix l ?s" "\<forall>j < k. \<not> prefix (lits ! j) ?s"
      by (auto simp: find_Some_iff)
    then obtain i where i: "?A l = Some i" by (auto simp: orders_def)
    then obtain u where u: "prefix u ?s" "?A u = Some (fst r)" "snd r = length u" "fst r \<le> i"
      using r(2) k(3) unfolding is_best_def by fastforce
    have "lits ! fst r = u" using orders_nth [OF u(2)] by simp
    then have "\<not> fst r < k" using k(4) u(1) by blast
    moreover have "\<not> k < i" using orders_nth [OF i] k(2) by blast
    ultimately have "fst r = k" using u(4) by simp
    then have "u = l" using \<open>lits ! fst r = u\<close> k(2) by simp
    moreover have "fst r \<noteq> 65535" using small u(2) by (metis less_irrefl)
    ultimately show ?thesis using m u(3) Some by (simp add: first_literal_def)
  qed
qed

end
