(* ===== verification/Search_Alt.thy ===== *)
theory Search_Alt
  imports Search_Trie_Correct Search_Skip
begin

text \<open>
  Alternations of literals from the bytecode to the result: the trie holds the literals of the
  branches, the filters that the metadata gives let every match pass, and so the search finds the
  first place where a literal matches, and there the first literal in the order of the branches.
\<close>

section \<open>The branches of the bytecode\<close>

text \<open>The tree of SPLIT instructions within the first \<open>n\<close> bytes, with the literals at its leaves.\<close>

inductive alt_leaves :: "bytes \<Rightarrow> nat \<Rightarrow> nat \<Rightarrow> bytes list \<Rightarrow> bool" for bc n where
  leaf: "op_at bc ip = Some OC_LIT \<Longrightarrow> ip + 10 \<le> n \<Longrightarrow>
     \<not> lit_outside (length bc) (search_read_u32 bc (ip + 1)) (search_read_u32 bc (ip + 5)) \<Longrightarrow>
     alt_leaves bc n ip [sub_list (unat (search_read_u32 bc (ip + 1))) (unat (search_read_u32 bc (ip + 5))) bc]"
| fork: "op_at bc ip = Some OC_SPLIT \<Longrightarrow> ip + 9 \<le> n \<Longrightarrow>
     unat (search_read_u32 bc (ip + 1)) < n \<Longrightarrow> unat (search_read_u32 bc (ip + 5)) < n \<Longrightarrow>
     alt_leaves bc n (unat (search_read_u32 bc (ip + 1))) xs \<Longrightarrow>
     alt_leaves bc n (unat (search_read_u32 bc (ip + 5))) ys \<Longrightarrow> alt_leaves bc n ip (xs @ ys)"

inductive_cases alt_leavesE: "alt_leaves bc n ip lits"

lemma leaf_inv:
  assumes "alt_leaves bc n ip lits" "op_at bc ip = Some OC_LIT"
  shows "lits = [sub_list (unat (search_read_u32 bc (ip + 1))) (unat (search_read_u32 bc (ip + 5))) bc]"
    "ip + 10 \<le> n" "\<not> lit_outside (length bc) (search_read_u32 bc (ip + 1)) (search_read_u32 bc (ip + 5))"
  using assms by (auto elim: alt_leavesE)

lemma fork_inv:
  assumes "alt_leaves bc n ip lits" "op_at bc ip = Some OC_SPLIT"
  obtains xs ys where "lits = xs @ ys" "alt_leaves bc n (unat (search_read_u32 bc (ip + 1))) xs"
    "alt_leaves bc n (unat (search_read_u32 bc (ip + 5))) ys" "ip + 9 \<le> n"
    "unat (search_read_u32 bc (ip + 1)) < n" "unat (search_read_u32 bc (ip + 5)) < n"
  using assms by (auto elim: alt_leavesE)

lemma leaves_op: "alt_leaves bc n ip lits \<Longrightarrow> op_at bc ip = Some OC_LIT \<or> op_at bc ip = Some OC_SPLIT"
  by (auto elim: alt_leavesE)

lemma leaves_room: "alt_leaves bc n ip lits \<Longrightarrow> ip + 9 \<le> n"
  by (auto elim: alt_leavesE)

section \<open>The trie has the literals\<close>

fun trie_insert_all :: "bytes list \<Rightarrow> nat \<Rightarrow> auto_trie \<Rightarrow> auto_trie option" where
  "trie_insert_all [] order t = Some t"
| "trie_insert_all (l # ls) order t =
     (case trie_insert t l order of None \<Rightarrow> None | Some t' \<Rightarrow> trie_insert_all ls (order + 1) t')"

lemma trie_insert_all_holds:
  "trie_holds t lab (orders xs) \<Longrightarrow> trie_insert_all ls (length xs) t = Some t' \<Longrightarrow>
     \<exists>lab'. trie_holds t' lab' (orders (xs @ ls))"
proof (induction ls arbitrary: t lab xs)
  case (Cons l ls)
  then obtain u where u: "trie_insert t l (length xs) = Some u" "trie_insert_all ls (length (xs @ [l])) u = Some t'"
    by (auto split: option.splits)
  obtain lab' where "trie_holds u lab' (orders (xs @ [l]))"
    using trie_insert_holds [OF Cons.prems(1) u(1)] by (auto simp: orders_snoc)
  then show ?case using Cons.IH [OF _ u(2)] by simp
qed auto

lemma orders_Nil: "orders [] = Map.empty"
  by (simp add: orders_def fun_eq_iff)

lemma trie_of_literals:
  assumes "trie_insert_all lits 0 trie_empty = Some t" "length lits \<le> 65535"
  shows "trie_match t subject offset = first_literal lits (drop offset subject)"
proof -
  have "trie_holds trie_empty [[]] (orders [])" using trie_empty_holds by (simp add: orders_Nil)
  from trie_insert_all_holds [OF this, of lits t] obtain lab where "trie_holds t lab (orders lits)" using assms(1) by auto
  then show ?thesis by (rule trie_match_first) (rule assms(2))
qed

lemma build_loop_leaves:
  assumes "build_loop k bc stack order t = Ended (Built t')" "list_all2 (alt_leaves bc n) stack litss"
  shows "trie_insert_all (concat litss) order t = Some t'"
  using assms
proof (induction k bc stack order t arbitrary: litss rule: build_loop.induct)
  case (3 k bc ip stack order t)
  obtain lits rest where l: "litss = lits # rest" "alt_leaves bc n ip lits" "list_all2 (alt_leaves bc n) stack rest"
    using 3(4) by (auto simp: list_all2_Cons1)
  let ?x = "search_read_u32 bc (ip + 1)" and ?y = "search_read_u32 bc (ip + 5)"
  have room: "\<not> length bc < ip + 2" using 3(3) by (auto split: if_splits)
  show ?case
  proof (cases "op_at bc ip = Some OC_LIT")
    case True
    have "\<not> length bc < ip + 10" using True 3(3) room by (auto split: if_splits)
    obtain u where u: "trie_insert t (sub_list (unat ?x) (unat ?y) bc) order = Some u"
        "build_loop k bc stack (order + 1) u = Ended (Built t')"
      using 3(3) True room \<open>\<not> length bc < ip + 10\<close> leaf_inv(3) [OF l(2) True]
      by (cases "trie_insert t (sub_list (unat ?x) (unat ?y) bc) order") simp_all
    have "trie_insert_all (concat rest) (order + 1) u = Some t'"
      by (rule 3(2) [OF room True refl \<open>\<not> length bc < ip + 10\<close> refl refl leaf_inv(3) [OF l(2) True] u(1,2) l(3)])
    then show ?thesis using u(1) l(1) leaf_inv(1) [OF l(2) True] by simp
  next
    case False
    then have s: "op_at bc ip = Some OC_SPLIT" using leaves_op [OF l(2)] by simp
    obtain xs ys where f: "lits = xs @ ys" "alt_leaves bc n (unat ?x) xs" "alt_leaves bc n (unat ?y) ys"
      using fork_inv [OF l(2) s] by blast
    have b: "\<not> length bc < ip + 9" "\<not> (length bc \<le> unat ?x \<or> length bc \<le> unat ?y \<or> 64 < length stack + 2)"
        "build_loop k bc (unat ?x # unat ?y # stack) order t = Ended (Built t')"
      using 3(3) s room by (auto simp: Let_def split: if_splits)
    have "trie_insert_all (concat (xs # ys # rest)) order t = Some t'"
      by (rule 3(1) [OF room s refl b(1) refl refl b(2,3)]) (use f l(3) in simp)
    then show ?thesis using l(1) f(1) by simp
  qed
qed simp_all

section \<open>The start bytes\<close>

definition grows :: "(bytes \<Rightarrow> bytes) \<Rightarrow> bool" where
  "grows f \<longleftrightarrow> (\<forall>bm. length bm = 32 \<longrightarrow> length (f bm) = 32 \<and> (\<forall>c. bitmap256_test bm c \<longrightarrow> bitmap256_test (f bm) c))"

lemma start_grows_simps [simp]: "grows id" "grows bitmap256_set_all" "grows (bitmap256_set b)"
  by (simp_all add: grows_def bitmap256_test_set)

lemma grows_fold: "(\<And>x. x \<in> set xs \<Longrightarrow> grows (f x)) \<Longrightarrow> grows (fold f xs)"
proof (induction xs)
  case (Cons x xs)
  then have "grows (f x)" "grows (fold f xs)" by simp_all
  then show ?case by (simp add: grows_def)
qed (simp add: grows_def)

lemma grows_add [simp]: "grows (bitmap256_add P)"
proof -
  have "bitmap256_add P = fold bitmap256_set (filter P (map word_of_nat [0..<256]))"
    by (simp add: fun_eq_iff bitmap256_add_def)
  then show ?thesis by (simp add: grows_fold del: upt_rec_numeral)
qed

lemma sbm_class_grows: "sbm_class bc ip member = Sbm_done f \<Longrightarrow> grows f"
  by (auto simp: sbm_class_def split: if_splits option.splits)

lemma sbm_lit_grows: "sbm_lit bc ip = Sbm_done f \<Longrightarrow> grows f"
  by (auto simp: sbm_lit_def Let_def split: if_splits)

lemma sbm_op_grows:
  assumes "sbm_op bc k ip = Sbm_done f"
  shows "grows f"
proof (cases "op_at bc ip")
  case (Some oc)
  then show ?thesis
    using assms sbm_class_grows sbm_lit_grows
    by (cases oc) (auto simp: sbm_op_def sbm_split_def sbm_jmp_def sbm_skip_def Let_def split: if_splits)
qed (use assms in \<open>auto simp: sbm_op_def\<close>)

lemma sbm_loop_grows: "grows (sbm_loop bc n ip stack)"
proof (induction n arbitrary: ip stack)
  case 0
  then show ?case by (simp add: grows_def)
next
  case (Suc n)
  show ?case
  proof (cases "sbm_op bc (length stack) ip")
    case (Sbm_next x)
    then show ?thesis using Suc by (simp add: grows_def)
  next
    case (Sbm_fork a b)
    then show ?thesis using Suc by (simp add: grows_def)
  next
    case (Sbm_done f)
    then show ?thesis using sbm_op_grows [OF Sbm_done] Suc by (cases stack) (simp_all add: grows_def)
  qed
qed

lemma sbm_done_rest:
  assumes "sbm_op bc (length stack) ip = Sbm_done f" "bitmap256_test (f bm) c" "length bm = 32"
  shows "bitmap256_test (sbm_loop bc (Suc n) ip stack bm) c"
proof -
  have "length (f bm) = 32" using sbm_op_grows [OF assms(1)] assms(3) by (simp add: grows_def)
  then show ?thesis using assms(1,2) sbm_loop_grows by (cases stack) (simp_all add: grows_def)
qed

lemma unoutside:
  assumes "\<not> lit_outside (length bc) off len" "length bc < 2 ^ 31" "len < 2 ^ 31"
  shows "unat off + unat len \<le> length bc" "unat off < length bc"
proof -
  show "unat off < length bc" using assms(1) by (simp add: lit_outside_def)
  moreover have "unat len < 2 ^ 31" using assms(3) by (simp add: word_less_nat_alt)
  ultimately have "unat (off + len) = unat off + unat len" using assms(2) by (intro unat_add_lem [THEN iffD1]) simp
  then show "unat off + unat len \<le> length bc" using assms(1) by (simp add: lit_outside_def)
qed

lemma sbm_loop_leaves:
  assumes "list_all2 (alt_leaves bc k) (ip # stack) litss" "length bm = 32" "l \<in> set (concat litss)" "l \<noteq> []"
  shows "bitmap256_test (sbm_loop bc n ip stack bm) (hd l)"
  using assms
proof (induction n arbitrary: ip stack litss bm)
  case (Suc n)
  obtain lits rest where L: "litss = lits # rest" "alt_leaves bc k ip lits" "list_all2 (alt_leaves bc k) stack rest"
    using Suc.prems(1) by (auto simp: list_all2_Cons1)
  let ?x = "search_read_u32 bc (ip + 1)" and ?y = "search_read_u32 bc (ip + 5)"
  show ?case
  proof (cases "op_at bc ip = Some OC_LIT")
    case True
    note leaf = leaf_inv [OF L(2) True]
    obtain f where f: "sbm_op bc (length stack) ip = Sbm_done f" "f = bitmap256_set_all \<or> f = bitmap256_set (bc ! unat ?x)"
      using True by (auto simp: sbm_op_def sbm_lit_def Let_def split: if_splits)
    show ?thesis
    proof (cases "l \<in> set lits")
      case True
      then have "l = sub_list (unat ?x) (unat ?y) bc" using leaf(1) by simp
      then have "hd l = bc ! unat ?x" using Suc.prems(4) by (simp add: sub_list_def hd_conv_nth)
      then have "bitmap256_test (f bm) (hd l)" using f(2) Suc.prems(2) by (auto simp: bitmap256_test_set)
      then show ?thesis by (rule sbm_done_rest [OF f(1) _ Suc.prems(2)])
    next
      case False
      then have rest: "l \<in> set (concat rest)" using Suc.prems(3) L(1) by simp
      then obtain p stack' where "stack = p # stack'" using L(3) by (cases stack) auto
      moreover have "length (f bm) = 32" using f(2) Suc.prems(2) by auto
      ultimately show ?thesis using Suc.IH [of p stack' rest "f bm"] L(3) rest Suc.prems(4) f(1) by simp
    qed
  next
    case False
    then have s: "op_at bc ip = Some OC_SPLIT" using leaves_op [OF L(2)] by simp
    obtain xs ys where F: "lits = xs @ ys" "alt_leaves bc k (unat ?x) xs" "alt_leaves bc k (unat ?y) ys"
      using fork_inv [OF L(2) s] by blast
    consider "sbm_op bc (length stack) ip = Sbm_fork (unat ?x) (unat ?y)"
      | "sbm_op bc (length stack) ip = Sbm_done bitmap256_set_all"
      using s by (cases "sbm_split bc ip (length stack)") (auto simp: sbm_op_def sbm_split_def Let_def split: if_splits)
    then show ?thesis
    proof cases
      case 1
      have "bitmap256_test (sbm_loop bc n (unat ?y) (unat ?x # stack) bm) (hd l)"
        using Suc.prems F L by (intro Suc.IH [of _ _ "ys # xs # rest"]) auto
      then show ?thesis using 1 by simp
    next
      case 2
      then show ?thesis by (rule sbm_done_rest) (simp_all add: Suc.prems(2))
    qed
  qed
qed simp

section \<open>The least length\<close>

lemma min_loop_jumps:
  assumes "follow_jumps bc n k cur = Some e" "n \<le> length bc" "op_at bc e = Some OC_ACCEPT"
  shows "min_loop bc d steps cur len \<le> len"
  using assms
proof (induction k arbitrary: cur steps)
  case 0
  then have "cur = e" by (auto split: if_splits)
  then show ?case using 0(3) by (subst min_loop.simps) (simp add: min_op_def)
next
  case (Suc k)
  show ?case
  proof (cases "cur < n \<and> op_at bc cur = Some OC_JMP")
    case True
    have "follow_jumps bc n k (unat (search_read_u32 bc (cur + 1))) = Some e" using Suc.prems(1) True by simp
    note ih = Suc.IH [OF this Suc.prems(2,3)]
    have cur: "\<not> length bc \<le> cur" using True Suc.prems(2) by simp
    have "min_op bc cur = Min_end 0 \<or> min_op bc cur = Min_next 0 (unat (search_read_u32 bc (cur + 1)))"
      using True by (auto simp: min_op_def min_jmp_def Let_def)
    then show ?thesis using ih cur by (subst min_loop.simps) auto
  next
    case False
    then have "cur = e" using Suc.prems(1) by (auto split: if_splits)
    then show ?thesis using Suc.prems(3) by (subst min_loop.simps) (simp add: min_op_def)
  qed
qed

lemma check_leaf_True:
  assumes "check_leaf bc n ip lb = (True, lb')" "n \<le> length bc"
  shows "unat (search_read_u32 bc (ip + 5)) \<le> 250" "ip + 10 \<le> n" "lb' = lb + unat (search_read_u32 bc (ip + 5))" "lb' \<le> 250"
    "\<exists>e. follow_jumps bc n n (ip + 9 + unat (search_read_u32 bc (ip + 5))) = Some e \<and> op_at bc e = Some OC_ACCEPT"
  using assms by (auto simp: check_leaf_def Let_def SNOBOL_AUTO_MAX_LIT_BYTES_def split: if_splits option.splits)

lemma small_sum: "unat y \<le> 250 \<Longrightarrow> unat (9 + y) = 9 + unat y" for y :: u32
  by (subst unat_add_lem [THEN iffD1]) simp_all

lemma check_total:
  assumes "check_alt_literals k bc n ip lb = Ended (True, lb')" "n \<le> length bc" "length bc < 2 ^ 31"
    "alt_leaves bc n' ip lits"
  shows "lb' = lb + sum_list (map length lits) \<and> lb' \<le> 250 \<and> lits \<noteq> [] \<and> alt_leaves bc n ip lits"
  using assms
proof (induction k bc n ip lb arbitrary: lb' lits rule: check_alt_literals.induct)
  case (2 k bc n ip lb)
  let ?x = "search_read_u32 bc (ip + 1)" and ?y = "search_read_u32 bc (ip + 5)"
  have room: "\<not> n < ip + 2" using 2(3) by (auto split: if_splits)
  show ?case
  proof (cases "op_at bc ip = Some OC_LIT")
    case True
    then have c: "check_leaf bc n ip lb = (True, lb')" using 2(3) room by simp
    note leaf = check_leaf_True [OF c 2(4)]
    note lit = leaf_inv [OF 2(6) True]
    have "?y < 2 ^ 31" using leaf(1) by (simp add: word_less_nat_alt)
    note off = unoutside [OF lit(3) 2(5) this]
    have "alt_leaves bc n ip [sub_list (unat ?x) (unat ?y) bc]" by (rule alt_leaves.leaf [OF True leaf(2) lit(3)])
    then show ?thesis using lit(1) leaf(3,4) off by simp
  next
    case False
    then have s: "op_at bc ip = Some OC_SPLIT" using leaves_op [OF 2(6)] by simp
    obtain xs ys where F: "lits = xs @ ys" "alt_leaves bc n' (unat ?x) xs" "alt_leaves bc n' (unat ?y) ys"
      using fork_inv [OF 2(6) s] by blast
    have room': "\<not> n < ip + 9" "\<not> (n \<le> unat ?x \<or> n \<le> unat ?y)" using 2(3) s room by (auto simp: Let_def split: if_splits)
    then obtain lb1 where lb1: "check_alt_literals k bc n (unat ?x) lb = Ended (True, lb1)"
        "check_alt_literals k bc n (unat ?y) lb1 = Ended (True, lb')"
      using 2(3) s room by (auto simp: Let_def split: walk.splits bool.splits)
    have A: "lb1 = lb + sum_list (map length xs) \<and> lb1 \<le> 250 \<and> xs \<noteq> [] \<and> alt_leaves bc n (unat ?x) xs"
      by (rule 2(1) [OF room s refl room'(1) refl refl room'(2) lb1(1) 2(4,5) F(2)])
    have B: "lb' = lb1 + sum_list (map length ys) \<and> lb' \<le> 250 \<and> ys \<noteq> [] \<and> alt_leaves bc n (unat ?y) ys"
      by (rule 2(2) [OF room s refl room'(1) refl refl room'(2) lb1(1) refl refl lb1(2) 2(4,5) F(3)])
    have "alt_leaves bc n ip (xs @ ys)" using s room' A B by (intro alt_leaves.fork) simp_all
    then show ?thesis using A B F(1) by simp
  qed
qed simp

lemma branch_min_le: "ma \<noteq> - 1 \<Longrightarrow> mb \<noteq> - 1 \<Longrightarrow> branch_min ma mb \<le> ma \<and> branch_min ma mb \<le> mb"
  by (auto simp: branch_min_def)

lemma min_loop_leaves:
  assumes "check_alt_literals k bc n ip lb = Ended (True, lb')" "n \<le> length bc" "length bc < 2 ^ 31"
    "alt_leaves bc n' ip lits" "l \<in> set lits"
  shows "unat (min_loop bc d steps ip 0) \<le> length l"
  using assms
proof (induction k bc n ip lb arbitrary: lb' lits l d steps rule: check_alt_literals.induct)
  case (2 k bc n ip lb)
  let ?x = "search_read_u32 bc (ip + 1)" and ?y = "search_read_u32 bc (ip + 5)"
  have room: "\<not> n < ip + 2" using 2(3) by (auto split: if_splits)
  then have inside: "\<not> length bc \<le> ip" using 2(4) by simp
  show ?case
  proof (cases "op_at bc ip = Some OC_LIT")
    case True
    then have c: "check_leaf bc n ip lb = (True, lb')" using 2(3) room by simp
    note leaf = check_leaf_True [OF c 2(4)]
    note lit = leaf_inv [OF 2(6) True]
    have "?y < 2 ^ 31" using leaf(1) by (simp add: word_less_nat_alt)
    note off = unoutside [OF lit(3) 2(5) this]
    have l: "length l = unat ?y" using lit(1) 2(7) off by simp
    obtain e where e: "follow_jumps bc n n (ip + 9 + unat ?y) = Some e" "op_at bc e = Some OC_ACCEPT" using leaf(5) by blast
    have "min_op bc ip = Min_next ?y (ip + 9 + unat ?y)"
      using True leaf(1,2) 2(4) by (simp add: min_op_def min_lit_def Let_def small_sum)
    then have "min_loop bc d steps ip 0 = (if steps = 0 then 0 else min_loop bc d (steps - 1) (ip + 9 + unat ?y) ?y)"
      using inside min_loop.simps [of bc d steps ip 0] by simp
    then have "min_loop bc d steps ip 0 \<le> ?y" using min_loop_jumps [OF e(1) 2(4) e(2)] by auto
    then show ?thesis using l by (simp add: word_le_nat_alt)
  next
    case False
    then have s: "op_at bc ip = Some OC_SPLIT" using leaves_op [OF 2(6)] by simp
    obtain xs ys where F: "lits = xs @ ys" "alt_leaves bc n' (unat ?x) xs" "alt_leaves bc n' (unat ?y) ys"
      using fork_inv [OF 2(6) s] by blast
    have room': "\<not> n < ip + 9" "\<not> (n \<le> unat ?x \<or> n \<le> unat ?y)" using 2(3) s room by (auto simp: Let_def split: if_splits)
    then obtain lb1 where lb1: "check_alt_literals k bc n (unat ?x) lb = Ended (True, lb1)"
        "check_alt_literals k bc n (unat ?y) lb1 = Ended (True, lb')"
      using 2(3) s room by (auto simp: Let_def split: walk.splits bool.splits)
    define ma where "ma = min_loop bc (d - 1) (walk_steps bc) (unat ?x) 0"
    define mb where "mb = min_loop bc (d - 1) (walk_steps bc) (unat ?y) 0"
    have A: "unat ma \<le> length l" if "l \<in> set xs" for l
      unfolding ma_def by (rule 2(1) [OF room s refl room'(1) refl refl room'(2) lb1(1) 2(4,5) F(2) that])
    have B: "unat mb \<le> length l" if "l \<in> set ys" for l
      unfolding mb_def by (rule 2(2) [OF room s refl room'(1) refl refl room'(2) lb1(1) refl refl lb1(2) 2(4,5) F(3) that])
    have ne: "xs \<noteq> []" "ys \<noteq> []" and short: "length l \<le> 250" if "l \<in> set lits" for l
      using check_total [OF lb1(1) 2(4,5) F(2)] check_total [OF lb1(2) 2(4,5) F(3)] check_total [OF 2(3-6)]
        member_le_sum_list [of "length l" "map length lits"] that by auto
    have no: "w \<noteq> - 1" if "unat w \<le> length l" "l \<in> set lits" for w :: u32 and l
    proof
      assume "w = - 1"
      then have "unat w = 2 ^ 32 - 1" by (simp add: unsigned_minus_1_eq_mask mask_eq_exp_minus_1)
      then show False using that short by fastforce
    qed
    have "hd xs \<in> set xs" "hd ys \<in> set ys" using ne 2(7) F(1) by auto
    then have "ma \<noteq> - 1" "mb \<noteq> - 1" using no A B F(1) by (metis Un_iff set_append)+
    from branch_min_le [OF this] have b: "unat (branch_min ma mb) \<le> unat ma" "unat (branch_min ma mb) \<le> unat mb"
      by (simp_all add: word_le_nat_alt)
    have "min_op bc ip = Min_end 0 \<or> min_op bc ip = Min_fork (unat ?x) (unat ?y)"
      using s by (auto simp: min_op_def min_split_def Let_def)
    then have "min_loop bc d steps ip 0 = 0 \<or> min_loop bc d steps ip 0 = branch_min ma mb"
      using inside min_loop.simps [of bc d steps ip 0] unfolding ma_def mb_def by auto
    moreover have "unat (branch_min ma mb) \<le> length l" using A [of l] B [of l] b 2(7) F(1) by fastforce
    ultimately show ?thesis by auto
  qed
qed simp

end
