(* ===== verification/Search_Alt_Correct.thy ===== *)
theory Search_Alt_Correct
  imports Search_Alt
begin

text \<open>
  The metadata of an alternation of literals, and the search with it.
\<close>

section \<open>The prefix that the literals share\<close>

lemma collect_leaves:
  assumes "collect_literals k bc n stack acc = Ended (Some out)" "list_all2 (alt_leaves bc n') stack litss"
    "length acc + length (concat litss) \<le> 64"
  shows "out = rev acc @ concat litss"
  using assms
proof (induction k bc n stack acc arbitrary: litss rule: collect_literals.induct)
  case (3 k bc n p stack acc)
  obtain lits rest where L: "litss = lits # rest" "alt_leaves bc n' p lits" "list_all2 (alt_leaves bc n') stack rest"
    using 3(4) by (auto simp: list_all2_Cons1)
  let ?x = "search_read_u32 bc (p + 1)" and ?y = "search_read_u32 bc (p + 5)"
  have room: "\<not> n < p + 2" using 3(3) by (auto split: if_splits)
  show ?case
  proof (cases "op_at bc p = Some OC_LIT")
    case True
    note lit = leaf_inv [OF L(2) True]
    have r: "\<not> n < p + 10" "\<not> (lit_outside n ?x ?y \<or> ?y = 0)" using 3(3) True room by (auto simp: Let_def split: if_splits)
    have len: "length acc < 64" using 3(5) L(1) lit(1) by simp
    have c: "collect_literals k bc n stack (if length acc < 64 then sub_list (unat ?x) (unat ?y) bc # acc else acc) = Ended (Some out)"
      using 3(3) True room r len by (simp add: Let_def)
    have "out = rev (if length acc < 64 then sub_list (unat ?x) (unat ?y) bc # acc else acc) @ concat rest"
      by (rule 3(2) [OF room True refl r(1) refl refl r(2) c L(3)]) (use 3(5) L(1) lit(1) in simp)
    then show ?thesis using L(1) lit(1) len by simp
  next
    case False
    then have s: "op_at bc p = Some OC_SPLIT" using leaves_op [OF L(2)] by simp
    obtain xs ys where F: "lits = xs @ ys" "alt_leaves bc n' (unat ?x) xs" "alt_leaves bc n' (unat ?y) ys"
      using fork_inv [OF L(2) s] by blast
    have r: "\<not> n < p + 9" "\<not> (n \<le> unat ?x \<or> n \<le> unat ?y \<or> 64 < length stack + 2)"
        "collect_literals k bc n (unat ?x # unat ?y # stack) acc = Ended (Some out)"
      using 3(3) s room by (auto simp: Let_def split: if_splits)
    have "out = rev acc @ concat (xs # ys # rest)"
      by (rule 3(1) [OF room s refl r(1) refl refl r(2,3)]) (use F L 3(5) in simp_all)
    then show ?thesis using F(1) L(1) by simp
  qed
qed simp_all

lemma shared_from_nth:
  "i + n \<le> length l \<Longrightarrow> k < length (shared_from l ls i n) \<Longrightarrow>
     i + k < length l \<and> shared_from l ls i n ! k = l ! (i + k) \<and> (\<forall>m \<in> set ls. i + k < length m \<and> m ! (i + k) = l ! (i + k))"
proof (induction n arbitrary: i k)
  case (Suc n)
  then have all: "\<forall>m \<in> set ls. i < length m \<and> m ! i = l ! i" by (auto split: if_splits)
  show ?case
  proof (cases k)
    case 0
    then show ?thesis using all Suc.prems by simp
  next
    case (Suc k')
    then show ?thesis using Suc.IH [of "i + 1" k'] Suc.prems all by (simp add: add.commute add.left_commute)
  qed
qed simp

lemma shared_prefix_prefix:
  assumes "m \<in> set lits"
  shows "prefix (shared_prefix lits) m"
proof -
  have nth: "prefix p m" if "\<And>k. k < length p \<Longrightarrow> k < length m \<and> p ! k = m ! k" for p m :: bytes
  proof -
    have "length p \<le> length m" using that [of "length m"] by (metis less_irrefl not_le_imp_less)
    then have "take (length p) m = p" using that by (intro nth_equalityI) auto
    then show ?thesis by (metis take_is_prefix)
  qed
  show ?thesis
  proof (cases "2 \<le> length lits")
    case True
    then obtain l l' ls where l: "lits = l # l' # ls" by (cases lits; cases "tl lits") auto
    let ?n = "min (length l) SNOBOL_SEARCH_MAX_PREFIX"
    have p: "shared_prefix lits = shared_from l (l' # ls) 0 ?n" using l by (simp add: shared_prefix_def)
    have q: "0 + ?n \<le> length l" by simp
    show ?thesis
    proof (rule nth)
      fix k
      assume k: "k < length (shared_prefix lits)"
      have "k < length l \<and> shared_prefix lits ! k = l ! k \<and> (\<forall>m \<in> set (l' # ls). k < length m \<and> m ! k = l ! k)"
        using shared_from_nth [OF q, of k "l' # ls"] k unfolding p add_0 by blast
      moreover have "m = l \<or> m \<in> set (l' # ls)" using assms l by simp
      ultimately show "k < length m \<and> shared_prefix lits ! k = m ! k" by metis
    qed
  next
    case False
    then show ?thesis by (auto simp: shared_prefix_def split: list.splits)
  qed
qed

section \<open>Empty literals\<close>

lemma empty_branch_found:
  assumes "alt_has_empty_branch k bc n stack = Ended e" "list_all2 (alt_leaves bc n) stack litss" "[] \<in> set (concat litss)"
  shows e
  using assms
proof (induction k bc n stack arbitrary: litss rule: alt_has_empty_branch.induct)
  case (3 k bc n ip stack)
  obtain lits rest where L: "litss = lits # rest" "alt_leaves bc n ip lits" "list_all2 (alt_leaves bc n) stack rest"
    using 3(4) by (auto simp: list_all2_Cons1)
  let ?x = "search_read_u32 bc (ip + 1)" and ?y = "search_read_u32 bc (ip + 5)"
  have room: "\<not> n < ip + 2" using leaves_room [OF L(2)] by simp
  show ?case
  proof (cases "op_at bc ip = Some OC_LIT")
    case True
    note lit = leaf_inv [OF L(2) True]
    show ?thesis
    proof (cases "?y = 0")
      case True
      then show ?thesis using 3(3) \<open>op_at bc ip = Some OC_LIT\<close> room lit(2) by simp
    next
      case False
      have "unat ?x < length bc" using lit(3) by (simp add: lit_outside_def)
      moreover have "unat ?y \<noteq> 0" using False by (simp add: unat_eq_zero)
      ultimately have "[] \<notin> set lits" using lit(1) by (simp add: sub_list_def)
      then have rest: "[] \<in> set (concat rest)" using 3(5) L(1) by simp
      have r: "\<not> n < ip + 10" using lit(2) by simp
      then have "alt_has_empty_branch k bc n stack = Ended e" using 3(3) True room False by simp
      then show ?thesis by (rule 3(2) [OF room True refl r False _ L(3) rest])
    qed
  next
    case False
    then have s: "op_at bc ip = Some OC_SPLIT" using leaves_op [OF L(2)] by simp
    obtain xs ys where F: "lits = xs @ ys" "alt_leaves bc n (unat ?x) xs" "alt_leaves bc n (unat ?y) ys"
        "ip + 9 \<le> n" "unat ?x < n" "unat ?y < n"
      using fork_inv [OF L(2) s] by blast
    have r: "\<not> n < ip + 9" "\<not> (n \<le> unat ?x \<or> n \<le> unat ?y)" "\<not> 64 < length stack + 2"
        "alt_has_empty_branch k bc n (unat ?x # unat ?y # stack) = Ended e"
      using 3(3) s room F(4-6) by (auto simp: Let_def split: if_splits)
    show ?thesis
      by (rule 3(1) [OF room s refl r(1) refl refl r(2,3,4), of "xs # ys # rest"]) (use F L 3(5) in auto)
  qed
qed simp_all

section \<open>What the derivation gives\<close>

lemma derive_root_split:
  assumes "op_at bc ip = Some OC_SPLIT"
  shows "sm_is_alt_literals (derive_root bc ip m) = sm_is_alt_literals m"
    "sm_has_bmh_skip (derive_root bc ip m) = sm_has_bmh_skip m"
  using assms by (auto simp: derive_root_def root_split_def split: option.splits)

lemma derive_root_alt: "sm_is_alt_literals (derive_root bc ip m) = sm_is_alt_literals m"
proof (cases "op_at bc ip")
  case (Some oc)
  then show ?thesis
    by (cases oc) (auto simp: derive_root_def root_split_def root_lit_def root_break_def root_repeat_def root_span_def
        root_any_def root_notany_def Let_def split: option.splits if_splits prod.splits)
qed (simp add: derive_root_def)

lemma derive_flat_facts:
  assumes "derive_flat n bc remain m = Ended m'" "\<not> sm_has_bmh_skip m"
  shows "sm_is_alt_literals m' = sm_is_alt_literals m" "sm_may_match_empty m' = sm_may_match_empty m"
    "sm_has_bmh_skip m' \<longrightarrow> (\<exists>p. alt_literals_shared_prefix n bc remain = Ended p \<and> p \<noteq> [] \<and>
       sm_literal_prefix m' = p \<and> sm_bmh_skip_len m' = length p)"
  using assms by (auto simp: derive_flat_def Let_def split: walk.splits if_splits)

definition alt_remain :: "bytes \<Rightarrow> nat" where
  "alt_remain bc = min (length bc) 2048"

lemma derive_alt_facts:
  assumes "derive_alt n bc ip m = Ended m'" "\<not> sm_is_alt_literals m" "sm_is_alt_literals m'" "\<not> sm_has_bmh_skip m"
  shows "op_at bc ip = Some OC_SPLIT" "10 \<le> length bc"
    "\<exists>lb. check_alt_literals n bc (alt_remain bc) 0 0 = Ended (True, lb)"
    "\<exists>e. alt_has_empty_branch n bc (alt_remain bc) [0] = Ended e \<and> (e \<longrightarrow> sm_may_match_empty m')"
    "sm_has_bmh_skip m' \<longrightarrow> (\<exists>p. alt_literals_shared_prefix n bc (alt_remain bc) = Ended p \<and> p \<noteq> [] \<and>
       sm_literal_prefix m' = p \<and> sm_bmh_skip_len m' = length p)"
proof -
  have c: "op_at bc ip = Some OC_SPLIT \<and> 10 \<le> length bc"
    using assms(1-3) by (auto simp: derive_alt_def split: if_splits)
  then obtain ok lb where lb: "check_alt_literals n bc (alt_remain bc) 0 0 = Ended (ok, lb)"
    using assms(1) by (auto simp: derive_alt_def Let_def alt_remain_def split: walk.splits)
  have ok: "ok \<and> lb \<le> SNOBOL_AUTO_MAX_LIT_BYTES"
    using assms(1-3) c lb by (auto simp: derive_alt_def Let_def alt_remain_def split: if_splits)
  then obtain e where e: "alt_has_empty_branch n bc (alt_remain bc) [0] = Ended e"
      "derive_flat n bc (alt_remain bc)
        (if e then m\<lparr>sm_is_alt_literals := True, sm_may_match_empty := True\<rparr> else m\<lparr>sm_is_alt_literals := True\<rparr>) = Ended m'"
    using assms(1) c lb by (auto simp: derive_alt_def Let_def alt_remain_def split: walk.splits)
  have h: "\<not> sm_has_bmh_skip (if e then m\<lparr>sm_is_alt_literals := True, sm_may_match_empty := True\<rparr> else m\<lparr>sm_is_alt_literals := True\<rparr>)"
    using assms(4) by simp
  show "op_at bc ip = Some OC_SPLIT" "10 \<le> length bc" using c by simp_all
  show "\<exists>lb. check_alt_literals n bc (alt_remain bc) 0 0 = Ended (True, lb)" using lb ok by simp
  show "\<exists>e. alt_has_empty_branch n bc (alt_remain bc) [0] = Ended e \<and> (e \<longrightarrow> sm_may_match_empty m')"
    using e derive_flat_facts(2) [OF e(2) h] by auto
  show "sm_has_bmh_skip m' \<longrightarrow> (\<exists>p. alt_literals_shared_prefix n bc (alt_remain bc) = Ended p \<and> p \<noteq> [] \<and>
       sm_literal_prefix m' = p \<and> sm_bmh_skip_len m' = length p)"
    by (rule derive_flat_facts(3) [OF e(2) h])
qed

lemma derive_required_keeps:
  "sm_is_alt_literals (derive_required bc m) = sm_is_alt_literals m"
  "sm_minlength (derive_required bc m) = sm_minlength m"
  "sm_has_start_bitmap (derive_required bc m) = sm_has_start_bitmap m"
  "sm_start_bitmap (derive_required bc m) = sm_start_bitmap m"
  "sm_has_bmh_skip (derive_required bc m) = sm_has_bmh_skip m"
  "sm_bmh_skip_len (derive_required bc m) = sm_bmh_skip_len m"
  "sm_literal_prefix (derive_required bc m) = sm_literal_prefix m"
  by (simp_all add: derive_required_def Let_def)

lemma gate_captures_keeps:
  "sm_is_alt_literals (gate_captures bc m) \<Longrightarrow> sm_is_alt_literals m"
  "sm_minlength (gate_captures bc m) = sm_minlength m"
  "sm_has_start_bitmap (gate_captures bc m) = sm_has_start_bitmap m"
  "sm_start_bitmap (gate_captures bc m) = sm_start_bitmap m"
  "sm_has_bmh_skip (gate_captures bc m) = sm_has_bmh_skip m"
  "sm_bmh_skip_len (gate_captures bc m) = sm_bmh_skip_len m"
  "sm_literal_prefix (gate_captures bc m) = sm_literal_prefix m"
  by (simp_all add: gate_captures_def Let_def split: if_splits)

lemma derive_elig_keeps:
  "sm_is_alt_literals (derive_elig bc m) = sm_is_alt_literals m"
  "sm_may_match_empty (derive_elig bc m) = sm_may_match_empty m"
  "sm_has_bmh_skip (derive_elig bc m) = sm_has_bmh_skip m"
  "sm_bmh_skip_len (derive_elig bc m) = sm_bmh_skip_len m"
  "sm_literal_prefix (derive_elig bc m) = sm_literal_prefix m"
  by (simp_all add: derive_elig_def Let_def split: option.splits)

lemma derive_start_keeps:
  "sm_is_alt_literals (derive_start bc m) = sm_is_alt_literals m"
  "sm_minlength (derive_start bc m) = compute_minlength bc"
  "sm_has_start_bitmap (derive_start bc m)"
  "sm_start_bitmap (derive_start bc m) =
     (if sm_may_match_empty m then bitmap256_set_all (compute_start_bitmap bc (replicate 32 0))
      else compute_start_bitmap bc (replicate 32 0))"
  "sm_has_bmh_skip (derive_start bc m) = sm_has_bmh_skip m"
  "sm_bmh_skip_len (derive_start bc m) = sm_bmh_skip_len m"
  "sm_literal_prefix (derive_start bc m) = sm_literal_prefix m"
  by (simp_all add: derive_start_def Let_def)

text \<open>The last step makes the table that belongs to the prefix.\<close>

lemma derive_bmh_ready:
  assumes "length (sm_literal_prefix m) = sm_bmh_skip_len m" "sm_has_bmh_skip m \<Longrightarrow> 0 < sm_bmh_skip_len m"
  shows "skip_ready (derive_bmh m)"
  using assms by (auto simp: skip_ready_def derive_bmh_def)

lemma derive_bmh_keeps:
  "sm_is_alt_literals (derive_bmh m) = sm_is_alt_literals m"
  "sm_minlength (derive_bmh m) = sm_minlength m"
  "sm_has_start_bitmap (derive_bmh m) = sm_has_start_bitmap m"
  "sm_start_bitmap (derive_bmh m) = sm_start_bitmap m"
  "sm_has_bmh_skip (derive_bmh m) = sm_has_bmh_skip m"
  "sm_literal_prefix (derive_bmh m) = sm_literal_prefix m"
  by (simp_all add: derive_bmh_def)

lemma derive_unfold:
  assumes "snobol_search_derive_meta n bc = Ended m" "2 \<le> length bc"
  obtains ip m0 m1 m2 where "derive_alt n bc ip (derive_root bc ip m0) = Ended m1" "m0 = meta_zero \<or> m0 = meta_zero\<lparr>sm_may_match_empty := True\<rparr>"
    "m2 = derive_start bc (derive_elig bc m1)"
    "m = derive_bmh (derive_required bc ((gate_captures bc (m2\<lparr>sm_flags := derive_flags m2\<rparr>))
           \<lparr>sm_tier := derive_tier (gate_captures bc (m2\<lparr>sm_flags := derive_flags m2\<rparr>))\<rparr>))"
  using assms by (auto simp: snobol_search_derive_meta_def Let_def split: walk.splits if_splits)

section \<open>The scan\<close>

lemma derive_alt_meta:
  assumes "snobol_search_derive_meta n bc = Ended m" "sm_is_alt_literals m"
  shows "10 \<le> length bc" "\<exists>lb. check_alt_literals n bc (alt_remain bc) 0 0 = Ended (True, lb)"
    "sm_minlength m = compute_minlength bc" "sm_has_start_bitmap m"
    "\<exists>e. alt_has_empty_branch n bc (alt_remain bc) [0] = Ended e \<and>
       (sm_start_bitmap m = compute_start_bitmap bc (replicate 32 0) \<and> \<not> e \<or> (\<exists>bm. sm_start_bitmap m = bitmap256_set_all bm))"
    "sm_has_bmh_skip m \<longrightarrow> (\<exists>p. alt_literals_shared_prefix n bc (alt_remain bc) = Ended p \<and> sm_literal_prefix m = p)"
    "skip_ready m"
proof -
  have two: "2 \<le> length bc" using assms by (auto simp: snobol_search_derive_meta_def meta_zero_def split: if_splits)
  obtain ip m0 m1 m2 where d: "derive_alt n bc ip (derive_root bc ip m0) = Ended m1"
      "m0 = meta_zero \<or> m0 = meta_zero\<lparr>sm_may_match_empty := True\<rparr>" "m2 = derive_start bc (derive_elig bc m1)"
      "m = derive_bmh (derive_required bc ((gate_captures bc (m2\<lparr>sm_flags := derive_flags m2\<rparr>))
             \<lparr>sm_tier := derive_tier (gate_captures bc (m2\<lparr>sm_flags := derive_flags m2\<rparr>))\<rparr>))"
    by (rule derive_unfold [OF assms(1) two])
  let ?g = "gate_captures bc (m2\<lparr>sm_flags := derive_flags m2\<rparr>)"
  note keeps = derive_bmh_keeps derive_required_keeps gate_captures_keeps(2-) derive_start_keeps derive_elig_keeps
  have "sm_is_alt_literals ?g" using assms(2) d(4) by (simp add: keeps)
  then have alt: "sm_is_alt_literals m1" using gate_captures_keeps(1) [of bc] d(3) by (fastforce simp: keeps)
  have zero: "\<not> sm_is_alt_literals m0" "\<not> sm_has_bmh_skip m0" using d(2) by (auto simp: meta_zero_def)
  have not_alt: "\<not> sm_is_alt_literals (derive_root bc ip m0)" using zero(1) by (simp add: derive_root_alt)
  have "op_at bc ip = Some OC_SPLIT" using d(1) alt not_alt by (auto simp: derive_alt_def split: if_splits)
  then have "\<not> sm_has_bmh_skip (derive_root bc ip m0)" using zero(2) by (simp add: derive_root_split)
  note facts = derive_alt_facts [OF d(1) not_alt alt this]
  show "10 \<le> length bc" "\<exists>lb. check_alt_literals n bc (alt_remain bc) 0 0 = Ended (True, lb)" by (rule facts)+
  show "sm_minlength m = compute_minlength bc" "sm_has_start_bitmap m" using d(3,4) by (simp_all add: keeps)
  have "sm_start_bitmap m = sm_start_bitmap m2" using d(4) by (simp add: keeps)
  then show "\<exists>e. alt_has_empty_branch n bc (alt_remain bc) [0] = Ended e \<and>
       (sm_start_bitmap m = compute_start_bitmap bc (replicate 32 0) \<and> \<not> e \<or> (\<exists>bm. sm_start_bitmap m = bitmap256_set_all bm))"
    using facts(4) d(3) by (auto simp: keeps)
  have p: "sm_has_bmh_skip m = sm_has_bmh_skip m1" "sm_literal_prefix m = sm_literal_prefix m1" using d(3,4) by (simp_all add: keeps)
  then show "sm_has_bmh_skip m \<longrightarrow> (\<exists>p. alt_literals_shared_prefix n bc (alt_remain bc) = Ended p \<and> sm_literal_prefix m = p)"
    using facts(5) by auto
  let ?r = "derive_required bc (?g\<lparr>sm_tier := derive_tier ?g\<rparr>)"
  have r: "sm_has_bmh_skip ?r = sm_has_bmh_skip m1" "sm_literal_prefix ?r = sm_literal_prefix m1" "sm_bmh_skip_len ?r = sm_bmh_skip_len m1"
    using d(3) by (simp_all add: keeps)
  show "skip_ready m"
  proof (cases "sm_has_bmh_skip m1")
    case True
    then show ?thesis unfolding d(4) using facts(5) r by (intro derive_bmh_ready) auto
  next
    case False
    then show ?thesis unfolding d(4) using r by (simp add: skip_ready_def derive_bmh_def)
  qed
qed

definition alt_hit :: "bytes list \<Rightarrow> bytes \<Rightarrow> nat \<Rightarrow> nat option" where
  "alt_hit lits subject i =
     (if i \<le> length subject then map_option (\<lambda>n. i + n) (first_literal lits (drop i subject)) else None)"

lemma alt_hit_literal: "alt_hit lits s i = Some e \<Longrightarrow> \<exists>l \<in> set lits. occurs l s i"
  by (auto simp: alt_hit_def first_literal_def occurs_prefix find_Some_iff split: if_splits)

lemma alt_scan_first:
  assumes "\<And>i. i \<le> length subject \<Longrightarrow> trie_match t subject i = first_literal lits (drop i subject)"
    and "\<And>l. l \<in> set lits \<Longrightarrow> unat (sm_minlength m) \<le> length l"
    and "\<And>l i. l \<in> set lits \<Longrightarrow> occurs l subject i \<Longrightarrow> bitmap256_test (sm_start_bitmap m) ((subject @ [after]) ! i)"
    and "\<And>l. l \<in> set lits \<Longrightarrow> sm_has_bmh_skip m \<Longrightarrow> prefix (sm_literal_prefix m) l" "skip_ready m"
  shows "alt_scan t after subject m False start offset r =
    (case first_match (alt_hit lits subject) offset (length subject) of
       Some (a, b) \<Rightarrow> (True, found_at a b r) | None \<Rightarrow> (False, r))"
proof (induction offset rule: measure_induct_rule [of "\<lambda>offset. Suc (length subject) - offset"])
  case (less offset)
  let ?h = "alt_hit lits subject" and ?n = "length subject"
  show ?case
  proof (cases "?n < offset + unat (sm_minlength m)")
    case True
    have "?h k = None" if "offset \<le> k" for k
    proof (rule ccontr)
      assume "?h k \<noteq> None"
      then obtain l where "l \<in> set lits" "occurs l subject k" using alt_hit_literal by blast
      then show False using assms(2) [of l] that True by (simp add: occurs_def)
    qed
    then have "first_match ?h offset ?n = None" by (simp add: first_match_None)
    then show ?thesis using True by (subst alt_scan.simps) simp
  next
    case False
    then have inside: "offset \<le> ?n" by simp
    show ?thesis
    proof (cases "sm_has_start_bitmap m \<and> \<not> bitmap256_test (sm_start_bitmap m) ((subject @ [after]) ! offset)")
      case True
      have "?h offset = None"
      proof (rule ccontr)
        assume "?h offset \<noteq> None"
        then show False using alt_hit_literal assms(3) True by blast
      qed
      then have "first_match ?h offset ?n = first_match ?h (offset + 1) ?n" by (rule first_match_miss)
      then show ?thesis using less [of "offset + 1"] True False inside by (subst alt_scan.simps) simp
    next
      case pass: False
      show ?thesis
      proof (cases "trie_match t subject offset")
        case (Some n)
        then have "?h offset = Some (offset + n)" using assms(1) inside by (simp add: alt_hit_def)
        then have "first_match ?h offset ?n = Some (offset, offset + n)" using inside by (rule first_match_hit [rotated])
        moreover have "alt_scan t after subject m False start offset r = (True, found_at offset (offset + n) r)"
          using Some False pass by (subst alt_scan.simps) auto
        ultimately show ?thesis by simp
      next
        case None
        then have miss: "?h offset = None" using assms(1) inside by (simp add: alt_hit_def)
        have place: "prefix_place (m, subject) j" if h: "?h j = Some e" for j e
        proof -
          obtain l where l: "l \<in> set lits" "occurs l subject j" using alt_hit_literal [OF h] by blast
          then show ?thesis using assms(4,5) prefix_order.trans by (auto simp: prefix_place_def occurs_prefix)
        qed
        have "first_match ?h offset ?n = first_match ?h (offset + bmh_advance m subject offset) ?n"
          using bmh.moves_on [of ?h "(m, subject)", OF place miss] by simp
        moreover have "alt_scan t after subject m False start offset r =
            alt_scan t after subject m False start (offset + bmh_advance m subject offset) r"
          using None False pass by (subst alt_scan.simps) auto
        ultimately show ?thesis
          using less [of "offset + bmh_advance m subject offset"] inside bmh_advance_pos [of m subject offset] by simp
      qed
    qed
  qed
qed

text \<open>The filters of the metadata let every literal of the branches pass.\<close>

lemma alt_filters:
  assumes "snobol_search_derive_meta n bc = Ended m" "sm_is_alt_literals m" "alt_leaves bc k 0 lits"
    "length lits \<le> 64" "length bc < 2 ^ 31" "l \<in> set lits"
  shows "unat (sm_minlength m) \<le> length l"
    "occurs l subject i \<Longrightarrow> bitmap256_test (sm_start_bitmap m) ((subject @ [after]) ! i)"
    "sm_has_bmh_skip m \<Longrightarrow> prefix (sm_literal_prefix m) l"
proof -
  note d = derive_alt_meta [OF assms(1,2)]
  obtain lb where lb: "check_alt_literals n bc (alt_remain bc) 0 0 = Ended (True, lb)" using d(2) by blast
  have r: "alt_remain bc \<le> length bc" by (simp add: alt_remain_def)
  have leaves: "alt_leaves bc (alt_remain bc) 0 lits" using check_total [OF lb r assms(5,3)] by blast
  show "unat (sm_minlength m) \<le> length l"
    using min_loop_leaves [OF lb r assms(5) leaves assms(6)] d(3) by (simp add: compute_minlength_def)
  show "bitmap256_test (sm_start_bitmap m) ((subject @ [after]) ! i)" if "occurs l subject i"
  proof (cases "l = []")
    case True
    obtain e where e: "alt_has_empty_branch n bc (alt_remain bc) [0] = Ended e"
        "sm_start_bitmap m = compute_start_bitmap bc (replicate 32 0) \<and> \<not> e \<or> (\<exists>bm. sm_start_bitmap m = bitmap256_set_all bm)"
      using d(5) by blast
    have e by (rule empty_branch_found [OF e(1), of "[lits]"]) (use leaves assms(6) True in auto)
    then show ?thesis using e(2) by auto
  next
    case False
    then have "bitmap256_test (sbm_loop bc (walk_steps bc) 0 [] (replicate 32 0)) (hd l)"
      by (intro sbm_loop_leaves [of bc "alt_remain bc" 0 "[]" "[lits]"]) (use leaves assms(6) in auto)
    then have "bitmap256_test (compute_start_bitmap bc (replicate 32 0)) (hd l)"
      using d(1) by (auto simp: compute_start_bitmap_def)
    moreover have "hd l = (subject @ [after]) ! i"
    proof -
      have o: "i + length l \<le> length subject" "\<forall>k < length l. subject ! (i + k) = l ! k" using that by (auto simp: occurs_nth)
      have "0 < length l" using False by simp
      then have "subject ! (i + 0) = l ! 0" using o(2) by blast
      moreover have "i < length subject" using o(1) \<open>0 < length l\<close> by linarith
      ultimately have "i < length subject" "subject ! i = l ! 0" by simp_all
      then show ?thesis using False by (simp add: hd_conv_nth nth_append)
    qed
    ultimately show ?thesis using d(5) by auto
  qed
  show "prefix (sm_literal_prefix m) l" if "sm_has_bmh_skip m"
  proof -
    obtain p where p: "alt_literals_shared_prefix n bc (alt_remain bc) = Ended p" "sm_literal_prefix m = p" using d(6) \<open>sm_has_bmh_skip m\<close> by blast
    show ?thesis
    proof (cases "collect_literals n bc (alt_remain bc) [0] []")
      case (Ended out)
      show ?thesis
      proof (cases out)
        case None
        then have "p = []" using p(1) Ended by (simp add: alt_literals_shared_prefix_def)
        then show ?thesis using p(2) by simp
      next
        case (Some ls)
        have "ls = rev [] @ concat [lits]"
          using Ended Some leaves assms(4) by (intro collect_leaves [of n bc "alt_remain bc" "[0]"]) auto
        then have "p = shared_prefix lits" using p(1) Ended Some by (simp add: alt_literals_shared_prefix_def)
        then show ?thesis using p(2) shared_prefix_prefix [OF assms(6)] by simp
      qed
    qed (use p(1) in \<open>simp_all add: alt_literals_shared_prefix_def\<close>)
  qed
qed

section \<open>The search\<close>

text \<open>The scan finds the first offset where a literal occurs, and there the first literal of the branches.\<close>

lemma alt_literals_try_first:
  assumes "snobol_search_derive_meta n bc = Ended m" "sm_is_alt_literals m" "alt_leaves bc (length bc) 0 lits"
    "length lits \<le> 64" "length bc < 2 ^ 31" "vm_bc v = bc" "build_trie k bc = Ended (Built t)"
  shows "fst (search_alt_literals_try k run None after subject m False start r v) =
    (case first_match (\<lambda>i. if i \<le> length subject
                           then map_option (\<lambda>l. i + length l) (List.find (\<lambda>l. prefix l (drop i subject)) lits)
                           else None) start (length subject) of
       Some (a, b) \<Rightarrow> Searched True (found_at a b r) v
     | None \<Rightarrow> Searched False r v)"
proof -
  have "trie_insert_all (concat [lits]) 0 trie_empty = Some t"
    using assms(3,7) unfolding build_trie_def by (intro build_loop_leaves) auto
  then have "trie_match t subject i = first_literal lits (drop i subject)" for i
    using trie_of_literals assms(4) by simp
  then have "alt_scan t after subject m False start start r =
    (case first_match (alt_hit lits subject) start (length subject) of
       Some (a, b) \<Rightarrow> (True, found_at a b r) | None \<Rightarrow> (False, r))"
    using alt_filters [OF assms(1-5)] derive_alt_meta(7) [OF assms(1,2)] by (intro alt_scan_first) auto
  moreover have "alt_hit lits subject = (\<lambda>i. if i \<le> length subject
      then map_option (\<lambda>l. i + length l) (List.find (\<lambda>l. prefix l (drop i subject)) lits) else None)"
    by (auto simp: alt_hit_def first_literal_def fun_eq_iff option.map_comp comp_def)
  ultimately show ?thesis
    using assms(6,7) by (simp add: search_alt_literals_try_def Let_def split: option.splits)
qed

end
