(* ===== verification/Search_Entry.thy ===== *)
theory Search_Entry
  imports Search_Alt_Correct Search_Dispatch
begin

text \<open>
  The entry point of the search: which strategy the costs choose, and what that means for an
  alternation of literals, from the derived metadata to the result of \<^verbatim>\<open>snobol_search_exec\<close>.
\<close>

section \<open>The choice by cost\<close>

text \<open>
  An entry chosen from a table: eligible, strictly cheaper than the eligible entries in front of it,
  and at most as dear as those behind it.
\<close>

definition cheapest_first :: "('a \<Rightarrow> bool) \<Rightarrow> ('a \<Rightarrow> int) \<Rightarrow> 'a list \<Rightarrow> 'a \<Rightarrow> bool" where
  "cheapest_first ok cost cs c \<longleftrightarrow>
     (\<exists>as bs. cs = as @ c # bs \<and> ok c \<and> (\<forall>a \<in> set as. ok a \<longrightarrow> cost c < cost a) \<and>
        (\<forall>b \<in> set bs. ok b \<longrightarrow> cost c \<le> cost b))"

lemma cheapest_first_Cons:
  "cheapest_first ok cost (d # cs) c \<longleftrightarrow>
     c = d \<and> ok d \<and> (\<forall>b \<in> set cs. ok b \<longrightarrow> cost d \<le> cost b) \<or>
     cheapest_first ok cost cs c \<and> (ok d \<longrightarrow> cost c < cost d)"
  (is "?l = (?here \<or> ?later)")
proof
  assume ?l
  then obtain as bs where s: "d # cs = as @ c # bs" "ok c" "\<forall>a \<in> set as. ok a \<longrightarrow> cost c < cost a"
      "\<forall>b \<in> set bs. ok b \<longrightarrow> cost c \<le> cost b"
    unfolding cheapest_first_def by blast
  then show "?here \<or> ?later" by (cases as) (auto simp: cheapest_first_def)
next
  assume "?here \<or> ?later"
  then show ?l
  proof
    assume ?here
    then show ?l unfolding cheapest_first_def by (intro exI [of _ "[]"] exI [of _ cs]) auto
  next
    assume ?later
    then obtain as bs where "cs = as @ c # bs" "ok c" "\<forall>a \<in> set as. ok a \<longrightarrow> cost c < cost a"
        "\<forall>b \<in> set bs. ok b \<longrightarrow> cost c \<le> cost b" "ok d \<longrightarrow> cost c < cost d"
      unfolding cheapest_first_def by blast
    then show ?l unfolding cheapest_first_def by (intro exI [of _ "d # as"] exI [of _ bs]) auto
  qed
qed

lemma cheapest_first_least:
  assumes "cheapest_first ok cost cs c"
  shows "c \<in> set cs" "ok c" "\<And>x. x \<in> set cs \<Longrightarrow> ok x \<Longrightarrow> cost c \<le> cost x"
  using assms unfolding cheapest_first_def by fastforce+

text \<open>The loop keeps its bound when no eligible entry is cheaper, and the first of the cheapest otherwise.\<close>

lemma cost_loop_keeps:
  "\<forall>c \<in> set cs. tier_eligible m anchored (fst c) \<longrightarrow> snd best \<le> tier_cost n c \<Longrightarrow>
     cost_loop m n anchored cs best = best"
  by (induction cs) auto

lemma cost_loop_cheapest:
  assumes "\<exists>c \<in> set cs. tier_eligible m anchored (fst c) \<and> tier_cost n c < snd best"
  shows "\<exists>c. cheapest_first (\<lambda>c. tier_eligible m anchored (fst c)) (tier_cost n) cs c \<and> tier_cost n c < snd best \<and>
     cost_loop m n anchored cs best = (fst c, tier_cost n c)"
  using assms
proof (induction cs arbitrary: best)
  case (Cons c cs)
  let ?take = "tier_eligible m anchored (fst c) \<and> tier_cost n c < snd best"
  let ?best = "if ?take then (fst c, tier_cost n c) else best"
  show ?case
  proof (cases "\<exists>c \<in> set cs. tier_eligible m anchored (fst c) \<and> tier_cost n c < snd ?best")
    case True
    from Cons.IH [OF this] obtain d where
      d: "cheapest_first (\<lambda>c. tier_eligible m anchored (fst c)) (tier_cost n) cs d" "tier_cost n d < snd ?best"
        "cost_loop m n anchored cs ?best = (fst d, tier_cost n d)"
      by blast
    have "tier_eligible m anchored (fst c) \<longrightarrow> tier_cost n d < tier_cost n c" "tier_cost n d < snd best"
      using d(2) by (auto split: if_splits)
    then show ?thesis using d(1,3) by (intro exI [of _ d]) (simp add: cheapest_first_Cons)
  next
    case False
    then have keep: "cost_loop m n anchored cs ?best = ?best" by (intro cost_loop_keeps) auto
    have "?take" using Cons.prems False by (auto split: if_splits)
    then show ?thesis using keep False by (intro exI [of _ c]) (auto simp: cheapest_first_Cons)
  qed
qed simp

lemma to_int32_plain: "0 \<le> i \<Longrightarrow> i < 2 ^ 31 \<Longrightarrow> to_int32 i = i"
  by (simp add: to_int32_def)

lemma tier_cost_plain:
  assumes "n < 2 ^ 31" "c \<in> set k_tier_cost"
  shows "tier_cost n c = fst (snd c) + int (n div snd (snd c))" "tier_cost n c < 2147483647"
proof -
  have c: "5 \<le> snd (snd c)" "0 \<le> fst (snd c)" "fst (snd c) \<le> 100" using assms(2) by (auto simp: k_tier_cost_def)
  have "n div snd (snd c) \<le> n div 5" using c(1) by (simp add: div_le_mono2)
  also have "n div 5 \<le> 429496729" using assms(1) by simp
  finally have "int (n div snd (snd c)) \<le> 429496729" by simp
  then show "tier_cost n c = fst (snd c) + int (n div snd (snd c))" using c unfolding tier_cost_def by (simp add: to_int32_plain)
  then show "tier_cost n c < 2147483647" using c \<open>int (n div snd (snd c)) \<le> 429496729\<close> by simp
qed

lemma cheapest_first_cong:
  assumes "cheapest_first ok cost cs c" "\<And>x. x \<in> set cs \<Longrightarrow> cost x = cost' x"
  shows "cheapest_first ok cost' cs c"
  using assms unfolding cheapest_first_def by fastforce

lemma selected_tier_cheapest:
  assumes "n < 2 ^ 31"
  shows "\<exists>c. cheapest_first (\<lambda>c. tier_eligible m anchored (fst c)) (\<lambda>(t, setup, rate). setup + int (n div rate)) k_tier_cost c \<and>
    select_tier_by_cost m n d anchored = fst c"
proof -
  let ?general = "(TIER_GENERAL, 100 :: int, 5 :: nat)"
  have g: "?general \<in> set k_tier_cost" "tier_eligible m anchored (fst ?general)" by (simp_all add: k_tier_cost_def tier_eligible_def)
  then have "\<exists>c \<in> set k_tier_cost. tier_eligible m anchored (fst c) \<and> tier_cost n c < snd (TIER_GENERAL, 2147483647)"
    using tier_cost_plain(2) [OF assms g(1)] by (intro bexI [of _ ?general]) simp_all
  from cost_loop_cheapest [OF this] obtain c where
    c: "cheapest_first (\<lambda>c. tier_eligible m anchored (fst c)) (tier_cost n) k_tier_cost c"
      "cost_loop m n anchored k_tier_cost (TIER_GENERAL, 2147483647) = (fst c, tier_cost n c)"
    by blast
  have "cheapest_first (\<lambda>c. tier_eligible m anchored (fst c)) (\<lambda>(t, setup, rate). setup + int (n div rate)) k_tier_cost c"
    by (rule cheapest_first_cong [OF c(1)]) (use tier_cost_plain(1) [OF assms] in \<open>auto split: prod.splits\<close>)
  then show ?thesis using c(2) by (intro exI [of _ c]) (simp add: select_tier_by_cost_def)
qed

text \<open>
  C5: The strategy is chosen by cost. For a subject of less than 2 GiB, the chosen strategy is that of the
  entry of the table of costs that is eligible for the pattern, cheaper than every eligible entry in
  front of it and at most as dear as every one behind it; the cost of an entry is its setup and the
  length of the subject divided by its throughput, without a wrap in the 32 bits that the code uses.
\<close>

theorem selected_tier_is_the_cheapest:
  assumes "n < 2 ^ 31"
  shows "\<exists>c. cheapest_first (\<lambda>c. tier_eligible m anchored (fst c)) (\<lambda>(t, setup, rate). setup + int (n div rate)) k_tier_cost c \<and>
    select_tier_by_cost m n d anchored = fst c"
  by (rule selected_tier_cheapest [OF assms])

text \<open>An alternation with a literal prefix on a subject of 2000 bytes: 92 for the prefix, 112 for the trie.\<close>

theorem selected_tier_is_the_cheapest_witness:
  "\<exists>c. cheapest_first (\<lambda>c. tier_eligible (meta_zero\<lparr>sm_is_alt_literals := True, sm_has_literal_prefix := True, sm_literal_prefix := [97]\<rparr>)
         False (fst c)) (\<lambda>(t, setup, rate). setup + int (2000 div rate)) k_tier_cost c \<and> fst c = TIER_PREFIX"
proof -
  let ?m = "meta_zero\<lparr>sm_is_alt_literals := True, sm_has_literal_prefix := True, sm_literal_prefix := [97]\<rparr>"
  have "select_tier_by_cost ?m 2000 False False = TIER_PREFIX"
    by (simp add: select_tier_by_cost_def k_tier_cost_def tier_eligible_def tier_cost_def to_int32_def meta_zero_def)
  then show ?thesis using selected_tier_is_the_cheapest [of 2000 ?m False False] by auto
qed

section \<open>The trie is built\<close>

lemma leaves_nonempty: "alt_leaves bc n ip lits \<Longrightarrow> lits \<noteq> []"
  by (induction rule: alt_leaves.induct) auto

text \<open>
  The walk over one branch, in front of the branches that wait on the stack: it ends, and leaves the
  trie with the literals of the branch added.
\<close>

lemma build_loop_branch:
  assumes "alt_leaves bc n ip lits" "n \<le> length bc" "trie_holds t lab A"
    "length (at_edges t) + sum_list (map length lits) \<le> 255" "length stack + length lits \<le> 64"
  shows "\<exists>j t' lab' A'. trie_holds t' lab' A' \<and> length (at_edges t') \<le> length (at_edges t) + sum_list (map length lits) \<and>
    (\<forall>k. build_loop (j + k) bc (ip # stack) order t = build_loop k bc stack (order + length lits) t')"
  using assms
proof (induction arbitrary: t lab A stack order rule: alt_leaves.induct)
  case (leaf ip)
  let ?l = "sub_list (unat (search_read_u32 bc (ip + 1))) (unat (search_read_u32 bc (ip + 5))) bc"
  obtain t' where t': "trie_insert t ?l order = Some t'" "length (at_edges t') \<le> length (at_edges t) + length ?l"
    using trie_insert_room [OF leaf.prems(2), of ?l order] leaf.prems(3) by auto
  then obtain lab' where "trie_holds t' lab' (put_order ?l order A)" using trie_insert_holds [OF leaf.prems(2)] by blast
  moreover have "build_loop (1 + k) bc (ip # stack) order t = build_loop k bc stack (order + length [?l]) t'" for k
    using leaf.hyps leaf.prems(1) t'(1) by simp
  ultimately show ?case using t'(2) by fastforce
next
  case (fork ip xs ys)
  let ?x = "unat (search_read_u32 bc (ip + 1))" and ?y = "unat (search_read_u32 bc (ip + 5))"
  have pos: "0 < length xs" "0 < length ys" using leaves_nonempty fork.hyps(5,6) by auto
  have room: "length (at_edges t) + sum_list (map length xs) \<le> 255" "length (?y # stack) + length xs \<le> 64"
      "length stack + length ys \<le> 64" "\<not> 62 < length stack"
    using fork.prems(3,4) pos unfolding map_append sum_list_append length_append length_Cons by linarith+
  obtain j t1 lab1 A1 where x: "trie_holds t1 lab1 A1" "length (at_edges t1) \<le> length (at_edges t) + sum_list (map length xs)"
      "\<And>k. build_loop (j + k) bc (?x # ?y # stack) order t = build_loop k bc (?y # stack) (order + length xs) t1"
    using fork.IH(1) [OF fork.prems(1,2) room(1,2), of order] by blast
  obtain j' t2 lab2 A2 where y: "trie_holds t2 lab2 A2" "length (at_edges t2) \<le> length (at_edges t1) + sum_list (map length ys)"
      "\<And>k. build_loop (j' + k) bc (?y # stack) (order + length xs) t1 = build_loop k bc stack (order + length xs + length ys) t2"
    using fork.IH(2) [OF fork.prems(1) x(1) _ room(3), of "order + length xs"] x(2) fork.prems(3) by fastforce
  have "build_loop (Suc (j + j') + k) bc (ip # stack) order t = build_loop k bc stack (order + length (xs @ ys)) t2" for k
    using fork.hyps(1-4) fork.prems(1) room(4) x(3) [of "j' + k"] y(3) [of k] by (simp add: add.assoc)
  then show ?case using y(1,2) x(2) by (intro exI [of _ "Suc (j + j')"] exI [of _ t2] exI [of _ lab2] exI [of _ A2]) simp
qed

lemma trie_is_built:
  assumes "snobol_search_derive_meta n bc = Ended m" "sm_is_alt_literals m" "alt_leaves bc (length bc) 0 lits"
    "length lits \<le> 64" "length bc < 2 ^ 31"
  shows "\<exists>j t. \<forall>k \<ge> j. build_trie k bc = Ended (Built t)"
proof -
  obtain lb where lb: "check_alt_literals n bc (alt_remain bc) 0 0 = Ended (True, lb)" using derive_alt_meta(2) [OF assms(1,2)] by blast
  have "alt_remain bc \<le> length bc" by (simp add: alt_remain_def)
  then have total: "sum_list (map length lits) \<le> 250" using check_total [OF lb _ assms(5,3)] by simp
  have "length (at_edges trie_empty) + sum_list (map length lits) \<le> 255" using total by (simp add: trie_empty_def)
  from build_loop_branch [OF assms(3) order.refl trie_empty_holds this, of "[]" 0] assms(4)
  obtain j t where j: "\<And>k. build_loop (j + k) bc [0] 0 trie_empty = build_loop k bc [] (0 + length lits) t" by auto
  have "build_trie k bc = Ended (Built t)" if "j \<le> k" for k
    using j [of "k - j"] that by (simp add: build_trie_def)
  then show ?thesis by blast
qed

section \<open>The strategy for an alternation\<close>

lemma root_of_branches:
  "op_at bc 0 = Some OC_LIT \<or> op_at bc 0 = Some OC_SPLIT \<Longrightarrow> root_ip bc 0 = 0"
  by (subst root_ip.simps) auto

lemma split_is_no_literal:
  assumes "op_at bc 0 = Some OC_SPLIT"
  shows "\<not> check_literal_only bc"
proof -
  have "skip_nops_fences bc 0 = 0" using assms by (subst skip_nops_fences.simps) simp
  then show ?thesis using assms by (simp add: check_literal_only_def Let_def)
qed

lemma derive_alt_keeps_prefix:
  "derive_alt n bc ip m = Ended m' \<Longrightarrow>
     sm_has_literal_prefix m' = sm_has_literal_prefix m \<and> sm_has_required_lit m' = sm_has_required_lit m"
  by (auto simp: derive_alt_def derive_flat_def Let_def split: walk.splits if_splits prod.splits)

text \<open>The fields that the filter by a required literal and the other strategies look at.\<close>

lemma alternation_fields:
  assumes "snobol_search_derive_meta n bc = Ended m" "sm_is_alt_literals m" "alt_leaves bc k 0 lits"
  shows "\<not> sm_is_literal_only m" "\<not> sm_has_literal_prefix m" "\<not> sm_has_required_lit m"
proof -
  have two: "2 \<le> length bc" using assms(1,2) by (auto simp: snobol_search_derive_meta_def meta_zero_def split: if_splits)
  have "root_ip bc 0 = 0" using leaves_op [OF assms(3)] by (rule root_of_branches)
  then obtain m1 m2 where d: "derive_alt n bc 0 (derive_root bc 0 meta_zero) = Ended m1" "m2 = derive_start bc (derive_elig bc m1)"
      "m = derive_bmh (derive_required bc ((gate_captures bc (m2\<lparr>sm_flags := derive_flags m2\<rparr>))
             \<lparr>sm_tier := derive_tier (gate_captures bc (m2\<lparr>sm_flags := derive_flags m2\<rparr>))\<rparr>))"
    using assms(1) two by (auto simp: snobol_search_derive_meta_def Let_def split: walk.splits if_splits)
  let ?g = "gate_captures bc (m2\<lparr>sm_flags := derive_flags m2\<rparr>)"
  have alt: "sm_is_alt_literals ?g" using assms(2) d(3) by (simp add: derive_bmh_keeps derive_required_keeps)
  then have "sm_is_alt_literals m1" using gate_captures_keeps(1) [OF alt] d(2) by (simp add: derive_start_keeps derive_elig_keeps)
  then have split: "op_at bc 0 = Some OC_SPLIT"
    using d(1) by (auto simp: derive_alt_def derive_root_alt meta_zero_def split: if_splits)
  have m: "m = derive_bmh (?g\<lparr>sm_tier := derive_tier ?g\<rparr>)"
    using d(3) alt by (simp add: derive_required_def Let_def)
  have "\<not> sm_is_literal_only m2" using split_is_no_literal [OF split] d(2)
    by (simp add: derive_start_def derive_elig_def Let_def split: option.splits)
  then show "\<not> sm_is_literal_only m" by (simp add: m derive_bmh_def gate_captures_def Let_def)
  have "\<not> sm_has_literal_prefix (derive_root bc 0 meta_zero) \<and> \<not> sm_has_required_lit (derive_root bc 0 meta_zero)"
    using split by (simp add: derive_root_def root_split_def meta_zero_def Let_def split: option.splits)
  then have "\<not> sm_has_literal_prefix m1 \<and> \<not> sm_has_required_lit m1" using derive_alt_keeps_prefix [OF d(1)] by simp
  then have m2: "\<not> sm_has_literal_prefix m2 \<and> \<not> sm_has_required_lit m2" using d(2)
    by (simp add: derive_start_def derive_elig_def Let_def split: option.splits)
  then show "\<not> sm_has_literal_prefix m" "\<not> sm_has_required_lit m"
    by (simp_all add: m derive_bmh_def gate_captures_def Let_def)
qed

lemma trie_is_chosen:
  assumes "sm_is_alt_literals m" "\<not> sm_is_literal_only m" "\<not> sm_has_literal_prefix m" "n < 2 ^ 31"
  shows "select_tier_by_cost m n d anchored = TIER_ALT_LIT"
proof -
  obtain c where c: "cheapest_first (\<lambda>c. tier_eligible m anchored (fst c)) (\<lambda>(t, setup, rate). setup + int (n div rate)) k_tier_cost c"
      "select_tier_by_cost m n d anchored = fst c"
    using selected_tier_cheapest [OF assms(4)] by blast
  have "(TIER_ALT_LIT, 12, 20) \<in> set k_tier_cost" "tier_eligible m anchored TIER_ALT_LIT"
    using assms(1) by (simp_all add: k_tier_cost_def tier_eligible_def)
  then have le: "(case c of (t, setup, rate) \<Rightarrow> setup + int (n div rate)) \<le> 12 + int (n div 20)"
    using cheapest_first_least(3) [OF c(1)] by fastforce
  have mono: "n div 20 \<le> n div 16" "n div 20 \<le> n div 12" "n div 20 \<le> n div 10" "n div 20 \<le> n div 8" "n div 20 \<le> n div 5"
    by (simp_all add: div_le_mono2)
  show ?thesis using c(2) cheapest_first_least(1,2) [OF c(1)] le mono assms(1-3) by (auto simp: k_tier_cost_def tier_eligible_def)
qed

section \<open>The search\<close>

text \<open>
  C3: The search for an alternation of literals is correct, from the metadata that is derived from
  the bytecode to the result of the entry point. When the metadata marks the bytecode as an alternation of
  literals, of at most 64, then the strategy with the trie is chosen, the trie is built, and the scan
  with its filters, the start bytes, the least length and the skip table, finds the first offset from
  the start on where one of the literals occurs, and its match is the first of the literals in the order
  of the branches that occurs there; or it finds nothing when there is no such offset. Some supply of
  turns for building the trie is enough, whatever automata the caller has cached.
\<close>

theorem alternation_search_finds_the_first:
  assumes "snobol_search_derive_meta n bc = Ended m" "sm_is_alt_literals m" "alt_leaves bc (length bc) 0 lits"
    "length lits \<le> 64" "length bc < 2 ^ 31" "length subject < 2 ^ 31" "vm_bc v = bc" "ca_trie c = None"
  shows "\<exists>k. \<forall>e. k \<le> en_walk e \<longrightarrow> fst (snobol_search_exec diag e c subject (Some m) start r v) =
    (case first_match (\<lambda>i. if i \<le> length subject
                           then map_option (\<lambda>l. i + length l) (List.find (\<lambda>l. prefix l (drop i subject)) lits)
                           else None) start (length subject) of
       Some (a, b) \<Rightarrow> Searched True (found_at a b (clear_result r)) v
     | None \<Rightarrow> Searched False (clear_result r) v)"
proof -
  obtain j t where j: "\<And>k. j \<le> k \<Longrightarrow> build_trie k bc = Ended (Built t)" using trie_is_built [OF assms(1-5)] by blast
  note f = alternation_fields [OF assms(1-3)]
  have tier: "dispatch_tier m (ca_dfa c) (length subject) False = TIER_ALT_LIT"
    using trie_is_chosen [OF assms(2) f(1,2) assms(6)] assms(2) by (simp add: dispatch_tier_def use_automaton_def)
  have lazy: "lazy_init TIER_ALT_LIT v = v" by (simp add: lazy_init_def)
  have "fst (snobol_search_exec diag e c subject (Some m) start r v) =
      (if length subject < start then Searched False (clear_result r) v
       else fst (search_alt_literals_try (en_walk e) (en_run e) None (en_after e) subject m False start (clear_result r) v))" for e
    using f tier assms(8) lazy
    by (simp add: snobol_search_exec_def search_prefilter_miss_def dispatch_search_impl_def dispatch_with_def tier_table_def Let_def)
  moreover have "first_match h start (length subject) = None" if "length subject < start" for h :: "nat \<Rightarrow> nat option"
    using that by (auto simp: first_match_None)
  ultimately show ?thesis
    using alt_literals_try_first [OF assms(1-5,7) j] by (intro exI [of _ j]) simp
qed

text \<open>The alternatives 'ab' and 'ac', with the jump behind the first one.\<close>

definition two_words :: bytes where
  "two_words = [3, 0, 0, 0, 9, 0, 0, 0, 25, 4, 0, 0, 0, 18, 0, 0, 0, 2, 97, 98, 2, 0, 0, 0, 36,
     4, 0, 0, 0, 34, 0, 0, 0, 2, 97, 99, 0]"

lemma two_words_meta:
  "case snobol_search_derive_meta 10 two_words of Ended m \<Rightarrow> sm_is_alt_literals m \<and> sm_has_bmh_skip m | _ \<Rightarrow> False"
  by code_simp

lemma two_words_leaves: "alt_leaves two_words (length two_words) 0 [[97, 98], [97, 99]]"
proof -
  have op: "op_at two_words 0 = Some OC_SPLIT" "op_at two_words 9 = Some OC_LIT" "op_at two_words 25 = Some OC_LIT" by code_simp+
  have at: "unat (search_read_u32 two_words (0 + 1)) = 9" "unat (search_read_u32 two_words (0 + 5)) = 25" "length two_words = 37"
    by code_simp+
  have l: "\<not> lit_outside (length two_words) (search_read_u32 two_words (9 + 1)) (search_read_u32 two_words (9 + 5))"
    "sub_list (unat (search_read_u32 two_words (9 + 1))) (unat (search_read_u32 two_words (9 + 5))) two_words = [97, 98]"
    "\<not> lit_outside (length two_words) (search_read_u32 two_words (25 + 1)) (search_read_u32 two_words (25 + 5))"
    "sub_list (unat (search_read_u32 two_words (25 + 1))) (unat (search_read_u32 two_words (25 + 5))) two_words = [97, 99]"
    by code_simp+
  have "alt_leaves two_words (length two_words) 9 [[97, 98]]" "alt_leaves two_words (length two_words) 25 [[97, 99]]"
    using alt_leaves.leaf [OF op(2) _ l(1), of "length two_words"] alt_leaves.leaf [OF op(3) _ l(3), of "length two_words"] l(2,4) at(3)
    by simp_all
  then have "alt_leaves two_words (length two_words) 0 ([[97, 98]] @ [[97, 99]])"
    using op(1) at by (intro alt_leaves.fork) simp_all
  then show ?thesis by simp
qed

theorem alternation_search_finds_the_first_witness:
  "\<exists>m k. snobol_search_derive_meta 10 two_words = Ended m \<and>
     fst (snobol_search_exec False \<lparr>en_walk = k, en_steps = 5, en_run = vm_exec False 5, en_after = 0\<rparr>
        \<lparr>ca_dfa = None, ca_trie = None, ca_nfa = None\<rparr> [120, 97, 120, 97, 99] (Some m) 0
        \<lparr>sr_success = False, sr_match_start = 0, sr_match_end = 0, sr_prefilter_skip = False, sr_aborted = False\<rparr>
        (vm_zero two_words [])) =
      Searched True \<lparr>sr_success = True, sr_match_start = 3, sr_match_end = 5, sr_prefilter_skip = False, sr_aborted = False\<rparr>
        (vm_zero two_words [])"
proof -
  obtain m where m: "snobol_search_derive_meta 10 two_words = Ended m" "sm_is_alt_literals m"
    using two_words_meta by (auto split: walk.splits)
  let ?s = "[120, 97, 120, 97, 99] :: bytes" and ?c = "\<lparr>ca_dfa = None, ca_trie = None, ca_nfa = None\<rparr>"
  let ?r = "\<lparr>sr_success = False, sr_match_start = 0, sr_match_end = 0, sr_prefilter_skip = False, sr_aborted = False\<rparr>"
  have few: "length [[97, 98], [97, 99 :: u8]] \<le> 64" "length two_words < 2 ^ 31" "length ?s < 2 ^ 31"
    "vm_bc (vm_zero two_words []) = two_words" "ca_trie ?c = None"
    by (simp_all add: two_words_def vm_zero_def)
  have "first_match (\<lambda>i. if i \<le> length ?s
          then map_option (\<lambda>l. i + length l) (List.find (\<lambda>l. prefix l (drop i ?s)) [[97, 98], [97, 99]])
          else None) 0 (length ?s) = Some (3, 5)"
    by code_simp
  with alternation_search_finds_the_first [OF m two_words_leaves few, of False 0 ?r]
  obtain k where "\<And>e. k \<le> en_walk e \<Longrightarrow> fst (snobol_search_exec False e ?c ?s (Some m) 0 ?r (vm_zero two_words [])) =
      Searched True (found_at 3 5 (clear_result ?r)) (vm_zero two_words [])"
    by auto
  from this [of "\<lparr>en_walk = k, en_steps = 5, en_run = vm_exec False 5, en_after = 0\<rparr>"] m(1) show ?thesis
    by (intro exI [of _ m] exI [of _ k]) (simp add: found_at_def clear_result_def)
qed

section \<open>A match that the search does not see\<close>

text \<open>The instructions TAB(3), LIT 'a' and ACCEPT, with empty tables of classes and labels behind them.\<close>

definition tab_code :: bytes where
  "tab_code = [38, 0, 0, 0, 3, 4, 0, 0, 0, 14, 0, 0, 0, 1, 97, 0, 0, 0, 0, 0, 0, 0, 0, 0, 83, 78, 66, 76]"

lemma tab_matches: "case vm_exec False 4 (vm_zero tab_code [98, 98, 98, 97]) of Done ok w \<Rightarrow> ok \<and> vm_pos w = 4 | _ \<Rightarrow> False"
  by code_simp

lemma tab_not_found:
  "case fst (snobol_search_exec False \<lparr>en_walk = 20, en_steps = 1, en_run = vm_exec False 2, en_after = 0\<rparr>
       \<lparr>ca_dfa = None, ca_trie = None, ca_nfa = None\<rparr> [98, 98, 98, 97] None 0
       \<lparr>sr_success = False, sr_match_start = 0, sr_match_end = 0, sr_prefilter_skip = False, sr_aborted = False\<rparr>
       (vm_zero tab_code [])) of Searched ok r v \<Rightarrow> \<not> ok | _ \<Rightarrow> False"
  by code_simp


end
