(* ===== verification/Search_Bounds.thy ===== *)
theory Search_Bounds
  imports Search_Dispatch Vm_Bounds
begin

text \<open>
  A search that finds something returns a slice of the subject that begins at or behind the start: for
  every strategy, any metadata, any bytecode and any cached trie or automaton. What the strategies
  that run a machine need of it is an interface; the full machine provides it.
\<close>

section \<open>Slices\<close>

definition slice_of :: "nat \<Rightarrow> bytes \<Rightarrow> search_result \<Rightarrow> bool" where
  "slice_of a s r \<longleftrightarrow>
     sr_success r \<and> a \<le> sr_match_start r \<and> sr_match_start r \<le> sr_match_end r \<and> sr_match_end r \<le> length s"

definition safe :: "nat \<Rightarrow> bytes \<Rightarrow> searched \<Rightarrow> bool" where
  "safe a s out = (case out of Searched True r w \<Rightarrow> slice_of a s r | _ \<Rightarrow> True)"

definition safe_pair :: "nat \<Rightarrow> bytes \<Rightarrow> bool \<times> search_result \<Rightarrow> bool" where
  "safe_pair a s p \<longleftrightarrow> (fst p \<longrightarrow> slice_of a s (snd p))"

lemma safe_simps [simp]:
  "safe a s (Searched ok r w) \<longleftrightarrow> (ok \<longrightarrow> slice_of a s r)" "safe a s Search_fault" "safe a s Search_unfinished"
  "safe_pair a s (ok, r) \<longleftrightarrow> (ok \<longrightarrow> slice_of a s r)"
  "slice_of a s (found_at i e r) \<longleftrightarrow> a \<le> i \<and> i \<le> e \<and> e \<le> length s"
  by (auto simp: safe_def safe_pair_def slice_of_def found_at_def split: bool.splits)

lemma safe_of_pair: "safe_pair a s p \<Longrightarrow> safe a s (case p of (ok, r) \<Rightarrow> Searched ok r v)"
  by (cases p) simp

section \<open>Strategies that run the machine\<close>

text \<open>
  Started at an offset, the machine ends with its cursor in the rest of the subject, and can be started
  again.
\<close>

locale bounded_machine =
  fixes run :: "'m \<Rightarrow> vm \<Rightarrow> outcome" and sound :: "bytes \<Rightarrow> vm \<Rightarrow> bool"
  assumes stays_inside: "sound s v \<Longrightarrow> i \<le> length s \<Longrightarrow> run m (search_reset_vm s i v) = Done ok w \<Longrightarrow>
    sound s w \<and> vm_pos w \<le> length s - i"
begin

lemma attempt_safe:
  assumes "sound s v" "a \<le> i" "i \<le> length s" "\<And>w. sound s w \<Longrightarrow> safe a s (f w)"
  shows "safe a s (try_at (run m) s i r v f)"
proof (cases "run m (search_reset_vm s i v)")
  case (Done ok w)
  then have "sound s w" "vm_pos w \<le> length s - i" using stays_inside [OF assms(1,3)] by blast+
  then show ?thesis using Done assms(2-4) by (cases ok) (simp_all add: try_at_def)
qed (simp_all add: try_at_def)

lemma loop_safe:
  assumes over: "\<And>i v. length s < i \<Longrightarrow> safe a s (loop i v)"
    and step: "\<And>i v. a \<le> i \<Longrightarrow> i \<le> length s \<Longrightarrow> sound s v \<Longrightarrow>
      (\<And>j w. i < j \<Longrightarrow> sound s w \<Longrightarrow> safe a s (loop j w)) \<Longrightarrow> safe a s (loop i v)"
  shows "a \<le> i \<Longrightarrow> sound s v \<Longrightarrow> safe a s (loop i v)"
proof (induction i arbitrary: v rule: measure_induct_rule [of "\<lambda>i. Suc (length s) - i"])
  case (less i)
  show ?case
  proof (cases "i \<le> length s")
    case True
    show ?thesis
    proof (rule step [OF less.prems(1) True less.prems(2)])
      fix j w assume "i < j" "sound s w"
      moreover from this True have "Suc (length s) - j < Suc (length s) - i" by linarith
      ultimately show "safe a s (loop j w)" using less.prems(1) by (intro less.IH) simp_all
    qed
  qed (simp add: over)
qed

lemma break_safe: "a \<le> i \<Longrightarrow> sound s v \<Longrightarrow> safe a s (search_break_accelerated (run m) s meta anchored i r v)"
proof (rule loop_safe [where loop = "\<lambda>i v. search_break_accelerated (run m) s meta anchored i r v"])
  show "safe a s (search_break_accelerated (run m) s meta anchored i r v)" if "length s < i" for i v
    using that by (subst search_break_accelerated.simps) simp
  show "safe a s (search_break_accelerated (run m) s meta anchored i r v)"
    if at: "a \<le> i" "i \<le> length s" "sound s v"
      and on: "\<And>j w. i < j \<Longrightarrow> sound s w \<Longrightarrow> safe a s (search_break_accelerated (run m) s meta anchored j r w)" for i v
  proof -
    have go: "\<not> anchored \<Longrightarrow> i < j \<Longrightarrow> sound s w \<Longrightarrow> safe a s (search_break_accelerated (run m) s meta False j r w)" for j w
      using on [of j w] by simp
    have "i < delimiter_from (sm_class_bitmap meta) s i + 1" using delimiter_from_ge [of i] by (simp add: less_Suc_eq_le)
    then show ?thesis
      by (subst search_break_accelerated.simps) (use at in \<open>auto simp: Let_def intro!: attempt_safe go\<close>)
  qed
qed

lemma span_safe: "a \<le> i \<Longrightarrow> sound s v \<Longrightarrow> safe a s (search_span_accelerated (run m) s meta anchored i r v)"
  by (rule loop_safe [where loop = "\<lambda>i v. search_span_accelerated (run m) s meta anchored i r v"];
      (subst search_span_accelerated.simps)?) (auto intro!: attempt_safe)

lemma bitmap_safe: "a \<le> i \<Longrightarrow> sound s v \<Longrightarrow> safe a s (search_bitmap_accelerated (run m) s meta anchored i r v)"
  by (rule loop_safe [where loop = "\<lambda>i v. search_bitmap_accelerated (run m) s meta anchored i r v"];
      (subst search_bitmap_accelerated.simps)?) (auto intro!: attempt_safe)

lemma prefix_safe: "a \<le> i \<Longrightarrow> sound s v \<Longrightarrow> safe a s (search_literal_accelerated (run m) s meta anchored i r v)"
proof (rule loop_safe [where loop = "\<lambda>i v. search_literal_accelerated (run m) s meta anchored i r v"])
  show "safe a s (search_literal_accelerated (run m) s meta anchored i r v)" if "length s < i" for i v
    using that by (subst search_literal_accelerated.simps) simp
  show "safe a s (search_literal_accelerated (run m) s meta anchored i r v)"
    if at: "a \<le> i" "i \<le> length s" "sound s v"
      and on: "\<And>j w. i < j \<Longrightarrow> sound s w \<Longrightarrow> safe a s (search_literal_accelerated (run m) s meta anchored j r w)" for i v
  proof (cases "prefix_candidate (sm_literal_prefix meta) s i")
    case (Some cand)
    have go: "\<not> anchored \<Longrightarrow> i < j \<Longrightarrow> sound s w \<Longrightarrow> safe a s (search_literal_accelerated (run m) s meta False j r w)" for j w
      using on [of j w] by simp
    from Some have "i \<le> cand" "cand \<le> length s"
      using at(2) by (auto simp: prefix_candidate_def split: if_splits dest: memchr_at_Some pair_from_Some memmem_at_Some)
    then show ?thesis
      by (subst search_literal_accelerated.simps) (use at Some in \<open>auto intro!: attempt_safe go\<close>)
  qed (subst search_literal_accelerated.simps, simp)
qed

lemma general_safe: "a \<le> i \<Longrightarrow> sound s v \<Longrightarrow> safe a s (tier_general_fallback (run m) s meta anchored i r v)"
  unfolding tier_general_fallback_def
  by (rule loop_safe [where loop = "\<lambda>i v. general_loop (run m) s meta anchored i (r\<lparr>sr_aborted := False\<rparr>) v"];
      (subst general_loop.simps)?) (auto intro!: attempt_safe simp: bmh_advance_pos)

end

interpretation bounded: bounded_machine "\<lambda>(legacy, k). vm_exec legacy k"
  "\<lambda>s v. length s < 2 ^ 31 \<and> regs_within (length s) v"
proof
  fix s v i w ok and m :: "bool \<times> nat"
  assume v: "length s < 2 ^ 31 \<and> regs_within (length s) v" and i: "i \<le> length s"
    and run: "(case m of (legacy, k) \<Rightarrow> vm_exec legacy k) (search_reset_vm s i v) = Done ok w"
  obtain legacy k where m: "m = (legacy, k)" by (cases m)
  have "regs_within (length s) (search_reset_vm s i v)" "length (vm_s (search_reset_vm s i v)) = length s - i"
    using regs_within_cong [of "length s" v] v by (simp_all add: search_reset_vm_def)
  moreover from v have "length s - i < 2 ^ 31" by linarith
  ultimately have "within (length s) (length s - i) w"
    using vm_exec_within [of "length s" "search_reset_vm s i v" legacy k ok w] run by (simp add: m)
  then show "(length s < 2 ^ 31 \<and> regs_within (length s) w) \<and> vm_pos w \<le> length s - i"
    using v within_regs withinD(2) by blast
qed

section \<open>Strategies without the machine\<close>

lemma literal_inside:
  assumes "\<not> lit_outside n off len" "n < 2 ^ 31" "unat len < 2 ^ 31"
  shows "unat off + unat len \<le> n"
proof -
  have "unat off + unat len < 2 ^ 32" using assms by (simp add: lit_outside_def)
  then have "unat (off + len) = unat off + unat len" by (simp add: unat_word_ariths)
  then show ?thesis using assms(1) by (simp add: lit_outside_def)
qed

lemma literal_only_safe:
  assumes "i \<le> length s" "length s < 2 ^ 31" "length (vm_bc v) < 2 ^ 31"
  shows "safe i s (search_literal_only s anchored i r v)"
proof -
  have inside: "min (unat len) (length (vm_bc v) - unat off) = unat len"
    if "\<not> lit_outside (length (vm_bc v)) off len" "i + unat len \<le> length s" for off len :: u32
    using literal_inside [OF that(1) assms(3)] that(2) assms(2) by simp
  show ?thesis
    using assms(1) by (auto simp: search_literal_only_def Let_def inside dest!: memmem_at_Some split: option.splits)
qed

lemma trie_match_loop_le:
  "snd best \<le> len \<Longrightarrow> snd (trie_match_loop t n s len best) \<le> len + length s"
proof (induction t n s len best rule: trie_match_loop.induct)
  case (2 t n b s len best)
  show ?case
  proof (cases "fst (edge_of t n b)")
    case (Some e)
    define best' where "best' = (case no_end (at_nodes t ! ed_next (at_edges t ! e)) of
      Some k \<Rightarrow> if k < fst best then (k, len + 1) else best | None \<Rightarrow> best)"
    have "snd best' \<le> len + 1" using "2.prems" by (auto simp: best'_def split: option.splits)
    then have "snd (trie_match_loop t (ed_next (at_edges t ! e)) s (len + 1) best') \<le> len + 1 + length s"
      using "2.IH" [OF Some refl] by (simp only: best'_def)
    then show ?thesis using Some by (simp add: Let_def best'_def)
  qed (use "2.prems" in simp)
qed simp

lemma trie_match_le: "trie_match t s i = Some n \<Longrightarrow> i \<le> length s \<Longrightarrow> i + n \<le> length s"
  using trie_match_loop_le [of "case no_end (at_nodes t ! 0) of Some k \<Rightarrow> (k, 0) | None \<Rightarrow> (65535, 0)" 0 t 0 "drop i s"]
  by (auto simp: trie_match_def Let_def split: if_splits option.splits)

lemma alt_scan_safe: "a \<le> i \<Longrightarrow> safe_pair a s (alt_scan t after s meta anchored start i r)"
proof (induction t after s meta anchored start i r rule: alt_scan.induct)
  case (1 t after s meta anchored start i r)
  then show ?case
    by (subst alt_scan.simps)
      (auto split: option.splits dest!: trie_match_le)
qed

lemma fusion_bounds:
  assumes "i \<le> length s"
  shows "exec_literal lit s i = Some e \<Longrightarrow> i \<le> e \<and> e \<le> length s"
    and "exec_char bm s i = Some e \<Longrightarrow> i \<le> e \<and> e \<le> length s"
    and "exec_run bm least s i = Some e \<Longrightarrow> i \<le> e \<and> e \<le> length s"
proof -
  have run: "i \<le> length s \<Longrightarrow> i \<le> run_end test s i \<and> run_end test s i \<le> length s" for test
  proof (induction test s i rule: run_end.induct)
    case (1 test s cur)
    then show ?case by (subst (1 2) run_end.simps) auto
  qed
  show "exec_run bm least s i = Some e \<Longrightarrow> i \<le> e \<and> e \<le> length s"
    using run [OF assms] by (auto simp: exec_run_def Let_def split: if_splits)
  show "exec_literal lit s i = Some e \<Longrightarrow> i \<le> e \<and> e \<le> length s"
    by (auto simp: exec_literal_def split: if_splits)
  show "exec_char bm s i = Some e \<Longrightarrow> i \<le> e \<and> e \<le> length s"
    by (auto simp: exec_char_def split: if_splits)
qed

lemma exec_branch_bounds: "exec_branch segs s i = Some e \<Longrightarrow> i \<le> length s \<Longrightarrow> i \<le> e \<and> e \<le> length s"
proof (induction segs arbitrary: i)
  case (Cons seg segs)
  obtain j where j: "(case seg of FUSION_LIT lit \<Rightarrow> exec_literal lit s i | FUSION_RUN bm least \<Rightarrow> exec_run bm least s i
      | FUSION_CHAR bm \<Rightarrow> exec_char bm s i | FUSION_ALT alts \<Rightarrow> None) = Some j" "exec_branch segs s j = Some e"
    using Cons.prems(1) by (auto split: option.splits)
  have "i \<le> j \<and> j \<le> length s"
    using j(1) fusion_bounds [OF Cons.prems(2)] by (cases seg) auto
  then show ?case using Cons.IH [OF j(2)] by simp
qed simp

lemma exec_alts_bounds: "exec_alts alts s i = Some e \<Longrightarrow> i \<le> length s \<Longrightarrow> i \<le> e \<and> e \<le> length s"
  by (induction alts) (auto split: if_splits option.splits dest: exec_branch_bounds)

lemma exec_fusion_bounds: "exec_fusion segs s i = Some e \<Longrightarrow> i \<le> length s \<Longrightarrow> i \<le> e \<and> e \<le> length s"
proof (induction segs arbitrary: i)
  case (Cons seg segs)
  obtain j where j: "(case seg of FUSION_LIT lit \<Rightarrow> exec_literal lit s i | FUSION_RUN bm least \<Rightarrow> exec_run bm least s i
      | FUSION_CHAR bm \<Rightarrow> exec_char bm s i | FUSION_ALT alts \<Rightarrow> exec_alts alts s i) = Some j" "exec_fusion segs s j = Some e"
    using Cons.prems(1) by (auto split: option.splits)
  have "i \<le> j \<and> j \<le> length s"
    using j(1) fusion_bounds [OF Cons.prems(2)] exec_alts_bounds [OF _ Cons.prems(2)] by (cases seg) auto
  then show ?case using Cons.IH [OF j(2)] by simp
qed simp

lemma fusion_safe: "a \<le> i \<Longrightarrow> i \<le> length s \<Longrightarrow> safe_pair a s (tier_fusion s meta anchored i r)"
proof -
  have scan: "a \<le> i \<Longrightarrow> safe_pair a s (fusion_scan segs s i r)" for segs
  proof (induction segs s i r rule: fusion_scan.induct)
    case (1 segs s i r)
    then show ?case by (subst fusion_scan.simps) (auto split: option.splits dest: exec_fusion_bounds)
  qed
  show "a \<le> i \<Longrightarrow> i \<le> length s \<Longrightarrow> safe_pair a s (tier_fusion s meta anchored i r)"
    by (auto simp: tier_fusion_def scan split: option.splits dest: exec_fusion_bounds)
qed

lemma nfa_loop_bounds:
  "i \<le> length s \<Longrightarrow> (case nfa_loop nfa s i st of Inl e \<Rightarrow> i < e \<and> e \<le> length s | Inr (st', j) \<Rightarrow> i \<le> j \<and> j \<le> length s)"
proof (induction nfa s i st rule: nfa_loop.induct)
  case (1 nfa s i st)
  show ?case
    using 1 by (subst nfa_loop.simps) (fastforce simp: Let_def split: sum.splits prod.splits)
qed

lemma nfa_bounds:
  assumes "simd_nfa_exec_scalar nfa s i = Some e" "i \<le> length s"
  shows "i \<le> e \<and> e \<le> length s"
  using assms(1) nfa_loop_bounds [OF assms(2), of nfa "push_bit (nf_start_state nfa) 1"]
  by (auto simp: simd_nfa_exec_scalar_def split: sum.splits prod.splits if_splits)

lemma nfa_safe: "a \<le> i \<Longrightarrow> i \<le> length s \<Longrightarrow> safe_pair a s (nfa_search nfa s anchored i r)"
proof -
  have scan: "a \<le> i \<Longrightarrow> safe_pair a s (nfa_scan nfa s i r)"
  proof (induction nfa s i r rule: nfa_scan.induct)
    case (1 nfa s i r)
    then show ?case by (subst nfa_scan.simps) (auto split: option.splits dest: nfa_bounds)
  qed
  show "a \<le> i \<Longrightarrow> i \<le> length s \<Longrightarrow> safe_pair a s (nfa_search nfa s anchored i r)"
    by (auto simp: nfa_search_def scan split: option.splits dest: nfa_bounds)
qed

lemma dfa_run_bounds: "dfa_run_from d s i st = Accepted e \<Longrightarrow> i < e \<and> e \<le> length s"
proof (induction d s i st rule: dfa_run_from.induct)
  case (1 d s i st)
  then show ?case by (subst (asm) (2) dfa_run_from.simps) (fastforce simp: Let_def split: if_splits)
qed

lemma automaton_exec_safe: "a \<le> i \<Longrightarrow> safe_pair a s (search_automaton_exec d s i r)"
proof (induction d s i r rule: search_automaton_exec.induct)
  case (1 d s i r)
  then show ?case
    by (subst search_automaton_exec.simps) (auto split: dfa_run.splits dest!: dfa_run_bounds)
qed

lemma automaton_anchored_safe: "a \<le> i \<Longrightarrow> i \<le> length s \<Longrightarrow> safe_pair a s (search_automaton_exec_anchored d s i r)"
  by (auto simp: search_automaton_exec_anchored_def split: dfa_run.splits dest!: dfa_run_bounds)

lemma automaton_scan_safe: "a \<le> i \<Longrightarrow> safe_pair a s (automaton_scan d s meta anchored i r)"
proof (induction d s meta anchored i r rule: automaton_scan.induct)
  case (1 d s meta anchored i r)
  obtain ok r' where e: "search_automaton_exec d s i r = (ok, r')" by fastforce
  then have "safe_pair a s (ok, r')" using automaton_exec_safe [OF 1(2), of s d r] by simp
  then show ?case
    using 1 e by (subst automaton_scan.simps) (cases ok; auto simp: trans_le_add1)
qed

section \<open>The lightweight machine\<close>

definition sv_within :: "bytes \<Rightarrow> search_vm \<Rightarrow> bool" where
  "sv_within s v \<longleftrightarrow> sv_s v = s \<and> sv_pos v \<le> length s \<and> list_all (\<lambda>c. sc_pos c \<le> length s) (sv_choices v)"

definition sv_stays :: "bytes \<Rightarrow> sv_outcome \<Rightarrow> bool" where
  "sv_stays s out = (case out of Sv_go w \<Rightarrow> sv_within s w | Sv_done ok aborted w \<Rightarrow> sv_within s w | Sv_fault \<Rightarrow> True)"

lemma sv_stays_simps [simp]:
  "sv_stays s (Sv_go w) = sv_within s w" "sv_stays s (Sv_done ok aborted w) = sv_within s w" "sv_stays s Sv_fault"
  by (simp_all add: sv_stays_def)

lemma sv_backtrack_stays: "sv_within s v \<Longrightarrow> sv_stays s (sv_backtrack v)"
  by (auto simp: sv_backtrack_def search_vm_pop_choice_def sv_within_def split: option.splits list.splits)

lemma sv_push_within: "sv_within s v \<Longrightarrow> p \<le> length s \<Longrightarrow> sv_within s (search_vm_push_choice ip p v)"
  by (simp add: search_vm_push_choice_def sv_within_def)

lemma sv_operand_within:
  "sv_within s v \<Longrightarrow> sv_within s (snd (sv_u8 v))" "sv_within s v \<Longrightarrow> sv_within s (snd (sv_u16 v))"
  "sv_within s v \<Longrightarrow> sv_within s (snd (sv_u32 v))"
  by (simp_all add: sv_u8_def sv_u16_def sv_u32_def sv_within_def split: prod.splits)

lemma sv_scan_bounds: "p \<le> length s \<Longrightarrow> sv_scan test s p \<le> length s"
proof (induction test s p rule: sv_scan.induct)
  case (1 test s p)
  have "sv_scan test s (p + n) \<le> length s" if "p < length s \<and> test p" "utf8_peek_next s p = Some (cp, n)" for cp n
    using "1.IH" [OF that refl utf8_peek_next_end [OF that(2)]] .
  then show ?case using 1(2) by (subst sv_scan.simps) (auto split: option.splits)
qed

lemma sv_byte_scan_bounds: "p \<le> length s \<Longrightarrow> sv_byte_scan test s p \<le> length s"
proof (induction test s p rule: sv_byte_scan.induct)
  case (1 test s p)
  then show ?case by (subst sv_byte_scan.simps) auto
qed

lemma sv_forward_bounds: "sv_forward s p n = Some q \<Longrightarrow> p \<le> length s \<Longrightarrow> q \<le> length s"
  by (induction s p n rule: sv_forward.induct) (auto split: option.splits dest: utf8_peek_next_end)

lemma sv_withinD: "sv_within s v \<Longrightarrow> sv_s v = s" "sv_within s v \<Longrightarrow> sv_pos v \<le> length s"
  by (simp_all add: sv_within_def)

lemma sv_move_stays: "sv_within s v \<Longrightarrow> (\<And>p. target = Some p \<Longrightarrow> p \<le> length s) \<Longrightarrow> sv_stays s (sv_move v target)"
  by (auto simp: sv_move_def sv_backtrack_stays sv_within_def split: option.splits)

lemma sv_next_cp_stays: "sv_within s v \<Longrightarrow> sv_stays s (sv_next_cp v)"
  unfolding sv_next_cp_def by (rule sv_move_stays) (auto simp: sv_within_def dest: utf8_peek_next_end)

lemma sv_with_operand:
  "sv_within s v \<Longrightarrow> (\<And>x w. sv_within s w \<Longrightarrow> sv_stays s (f x w)) \<Longrightarrow> sv_stays s (case sv_u8 v of (x, w) \<Rightarrow> f x w)"
  "sv_within s v \<Longrightarrow> (\<And>y w. sv_within s w \<Longrightarrow> sv_stays s (g y w)) \<Longrightarrow> sv_stays s (case sv_u16 v of (y, w) \<Rightarrow> g y w)"
  "sv_within s v \<Longrightarrow> (\<And>z w. sv_within s w \<Longrightarrow> sv_stays s (h z w)) \<Longrightarrow> sv_stays s (case sv_u32 v of (z, w) \<Rightarrow> h z w)"
  using sv_operand_within [of s v] by (auto split: prod.splits)

lemma sv_same: "sv_within s v \<Longrightarrow> sv_s w = sv_s v \<Longrightarrow> sv_pos w = sv_pos v \<Longrightarrow> sv_choices w = sv_choices v \<Longrightarrow> sv_within s w"
  by (simp add: sv_within_def)

lemma sv_at: "sv_within s v \<Longrightarrow> p \<le> length s \<Longrightarrow> sv_within s (v\<lparr>sv_pos := p\<rparr>)"
  by (simp add: sv_within_def)

lemma sv_registers_stay:
  assumes "sv_within s v"
  shows "sv_stays s (sv_cap_start_op v)" "sv_stays s (sv_cap_end_op v)" "sv_stays s (sv_assign v)" "sv_stays s (sv_jmp v)"
    "sv_stays s (sv_split v)"
  unfolding sv_cap_start_op_def sv_cap_end_op_def sv_assign_def sv_jmp_def sv_split_def Let_def
  by ((intro sv_with_operand assms; simp add: sv_within_def search_vm_push_choice_def)+)

lemma sv_tests_stay:
  assumes "sv_within s v"
  shows "sv_stays s (sv_anchor v)" "sv_stays s (sv_pos_op v)" "sv_stays s (sv_rpos v)"
  unfolding sv_pos_op_def sv_rpos_def
  by ((intro sv_with_operand assms)?; auto simp: sv_anchor_def Let_def sv_backtrack_stays sv_same [OF assms])+

lemma sv_moves_stay:
  assumes "sv_within s v"
  shows "sv_stays s (sv_len v)" "sv_stays s (sv_tab v)" "sv_stays s (sv_rtab v)"
  unfolding sv_len_def sv_tab_def sv_rtab_def Let_def
  by (intro sv_with_operand assms; auto intro!: sv_move_stays simp: sv_backtrack_stays sv_withinD dest: sv_forward_bounds)+

lemma sv_classes_stay:
  assumes "sv_within s v"
  shows "sv_stays s (sv_any v)" "sv_stays s (sv_notany v)" "sv_stays s (sv_span v)" "sv_stays s (sv_break v)"
    "sv_stays s (sv_breakx v)"
  unfolding sv_any_def sv_notany_def sv_span_def sv_break_def sv_breakx_def Let_def
  by (intro sv_with_operand assms;
      auto simp: sv_next_cp_stays sv_backtrack_stays sv_withinD sv_scan_bounds sv_byte_scan_bounds
        intro!: sv_at sv_push_within split: option.splits dest: utf8_peek_next_end)+

lemma sv_lit_stays: "sv_within s v \<Longrightarrow> sv_stays s (sv_lit v)"
  unfolding sv_lit_def Let_def
  by (intro sv_with_operand; auto simp: sv_backtrack_stays sv_within_def)

lemma sv_loops_stay:
  assumes "sv_within s v"
  shows "sv_stays s (sv_repeat_init v)" "sv_stays s (sv_repeat_step v)"
  unfolding sv_repeat_init_def sv_repeat_step_def Let_def
  by (intro sv_with_operand assms; auto simp: sv_within_def sv_loop_again_def search_vm_push_choice_def)+

lemmas sv_instructions_stay =
  sv_registers_stay sv_tests_stay sv_moves_stay sv_classes_stay sv_lit_stays sv_loops_stay sv_backtrack_stays

lemma sv_step_stays: "sv_within s v \<Longrightarrow> sv_stays s (sv_step v)"
proof -
  assume v: "sv_within s v"
  have "sv_stays s (sv_exec_op oc w)" if "sv_within s w" for oc w
    using that by (cases oc) (simp_all add: sv_exec_op_def sv_instructions_stay, simp add: sv_within_def)
  moreover have "sv_within s (v\<lparr>sv_ip := sv_ip v + 1\<rparr>)" using v by (simp add: sv_within_def)
  ultimately show ?thesis using v by (simp add: sv_step_def sv_backtrack_stays split: option.splits)
qed

lemma sv_loop_stays: "sv_within s v \<Longrightarrow> sv_loop n v = Some out \<Longrightarrow> sv_stays s out"
proof (induction n v rule: sv_loop.induct)
  case (2 n v)
  then show ?case using sv_step_stays [OF 2(2)] by (cases "sv_step v") auto
qed simp

lemma search_vm_scan_safe: "a \<le> i \<Longrightarrow> safe a s (search_vm_scan n regs s meta anchored i old r v)"
proof (induction n regs s meta anchored i old r v rule: search_vm_scan.induct)
  case (1 n regs s meta anchored i old r v)
  let ?w = "search_reset_vm s i v"
  let ?x = "search_vm_init_from_vm old ?w regs"
  show ?case
  proof (cases "length s < i")
    case in_s: False
    have x: "sv_within (drop i s) (?x\<lparr>sv_choices := []\<rparr>)"
      by (simp add: sv_within_def search_vm_init_from_vm_def search_reset_vm_def Let_def)
    show ?thesis
    proof (cases "search_vm_exec n ?x")
      case (Some out)
      then have st: "sv_stays (drop i s) out" using sv_loop_stays [OF x] by (simp add: search_vm_exec_def)
      show ?thesis
      proof (cases out)
        case (Sv_done ok aborted y)
        have "sv_pos y \<le> length s - i" using st Sv_done by (simp add: sv_within_def)
        then have "i + sv_pos y \<le> length s" using in_s by simp
        moreover have "safe a s (search_vm_scan n regs s meta anchored (i + bmh_advance meta s i) y
            (r\<lparr>sr_aborted := False\<rparr>) (search_vm_writeback_to_vm y ?w))"
          if "\<not> ok" "\<not> aborted" "\<not> (length s \<le> i \<or> anchored)"
          by (rule "1.IH" [OF in_s refl Some Sv_done refl that]) (use "1.prems" in simp)
        ultimately show ?thesis
          using in_s "1.prems" Some Sv_done by (subst search_vm_scan.simps) (simp add: Let_def)
      qed (use in_s Some in \<open>subst search_vm_scan.simps; simp add: Let_def\<close>)+
    qed (use in_s in \<open>subst search_vm_scan.simps; simp add: Let_def\<close>)
  qed (subst search_vm_scan.simps; simp)
qed

section \<open>The entry points\<close>

lemma alt_search_safe:
  assumes "length s < 2 ^ 31" "regs_within (length s) v"
  shows "safe i s (fst (search_alt_literals_try n (vm_exec legacy k) cache after s meta anchored i r v))"
proof -
  have scan: "safe i s (case alt_scan t after s meta anchored i i r of (b, r') \<Rightarrow> Searched b r' v)" for t
    by (rule safe_of_pair [OF alt_scan_safe]) simp
  have "safe i s (tier_general_fallback (vm_exec legacy k) s meta anchored i r v)"
    using bounded.general_safe [of i i s v "(legacy, k)"] assms by simp
  then show ?thesis
    using scan by (simp add: search_alt_literals_try_def Let_def split: option.splits walk.splits built.splits)
qed

lemma automaton_search_safe:
  assumes "length s < 2 ^ 31" "regs_within (length s) v"
  shows "safe i s (tier_automaton n (vm_exec legacy k) given s meta anchored i r v)"
proof -
  have general: "safe i s (tier_general_fallback (vm_exec legacy k) s meta anchored i r v)" for r
    using bounded.general_safe [of i i s v "(legacy, k)"] assms by simp
  have "safe i s (case automaton_scan d s meta anchored i r of
      (True, r') \<Rightarrow> Searched True r' v | (False, r') \<Rightarrow> tier_general_fallback (vm_exec legacy k) s meta anchored i r' v)" for d
    using automaton_scan_safe [of i i s d meta anchored r] general by (auto split: prod.splits bool.splits)
  then show ?thesis
    using general by (simp add: tier_automaton_def Let_def split: option.splits walk.splits)
qed

lemma tier_safe:
  assumes "i \<le> length s" "length s < 2 ^ 31" "length (vm_bc v) < 2 ^ 31" "regs_within (length s) v"
    "en_run e = vm_exec legacy k"
  shows "safe i s (fst (tier_table t e c s meta anchored i r v))"
proof -
  note run = assms(2,4)
  have "safe i s (tier_simd_nfa (vm_exec legacy k) cached s meta anchored i r v)" for cached
    using bounded.general_safe [of i i s v "(legacy, k)"] run assms(1)
    by (auto simp: tier_simd_nfa_def intro!: safe_of_pair nfa_safe split: option.splits)
  moreover have "safe i s (case tier_fusion s meta anchored i r of (ok, r') \<Rightarrow> Searched ok r' v)"
    using assms(1) by (intro safe_of_pair fusion_safe) simp_all
  moreover have "safe i s (tier_search_vm n s meta anchored i r v)" for n
    by (simp add: tier_search_vm_def search_vm_scan_safe)
  ultimately show ?thesis
    using run assms(1,3,5) literal_only_safe [OF assms(1-3)] alt_search_safe [OF run] automaton_search_safe [OF run]
      bounded.break_safe [of i i s v "(legacy, k)"] bounded.span_safe [of i i s v "(legacy, k)"]
      bounded.prefix_safe [of i i s v "(legacy, k)"] bounded.bitmap_safe [of i i s v "(legacy, k)"]
      bounded.general_safe [of i i s v "(legacy, k)"]
    by (cases t) (simp_all add: tier_table_def Let_def)
qed

lemma dispatch_safe:
  assumes "length s < 2 ^ 31" "length (vm_bc v) < 2 ^ 31" "regs_within (length s) v" "en_run e = vm_exec legacy k"
  shows "safe i s (fst (dispatch_search_impl e c s meta anchored i r v))"
proof -
  have lazy: "regs_within (length s) (lazy_init t v)" "vm_bc (lazy_init t v) = vm_bc v" for t
    using regs_within_cong [OF assms(3)] by (simp_all add: lazy_init_def)
  have "safe i s (fst (dispatch_with e c s m anchored i r v))" if "i \<le> length s" for m r
    using tier_safe [OF that assms(1) _ lazy(1) assms(4)] assms(2) automaton_anchored_safe [of i i s "the (ca_dfa c)" r] that
    by (auto simp: dispatch_with_def Let_def lazy(2) split: prod.splits bool.splits)
  then show ?thesis by (auto simp: dispatch_search_impl_def Let_def split: option.splits walk.splits)
qed

text \<open>
  C4: A search returns a slice of the subject. Whatever the metadata, given or derived, the bytecode, the
  caches, the start and the strategy that is chosen: when the search, anchored or not, reports a match,
  the match begins at or behind the start, does not end before it begins, and ends within the subject.
  The subject and the bytecode have less than 2 GiB, and the registers that runs before have left in the
  machine are within the subject; the machine runs in either choice mode with any number of steps.
\<close>

theorem search_result_is_a_slice:
  assumes "length subject < 2 ^ 31" "length (vm_bc v) < 2 ^ 31" "regs_within (length subject) v"
    "en_run e = vm_exec legacy k"
    "fst (snobol_search_exec diag e c subject meta start r v) = Searched True r' w \<or>
     start = 0 \<and> fst (snobol_search_exec_anchored e c subject meta r v) = Searched True r' w"
  shows "sr_success r' \<and> start \<le> sr_match_start r' \<and> sr_match_start r' \<le> sr_match_end r' \<and>
    sr_match_end r' \<le> length subject"
proof -
  note dispatch = dispatch_safe [OF assms(1-4)]
  have "safe start subject (single_byte_search b subject start r v)" for b
    by (auto simp: single_byte_search_def Let_def dest: memchr_at_Some split: option.splits)
  then have "safe start subject (fst (snobol_search_exec diag e c subject meta start r v))"
    using dispatch by (simp add: snobol_search_exec_def split: option.splits)
  moreover have "safe 0 subject (fst (snobol_search_exec_anchored e c subject meta r v))"
    using dispatch by (simp add: snobol_search_exec_anchored_def)
  ultimately have "safe start subject (Searched True r' w)" using assms(5) by auto
  then show ?thesis by (simp add: slice_of_def)
qed

text \<open>The literal 'b', with the metadata derived on the way.\<close>

definition lit_program :: bytes where
  "lit_program = [4, 0, 0, 0, 9, 0, 0, 0, 1, 98, 0]"

theorem search_result_is_a_slice_witness:
  "\<exists>r w. fst (snobol_search_exec False \<lparr>en_walk = 10, en_steps = 10, en_run = vm_exec False 10, en_after = 0\<rparr>
       \<lparr>ca_dfa = None, ca_trie = None, ca_nfa = None\<rparr> [97, 98, 97] None 0
       \<lparr>sr_success = False, sr_match_start = 0, sr_match_end = 0, sr_prefilter_skip = False, sr_aborted = False\<rparr>
       (vm_zero lit_program [])) = Searched True r w \<and>
     sr_match_start r = 1 \<and> sr_match_end r = 2 \<and> sr_success r \<and> sr_match_end r \<le> 3"
proof -
  let ?e = "\<lparr>en_walk = 10, en_steps = 10, en_run = vm_exec False 10, en_after = 0\<rparr>"
  let ?c = "\<lparr>ca_dfa = None, ca_trie = None, ca_nfa = None\<rparr>"
  let ?r = "\<lparr>sr_success = False, sr_match_start = 0, sr_match_end = 0, sr_prefilter_skip = False, sr_aborted = False\<rparr>"
  let ?s = "[97, 98, 97] :: bytes" and ?v = "vm_zero lit_program []"
  have "case fst (snobol_search_exec False ?e ?c ?s None 0 ?r ?v) of
      Searched True r w \<Rightarrow> sr_match_start r = 1 \<and> sr_match_end r = 2 | _ \<Rightarrow> False"
    by code_simp
  then obtain r w where rw: "fst (snobol_search_exec False ?e ?c ?s None 0 ?r ?v) = Searched True r w"
      "sr_match_start r = 1" "sr_match_end r = 2"
    by (auto split: searched.splits bool.splits)
  have "length ?s < 2 ^ 31" "length (vm_bc ?v) < 2 ^ 31" "regs_within (length ?s) ?v" "en_run ?e = vm_exec False 10"
    by (simp_all add: vm_zero_def lit_program_def regs_within_def all_le_def)
  from search_result_is_a_slice [OF this disjI1 [OF rw(1)]] show ?thesis using rw by simp
qed

end
